(* ===== verification/Prelude.thy ===== *)
theory Prelude
  imports Main "HOL-Library.Char_ord" "HOL-Library.List_Lexorder" "HOL-Library.Product_Lexorder"
begin

text \<open>
  Shared ground of the development: strings as the C++ code handles them (decimal rendering,
  prefixes, substrings, joining), the containers of the standard library, and the lemmas the
  component theories share.

  \<^item> \<open>std::string\<close> is \<^typ>\<open>string\<close>; \<open>std::string::operator<\<close> compares bytes
    lexicographically, which is the order the library theories \<open>Char_ord\<close> and
    \<open>List_Lexorder\<close> give to \<^typ>\<open>string\<close>.
  \<^item> \<open>std::map<K, V>\<close> is an association list sorted by key (\<open>omap\<close>), because the code iterates
    it in key order.
  \<^item> \<open>std::unordered_map<K, V>\<close> is an association list (\<open>umap\<close>) whose list order is the iteration
    order, which the language leaves unspecified: a theorem over all lists holds for all orders.
  \<^item> \<open>std::set\<close> and \<open>std::unordered_set\<close> are sets; a sorted iteration over a \<open>std::set\<close> is
    \<^const>\<open>sorted_list_of_set\<close>.
\<close>

section \<open>Collections of rules the component theories extend\<close>

named_theorems builder_defs \<open>definitions of the diagnostic builder's steps\<close>
named_theorems query_defs \<open>definitions of the queries over facts\<close>
named_theorems sym_intros \<open>symmetry of the relations between two program points\<close>

section \<open>Strings\<close>

definition starts_with :: "string \<Rightarrow> string \<Rightarrow> bool" where
  "starts_with s p \<longleftrightarrow> take (length p) s = p"

fun contains :: "string \<Rightarrow> string \<Rightarrow> bool" where
  "contains [] p \<longleftrightarrow> p = []"
| "contains (c # s) p \<longleftrightarrow> starts_with (c # s) p \<or> contains s p"

definition digit_char :: "nat \<Rightarrow> char" where
  "digit_char d = char_of (48 + d)"

fun to_string_nat :: "nat \<Rightarrow> string" where
  "to_string_nat n =
     (if n < 10 then [digit_char n]
      else to_string_nat (n div 10) @ [digit_char (n mod 10)])"

declare to_string_nat.simps [simp del]

definition to_string_int :: "int \<Rightarrow> string" where
  "to_string_int i =
     (if i < 0 then CHR ''-'' # to_string_nat (nat (- i)) else to_string_nat (nat i))"

text \<open>The join helper several checkers define for themselves: values separated by a comma.\<close>

fun join_with :: "string \<Rightarrow> string list \<Rightarrow> string" where
  "join_with sep [] = []"
| "join_with sep [x] = x"
| "join_with sep (x # y # xs) = x @ sep @ join_with sep (y # xs)"

definition isdigit :: "char \<Rightarrow> bool" where
  "isdigit c \<longleftrightarrow> 48 \<le> (of_char c :: nat) \<and> (of_char c :: nat) \<le> 57"

definition digit_value :: "char \<Rightarrow> nat" where
  "digit_value c = of_char c - 48"

definition isspace :: "char \<Rightarrow> bool" where
  "isspace c \<longleftrightarrow> (of_char c :: nat) = 32 \<or> (9 \<le> (of_char c :: nat) \<and> (of_char c :: nat) \<le> 13)"

lemma starts_with_iff: "starts_with s p \<longleftrightarrow> (\<exists>t. s = p @ t)"
  by (auto simp: starts_with_def) (metis append_take_drop_id)

lemma contains_iff: "contains s p \<longleftrightarrow> (\<exists>u v. s = u @ p @ v)"
proof (induction s p rule: contains.induct)
  case (1 p)
  then show ?case by auto
next
  case (2 c s p)
  show ?case
  proof
    assume "contains (c # s) p"
    then consider "starts_with (c # s) p" | "contains s p" by auto
    then show "\<exists>u v. c # s = u @ p @ v"
    proof cases
      case 1
      then show ?thesis by (metis append_Nil starts_with_iff)
    next
      case 2
      with "2.IH" show ?thesis by (metis append_Cons)
    qed
  next
    assume "\<exists>u v. c # s = u @ p @ v"
    then obtain u v where uv: "c # s = u @ p @ v" by blast
    show "contains (c # s) p"
    proof (cases u)
      case Nil
      with uv show ?thesis by (metis append_Nil contains.simps(2) starts_with_iff)
    next
      case (Cons d w)
      with uv have "s = w @ p @ v" by simp
      with "2.IH" show ?thesis by auto
    qed
  qed
qed

lemma of_char_digit [simp]: "d < 10 \<Longrightarrow> (of_char (digit_char d) :: nat) = 48 + d"
  by (simp add: digit_char_def)

lemma isdigit_digit_char [simp]: "d < 10 \<Longrightarrow> isdigit (digit_char d)"
  by (simp add: isdigit_def)

lemma digit_value_digit_char [simp]: "d < 10 \<Longrightarrow> digit_value (digit_char d) = d"
  by (simp add: digit_value_def)

lemma to_string_nat_digits: "c \<in> set (to_string_nat n) \<Longrightarrow> isdigit c"
proof (induction n rule: to_string_nat.induct)
  case (1 n)
  then show ?case
    by (cases "n < 10") (auto simp: to_string_nat.simps [of n])
qed

lemma to_string_nat_nonempty [simp]: "to_string_nat n \<noteq> []"
  by (subst to_string_nat.simps) simp

text \<open>The value a run of decimal digits denotes, the inverse of the rendering.\<close>

definition digits_value :: "string \<Rightarrow> nat" where
  "digits_value s = foldl (\<lambda>v c. v * 10 + digit_value c) 0 s"

lemma digits_value_snoc: "digits_value (s @ [c]) = digits_value s * 10 + digit_value c"
  by (simp add: digits_value_def)

lemma digits_value_to_string [simp]: "digits_value (to_string_nat n) = n"
proof (induction n rule: to_string_nat.induct)
  case (1 n)
  show ?case
  proof (cases "n < 10")
    case True
    then show ?thesis by (simp add: to_string_nat.simps [of n] digits_value_def)
  next
    case False
    with 1 have "digits_value (to_string_nat (n div 10)) = n div 10" by simp
    with False show ?thesis
      by (simp add: to_string_nat.simps [of n] digits_value_snoc)
  qed
qed

lemma to_string_nat_inject [simp]: "to_string_nat m = to_string_nat n \<longleftrightarrow> m = n"
  by (metis digits_value_to_string)

lemma to_string_int_inject [simp]: "to_string_int i = to_string_int j \<longleftrightarrow> i = j"
proof -
  have neg: "to_string_nat m \<noteq> CHR ''-'' # s" for m s
  proof
    assume "to_string_nat m = CHR ''-'' # s"
    then have "isdigit (CHR ''-'')"
      using to_string_nat_digits [of "CHR ''-''" m] by simp
    then show False by (simp add: isdigit_def)
  qed
  show ?thesis
    using neg by (auto simp: to_string_int_def dest: sym)
qed

lemma to_string_int_chars:
  "c \<in> set (to_string_int i) \<Longrightarrow> isdigit c \<or> c = CHR ''-''"
  by (auto simp: to_string_int_def dest: to_string_nat_digits split: if_splits)

text \<open>Splitting a key at its first delimiter, where the part before it holds none.\<close>

lemma split_at_delimiter:
  assumes "a @ d # x = b @ d # y" and "d \<notin> set a" and "d \<notin> set b"
  shows "a = b \<and> x = y"
  using assms
proof (induction a arbitrary: b)
  case Nil
  then show ?case by (cases b) auto
next
  case (Cons c a)
  then show ?case by (cases b) auto
qed

section \<open>Ordered and unordered maps\<close>

text \<open>
  \<open>update k f m\<close> is the access \<open>m[k]\<close> followed by a write: \<open>f\<close> is given the value found, or
  \<^const>\<open>None\<close> where \<open>operator[]\<close> creates the entry, and returns the value stored.
\<close>

fun omap_update :: "'k::linorder \<Rightarrow> ('v option \<Rightarrow> 'v) \<Rightarrow> ('k \<times> 'v) list \<Rightarrow> ('k \<times> 'v) list" where
  "omap_update k f [] = [(k, f None)]"
| "omap_update k f ((k', v) # m) =
     (if k < k' then (k, f None) # (k', v) # m
      else if k = k' then (k, f (Some v)) # m
      else (k', v) # omap_update k f m)"

definition omap_inv :: "('k::linorder \<times> 'v) list \<Rightarrow> bool" where
  "omap_inv m \<longleftrightarrow> sorted_wrt (<) (map fst m)"

definition omap_insert :: "'k::linorder \<Rightarrow> 'v \<Rightarrow> ('k \<times> 'v) list \<Rightarrow> ('k \<times> 'v) list" where
  "omap_insert k v m = omap_update k (\<lambda>_. v) m"

fun umap_update :: "'k \<Rightarrow> ('v option \<Rightarrow> 'v) \<Rightarrow> ('k \<times> 'v) list \<Rightarrow> ('k \<times> 'v) list" where
  "umap_update k f [] = [(k, f None)]"
| "umap_update k f ((k', v) # m) =
     (if k = k' then (k, f (Some v)) # m else (k', v) # umap_update k f m)"

definition umap_inv :: "('k \<times> 'v) list \<Rightarrow> bool" where
  "umap_inv m \<longleftrightarrow> distinct (map fst m)"

text \<open>
  The interface both maps offer their clients: what a lookup returns after an update, that the
  empty map satisfies the representation invariant and that updates keep it. The client's lemma is
  the grouping law: after a loop that updates the entry \<open>key x\<close> for each \<open>x\<close> of a list, the entry
  at \<open>k\<close> is what the updates by the elements with that key made of it, in order.
\<close>

locale map_interface =
  fixes update :: "'k \<Rightarrow> ('v option \<Rightarrow> 'v) \<Rightarrow> ('k \<times> 'v) list \<Rightarrow> ('k \<times> 'v) list"
    and inv :: "('k \<times> 'v) list \<Rightarrow> bool"
  assumes inv_empty: "inv []"
    and inv_update: "inv m \<Longrightarrow> inv (update k f m)"
    and inv_distinct: "inv m \<Longrightarrow> distinct (map fst m)"
    and lookup_update: "inv m \<Longrightarrow> map_of (update k f m) = (map_of m)(k \<mapsto> f (map_of m k))"
begin

lemma inv_fold: "inv m \<Longrightarrow> inv (fold (\<lambda>x. update (key x) (f x)) xs m)"
  by (induction xs arbitrary: m) (simp_all add: inv_update)

lemma lookup_fold:
  "inv m \<Longrightarrow> map_of (fold (\<lambda>x. update (key x) (f x)) xs m) k =
     fold (\<lambda>x r. Some (f x r)) (filter (\<lambda>x. key x = k) xs) (map_of m k)"
  by (induction xs arbitrary: m) (simp_all add: inv_update lookup_update)

lemma entries_update:
  assumes "inv m"
  shows "set (update k f m) = {(k, f (map_of m k))} \<union> {kv \<in> set m. fst kv \<noteq> k}"
proof -
  have "(a, b) \<in> set (update k f m) \<longleftrightarrow> map_of (update k f m) a = Some b" for a b
    using map_of_is_SomeI [OF inv_distinct [OF inv_update [OF assms]]]
    by (metis map_of_SomeD)
  moreover have "(a, b) \<in> set m \<longleftrightarrow> map_of m a = Some b" for a b
    using map_of_is_SomeI [OF inv_distinct [OF assms]] by (metis map_of_SomeD)
  ultimately show ?thesis
    by (auto simp: lookup_update [OF assms] split: if_splits)
qed

lemma keys_fold:
  assumes "inv m"
  shows "fst ` set (fold (\<lambda>x. update (key x) (f x)) xs m) = fst ` set m \<union> key ` set xs"
  using assms
proof (induction xs arbitrary: m)
  case Nil
  then show ?case by simp
next
  case (Cons x xs)
  from Cons.prems have "inv (update (key x) (f x) m)" by (rule inv_update)
  then have "fst ` set (fold (\<lambda>x. update (key x) (f x)) (x # xs) m) =
      fst ` set (update (key x) (f x) m) \<union> key ` set xs"
    by (simp add: Cons.IH)
  also have "fst ` set (update (key x) (f x) m) = insert (key x) (fst ` set m)"
    by (simp add: entries_update [OF Cons.prems], force)
  finally show ?case by auto
qed

end

lemma omap_update_keys: "fst ` set (omap_update k f m) = insert k (fst ` set m)"
  by (induction k f m rule: omap_update.induct) auto

lemma omap_inv_Cons:
  "omap_inv ((k, v) # m) \<longleftrightarrow> omap_inv m \<and> (\<forall>k' \<in> fst ` set m. k < k')"
  by (auto simp: omap_inv_def)

lemma omap_inv_Nil [simp]: "omap_inv []"
  by (simp add: omap_inv_def)

lemma omap_inv_update: "omap_inv m \<Longrightarrow> omap_inv (omap_update k f m)"
proof (induction k f m rule: omap_update.induct)
  case (1 k f)
  then show ?case by (simp add: omap_inv_Cons)
next
  case (2 k f k' v m)
  then show ?case
    by (auto simp: omap_inv_Cons omap_update_keys dest: order.strict_trans)
qed

lemma omap_lookup_update:
  "omap_inv m \<Longrightarrow> map_of (omap_update k f m) = (map_of m)(k \<mapsto> f (map_of m k))"
proof (induction k f m rule: omap_update.induct)
  case (1 k f)
  then show ?case by simp
next
  case (2 k f k' v m)
  then have tail: "omap_inv m" and above: "\<And>x. x \<in> fst ` set m \<Longrightarrow> k' < x"
    by (auto simp: omap_inv_Cons)
  have absent: "k < k' \<Longrightarrow> map_of m k = None"
    using above by (metis less_asym map_of_eq_None_iff)
  show ?case
    using 2 tail absent by auto
qed

lemma umap_update_keys: "fst ` set (umap_update k f m) = insert k (fst ` set m)"
  by (induction k f m rule: umap_update.induct) auto

lemma umap_inv_update: "umap_inv m \<Longrightarrow> umap_inv (umap_update k f m)"
  by (induction k f m rule: umap_update.induct)
    (auto simp: umap_inv_def umap_update_keys)

lemma umap_lookup_update: "map_of (umap_update k f m) = (map_of m)(k \<mapsto> f (map_of m k))"
  by (induction k f m rule: umap_update.induct) auto

interpretation om: map_interface omap_update omap_inv
proof unfold_locales
  show "distinct (map fst m)" if "omap_inv m" for m :: "('a::linorder \<times> 'b) list"
    using that by (simp add: omap_inv_def strict_sorted_iff)
qed (simp_all add: omap_inv_update omap_lookup_update)

interpretation um: map_interface umap_update umap_inv
  by unfold_locales (simp_all add: umap_inv_update umap_lookup_update, simp_all add: umap_inv_def)

text \<open>Grouping: a loop appending each element to the list at its key files them by key, in order.\<close>

definition push :: "'a \<Rightarrow> 'a list option \<Rightarrow> 'a list" where
  "push x r = (case r of None \<Rightarrow> [x] | Some xs \<Rightarrow> xs @ [x])"

lemma fold_push:
  "fold (\<lambda>x r. Some (push x r)) xs r =
     (if xs = [] then r else Some (case r of None \<Rightarrow> xs | Some ys \<Rightarrow> ys @ xs))"
  by (induction xs arbitrary: r) (auto simp: push_def split: option.splits)

lemma omap_group:
  "map_of (fold (\<lambda>x. omap_update (key x) (push x)) xs []) k =
     (let g = filter (\<lambda>x. key x = k) xs in if g = [] then None else Some g)"
  by (simp add: om.lookup_fold om.inv_empty fold_push Let_def)

lemma umap_group:
  "map_of (fold (\<lambda>x. umap_update (key x) (push x)) xs []) k =
     (let g = filter (\<lambda>x. key x = k) xs in if g = [] then None else Some g)"
  by (simp add: um.lookup_fold um.inv_empty fold_push Let_def)

lemma omap_insert_lookup:
  "omap_inv m \<Longrightarrow> map_of (omap_insert k v m) = (map_of m)(k \<mapsto> v)"
  by (simp add: omap_insert_def omap_lookup_update)

lemma omap_insert_inv: "omap_inv m \<Longrightarrow> omap_inv (omap_insert k v m)"
  by (simp add: omap_insert_def omap_inv_update)

section \<open>Lists\<close>

text \<open>The pairs \<open>(xs[i], xs[j])\<close> with \<open>i < j\<close>, in the order two nested index loops visit them.\<close>

fun pairs :: "'a list \<Rightarrow> ('a \<times> 'a) list" where
  "pairs [] = []"
| "pairs (x # xs) = map (Pair x) xs @ pairs xs"

lemma set_pairs: "set (pairs xs) = {(xs ! i, xs ! j) |i j. i < j \<and> j < length xs}"
proof (induction xs)
  case Nil
  then show ?case by simp
next
  case (Cons x xs)
  have "set (pairs (x # xs)) = {(x, xs ! j) |j. j < length xs} \<union> set (pairs xs)"
    by (auto simp: set_conv_nth [of xs])
  also have "\<dots> = {((x # xs) ! i, (x # xs) ! j) |i j. i < j \<and> j < length (x # xs)}"
    (is "?l = ?r")
  proof (intro set_eqI iffI)
    fix p
    assume "p \<in> ?l"
    then consider j where "p = (x, xs ! j)" "j < length xs"
      | i j where "p = (xs ! i, xs ! j)" "i < j" "j < length xs"
      by (auto simp: Cons.IH)
    then show "p \<in> ?r"
    proof cases
      case 1
      then have "p = ((x # xs) ! 0, (x # xs) ! Suc j) \<and> 0 < Suc j \<and> Suc j < length (x # xs)"
        by simp
      then show ?thesis by blast
    next
      case 2
      then have "p = ((x # xs) ! Suc i, (x # xs) ! Suc j) \<and> Suc i < Suc j \<and> Suc j < length (x # xs)"
        by simp
      then show ?thesis by blast
    qed
  next
    fix p
    assume "p \<in> ?r"
    then obtain i j where p: "p = ((x # xs) ! i, (x # xs) ! j)" "i < j" "j < length (x # xs)"
      by blast
    then obtain j' where j': "j = Suc j'" "j' < length xs" by (cases j) auto
    show "p \<in> ?l"
    proof (cases i)
      case 0
      with p j' show ?thesis by auto
    next
      case (Suc i')
      with p j' have "p = (xs ! i', xs ! j') \<and> i' < j' \<and> j' < length xs" by simp
      then show ?thesis by (auto simp: Cons.IH)
    qed
  qed
  finally show ?case .
qed

lemma pairs_members: "(a, b) \<in> set (pairs xs) \<Longrightarrow> a \<in> set xs \<and> b \<in> set xs"
  by (induction xs) auto

lemma length_pairs: "2 * length (pairs xs) = length xs * (length xs - 1)"
  by (induction xs) (auto simp: algebra_simps diff_mult_distrib2 Suc_diff_le, case_tac xs, auto)

end
