(* ===== verification/Diagnostics.thy ===== *)
theory Diagnostics
  imports Prelude
begin

text \<open>
  The public result types (\<open>include/coretrace_concurrency_analysis.hpp\<close>), the rule catalog
  (\<open>diagnostics/diagnostic_catalog.cpp\<close>) and the diagnostic builder
  (\<open>diagnostics/diagnostic_builder.hpp\<close>). The builder's chained setters are functions on the
  diagnostic under construction; \<open>emit\<close> appends it to the report. The locale \<open>rule_checker\<close> is the
  contract every checker offers the analyses that run it.
\<close>

section \<open>Enumerations\<close>

datatype AccessKind = AK_Read | AK_Write

datatype AliasProvenance = AP_Direct | AP_MustAlias | AP_MayAlias

datatype Severity = Sev_Info | Sev_Warning | Sev_Error

datatype RuleId =
    CompilerDiagnostic
  | DataRaceGlobal
  | MissingJoin
  | DeadlockLockOrder
  | ConditionWaitWithoutPredicate
  | ForkAfterThreadCreation
  | UnreapedChildProcess
  | ThreadArgumentEscapesFrame
  | UnsafeSignalHandler
  | WeakPublicationOrdering
  | ThreadArgumentFreedEarly
  | ThreadLocalOutlivesThread

datatype ConfidenceLevel = Conf_Low | Conf_Medium | Conf_High

datatype OutputFormat = OF_Human | OF_Json | OF_Sarif

text \<open>Enumerators compare by their position in the declaration.\<close>

fun rule_index :: "RuleId \<Rightarrow> nat" where
  "rule_index CompilerDiagnostic = 0"
| "rule_index DataRaceGlobal = 1"
| "rule_index MissingJoin = 2"
| "rule_index DeadlockLockOrder = 3"
| "rule_index ConditionWaitWithoutPredicate = 4"
| "rule_index ForkAfterThreadCreation = 5"
| "rule_index UnreapedChildProcess = 6"
| "rule_index ThreadArgumentEscapesFrame = 7"
| "rule_index UnsafeSignalHandler = 8"
| "rule_index WeakPublicationOrdering = 9"
| "rule_index ThreadArgumentFreedEarly = 10"
| "rule_index ThreadLocalOutlivesThread = 11"

lemma rule_index_inject: "rule_index a = rule_index b \<longleftrightarrow> a = b"
  by (cases a; cases b) simp_all

instantiation RuleId :: linorder
begin

definition less_eq_RuleId :: "RuleId \<Rightarrow> RuleId \<Rightarrow> bool" where
  "a \<le> b \<longleftrightarrow> rule_index a \<le> rule_index b"

definition less_RuleId :: "RuleId \<Rightarrow> RuleId \<Rightarrow> bool" where
  "a < b \<longleftrightarrow> rule_index a < rule_index b"

instance
  by standard (auto simp: less_eq_RuleId_def less_RuleId_def rule_index_inject)

end

fun confidence_index :: "ConfidenceLevel \<Rightarrow> nat" where
  "confidence_index Conf_Low = 0"
| "confidence_index Conf_Medium = 1"
| "confidence_index Conf_High = 2"

lemma confidence_index_inject: "confidence_index a = confidence_index b \<longleftrightarrow> a = b"
  by (cases a; cases b) simp_all

instantiation ConfidenceLevel :: linorder
begin

definition less_eq_ConfidenceLevel :: "ConfidenceLevel \<Rightarrow> ConfidenceLevel \<Rightarrow> bool" where
  "a \<le> b \<longleftrightarrow> confidence_index a \<le> confidence_index b"

definition less_ConfidenceLevel :: "ConfidenceLevel \<Rightarrow> ConfidenceLevel \<Rightarrow> bool" where
  "a < b \<longleftrightarrow> confidence_index a < confidence_index b"

instance
  by standard
    (auto simp: less_eq_ConfidenceLevel_def less_ConfidenceLevel_def confidence_index_inject)

end

section \<open>Names of enumerators\<close>

fun access_kind_name :: "AccessKind \<Rightarrow> string" where
  "access_kind_name AK_Read = ''read''"
| "access_kind_name AK_Write = ''write''"

fun alias_provenance_name :: "AliasProvenance \<Rightarrow> string" where
  "alias_provenance_name AP_Direct = ''direct''"
| "alias_provenance_name AP_MustAlias = ''must_alias''"
| "alias_provenance_name AP_MayAlias = ''may_alias''"

fun severity_name :: "Severity \<Rightarrow> string" where
  "severity_name Sev_Info = ''info''"
| "severity_name Sev_Warning = ''warning''"
| "severity_name Sev_Error = ''error''"

fun rule_name :: "RuleId \<Rightarrow> string" where
  "rule_name CompilerDiagnostic = ''CompilerDiagnostic''"
| "rule_name DataRaceGlobal = ''DataRaceGlobal''"
| "rule_name MissingJoin = ''MissingJoin''"
| "rule_name DeadlockLockOrder = ''DeadlockLockOrder''"
| "rule_name ConditionWaitWithoutPredicate = ''ConditionWaitWithoutPredicate''"
| "rule_name ForkAfterThreadCreation = ''ForkAfterThreadCreation''"
| "rule_name UnreapedChildProcess = ''UnreapedChildProcess''"
| "rule_name ThreadArgumentEscapesFrame = ''ThreadArgumentEscapesFrame''"
| "rule_name UnsafeSignalHandler = ''UnsafeSignalHandler''"
| "rule_name WeakPublicationOrdering = ''WeakPublicationOrdering''"
| "rule_name ThreadArgumentFreedEarly = ''ThreadArgumentFreedEarly''"
| "rule_name ThreadLocalOutlivesThread = ''ThreadLocalOutlivesThread''"

fun confidence_name :: "ConfidenceLevel \<Rightarrow> string" where
  "confidence_name Conf_Low = ''low''"
| "confidence_name Conf_Medium = ''medium''"
| "confidence_name Conf_High = ''high''"

fun output_format_name :: "OutputFormat \<Rightarrow> string" where
  "output_format_name OF_Human = ''human''"
| "output_format_name OF_Json = ''json''"
| "output_format_name OF_Sarif = ''sarif''"

section \<open>Results\<close>

record SourceLocation =
  sl_file :: string
  sl_line :: nat
  sl_column :: nat
  sl_endLine :: nat
  sl_endColumn :: nat
  sl_function :: string

definition no_location :: SourceLocation where
  "no_location = \<lparr>sl_file = [], sl_line = 0, sl_column = 0, sl_endLine = 0, sl_endColumn = 0,
     sl_function = []\<rparr>"

record TaxonomyRef =
  tx_scheme :: string
  tx_id :: string
  tx_title :: string

record RelatedLocation =
  rl_label :: string
  rl_location :: SourceLocation

datatype DiagnosticPropertyValue =
    PropBool bool
  | PropInt int
  | PropString string
  | PropStrings "string list"

record Diagnostic =
  d_id :: string
  d_severity :: Severity
  d_ruleId :: RuleId
  d_confidence :: "ConfidenceLevel option"
  d_taxonomies :: "TaxonomyRef list"
  d_location :: SourceLocation
  d_relatedLocations :: "RelatedLocation list"
  d_message :: string
  d_notes :: "string list"
  d_properties :: "(string \<times> DiagnosticPropertyValue) list"

record DiagnosticSummary =
  ds_info :: nat
  ds_warning :: nat
  ds_error :: nat

record FunctionSummary =
  fs_file :: string
  fs_name :: string
  fs_threadReachable :: bool
  fs_threadEntries :: "string list"
  fs_sharedAccessCount :: "nat option"
  fs_protectedAccessCount :: "nat option"
  fs_writeAccessCount :: "nat option"
  fs_hasDiagnostics :: bool

record AnalysisNotice =
  an_id :: string
  an_ruleId :: RuleId
  an_message :: string

record DiagnosticReport =
  rp_functions :: "FunctionSummary list"
  rp_diagnostics :: "Diagnostic list"
  rp_diagnosticsSummary :: DiagnosticSummary
  rp_notices :: "AnalysisNotice list"

definition no_summary :: DiagnosticSummary where
  "no_summary = \<lparr>ds_info = 0, ds_warning = 0, ds_error = 0\<rparr>"

definition empty_report :: DiagnosticReport where
  "empty_report =
     \<lparr>rp_functions = [], rp_diagnostics = [], rp_diagnosticsSummary = no_summary, rp_notices = []\<rparr>"

definition empty_function_summary :: FunctionSummary where
  "empty_function_summary =
     \<lparr>fs_file = [], fs_name = [], fs_threadReachable = False, fs_threadEntries = [],
      fs_sharedAccessCount = None, fs_protectedAccessCount = None, fs_writeAccessCount = None,
      fs_hasDiagnostics = False\<rparr>"

record AnalysisOptions =
  ao_enabledRules :: "RuleId list"
  ao_maxLiveUnits :: nat

definition allAvailable :: AnalysisOptions where
  "allAvailable =
     \<lparr>ao_enabledRules =
        [DataRaceGlobal, MissingJoin, DeadlockLockOrder, ConditionWaitWithoutPredicate,
         ForkAfterThreadCreation, UnreapedChildProcess, ThreadArgumentEscapesFrame,
         UnsafeSignalHandler, WeakPublicationOrdering, ThreadArgumentFreedEarly,
         ThreadLocalOutlivesThread],
      ao_maxLiveUnits = 0\<rparr>"

definition isEnabled :: "AnalysisOptions \<Rightarrow> RuleId \<Rightarrow> bool" where
  "isEnabled opts rule \<longleftrightarrow> rule \<in> set (ao_enabledRules opts)"

section \<open>The rule catalog\<close>

record RuleMetadata =
  rm_ruleId :: RuleId
  rm_title :: string
  rm_shortDescription :: string
  rm_defaultSeverity :: Severity
  rm_primaryTaxonomy :: "TaxonomyRef option"

abbreviation cwe :: "string \<Rightarrow> string \<Rightarrow> TaxonomyRef option" where
  "cwe i t \<equiv> Some \<lparr>tx_scheme = ''CWE'', tx_id = i, tx_title = t\<rparr>"

fun lookupRuleMetadata :: "RuleId \<Rightarrow> RuleMetadata" where
  "lookupRuleMetadata CompilerDiagnostic =
     \<lparr>rm_ruleId = CompilerDiagnostic,
      rm_title = ''Compiler diagnostic'',
      rm_shortDescription =
        ''Represents a compiler-originated diagnostic captured during IR generation.'',
      rm_defaultSeverity = Sev_Error,
      rm_primaryTaxonomy = None\<rparr>"
| "lookupRuleMetadata DataRaceGlobal =
     \<lparr>rm_ruleId = DataRaceGlobal,
      rm_title = ''Unsynchronized concurrent access to a shared global'',
      rm_shortDescription =
        ''Detects shared global accesses that can run concurrently without a common '' @
        ''recognized lock.'',
      rm_defaultSeverity = Sev_Error,
      rm_primaryTaxonomy =
        cwe ''362''
          (''Concurrent Execution using Shared Resource with Improper '' @
           ''Synchronization ('Race Condition')'')\<rparr>"
| "lookupRuleMetadata MissingJoin =
     \<lparr>rm_ruleId = MissingJoin,
      rm_title = ''Thread handle is not joined before scope exit'',
      rm_shortDescription =
        ''Detects thread creation sites whose handle is not joined before the enclosing '' @
        ''scope completes.'',
      rm_defaultSeverity = Sev_Warning,
      rm_primaryTaxonomy = None\<rparr>"
| "lookupRuleMetadata DeadlockLockOrder =
     \<lparr>rm_ruleId = DeadlockLockOrder,
      rm_title = ''Potential deadlock caused by inconsistent lock order'',
      rm_shortDescription =
        ''Detects conflicting lock acquisition orders that can lead to circular wait.'',
      rm_defaultSeverity = Sev_Error,
      rm_primaryTaxonomy = cwe ''833'' ''Deadlock''\<rparr>"
| "lookupRuleMetadata ConditionWaitWithoutPredicate =
     \<lparr>rm_ruleId = ConditionWaitWithoutPredicate,
      rm_title = ''Condition-variable wait rechecks nothing on wake-up'',
      rm_shortDescription =
        ''Detects a condition-variable wait with neither a predicate nor a loop around '' @
        ''it, which treats any wake-up as proof that the condition holds.'',
      rm_defaultSeverity = Sev_Error,
      rm_primaryTaxonomy = cwe ''662'' ''Improper Synchronization''\<rparr>"
| "lookupRuleMetadata ForkAfterThreadCreation =
     \<lparr>rm_ruleId = ForkAfterThreadCreation,
      rm_title = ''Fork in a threaded program without an exec in the child'',
      rm_shortDescription =
        ''Detects a fork performed by a program that creates threads, where the child '' @
        ''keeps running instead of replacing its process image.'',
      rm_defaultSeverity = Sev_Error,
      rm_primaryTaxonomy = cwe ''662'' ''Improper Synchronization''\<rparr>"
| "lookupRuleMetadata UnreapedChildProcess =
     \<lparr>rm_ruleId = UnreapedChildProcess,
      rm_title = ''Child process is never collected'',
      rm_shortDescription =
        ''Detects a program that forks but never waits on its children, leaving them as '' @
        ''zombies in the process table.'',
      rm_defaultSeverity = Sev_Warning,
      rm_primaryTaxonomy = cwe ''404'' ''Improper Resource Shutdown or Release''\<rparr>"
| "lookupRuleMetadata ThreadArgumentEscapesFrame =
     \<lparr>rm_ruleId = ThreadArgumentEscapesFrame,
      rm_title = ''Thread argument points into the frame that created it'',
      rm_shortDescription =
        ''Detects a thread started with a pointer to a local variable of a function that '' @
        ''returns without waiting for it.'',
      rm_defaultSeverity = Sev_Error,
      rm_primaryTaxonomy = cwe ''562'' ''Return of Stack Variable Address''\<rparr>"
| "lookupRuleMetadata UnsafeSignalHandler =
     \<lparr>rm_ruleId = UnsafeSignalHandler,
      rm_title = ''Signal handler calls a function it may not call'',
      rm_shortDescription =
        ''Detects a signal handler that reaches an allocation, a stream or a lock, none '' @
        ''of which is async-signal-safe.'',
      rm_defaultSeverity = Sev_Error,
      rm_primaryTaxonomy = cwe ''479'' ''Signal Handler Use of a Non-reentrant Function''\<rparr>"
| "lookupRuleMetadata ThreadArgumentFreedEarly =
     \<lparr>rm_ruleId = ThreadArgumentFreedEarly,
      rm_title = ''Thread argument freed before the thread is joined'',
      rm_shortDescription =
        ''Detects memory handed to a thread that its creator frees while the thread may '' @
        ''still use it.'',
      rm_defaultSeverity = Sev_Error,
      rm_primaryTaxonomy = cwe ''416'' ''Use After Free''\<rparr>"
| "lookupRuleMetadata ThreadLocalOutlivesThread =
     \<lparr>rm_ruleId = ThreadLocalOutlivesThread,
      rm_title = ''Thread-local object used after its thread ended'',
      rm_shortDescription =
        ''Detects a thread-local object reached through a pointer its thread published, '' @
        ''after that thread has been joined.'',
      rm_defaultSeverity = Sev_Error,
      rm_primaryTaxonomy = cwe ''825'' ''Expired Pointer Dereference''\<rparr>"
| "lookupRuleMetadata WeakPublicationOrdering =
     \<lparr>rm_ruleId = WeakPublicationOrdering,
      rm_title = ''Atomic flag publishes data without release/acquire ordering'',
      rm_shortDescription =
        ''Detects data published through an atomic flag whose store does not release or '' @
        ''whose observing load does not acquire, so the reader may see the flag set and '' @
        ''the data stale.'',
      rm_defaultSeverity = Sev_Warning,
      rm_primaryTaxonomy =
        cwe ''362''
          (''Concurrent Execution using Shared Resource with Improper '' @
           ''Synchronization ('Race Condition')'')\<rparr>"

record RuleDescription =
  rd_title :: string
  rd_description :: string
  rd_defaultSeverity :: Severity

definition describeRule :: "RuleId \<Rightarrow> RuleDescription" where
  "describeRule rule =
     (let metadata = lookupRuleMetadata rule
      in \<lparr>rd_title = rm_title metadata, rd_description = rm_shortDescription metadata,
          rd_defaultSeverity = rm_defaultSeverity metadata\<rparr>)"

section \<open>The diagnostic builder\<close>

text \<open>The constructor takes the severity and the primary taxonomy of the rule from the catalog.\<close>

definition builder :: "RuleId \<Rightarrow> Diagnostic" where
  "builder rule =
     (let metadata = lookupRuleMetadata rule
      in \<lparr>d_id = [], d_severity = rm_defaultSeverity metadata, d_ruleId = rule,
          d_confidence = None,
          d_taxonomies =
            (case rm_primaryTaxonomy metadata of None \<Rightarrow> [] | Some taxonomy \<Rightarrow> [taxonomy]),
          d_location = no_location, d_relatedLocations = [], d_message = [], d_notes = [],
          d_properties = []\<rparr>)"

definition b_severity :: "Severity \<Rightarrow> Diagnostic \<Rightarrow> Diagnostic" where
  [builder_defs]: "b_severity s d = d\<lparr>d_severity := s\<rparr>"

definition b_confidence :: "ConfidenceLevel \<Rightarrow> Diagnostic \<Rightarrow> Diagnostic" where
  [builder_defs]: "b_confidence c d = d\<lparr>d_confidence := Some c\<rparr>"

definition b_primaryLocation :: "SourceLocation \<Rightarrow> Diagnostic \<Rightarrow> Diagnostic" where
  [builder_defs]: "b_primaryLocation l d = d\<lparr>d_location := l\<rparr>"

definition b_relatedLocation :: "string \<Rightarrow> SourceLocation \<Rightarrow> Diagnostic \<Rightarrow> Diagnostic" where
  [builder_defs]: "b_relatedLocation label l d =
     d\<lparr>d_relatedLocations := d_relatedLocations d @ [\<lparr>rl_label = label, rl_location = l\<rparr>]\<rparr>"

definition b_message :: "string \<Rightarrow> Diagnostic \<Rightarrow> Diagnostic" where
  [builder_defs]: "b_message m d = d\<lparr>d_message := m\<rparr>"

definition b_note :: "string \<Rightarrow> Diagnostic \<Rightarrow> Diagnostic" where
  [builder_defs]: "b_note text d = d\<lparr>d_notes := d_notes d @ [text]\<rparr>"

definition b_taxonomy :: "string \<Rightarrow> string \<Rightarrow> string \<Rightarrow> Diagnostic \<Rightarrow> Diagnostic" where
  [builder_defs]: "b_taxonomy scheme i title d =
     d\<lparr>d_taxonomies := d_taxonomies d @ [\<lparr>tx_scheme = scheme, tx_id = i, tx_title = title\<rparr>]\<rparr>"

definition b_property :: "string \<Rightarrow> DiagnosticPropertyValue \<Rightarrow> Diagnostic \<Rightarrow> Diagnostic" where
  [builder_defs]: "b_property key value d = d\<lparr>d_properties := omap_insert key value (d_properties d)\<rparr>"

definition emit :: "DiagnosticReport \<Rightarrow> Diagnostic \<Rightarrow> DiagnosticReport" where
  "emit report d = report\<lparr>rp_diagnostics := rp_diagnostics report @ [d]\<rparr>"

text \<open>What a diagnostic takes from its rule and no setter but its own changes.\<close>

lemma builder_rule [simp]:
  "d_ruleId (builder rule) = rule"
  "d_ruleId (b_severity s d) = d_ruleId d"
  "d_ruleId (b_confidence c d) = d_ruleId d"
  "d_ruleId (b_primaryLocation l d) = d_ruleId d"
  "d_ruleId (b_relatedLocation lbl l d) = d_ruleId d"
  "d_ruleId (b_message m d) = d_ruleId d"
  "d_ruleId (b_note t d) = d_ruleId d"
  "d_ruleId (b_taxonomy sch i ti d) = d_ruleId d"
  "d_ruleId (b_property k v d) = d_ruleId d"
  by (simp_all add: builder_def builder_defs Let_def)

lemma builder_severity [simp]:
  "d_severity (builder rule) = rm_defaultSeverity (lookupRuleMetadata rule)"
  "d_severity (b_severity s d) = s"
  "d_severity (b_confidence c d) = d_severity d"
  "d_severity (b_primaryLocation l d) = d_severity d"
  "d_severity (b_relatedLocation lbl l d) = d_severity d"
  "d_severity (b_message m d) = d_severity d"
  "d_severity (b_note t d) = d_severity d"
  "d_severity (b_taxonomy sch i ti d) = d_severity d"
  "d_severity (b_property k v d) = d_severity d"
  by (simp_all add: builder_def builder_defs Let_def)

lemma builder_location [simp]:
  "d_location (b_severity s d) = d_location d"
  "d_location (b_confidence c d) = d_location d"
  "d_location (b_primaryLocation l d) = l"
  "d_location (b_relatedLocation lbl l d) = d_location d"
  "d_location (b_message m d) = d_location d"
  "d_location (b_note t d) = d_location d"
  "d_location (b_taxonomy sch i ti d) = d_location d"
  "d_location (b_property k v d) = d_location d"
  by (simp_all add: builder_defs)

lemma builder_properties [simp]:
  "d_properties (builder rule) = []"
  "d_properties (b_severity s d) = d_properties d"
  "d_properties (b_confidence c d) = d_properties d"
  "d_properties (b_primaryLocation l d) = d_properties d"
  "d_properties (b_relatedLocation lbl l d) = d_properties d"
  "d_properties (b_message m d) = d_properties d"
  "d_properties (b_note t d) = d_properties d"
  "d_properties (b_taxonomy sch i ti d) = d_properties d"
  "d_properties (b_property k v d) = omap_insert k v (d_properties d)"
  by (simp_all add: builder_def builder_defs Let_def)

lemma builder_message [simp]:
  "d_message (b_severity s d) = d_message d"
  "d_message (b_confidence c d) = d_message d"
  "d_message (b_primaryLocation l d) = d_message d"
  "d_message (b_relatedLocation lbl l d) = d_message d"
  "d_message (b_message m d) = m"
  "d_message (b_note t d) = d_message d"
  "d_message (b_taxonomy sch i ti d) = d_message d"
  "d_message (b_property k v d) = d_message d"
  by (simp_all add: builder_defs)

lemma emit_simps [simp]:
  "rp_diagnostics (emit report d) = rp_diagnostics report @ [d]"
  "rp_notices (emit report d) = rp_notices report"
  "rp_functions (emit report d) = rp_functions report"
  "rp_diagnosticsSummary (emit report d) = rp_diagnosticsSummary report"
  by (simp_all add: emit_def)

lemma empty_report_simps [simp]:
  "rp_diagnostics empty_report = []"
  "rp_notices empty_report = []"
  "rp_functions empty_report = []"
  by (simp_all add: empty_report_def)

lemma catalog_rule [simp]: "rm_ruleId (lookupRuleMetadata rule) = rule"
  by (cases rule) simp_all

section \<open>The contract of a checker\<close>

text \<open>
  A checker reads the facts of a unit and reports diagnostics of its own rules only, each with the
  severity the catalog gives its rule; ids, function summaries and counts are filled in later.
\<close>

definition well_formed_diagnostic :: "RuleId set \<Rightarrow> Diagnostic \<Rightarrow> bool" where
  "well_formed_diagnostic rules d \<longleftrightarrow>
     d_ruleId d \<in> rules \<and> d_severity d = rm_defaultSeverity (lookupRuleMetadata (d_ruleId d))"

locale rule_checker =
  fixes run :: "'facts \<Rightarrow> DiagnosticReport" and rules :: "RuleId set"
  assumes diagnostics_ok: "d \<in> set (rp_diagnostics (run facts)) \<Longrightarrow> well_formed_diagnostic rules d"
    and notices_ok: "n \<in> set (rp_notices (run facts)) \<Longrightarrow> an_ruleId n \<in> rules"
begin

lemma diagnostic_rule: "d \<in> set (rp_diagnostics (run facts)) \<Longrightarrow> d_ruleId d \<in> rules"
  using diagnostics_ok by (auto simp: well_formed_diagnostic_def)

lemma diagnostic_severity:
  "d \<in> set (rp_diagnostics (run facts)) \<Longrightarrow>
     d_severity d = rm_defaultSeverity (lookupRuleMetadata (d_ruleId d))"
  using diagnostics_ok by (auto simp: well_formed_diagnostic_def)

end

end
