(* ===== verification/Facts.thy ===== *)
theory Facts
  imports Diagnostics "HOL-Library.Word"
begin

text \<open>
  The facts a unit analysis produces (\<open>analysis/facts.hpp\<close>) and the queries over them that the
  checkers share (\<open>analysis/fact_queries.hpp\<close>): memory regions with their overlap test, entry
  pairs, and the may-happen-in-parallel relation. Byte offsets are \<open>std::int64_t\<close> and sizes
  \<open>std::uint64_t\<close>: both are 64-bit words here, read signed and unsigned respectively, so the
  addition of an offset and a size wraps where the machine's does.
\<close>

type_synonym i64 = "64 word"
type_synonym u64 = "64 word"
type_synonym entry_set = "string set"

section \<open>Tasks and entries\<close>

definition rootTaskId :: string where
  "rootTaskId = ''<main-task>''"

definition isRootTask :: "string \<Rightarrow> bool" where
  "isRootTask entryId \<longleftrightarrow> entryId = rootTaskId"

record EntryConcurrencyInfo =
  ec_staticSpawnCount :: nat
  ec_hasSpawnInLoop :: bool

definition info_isSelfConcurrent :: "EntryConcurrencyInfo \<Rightarrow> bool" where
  [query_defs]: "info_isSelfConcurrent info \<longleftrightarrow>
     ec_staticSpawnCount info \<ge> 2 \<or> ec_hasSpawnInLoop info"

record SpawnFact =
  sp_entryFunctionId :: string
  sp_location :: SourceLocation
  sp_insideLoop :: bool

section \<open>Memory regions\<close>

datatype ElementOwner = EO_None | EO_AccessingThread | EO_NotYetHandedOver | EO_JoinedThisRound

definition heldBySpawningThread :: "ElementOwner \<Rightarrow> bool" where
  "heldBySpawningThread owner \<longleftrightarrow> owner = EO_NotYetHandedOver \<or> owner = EO_JoinedThisRound"

record MemoryRegion =
  mr_hasKnownOffset :: bool
  mr_byteOffset :: i64
  mr_byteSize :: u64
  mr_elementOwner :: ElementOwner
  mr_elementEntry :: string

definition whole_region :: MemoryRegion where
  "whole_region = \<lparr>mr_hasKnownOffset = True, mr_byteOffset = 0, mr_byteSize = 0,
     mr_elementOwner = EO_None, mr_elementEntry = []\<rparr>"

definition mayOverlap :: "MemoryRegion \<Rightarrow> MemoryRegion \<Rightarrow> bool" where
  "mayOverlap r other \<longleftrightarrow>
     (if mr_elementOwner r = EO_AccessingThread \<and> mr_elementOwner other = EO_AccessingThread \<and>
         mr_elementEntry r = mr_elementEntry other then False
      else if \<not> mr_hasKnownOffset r \<or> \<not> mr_hasKnownOffset other then True
      else if mr_byteSize r = 0 \<or> mr_byteSize other = 0 then True
      else
        (let lhsEnd = mr_byteOffset r + mr_byteSize r;
             rhsEnd = mr_byteOffset other + mr_byteSize other
         in sint (mr_byteOffset r) < sint rhsEnd \<and> sint (mr_byteOffset other) < sint lhsEnd))"

definition rebasedOn :: "MemoryRegion \<Rightarrow> MemoryRegion \<Rightarrow> MemoryRegion \<Rightarrow> MemoryRegion" where
  "rebasedOn r argument designated =
     (if mr_hasKnownOffset r \<and> mr_byteOffset r = 0 \<and> mr_byteSize r = 0 then designated
      else r\<lparr>mr_hasKnownOffset := mr_hasKnownOffset r \<and> mr_hasKnownOffset argument,
             mr_byteOffset := mr_byteOffset r + mr_byteOffset argument\<rparr>)"

definition orderedWithElementOwner :: "MemoryRegion \<Rightarrow> MemoryRegion \<Rightarrow> bool" where
  "orderedWithElementOwner r other \<longleftrightarrow>
     mr_elementEntry r = mr_elementEntry other \<and>
     ((mr_elementOwner r = EO_AccessingThread \<and> heldBySpawningThread (mr_elementOwner other)) \<or>
      (mr_elementOwner other = EO_AccessingThread \<and> heldBySpawningThread (mr_elementOwner r)))"

definition placeInElement :: "ElementOwner \<Rightarrow> string \<Rightarrow> MemoryRegion \<Rightarrow> MemoryRegion" where
  "placeInElement owner entry r =
     (if mr_hasKnownOffset r then r
      else r\<lparr>mr_elementOwner := owner, mr_elementEntry := entry\<rparr>)"

fun owner_index :: "ElementOwner \<Rightarrow> nat" where
  "owner_index EO_None = 0"
| "owner_index EO_AccessingThread = 1"
| "owner_index EO_NotYetHandedOver = 2"
| "owner_index EO_JoinedThisRound = 3"

definition identity :: "MemoryRegion \<Rightarrow> string" where
  "identity r =
     (if mr_hasKnownOffset r then ''@'' @ to_string_int (sint (mr_byteOffset r)) else ''@?'') @
     ''+'' @ to_string_nat (unat (mr_byteSize r)) @
     (if mr_elementOwner r \<noteq> EO_None
      then ''/'' @ to_string_nat (owner_index (mr_elementOwner r)) @ '':'' @ mr_elementEntry r
      else [])"

definition suffix_of :: "MemoryRegion \<Rightarrow> string" where
  "suffix_of r =
     (if \<not> mr_hasKnownOffset r then
        (case mr_elementOwner r of
           EO_AccessingThread \<Rightarrow> ''[own]''
         | EO_NotYetHandedOver \<Rightarrow> ''[next]''
         | EO_JoinedThisRound \<Rightarrow> ''[joined]''
         | EO_None \<Rightarrow> ''[*]'')
      else if mr_byteOffset r = 0 then []
      else ''+'' @ to_string_int (sint (mr_byteOffset r)))"

section \<open>Facts of a unit\<close>

record AccessFact =
  ac_symbol :: string
  ac_region :: MemoryRegion
  ac_functionId :: string
  ac_kind :: AccessKind
  ac_aliasProvenance :: AliasProvenance
  ac_loweredLocation :: SourceLocation
  ac_userLocation :: SourceLocation
  ac_allowCallsiteProjection :: bool
  ac_isAtomic :: bool
  ac_coarseCallEffect :: bool
  ac_guessedIdentity :: bool
  ac_sharedObject :: bool
  ac_inRootTask :: bool
  ac_liveEntries :: entry_set
  ac_startedEntries :: entry_set
  ac_boundBySpawn :: bool
  ac_instanceOwner :: string
  ac_heldLocks :: "string set"
  ac_beforeRelease :: "string set"
  ac_afterAcquire :: "string set"

record LockOrderFact =
  lo_functionId :: string
  lo_firstLockId :: string
  lo_secondLockId :: string
  lo_location :: SourceLocation
  lo_heldLocks :: "string set"
  lo_inRootTask :: bool
  lo_liveEntries :: entry_set
  lo_startedEntries :: entry_set
  lo_lowerAddressFirst :: bool
  lo_secondIsRecursive :: bool
  lo_boundBySpawn :: bool

datatype ThreadHandleKind = TH_PThread | TH_StdThread

datatype ThreadLifecycleAction = TL_Create | TL_Join | TL_Detach | TL_Move

record ThreadLifecycleFact =
  tl_handleKind :: ThreadHandleKind
  tl_action :: ThreadLifecycleAction
  tl_handleGroupId :: string
  tl_sourceHandleGroupId :: "string option"
  tl_functionId :: string
  tl_location :: SourceLocation
  tl_resolvedOnAllPaths :: bool
  tl_insideLoop :: bool
  tl_escapedToUntrackedStorage :: bool
  tl_propagated :: bool

type_synonym EntryPair = "string \<times> string"

definition makeEntryPair :: "string \<Rightarrow> string \<Rightarrow> EntryPair" where
  "makeEntryPair lhs rhs = (if rhs < lhs then (rhs, lhs) else (lhs, rhs))"

record ConditionWaitFact =
  cw_functionId :: string
  cw_location :: SourceLocation
  cw_loweredLocation :: SourceLocation
  cw_guardedByLoop :: bool
  cw_viaHelper :: bool

record ThreadArgumentEscapeFact =
  ae_functionId :: string
  ae_entryFunctionId :: string
  ae_location :: SourceLocation

record SignalHandlerFact =
  sh_location :: SourceLocation
  sh_handlerFunctionId :: string
  sh_unsafeCallLocation :: SourceLocation
  sh_unsafeCallFunctionId :: string

record ThreadArgumentFreeFact =
  fr_functionId :: string
  fr_entryFunctionId :: string
  fr_creationLocation :: SourceLocation
  fr_freeLocation :: SourceLocation

record ExpiredThreadLocalFact =
  ex_functionId :: string
  ex_entryFunctionId :: string
  ex_threadLocal :: string
  ex_pointer :: string
  ex_publishLocation :: SourceLocation
  ex_useLocation :: SourceLocation

record WeakPublicationFact =
  wp_flag :: string
  wp_data :: "string list"
  wp_storeReleases :: bool
  wp_loadAcquires :: bool
  wp_storeLocation :: SourceLocation
  wp_loadLocation :: SourceLocation
  wp_publisherFunctionId :: string
  wp_readerFunctionId :: string

record ProcessForkFact =
  pf_functionId :: string
  pf_location :: SourceLocation
  pf_execReachable :: bool

record ProgramSymbolFacts =
  ps_abiKey :: string
  ps_definedGlobals :: "string set"
  ps_declaredGlobals :: "string set"
  ps_functionSymbolsById :: "(string \<times> string) list"
  ps_declaredFunctions :: "string set"
  ps_settlingFunctions :: "string set"
  ps_handleSymbolsByGroupId :: "(string \<times> string) list"

record ParameterLockEffect =
  pe_argumentIndex :: nat
  pe_acquires :: bool
  pe_recursiveLock :: bool

record JoinedParameter =
  jp_index :: nat
  jp_byValue :: bool
  jp_offset :: i64
  jp_ended :: bool
  jp_reported :: bool

record TUFacts =
  tu_spawns :: "SpawnFact list"
  tu_accesses :: "AccessFact list"
  tu_lockOrders :: "LockOrderFact list"
  tu_threadLifecycles :: "ThreadLifecycleFact list"
  tu_conditionWaits :: "ConditionWaitFact list"
  tu_processForks :: "ProcessForkFact list"
  tu_threadArgumentEscapes :: "ThreadArgumentEscapeFact list"
  tu_threadArgumentFrees :: "ThreadArgumentFreeFact list"
  tu_expiredThreadLocals :: "ExpiredThreadLocalFact list"
  tu_signalHandlers :: "SignalHandlerFact list"
  tu_weakPublications :: "WeakPublicationFact list"
  tu_reapsChildProcesses :: bool
  tu_programCreatesThreads :: bool
  tu_entryConcurrency :: "(string \<times> EntryConcurrencyInfo) list"
  tu_lockWrapperSummaries :: "(string \<times> ParameterLockEffect list) list"
  tu_joiningHelpers :: "(string \<times> JoinedParameter list) list"
  tu_resolvedGlobalHandleIds :: "string set"
  tu_reachableThreadEntriesByFunction :: "(string \<times> entry_set) list"
  tu_recursiveLockIds :: "string set"
  tu_sequencedEntryPairs :: "EntryPair set"
  tu_program :: ProgramSymbolFacts

definition no_program :: ProgramSymbolFacts where
  "no_program = \<lparr>ps_abiKey = [], ps_definedGlobals = {}, ps_declaredGlobals = {},
     ps_functionSymbolsById = [], ps_declaredFunctions = {}, ps_settlingFunctions = {},
     ps_handleSymbolsByGroupId = []\<rparr>"

definition no_facts :: TUFacts where
  "no_facts = \<lparr>tu_spawns = [], tu_accesses = [], tu_lockOrders = [], tu_threadLifecycles = [],
     tu_conditionWaits = [], tu_processForks = [], tu_threadArgumentEscapes = [],
     tu_threadArgumentFrees = [], tu_expiredThreadLocals = [], tu_signalHandlers = [],
     tu_weakPublications = [], tu_reapsChildProcesses = False, tu_programCreatesThreads = False,
     tu_entryConcurrency = [], tu_lockWrapperSummaries = [], tu_joiningHelpers = [],
     tu_resolvedGlobalHandleIds = {}, tu_reachableThreadEntriesByFunction = [],
     tu_recursiveLockIds = {}, tu_sequencedEntryPairs = {}, tu_program = no_program\<rparr>"

section \<open>Queries\<close>

definition entryIsSelfConcurrent :: "TUFacts \<Rightarrow> string \<Rightarrow> bool" where
  [query_defs]: "entryIsSelfConcurrent facts entry \<longleftrightarrow>
     (case map_of (tu_entryConcurrency facts) entry of
        None \<Rightarrow> False
      | Some info \<Rightarrow> info_isSelfConcurrent info)"

definition isSelfConcurrent :: "entry_set \<Rightarrow> TUFacts \<Rightarrow> bool" where
  [query_defs]: "isSelfConcurrent entries facts \<longleftrightarrow> (\<exists>entry\<in>entries. entryIsSelfConcurrent facts entry)"

text \<open>
  The two nested loops return true at the first pair of entries that can overlap, and continue
  past a pair that cannot: their answer is whether such a pair exists.
\<close>

definition entriesOverlap :: "TUFacts \<Rightarrow> string \<Rightarrow> string \<Rightarrow> bool" where
  [query_defs]: "entriesOverlap facts lhsEntry rhsEntry \<longleftrightarrow>
     (if lhsEntry \<noteq> rhsEntry
      then makeEntryPair lhsEntry rhsEntry \<notin> tu_sequencedEntryPairs facts
      else entryIsSelfConcurrent facts lhsEntry)"

definition mayRunConcurrently :: "entry_set \<Rightarrow> entry_set \<Rightarrow> TUFacts \<Rightarrow> bool" where
  [query_defs]: "mayRunConcurrently lhsEntries rhsEntries facts \<longleftrightarrow>
     (\<exists>lhsEntry\<in>lhsEntries. \<exists>rhsEntry\<in>rhsEntries. entriesOverlap facts lhsEntry rhsEntry)"

text \<open>
  The two templates over the kind of fact take the fact's \<open>inRootTask\<close> and \<open>liveEntries\<close> fields as
  their arguments, the only members they read.
\<close>

definition racesWithRootTask :: "bool \<Rightarrow> entry_set \<Rightarrow> entry_set \<Rightarrow> bool" where
  [query_defs]: "racesWithRootTask inRootTask liveEntries otherEntries \<longleftrightarrow>
     inRootTask \<and> (\<exists>entry\<in>otherEntries. entry \<in> liveEntries)"

definition mayHappenInParallel ::
  "('f \<Rightarrow> bool) \<Rightarrow> ('f \<Rightarrow> entry_set) \<Rightarrow> 'f \<Rightarrow> entry_set \<Rightarrow> 'f \<Rightarrow> entry_set \<Rightarrow> TUFacts \<Rightarrow> bool" where
  [query_defs]: "mayHappenInParallel inRootTask liveEntries lhs lhsEntries rhs rhsEntries facts \<longleftrightarrow>
     (if racesWithRootTask (inRootTask lhs) (liveEntries lhs) rhsEntries \<or>
         racesWithRootTask (inRootTask rhs) (liveEntries rhs) lhsEntries then True
      else if lhsEntries = {} \<or> rhsEntries = {} then False
      else mayRunConcurrently lhsEntries rhsEntries facts)"

definition sortedThreadEntries :: "entry_set \<Rightarrow> string list" where
  "sortedThreadEntries entries = sorted_list_of_set entries"

text \<open>The entries a function is reachable from; empty when the map has no entry for it.\<close>

definition entriesOfFunction :: "TUFacts \<Rightarrow> string \<Rightarrow> entry_set" where
  "entriesOfFunction facts functionId =
     (case map_of (tu_reachableThreadEntriesByFunction facts) functionId of
        None \<Rightarrow> {} | Some entries \<Rightarrow> entries)"

section \<open>Overlap of regions\<close>

lemma makeEntryPair_commute [sym_intros]: "makeEntryPair a b = makeEntryPair b a"
  by (auto simp: makeEntryPair_def)

lemma entriesOverlap_sym [sym_intros]: "entriesOverlap facts a b \<longleftrightarrow> entriesOverlap facts b a"
  by (auto simp: entriesOverlap_def makeEntryPair_commute)

lemma mayRunConcurrently_sym [sym_intros]:
  "mayRunConcurrently A B facts \<longleftrightarrow> mayRunConcurrently B A facts"
  unfolding mayRunConcurrently_def using entriesOverlap_sym [of facts] by blast

lemma mayHappenInParallel_sym [sym_intros]:
  "mayHappenInParallel r l a A b B facts \<longleftrightarrow> mayHappenInParallel r l b B a A facts"
  by (simp add: mayHappenInParallel_def mayRunConcurrently_sym disj_commute)

lemma mayOverlap_sym [sym_intros]: "mayOverlap a b \<longleftrightarrow> mayOverlap b a"
  by (auto simp: mayOverlap_def Let_def)

lemma orderedWithElementOwner_sym [sym_intros]:
  "orderedWithElementOwner a b \<longleftrightarrow> orderedWithElementOwner b a"
  by (auto simp: orderedWithElementOwner_def)

text \<open>
  The bytes a region of known place and extent covers, and what it takes for the sum of offset and
  size to stay inside \<open>std::int64_t\<close>.
\<close>

definition region_bytes :: "MemoryRegion \<Rightarrow> int set" where
  "region_bytes r = {sint (mr_byteOffset r) ..< sint (mr_byteOffset r) + int (unat (mr_byteSize r))}"

definition region_fits :: "MemoryRegion \<Rightarrow> bool" where
  "region_fits r \<longleftrightarrow> sint (mr_byteOffset r) + int (unat (mr_byteSize r)) < 2 ^ 63"

lemma region_end:
  assumes "region_fits r"
  shows "sint (mr_byteOffset r + mr_byteSize r) =
    sint (mr_byteOffset r) + int (unat (mr_byteSize r))"
proof -
  have lo: "- (2 ^ 63) \<le> sint (mr_byteOffset r)"
    using sint_greater_eq [of "mr_byteOffset r"] by simp
  have sum: "mr_byteOffset r + mr_byteSize r =
      word_of_int (sint (mr_byteOffset r) + int (unat (mr_byteSize r)))"
    by simp
  have "sint (word_of_int (sint (mr_byteOffset r) + int (unat (mr_byteSize r))) :: i64) =
      signed_take_bit 63 (sint (mr_byteOffset r) + int (unat (mr_byteSize r)))"
    by (simp only: sint_sbintrunc') simp
  also have "\<dots> = sint (mr_byteOffset r) + int (unat (mr_byteSize r))"
  proof (rule signed_take_bit_int_eq_self)
    show "- (2 ^ 63) \<le> sint (mr_byteOffset r) + int (unat (mr_byteSize r))"
      using lo by linarith
  qed (use assms in \<open>simp add: region_fits_def\<close>)
  finally show ?thesis by (simp only: sum)
qed

lemma mayOverlap_unknown:
  "\<not> mr_hasKnownOffset r \<or> \<not> mr_hasKnownOffset s \<or> mr_byteSize r = 0 \<or> mr_byteSize s = 0 \<Longrightarrow>
    mr_elementOwner r \<noteq> EO_AccessingThread \<Longrightarrow> mayOverlap r s"
  by (auto simp: mayOverlap_def)

text \<open>
  C13: Two regions of known place and extent, neither reaching past the largest 64-bit offset,
  overlap by \<open>mayOverlap\<close> exactly when they have a byte in common, unless both are the elements
  handed to the accessing threads of one entry.
\<close>

theorem mayOverlap_exact:
  assumes "\<not> (mr_elementOwner r = EO_AccessingThread \<and> mr_elementOwner s = EO_AccessingThread \<and>
      mr_elementEntry r = mr_elementEntry s)"
    and "mr_hasKnownOffset r" "mr_hasKnownOffset s"
    and "mr_byteSize r \<noteq> 0" "mr_byteSize s \<noteq> 0"
    and "region_fits r" "region_fits s"
  shows "mayOverlap r s \<longleftrightarrow> region_bytes r \<inter> region_bytes s \<noteq> {}"
proof -
  have pos: "0 < uint (mr_byteSize r)" "0 < uint (mr_byteSize s)"
    using assms by (simp_all add: word_neq_0_conv word_less_def)
  have "mayOverlap r s \<longleftrightarrow>
      sint (mr_byteOffset r) < sint (mr_byteOffset s) + int (unat (mr_byteSize s)) \<and>
      sint (mr_byteOffset s) < sint (mr_byteOffset r) + int (unat (mr_byteSize r))"
    using assms by (auto simp: mayOverlap_def Let_def region_end)
  also have "\<dots> \<longleftrightarrow> region_bytes r \<inter> region_bytes s \<noteq> {}"
    using pos by (auto simp: region_bytes_def)
  finally show ?thesis .
qed

theorem mayOverlap_exact_witness:
  "mayOverlap (whole_region\<lparr>mr_byteOffset := 4, mr_byteSize := 4\<rparr>)
      (whole_region\<lparr>mr_byteOffset := -2, mr_byteSize := 8\<rparr>) \<longleftrightarrow>
    region_bytes (whole_region\<lparr>mr_byteOffset := 4, mr_byteSize := 4\<rparr>) \<inter>
      region_bytes (whole_region\<lparr>mr_byteOffset := -2, mr_byteSize := 8\<rparr>) \<noteq> {}"
  by (rule mayOverlap_exact) (simp_all add: whole_region_def region_fits_def)

end
