(* ===== verification/Data_Race.thy ===== *)
theory Data_Race
  imports Facts
begin

text \<open>
  The data-race checker (\<open>analysis/data_race_checker.cpp\<close>): the predicates that rule a pair of
  accesses out, the key conflicts are grouped by, the wording of a finding, and the loop over the
  accesses of each symbol. The theorems show that a reported race rests on two accesses to one
  symbol that can run in parallel, one of them a write, under disjoint lock sets, and that a symbol
  with such a pair is never left without a report.
\<close>

definition kMaxRelatedConflictSites :: nat where
  "kMaxRelatedConflictSites = 6"

section \<open>What rules a pair out\<close>

definition shareRecognizedLock :: "AccessFact \<Rightarrow> AccessFact \<Rightarrow> bool" where
  "shareRecognizedLock lhs rhs \<longleftrightarrow>
     (if ac_heldLocks lhs = {} \<or> ac_heldLocks rhs = {} then False
      else \<exists>lock\<in>ac_heldLocks lhs. lock \<in> ac_heldLocks rhs)"

definition orderedByPublication :: "AccessFact \<Rightarrow> AccessFact \<Rightarrow> bool" where
  "orderedByPublication lhs rhs \<longleftrightarrow>
     (\<exists>flag\<in>ac_beforeRelease lhs. flag \<in> ac_afterAcquire rhs) \<or>
     (\<exists>flag\<in>ac_beforeRelease rhs. flag \<in> ac_afterAcquire lhs)"

definition isRaceFreeAtomicPair :: "AccessFact \<Rightarrow> AccessFact \<Rightarrow> bool" where
  "isRaceFreeAtomicPair lhs rhs \<longleftrightarrow> ac_isAtomic lhs \<and> ac_isAtomic rhs"

definition isMixedAtomicPair :: "AccessFact \<Rightarrow> AccessFact \<Rightarrow> bool" where
  "isMixedAtomicPair lhs rhs \<longleftrightarrow> ac_isAtomic lhs \<noteq> ac_isAtomic rhs"

definition hasPreciseRegions :: "AccessFact \<Rightarrow> AccessFact \<Rightarrow> bool" where
  "hasPreciseRegions lhs rhs \<longleftrightarrow>
     (if ac_coarseCallEffect lhs \<or> ac_coarseCallEffect rhs then False
      else mr_hasKnownOffset (ac_region lhs) \<and> mr_hasKnownOffset (ac_region rhs) \<and>
           mr_byteSize (ac_region lhs) \<noteq> 0 \<and> mr_byteSize (ac_region rhs) \<noteq> 0)"

definition describeSymbol :: "AccessFact \<Rightarrow> string" where
  "describeSymbol access = ac_symbol access"

definition describeConflictSubject :: "AccessFact \<Rightarrow> string" where
  "describeConflictSubject access =
     (if ac_sharedObject access
      then ''unsynchronized concurrent access to an object shared with a thread''
      else ''unsynchronized concurrent access to global '' @ [CHR 0x27] @ describeSymbol access @
           [CHR 0x27])"

definition sortedLocks :: "AccessFact \<Rightarrow> string list" where
  "sortedLocks access = sorted_list_of_set (ac_heldLocks access)"

definition joinValues :: "string list \<Rightarrow> string" where
  "joinValues values = join_with '', '' values"

definition formatLocation :: "SourceLocation \<Rightarrow> string" where
  "formatLocation location =
     (if sl_file location \<noteq> [] then sl_file location else ''<unknown-file>'') @
     (if sl_line location \<noteq> 0
      then '':'' @ to_string_nat (sl_line location) @ '':'' @ to_string_nat (sl_column location)
      else []) @
     (if sl_function location \<noteq> [] then '' in '' @ sl_function location else [])"

definition conflictLocationKey ::
  "AccessFact \<Rightarrow> AccessFact \<Rightarrow> entry_set \<Rightarrow> entry_set \<Rightarrow> string" where
  "conflictLocationKey lhs rhs lhsEntries rhsEntries =
     ac_symbol lhs @
     (if \<not> mr_hasKnownOffset (ac_region lhs) \<or> \<not> mr_hasKnownOffset (ac_region rhs) then ''[*]''
      else ''+'' @ to_string_int
             (min (sint (mr_byteOffset (ac_region lhs))) (sint (mr_byteOffset (ac_region rhs))))) @
     concat (map (\<lambda>context. ''|'' @ context)
       (sort [joinValues (sortedThreadEntries lhsEntries), joinValues (sortedThreadEntries rhsEntries)]))"

definition sameSourceLocation :: "SourceLocation \<Rightarrow> SourceLocation \<Rightarrow> bool" where
  "sameSourceLocation lhs rhs \<longleftrightarrow>
     sl_file lhs = sl_file rhs \<and> sl_line lhs = sl_line rhs \<and> sl_column lhs = sl_column rhs \<and>
     sl_function lhs = sl_function rhs"

definition hasDistinctLoweredLocation :: "AccessFact \<Rightarrow> bool" where
  "hasDistinctLoweredLocation access \<longleftrightarrow>
     \<not> sameSourceLocation (ac_userLocation access) (ac_loweredLocation access)"

definition racesWithItself :: "AccessFact \<Rightarrow> entry_set \<Rightarrow> TUFacts \<Rightarrow> bool" where
  "racesWithItself access entries facts \<longleftrightarrow>
     (if ac_boundBySpawn access then False
      else if racesWithRootTask (ac_inRootTask access) (ac_liveEntries access) entries then True
      else \<exists>lhsEntry\<in>entries. \<exists>rhsEntry\<in>entries.
             lhsEntry < rhsEntry \<and> mayRunConcurrently {lhsEntry} {rhsEntry} facts)"

definition inOwnObjectsOfInstances :: "AccessFact \<Rightarrow> AccessFact \<Rightarrow> bool" where
  "inOwnObjectsOfInstances lhs rhs \<longleftrightarrow>
     ac_instanceOwner lhs \<noteq> [] \<and> ac_instanceOwner lhs = ac_instanceOwner rhs"

definition shareSelfConcurrentEntry :: "entry_set \<Rightarrow> entry_set \<Rightarrow> TUFacts \<Rightarrow> bool" where
  "shareSelfConcurrentEntry lhsEntries rhsEntries facts \<longleftrightarrow>
     (\<exists>entry\<in>lhsEntries. entry \<in> rhsEntries \<and> entryIsSelfConcurrent facts entry)"

section \<open>Wording of a finding\<close>

definition conflictKindLabel :: "AccessKind \<Rightarrow> AccessKind \<Rightarrow> string" where
  "conflictKindLabel lhsKind rhsKind =
     (if lhsKind = AK_Write \<and> rhsKind = AK_Write then ''write/write''
      else if lhsKind = AK_Read \<and> rhsKind = AK_Read then ''read/read''
      else ''read/write'')"

definition collectConflictKinds ::
  "AccessFact \<Rightarrow> AccessFact \<Rightarrow> entry_set \<Rightarrow> entry_set \<Rightarrow> TUFacts \<Rightarrow> string list" where
  "collectConflictKinds lhs rhs lhsEntries rhsEntries facts =
     sorted_list_of_set
       ({conflictKindLabel (ac_kind lhs) (ac_kind rhs)} \<union>
        (if sameSourceLocation (ac_loweredLocation lhs) (ac_loweredLocation rhs) \<and>
            shareSelfConcurrentEntry lhsEntries rhsEntries facts \<and>
            (ac_kind lhs = AK_Write \<or> ac_kind rhs = AK_Write)
         then {''write/write''} else {}))"

definition collectAliasProvenances :: "AccessFact \<Rightarrow> AccessFact \<Rightarrow> string list" where
  "collectAliasProvenances lhs rhs =
     sorted_list_of_set
       {alias_provenance_name (ac_aliasProvenance lhs), alias_provenance_name (ac_aliasProvenance rhs)}"

definition collectAliasProvenances1 :: "AccessFact \<Rightarrow> string list" where
  "collectAliasProvenances1 access = [alias_provenance_name (ac_aliasProvenance access)]"

definition inferConfidence :: "AccessFact \<Rightarrow> AccessFact \<Rightarrow> ConfidenceLevel" where
  "inferConfidence lhs rhs =
     (if ac_aliasProvenance lhs = AP_MayAlias \<or> ac_aliasProvenance rhs = AP_MayAlias then Conf_Low
      else if ac_aliasProvenance lhs = AP_MustAlias \<or> ac_aliasProvenance rhs = AP_MustAlias
      then Conf_Medium
      else Conf_High)"

definition inferConfidence1 :: "AccessFact \<Rightarrow> ConfidenceLevel" where
  "inferConfidence1 access =
     (if ac_aliasProvenance access = AP_MayAlias then Conf_Low
      else if ac_aliasProvenance access = AP_MustAlias then Conf_Medium
      else Conf_High)"

definition describeAccess :: "AccessFact \<Rightarrow> string list \<Rightarrow> string" where
  "describeAccess access entries =
     (if ac_isAtomic access then ''atomic '' else []) @
     access_kind_name (ac_kind access) @ '' at '' @ formatLocation (ac_userLocation access) @
     (if entries \<noteq> [] then '' (thread entries: '' @ joinValues entries @ '')''
      else if ac_inRootTask access then '' (initial thread)'' else []) @
     (if ac_heldLocks access \<noteq> {}
      then '' under recognized lock(s): '' @ joinValues (sortedLocks access) else [])"

definition describeContext :: "AccessFact \<Rightarrow> entry_set \<Rightarrow> string list" where
  "describeContext access entries =
     (let ordered = sortedThreadEntries entries
      in if ordered = [] \<and> ac_inRootTask access then ordered @ [rootTaskId] else ordered)"

definition pairDiagnostic ::
  "AccessFact \<Rightarrow> AccessFact \<Rightarrow> entry_set \<Rightarrow> entry_set \<Rightarrow> TUFacts \<Rightarrow> nat \<Rightarrow>
   (string \<times> SourceLocation) list \<Rightarrow> Diagnostic" where
  "pairDiagnostic lhs rhs lhsEntries rhsEntries facts additionalConflictingPairs relatedConflictSites =
     (let orderedLhsEntries = describeContext lhs lhsEntries;
          orderedRhsEntries = describeContext rhs rhsEntries;
          conflictKinds = collectConflictKinds lhs rhs lhsEntries rhsEntries facts;
          variableAliasing = collectAliasProvenances lhs rhs;
          b = builder DataRaceGlobal;
          b = b_confidence (inferConfidence lhs rhs) b;
          b = b_primaryLocation (ac_userLocation lhs) b;
          b = b_relatedLocation ''Conflicting access'' (ac_userLocation rhs) b;
          b = b_message (describeConflictSubject lhs) b;
          b = b_note (''first access: '' @ describeAccess lhs orderedLhsEntries) b;
          b = b_note (''conflicting access: '' @ describeAccess rhs orderedRhsEntries) b;
          b = b_note (''possible conflict kinds: '' @ joinValues conflictKinds) b;
          b = (if isMixedAtomicPair lhs rhs
               then b_note (''one side is atomic while the other is a plain access: atomicity on '' @
                            ''only one side does not order the pair'') b
               else b);
          b = b_note ''no common recognized lock protects the conflicting accesses'' b;
          b = (if additionalConflictingPairs \<noteq> 0
               then b_note (''additional conflicting access pairs on this location: '' @
                            to_string_nat additionalConflictingPairs) b
               else b);
          b = b_property ''symbol'' (PropString (describeSymbol lhs)) b;
          b = b_property ''firstAccessKind'' (PropString (access_kind_name (ac_kind lhs))) b;
          b = b_property ''secondAccessKind'' (PropString (access_kind_name (ac_kind rhs))) b;
          b = b_property ''firstAliasProvenance''
                (PropString (alias_provenance_name (ac_aliasProvenance lhs))) b;
          b = b_property ''secondAliasProvenance''
                (PropString (alias_provenance_name (ac_aliasProvenance rhs))) b;
          b = b_property ''firstProtected'' (PropBool (ac_heldLocks lhs \<noteq> {})) b;
          b = b_property ''secondProtected'' (PropBool (ac_heldLocks rhs \<noteq> {})) b;
          b = b_property ''firstThreadEntries'' (PropStrings orderedLhsEntries) b;
          b = b_property ''secondThreadEntries'' (PropStrings orderedRhsEntries) b;
          b = b_property ''conflictKinds'' (PropStrings conflictKinds) b;
          b = b_property ''variableAliasing'' (PropStrings variableAliasing) b;
          b = b_property ''firstAtomic'' (PropBool (ac_isAtomic lhs)) b;
          b = b_property ''secondAtomic'' (PropBool (ac_isAtomic rhs)) b;
          b = b_property ''additionalConflictingPairs'' (PropInt (int additionalConflictingPairs)) b;
          b = (if hasDistinctLoweredLocation lhs
               then b_relatedLocation ''Lowered first access'' (ac_loweredLocation lhs) b else b);
          b = (if hasDistinctLoweredLocation rhs
               then b_relatedLocation ''Lowered conflicting access'' (ac_loweredLocation rhs) b else b)
      in fold (\<lambda>(label, location) d. b_relatedLocation label location d) relatedConflictSites b)"

definition selfConcurrentDiagnostic :: "AccessFact \<Rightarrow> entry_set \<Rightarrow> Diagnostic" where
  "selfConcurrentDiagnostic access entries =
     (let orderedEntries = describeContext access entries;
          entryLabel = (if orderedEntries = [] then ac_functionId access else joinValues orderedEntries);
          conflictKinds = [''write/write''];
          variableAliasing = collectAliasProvenances1 access;
          b = builder DataRaceGlobal;
          b = b_confidence (inferConfidence1 access) b;
          b = b_primaryLocation (ac_userLocation access) b;
          b = b_relatedLocation ''Concurrent invocation'' (ac_userLocation access) b;
          b = b_message (describeConflictSubject access) b;
          b = b_note (''access: '' @ describeAccess access orderedEntries) b;
          b = b_note (''conflicts with another concurrent invocation reachable from thread entry '' @
                      [CHR 0x27] @ entryLabel @ [CHR 0x27]) b;
          b = b_note (''possible conflict kinds: '' @ joinValues conflictKinds) b;
          b = b_note ''no common recognized lock protects the conflicting accesses'' b;
          b = b_property ''symbol'' (PropString (describeSymbol access)) b;
          b = b_property ''firstAccessKind'' (PropString (access_kind_name (ac_kind access))) b;
          b = b_property ''secondAccessKind'' (PropString (access_kind_name (ac_kind access))) b;
          b = b_property ''firstAliasProvenance''
                (PropString (alias_provenance_name (ac_aliasProvenance access))) b;
          b = b_property ''secondAliasProvenance''
                (PropString (alias_provenance_name (ac_aliasProvenance access))) b;
          b = b_property ''firstProtected'' (PropBool (ac_heldLocks access \<noteq> {})) b;
          b = b_property ''secondProtected'' (PropBool (ac_heldLocks access \<noteq> {})) b;
          b = b_property ''firstThreadEntries'' (PropStrings orderedEntries) b;
          b = b_property ''secondThreadEntries'' (PropStrings orderedEntries) b;
          b = b_property ''conflictKinds'' (PropStrings conflictKinds) b;
          b = b_property ''variableAliasing'' (PropStrings variableAliasing) b
      in if hasDistinctLoweredLocation access
         then b_relatedLocation ''Lowered access'' (ac_loweredLocation access) b else b)"

section \<open>The loop over the accesses of a symbol\<close>

definition entriesOf :: "TUFacts \<Rightarrow> AccessFact \<Rightarrow> entry_set" where
  "entriesOf facts access = entriesOfFunction facts (ac_functionId access)"

text \<open>An access takes part when a thread entry reaches its function or the initial thread runs it.\<close>

definition takesPart :: "TUFacts \<Rightarrow> AccessFact \<Rightarrow> bool" where
  "takesPart facts access \<longleftrightarrow>
     map_of (tu_reachableThreadEntriesByFunction facts) (ac_functionId access) \<noteq> None \<or>
     ac_inRootTask access"

definition accessesBySymbol :: "TUFacts \<Rightarrow> (string \<times> AccessFact list) list" where
  "accessesBySymbol facts =
     fold (\<lambda>access. omap_update (ac_symbol access) (push access))
       (filter (takesPart facts) (tu_accesses facts)) []"

record LocationConflict =
  lc_lhs :: "AccessFact option"
  lc_rhs :: "AccessFact option"
  lc_confidence :: ConfidenceLevel
  lc_isWriteWrite :: bool
  lc_isPrecise :: bool
  lc_showsLoweredOrigin :: bool
  lc_additionalPairs :: nat
  lc_relatedSites :: "(string \<times> SourceLocation) list"
  lc_seenSiteKeys :: "string set"

definition new_conflict :: LocationConflict where
  "new_conflict = \<lparr>lc_lhs = None, lc_rhs = None, lc_confidence = Conf_Low, lc_isWriteWrite = False,
     lc_isPrecise = False, lc_showsLoweredOrigin = False, lc_additionalPairs = 0,
     lc_relatedSites = [], lc_seenSiteKeys = {}\<rparr>"

definition parallelAccesses :: "TUFacts \<Rightarrow> AccessFact \<Rightarrow> AccessFact \<Rightarrow> bool" where
  "parallelAccesses facts lhs rhs \<longleftrightarrow>
     mayHappenInParallel ac_inRootTask ac_liveEntries lhs (entriesOf facts lhs) rhs
       (entriesOf facts rhs) facts"

text \<open>The guards of the pair loop, in their order: a pair that fails one is skipped.\<close>

definition pairConflicts :: "TUFacts \<Rightarrow> AccessFact \<Rightarrow> AccessFact \<Rightarrow> bool" where
  "pairConflicts facts lhs rhs \<longleftrightarrow>
     (if ac_kind lhs \<noteq> AK_Write \<and> ac_kind rhs \<noteq> AK_Write then False
      else if \<not> mayOverlap (ac_region lhs) (ac_region rhs) then False
      else if orderedWithElementOwner (ac_region lhs) (ac_region rhs) then False
      else if isRaceFreeAtomicPair lhs rhs then False
      else if isMixedAtomicPair lhs rhs \<and> \<not> hasPreciseRegions lhs rhs then False
      else if \<not> parallelAccesses facts lhs rhs then False
      else if inOwnObjectsOfInstances lhs rhs then False
      else if shareRecognizedLock lhs rhs \<or> orderedByPublication lhs rhs then False
      else True)"

definition isPrecisePair :: "AccessFact \<Rightarrow> AccessFact \<Rightarrow> bool" where
  "isPrecisePair lhs rhs \<longleftrightarrow>
     \<not> ac_coarseCallEffect lhs \<and> \<not> ac_coarseCallEffect rhs \<and>
     \<not> ac_guessedIdentity lhs \<and> \<not> ac_guessedIdentity rhs"

fun recordSites :: "AccessFact list \<Rightarrow> LocationConflict \<Rightarrow> LocationConflict" where
  "recordSites [] conflict = conflict"
| "recordSites (site # sites) conflict =
     (if length (lc_relatedSites conflict) \<ge> kMaxRelatedConflictSites then conflict
      else
        (let siteKey = formatLocation (ac_userLocation site)
         in if siteKey \<in> lc_seenSiteKeys conflict then recordSites sites conflict
            else recordSites sites
              (conflict\<lparr>lc_seenSiteKeys := insert siteKey (lc_seenSiteKeys conflict),
                        lc_relatedSites := lc_relatedSites conflict @
                          [(''Conflicting site'', ac_userLocation site)]\<rparr>)))"

definition chooseRepresentative ::
  "AccessFact \<Rightarrow> AccessFact \<Rightarrow> LocationConflict \<Rightarrow> LocationConflict" where
  "chooseRepresentative lhs rhs conflict =
     (let isPrecise = isPrecisePair lhs rhs;
          confidence = inferConfidence lhs rhs;
          isWriteWrite = (ac_kind lhs = AK_Write \<and> ac_kind rhs = AK_Write);
          showsLoweredOrigin = hasDistinctLoweredLocation lhs
      in if lc_lhs conflict = None \<or>
            (isPrecise, showsLoweredOrigin, confidence, isWriteWrite) >
            (lc_isPrecise conflict, lc_showsLoweredOrigin conflict, lc_confidence conflict,
             lc_isWriteWrite conflict)
         then conflict\<lparr>lc_additionalPairs :=
                  (if lc_lhs conflict \<noteq> None then Suc (lc_additionalPairs conflict)
                   else lc_additionalPairs conflict),
                lc_lhs := Some lhs, lc_rhs := Some rhs, lc_confidence := confidence,
                lc_isWriteWrite := isWriteWrite, lc_isPrecise := isPrecise,
                lc_showsLoweredOrigin := showsLoweredOrigin\<rparr>
         else conflict\<lparr>lc_additionalPairs := Suc (lc_additionalPairs conflict)\<rparr>)"

type_synonym conflict_state = "(string \<times> LocationConflict) list \<times> string set"

definition pairStep ::
  "TUFacts \<Rightarrow> AccessFact \<times> AccessFact \<Rightarrow> conflict_state \<Rightarrow> conflict_state" where
  "pairStep facts p st =
     (let (lhs, rhs) = p; (conflicts, precise) = st
      in if \<not> pairConflicts facts lhs rhs then st
         else if \<not> isPrecisePair lhs rhs \<and> ac_symbol lhs \<in> precise then st
         else
           (omap_update (conflictLocationKey lhs rhs (entriesOf facts lhs) (entriesOf facts rhs))
              (\<lambda>r. recordSites [lhs, rhs]
                     (chooseRepresentative lhs rhs (case r of None \<Rightarrow> new_conflict | Some c \<Rightarrow> c)))
              conflicts,
            if isPrecisePair lhs rhs then insert (ac_symbol lhs) precise else precise))"

definition selfStep :: "TUFacts \<Rightarrow> AccessFact \<Rightarrow> conflict_state \<Rightarrow> conflict_state" where
  "selfStep facts access st =
     (let (conflicts, precise) = st;
          entries = entriesOf facts access;
          isPrecise = (\<not> ac_coarseCallEffect access \<and> \<not> ac_guessedIdentity access);
          key = conflictLocationKey access access entries entries
      in if ac_kind access \<noteq> AK_Write \<or> ac_isAtomic access then st
         else if \<not> racesWithItself access entries facts then st
         else if shareRecognizedLock access access then st
         else if \<not> isPrecise \<and> ac_symbol access \<in> precise then st
         else if map_of conflicts key \<noteq> None then st
         else
           (omap_update key
              (\<lambda>_. new_conflict\<lparr>lc_lhs := Some access, lc_rhs := Some access,
                     lc_confidence := inferConfidence1 access, lc_isWriteWrite := True,
                     lc_isPrecise := isPrecise,
                     lc_showsLoweredOrigin := hasDistinctLoweredLocation access\<rparr>)
              conflicts,
            precise))"

definition conflictsOf :: "TUFacts \<Rightarrow> AccessFact list \<Rightarrow> (string \<times> LocationConflict) list" where
  "conflictsOf facts accesses =
     fst (fold (selfStep facts) accesses (fold (pairStep facts) (pairs accesses) ([], {})))"

text \<open>The code dereferences both pointers; that neither is ever null is shown below.\<close>

definition emitConflict ::
  "TUFacts \<Rightarrow> string \<times> LocationConflict \<Rightarrow> DiagnosticReport \<Rightarrow> DiagnosticReport" where
  "emitConflict facts kc report =
     (case (lc_lhs (snd kc), lc_rhs (snd kc)) of
        (Some lhs, Some rhs) \<Rightarrow>
          emit report (pairDiagnostic lhs rhs (entriesOf facts lhs) (entriesOf facts rhs) facts
            (lc_additionalPairs (snd kc))
            (filter (\<lambda>site. \<not> (sameSourceLocation (snd site) (ac_userLocation lhs) \<or>
                               sameSourceLocation (snd site) (ac_userLocation rhs)))
               (lc_relatedSites (snd kc))))
      | _ \<Rightarrow> report)"

definition selfConcurrentWrite :: "TUFacts \<Rightarrow> AccessFact \<Rightarrow> bool" where
  "selfConcurrentWrite facts access \<longleftrightarrow>
     \<not> (ac_kind access \<noteq> AK_Write \<or> ac_isAtomic access) \<and>
     isSelfConcurrent (entriesOf facts access) facts \<and>
     \<not> inOwnObjectsOfInstances access access \<and>
     mayOverlap (ac_region access) (ac_region access) \<and>
     \<not> shareRecognizedLock access access"

definition checkSymbol ::
  "TUFacts \<Rightarrow> string \<times> AccessFact list \<Rightarrow> DiagnosticReport \<Rightarrow> DiagnosticReport" where
  "checkSymbol facts grp report =
     (let accesses = snd grp; conflicts = conflictsOf facts accesses
      in if conflicts \<noteq> [] then fold (emitConflict facts) conflicts report
         else
           (case List.find (selfConcurrentWrite facts) accesses of
              None \<Rightarrow> report
            | Some access \<Rightarrow> emit report (selfConcurrentDiagnostic access (entriesOf facts access))))"

definition dataRaceRun :: "TUFacts \<Rightarrow> DiagnosticReport" where
  "dataRaceRun facts = fold (checkSymbol facts) (accessesBySymbol facts) empty_report"

section \<open>What a diagnostic says of its pair\<close>

lemma fold_related_locations:
  "d_ruleId (fold (\<lambda>(label, location) d. b_relatedLocation label location d) sites b) = d_ruleId b"
  "d_severity (fold (\<lambda>(label, location) d. b_relatedLocation label location d) sites b) = d_severity b"
  "d_location (fold (\<lambda>(label, location) d. b_relatedLocation label location d) sites b) = d_location b"
  "d_properties (fold (\<lambda>(label, location) d. b_relatedLocation label location d) sites b) =
     d_properties b"
  by (induction sites arbitrary: b) (auto split: prod.splits)

lemma pairDiagnostic_fields [simp]:
  "d_ruleId (pairDiagnostic lhs rhs le re facts n sites) = DataRaceGlobal"
  "d_severity (pairDiagnostic lhs rhs le re facts n sites) = Sev_Error"
  "d_location (pairDiagnostic lhs rhs le re facts n sites) = ac_userLocation lhs"
  by (simp_all add: pairDiagnostic_def Let_def fold_related_locations)

lemma pairDiagnostic_symbol [simp]:
  "map_of (d_properties (pairDiagnostic lhs rhs le re facts n sites)) ''symbol'' =
     Some (PropString (ac_symbol lhs))"
  by (simp add: pairDiagnostic_def Let_def fold_related_locations omap_insert_lookup
      omap_insert_inv describeSymbol_def)

lemma selfConcurrentDiagnostic_fields [simp]:
  "d_ruleId (selfConcurrentDiagnostic access entries) = DataRaceGlobal"
  "d_severity (selfConcurrentDiagnostic access entries) = Sev_Error"
  "d_location (selfConcurrentDiagnostic access entries) = ac_userLocation access"
  "map_of (d_properties (selfConcurrentDiagnostic access entries)) ''symbol'' =
     Some (PropString (ac_symbol access))"
  by (simp_all add: selfConcurrentDiagnostic_def Let_def omap_insert_lookup omap_insert_inv
      describeSymbol_def)

section \<open>The evidence behind a conflict\<close>

text \<open>
  What two accesses must satisfy to race: one writes, they are not both atomic, no lock is held at
  both, and they may happen in parallel.
\<close>

definition raceEvidence :: "TUFacts \<Rightarrow> AccessFact \<Rightarrow> AccessFact \<Rightarrow> bool" where
  "raceEvidence facts lhs rhs \<longleftrightarrow>
     (ac_kind lhs = AK_Write \<or> ac_kind rhs = AK_Write) \<and>
     \<not> (ac_isAtomic lhs \<and> ac_isAtomic rhs) \<and>
     ac_heldLocks lhs \<inter> ac_heldLocks rhs = {} \<and>
     parallelAccesses facts lhs rhs"

lemma shareRecognizedLock_iff:
  "shareRecognizedLock lhs rhs \<longleftrightarrow> ac_heldLocks lhs \<inter> ac_heldLocks rhs \<noteq> {}"
  by (auto simp: shareRecognizedLock_def)

lemma pairConflicts_evidence: "pairConflicts facts lhs rhs \<Longrightarrow> raceEvidence facts lhs rhs"
  by (auto simp: pairConflicts_def raceEvidence_def isRaceFreeAtomicPair_def shareRecognizedLock_iff
      split: if_splits)

lemma mayRunConcurrently_parallel:
  "mayRunConcurrently (entriesOf facts a) (entriesOf facts b) facts \<Longrightarrow> parallelAccesses facts a b"
  by (auto simp: parallelAccesses_def mayHappenInParallel_def mayRunConcurrently_def)

lemma racesWithItself_parallel:
  assumes "racesWithItself access (entriesOf facts access) facts"
  shows "parallelAccesses facts access access"
proof (cases "racesWithRootTask (ac_inRootTask access) (ac_liveEntries access) (entriesOf facts access)")
  case True
  then show ?thesis by (simp add: parallelAccesses_def mayHappenInParallel_def)
next
  case False
  with assms obtain l r where "l \<in> entriesOf facts access" "r \<in> entriesOf facts access"
    and "mayRunConcurrently {l} {r} facts"
    by (auto simp: racesWithItself_def split: if_splits)
  then have "mayRunConcurrently (entriesOf facts access) (entriesOf facts access) facts"
    by (auto simp: mayRunConcurrently_def)
  then show ?thesis by (rule mayRunConcurrently_parallel)
qed

lemma selfConcurrentWrite_evidence:
  assumes "selfConcurrentWrite facts access"
  shows "raceEvidence facts access access"
proof -
  from assms obtain e where "e \<in> entriesOf facts access" "entryIsSelfConcurrent facts e"
    by (auto simp: selfConcurrentWrite_def isSelfConcurrent_def)
  then have "mayRunConcurrently (entriesOf facts access) (entriesOf facts access) facts"
    unfolding mayRunConcurrently_def by (intro bexI [of _ e]) (auto simp: entriesOverlap_def)
  then have "parallelAccesses facts access access" by (rule mayRunConcurrently_parallel)
  with assms show ?thesis
    by (auto simp: selfConcurrentWrite_def raceEvidence_def shareRecognizedLock_iff)
qed

definition conflict_ok :: "TUFacts \<Rightarrow> AccessFact list \<Rightarrow> LocationConflict \<Rightarrow> bool" where
  "conflict_ok facts accesses c \<longleftrightarrow>
     (\<exists>lhs rhs. lc_lhs c = Some lhs \<and> lc_rhs c = Some rhs \<and>
        lhs \<in> set accesses \<and> rhs \<in> set accesses \<and> raceEvidence facts lhs rhs)"

definition state_ok :: "TUFacts \<Rightarrow> AccessFact list \<Rightarrow> conflict_state \<Rightarrow> bool" where
  "state_ok facts accesses st \<longleftrightarrow>
     omap_inv (fst st) \<and> (\<forall>kc \<in> set (fst st). conflict_ok facts accesses (snd kc)) \<and>
     (snd st \<noteq> {} \<longrightarrow> fst st \<noteq> [])"

lemma recordSites_representative [simp]:
  "lc_lhs (recordSites sites c) = lc_lhs c"
  "lc_rhs (recordSites sites c) = lc_rhs c"
  "lc_additionalPairs (recordSites sites c) = lc_additionalPairs c"
  by (induction sites c rule: recordSites.induct) (simp_all add: Let_def)

lemma recordSites_bound:
  "length (lc_relatedSites c) \<le> kMaxRelatedConflictSites \<Longrightarrow>
     length (lc_relatedSites (recordSites sites c)) \<le> kMaxRelatedConflictSites"
  by (induction sites c rule: recordSites.induct) (auto simp: Let_def)

declare recordSites.simps [simp del]

lemma omap_update_nonempty [simp]: "omap_update k f m \<noteq> []"
  by (cases m) (auto split: if_splits)

lemma chooseRepresentative_ok:
  assumes "raceEvidence facts lhs rhs" "lhs \<in> set accesses" "rhs \<in> set accesses"
    and "c = new_conflict \<or> conflict_ok facts accesses c"
  shows "conflict_ok facts accesses (recordSites sites (chooseRepresentative lhs rhs c))"
  using assms by (auto simp: conflict_ok_def chooseRepresentative_def Let_def new_conflict_def)

lemma state_ok_update:
  assumes "state_ok facts accesses st" and "\<And>r. r = None \<or> (\<exists>c. r = Some c \<and> conflict_ok facts accesses c) \<Longrightarrow>
      conflict_ok facts accesses (f r)"
  shows "state_ok facts accesses (omap_update k f (fst st), p)"
proof -
  have inv: "omap_inv (fst st)" using assms(1) by (simp add: state_ok_def)
  have "map_of (fst st) k = None \<or> (\<exists>c. map_of (fst st) k = Some c \<and> conflict_ok facts accesses c)"
    using assms(1) by (cases "map_of (fst st) k") (auto simp: state_ok_def dest!: map_of_SomeD)
  then have "conflict_ok facts accesses (f (map_of (fst st) k))" by (rule assms(2))
  then show ?thesis
    using assms(1) by (auto simp: state_ok_def omap_inv_update om.entries_update [OF inv])
qed

definition recordPair ::
  "AccessFact \<Rightarrow> AccessFact \<Rightarrow> LocationConflict option \<Rightarrow> LocationConflict" where
  "recordPair lhs rhs r =
     recordSites [lhs, rhs]
       (chooseRepresentative lhs rhs (case r of None \<Rightarrow> new_conflict | Some c \<Rightarrow> c))"

lemma pairStep_cases:
  obtains "pairStep facts p st = st"
    and "pairConflicts facts (fst p) (snd p) \<Longrightarrow> ac_symbol (fst p) \<in> snd st"
  | "pairConflicts facts (fst p) (snd p)"
    and "pairStep facts p st =
      (omap_update (conflictLocationKey (fst p) (snd p) (entriesOf facts (fst p)) (entriesOf facts (snd p)))
         (recordPair (fst p) (snd p)) (fst st),
       if isPrecisePair (fst p) (snd p) then insert (ac_symbol (fst p)) (snd st) else snd st)"
proof (cases "pairConflicts facts (fst p) (snd p) \<and>
    (isPrecisePair (fst p) (snd p) \<or> ac_symbol (fst p) \<notin> snd st)")
  case True
  then have "pairStep facts p st =
      (omap_update (conflictLocationKey (fst p) (snd p) (entriesOf facts (fst p)) (entriesOf facts (snd p)))
         (recordPair (fst p) (snd p)) (fst st),
       if isPrecisePair (fst p) (snd p) then insert (ac_symbol (fst p)) (snd st) else snd st)"
    by (auto simp: pairStep_def recordPair_def [abs_def] Let_def case_prod_unfold)
  with True that(2) show thesis by blast
next
  case False
  then have "pairStep facts p st = st" by (auto simp: pairStep_def Let_def case_prod_unfold)
  with False that(1) show thesis by blast
qed

lemma pairStep_ok:
  assumes "state_ok facts accesses st" and mem: "fst p \<in> set accesses \<and> snd p \<in> set accesses"
  shows "state_ok facts accesses (pairStep facts p st)"
proof (cases rule: pairStep_cases [of facts p st])
  case 1
  with assms show ?thesis by simp
next
  case 2
  have "conflict_ok facts accesses (recordPair (fst p) (snd p) r)"
    if "r = None \<or> (\<exists>c. r = Some c \<and> conflict_ok facts accesses c)" for r
    unfolding recordPair_def using pairConflicts_evidence [OF 2(1)] mem that
    by (intro chooseRepresentative_ok) auto
  then show ?thesis unfolding 2(2) by (rule state_ok_update [OF assms(1)])
qed

definition selfConflict :: "AccessFact \<Rightarrow> LocationConflict" where
  "selfConflict access =
     new_conflict\<lparr>lc_lhs := Some access, lc_rhs := Some access,
       lc_confidence := inferConfidence1 access, lc_isWriteWrite := True,
       lc_isPrecise := (\<not> ac_coarseCallEffect access \<and> \<not> ac_guessedIdentity access),
       lc_showsLoweredOrigin := hasDistinctLoweredLocation access\<rparr>"

lemma selfStep_cases:
  obtains "selfStep facts access st = st"
  | "ac_kind access = AK_Write" "\<not> ac_isAtomic access" "\<not> shareRecognizedLock access access"
    and "racesWithItself access (entriesOf facts access) facts"
    and "selfStep facts access st =
      (omap_update (conflictLocationKey access access (entriesOf facts access) (entriesOf facts access))
         (\<lambda>_. selfConflict access) (fst st), snd st)"
proof (cases "selfStep facts access st = st")
  case True
  with that(1) show thesis by blast
next
  case False
  then have "ac_kind access = AK_Write" "\<not> ac_isAtomic access" "\<not> shareRecognizedLock access access"
    and "racesWithItself access (entriesOf facts access) facts"
    by (simp_all add: selfStep_def Let_def case_prod_unfold split: if_splits)
  moreover from False have "selfStep facts access st =
      (omap_update (conflictLocationKey access access (entriesOf facts access) (entriesOf facts access))
         (\<lambda>_. selfConflict access) (fst st), snd st)"
    by (simp add: selfStep_def selfConflict_def Let_def case_prod_unfold split: if_splits)
  ultimately show thesis by (rule that(2))
qed

lemma selfStep_ok:
  assumes "state_ok facts accesses st" and "access \<in> set accesses"
  shows "state_ok facts accesses (selfStep facts access st)"
proof (cases rule: selfStep_cases [of facts access st])
  case 1
  with assms show ?thesis by simp
next
  case 2
  have "raceEvidence facts access access"
    using 2(1-3) racesWithItself_parallel [OF 2(4)] by (simp add: raceEvidence_def shareRecognizedLock_iff)
  then have "conflict_ok facts accesses (selfConflict access)"
    using assms(2) by (simp add: conflict_ok_def selfConflict_def)
  then show ?thesis unfolding 2(5) by (rule state_ok_update [OF assms(1)])
qed

lemma fold_pairStep_ok:
  "state_ok facts accesses (fold (pairStep facts) (pairs accesses) ([], {}))"
proof (rule fold_invariant [where P = "state_ok facts accesses"
      and Q = "\<lambda>p. fst p \<in> set accesses \<and> snd p \<in> set accesses"])
  show "fst p \<in> set accesses \<and> snd p \<in> set accesses" if "p \<in> set (pairs accesses)" for p
    using pairs_members [of "fst p" "snd p" accesses] that by simp
  show "state_ok facts accesses ([], {})" by (simp add: state_ok_def)
qed (rule pairStep_ok)

lemma conflictsOf_state_ok:
  "state_ok facts accesses
     (fold (selfStep facts) accesses (fold (pairStep facts) (pairs accesses) ([], {})))"
  by (rule fold_invariant [where P = "state_ok facts accesses" and Q = "\<lambda>a. a \<in> set accesses"])
    (assumption, rule fold_pairStep_ok, rule selfStep_ok)

lemma conflicts_ok:
  "kc \<in> set (conflictsOf facts accesses) \<Longrightarrow> conflict_ok facts accesses (snd kc)"
  using conflictsOf_state_ok [of facts accesses] by (simp add: conflictsOf_def state_ok_def)

section \<open>The report\<close>

definition conflictDiagnostic :: "TUFacts \<Rightarrow> LocationConflict \<Rightarrow> Diagnostic" where
  "conflictDiagnostic facts c =
     pairDiagnostic (the (lc_lhs c)) (the (lc_rhs c)) (entriesOf facts (the (lc_lhs c)))
       (entriesOf facts (the (lc_rhs c))) facts (lc_additionalPairs c)
       (filter (\<lambda>site. \<not> (sameSourceLocation (snd site) (ac_userLocation (the (lc_lhs c))) \<or>
                          sameSourceLocation (snd site) (ac_userLocation (the (lc_rhs c)))))
          (lc_relatedSites c))"

lemma emitConflict_ok:
  "conflict_ok facts accesses (snd kc) \<Longrightarrow>
     emitConflict facts kc report = emit report (conflictDiagnostic facts (snd kc))"
  by (auto simp: conflict_ok_def emitConflict_def conflictDiagnostic_def)

lemma fold_emitConflict:
  assumes "\<forall>kc \<in> set cs. conflict_ok facts accesses (snd kc)"
  shows "rp_diagnostics (fold (emitConflict facts) cs report) =
      rp_diagnostics report @ map (conflictDiagnostic facts \<circ> snd) cs"
    and "rp_notices (fold (emitConflict facts) cs report) = rp_notices report"
  using assms by (induction cs arbitrary: report) (simp_all add: emitConflict_ok [of facts accesses])

text \<open>The diagnostics one symbol contributes.\<close>

definition symbolDiagnostics :: "TUFacts \<Rightarrow> AccessFact list \<Rightarrow> Diagnostic list" where
  "symbolDiagnostics facts accesses =
     (if conflictsOf facts accesses \<noteq> []
      then map (conflictDiagnostic facts \<circ> snd) (conflictsOf facts accesses)
      else map (\<lambda>a. selfConcurrentDiagnostic a (entriesOf facts a))
             (case List.find (selfConcurrentWrite facts) accesses of None \<Rightarrow> [] | Some a \<Rightarrow> [a]))"

lemma checkSymbol_diagnostics:
  "rp_diagnostics (checkSymbol facts (s, accesses) report) =
     rp_diagnostics report @ symbolDiagnostics facts accesses"
  "rp_notices (checkSymbol facts (s, accesses) report) = rp_notices report"
  using fold_emitConflict [of "conflictsOf facts accesses" facts accesses] conflicts_ok
  by (auto simp: checkSymbol_def symbolDiagnostics_def Let_def split: option.splits)

lemma dataRaceRun_diagnostics:
  "rp_diagnostics (dataRaceRun facts) =
     concat (map (symbolDiagnostics facts \<circ> snd) (accessesBySymbol facts))"
  "rp_notices (dataRaceRun facts) = []"
proof -
  have "rp_diagnostics (fold (checkSymbol facts) gs report) =
      rp_diagnostics report @ concat (map (symbolDiagnostics facts \<circ> snd) gs) \<and>
      rp_notices (fold (checkSymbol facts) gs report) = rp_notices report" for gs report
    by (induction gs arbitrary: report) (auto simp: checkSymbol_diagnostics)
  then show "rp_diagnostics (dataRaceRun facts) =
      concat (map (symbolDiagnostics facts \<circ> snd) (accessesBySymbol facts))"
    and "rp_notices (dataRaceRun facts) = []"
    by (simp_all add: dataRaceRun_def)
qed

lemma accessesBySymbol_group:
  "(s, accesses) \<in> set (accessesBySymbol facts) \<longleftrightarrow>
     accesses \<noteq> [] \<and>
     accesses = filter (\<lambda>a. takesPart facts a \<and> ac_symbol a = s) (tu_accesses facts)"
proof -
  let ?m = "accessesBySymbol facts"
  have "omap_inv ?m"
    unfolding accessesBySymbol_def by (rule om.inv_fold [OF om.inv_empty])
  then have "(s, accesses) \<in> set ?m \<longleftrightarrow> map_of ?m s = Some accesses"
    using om.inv_distinct map_of_eq_Some_iff by metis
  also have "map_of ?m s = (let g = filter (\<lambda>a. takesPart facts a \<and> ac_symbol a = s) (tu_accesses facts)
      in if g = [] then None else Some g)"
    by (simp add: accessesBySymbol_def omap_group filter_filter conj_commute)
  finally show ?thesis by (auto simp: Let_def)
qed

lemma symbolDiagnostics_evidence:
  assumes "d \<in> set (symbolDiagnostics facts accesses)"
  shows "\<exists>lhs \<in> set accesses. \<exists>rhs \<in> set accesses. raceEvidence facts lhs rhs \<and>
    d_location d = ac_userLocation lhs \<and>
    map_of (d_properties d) ''symbol'' = Some (PropString (ac_symbol lhs)) \<and>
    well_formed_diagnostic {DataRaceGlobal} d"
proof (cases "conflictsOf facts accesses = []")
  case False
  with assms obtain kc where kc: "kc \<in> set (conflictsOf facts accesses)"
    and d: "d = conflictDiagnostic facts (snd kc)"
    by (auto simp: symbolDiagnostics_def)
  from conflicts_ok [OF kc] show ?thesis
    by (auto simp: d conflict_ok_def conflictDiagnostic_def well_formed_diagnostic_def)
next
  case True
  with assms obtain a where a: "List.find (selfConcurrentWrite facts) accesses = Some a"
    and d: "d = selfConcurrentDiagnostic a (entriesOf facts a)"
    by (cases "List.find (selfConcurrentWrite facts) accesses") (auto simp: symbolDiagnostics_def)
  from a have "a \<in> set accesses" "selfConcurrentWrite facts a"
    by (auto simp: find_Some_iff)
  with selfConcurrentWrite_evidence show ?thesis
    by (auto simp: d well_formed_diagnostic_def)
qed

section \<open>No conflicting pair is lost\<close>

lemma pairs_filter:
  assumes "i < j" "j < length xs" "P (xs ! i)" "P (xs ! j)"
  shows "(xs ! i, xs ! j) \<in> set (pairs (filter P xs))"
  using assms
proof (induction xs arbitrary: i j)
  case Nil
  then show ?case by simp
next
  case (Cons x xs)
  then obtain j' where j': "j = Suc j'" "j' < length xs" by (cases j) auto
  show ?case
  proof (cases i)
    case 0
    then show ?thesis using Cons.prems j' by (auto simp: image_iff)
  next
    case (Suc i')
    then have "(xs ! i', xs ! j') \<in> set (pairs (filter P xs))"
      using Cons.prems j' by (intro Cons.IH) auto
    then show ?thesis using Suc j' by auto
  qed
qed

lemma fold_grows:
  "(\<And>x st. fst st \<noteq> [] \<Longrightarrow> fst (f x st) \<noteq> []) \<Longrightarrow> fst st \<noteq> [] \<Longrightarrow> fst (fold f xs st) \<noteq> []"
  by (induction xs arbitrary: st) simp_all

lemma pairStep_grows: "fst st \<noteq> [] \<Longrightarrow> fst (pairStep facts p st) \<noteq> []"
  by (cases rule: pairStep_cases [of facts p st]) auto

lemma selfStep_grows: "fst st \<noteq> [] \<Longrightarrow> fst (selfStep facts a st) \<noteq> []"
  by (cases rule: selfStep_cases [of facts a st]) auto

lemma pairStep_records:
  assumes "state_ok facts accesses st" and "pairConflicts facts (fst p) (snd p)"
  shows "fst (pairStep facts p st) \<noteq> []"
  using assms by (cases rule: pairStep_cases [of facts p st]) (auto simp: state_ok_def)

lemma fold_pairStep_records:
  assumes "state_ok facts accesses st"
    and "\<And>q. q \<in> set ps \<Longrightarrow> fst q \<in> set accesses \<and> snd q \<in> set accesses"
    and "p \<in> set ps" "pairConflicts facts (fst p) (snd p)"
  shows "fst (fold (pairStep facts) ps st) \<noteq> []"
  using assms
proof (induction ps arbitrary: st)
  case Nil
  then show ?case by simp
next
  case (Cons q ps)
  have ok: "state_ok facts accesses (pairStep facts q st)"
    using Cons.prems by (intro pairStep_ok) auto
  show ?case
  proof (cases "p = q")
    case True
    then have "fst (pairStep facts q st) \<noteq> []"
      using pairStep_records [OF Cons.prems(1)] Cons.prems(4) by blast
    then show ?thesis by (simp add: fold_grows pairStep_grows)
  next
    case False
    then have "p \<in> set ps" using Cons.prems(3) by simp
    then have "fst (fold (pairStep facts) ps (pairStep facts q st)) \<noteq> []"
      using Cons.prems(2,4) by (intro Cons.IH [OF ok]) auto
    then show ?thesis by simp
  qed
qed

lemma conflictsOf_nonempty:
  assumes "p \<in> set (pairs accesses)" and "pairConflicts facts (fst p) (snd p)"
  shows "conflictsOf facts accesses \<noteq> []"
proof -
  have "fst (fold (pairStep facts) (pairs accesses) ([], {})) \<noteq> []"
  proof (rule fold_pairStep_records [OF _ _ assms])
    show "state_ok facts accesses ([], {})" by (simp add: state_ok_def)
    show "fst q \<in> set accesses \<and> snd q \<in> set accesses" if "q \<in> set (pairs accesses)" for q
      using pairs_members [of "fst q" "snd q" accesses] that by simp
  qed
  then show ?thesis
    by (simp add: conflictsOf_def fold_grows selfStep_grows)
qed

text \<open>A symbol whose accesses leave any diagnostic has one that names it.\<close>

definition reportsSymbol :: "DiagnosticReport \<Rightarrow> string \<Rightarrow> bool" where
  "reportsSymbol report s \<longleftrightarrow>
     (\<exists>d \<in> set (rp_diagnostics report). d_ruleId d = DataRaceGlobal \<and>
        map_of (d_properties d) ''symbol'' = Some (PropString s))"

lemma symbol_reported:
  assumes "symbolDiagnostics facts g \<noteq> []" and "a \<in> set g"
    and g: "g = filter (\<lambda>a. takesPart facts a \<and> ac_symbol a = s) (tu_accesses facts)"
  shows "reportsSymbol (dataRaceRun facts) s"
proof -
  from assms obtain d where d: "d \<in> set (symbolDiagnostics facts g)"
    by (cases "symbolDiagnostics facts g") auto
  have "g \<noteq> []" using assms(2) by (cases g) auto
  with g have "(s, g) \<in> set (accessesBySymbol facts)"
    by (simp only: accessesBySymbol_group) blast
  with d have "d \<in> set (rp_diagnostics (dataRaceRun facts))"
    by (auto simp: dataRaceRun_diagnostics intro!: bexI [of _ "(s, g)"])
  moreover from symbolDiagnostics_evidence [OF d] obtain lhs where "lhs \<in> set g"
    and "map_of (d_properties d) ''symbol'' = Some (PropString (ac_symbol lhs))"
    and "well_formed_diagnostic {DataRaceGlobal} d"
    by blast
  ultimately show ?thesis
    using g by (auto simp: reportsSymbol_def well_formed_diagnostic_def)
qed

lemma conflicting_pair_reported:
  assumes ij: "i < j" "j < length (tu_accesses facts)"
    and "a = tu_accesses facts ! i" "b = tu_accesses facts ! j"
    and "ac_symbol a = s" "ac_symbol b = s" "takesPart facts a" "takesPart facts b"
    and "pairConflicts facts a b"
  shows "reportsSymbol (dataRaceRun facts) s"
proof -
  define g where "g = filter (\<lambda>a. takesPart facts a \<and> ac_symbol a = s) (tu_accesses facts)"
  have p: "(a, b) \<in> set (pairs g)"
    using pairs_filter [OF ij, of "\<lambda>a. takesPart facts a \<and> ac_symbol a = s"] assms by (simp add: g_def)
  then have "symbolDiagnostics facts g \<noteq> []"
    using conflictsOf_nonempty [OF p] assms(9) by (simp add: symbolDiagnostics_def)
  moreover from p have "a \<in> set g" by (auto dest: pairs_members)
  ultimately show ?thesis by (rule symbol_reported) (simp add: g_def)
qed

text \<open>A unit with one race: two entries write one counter without a lock.\<close>

definition sample_access :: AccessFact where
  "sample_access = \<lparr>ac_symbol = ''counter'', ac_region = whole_region\<lparr>mr_byteSize := 4\<rparr>,
     ac_functionId = ''worker'', ac_kind = AK_Write, ac_aliasProvenance = AP_Direct,
     ac_loweredLocation = no_location, ac_userLocation = no_location,
     ac_allowCallsiteProjection = False, ac_isAtomic = False, ac_coarseCallEffect = False,
     ac_guessedIdentity = False, ac_sharedObject = False, ac_inRootTask = False,
     ac_liveEntries = {}, ac_startedEntries = {}, ac_boundBySpawn = False, ac_instanceOwner = [],
     ac_heldLocks = {}, ac_beforeRelease = {}, ac_afterAcquire = {}\<rparr>"

definition sample_facts :: "AccessFact list \<Rightarrow> TUFacts" where
  "sample_facts accesses = no_facts\<lparr>tu_accesses := accesses,
     tu_entryConcurrency := [(''worker'', \<lparr>ec_staticSpawnCount = 2, ec_hasSpawnInLoop = False\<rparr>)],
     tu_reachableThreadEntriesByFunction := [(''worker'', {''worker''})]\<rparr>"

lemmas sample_defs = sample_access_def sample_facts_def no_facts_def no_program_def whole_region_def
  no_location_def

lemma sample_pairConflicts: "pairConflicts (sample_facts [sample_access, sample_access]) sample_access sample_access"
  by (simp add: pairConflicts_def parallelAccesses_def entriesOf_def entriesOfFunction_def query_defs
      mayOverlap_def orderedWithElementOwner_def isRaceFreeAtomicPair_def isMixedAtomicPair_def
      inOwnObjectsOfInstances_def shareRecognizedLock_def orderedByPublication_def
      heldBySpawningThread_def sample_defs)

lemma sample_reported: "reportsSymbol (dataRaceRun (sample_facts [sample_access, sample_access])) ''counter''"
  by (rule conflicting_pair_reported [OF _ _ _ _ _ _ _ _ sample_pairConflicts, of 0 1])
    (simp_all add: sample_defs takesPart_def)

text \<open>
  C1: Every reported data race rests on two accesses of the unit (possibly one access in two
  threads) to the symbol the diagnostic names, each reachable from a thread entry or run by the
  initial thread, at least one a write, not both atomic, with no lock held at both, that may
  happen in parallel; the diagnostic is placed at the first of them.
\<close>

theorem data_race_sound:
  assumes "d \<in> set (rp_diagnostics (dataRaceRun facts))"
  shows "\<exists>lhs \<in> set (tu_accesses facts). \<exists>rhs \<in> set (tu_accesses facts).
    ac_symbol lhs = ac_symbol rhs \<and> takesPart facts lhs \<and> takesPart facts rhs \<and>
    raceEvidence facts lhs rhs \<and>
    d_location d = ac_userLocation lhs \<and>
    map_of (d_properties d) ''symbol'' = Some (PropString (ac_symbol lhs))"
proof -
  from assms obtain s accesses where g: "(s, accesses) \<in> set (accessesBySymbol facts)"
    and d: "d \<in> set (symbolDiagnostics facts accesses)"
    by (auto simp: dataRaceRun_diagnostics)
  from g have accesses: "set accesses = {a \<in> set (tu_accesses facts). takesPart facts a \<and> ac_symbol a = s}"
    by (auto simp: accessesBySymbol_group)
  from symbolDiagnostics_evidence [OF d] obtain lhs rhs where "lhs \<in> set accesses" "rhs \<in> set accesses"
    and ev: "raceEvidence facts lhs rhs" "d_location d = ac_userLocation lhs"
      "map_of (d_properties d) ''symbol'' = Some (PropString (ac_symbol lhs))"
    by blast
  then show ?thesis
    unfolding accesses by (intro bexI [of _ lhs] bexI [of _ rhs]) simp_all
qed

theorem data_race_sound_witness:
  "\<exists>d \<in> set (rp_diagnostics (dataRaceRun (sample_facts [sample_access, sample_access]))).
    \<exists>lhs \<in> {sample_access}. \<exists>rhs \<in> {sample_access}.
      raceEvidence (sample_facts [sample_access, sample_access]) lhs rhs \<and>
      d_location d = ac_userLocation lhs"
proof -
  from sample_reported obtain d
    where d: "d \<in> set (rp_diagnostics (dataRaceRun (sample_facts [sample_access, sample_access])))"
    by (auto simp: reportsSymbol_def)
  with data_race_sound [OF d] show ?thesis
    by (intro bexI [OF _ d]) (simp add: sample_facts_def)
qed

text \<open>
  C20: No conflicting pair of accesses is lost: when two accesses of the unit to one symbol, each
  taking part in the analysis, pass every guard of the pair loop, the report holds a data-race
  diagnostic naming that symbol, whatever the other accesses are and in whatever order they come.
\<close>

theorem data_race_complete:
  assumes "i < j" "j < length (tu_accesses facts)"
    and "ac_symbol (tu_accesses facts ! i) = s" "ac_symbol (tu_accesses facts ! j) = s"
    and "takesPart facts (tu_accesses facts ! i)" "takesPart facts (tu_accesses facts ! j)"
    and "pairConflicts facts (tu_accesses facts ! i) (tu_accesses facts ! j)"
  shows "reportsSymbol (dataRaceRun facts) s"
  using conflicting_pair_reported [OF assms(1,2) refl refl assms(3-7)] .

theorem data_race_complete_witness:
  "reportsSymbol (dataRaceRun (sample_facts [sample_access, sample_access])) ''counter''"
  by (rule data_race_complete [of 0 1])
    (use sample_pairConflicts in \<open>simp_all add: sample_defs takesPart_def\<close>)

text \<open>
  A non-atomic write that several instances of one thread entry execute, outside the objects
  its instances own and under no lock, is reported even when no second access to its symbol exists.
\<close>

theorem self_concurrent_write_reported:
  assumes "a \<in> set (tu_accesses facts)" "takesPart facts a" "selfConcurrentWrite facts a"
  shows "reportsSymbol (dataRaceRun facts) (ac_symbol a)"
proof -
  let ?g = "filter (\<lambda>b. takesPart facts b \<and> ac_symbol b = ac_symbol a) (tu_accesses facts)"
  have a: "a \<in> set ?g" using assms by simp
  then have "List.find (selfConcurrentWrite facts) ?g \<noteq> None"
    using assms(3) by (auto simp: find_None_iff)
  then have "symbolDiagnostics facts ?g \<noteq> []"
    by (auto simp: symbolDiagnostics_def)
  then show ?thesis using a by (rule symbol_reported) simp
qed

theorem self_concurrent_write_reported_witness:
  "reportsSymbol (dataRaceRun (sample_facts [sample_access])) (ac_symbol sample_access)"
  by (rule self_concurrent_write_reported)
    (simp_all add: selfConcurrentWrite_def takesPart_def entriesOf_def entriesOfFunction_def
      query_defs mayOverlap_def inOwnObjectsOfInstances_def shareRecognizedLock_def sample_defs)

interpretation dr: rule_checker dataRaceRun "{DataRaceGlobal}"
proof unfold_locales
  show "well_formed_diagnostic {DataRaceGlobal} d" if "d \<in> set (rp_diagnostics (dataRaceRun facts))" for d facts
    using that symbolDiagnostics_evidence by (auto simp: dataRaceRun_diagnostics)
qed (simp add: dataRaceRun_diagnostics)

end
