(* ===== verification/Lock_Order_Proofs.thy ===== *)
theory Lock_Order_Proofs
  imports Lock_Order
begin

text \<open>
  What the lock-order analyzer promises. \<open>deadlockCycle\<close> says what a cycle of lock orders that may
  deadlock is, without reference to the search; the locale \<open>lock_graph\<close> is the contract between
  the numbered graph and the search over it. Inside it, the walk is shown to close only such
  cycles, to emit each key once and, when it stays within its bound, to miss none; the
  interpretation on the graph \<open>buildLockGraph\<close> makes discharges the contract.
\<close>

section \<open>Cycles that may deadlock\<close>

fun lockPath :: "string \<Rightarrow> LockOrderFact list \<Rightarrow> string \<Rightarrow> bool" where
  "lockPath a [] b \<longleftrightarrow> a = b"
| "lockPath a (e # es) b \<longleftrightarrow> lo_firstLockId e = a \<and> lockPath (lo_secondLockId e) es b"

definition concurrentOrders :: "TUFacts \<Rightarrow> LockOrderFact set" where
  "concurrentOrders facts =
     {e \<in> set (tu_lockOrders facts). lo_firstLockId e \<noteq> lo_secondLockId e \<and> participatesInConcurrency e facts}"

text \<open>
  A closed chain of orders, each taking the lock the next one holds, that visits no lock twice,
  whose orders may pairwise run at the same time, and that no outer lock serializes.
\<close>

definition deadlockCycle :: "TUFacts \<Rightarrow> LockOrderFact list \<Rightarrow> bool" where
  "deadlockCycle facts c \<longleftrightarrow>
     c \<noteq> [] \<and> set c \<subseteq> concurrentOrders facts \<and>
     lockPath (lo_firstLockId (hd c)) c (lo_firstLockId (hd c)) \<and>
     distinct (map lo_firstLockId c) \<and> sorted_wrt (parallelOrders facts) c \<and>
     \<not> hasCommonGateLock c"

lemma lockPath_append: "lockPath a (xs @ ys) b \<longleftrightarrow> (\<exists>m. lockPath a xs m \<and> lockPath m ys b)"
  by (induction xs arbitrary: a) auto

lemma lockPath_names: "lockPath a c b \<Longrightarrow> map lo_firstLockId c @ [b] = a # map lo_secondLockId c"
  by (induction c arbitrary: a) auto

lemma lockPath_start: "lockPath a c b \<Longrightarrow> c \<noteq> [] \<Longrightarrow> lo_firstLockId (hd c) = a"
  by (cases c) auto

lemma parallelOrders_sym: "parallelOrders facts a b \<longleftrightarrow> parallelOrders facts b a"
  by (simp add: parallelOrders_def mayHappenInParallel_sym)

lemma cycleLocksOf_eq: "cycleLocksOf c = lo_firstLockId ` set c \<union> lo_secondLockId ` set c"
proof -
  have "fold (\<lambda>e ls. insert (lo_secondLockId e) (insert (lo_firstLockId e) ls)) c L =
      L \<union> (lo_firstLockId ` set c \<union> lo_secondLockId ` set c)" for L
    by (induction c arbitrary: L) auto
  then show ?thesis by (simp add: cycleLocksOf_def)
qed

lemma fold_gateStep:
  "fold (gateStep L) c (Some G) = Some {g \<in> G. \<forall>e \<in> set c. g \<in> lo_heldLocks e - L}"
  by (induction c arbitrary: G) (auto simp: gateStep_def)

lemma hasCommonGateLock_iff:
  "hasCommonGateLock c \<longleftrightarrow>
     c \<noteq> [] \<and> (\<exists>g. g \<notin> lo_firstLockId ` set c \<union> lo_secondLockId ` set c \<and> (\<forall>e \<in> set c. g \<in> lo_heldLocks e))"
proof (cases c)
  case Nil
  then show ?thesis by (simp add: hasCommonGateLock_def)
next
  case (Cons e es)
  then have "fold (gateStep (cycleLocksOf c)) c None = Some {g. \<forall>e \<in> set c. g \<in> lo_heldLocks e - cycleLocksOf c}"
    by (auto simp: gateStep_def [of _ e None] fold_gateStep)
  with Cons show ?thesis
    by (simp add: hasCommonGateLock_def cycleLocksOf_eq) blast
qed

lemma hasCommonGateLock_cong: "set c = set c' \<Longrightarrow> hasCommonGateLock c \<longleftrightarrow> hasCommonGateLock c'"
  by (auto simp: hasCommonGateLock_iff)

lemma cycleKey_cong: "set c = set c' \<Longrightarrow> cycleKey c = cycleKey c'"
  by (simp add: cycleKey_def)

lemma deadlockCycle_rotate:
  assumes "deadlockCycle facts (xs @ ys)" "ys \<noteq> []"
  shows "deadlockCycle facts (ys @ xs)"
proof -
  let ?a = "lo_firstLockId (hd (xs @ ys))"
  obtain m where m: "lockPath ?a xs m" "lockPath m ys ?a"
    using assms(1) by (auto simp: deadlockCycle_def lockPath_append)
  have "lo_firstLockId (hd (ys @ xs)) = m"
    using lockPath_start [OF m(2) assms(2)] assms(2) by simp
  moreover have "lockPath m (ys @ xs) m" using m by (auto simp: lockPath_append)
  moreover have "hasCommonGateLock (ys @ xs) \<longleftrightarrow> hasCommonGateLock (xs @ ys)"
    by (rule hasCommonGateLock_cong) auto
  moreover have "sorted_wrt (parallelOrders facts) (ys @ xs)"
    using assms(1) by (simp add: deadlockCycle_def sorted_wrt_append) (metis parallelOrders_sym)
  ultimately show ?thesis using assms by (auto simp: deadlockCycle_def)
qed

lemma deadlockCycle_seconds:
  assumes "deadlockCycle facts c"
  shows "distinct (map lo_secondLockId c)" "map lo_secondLockId c = tl (map lo_firstLockId c) @ [lo_firstLockId (hd c)]"
proof -
  let ?a = "lo_firstLockId (hd c)"
  have "map lo_firstLockId c @ [?a] = ?a # map lo_secondLockId c"
    using assms lockPath_names by (auto simp: deadlockCycle_def)
  then show eq: "map lo_secondLockId c = tl (map lo_firstLockId c) @ [?a]"
    using assms by (cases c) (auto simp: deadlockCycle_def)
  show "distinct (map lo_secondLockId c)"
    unfolding eq using assms by (cases c) (auto simp: deadlockCycle_def)
qed

text \<open>At an order of a cycle, either the cycle closes there or its next order continues it.\<close>

lemma deadlockCycle_split:
  assumes c: "deadlockCycle facts (path @ e # rest)"
  defines "a \<equiv> lo_firstLockId (hd (path @ e # rest))"
  shows "rest = [] \<longleftrightarrow> lo_secondLockId e = a"
    and "rest = e' # rest' \<Longrightarrow> lo_firstLockId e' = lo_secondLockId e"
    and "mayHappenInParallelWithEach e path facts"
    and "lo_secondLockId e \<notin> lo_secondLockId ` set path"
proof -
  have path: "lockPath a (path @ e # rest) a" and firsts: "distinct (map lo_firstLockId (path @ e # rest))"
    using c by (simp_all add: deadlockCycle_def a_def)
  then have tail: "lockPath (lo_secondLockId e) rest a" by (auto simp: lockPath_append)
  then show next_order: "rest = e' # rest' \<Longrightarrow> lo_firstLockId e' = lo_secondLockId e" for e' rest'
    by (auto simp: lockPath.simps)
  show "rest = [] \<longleftrightarrow> lo_secondLockId e = a"
  proof
    assume "lo_secondLockId e = a"
    show "rest = []"
    proof (cases rest)
      case (Cons e' rest')
      then have "lo_firstLockId e' = a" using next_order \<open>lo_secondLockId e = a\<close> by simp
      with firsts Cons show ?thesis unfolding a_def by (cases path) auto
    qed
  qed (use tail in simp)
  show "mayHappenInParallelWithEach e path facts"
    using c by (auto simp: deadlockCycle_def sorted_wrt_append mayHappenInParallelWithEach_def)
  show "lo_secondLockId e \<notin> lo_secondLockId ` set path"
    using deadlockCycle_seconds(1) [OF c] by auto
qed

section \<open>The numbered graph\<close>

lemma numberFrom_distinct: "distinct numbers \<Longrightarrow> distinct (numberFrom edges pending numbers)"
  by (induction edges pending numbers rule: numberFrom.induct) auto

lemma numberFrom_visits: "set pending \<union> set numbers \<subseteq> set (numberFrom edges pending numbers)"
  by (induction edges pending numbers rule: numberFrom.induct) auto

lemma numberFrom_closed:
  assumes "\<And>l e. l \<in> set numbers \<Longrightarrow> e \<in> set (edgesFrom edges l) \<Longrightarrow>
      lo_secondLockId e \<in> set numbers \<union> set pending"
    and "l \<in> set (numberFrom edges pending numbers)" "e \<in> set (edgesFrom edges l)"
  shows "lo_secondLockId e \<in> set (numberFrom edges pending numbers)"
  using assms
proof (induction edges pending numbers rule: numberFrom.induct)
  case (1 edges numbers)
  then show ?case by auto
next
  case (2 edges lockId pending numbers)
  show ?case
  proof (cases "lockId \<in> set numbers")
    case True
    then have "\<And>l e. l \<in> set numbers \<Longrightarrow> e \<in> set (edgesFrom edges l) \<Longrightarrow>
        lo_secondLockId e \<in> set numbers \<union> set pending"
      using 2(3) by fastforce
    with 2(1) [OF True] 2(4,5) True show ?thesis by simp
  next
    case False
    let ?ps = "map lo_secondLockId (edgesFrom edges lockId) @ pending"
    have "\<And>l e. l \<in> set (numbers @ [lockId]) \<Longrightarrow> e \<in> set (edgesFrom edges l) \<Longrightarrow>
        lo_secondLockId e \<in> set (numbers @ [lockId]) \<union> set ?ps"
      using 2(3) by fastforce
    with 2(2) [OF False] 2(4,5) False show ?thesis by simp
  qed
qed

lemma index_of_nth: "x \<in> set xs \<Longrightarrow> index_of x xs < length xs \<and> xs ! index_of x xs = x"
  by (induction xs) auto

lemma map_of_set_umap: "umap_inv m \<Longrightarrow> (k, v) \<in> set m \<longleftrightarrow> map_of m k = Some v"
  by (simp add: umap_inv_def)

lemma edgesFrom_group:
  "edgesFrom (edgesByFirstLock facts) l =
     filter (\<lambda>e. lo_firstLockId e = l)
       (filter (\<lambda>f. \<not> (lo_firstLockId f = lo_secondLockId f \<or> \<not> participatesInConcurrency f facts))
         (tu_lockOrders facts))"
  unfolding edgesFrom_def edgesByFirstLock_def umap_group
  by (simp add: Let_def)

lemma set_edgesFrom:
  "set (edgesFrom (edgesByFirstLock facts) l) = {e \<in> concurrentOrders facts. lo_firstLockId e = l}"
  by (auto simp: edgesFrom_group concurrentOrders_def)

lemma set_ordersOut: "set (ordersOut m) = {(k, x). \<exists>xs. (k, xs) \<in> set m \<and> x \<in> set xs}"
  by (auto simp: ordersOut_def)

lemma ordersOut_successorsOf:
  "set (ordersOut (successorsOf numbers es)) = {(index_of (lo_secondLockId e) numbers, e) |e. e \<in> set es}"
proof -
  let ?m = "successorsOf numbers es"
  let ?key = "\<lambda>e. index_of (lo_secondLockId e) numbers"
  have inv: "umap_inv ?m"
    unfolding successorsOf_def by (rule um.inv_fold [OF um.inv_empty])
  have lookup: "map_of ?m k = (let g = filter (\<lambda>e. ?key e = k) es in if g = [] then None else Some g)" for k
    unfolding successorsOf_def by (rule umap_group)
  have "(k, xs) \<in> set ?m \<longleftrightarrow> xs = filter (\<lambda>e. ?key e = k) es \<and> xs \<noteq> []" for k xs
    unfolding map_of_set_umap [OF inv] lookup by (auto simp: Let_def)
  then have "(k, e) \<in> set (ordersOut ?m) \<longleftrightarrow> e \<in> set es \<and> k = ?key e" for k e
    by (auto simp: set_ordersOut filter_empty_conv)
  then show ?thesis by auto
qed

text \<open>
  The contract of the numbered graph: the orders out of the lock numbered \<open>v\<close> are the given orders
  whose first lock has that name, each with the number of its second lock.
\<close>

locale lock_graph =
  fixes graph :: LockGraph and name :: "nat \<Rightarrow> string" and orders :: "LockOrderFact set"
  assumes order_out: "v < length graph \<Longrightarrow> (w, e) \<in> set (ordersOut (graph ! v)) \<longleftrightarrow>
      w < length graph \<and> e \<in> orders \<and> lo_firstLockId e = name v \<and> lo_secondLockId e = name w"
    and numbered: "e \<in> orders \<Longrightarrow> \<exists>v w. v < length graph \<and> w < length graph \<and>
      lo_firstLockId e = name v \<and> lo_secondLockId e = name w"
    and name_inject: "v < length graph \<Longrightarrow> w < length graph \<Longrightarrow> name v = name w \<longleftrightarrow> v = w"

lemma numberLocks_facts:
  fixes facts
  defines "N \<equiv> numberLocks (edgesByFirstLock facts)"
  shows "distinct N"
    and "e \<in> concurrentOrders facts \<Longrightarrow> lo_firstLockId e \<in> set N \<and> lo_secondLockId e \<in> set N"
proof -
  let ?E = "edgesByFirstLock facts"
  show "distinct N" by (simp add: N_def numberLocks_def numberFrom_distinct)
  assume e: "e \<in> concurrentOrders facts"
  then have out: "e \<in> set (edgesFrom ?E (lo_firstLockId e))" by (simp add: set_edgesFrom)
  then have "lo_firstLockId e \<in> fst ` set ?E" using edgesFrom_member by blast
  then have "lo_firstLockId e \<in> set N"
    using numberFrom_visits [of "sort (map fst ?E)" "[]" ?E] by (auto simp: N_def numberLocks_def)
  moreover have "lo_secondLockId e \<in> set N"
    unfolding N_def numberLocks_def
    by (rule numberFrom_closed [OF _ _ out])
      (use calculation in \<open>simp_all add: N_def numberLocks_def\<close>)
  ultimately show "lo_firstLockId e \<in> set N \<and> lo_secondLockId e \<in> set N" ..
qed

interpretation lg: lock_graph "buildLockGraph (edgesByFirstLock facts)"
  "\<lambda>v. numberLocks (edgesByFirstLock facts) ! v" "concurrentOrders facts" for facts
proof unfold_locales
  let ?N = "numberLocks (edgesByFirstLock facts)"
  let ?G = "buildLockGraph (edgesByFirstLock facts)"
  have len: "length ?G = length ?N" by (simp add: buildLockGraph_def Let_def)
  have number: "index_of x ?N = w \<longleftrightarrow> w < length ?N \<and> x = ?N ! w" if "x \<in> set ?N" for x w
    using index_of_nth [OF that] numberLocks_facts(1) [of facts] by (metis nth_eq_iff_index_eq)
  show "(w, e) \<in> set (ordersOut (?G ! v)) \<longleftrightarrow> w < length ?G \<and> e \<in> concurrentOrders facts \<and>
      lo_firstLockId e = ?N ! v \<and> lo_secondLockId e = ?N ! w" if "v < length ?G" for v w e
  proof -
    have "?G ! v = successorsOf ?N (edgesFrom (edgesByFirstLock facts) (?N ! v))"
      using that by (simp add: buildLockGraph_def Let_def)
    then show ?thesis
      using number [of "lo_secondLockId e" w] numberLocks_facts(2) [of e facts]
      by (auto simp: ordersOut_successorsOf set_edgesFrom len)
  qed
  show "\<exists>v w. v < length ?G \<and> w < length ?G \<and> lo_firstLockId e = ?N ! v \<and> lo_secondLockId e = ?N ! w"
    if "e \<in> concurrentOrders facts" for e
    using numberLocks_facts(2) [OF that] by (metis in_set_conv_nth len)
  show "?N ! v = ?N ! w \<longleftrightarrow> v = w" if "v < length ?G" "w < length ?G" for v w
    using that numberLocks_facts(1) [of facts] by (simp add: len nth_eq_iff_index_eq)
qed

section \<open>The locks that lead back to the start\<close>

lemma markPredecessors_facts:
  fixes start ps leads pending
  defines "r \<equiv> fold (markPredecessor start) ps (leads, pending)"
  shows "length (fst r) = length leads"
    and "leadsTo leads v \<Longrightarrow> leadsTo (fst r) v"
    and "v \<in> set pending \<Longrightarrow> v \<in> set (snd r)"
    and "leadsTo (fst r) v \<Longrightarrow> \<not> leadsTo leads v \<Longrightarrow> v \<in> set (snd r)"
    and "p \<in> set ps \<Longrightarrow> p > start \<Longrightarrow> p < length leads \<Longrightarrow> leadsTo (fst r) p"
proof -
  let ?r = "\<lambda>ps l q. fold (markPredecessor start) ps (l, q)"
  have "length (fst (?r ps leads pending)) = length leads \<and>
      (\<forall>v. leadsTo leads v \<longrightarrow> leadsTo (fst (?r ps leads pending)) v) \<and>
      set pending \<subseteq> set (snd (?r ps leads pending)) \<and>
      (\<forall>v. leadsTo (fst (?r ps leads pending)) v \<longrightarrow> leadsTo leads v \<or> v \<in> set (snd (?r ps leads pending))) \<and>
      (\<forall>p \<in> set ps. p > start \<longrightarrow> p < length leads \<longrightarrow> leadsTo (fst (?r ps leads pending)) p)"
  proof (induction ps arbitrary: leads pending)
    case Nil
    then show ?case by simp
  next
    case (Cons p ps)
    show ?case
    proof (cases "p > start \<and> p < length leads \<and> \<not> leads ! p")
      case True
      then have step: "?r (p # ps) leads pending = ?r ps (leads[p := True]) (p # pending)"
        by (simp add: markPredecessor_def)
      have upd: "leadsTo (leads[p := True]) v \<longleftrightarrow> leadsTo leads v \<or> v = p" for v
        using True by (auto simp: leadsTo_def nth_list_update)
      show ?thesis
        unfolding step using Cons.IH [of "leads[p := True]" "p # pending"] by (auto simp: upd)
    next
      case False
      then have "markPredecessor start p (leads, pending) = (leads, pending)"
        by (auto simp: markPredecessor_def)
      then have "?r (p # ps) leads pending = ?r ps leads pending" by simp
      with False Cons.IH [of leads pending] show ?thesis by (auto simp: leadsTo_def)
    qed
  qed
  then show "length (fst r) = length leads"
    and "leadsTo leads v \<Longrightarrow> leadsTo (fst r) v"
    and "v \<in> set pending \<Longrightarrow> v \<in> set (snd r)"
    and "leadsTo (fst r) v \<Longrightarrow> \<not> leadsTo leads v \<Longrightarrow> v \<in> set (snd r)"
    and "p \<in> set ps \<Longrightarrow> p > start \<Longrightarrow> p < length leads \<Longrightarrow> leadsTo (fst r) p"
    by (auto simp: r_def)
qed

text \<open>
  The worklist marks every predecessor of a marked lock: nothing that leads back to \<open>start\<close>
  through locks numbered after it stays unmarked.
\<close>

lemma markLeads_closed:
  assumes "\<And>r p. r = start \<or> leadsTo leads r \<Longrightarrow> r \<notin> set pending \<Longrightarrow> p \<in> set (preds ! r) \<Longrightarrow>
      start < p \<Longrightarrow> p < length leads \<Longrightarrow> leadsTo leads p"
    and "r = start \<or> leadsTo (markLeads preds start pending leads) r" "p \<in> set (preds ! r)"
    and "start < p" "p < length leads"
  shows "leadsTo (markLeads preds start pending leads) p"
  using assms
proof (induction preds start pending leads rule: markLeads.induct)
  case (1 preds start leads)
  then show ?case by auto
next
  case (2 preds start reached pending leads)
  define m where "m = fold (markPredecessor start) (preds ! reached) (leads, pending)"
  note m = markPredecessors_facts [where start = start and ps = "preds ! reached" and leads = leads and
      pending = pending, folded m_def]
  have step: "markLeads preds start (reached # pending) leads = markLeads preds start (snd m) (fst m)"
    by (simp add: m_def split: prod.splits)
  have inv: "leadsTo (fst m) p"
    if "r = start \<or> leadsTo (fst m) r" "r \<notin> set (snd m)" "p \<in> set (preds ! r)" "start < p"
      "p < length (fst m)" for r p
  proof (cases "r = reached")
    case True
    with that m(1) show ?thesis by (simp add: m(5))
  next
    case False
    moreover have "r = start \<or> leadsTo leads r" using that m(4) by blast
    moreover have "r \<notin> set pending" using that m(3) by blast
    ultimately show ?thesis using 2(2) [of r p] that m(1,2) by auto
  qed
  show ?case unfolding step
    by (rule 2(1) [OF m_def prod.collapse])
      (use inv 2(3,4,5,6) m(1) step in simp_all)
qed

lemma predecessorsOf_member:
  assumes "v < length graph" "(w, es) \<in> set (graph ! v)" "w < length graph"
  shows "v \<in> set (predecessorsOf graph ! w)"
proof -
  let ?add = "\<lambda>lock successor predecessors. predecessors[fst successor := predecessors ! fst successor @ [lock]]"
  have inner: "length (fold (?add l) ss P) = length P \<and>
      (\<forall>w. w < length P \<longrightarrow> set (P ! w) \<subseteq> set (fold (?add l) ss P ! w)) \<and>
      (\<forall>w. w < length P \<longrightarrow> w \<in> fst ` set ss \<longrightarrow> l \<in> set (fold (?add l) ss P ! w))"
    for l and ss :: "LockSuccessor list" and P :: "nat list list"
  proof (induction ss arbitrary: P)
    case Nil
    then show ?case by simp
  next
    case (Cons s ss)
    have grow: "w < length P \<Longrightarrow> set (P ! w) \<subseteq> set (?add l s P ! w)" for w
      by (cases "fst s = w") auto
    have here: "fst s < length P \<Longrightarrow> l \<in> set (?add l s P ! fst s)" by simp
    show ?case using Cons.IH [of "?add l s P"] grow here by auto
  qed
  have "length (fold (\<lambda>l. fold (?add l) (graph ! l)) ls P) = length P \<and>
      (\<forall>w. w < length P \<longrightarrow> set (P ! w) \<subseteq> set (fold (\<lambda>l. fold (?add l) (graph ! l)) ls P ! w)) \<and>
      (\<forall>w v. w < length P \<longrightarrow> v \<in> set ls \<longrightarrow> w \<in> fst ` set (graph ! v) \<longrightarrow>
         v \<in> set (fold (\<lambda>l. fold (?add l) (graph ! l)) ls P ! w))"
    for ls and P :: "nat list list"
  proof (induction ls arbitrary: P)
    case Nil
    then show ?case by simp
  next
    case (Cons l ls)
    define Q where "Q = fold (?add l) (graph ! l) P"
    have Q: "length Q = length P" "w < length P \<Longrightarrow> set (P ! w) \<subseteq> set (Q ! w)"
      "w < length P \<Longrightarrow> w \<in> fst ` set (graph ! l) \<Longrightarrow> l \<in> set (Q ! w)" for w
      using inner [of l "graph ! l" P] unfolding Q_def by blast+
    have step: "fold (\<lambda>l. fold (?add l) (graph ! l)) (l # ls) P = fold (\<lambda>l. fold (?add l) (graph ! l)) ls Q"
      by (simp add: Q_def)
    show ?case
      unfolding step using Cons.IH [of Q] Q
      by (simp only: list.set insert_iff) (meson subsetD subset_trans)
  qed
  from this [of "[0 ..< length graph]" "replicate (length graph) []"] assms show ?thesis
    by (force simp: predecessorsOf_def)
qed

section \<open>The search\<close>

text \<open>
  What the walk keeps of its state: the report holds what it held before and the diagnostics of the
  cycles emitted so far, one for each emitted key, and the cycles set aside are address-ordered.
\<close>

definition searchInv :: "TUFacts \<Rightarrow> DiagnosticReport \<Rightarrow> LockOrderFact list list \<Rightarrow> WalkState \<Rightarrow> bool" where
  "searchInv facts base cs st \<longleftrightarrow>
     ws_report st = base\<lparr>rp_diagnostics := rp_diagnostics base @ map (cycleDiagnostic facts) cs\<rparr> \<and>
     (\<forall>c \<in> set cs. deadlockCycle facts c) \<and>
     distinct (map cycleKey cs) \<and> ws_emittedCycleKeys st = cycleKey ` set cs \<and>
     (\<forall>c \<in> set (ws_addressOrderedCycles st). deadlockCycle facts c \<and> isAddressOrdered c)"

lemma emitOnce_inv:
  assumes "searchInv facts base cs st" "deadlockCycle facts c"
  shows "\<exists>ds. searchInv facts base (cs @ ds) (emitOnce facts c st) \<and> set ds \<subseteq> {c} \<and>
    cycleKey c \<in> ws_emittedCycleKeys (emitOnce facts c st)"
proof (cases "cycleKey c \<in> ws_emittedCycleKeys st")
  case True
  with assms(1) show ?thesis by (intro exI [of _ "[]"]) (simp add: emitOnce_def)
next
  case False
  with assms have "searchInv facts base (cs @ [c]) (emitOnce facts c st)"
    by (auto simp: searchInv_def emitOnce_def emit_def)
  with False show ?thesis by (intro exI [of _ "[c]"]) (simp add: emitOnce_def)
qed

definition precise :: "LockOrderFact list \<Rightarrow> bool" where
  "precise c \<longleftrightarrow> \<not> isAddressOrdered c"

text \<open>
  One step of progress: more cycles emitted, each a deadlocking one that is not address-ordered,
  and no emitted key lost.
\<close>

definition extends :: "TUFacts \<Rightarrow> WalkState \<Rightarrow> WalkState \<Rightarrow> bool" where
  "extends facts st st' \<longleftrightarrow>
     (\<forall>base cs. searchInv facts base cs st \<longrightarrow>
       (\<exists>ds. searchInv facts base (cs @ ds) st' \<and> (\<forall>c \<in> set ds. precise c)))"

lemma extends_refl: "extends facts st st"
  unfolding extends_def by (metis append_Nil2 empty_iff list.set(1))

lemma extends_trans: "extends facts a b \<Longrightarrow> extends facts b c \<Longrightarrow> extends facts a c"
proof -
  assume ab: "extends facts a b" and bc: "extends facts b c"
  have "\<exists>ds. searchInv facts base (cs @ ds) c \<and> (\<forall>c \<in> set ds. precise c)"
    if inv: "searchInv facts base cs a" for base cs
  proof -
    obtain ds where ds: "searchInv facts base (cs @ ds) b" "\<forall>c \<in> set ds. precise c"
      using ab inv unfolding extends_def by blast
    obtain es where "searchInv facts base ((cs @ ds) @ es) c" "\<forall>c \<in> set es. precise c"
      using bc ds(1) unfolding extends_def by blast
    with ds(2) show ?thesis by (intro exI [of _ "ds @ es"]) auto
  qed
  then show ?thesis by (simp add: extends_def)
qed

lemma extends_examined: "extends facts (st\<lparr>ws_examined := n\<rparr>) st' \<longleftrightarrow> extends facts st st'"
  by (simp add: extends_def searchInv_def)

lemma closeCycle_extends:
  assumes "deadlockCycle facts c \<or> hasCommonGateLock c"
  shows "extends facts st (closeCycle facts c st)"
proof -
  have "\<exists>ds. searchInv facts base (cs @ ds) (closeCycle facts c st) \<and> (\<forall>d \<in> set ds. precise d)"
    if inv: "searchInv facts base cs st" for base cs
  proof (cases "hasCommonGateLock c \<or> isAddressOrdered c")
    case True
    with inv assms have "searchInv facts base (cs @ []) (closeCycle facts c st)"
      by (auto simp: closeCycle_def searchInv_def)
    then show ?thesis by (metis empty_iff list.set(1))
  next
    case False
    with inv assms emitOnce_inv [OF inv] show ?thesis
      by (fastforce simp: closeCycle_def precise_def)
  qed
  then show ?thesis by (auto simp: extends_def)
qed

text \<open>
  The walk, rule by rule: what holds of the two ends of each branch of the loop, given what holds
  of the walks it goes on with, holds of every walk.
\<close>

definition tick :: "WalkState \<Rightarrow> WalkState" where
  "tick st = st\<lparr>ws_examined := Suc (ws_examined st)\<rparr>"

lemma walk_rules [case_names empty skip over unordered close descend stop]:
  assumes "\<And>onPath path st. P [] onPath path st (True, st)"
    and "\<And>lock order items onPath path st r. lock \<noteq> start \<Longrightarrow> \<not> leadsTo leads lock \<or> lock \<in> onPath \<Longrightarrow>
      P items onPath path st r \<Longrightarrow> P ((lock, order) # items) onPath path st r"
    and "\<And>lock order items onPath path st. ws_examined (tick st) > bound \<Longrightarrow>
      P ((lock, order) # items) onPath path st (False, tick st)"
    and "\<And>lock order items onPath path st r. \<not> mayHappenInParallelWithEach order path facts \<Longrightarrow>
      P items onPath path (tick st) r \<Longrightarrow> P ((lock, order) # items) onPath path st r"
    and "\<And>order items onPath path st r. mayHappenInParallelWithEach order path facts \<Longrightarrow>
      P items onPath path (closeCycle facts (path @ [order]) (tick st)) r \<Longrightarrow>
      P ((start, order) # items) onPath path st r"
    and "\<And>lock order items onPath path st st' r. lock \<noteq> start \<Longrightarrow> lock \<notin> onPath \<Longrightarrow>
      mayHappenInParallelWithEach order path facts \<Longrightarrow>
      P (ordersOut (graph ! lock)) (insert lock onPath) (path @ [order]) (tick st) (True, st') \<Longrightarrow>
      P items onPath path st' r \<Longrightarrow> P ((lock, order) # items) onPath path st r"
    and "\<And>lock order items onPath path st st'. lock \<noteq> start \<Longrightarrow> lock \<notin> onPath \<Longrightarrow>
      mayHappenInParallelWithEach order path facts \<Longrightarrow>
      P (ordersOut (graph ! lock)) (insert lock onPath) (path @ [order]) (tick st) (False, st') \<Longrightarrow>
      P ((lock, order) # items) onPath path st (False, st')"
  shows "P items onPath path st (walk graph facts bound start leads items onPath path st)"
proof (induction g \<equiv> graph f \<equiv> facts b \<equiv> bound s \<equiv> start l \<equiv> leads items onPath path st
    rule: walk.induct)
  case (1 onPath path st)
  then show ?case by (simp add: walk.simps assms(1))
next
  case (2 lock order items onPath path st)
  let ?w = "walk graph facts bound start leads"
  let ?inner = "?w (ordersOut (graph ! lock)) (insert lock onPath) (path @ [order]) (tick st)"
  note simps = walk.simps(2) tick_def [symmetric] Let_def
  show ?case
  proof (cases "lock \<noteq> start \<and> (\<not> leadsTo leads lock \<or> lock \<in> onPath)")
    case True
    then show ?thesis
      using 2(1) [OF refl] assms(2) [of lock onPath items path st "?w items onPath path st" order] by (simp add: simps)
  next
    case follow: False
    show ?thesis
    proof (cases "ws_examined (tick st) > bound \<or> \<not> mayHappenInParallelWithEach order path facts")
      case True
      then show ?thesis
        using follow 2(2) [OF refl follow refl, folded tick_def] assms(3) [of st lock order items onPath path]
          assms(4) [of order path items onPath st "?w items onPath path (tick st)" lock]
        by (auto simp: simps)
    next
      case taken: False
      note IH = 2(3,4,5) [OF refl follow refl, folded tick_def]
      show ?thesis
      proof (cases "lock = start")
        case True
        then show ?thesis
          using taken IH(1) assms(5) [of order path items onPath st "?w items onPath path (closeCycle facts (path @ [order]) (tick st))"]
          by (simp add: simps)
      next
        case False
        obtain ok st' where inner: "?inner = (ok, st')" by fastforce
        show ?thesis
          using taken follow False inner IH(2) IH(3) [OF _ _ _ inner [symmetric]]
            assms(6) [of lock onPath order path st st' items "?w items onPath path st'"]
            assms(7) [of lock onPath order path st st' items]
          by (cases ok) (simp_all add: simps)
      qed
    qed
  qed
qed

context lock_graph
begin

text \<open>The path from \<open>start\<close> to the lock numbered \<open>v\<close>, and what the walk knows of it.\<close>

definition walkPath :: "TUFacts \<Rightarrow> nat \<Rightarrow> nat \<Rightarrow> nat set \<Rightarrow> LockOrderFact list \<Rightarrow> bool" where
  "walkPath facts start v onPath path \<longleftrightarrow>
     start < length graph \<and> v < length graph \<and> onPath \<subseteq> {..<length graph} \<and>
     set path \<subseteq> orders \<and> lockPath (name start) path (name v) \<and>
     distinct (name start # map lo_secondLockId path) \<and>
     lo_secondLockId ` set path = name ` onPath \<and> sorted_wrt (parallelOrders facts) path"

lemma walkPath_extend:
  assumes "walkPath facts start v onPath path" "(w, e) \<in> set (ordersOut (graph ! v))"
    and "w \<noteq> start" "w \<notin> onPath" "mayHappenInParallelWithEach e path facts"
  shows "walkPath facts start w (insert w onPath) (path @ [e])"
proof -
  have e: "w < length graph" "e \<in> orders" "lo_firstLockId e = name v" "lo_secondLockId e = name w"
    using assms(1,2) order_out by (auto simp: walkPath_def)
  moreover have "name w \<notin> name ` onPath"
    using assms(1,4) e(1) name_inject by (auto simp: walkPath_def)
  moreover have "name w \<noteq> name start"
    using assms(1,3) e(1) name_inject by (auto simp: walkPath_def)
  ultimately show ?thesis
    using assms(1,5) by (auto simp: walkPath_def lockPath_append sorted_wrt_append
        mayHappenInParallelWithEach_def)
qed

lemma walkPath_close:
  assumes "walkPath facts start v onPath path" "(start, e) \<in> set (ordersOut (graph ! v))"
    and "mayHappenInParallelWithEach e path facts" "orders \<subseteq> concurrentOrders facts"
  shows "deadlockCycle facts (path @ [e]) \<or> hasCommonGateLock (path @ [e])"
proof -
  have e: "e \<in> orders" "lo_firstLockId e = name v" "lo_secondLockId e = name start"
    using assms(1,2) order_out by (auto simp: walkPath_def)
  then have closed: "lockPath (name start) (path @ [e]) (name start)"
    using assms(1) by (auto simp: walkPath_def lockPath_append)
  have "map lo_firstLockId (path @ [e]) = name start # map lo_secondLockId path"
    using lockPath_names [of "name start" path "name v"] assms(1) e(2) by (simp add: walkPath_def)
  moreover have "lo_firstLockId (hd (path @ [e])) = name start"
    using lockPath_start [OF closed] by simp
  ultimately show ?thesis
    using assms e closed by (auto simp: deadlockCycle_def walkPath_def sorted_wrt_append
        mayHappenInParallelWithEach_def)
qed

lemma walk_extends:
  assumes "walkPath facts start v onPath path" "set items \<subseteq> set (ordersOut (graph ! v))"
    and sub: "orders \<subseteq> concurrentOrders facts"
  shows "extends facts st (snd (walk graph facts bound start leads items onPath path st))"
proof -
  let ?P = "\<lambda>items onPath path st (r :: bool \<times> WalkState).
      \<forall>v. walkPath facts start v onPath path \<longrightarrow> set items \<subseteq> set (ordersOut (graph ! v)) \<longrightarrow> extends facts st (snd r)"
  have tick: "extends facts (tick st) st' \<longleftrightarrow> extends facts st st'" for st st'
    by (simp add: tick_def extends_examined)
  have "?P items onPath path st (walk graph facts bound start leads items onPath path st)"
  proof (induction rule: walk_rules [where P = ?P and graph = graph and facts = facts and bound = bound and
        start = start and leads = leads])
    case (over lock order items onPath path st)
    then show ?case using tick extends_refl by auto
  next
    case (close order items onPath path st r)
    show ?case
    proof (intro allI impI)
      fix v
      assume v: "walkPath facts start v onPath path" "set ((start, order) # items) \<subseteq> set (ordersOut (graph ! v))"
      then have "extends facts (tick st) (closeCycle facts (path @ [order]) (tick st))"
        using walkPath_close [OF v(1) _ close(1) sub] by (intro closeCycle_extends) auto
      moreover have "extends facts (closeCycle facts (path @ [order]) (tick st)) (snd r)"
        using close(2) v by auto
      ultimately show "extends facts st (snd r)" using tick extends_trans by blast
    qed
  next
    case (descend lock order items onPath path st st' r)
    show ?case
    proof (intro allI impI)
      fix v
      assume v: "walkPath facts start v onPath path" "set ((lock, order) # items) \<subseteq> set (ordersOut (graph ! v))"
      then have "walkPath facts start lock (insert lock onPath) (path @ [order])"
        using descend(1-3) by (intro walkPath_extend) auto
      then have "extends facts (tick st) st'" using descend(4) by auto
      moreover have "extends facts st' (snd r)" using descend(5) v by auto
      ultimately show "extends facts st (snd r)" using tick extends_trans by blast
    qed
  next
    case (stop lock order items onPath path st st')
    show ?case
    proof (intro allI impI)
      fix v
      assume v: "walkPath facts start v onPath path" "set ((lock, order) # items) \<subseteq> set (ordersOut (graph ! v))"
      then have "walkPath facts start lock (insert lock onPath) (path @ [order])"
        using stop(1-3) by (intro walkPath_extend) auto
      then show "extends facts st (snd (False, st'))" using stop(4) tick by auto
    qed
  qed (auto simp: extends_refl tick)
  with assms show ?thesis by blast
qed

text \<open>
  Completeness of one walk: it closes every deadlocking cycle that goes on along the current path
  through one of the orders left to try, when the locks of the cycle lead back to the start.
\<close>

lemma walk_complete:
  assumes "fst (walk graph facts bound start leads items onPath path st)"
    and "walkPath facts start v onPath path" "set items \<subseteq> set (ordersOut (graph ! v))"
    and sub: "concurrentOrders facts \<subseteq> orders"
    and "(w, e) \<in> set items" "deadlockCycle facts (path @ e # rest)" "precise (path @ e # rest)"
    and "lo_firstLockId (hd (path @ e # rest)) = name start"
    and "\<And>u. u < length graph \<Longrightarrow> name u \<in> lo_secondLockId ` set (path @ e # rest) \<Longrightarrow>
      u = start \<or> leadsTo leads u"
  shows "cycleKey (path @ e # rest) \<in>
    ws_emittedCycleKeys (snd (walk graph facts bound start leads items onPath path st))"
proof -
  define goal where "goal path e rest \<longleftrightarrow>
      deadlockCycle facts (path @ e # rest) \<and> precise (path @ e # rest) \<and>
      lo_firstLockId (hd (path @ e # rest)) = name start \<and>
      (\<forall>u. u < length graph \<longrightarrow> name u \<in> lo_secondLockId ` set (path @ e # rest) \<longrightarrow>
        u = start \<or> leadsTo leads u)" for path e rest
  let ?P = "\<lambda>items onPath path st (r :: bool \<times> WalkState). fst r \<longrightarrow>
      ws_emittedCycleKeys st \<subseteq> ws_emittedCycleKeys (snd r) \<and>
      (\<forall>v w e rest. walkPath facts start v onPath path \<longrightarrow> set items \<subseteq> set (ordersOut (graph ! v)) \<longrightarrow>
        (w, e) \<in> set items \<longrightarrow> goal path e rest \<longrightarrow> cycleKey (path @ e # rest) \<in> ws_emittedCycleKeys (snd r))"
  have second: "w < length graph" "lo_secondLockId e = name w" "w = start \<longleftrightarrow> lo_secondLockId e = name start"
    if "walkPath facts start v onPath path" "(w, e) \<in> set (ordersOut (graph ! v))" for v w e onPath path
    using that order_out name_inject by (auto simp: walkPath_def)
  have not_skipped: "w = start \<or> leadsTo leads w \<and> w \<notin> onPath"
    if "walkPath facts start v onPath path" "(w, e) \<in> set (ordersOut (graph ! v))" "goal path e rest" for v w e onPath path rest
    using second [OF that(1,2)] that(1,3) deadlockCycle_split(4) [of facts path e rest]
    by (auto simp: goal_def walkPath_def)
  have closes: "rest = []"
    if "walkPath facts start v onPath path" "(start, e) \<in> set (ordersOut (graph ! v))" "goal path e rest" for v e onPath path rest
    using second [OF that(1,2)] that(3) deadlockCycle_split(1) [of facts path e rest] by (auto simp: goal_def)
  have continues: "\<exists>e' w' rest'. rest = e' # rest' \<and> (w', e') \<in> set (ordersOut (graph ! w)) \<and> goal (path @ [e]) e' rest'"
    if "walkPath facts start v onPath path" "(w, e) \<in> set (ordersOut (graph ! v))" "goal path e rest" "w \<noteq> start"
    for v w e onPath path rest
  proof -
    note w = second [OF that(1,2)]
    have c: "deadlockCycle facts (path @ e # rest)" using that(3) by (simp add: goal_def)
    have "rest \<noteq> []" using w(3) that(3,4) deadlockCycle_split(1) [OF c] by (simp add: goal_def)
    then obtain e' rest' where rest: "rest = e' # rest'" by (cases rest) auto
    then have "e' \<in> orders" using c sub by (auto simp: deadlockCycle_def)
    then obtain w' where "w' < length graph" "lo_secondLockId e' = name w'" using numbered by blast
    then have "(w', e') \<in> set (ordersOut (graph ! w))"
      using order_out [OF w(1)] \<open>e' \<in> orders\<close> deadlockCycle_split(2) [OF c rest] w(2) by simp
    with rest that(3) show ?thesis by (auto simp: goal_def)
  qed
  have "?P items onPath path st (walk graph facts bound start leads items onPath path st)"
  proof (induction rule: walk_rules [where P = ?P and graph = graph and facts = facts and bound = bound and
        start = start and leads = leads])
    case (skip lock order items onPath path st r)
    have "\<not> (walkPath facts start v onPath path \<and> (lock, order) \<in> set (ordersOut (graph ! v)) \<and> goal path order rest)"
      for v rest
      using skip(1,2) not_skipped by blast
    with skip show ?case by auto
  next
    case (unordered lock order items onPath path st r)
    have "\<not> goal path order rest" for rest
      using unordered(1) deadlockCycle_split(3) by (auto simp: goal_def)
    with unordered show ?case by (auto simp: tick_def)
  next
    case (close order items onPath path st r)
    have "cycleKey (path @ order # rest) \<in> ws_emittedCycleKeys (closeCycle facts (path @ [order]) (tick st))"
      if "walkPath facts start v onPath path" "(start, order) \<in> set (ordersOut (graph ! v))" "goal path order rest" for v rest
      using closes [OF that] that(3)
      by (auto simp: goal_def closeCycle_def emitOnce_def precise_def deadlockCycle_def)
    moreover have "ws_emittedCycleKeys st \<subseteq> ws_emittedCycleKeys (closeCycle facts (path @ [order]) (tick st))"
      by (auto simp: closeCycle_def emitOnce_def tick_def)
    ultimately show ?case using close by (auto 0 4)
  next
    case (descend lock order items onPath path st st' r)
    have "cycleKey (path @ order # rest) \<in> ws_emittedCycleKeys st'"
      if v: "walkPath facts start v onPath path" "(lock, order) \<in> set (ordersOut (graph ! v))" "goal path order rest" for v rest
    proof -
      obtain e' w' rest' where "rest = e' # rest'" "(w', e') \<in> set (ordersOut (graph ! lock))"
        "goal (path @ [order]) e' rest'"
        using continues [OF v descend(1)] by blast
      moreover have "walkPath facts start lock (insert lock onPath) (path @ [order])"
        using v descend(1,2) descend.hyps by (intro walkPath_extend) auto
      ultimately show ?thesis using descend(3) by fastforce
    qed
    with descend(3,4) show ?case by (auto simp: tick_def)
  qed auto
  with assms show ?thesis unfolding goal_def by blast
qed

text \<open>Every lock of a cycle whose lowest-numbered lock is \<open>start\<close> is marked as leading back to it.\<close>

definition leadsOf :: "nat \<Rightarrow> bool list" where
  "leadsOf start = markLeads (predecessorsOf graph) start [start] (replicate (length graph) False)"

lemma leadsOf_step:
  assumes "w = start \<or> leadsTo (leadsOf start) w" "u < length graph" "start < u" "(w, e) \<in> set (ordersOut (graph ! u))"
  shows "leadsTo (leadsOf start) u"
proof -
  obtain es where "(w, es) \<in> set (graph ! u)" using assms(4) by (auto simp: set_ordersOut)
  moreover have "w < length graph" using assms(2,4) order_out by simp
  ultimately have "u \<in> set (predecessorsOf graph ! w)" using assms(2) by (simp add: predecessorsOf_member)
  then show ?thesis
    unfolding leadsOf_def
    by (rule markLeads_closed [rotated 2]) (use assms(1-3) in \<open>auto simp: leadsOf_def leadsTo_def\<close>)
qed

lemma path_leads:
  assumes "lockPath a q (name start)" "set q \<subseteq> orders" "start < length graph"
    and "\<And>u. u < length graph \<Longrightarrow> name u \<in> lo_firstLockId ` set q \<Longrightarrow> start \<le> u"
    and "u < length graph" "name u \<in> lo_firstLockId ` set q"
  shows "u = start \<or> leadsTo (leadsOf start) u"
  using assms
proof (induction q arbitrary: a u)
  case Nil
  then show ?case by simp
next
  case (Cons e q)
  have IH: "u = start \<or> leadsTo (leadsOf start) u" if "u < length graph" "name u \<in> lo_firstLockId ` set q" for u
    by (rule Cons.IH [of "lo_secondLockId e"]) (use Cons.prems that in auto)
  show ?case
  proof (cases "name u \<in> lo_firstLockId ` set q")
    case True
    then show ?thesis using IH Cons.prems(5) by blast
  next
    case False
    then have u: "lo_firstLockId e = name u" using Cons.prems(6) by auto
    obtain w where w: "w < length graph" "lo_secondLockId e = name w"
      using Cons.prems(2) numbered by fastforce
    have "w = start \<or> leadsTo (leadsOf start) w"
    proof (cases q)
      case Nil
      then show ?thesis using Cons.prems(1,3) w name_inject by auto
    next
      case (Cons e' q')
      then show ?thesis using IH [OF w(1)] w(2) \<open>lockPath a (e # q) (name start)\<close> by force
    qed
    moreover have "(w, e) \<in> set (ordersOut (graph ! u))"
      using order_out [OF Cons.prems(5)] w u Cons.prems(2) by simp
    moreover have "start \<le> u" using Cons.prems(4) [OF Cons.prems(5,6)] .
    ultimately show ?thesis using leadsOf_step Cons.prems(5) by (metis le_neq_implies_less)
  qed
qed

text \<open>The searches from several starts, in turn.\<close>

definition lowestLock :: "LockOrderFact list \<Rightarrow> nat \<Rightarrow> bool" where
  "lowestLock c start \<longleftrightarrow> start < length graph \<and> lo_firstLockId (hd c) = name start \<and>
     (\<forall>u < length graph. name u \<in> lo_firstLockId ` set c \<longrightarrow> start \<le> u)"

lemma searchFrom_result:
  fixes bound
  assumes inv: "searchInv facts base cs (snd cst)" and start: "start < length graph"
    and orders: "orders = concurrentOrders facts"
  defines "r \<equiv> searchFrom graph facts bound (predecessorsOf graph) start cst"
  shows "\<exists>ds. searchInv facts base (cs @ ds) (snd r) \<and> (\<forall>c \<in> set ds. precise c) \<and>
    (fst r \<longrightarrow> fst cst \<and>
      (\<forall>c. deadlockCycle facts c \<longrightarrow> precise c \<longrightarrow> lowestLock c start \<longrightarrow> cycleKey c \<in> cycleKey ` set (cs @ ds)))"
proof -
  let ?st = "(snd cst)\<lparr>ws_examined := 0\<rparr>"
  define w where "w = walk graph facts bound start (leadsOf start) (ordersOut (graph ! start)) {} [] ?st"
  have r: "fst r \<longleftrightarrow> fst cst \<and> fst w" "snd r = snd w"
    by (auto simp: r_def searchFrom_def w_def leadsOf_def Let_def split: prod.splits)
  have begin_path: "walkPath facts start start {} []" using start by (simp add: walkPath_def)
  then have "extends facts (snd cst) (snd w)"
    unfolding w_def using walk_extends orders by (metis extends_examined order_refl)
  then obtain ds where ds: "searchInv facts base (cs @ ds) (snd w)" "\<forall>c \<in> set ds. precise c"
    using inv unfolding extends_def by blast
  have "cycleKey c \<in> ws_emittedCycleKeys (snd w)"
    if "fst w" and c: "deadlockCycle facts c" "precise c" "lowestLock c start" for c
  proof -
    obtain e rest where eq: "c = e # rest" using c(1) by (cases c) (auto simp: deadlockCycle_def)
    have first: "lo_firstLockId (hd c) = name start" using c(3) by (simp add: lowestLock_def)
    have path: "lockPath (name start) c (name start)" and sub: "set c \<subseteq> orders"
      using c(1) first orders by (auto simp: deadlockCycle_def)
    obtain v where v: "v < length graph" "lo_secondLockId e = name v" using sub numbered eq by fastforce
    have out: "(v, e) \<in> set (ordersOut (graph ! start))"
      using order_out [OF start] v first eq sub by simp
    have seconds: "lo_secondLockId ` set c = lo_firstLockId ` set c"
      using arg_cong [OF deadlockCycle_seconds(2) [OF c(1)], of set] eq by auto
    have leads: "u = start \<or> leadsTo (leadsOf start) u"
      if "u < length graph" "name u \<in> lo_secondLockId ` set c" for u
      by (rule path_leads [OF path sub start]) (use c(3) that seconds in \<open>auto simp: lowestLock_def\<close>)
    show ?thesis
      using walk_complete [of facts bound start "leadsOf start" _ "{}" "[]" ?st start v e rest] begin_path
        \<open>fst w\<close> out c(1,2) first leads orders unfolding w_def eq by simp
  qed
  moreover have "ws_emittedCycleKeys (snd w) = cycleKey ` set (cs @ ds)"
    using ds(1) by (simp add: searchInv_def)
  ultimately show ?thesis using ds r by (intro exI [of _ ds]) auto
qed

lemma searches_result:
  assumes "searchInv facts base cs (snd cst)" "set starts \<subseteq> {..<length graph}"
    and "orders = concurrentOrders facts"
  shows "\<exists>ds. searchInv facts base (cs @ ds) (snd (fold (searchFrom graph facts bound (predecessorsOf graph)) starts cst)) \<and>
    (\<forall>c \<in> set ds. precise c) \<and>
    (fst (fold (searchFrom graph facts bound (predecessorsOf graph)) starts cst) \<longrightarrow> fst cst \<and>
      (\<forall>start \<in> set starts. \<forall>c. deadlockCycle facts c \<longrightarrow> precise c \<longrightarrow> lowestLock c start \<longrightarrow>
        cycleKey c \<in> cycleKey ` set (cs @ ds)))"
  using assms
proof (induction starts arbitrary: cs cst)
  case Nil
  then show ?case by (intro exI [of _ "[]"]) simp
next
  case (Cons start starts)
  let ?s = "searchFrom graph facts bound (predecessorsOf graph)"
  obtain ds where ds: "searchInv facts base (cs @ ds) (snd (?s start cst))" "\<forall>c \<in> set ds. precise c"
    "fst (?s start cst) \<longrightarrow> fst cst \<and>
      (\<forall>c. deadlockCycle facts c \<longrightarrow> precise c \<longrightarrow> lowestLock c start \<longrightarrow> cycleKey c \<in> cycleKey ` set (cs @ ds))"
    using searchFrom_result [OF Cons.prems(1) _ Cons.prems(3), of start bound] Cons.prems(2) by auto
  obtain es where es: "searchInv facts base ((cs @ ds) @ es) (snd (fold ?s starts (?s start cst)))" "\<forall>c \<in> set es. precise c"
    "fst (fold ?s starts (?s start cst)) \<longrightarrow> fst (?s start cst) \<and>
      (\<forall>start \<in> set starts. \<forall>c. deadlockCycle facts c \<longrightarrow> precise c \<longrightarrow> lowestLock c start \<longrightarrow>
        cycleKey c \<in> cycleKey ` set ((cs @ ds) @ es))"
    using Cons.IH [OF ds(1)] Cons.prems(2,3) by auto
  show ?case using ds(2,3) es by (intro exI [of _ "ds @ es"]) auto
qed

lemma deadlockCycle_lowest:
  assumes c: "deadlockCycle facts c" and "concurrentOrders facts \<subseteq> orders"
  obtains c' start where "deadlockCycle facts c'" "set c' = set c" "lowestLock c' start"
proof -
  let ?U = "{u. u < length graph \<and> name u \<in> lo_firstLockId ` set c}"
  have "hd c \<in> orders" using assms hd_in_set [of c] unfolding deadlockCycle_def by blast
  then obtain u where "u < length graph" "lo_firstLockId (hd c) = name u" using numbered by blast
  moreover have "hd c \<in> set c" using c by (simp add: deadlockCycle_def)
  ultimately have "u \<in> ?U" by (auto intro: image_eqI [of _ _ "hd c"])
  have "finite ?U" by (rule finite_subset [of _ "{..<length graph}"]) auto
  moreover have "?U \<noteq> {}" using \<open>u \<in> ?U\<close> by blast
  ultimately have min: "Min ?U \<in> ?U" "\<And>v. v \<in> ?U \<Longrightarrow> Min ?U \<le> v"
    by (rule Min_in) (rule Min_le [OF \<open>finite ?U\<close>])
  from min(1) obtain e where "e \<in> set c" "lo_firstLockId e = name (Min ?U)" by auto
  then obtain xs ys where split: "c = xs @ e # ys" by (meson split_list)
  then have "deadlockCycle facts ((e # ys) @ xs)" using c deadlockCycle_rotate by blast
  moreover have "set ((e # ys) @ xs) = set c" using split by auto
  moreover have "lowestLock ((e # ys) @ xs) (Min ?U)"
    unfolding lowestLock_def calculation(2) using min \<open>lo_firstLockId e = name (Min ?U)\<close> by auto
  ultimately show thesis using that by blast
qed

end

section \<open>The analyzer\<close>

lemma emitOnces_inv:
  assumes "searchInv facts base cs st" "\<forall>c \<in> set as. deadlockCycle facts c"
  shows "\<exists>ds. searchInv facts base (cs @ ds) (fold (emitOnce facts) as st)"
  using assms
proof (induction as arbitrary: cs st)
  case Nil
  then show ?case by (intro exI [of _ "[]"]) simp
next
  case (Cons a as)
  then obtain ds where "searchInv facts base (cs @ ds) (emitOnce facts a st)"
    using emitOnce_inv by fastforce
  with Cons obtain es where "searchInv facts base ((cs @ ds) @ es) (fold (emitOnce facts) as (emitOnce facts a st))"
    by fastforce
  then show ?case by (intro exI [of _ "ds @ es"]) simp
qed

lemma reportDeadlockingCycles_result:
  fixes facts base bound
  defines "r \<equiv> reportDeadlockingCycles base (buildLockGraph (edgesByFirstLock facts)) facts bound"
  shows "\<exists>cs. snd r = base\<lparr>rp_diagnostics := rp_diagnostics base @ map (cycleDiagnostic facts) cs\<rparr> \<and>
    (\<forall>c \<in> set cs. deadlockCycle facts c) \<and> distinct (map cycleKey cs) \<and>
    (fst r \<longrightarrow> (\<forall>c \<in> set cs. \<not> isAddressOrdered c) \<and>
      (\<forall>c. deadlockCycle facts c \<longrightarrow> \<not> isAddressOrdered c \<longrightarrow> cycleKey c \<in> cycleKey ` set cs))"
proof -
  let ?g = "buildLockGraph (edgesByFirstLock facts)"
  let ?init = "(True, \<lparr>ws_report = base, ws_emittedCycleKeys = {}, ws_addressOrderedCycles = [],
      ws_addressOrderedKeys = {}, ws_examined = 0\<rparr>)"
  define f where "f = fold (searchFrom ?g facts bound (predecessorsOf ?g)) [0 ..< length ?g] ?init"
  have r: "fst r = fst f" "snd r = ws_report (if fst f then snd f else fold (emitOnce facts) (ws_addressOrderedCycles (snd f)) (snd f))"
    by (auto simp: r_def reportDeadlockingCycles_def f_def Let_def split: prod.splits)
  have "searchInv facts base [] (snd ?init)" by (simp add: searchInv_def)
  from lg.searches_result [OF this, where starts = "[0 ..< length ?g]" and bound = bound, OF _ refl, folded f_def]
  obtain ds where ds: "searchInv facts base ds (snd f)" "\<forall>c \<in> set ds. precise c"
    and found: "\<And>start c. fst f \<Longrightarrow> start < length ?g \<Longrightarrow> deadlockCycle facts c \<Longrightarrow> precise c \<Longrightarrow>
      lg.lowestLock facts c start \<Longrightarrow> cycleKey c \<in> cycleKey ` set ds"
    by (auto simp: atLeast0LessThan)
  show ?thesis
  proof (cases "fst f")
    case True
    have "cycleKey c \<in> cycleKey ` set ds" if c: "deadlockCycle facts c" "\<not> isAddressOrdered c" for c
    proof -
      obtain c' start where c': "deadlockCycle facts c'" "set c' = set c" "lg.lowestLock facts c' start"
        using lg.deadlockCycle_lowest [OF c(1)] by blast
      moreover have "precise c'" using c(2) c'(2) by (simp add: precise_def isAddressOrdered_def)
      moreover have "start < length ?g" using c'(3) by (simp add: lg.lowestLock_def)
      ultimately have "cycleKey c' \<in> cycleKey ` set ds" using found True by blast
      then show ?thesis using cycleKey_cong [OF c'(2)] by simp
    qed
    then show ?thesis using ds r True by (intro exI [of _ ds]) (auto simp: searchInv_def precise_def)
  next
    case False
    have "\<forall>c \<in> set (ws_addressOrderedCycles (snd f)). deadlockCycle facts c"
      using ds(1) by (simp add: searchInv_def)
    from emitOnces_inv [OF ds(1) this] obtain es where
      "searchInv facts base (ds @ es) (fold (emitOnce facts) (ws_addressOrderedCycles (snd f)) (snd f))" ..
    then show ?thesis using r False by (intro exI [of _ "ds @ es"]) (simp add: searchInv_def)
  qed
qed

lemma selfDeadlocks_fold:
  "fold (\<lambda>f report. if reacquires facts f then emit report (selfDeadlockDiagnostic f) else report) fs base =
     base\<lparr>rp_diagnostics := rp_diagnostics base @ map selfDeadlockDiagnostic (filter (reacquires facts) fs)\<rparr>"
  by (induction fs arbitrary: base) (simp_all add: emit_def)

lemma lockOrderRun_result:
  obtains cs where
    "rp_diagnostics (lockOrderRun facts) =
       map selfDeadlockDiagnostic (filter (reacquires facts) (tu_lockOrders facts)) @ map (cycleDiagnostic facts) cs"
    "\<forall>c \<in> set cs. deadlockCycle facts c" "distinct (map cycleKey cs)"
    "set (rp_notices (lockOrderRun facts)) \<subseteq> {searchLimitNotice}"
    "rp_notices (lockOrderRun facts) = [] \<longrightarrow> (\<forall>c \<in> set cs. \<not> isAddressOrdered c)"
    "rp_notices (lockOrderRun facts) = [] \<longrightarrow>
      (\<forall>c. deadlockCycle facts c \<longrightarrow> \<not> isAddressOrdered c \<longrightarrow> cycleKey c \<in> cycleKey ` set cs)"
proof -
  let ?base = "empty_report\<lparr>rp_diagnostics := rp_diagnostics empty_report @
      map selfDeadlockDiagnostic (filter (reacquires facts) (tu_lockOrders facts))\<rparr>"
  define r where "r = reportDeadlockingCycles ?base (buildLockGraph (edgesByFirstLock facts)) facts kMaxOrdersExaminedPerLock"
  have run: "lockOrderRun facts = (if fst r then snd r else (snd r)\<lparr>rp_notices := rp_notices (snd r) @ [searchLimitNotice]\<rparr>)"
    by (simp add: lockOrderRun_def selfDeadlocks_fold r_def Let_def split: prod.splits)
  obtain cs where cs: "snd r = ?base\<lparr>rp_diagnostics := rp_diagnostics ?base @ map (cycleDiagnostic facts) cs\<rparr>"
    "\<forall>c \<in> set cs. deadlockCycle facts c" "distinct (map cycleKey cs)"
    "fst r \<longrightarrow> (\<forall>c \<in> set cs. \<not> isAddressOrdered c) \<and>
      (\<forall>c. deadlockCycle facts c \<longrightarrow> \<not> isAddressOrdered c \<longrightarrow> cycleKey c \<in> cycleKey ` set cs)"
    using reportDeadlockingCycles_result [of ?base facts kMaxOrdersExaminedPerLock, folded r_def] by blast
  show thesis
    by (rule that [of cs]) (use cs in \<open>auto simp: run empty_report_def split: if_splits\<close>)
qed

text \<open>Two threads that take the locks \<open>a\<close> and \<open>b\<close> in opposite orders.\<close>

definition sample_order :: "string \<Rightarrow> string \<Rightarrow> string \<Rightarrow> LockOrderFact" where
  "sample_order f a b = \<lparr>lo_functionId = f, lo_firstLockId = a, lo_secondLockId = b,
     lo_location = no_location, lo_heldLocks = {a}, lo_inRootTask = False, lo_liveEntries = {},
     lo_startedEntries = {}, lo_lowerAddressFirst = False, lo_secondIsRecursive = False,
     lo_boundBySpawn = False\<rparr>"

definition sample_inversion :: TUFacts where
  "sample_inversion = no_facts\<lparr>
     tu_lockOrders := [sample_order ''f'' ''a'' ''b'', sample_order ''g'' ''b'' ''a''],
     tu_reachableThreadEntriesByFunction := [(''f'', {''f''}), (''g'', {''g''})]\<rparr>"

lemma sample_cycle:
  "deadlockCycle sample_inversion [sample_order ''f'' ''a'' ''b'', sample_order ''g'' ''b'' ''a'']"
  by (auto simp: deadlockCycle_def concurrentOrders_def sample_inversion_def sample_order_def
      participatesInConcurrency_def parallelOrders_def query_defs entriesFor_def entriesOfFunction_def no_facts_def
      no_program_def hasCommonGateLock_iff makeEntryPair_def)

lemmas sample_inversion_defs = sample_inversion_def sample_order_def no_facts_def no_program_def

lemma sample_graph:
  "buildLockGraph (edgesByFirstLock sample_inversion) =
     [[(1, [sample_order ''f'' ''a'' ''b''])], [(0, [sample_order ''g'' ''b'' ''a''])]]"
  by (simp add: buildLockGraph_def edgesByFirstLock_def sample_inversion_defs participatesInConcurrency_def
      numberLocks_def edgesFrom_def successorsOf_def push_def Let_def)

lemma sample_parallel: "parallelOrders sample_inversion (sample_order ''f'' ''a'' ''b'') (sample_order ''g'' ''b'' ''a'')"
  using sample_cycle by (simp add: deadlockCycle_def)

lemma sample_complete: "rp_notices (lockOrderRun sample_inversion) = []"
  by (simp add: lockOrderRun_def reportDeadlockingCycles_def sample_graph searchFrom_def ordersOut_def
      predecessorsOf_def markPredecessor_def leadsTo_def walk.simps mayHappenInParallelWithEach_def
      sample_parallel kMaxOrdersExaminedPerLock_def closeCycle_def emitOnce_def selfDeadlocks_fold
      upt_rec Let_def)

section \<open>Properties\<close>

text \<open>
  C10: The analyzer reports each reacquisition of a non-recursive lock, in the order the facts have
  them, and then only cycles of lock orders that may deadlock: closed chains of concurrent orders
  through distinct locks, pairwise able to run in parallel, with no common gate lock. No cycle is
  reported twice, and unless the search stopped at its bound no reported cycle is address-ordered.
\<close>
theorem lock_order_sound:
  "\<exists>cs. rp_diagnostics (lockOrderRun facts) =
       map selfDeadlockDiagnostic (filter (reacquires facts) (tu_lockOrders facts)) @ map (cycleDiagnostic facts) cs \<and>
     (\<forall>c \<in> set cs. deadlockCycle facts c) \<and> distinct (map cycleKey cs) \<and>
     (rp_notices (lockOrderRun facts) = [] \<longrightarrow> (\<forall>c \<in> set cs. \<not> isAddressOrdered c))"
  by (rule lockOrderRun_result [of facts]) blast

theorem lock_order_sound_witness:
  "\<exists>cs. rp_diagnostics (lockOrderRun sample_inversion) = map (cycleDiagnostic sample_inversion) cs \<and>
     (\<forall>c \<in> set cs. deadlockCycle sample_inversion c \<and> \<not> isAddressOrdered c)"
proof -
  have "filter (reacquires sample_inversion) (tu_lockOrders sample_inversion) = []"
    by (simp add: reacquires_def sample_inversion_defs)
  then show ?thesis
    using lock_order_sound [of sample_inversion] sample_complete by auto
qed

text \<open>
  C19: When the analyzer does not say that its search was incomplete, it misses nothing: for every
  cycle of orders that may deadlock and is not address-ordered, a deadlocking cycle over the same
  lock orders has its diagnostic in the report.
\<close>
theorem lock_order_complete:
  assumes "rp_notices (lockOrderRun facts) = []"
    and "deadlockCycle facts c" "\<not> isAddressOrdered c"
  shows "\<exists>c'. deadlockCycle facts c' \<and> cycleKey c' = cycleKey c \<and>
    cycleDiagnostic facts c' \<in> set (rp_diagnostics (lockOrderRun facts))"
proof -
  obtain cs where "rp_diagnostics (lockOrderRun facts) =
       map selfDeadlockDiagnostic (filter (reacquires facts) (tu_lockOrders facts)) @ map (cycleDiagnostic facts) cs"
    "\<forall>c \<in> set cs. deadlockCycle facts c" "cycleKey c \<in> cycleKey ` set cs"
    using assms by (rule_tac lockOrderRun_result [of facts]) blast
  then show ?thesis by force
qed

theorem lock_order_complete_witness:
  "\<exists>c'. deadlockCycle sample_inversion c' \<and>
     cycleKey c' = cycleKey [sample_order ''f'' ''a'' ''b'', sample_order ''g'' ''b'' ''a''] \<and>
     cycleDiagnostic sample_inversion c' \<in> set (rp_diagnostics (lockOrderRun sample_inversion))"
  by (rule lock_order_complete [OF sample_complete sample_cycle])
    (simp add: isAddressOrdered_def sample_order_def)

lemma lockPath_increasing:
  "lockPath a c b \<Longrightarrow> c \<noteq> [] \<Longrightarrow>
     \<forall>e \<in> set c. address (lo_firstLockId e) < (address (lo_secondLockId e) :: nat) \<Longrightarrow> address a < address b"
proof (induction c arbitrary: a)
  case (Cons e c)
  then show ?case by (cases c) (auto dest: less_trans)
qed simp

text \<open>
  C25: An address-ordered cycle cannot occur: whatever addresses the locks have, some order of the
  cycle is said to take the lock at the lower address first and does not. Leaving such a cycle out
  of the report loses no deadlock.
\<close>
theorem address_ordered_impossible:
  assumes "deadlockCycle facts c" "isAddressOrdered c"
  shows "\<exists>e \<in> set c. lo_lowerAddressFirst e \<and>
    \<not> (address (lo_firstLockId e) < (address (lo_secondLockId e) :: nat))"
  using assms lockPath_increasing [of "lo_firstLockId (hd c)" c "lo_firstLockId (hd c)" address]
  by (auto simp: deadlockCycle_def isAddressOrdered_def)

definition sample_swap :: TUFacts where
  "sample_swap = sample_inversion\<lparr>tu_lockOrders :=
     [(sample_order ''f'' ''a'' ''b'')\<lparr>lo_lowerAddressFirst := True\<rparr>,
      (sample_order ''g'' ''b'' ''a'')\<lparr>lo_lowerAddressFirst := True\<rparr>]\<rparr>"

theorem address_ordered_impossible_witness:
  "\<exists>e \<in> set (tu_lockOrders sample_swap). lo_lowerAddressFirst e \<and> \<not> (length (lo_firstLockId e) < length (lo_secondLockId e))"
  by (rule address_ordered_impossible [of sample_swap])
    (auto simp: deadlockCycle_def concurrentOrders_def sample_swap_def sample_inversion_defs
      participatesInConcurrency_def parallelOrders_def query_defs entriesFor_def entriesOfFunction_def
      hasCommonGateLock_iff makeEntryPair_def isAddressOrdered_def)

interpretation lo: rule_checker lockOrderRun "{DeadlockLockOrder}"
proof unfold_locales
  have [simp]: "d_ruleId (describeOrder facts ie b) = d_ruleId b"
    "d_severity (describeOrder facts ie b) = d_severity b" for facts ie b
    by (simp_all add: describeOrder_def Let_def split: prod.split)
  have describe: "d_ruleId (fold (describeOrder facts) es b) = d_ruleId b \<and>
      d_severity (fold (describeOrder facts) es b) = d_severity b" for facts es b
    by (induction es arbitrary: b) simp_all
  have "well_formed_diagnostic {DeadlockLockOrder} (cycleDiagnostic facts c)" for facts c
    by (cases c) (simp_all add: well_formed_diagnostic_def cycleDiagnostic_def Let_def describe)
  moreover have "well_formed_diagnostic {DeadlockLockOrder} (selfDeadlockDiagnostic f)" for f
    by (simp add: well_formed_diagnostic_def selfDeadlockDiagnostic_def Let_def)
  ultimately show "well_formed_diagnostic {DeadlockLockOrder} d"
    if "d \<in> set (rp_diagnostics (lockOrderRun facts))" for d facts
    using that by (rule_tac lockOrderRun_result [of facts]) auto
  show "an_ruleId n \<in> {DeadlockLockOrder}" if "n \<in> set (rp_notices (lockOrderRun facts))" for n facts
    using that by (rule_tac lockOrderRun_result [of facts]) (auto simp: searchLimitNotice_def)
qed

end
