(* ===== verification/Missing_Join.thy ===== *)
theory Missing_Join
  imports Facts
begin

text \<open>
  The missing-join detector (\<open>analysis/missing_join_detector.cpp\<close>): a union-find forest over the
  handle groups that moves tie together, a summary of creations, joins and detaches per group, and
  the decision to report. The locale \<open>handle_aliases\<close> is the contract of the forest; its
  interpretation shows that \<open>find\<close> returns, that compressing paths changes no answer and that a
  group is named by the least of its members. On top of it, the report is shown to be the one a
  direct count over each group gives.
\<close>

section \<open>Handle groups\<close>

type_synonym alias_parents = "(string \<times> string) list"

text \<open>
  \<open>parent_\<close> with its \<open>find\<close>: a look-up that inserts the group as its own parent when it is absent,
  follows the parents to the root and writes the root back. Nothing in the code bounds the
  recursion, so a look-up that would not return is \<open>None\<close>.
\<close>

partial_function (option) find_group :: "alias_parents \<Rightarrow> string \<Rightarrow> (alias_parents \<times> string) option" where
  "find_group parent groupId =
     (case map_of parent groupId of
        None \<Rightarrow> Some (umap_update groupId (\<lambda>_. groupId) parent, groupId)
      | Some p \<Rightarrow>
          if p = groupId then Some (parent, groupId)
          else Option.bind (find_group parent p) (\<lambda>(parent, root).
                 Some (umap_update groupId (\<lambda>_. root) parent, root)))"

declare find_group.simps [code]

definition isArgument :: "string \<Rightarrow> bool" where
  "isArgument root \<longleftrightarrow> starts_with root ''arg:''"

definition linkRoots :: "string \<Rightarrow> string \<Rightarrow> alias_parents \<Rightarrow> alias_parents" where
  "linkRoots lhsRoot rhsRoot parent =
     (if isArgument lhsRoot \<noteq> isArgument rhsRoot
      then umap_update (if isArgument lhsRoot then lhsRoot else rhsRoot)
             (\<lambda>_. if isArgument lhsRoot then rhsRoot else lhsRoot) parent
      else if lhsRoot < rhsRoot then umap_update rhsRoot (\<lambda>_. lhsRoot) parent
      else umap_update lhsRoot (\<lambda>_. rhsRoot) parent)"

definition unite :: "alias_parents \<Rightarrow> string \<Rightarrow> string \<Rightarrow> alias_parents option" where
  "unite parent lhs rhs =
     Option.bind (find_group parent lhs) (\<lambda>(parent, lhsRoot).
     Option.bind (find_group parent rhs) (\<lambda>(parent, rhsRoot).
       Some (if lhsRoot = rhsRoot then parent else linkRoots lhsRoot rhsRoot parent)))"

section \<open>Summaries\<close>

record LifecycleSummary =
  ls_handleKind :: ThreadHandleKind
  ls_functionId :: string
  ls_firstCreateLocation :: SourceLocation
  ls_createCount :: nat
  ls_joinCount :: nat
  ls_detachCount :: nat
  ls_hasUnresolvedPath :: bool
  ls_hasLoopedCreate :: bool
  ls_hasEscapedHandle :: bool
  ls_allCreatesResolvedOnAllPaths :: bool
  ls_pathAnalysisApplies :: bool

definition new_summary :: LifecycleSummary where
  "new_summary =
     \<lparr>ls_handleKind = TH_PThread, ls_functionId = [], ls_firstCreateLocation = no_location,
      ls_createCount = 0, ls_joinCount = 0, ls_detachCount = 0, ls_hasUnresolvedPath = False,
      ls_hasLoopedCreate = False, ls_hasEscapedHandle = False,
      ls_allCreatesResolvedOnAllPaths = True, ls_pathAnalysisApplies = True\<rparr>"

definition handleKindLabel :: "ThreadHandleKind \<Rightarrow> string" where
  "handleKindLabel kind = (case kind of TH_PThread \<Rightarrow> ''pthread'' | TH_StdThread \<Rightarrow> ''std::thread'')"

definition describeSummary :: "LifecycleSummary \<Rightarrow> string" where
  "describeSummary summary =
     ''creates='' @ to_string_nat (ls_createCount summary) @ '', joins='' @
     to_string_nat (ls_joinCount summary) @ '', detaches='' @ to_string_nat (ls_detachCount summary)"

definition lacksCreateLocation :: "LifecycleSummary \<Rightarrow> bool" where
  "lacksCreateLocation summary \<longleftrightarrow>
     sl_file (ls_firstCreateLocation summary) = [] \<and> sl_line (ls_firstCreateLocation summary) = 0"

text \<open>What one fact other than a move does to the summary of its group.\<close>

definition recordCreate :: "ThreadLifecycleFact \<Rightarrow> LifecycleSummary \<Rightarrow> LifecycleSummary" where
  "recordCreate f summary =
     (let s = summary\<lparr>ls_createCount := ls_createCount summary + 1,
            ls_hasUnresolvedPath := ls_hasUnresolvedPath summary \<or> \<not> tl_resolvedOnAllPaths f,
            ls_allCreatesResolvedOnAllPaths := ls_allCreatesResolvedOnAllPaths summary \<and> tl_resolvedOnAllPaths f,
            ls_hasLoopedCreate := ls_hasLoopedCreate summary \<or> tl_insideLoop f,
            ls_hasEscapedHandle := ls_hasEscapedHandle summary \<or> tl_escapedToUntrackedStorage f\<rparr>
      in if lacksCreateLocation s then s\<lparr>ls_firstCreateLocation := tl_location f\<rparr> else s)"

definition recordLifecycle :: "ThreadLifecycleFact \<Rightarrow> LifecycleSummary \<Rightarrow> LifecycleSummary" where
  "recordLifecycle f summary =
     (let s = summary\<lparr>ls_handleKind := tl_handleKind f, ls_functionId := tl_functionId f\<rparr>;
          s = (if tl_propagated f then s\<lparr>ls_pathAnalysisApplies := False\<rparr> else s);
          s = (if lacksCreateLocation s \<and> tl_action f = TL_Create
               then s\<lparr>ls_firstCreateLocation := tl_location f\<rparr> else s)
      in case tl_action f of
           TL_Create \<Rightarrow> recordCreate f s
         | TL_Join \<Rightarrow> s\<lparr>ls_joinCount := ls_joinCount s + 1\<rparr>
         | TL_Detach \<Rightarrow> s\<lparr>ls_detachCount := ls_detachCount s + 1\<rparr>
         | TL_Move \<Rightarrow> s)"

type_synonym summaries = "(string \<times> LifecycleSummary) list"
type_synonym function_sets = "(string \<times> string set) list"

definition summaryAt :: "(LifecycleSummary \<Rightarrow> LifecycleSummary) \<Rightarrow> LifecycleSummary option \<Rightarrow> LifecycleSummary" where
  "summaryAt f s = f (case s of None \<Rightarrow> new_summary | Some s \<Rightarrow> s)"

definition functionsAt :: "string set option \<Rightarrow> string set" where
  "functionsAt s = (case s of None \<Rightarrow> {} | Some s \<Rightarrow> s)"

definition lifecycleStep ::
  "ThreadLifecycleFact \<Rightarrow> alias_parents \<times> summaries \<times> function_sets \<Rightarrow>
   (alias_parents \<times> summaries \<times> function_sets) option" where
  "lifecycleStep f st =
     (let (aliases, summariesByGroup, functionsByGroup) = st
      in Option.bind (find_group aliases (tl_handleGroupId f)) (\<lambda>(aliases, groupId).
           if tl_action f = TL_Move
           then Some (aliases,
                  omap_update groupId (summaryAt (\<lambda>s. s\<lparr>ls_pathAnalysisApplies := False\<rparr>)) summariesByGroup,
                  functionsByGroup)
           else Some (aliases,
                  omap_update groupId (summaryAt (recordLifecycle f)) summariesByGroup,
                  omap_update groupId (\<lambda>s. insert (tl_functionId f) (functionsAt s)) functionsByGroup)))"

fun fold_option :: "('a \<Rightarrow> 's \<Rightarrow> 's option) \<Rightarrow> 'a list \<Rightarrow> 's \<Rightarrow> 's option" where
  "fold_option f [] s = Some s"
| "fold_option f (x # xs) s = Option.bind (f x s) (fold_option f xs)"

definition uniteMove :: "ThreadLifecycleFact \<Rightarrow> alias_parents \<Rightarrow> alias_parents option" where
  "uniteMove f aliases =
     (case tl_sourceHandleGroupId f of
        None \<Rightarrow> Some aliases
      | Some source \<Rightarrow>
          if tl_action f = TL_Move then unite aliases (tl_handleGroupId f) source else Some aliases)"

definition markSeveralFunctions :: "function_sets \<Rightarrow> string \<times> LifecycleSummary \<Rightarrow> string \<times> LifecycleSummary" where
  "markSeveralFunctions functionsByGroup entry =
     (let (groupId, summary) = entry
      in (groupId, if card (functionsAt (map_of functionsByGroup groupId)) > 1
                   then summary\<lparr>ls_pathAnalysisApplies := False\<rparr> else summary))"

section \<open>The decision and its diagnostic\<close>

definition resolvedCount :: "LifecycleSummary \<Rightarrow> nat" where
  "resolvedCount summary = ls_joinCount summary + ls_detachCount summary"

definition unbalanced :: "LifecycleSummary \<Rightarrow> bool" where
  "unbalanced summary \<longleftrightarrow> ls_createCount summary > resolvedCount summary"

definition pathSignal :: "LifecycleSummary \<Rightarrow> bool" where
  "pathSignal summary \<longleftrightarrow>
     ls_pathAnalysisApplies summary \<and> (ls_hasUnresolvedPath summary \<or> ls_hasLoopedCreate summary) \<and>
     ls_createCount summary \<noteq> 0"

definition reportsGroup :: "string \<times> LifecycleSummary \<Rightarrow> bool" where
  "reportsGroup entry \<longleftrightarrow>
     (let (groupId, summary) = entry
      in if isArgument groupId then False
         else if ls_hasEscapedHandle summary then False
         else if unbalanced summary \<and> ls_createCount summary \<noteq> 0 \<and>
                 ls_allCreatesResolvedOnAllPaths summary \<and> \<not> ls_hasLoopedCreate summary then False
         else if \<not> unbalanced summary \<and> \<not> pathSignal summary then False
         else True)"

definition outstandingCount :: "LifecycleSummary \<Rightarrow> nat" where
  "outstandingCount summary =
     (if unbalanced summary then ls_createCount summary - resolvedCount summary else 1)"

definition missingJoinDiagnostic :: "LifecycleSummary \<Rightarrow> Diagnostic" where
  "missingJoinDiagnostic summary =
     (let b = builder MissingJoin;
          b = b_primaryLocation (ls_firstCreateLocation summary) b;
          b = b_message ''thread handle is not joined or detached before scope exit'' b;
          b = b_note (''handle kind: '' @ handleKindLabel (ls_handleKind summary)) b;
          b = b_note (''lifecycle summary: '' @ describeSummary summary) b;
          b = b_note (''outstanding joinable handles: '' @ to_string_nat (outstandingCount summary)) b;
          b = (if \<not> unbalanced summary \<and> ls_hasLoopedCreate summary
               then b_note (''the handle is created inside a loop while it is resolved outside it, '' @
                            ''so every iteration but the last leaks its thread'') b
               else if \<not> unbalanced summary \<and> ls_hasUnresolvedPath summary
               then b_note (''at least one path leaves the creation without reaching a join or a '' @
                            ''detach'') b
               else b);
          b = b_property ''handleKind'' (PropString (handleKindLabel (ls_handleKind summary))) b;
          b = b_property ''createCount'' (PropInt (int (ls_createCount summary))) b;
          b = b_property ''joinCount'' (PropInt (int (ls_joinCount summary))) b;
          b = b_property ''detachCount'' (PropInt (int (ls_detachCount summary))) b
      in b_property ''outstandingCount'' (PropInt (int (outstandingCount summary))) b)"

definition missingJoinRun :: "TUFacts \<Rightarrow> DiagnosticReport option" where
  "missingJoinRun facts =
     Option.bind (fold_option uniteMove (tu_threadLifecycles facts) []) (\<lambda>aliases.
     Option.bind (fold_option lifecycleStep (tu_threadLifecycles facts) (aliases, [], [])) (\<lambda>st.
       let (aliases, summariesByGroup, functionsByGroup) = st;
           summariesByGroup = map (markSeveralFunctions functionsByGroup) summariesByGroup
       in Some (fold (\<lambda>entry report.
                  if reportsGroup entry then emit report (missingJoinDiagnostic (snd entry)) else report)
                summariesByGroup empty_report)))"

section \<open>The contract of the forest\<close>

lemma fold_option_append: "fold_option f (xs @ ys) s = Option.bind (fold_option f xs s) (fold_option f ys)"
  by (induction xs arbitrary: s) (auto split: bind_split)

text \<open>
  \<open>root_of\<close> names the group a handle belongs to: looking it up returns that name, and uniting two
  handles merges their groups and no others. The name of a group precedes every member, where groups
  that are not arguments come first and the rest is decided by the name.
\<close>

definition rank :: "string \<Rightarrow> bool \<times> string" where
  "rank g = (isArgument g, g)"

locale handle_aliases =
  fixes inv :: "'p \<Rightarrow> bool" and start :: 'p and root_of :: "'p \<Rightarrow> string \<Rightarrow> string"
    and look_up :: "'p \<Rightarrow> string \<Rightarrow> ('p \<times> string) option" and merge :: "'p \<Rightarrow> string \<Rightarrow> string \<Rightarrow> 'p option"
  assumes start_inv: "inv start" and start_root: "root_of start g = g"
    and look_up_returns: "inv p \<Longrightarrow> \<exists>p'. look_up p g = Some (p', root_of p g) \<and> inv p' \<and> root_of p' = root_of p"
    and merge_returns: "inv p \<Longrightarrow> \<exists>p'. merge p a b = Some p' \<and> inv p' \<and>
      (\<forall>x y. root_of p' x = root_of p' y \<longleftrightarrow> root_of p x = root_of p y \<or>
        {root_of p x, root_of p y} = {root_of p a, root_of p b})"
    and root_least: "inv p \<Longrightarrow> rank (root_of p g) \<le> rank g"
    and root_idem: "inv p \<Longrightarrow> root_of p (root_of p g) = root_of p g"
begin

lemma merges_returns:
  "\<exists>p. fold_option (\<lambda>(a, b) p. merge p a b) ms start = Some p \<and> inv p \<and>
     {(x, y). root_of p x = root_of p y} = (set ms \<union> (set ms)\<inverse>)\<^sup>*"
proof (induction ms rule: rev_induct)
  case Nil
  show ?case using start_inv by (auto simp: start_root)
next
  case (snoc m ms)
  obtain a b where m: "m = (a, b)" by (cases m)
  obtain p where p: "fold_option (\<lambda>(a, b) p. merge p a b) ms start = Some p" "inv p"
    "{(x, y). root_of p x = root_of p y} = (set ms \<union> (set ms)\<inverse>)\<^sup>*"
    using snoc by blast
  let ?R = "{(x, y). root_of p x = root_of p y}" and ?m = "{(a, b), (b, a)}"
  obtain p' where p': "merge p a b = Some p'" "inv p'"
    "\<And>x y. root_of p' x = root_of p' y \<longleftrightarrow> root_of p x = root_of p y \<or>
      {root_of p x, root_of p y} = {root_of p a, root_of p b}"
    using merge_returns [OF p(2)] by blast
  have "{(x, y). root_of p' x = root_of p' y} = (?R \<union> ?m)\<^sup>*"
  proof (intro equalityI subrelI)
    fix x y
    assume "(x, y) \<in> {(x, y). root_of p' x = root_of p' y}"
    then consider "(x, y) \<in> ?R" | "(x, a) \<in> ?R" "(b, y) \<in> ?R" | "(x, b) \<in> ?R" "(a, y) \<in> ?R"
      by (auto simp: p'(3) doubleton_eq_iff)
    moreover have "?R \<subseteq> (?R \<union> ?m)\<^sup>*" "(a, b) \<in> (?R \<union> ?m)\<^sup>*" "(b, a) \<in> (?R \<union> ?m)\<^sup>*" by auto
    ultimately show "(x, y) \<in> (?R \<union> ?m)\<^sup>*"
      by cases (meson rtrancl_trans subsetD)+
  next
    fix x y
    assume "(x, y) \<in> (?R \<union> ?m)\<^sup>*"
    then have "root_of p' x = root_of p' y"
    proof (induction rule: rtrancl_induct)
      case (step y z)
      have "root_of p' y = root_of p' z" using step(2) p'(3) [of y z] by auto
      with step.IH show ?case by simp
    qed simp
    then show "(x, y) \<in> {(x, y). root_of p' x = root_of p' y}" by simp
  qed
  also have "\<dots> = ((set ms \<union> (set ms)\<inverse>) \<union> ?m)\<^sup>*"
    unfolding p(3) by (metis rtrancl_Un_rtrancl rtrancl_idemp)
  also have "(set ms \<union> (set ms)\<inverse>) \<union> ?m = set (ms @ [m]) \<union> (set (ms @ [m]))\<inverse>"
    by (auto simp: m)
  finally show ?case using p(1) p'(1,2) by (simp add: fold_option_append m)
qed

lemma root_is_least_member:
  assumes "inv p" "root_of p x = root_of p y"
  shows "rank (root_of p x) \<le> rank y"
  using root_least [OF assms(1), of y] assms(2) by simp

end

section \<open>The forest\<close>

text \<open>A parent precedes its child, and is itself in the map: following parents ends at a root.\<close>

definition alias_inv :: "alias_parents \<Rightarrow> bool" where
  "alias_inv parent \<longleftrightarrow>
     (\<forall>k q. map_of parent k = Some q \<longrightarrow> map_of parent q \<noteq> None \<and> (q = k \<or> rank q < rank k))"

inductive aliasRoot :: "alias_parents \<Rightarrow> string \<Rightarrow> string \<Rightarrow> bool" for parent where
  absent: "map_of parent g = None \<Longrightarrow> aliasRoot parent g g"
| self: "map_of parent g = Some g \<Longrightarrow> aliasRoot parent g g"
| up: "map_of parent g = Some q \<Longrightarrow> q \<noteq> g \<Longrightarrow> aliasRoot parent q r \<Longrightarrow> aliasRoot parent g r"

inductive_cases aliasRootE: "aliasRoot parent g r"

lemma aliasRoot_det: "aliasRoot parent g r \<Longrightarrow> aliasRoot parent g r' \<Longrightarrow> r = r'"
proof (induction arbitrary: r' rule: aliasRoot.induct)
  case (up g q r)
  from up.prems up.hyps show ?case by (cases rule: aliasRoot.cases) (auto dest: up.IH)
qed (erule aliasRootE; simp)+

lemma aliasRoot_root: "aliasRoot parent g r \<Longrightarrow> map_of parent r = None \<or> map_of parent r = Some r"
  by (induction rule: aliasRoot.induct) auto

lemma aliasRoot_idem: "aliasRoot parent g r \<Longrightarrow> aliasRoot parent r r"
  using aliasRoot_root aliasRoot.intros by blast

lemma aliasRoot_rank: "aliasRoot parent g r \<Longrightarrow> alias_inv parent \<Longrightarrow> rank r \<le> rank g"
proof (induction rule: aliasRoot.induct)
  case (up g q r)
  then have "rank q < rank g" by (auto simp: alias_inv_def)
  with up show ?case by auto
qed auto

lemma aliasRoot_known:
  "aliasRoot parent g r \<Longrightarrow> alias_inv parent \<Longrightarrow> map_of parent g \<noteq> None \<Longrightarrow> map_of parent r \<noteq> None"
  by (induction rule: aliasRoot.induct) (auto simp: alias_inv_def)

lemma aliasRoot_total: "alias_inv parent \<Longrightarrow> \<exists>r. aliasRoot parent g r"
proof (induction "card {k \<in> dom (map_of parent). rank k < rank g}" arbitrary: g rule: less_induct)
  case less
  show ?case
  proof (cases "map_of parent g")
    case (Some q)
    show ?thesis
    proof (cases "q = g")
      case False
      then have q: "rank q < rank g" "q \<in> dom (map_of parent)"
        using Some less.prems by (auto simp: alias_inv_def)
      have "{k \<in> dom (map_of parent). rank k < rank q} \<subset> {k \<in> dom (map_of parent). rank k < rank g}"
        using q by auto
      then have "card {k \<in> dom (map_of parent). rank k < rank q} < card {k \<in> dom (map_of parent). rank k < rank g}"
        by (intro psubset_card_mono) (auto intro: finite_subset [OF _ finite_dom_map_of])
      then show ?thesis using less.hyps less.prems Some False aliasRoot.up by blast
    qed (use Some aliasRoot.self in blast)
  qed (use aliasRoot.absent in blast)
qed

text \<open>Writing a root back as the parent of a group changes no root.\<close>

lemma set_parent_roots:
  assumes inv: "alias_inv parent" and r: "aliasRoot parent g r" and known: "map_of parent r \<noteq> None"
  defines "parent' \<equiv> umap_update g (\<lambda>_. r) parent"
  shows "alias_inv parent'" and "aliasRoot parent' x s \<longleftrightarrow> aliasRoot parent x s"
proof -
  have look: "map_of parent' = (map_of parent)(g \<mapsto> r)" by (simp add: parent'_def umap_lookup_update)
  have "r = g \<or> rank r < rank g"
    using aliasRoot_rank [OF r inv] by (auto simp: rank_def)
  with inv known show inv': "alias_inv parent'" by (auto simp: alias_inv_def look)
  have forth: "aliasRoot parent' x s" if "aliasRoot parent x s" for x s
    using that
  proof (induction rule: aliasRoot.induct)
    case (up x q s)
    show ?case
    proof (cases "x = g")
      case True
      then have "s = r" using aliasRoot_det [OF r] up aliasRoot.up by blast
      have "map_of parent r = Some r" using aliasRoot_root [OF r] known by auto
      then have "aliasRoot parent' r r" by (cases "r = g") (auto intro: aliasRoot.self simp: look)
      then show ?thesis using True \<open>s = r\<close> aliasRoot.up [of parent' g r r] by (cases "r = g") (auto simp: look)
    next
      case False
      then show ?thesis using up aliasRoot.up [of parent' x q s] by (simp add: look)
    qed
  next
    case (absent x)
    then show ?case using r aliasRoot_det [OF r aliasRoot.absent] known
      by (cases "x = g") (auto intro: aliasRoot.absent simp: look)
  next
    case (self x)
    then show ?case using aliasRoot_det [OF r aliasRoot.self]
      by (cases "x = g") (auto intro: aliasRoot.self simp: look)
  qed
  show "aliasRoot parent' x s \<longleftrightarrow> aliasRoot parent x s"
    using forth aliasRoot_total [OF inv, of x] aliasRoot_det by blast
qed

lemma find_group_result:
  assumes "aliasRoot parent g r" "alias_inv parent"
  shows "\<exists>parent'. find_group parent g = Some (parent', r) \<and> alias_inv parent' \<and>
    aliasRoot parent' = aliasRoot parent \<and> dom (map_of parent') = insert g (dom (map_of parent))"
  using assms
proof (induction rule: aliasRoot.induct)
  case (absent g)
  let ?p = "umap_update g (\<lambda>_. g) parent"
  have look: "map_of ?p = (map_of parent)(g \<mapsto> g)" by (simp add: umap_lookup_update)
  have inv: "alias_inv ?p" using absent(2) by (auto simp: alias_inv_def look)
  have "aliasRoot ?p x s" if "aliasRoot parent x s" for x s
    using that
  proof (induction rule: aliasRoot.induct)
    case (up x q s)
    then show ?case using absent(1) aliasRoot.up [of ?p x q s] by (cases "x = g") (auto simp: look)
  next
    case (absent x)
    then show ?case by (cases "x = g") (auto intro: aliasRoot.absent aliasRoot.self simp: look)
  next
    case (self x)
    then show ?case by (auto intro: aliasRoot.self simp: look)
  qed
  then have "aliasRoot ?p = aliasRoot parent"
    using aliasRoot_total [OF absent(2)] aliasRoot_det by (intro ext) blast
  then show ?case using inv absent(1) by (subst find_group.simps) (auto simp: look)
next
  case (self g)
  then show ?case by (subst find_group.simps) auto
next
  case (up g q r)
  then obtain p where p: "find_group parent q = Some (p, r)" "alias_inv p" "aliasRoot p = aliasRoot parent"
    "dom (map_of p) = insert q (dom (map_of parent))"
    by blast
  have "aliasRoot p g r" using p(3) up aliasRoot.up by metis
  moreover have "map_of p r \<noteq> None"
    using aliasRoot_known [OF calculation p(2)] up(1) p(4) by blast
  ultimately have "alias_inv (umap_update g (\<lambda>_. r) p)" "aliasRoot (umap_update g (\<lambda>_. r) p) = aliasRoot parent"
    using set_parent_roots [OF p(2)] p(3) by (auto intro!: ext)
  moreover have "q \<in> dom (map_of parent)" using up(1) up.prems by (auto simp: alias_inv_def)
  ultimately show ?case using up(1,2) p by (subst find_group.simps) (auto simp: umap_lookup_update)
qed

definition groupOf :: "alias_parents \<Rightarrow> string \<Rightarrow> string" where
  "groupOf parent g = (case find_group parent g of None \<Rightarrow> g | Some (_, root) \<Rightarrow> root)"

lemma groupOf_root: "alias_inv parent \<Longrightarrow> aliasRoot parent g r \<longleftrightarrow> r = groupOf parent g"
proof -
  assume inv: "alias_inv parent"
  then obtain s where s: "aliasRoot parent g s" using aliasRoot_total by blast
  then have "groupOf parent g = s" using find_group_result [OF s inv] by (auto simp: groupOf_def)
  with s aliasRoot_det show ?thesis by blast
qed

lemma groupOf_eqI: "alias_inv p \<Longrightarrow> alias_inv q \<Longrightarrow> aliasRoot p = aliasRoot q \<Longrightarrow> groupOf p = groupOf q"
  by (intro ext) (metis groupOf_root)

lemma find_group_returns:
  assumes "alias_inv p"
  shows "\<exists>p'. find_group p g = Some (p', groupOf p g) \<and> alias_inv p' \<and> groupOf p' = groupOf p \<and>
    dom (map_of p') = insert g (dom (map_of p))"
  using find_group_result [OF _ assms, of g "groupOf p g"] groupOf_root [OF assms] groupOf_eqI [OF _ assms]
  by blast

text \<open>Hanging one root below another gives the members of its group the other root.\<close>

lemma hang_root:
  assumes inv: "alias_inv p" and c: "map_of p c = Some c" and q: "map_of p q = Some q" and less: "rank q < rank c"
  defines "p' \<equiv> umap_update c (\<lambda>_. q) p"
  shows "alias_inv p'" and "groupOf p' x = (if groupOf p x = c then q else groupOf p x)"
proof -
  have look: "map_of p' = (map_of p)(c \<mapsto> q)" by (simp add: p'_def umap_lookup_update)
  have "q \<noteq> c" using less by auto
  show inv': "alias_inv p'" using inv q less by (auto simp: alias_inv_def look)
  have top: "aliasRoot p' q q" using q \<open>q \<noteq> c\<close> by (auto intro: aliasRoot.self simp: look)
  have "aliasRoot p' x (if r = c then q else r)" if "aliasRoot p x r" for r
    using that
  proof (induction rule: aliasRoot.induct)
    case (up g s r)
    then show ?case using c aliasRoot.up [of p' g s] by (cases "g = c") (auto simp: look)
  next
    case (absent g)
    then show ?case using c by (auto intro: aliasRoot.absent simp: look)
  next
    case (self g)
    then show ?case using top \<open>q \<noteq> c\<close> aliasRoot.up [of p' c q q]
      by (cases "g = c") (auto intro: aliasRoot.self simp: look)
  qed
  from this [of "groupOf p x"] show "groupOf p' x = (if groupOf p x = c then q else groupOf p x)"
    by (simp only: groupOf_root [OF inv] groupOf_root [OF inv'] simp_thms)
qed

lemma rank_linear: "a \<noteq> b \<Longrightarrow> rank a < rank b \<or> rank b < rank a"
  by (auto simp: rank_def less_prod_def)

lemma linkRoots_hang:
  "a \<noteq> b \<Longrightarrow> linkRoots a b p =
     (if rank a < rank b then umap_update b (\<lambda>_. a) p else umap_update a (\<lambda>_. b) p)"
  by (auto simp: linkRoots_def rank_def less_prod_def)

lemma unite_returns:
  assumes inv: "alias_inv p"
  shows "\<exists>p'. unite p a b = Some p' \<and> alias_inv p' \<and>
    (\<forall>x y. groupOf p' x = groupOf p' y \<longleftrightarrow> groupOf p x = groupOf p y \<or>
      {groupOf p x, groupOf p y} = {groupOf p a, groupOf p b})"
proof -
  obtain p1 where p1: "find_group p a = Some (p1, groupOf p a)" "alias_inv p1" "groupOf p1 = groupOf p"
    "a \<in> dom (map_of p1)" using find_group_returns [OF inv] by blast
  obtain p2 where p2: "find_group p1 b = Some (p2, groupOf p b)" "alias_inv p2" "groupOf p2 = groupOf p"
    "a \<in> dom (map_of p2)" "b \<in> dom (map_of p2)"
    using find_group_returns [OF p1(2), of b] p1(3,4) by (metis insert_iff)
  let ?a = "groupOf p a" and ?b = "groupOf p b"
  have roots: "map_of p2 (groupOf p g) = Some (groupOf p g)" if "g \<in> dom (map_of p2)" for g
    using that groupOf_root [OF p2(2), of g] aliasRoot_root [of p2 g] aliasRoot_known [of p2 g] p2(2,3)
    by (metis domIff)
  show ?thesis
  proof (cases "?a = ?b")
    case True
    then show ?thesis using p1 p2 by (auto simp: unite_def)
  next
    case False
    define p' where "p' = linkRoots ?a ?b p2"
    have "alias_inv p' \<and> (groupOf p' = (\<lambda>x. if groupOf p x = ?b then ?a else groupOf p x) \<or>
        groupOf p' = (\<lambda>x. if groupOf p x = ?a then ?b else groupOf p x))"
      using rank_linear [OF False] hang_root [OF p2(2) roots [OF p2(5)] roots [OF p2(4)], unfolded p2(3)]
        hang_root [OF p2(2) roots [OF p2(4)] roots [OF p2(5)], unfolded p2(3)]
      unfolding p'_def linkRoots_hang [OF False]
      by (cases "rank ?a < rank ?b") (simp_all add: fun_eq_iff)
    moreover have "unite p a b = Some p'" using p1 p2 False by (simp add: unite_def p'_def)
    ultimately show ?thesis by (auto simp: doubleton_eq_iff split: if_splits)
  qed
qed

interpretation ha: handle_aliases alias_inv "[]" groupOf find_group unite
proof unfold_locales
  show "alias_inv []" by (simp add: alias_inv_def)
  show "groupOf [] g = g" for g by (simp add: groupOf_def find_group.simps [of "[]"])
  show "\<exists>p'. find_group p g = Some (p', groupOf p g) \<and> alias_inv p' \<and> groupOf p' = groupOf p" if "alias_inv p" for p g
    using find_group_returns [OF that] by blast
  show "rank (groupOf p g) \<le> rank g" if "alias_inv p" for p g
    using aliasRoot_rank groupOf_root that by blast
  show "groupOf p (groupOf p g) = groupOf p g" if "alias_inv p" for p g
    using aliasRoot_idem groupOf_root [OF that] by metis
qed (rule unite_returns)

section \<open>The report, group by group\<close>

text \<open>The moves of a unit, and the group of a handle after them.\<close>

definition moves :: "TUFacts \<Rightarrow> (string \<times> string) list" where
  "moves facts = [(tl_handleGroupId f, the (tl_sourceHandleGroupId f)).
     f \<leftarrow> tu_threadLifecycles facts, tl_action f = TL_Move \<and> tl_sourceHandleGroupId f \<noteq> None]"

lemma uniteMoves_moves:
  "fold_option uniteMove (tu_threadLifecycles facts) p =
     fold_option (\<lambda>(a, b) p. unite p a b) (moves facts) p"
proof -
  have "fold_option uniteMove fs p = fold_option (\<lambda>(a, b) p. unite p a b)
      [(tl_handleGroupId f, the (tl_sourceHandleGroupId f)).
        f \<leftarrow> fs, tl_action f = TL_Move \<and> tl_sourceHandleGroupId f \<noteq> None] p" for fs
  proof (induction fs arbitrary: p)
    case (Cons f fs)
    then show ?case by (cases "tl_sourceHandleGroupId f") (auto simp: uniteMove_def split: bind_split)
  qed simp
  then show ?thesis by (simp add: moves_def)
qed

definition handleAliases :: "TUFacts \<Rightarrow> alias_parents" where
  "handleAliases facts = (case fold_option uniteMove (tu_threadLifecycles facts) [] of None \<Rightarrow> [] | Some p \<Rightarrow> p)"

definition handleGroup :: "TUFacts \<Rightarrow> string \<Rightarrow> string" where
  "handleGroup facts = groupOf (handleAliases facts)"

lemma handleAliases_returns:
  "fold_option uniteMove (tu_threadLifecycles facts) [] = Some (handleAliases facts)"
  "alias_inv (handleAliases facts)"
  "handleGroup facts x = handleGroup facts y \<longleftrightarrow> (x, y) \<in> (set (moves facts) \<union> (set (moves facts))\<inverse>)\<^sup>*"
proof -
  obtain p where p: "fold_option uniteMove (tu_threadLifecycles facts) [] = Some p" "alias_inv p"
    "{(x, y). groupOf p x = groupOf p y} = (set (moves facts) \<union> (set (moves facts))\<inverse>)\<^sup>*"
    using ha.merges_returns [of "moves facts"] uniteMoves_moves [of facts "[]"] by auto
  then have "handleAliases facts = p" by (simp add: handleAliases_def)
  with p show "fold_option uniteMove (tu_threadLifecycles facts) [] = Some (handleAliases facts)"
    "alias_inv (handleAliases facts)"
    "handleGroup facts x = handleGroup facts y \<longleftrightarrow> (x, y) \<in> (set (moves facts) \<union> (set (moves facts))\<inverse>)\<^sup>*"
    by (auto simp: handleGroup_def set_eq_iff)
qed

text \<open>
  The summary of one group, from the facts of that group alone, without the forest or the maps.
\<close>

definition groupFacts :: "TUFacts \<Rightarrow> string \<Rightarrow> ThreadLifecycleFact list" where
  "groupFacts facts g = filter (\<lambda>f. handleGroup facts (tl_handleGroupId f) = g) (tu_threadLifecycles facts)"

definition actions :: "ThreadLifecycleAction \<Rightarrow> ThreadLifecycleFact list \<Rightarrow> ThreadLifecycleFact list" where
  "actions a fs = filter (\<lambda>f. tl_action f = a) fs"

definition applyFact :: "ThreadLifecycleFact \<Rightarrow> LifecycleSummary \<Rightarrow> LifecycleSummary" where
  "applyFact f s =
     (if tl_action f = TL_Move then s\<lparr>ls_pathAnalysisApplies := False\<rparr> else recordLifecycle f s)"

definition functionsOf :: "ThreadLifecycleFact list \<Rightarrow> string set" where
  "functionsOf fs = tl_functionId ` set (filter (\<lambda>f. tl_action f \<noteq> TL_Move) fs)"

definition groupSummary :: "TUFacts \<Rightarrow> string \<Rightarrow> LifecycleSummary" where
  "groupSummary facts g =
     (let s = fold applyFact (groupFacts facts g) new_summary
      in if card (functionsOf (groupFacts facts g)) > 1 then s\<lparr>ls_pathAnalysisApplies := False\<rparr> else s)"

lemma lifecycleSteps_fold:
  assumes "alias_inv p" "groupOf p = h"
  shows "\<exists>p'. fold_option lifecycleStep fs (p, ss, fns) =
    Some (p', fold (\<lambda>f. omap_update (h (tl_handleGroupId f)) (summaryAt (applyFact f))) fs ss,
          fold (\<lambda>f. omap_update (h (tl_handleGroupId f)) (\<lambda>s. insert (tl_functionId f) (functionsAt s)))
            (filter (\<lambda>f. tl_action f \<noteq> TL_Move) fs) fns)"
  using assms
proof (induction fs arbitrary: p ss fns)
  case (Cons f fs)
  obtain p' where p': "find_group p (tl_handleGroupId f) = Some (p', h (tl_handleGroupId f))"
    "alias_inv p'" "groupOf p' = h"
    using find_group_returns [OF Cons.prems(1)] Cons.prems(2) by blast
  show ?case
  proof (cases "tl_action f = TL_Move")
    case True
    then have "applyFact f = (\<lambda>s. s\<lparr>ls_pathAnalysisApplies := False\<rparr>)" by (auto simp: applyFact_def)
    then show ?thesis using True p' Cons.IH [OF p'(2,3)] by (simp add: lifecycleStep_def)
  next
    case False
    then have "applyFact f = recordLifecycle f" by (auto simp: applyFact_def)
    then show ?thesis using False p' Cons.IH [OF p'(2,3)] by (simp add: lifecycleStep_def)
  qed
qed simp

lemma summaryAt_fold:
  "fold (\<lambda>f r. Some (summaryAt (applyFact f) r)) fs r =
     (if fs = [] then r else Some (fold applyFact fs (case r of None \<Rightarrow> new_summary | Some s \<Rightarrow> s)))"
  by (induction fs arbitrary: r) (auto simp: summaryAt_def)

lemma functionsAt_fold:
  "functionsAt (fold (\<lambda>f r. Some (insert (tl_functionId f) (functionsAt r))) fs r) =
     tl_functionId ` set fs \<union> functionsAt r"
  by (induction fs arbitrary: r) (auto simp: functionsAt_def)

lemma emit_filtered:
  "rp_diagnostics (fold (\<lambda>e report. if P e then emit report (f e) else report) es base) =
     rp_diagnostics base @ map f (filter P es)"
  "rp_notices (fold (\<lambda>e report. if P e then emit report (f e) else report) es base) = rp_notices base"
  by (induction es arbitrary: base) auto

lemma omap_entries:
  assumes "omap_inv m" "\<And>k v. map_of m k = Some v \<longleftrightarrow> k \<in> K \<and> v = f k"
  shows "m = map (\<lambda>k. (k, f k)) (sorted_list_of_set K)"
proof -
  have keys: "set (map fst m) = K" using assms(2) by (metis domD domI dom_map_of_conv_image_fst image_set set_eqI)
  have "map fst m = sorted_list_of_set K"
    using assms(1) keys by (intro strict_sorted_equal) (auto simp: omap_inv_def keys [symmetric])
  moreover have "snd kv = f (fst kv)" if "kv \<in> set m" for kv
    using that assms by (metis map_of_is_SomeI om.inv_distinct prod.collapse)
  then have "map (\<lambda>k. (k, f k)) (map fst m) = m"
    unfolding map_map by (intro map_idI) (simp add: prod_eq_iff)
  ultimately show ?thesis by simp
qed

lemma missingJoinRun_result:
  obtains report where "missingJoinRun facts = Some report" "rp_notices report = []"
    "rp_diagnostics report = map (\<lambda>g. missingJoinDiagnostic (groupSummary facts g))
       (filter (\<lambda>g. reportsGroup (g, groupSummary facts g))
         (sorted_list_of_set ((\<lambda>f. handleGroup facts (tl_handleGroupId f)) ` set (tu_threadLifecycles facts))))"
proof -
  let ?h = "handleGroup facts" and ?fs = "tu_threadLifecycles facts"
  let ?K = "(\<lambda>f. ?h (tl_handleGroupId f)) ` set ?fs"
  define ss where "ss = fold (\<lambda>f. omap_update (?h (tl_handleGroupId f)) (summaryAt (applyFact f))) ?fs []"
  define fns where "fns = fold (\<lambda>f. omap_update (?h (tl_handleGroupId f)) (\<lambda>s. insert (tl_functionId f) (functionsAt s)))
      (filter (\<lambda>f. tl_action f \<noteq> TL_Move) ?fs) []"
  obtain p' where steps: "fold_option lifecycleStep ?fs (handleAliases facts, [], []) = Some (p', ss, fns)"
    using lifecycleSteps_fold [OF handleAliases_returns(2) [of facts] refl, where fs = ?fs and ss = "[]" and fns = "[]"]
    unfolding ss_def fns_def handleGroup_def by blast
  have fn_sets: "functionsAt (map_of fns g) = functionsOf (groupFacts facts g)" for g
    unfolding fns_def om.lookup_fold [OF om.inv_empty] functionsAt_fold
    by (auto simp: functionsOf_def groupFacts_def functionsAt_def)
  have "omap_inv ss" unfolding ss_def by (rule om.inv_fold [OF om.inv_empty])
  moreover have "map_of ss k = Some v \<longleftrightarrow> k \<in> ?K \<and> v = fold applyFact (groupFacts facts k) new_summary" for k v
    unfolding ss_def om.lookup_fold [OF om.inv_empty]
    by (auto simp: summaryAt_fold groupFacts_def filter_empty_conv)
  ultimately have "ss = map (\<lambda>k. (k, fold applyFact (groupFacts facts k) new_summary)) (sorted_list_of_set ?K)"
    by (rule omap_entries)
  then have marked: "map (markSeveralFunctions fns) ss = map (\<lambda>k. (k, groupSummary facts k)) (sorted_list_of_set ?K)"
    by (simp add: markSeveralFunctions_def groupSummary_def fn_sets Let_def)
  have run: "missingJoinRun facts = Some (fold (\<lambda>entry report.
      if reportsGroup entry then emit report (missingJoinDiagnostic (snd entry)) else report)
      (map (\<lambda>k. (k, groupSummary facts k)) (sorted_list_of_set ?K)) empty_report)"
    by (simp add: missingJoinRun_def handleAliases_returns(1) steps marked [symmetric])
  show thesis by (rule that [OF run]) (simp_all add: emit_filtered filter_map comp_def)
qed

text \<open>
  When a group leaks a thread, in the words of the facts: no creation hands its handle to storage
  that is not tracked, some creation is not resolved on every path or repeats in a loop, and either
  more handles are created than joined or detached, or the group stays within one function, is not
  moved and has no propagated fact.
\<close>

definition leaks :: "TUFacts \<Rightarrow> string \<Rightarrow> bool" where
  "leaks facts g \<longleftrightarrow>
     (let fs = groupFacts facts g; creates = actions TL_Create fs
      in \<not> isArgument g \<and>
         (\<forall>f \<in> set creates. \<not> tl_escapedToUntrackedStorage f) \<and>
         (\<exists>f \<in> set creates. \<not> tl_resolvedOnAllPaths f \<or> tl_insideLoop f) \<and>
         (length creates > length (actions TL_Join fs) + length (actions TL_Detach fs) \<or>
          (\<forall>f \<in> set fs. tl_action f \<noteq> TL_Move \<and> \<not> tl_propagated f) \<and> card (functionsOf fs) \<le> 1))"

lemma recordLifecycle_fields [simp]:
  "ls_createCount (recordLifecycle f s) = ls_createCount s + (if tl_action f = TL_Create then 1 else 0)"
  "ls_joinCount (recordLifecycle f s) = ls_joinCount s + (if tl_action f = TL_Join then 1 else 0)"
  "ls_detachCount (recordLifecycle f s) = ls_detachCount s + (if tl_action f = TL_Detach then 1 else 0)"
  "ls_hasUnresolvedPath (recordLifecycle f s) \<longleftrightarrow> ls_hasUnresolvedPath s \<or> tl_action f = TL_Create \<and> \<not> tl_resolvedOnAllPaths f"
  "ls_hasLoopedCreate (recordLifecycle f s) \<longleftrightarrow> ls_hasLoopedCreate s \<or> tl_action f = TL_Create \<and> tl_insideLoop f"
  "ls_hasEscapedHandle (recordLifecycle f s) \<longleftrightarrow> ls_hasEscapedHandle s \<or> tl_action f = TL_Create \<and> tl_escapedToUntrackedStorage f"
  "ls_allCreatesResolvedOnAllPaths (recordLifecycle f s) \<longleftrightarrow>
     ls_allCreatesResolvedOnAllPaths s \<and> (tl_action f = TL_Create \<longrightarrow> tl_resolvedOnAllPaths f)"
  "ls_pathAnalysisApplies (recordLifecycle f s) \<longleftrightarrow> ls_pathAnalysisApplies s \<and> \<not> tl_propagated f"
  by (simp_all add: recordLifecycle_def recordCreate_def Let_def split: ThreadLifecycleAction.split)

lemma summary_fields:
  fixes fs s
  defines "r \<equiv> fold applyFact fs s"
  shows "ls_createCount r = ls_createCount s + length (actions TL_Create fs)"
    and "ls_joinCount r = ls_joinCount s + length (actions TL_Join fs)"
    and "ls_detachCount r = ls_detachCount s + length (actions TL_Detach fs)"
    and "ls_hasUnresolvedPath r \<longleftrightarrow> ls_hasUnresolvedPath s \<or> (\<exists>f \<in> set (actions TL_Create fs). \<not> tl_resolvedOnAllPaths f)"
    and "ls_hasLoopedCreate r \<longleftrightarrow> ls_hasLoopedCreate s \<or> (\<exists>f \<in> set (actions TL_Create fs). tl_insideLoop f)"
    and "ls_hasEscapedHandle r \<longleftrightarrow> ls_hasEscapedHandle s \<or> (\<exists>f \<in> set (actions TL_Create fs). tl_escapedToUntrackedStorage f)"
    and "ls_allCreatesResolvedOnAllPaths r \<longleftrightarrow>
      ls_allCreatesResolvedOnAllPaths s \<and> (\<forall>f \<in> set (actions TL_Create fs). tl_resolvedOnAllPaths f)"
    and "ls_pathAnalysisApplies r \<longleftrightarrow>
      ls_pathAnalysisApplies s \<and> (\<forall>f \<in> set fs. tl_action f \<noteq> TL_Move \<and> \<not> tl_propagated f)"
  unfolding r_def
  by (induction fs arbitrary: s) (auto simp: applyFact_def actions_def)

lemma reportsGroup_leaks: "reportsGroup (g, groupSummary facts g) \<longleftrightarrow> leaks facts g"
proof -
  let ?s = "groupSummary facts g" and ?fs = "groupFacts facts g"
  have counts: "ls_createCount ?s = length (actions TL_Create ?fs)"
    "resolvedCount ?s = length (actions TL_Join ?fs) + length (actions TL_Detach ?fs)"
    by (simp_all add: groupSummary_def Let_def summary_fields new_summary_def resolvedCount_def)
  have flags: "ls_hasUnresolvedPath ?s \<longleftrightarrow> (\<exists>f \<in> set (actions TL_Create ?fs). \<not> tl_resolvedOnAllPaths f)"
    "ls_hasLoopedCreate ?s \<longleftrightarrow> (\<exists>f \<in> set (actions TL_Create ?fs). tl_insideLoop f)"
    "ls_hasEscapedHandle ?s \<longleftrightarrow> (\<exists>f \<in> set (actions TL_Create ?fs). tl_escapedToUntrackedStorage f)"
    "ls_allCreatesResolvedOnAllPaths ?s \<longleftrightarrow> (\<forall>f \<in> set (actions TL_Create ?fs). tl_resolvedOnAllPaths f)"
    by (simp_all add: groupSummary_def Let_def summary_fields new_summary_def)
  have path: "ls_pathAnalysisApplies ?s \<longleftrightarrow>
      (\<forall>f \<in> set ?fs. tl_action f \<noteq> TL_Move \<and> \<not> tl_propagated f) \<and> card (functionsOf ?fs) \<le> 1"
    by (auto simp: groupSummary_def Let_def summary_fields new_summary_def)
  have bad: "(\<exists>f \<in> set (actions TL_Create ?fs). \<not> tl_resolvedOnAllPaths f \<or> tl_insideLoop f) \<longleftrightarrow>
      ls_hasUnresolvedPath ?s \<or> ls_hasLoopedCreate ?s"
    and all: "ls_allCreatesResolvedOnAllPaths ?s \<longleftrightarrow> \<not> ls_hasUnresolvedPath ?s"
    and some: "ls_hasUnresolvedPath ?s \<or> ls_hasLoopedCreate ?s \<Longrightarrow> ls_createCount ?s \<noteq> 0"
    and kept: "(\<forall>f \<in> set (actions TL_Create ?fs). \<not> tl_escapedToUntrackedStorage f) \<longleftrightarrow> \<not> ls_hasEscapedHandle ?s"
    unfolding flags counts by auto
  show ?thesis
    unfolding leaks_def Let_def bad kept path [symmetric] counts [symmetric]
    using some by (auto simp: reportsGroup_def unbalanced_def pathSignal_def all)
qed

section \<open>Properties\<close>

text \<open>
  C8: The detector returns, and reports exactly the handle groups that leak a thread, in the order of
  their names, each with the summary that the facts of the group alone give: neither the path
  compression of the forest nor the order of the other groups' facts shows in the report.
\<close>
theorem missing_join_exact:
  "\<exists>report. missingJoinRun facts = Some report \<and>
     rp_diagnostics report = map (\<lambda>g. missingJoinDiagnostic (groupSummary facts g))
       (filter (leaks facts)
         (sorted_list_of_set ((\<lambda>f. handleGroup facts (tl_handleGroupId f)) ` set (tu_threadLifecycles facts))))"
  by (rule missingJoinRun_result [of facts]) (simp add: reportsGroup_leaks)

text \<open>
  C14: Two handles are in one group exactly when a chain of moves ties them together, and the group is
  named by the least member of it, a handle that is not an argument before any that is: the report
  does not depend on the order in which the moves are united.
\<close>
theorem handle_groups_are_move_classes:
  "(handleGroup facts x = handleGroup facts y \<longleftrightarrow> (x, y) \<in> (set (moves facts) \<union> (set (moves facts))\<inverse>)\<^sup>*) \<and>
   handleGroup facts (handleGroup facts x) = handleGroup facts x \<and>
   (handleGroup facts x = handleGroup facts y \<longrightarrow>
      rank (handleGroup facts x) \<le> rank y)"
  using handleAliases_returns(2,3) [of facts] ha.root_idem ha.root_is_least_member
  unfolding handleGroup_def by metis

definition sample_lifecycle :: "ThreadLifecycleAction \<Rightarrow> string \<Rightarrow> string option \<Rightarrow> ThreadLifecycleFact" where
  "sample_lifecycle a g source = \<lparr>tl_handleKind = TH_StdThread, tl_action = a, tl_handleGroupId = g,
     tl_sourceHandleGroupId = source, tl_functionId = ''f'', tl_location = no_location,
     tl_resolvedOnAllPaths = False, tl_insideLoop = False, tl_escapedToUntrackedStorage = False,
     tl_propagated = False\<rparr>"

theorem handle_groups_are_move_classes_witness:
  "let facts = no_facts\<lparr>tu_threadLifecycles := [sample_lifecycle TL_Move ''b'' (Some ''arg:0'')]\<rparr>
   in handleGroup facts ''b'' = handleGroup facts ''arg:0'' \<and>
      rank (handleGroup facts ''arg:0'') \<le> rank ''b''"
proof -
  let ?facts = "no_facts\<lparr>tu_threadLifecycles := [sample_lifecycle TL_Move ''b'' (Some ''arg:0'')]\<rparr>"
  have "moves ?facts = [(''b'', ''arg:0'')]" by (simp add: moves_def sample_lifecycle_def)
  then have "handleGroup ?facts ''b'' = handleGroup ?facts ''arg:0''"
    using handle_groups_are_move_classes [of ?facts "''b''" "''arg:0''"] by auto
  then show ?thesis
    using handle_groups_are_move_classes [of ?facts "''b''" "''b''"] by (simp add: Let_def)
qed

interpretation mj: rule_checker "\<lambda>facts. the (missingJoinRun facts)" "{MissingJoin}"
proof unfold_locales
  have "well_formed_diagnostic {MissingJoin} (missingJoinDiagnostic s)" for s
    by (simp add: well_formed_diagnostic_def missingJoinDiagnostic_def Let_def)
  then show "well_formed_diagnostic {MissingJoin} d" if "d \<in> set (rp_diagnostics (the (missingJoinRun facts)))" for d facts
    using that by (rule_tac missingJoinRun_result [of facts]) auto
  show "an_ruleId n \<in> {MissingJoin}" if "n \<in> set (rp_notices (the (missingJoinRun facts)))" for n facts
    using that by (rule_tac missingJoinRun_result [of facts]) auto
qed

end
