(* ===== verification/Process_Checkers.thy ===== *)
theory Process_Checkers
  imports Facts
begin

text \<open>
  The checkers that turn one fact into one diagnostic: condition waits
  (\<open>analysis/condition_wait_checker.cpp\<close>), processes, thread arguments, thread locals and signal
  handlers (\<open>analysis/process_lifecycle_checker.cpp\<close>), and weak publications
  (\<open>analysis/publication_ordering_checker.cpp\<close>). Each is shown to report exactly the facts its guard
  lets through.
\<close>

section \<open>Condition waits\<close>

definition conditionWaitDiagnostic :: "ConditionWaitFact \<Rightarrow> Diagnostic" where
  "conditionWaitDiagnostic w =
     (let b = builder ConditionWaitWithoutPredicate;
          b = b_primaryLocation (cw_location w) b;
          b = b_message ''condition-variable wait rechecks nothing when it wakes'' b;
          b = b_note (''a wait may return without the condition holding: the standard permits a '' @
                      ''spurious wake-up, and a broadcast wakes every waiter while only one may '' @
                      ''proceed'') b;
          b = b_note (''wrap the wait in a loop that rechecks the condition, or pass a predicate '' @
                      ''to the wait itself'') b;
          b = b_taxonomy ''CERT'' ''CON36-C'' ''Wrap functions that can spuriously wake up in a loop'' b;
          b = (if cw_viaHelper w
               then b_relatedLocation ''Wait performed here'' (cw_loweredLocation w)
                      (b_note (''the wait is performed by a helper called from here; a helper cannot '' @
                               ''recheck a condition it does not know, so the loop belongs at this '' @
                               ''call site'') b)
               else b);
          b = b_property ''viaHelper'' (PropBool (cw_viaHelper w)) b
      in b_property ''function'' (PropString (cw_functionId w)) b)"

definition conditionWaitRun :: "TUFacts \<Rightarrow> DiagnosticReport" where
  "conditionWaitRun facts =
     fold (\<lambda>w report. emit report (conditionWaitDiagnostic w)) (tu_conditionWaits facts) empty_report"

section \<open>Processes, thread arguments and handlers\<close>

definition forkAfterThreadDiagnostic :: "ProcessForkFact \<Rightarrow> Diagnostic" where
  "forkAfterThreadDiagnostic fork =
     (let b = builder ForkAfterThreadCreation;
          b = b_primaryLocation (pf_location fork) b;
          b = b_message ''fork in a program that creates threads, with no exec in the child'' b;
          b = b_note (''only the calling thread survives a fork, but the whole address space '' @
                      ''is inherited: a mutex another thread held is copied locked, and '' @
                      ''nothing will ever unlock it'') b;
          b = b_note (''POSIX limits the child to async-signal-safe calls until it execs, '' @
                      ''which excludes locking, allocating and starting threads'') b;
          b = b_note ''either exec in the child, or fork before any thread is created'' b;
          b = b_note (''the program creates threads and this fork reaches no exec; that the '' @
                      ''creation runs first is not proven here'') b;
          b = b_taxonomy ''CERT'' ''POS33-C'' ''Do not use vfork()'' b
      in b_property ''function'' (PropString (pf_functionId fork)) b)"

definition unreapedChildDiagnostic :: "ProcessForkFact \<Rightarrow> Diagnostic" where
  "unreapedChildDiagnostic fork =
     (let b = builder UnreapedChildProcess;
          b = b_primaryLocation (pf_location fork) b;
          b = b_message ''child process is never collected'' b;
          b = b_note (''the program forks but never calls wait, waitpid or waitid: every '' @
                      ''terminated child stays in the process table as a zombie'') b;
          b = b_note (''keep the pid the fork returns and wait on it, or arrange for the '' @
                      ''system to reap children'') b;
          b = b_note (''no wait and no SIGCHLD=SIG_IGN appears anywhere in the program; '' @
                      ''which pid a given wait collects is not tracked'') b
      in b_property ''function'' (PropString (pf_functionId fork)) b)"

definition escapeDiagnostic :: "ThreadArgumentEscapeFact \<Rightarrow> Diagnostic" where
  "escapeDiagnostic escape =
     (let b = builder ThreadArgumentEscapesFrame;
          b = b_primaryLocation (ae_location escape) b;
          b = b_message ''thread is given a pointer into the frame that created it'' b;
          b = b_note (''the argument is a local variable of this function, and no join stands '' @
                      ''between the creation and every way out: the frame is gone while the '' @
                      ''thread still reads it'') b;
          b = b_note (''either join before returning, or give the thread storage that outlives '' @
                      ''the call'') b;
          b = b_taxonomy ''CERT'' ''DCL30-C'' ''Declare objects with appropriate storage durations'' b;
          b = b_property ''function'' (PropString (ae_functionId escape)) b
      in if ae_entryFunctionId escape \<noteq> []
         then b_property ''entry'' (PropString (ae_entryFunctionId escape)) b else b)"

definition freedDiagnostic :: "ThreadArgumentFreeFact \<Rightarrow> Diagnostic" where
  "freedDiagnostic freed =
     (let b = builder ThreadArgumentFreedEarly;
          b = b_primaryLocation (fr_freeLocation freed) b;
          b = b_message ''memory handed to a thread is freed before the thread is joined'' b;
          b = b_note (''the thread may still be reading it: nothing orders the thread's use '' @
                      ''before this free'') b;
          b = b_note (''join the thread before freeing, or let the thread free what it was '' @
                      ''given'') b;
          b = b_relatedLocation ''Thread given the memory'' (fr_creationLocation freed) b;
          b = b_taxonomy ''CERT'' ''MEM30-C'' ''Do not access freed memory'' b;
          b = b_property ''function'' (PropString (fr_functionId freed)) b
      in if fr_entryFunctionId freed \<noteq> []
         then b_property ''entry'' (PropString (fr_entryFunctionId freed)) b else b)"

definition expiredDiagnostic :: "ExpiredThreadLocalFact \<Rightarrow> Diagnostic" where
  "expiredDiagnostic expired =
     (let b = builder ThreadLocalOutlivesThread;
          b = b_primaryLocation (ex_useLocation expired) b;
          b = b_message (''thread-local '' @ [CHR 0x27] @ ex_threadLocal expired @ [CHR 0x27] @
                         '' is used after its thread has ended'') b;
          b = b_note (''its thread published the address in '' @ [CHR 0x27] @ ex_pointer expired @
                      [CHR 0x27] @ '' and has been joined: a thread's thread-local objects end with it'') b;
          b = b_note (''copy the value out before the thread ends, or give it storage that '' @
                      ''outlives the thread'') b;
          b = b_relatedLocation ''Address published by the thread'' (ex_publishLocation expired) b;
          b = b_taxonomy ''CERT'' ''DCL30-C'' ''Declare objects with appropriate storage durations'' b;
          b = b_property ''function'' (PropString (ex_functionId expired)) b;
          b = b_property ''entry'' (PropString (ex_entryFunctionId expired)) b;
          b = b_property ''threadLocal'' (PropString (ex_threadLocal expired)) b
      in b_property ''pointer'' (PropString (ex_pointer expired)) b)"

definition signalHandlerDiagnostic :: "SignalHandlerFact \<Rightarrow> Diagnostic" where
  "signalHandlerDiagnostic handler =
     (let b = builder UnsafeSignalHandler;
          b = b_primaryLocation (sh_location handler) b;
          b = b_message ''signal handler reaches a call it may not make'' b;
          b = b_note (''a handler interrupts its own thread at an arbitrary instruction, so it '' @
                      ''may run while the interrupted code is halfway through a structure: '' @
                      ''allocating, printing or locking there re-enters it'') b;
          b = b_note (''set a flag of type volatile sig_atomic_t and act on it outside the '' @
                      ''handler'') b;
          b = b_relatedLocation ''Unsafe call reached from the handler'' (sh_unsafeCallLocation handler) b;
          b = b_taxonomy ''CERT'' ''SIG30-C''
                ''Call only asynchronous-safe functions within signal handlers'' b
      in b_property ''handler'' (PropString (sh_handlerFunctionId handler)) b)"

definition checkFork :: "TUFacts \<Rightarrow> ProcessForkFact \<Rightarrow> DiagnosticReport \<Rightarrow> DiagnosticReport" where
  "checkFork facts fork report =
     (if pf_execReachable fork then report
      else
        (let report = (if tu_programCreatesThreads facts
                       then emit report (forkAfterThreadDiagnostic fork) else report)
         in if \<not> tu_reapsChildProcesses facts
            then emit report (unreapedChildDiagnostic fork) else report))"

definition emitAll :: "('f \<Rightarrow> Diagnostic) \<Rightarrow> 'f list \<Rightarrow> DiagnosticReport \<Rightarrow> DiagnosticReport" where
  "emitAll diagnostic fs report = fold (\<lambda>f report. emit report (diagnostic f)) fs report"

definition processLifecycleRun :: "TUFacts \<Rightarrow> DiagnosticReport" where
  "processLifecycleRun facts =
     (let report = fold (checkFork facts) (tu_processForks facts) empty_report;
          report = emitAll escapeDiagnostic (tu_threadArgumentEscapes facts) report;
          report = emitAll freedDiagnostic (tu_threadArgumentFrees facts) report;
          report = emitAll expiredDiagnostic (tu_expiredThreadLocals facts) report
      in emitAll signalHandlerDiagnostic (tu_signalHandlers facts) report)"

section \<open>Weak publications\<close>

definition joinSymbols :: "string list \<Rightarrow> string" where
  "joinSymbols symbols =
     [CHR 0x27] @
     fold (\<lambda>symbol joined. (if joined \<noteq> [] then joined @ [CHR 0x27] @ '', '' @ [CHR 0x27] else joined) @ symbol)
       symbols [] @ [CHR 0x27]"

definition publicationDiagnostic :: "WeakPublicationFact \<Rightarrow> Diagnostic" where
  "publicationDiagnostic p =
     (let b = builder WeakPublicationOrdering;
          b = b_message (''atomic flag '' @ [CHR 0x27] @ wp_flag p @ [CHR 0x27] @ '' publishes '' @
                         joinSymbols (wp_data p) @ '' without release/acquire ordering'') b;
          b = (if \<not> wp_storeReleases p
               then b_relatedLocation ''Load that observes the flag'' (wp_loadLocation p)
                      (b_note (''the store to the flag does not release: nothing orders the writes '' @
                               ''before it ahead of a reader that sees the flag set'')
                        (b_primaryLocation (wp_storeLocation p) b))
               else b_relatedLocation ''Store that publishes'' (wp_storeLocation p)
                      (b_note (''the load that observes the flag does not acquire: nothing orders the '' @
                               ''reads after it behind the writes that preceded the store'')
                        (b_primaryLocation (wp_loadLocation p) b)));
          b = (if \<not> wp_storeReleases p \<and> \<not> wp_loadAcquires p
               then b_note ''the load that observes the flag does not acquire either'' b else b);
          b = b_note (''store the flag with memory_order_release and load it with '' @
                      ''memory_order_acquire, or use the default sequentially consistent order'') b;
          b = b_property ''flag'' (PropString (wp_flag p)) b;
          b = b_property ''data'' (PropStrings (wp_data p)) b;
          b = b_property ''storeReleases'' (PropBool (wp_storeReleases p)) b
      in b_property ''loadAcquires'' (PropBool (wp_loadAcquires p)) b)"

definition publicationsOverlap :: "TUFacts \<Rightarrow> WeakPublicationFact \<Rightarrow> bool" where
  "publicationsOverlap facts p \<longleftrightarrow>
     (case (map_of (tu_reachableThreadEntriesByFunction facts) (wp_publisherFunctionId p),
            map_of (tu_reachableThreadEntriesByFunction facts) (wp_readerFunctionId p)) of
        (Some publisherEntries, Some readerEntries) \<Rightarrow>
          mayRunConcurrently publisherEntries readerEntries facts
      | _ \<Rightarrow> False)"

definition publicationOrderingRun :: "TUFacts \<Rightarrow> DiagnosticReport" where
  "publicationOrderingRun facts =
     fold (\<lambda>p report. if \<not> publicationsOverlap facts p then report
                      else emit report (publicationDiagnostic p))
       (tu_weakPublications facts) empty_report"

section \<open>What they report\<close>

lemma emitAll_simps [simp]:
  "rp_diagnostics (emitAll f xs report) = rp_diagnostics report @ map f xs"
  "rp_notices (emitAll f xs report) = rp_notices report"
  unfolding emitAll_def by (induction xs arbitrary: report) simp_all

lemma conditionWaitRun_emitAll: "conditionWaitRun facts = emitAll conditionWaitDiagnostic (tu_conditionWaits facts) empty_report"
  by (simp add: conditionWaitRun_def emitAll_def)

lemma publicationOrderingRun_emitAll:
  "publicationOrderingRun facts =
     emitAll publicationDiagnostic (filter (publicationsOverlap facts) (tu_weakPublications facts)) empty_report"
proof -
  have "fold (\<lambda>p report. if \<not> publicationsOverlap facts p then report else emit report (publicationDiagnostic p)) ps r =
      emitAll publicationDiagnostic (filter (publicationsOverlap facts) ps) r" for ps r
    unfolding emitAll_def by (induction ps arbitrary: r) simp_all
  then show ?thesis by (simp add: publicationOrderingRun_def)
qed

definition forkDiagnostics :: "TUFacts \<Rightarrow> ProcessForkFact \<Rightarrow> Diagnostic list" where
  "forkDiagnostics facts fork =
     (if pf_execReachable fork then []
      else (if tu_programCreatesThreads facts then [forkAfterThreadDiagnostic fork] else []) @
           (if tu_reapsChildProcesses facts then [] else [unreapedChildDiagnostic fork]))"

lemma checkForks:
  "rp_diagnostics (fold (checkFork facts) fs r) = rp_diagnostics r @ concat (map (forkDiagnostics facts) fs)"
  "rp_notices (fold (checkFork facts) fs r) = rp_notices r"
  by (induction fs arbitrary: r) (auto simp: checkFork_def forkDiagnostics_def Let_def)

lemma processLifecycleRun_result:
  "rp_diagnostics (processLifecycleRun facts) =
     concat (map (forkDiagnostics facts) (tu_processForks facts)) @
     map escapeDiagnostic (tu_threadArgumentEscapes facts) @
     map freedDiagnostic (tu_threadArgumentFrees facts) @
     map expiredDiagnostic (tu_expiredThreadLocals facts) @
     map signalHandlerDiagnostic (tu_signalHandlers facts)"
  "rp_notices (processLifecycleRun facts) = []"
  by (simp_all add: processLifecycleRun_def Let_def checkForks)

text \<open>The rule and the severity of each diagnostic.\<close>

named_theorems checker_defs "the diagnostics of the checkers, to be unfolded"

lemmas [checker_defs] = conditionWaitDiagnostic_def forkAfterThreadDiagnostic_def unreapedChildDiagnostic_def
  escapeDiagnostic_def freedDiagnostic_def expiredDiagnostic_def signalHandlerDiagnostic_def
  publicationDiagnostic_def

lemma checker_rules [simp]:
  "d_ruleId (conditionWaitDiagnostic w) = ConditionWaitWithoutPredicate"
  "d_ruleId (forkAfterThreadDiagnostic f) = ForkAfterThreadCreation"
  "d_ruleId (unreapedChildDiagnostic f) = UnreapedChildProcess"
  "d_ruleId (escapeDiagnostic e) = ThreadArgumentEscapesFrame"
  "d_ruleId (freedDiagnostic fr) = ThreadArgumentFreedEarly"
  "d_ruleId (expiredDiagnostic ex) = ThreadLocalOutlivesThread"
  "d_ruleId (signalHandlerDiagnostic h) = UnsafeSignalHandler"
  "d_ruleId (publicationDiagnostic p) = WeakPublicationOrdering"
  by (simp_all add: checker_defs Let_def)

lemma checker_severities [simp]:
  "d_severity (conditionWaitDiagnostic w) = rm_defaultSeverity (lookupRuleMetadata ConditionWaitWithoutPredicate)"
  "d_severity (forkAfterThreadDiagnostic f) = rm_defaultSeverity (lookupRuleMetadata ForkAfterThreadCreation)"
  "d_severity (unreapedChildDiagnostic f) = rm_defaultSeverity (lookupRuleMetadata UnreapedChildProcess)"
  "d_severity (escapeDiagnostic e) = rm_defaultSeverity (lookupRuleMetadata ThreadArgumentEscapesFrame)"
  "d_severity (freedDiagnostic fr) = rm_defaultSeverity (lookupRuleMetadata ThreadArgumentFreedEarly)"
  "d_severity (expiredDiagnostic ex) = rm_defaultSeverity (lookupRuleMetadata ThreadLocalOutlivesThread)"
  "d_severity (signalHandlerDiagnostic h) = rm_defaultSeverity (lookupRuleMetadata UnsafeSignalHandler)"
  "d_severity (publicationDiagnostic p) = rm_defaultSeverity (lookupRuleMetadata WeakPublicationOrdering)"
  by (simp_all add: checker_defs Let_def)

definition processRules :: "RuleId set" where
  "processRules = {ForkAfterThreadCreation, UnreapedChildProcess, ThreadArgumentEscapesFrame,
     ThreadArgumentFreedEarly, ThreadLocalOutlivesThread, UnsafeSignalHandler}"

interpretation cw: rule_checker conditionWaitRun "{ConditionWaitWithoutPredicate}"
  by unfold_locales (auto simp: conditionWaitRun_emitAll well_formed_diagnostic_def)

interpretation po: rule_checker publicationOrderingRun "{WeakPublicationOrdering}"
  by unfold_locales (auto simp: publicationOrderingRun_emitAll well_formed_diagnostic_def)

interpretation pl: rule_checker processLifecycleRun processRules
  by unfold_locales
    (auto simp: processLifecycleRun_result forkDiagnostics_def processRules_def well_formed_diagnostic_def split: if_splits)

text \<open>
  A fork is reported by the process checker exactly as its guards say: never when an exec follows
  it, as unsafe exactly when the program creates threads, and as unreaped exactly when the program
  never collects its children; the two findings do not mask each other.
\<close>
theorem fork_reports:
  "filter (\<lambda>d. d_ruleId d = ForkAfterThreadCreation) (rp_diagnostics (processLifecycleRun facts)) =
     (if tu_programCreatesThreads facts
      then map forkAfterThreadDiagnostic (filter (\<lambda>f. \<not> pf_execReachable f) (tu_processForks facts)) else []) \<and>
   filter (\<lambda>d. d_ruleId d = UnreapedChildProcess) (rp_diagnostics (processLifecycleRun facts)) =
     (if tu_reapsChildProcesses facts then []
      else map unreapedChildDiagnostic (filter (\<lambda>f. \<not> pf_execReachable f) (tu_processForks facts)))"
proof -
  have fork: "filter (\<lambda>d. d_ruleId d = ForkAfterThreadCreation) (concat (map (forkDiagnostics facts) fs)) =
      (if tu_programCreatesThreads facts then map forkAfterThreadDiagnostic (filter (\<lambda>f. \<not> pf_execReachable f) fs) else [])"
    and reap: "filter (\<lambda>d. d_ruleId d = UnreapedChildProcess) (concat (map (forkDiagnostics facts) fs)) =
      (if tu_reapsChildProcesses facts then [] else map unreapedChildDiagnostic (filter (\<lambda>f. \<not> pf_execReachable f) fs))" for fs
    by (induction fs) (auto simp: forkDiagnostics_def)
  show ?thesis by (simp add: processLifecycleRun_result fork reap filter_map comp_def)
qed

text \<open>
  A weak publication is reported exactly when both its functions are reachable from thread
  entries that may run at the same time; the diagnostic sits at the store when the store does not
  release, and at the load otherwise.
\<close>
theorem publication_reports:
  "rp_diagnostics (publicationOrderingRun facts) =
     map publicationDiagnostic (filter (publicationsOverlap facts) (tu_weakPublications facts)) \<and>
   map d_location (rp_diagnostics (publicationOrderingRun facts)) =
     map (\<lambda>p. if wp_storeReleases p then wp_loadLocation p else wp_storeLocation p)
       (filter (publicationsOverlap facts) (tu_weakPublications facts))"
  by (simp add: publicationOrderingRun_emitAll publicationDiagnostic_def Let_def)

end
