(* ===== verification/Report_Builder.thy ===== *)
theory Report_Builder
  imports Facts "HOL-Library.Multiset"
begin

text \<open>
  The report builder (\<open>analysis/report_builder.cpp\<close>): severity counts, function summaries, and the
  order and ids of the diagnostics. \<open>std::sort\<close> is modelled by \<open>sort_key\<close>, one of the orders it may
  leave; the theorems use only that the result is a sorted permutation.
\<close>

section \<open>Function summaries\<close>

type_synonym function_map = "(string \<times> FunctionSummary) list"

definition summaryOr :: "FunctionSummary option \<Rightarrow> FunctionSummary" where
  "summaryOr s = (case s of None \<Rightarrow> empty_function_summary | Some s \<Rightarrow> s)"

definition diagnosticKeyOf :: "SourceLocation \<Rightarrow> string" where
  "diagnosticKeyOf location = (if sl_function location \<noteq> [] then sl_function location else sl_file location)"

definition fillDiagnosticSummary :: "SourceLocation \<Rightarrow> FunctionSummary \<Rightarrow> FunctionSummary" where
  "fillDiagnosticSummary location summary =
     (let s = (if fs_name summary = []
               then summary\<lparr>fs_name := (if sl_function location = [] then diagnosticKeyOf location
                                         else sl_function location)\<rparr>
               else summary)
      in if fs_file s = [] then s\<lparr>fs_file := sl_file location\<rparr> else s)"

definition ensureDiagnosticSummary ::
  "(FunctionSummary \<Rightarrow> FunctionSummary) \<Rightarrow> SourceLocation \<Rightarrow> function_map \<Rightarrow> function_map" where
  "ensureDiagnosticSummary change location =
     omap_update (diagnosticKeyOf location) (\<lambda>s. change (fillDiagnosticSummary location (summaryOr s)))"

definition markDiagnosticFunctions :: "Diagnostic \<Rightarrow> function_map \<Rightarrow> function_map" where
  "markDiagnosticFunctions d functions =
     (let mark = ensureDiagnosticSummary (\<lambda>s. s\<lparr>fs_hasDiagnostics := True\<rparr>);
          functions = (if sl_function (d_location d) \<noteq> [] then mark (d_location d) functions else functions)
      in fold (\<lambda>related functions.
             if sl_function (rl_location related) = [] then functions
             else mark (rl_location related) functions)
           (d_relatedLocations d) functions)"

definition countSeverity :: "Diagnostic \<Rightarrow> DiagnosticSummary \<Rightarrow> DiagnosticSummary" where
  "countSeverity d summary =
     (case d_severity d of
        Sev_Info \<Rightarrow> summary\<lparr>ds_info := ds_info summary + 1\<rparr>
      | Sev_Warning \<Rightarrow> summary\<lparr>ds_warning := ds_warning summary + 1\<rparr>
      | Sev_Error \<Rightarrow> summary\<lparr>ds_error := ds_error summary + 1\<rparr>)"

definition computeSummary :: "Diagnostic list \<Rightarrow> DiagnosticSummary" where
  "computeSummary diagnostics = fold countSeverity diagnostics no_summary"

definition ensureSummary :: "string \<Rightarrow> FunctionSummary option \<Rightarrow> FunctionSummary" where
  "ensureSummary functionId s =
     (let summary = summaryOr s
      in if fs_name summary = [] then summary\<lparr>fs_name := functionId\<rparr> else summary)"

definition value_or0 :: "nat option \<Rightarrow> nat" where
  "value_or0 n = (case n of None \<Rightarrow> 0 | Some n \<Rightarrow> n)"

definition nameAndFile :: "SourceLocation \<Rightarrow> FunctionSummary \<Rightarrow> FunctionSummary" where
  "nameAndFile location s =
     (let s = (if sl_function location \<noteq> [] then s\<lparr>fs_name := sl_function location\<rparr> else s)
      in if fs_file s = [] \<and> sl_file location \<noteq> [] then s\<lparr>fs_file := sl_file location\<rparr> else s)"

definition countAccess :: "AccessFact \<Rightarrow> FunctionSummary option \<Rightarrow> FunctionSummary" where
  "countAccess access s =
     (let s = nameAndFile (ac_userLocation access) (ensureSummary (ac_functionId access) s);
          s = s\<lparr>fs_sharedAccessCount := Some (value_or0 (fs_sharedAccessCount s) + 1)\<rparr>;
          s = (if ac_heldLocks access \<noteq> {}
               then s\<lparr>fs_protectedAccessCount := Some (value_or0 (fs_protectedAccessCount s) + 1)\<rparr> else s)
      in if ac_kind access = AK_Write
         then s\<lparr>fs_writeAccessCount := Some (value_or0 (fs_writeAccessCount s) + 1)\<rparr> else s)"

definition countLockOrder :: "LockOrderFact \<Rightarrow> FunctionSummary option \<Rightarrow> FunctionSummary" where
  "countLockOrder lockOrder s =
     nameAndFile (lo_location lockOrder) (ensureSummary (lo_functionId lockOrder) s)"

definition markReachable :: "string \<times> entry_set \<Rightarrow> FunctionSummary option \<Rightarrow> FunctionSummary" where
  "markReachable fe s =
     (ensureSummary (fst fe) s)\<lparr>fs_threadReachable := True, fs_threadEntries := sortedThreadEntries (snd fe)\<rparr>"

definition fillCounts :: "FunctionSummary \<Rightarrow> FunctionSummary" where
  "fillCounts s =
     s\<lparr>fs_sharedAccessCount := Some (value_or0 (fs_sharedAccessCount s)),
       fs_protectedAccessCount := Some (value_or0 (fs_protectedAccessCount s)),
       fs_writeAccessCount := Some (value_or0 (fs_writeAccessCount s))\<rparr>"

definition functionMap :: "TUFacts \<Rightarrow> Diagnostic list \<Rightarrow> function_map" where
  "functionMap facts diagnostics =
     (let functions = fold (\<lambda>a. omap_update (ac_functionId a) (countAccess a)) (tu_accesses facts) [];
          functions = fold (\<lambda>l. omap_update (lo_functionId l) (countLockOrder l)) (tu_lockOrders facts) functions;
          functions = fold (\<lambda>fe. omap_update (fst fe) (markReachable fe))
                        (tu_reachableThreadEntriesByFunction facts) functions
      in fold markDiagnosticFunctions diagnostics functions)"

definition buildFunctionSummaries :: "TUFacts \<Rightarrow> Diagnostic list \<Rightarrow> bool \<Rightarrow> FunctionSummary list" where
  "buildFunctionSummaries facts diagnostics accessesWereComputed =
     (let functions = functionMap facts diagnostics;
          functions = (if accessesWereComputed
                       then map (\<lambda>(key, summary). (key, fillCounts summary)) functions else functions)
      in sort_key (\<lambda>s. (fs_name s, fs_file s)) (map snd functions))"

section \<open>Order and ids\<close>

definition diagnosticOrder :: "Diagnostic \<Rightarrow> RuleId \<times> string \<times> nat \<times> nat \<times> string" where
  "diagnosticOrder d =
     (d_ruleId d, sl_file (d_location d), sl_line (d_location d), sl_column (d_location d), d_message d)"

definition numberDiagnostics :: "Diagnostic list \<Rightarrow> Diagnostic list" where
  "numberDiagnostics ds = map (\<lambda>(index, d). d\<lparr>d_id := ''diag-'' @ to_string_nat (index + 1)\<rparr>) (enumerate 0 ds)"

definition finalizeReport :: "DiagnosticReport \<Rightarrow> TUFacts \<Rightarrow> bool \<Rightarrow> DiagnosticReport" where
  "finalizeReport report facts accessesWereComputed =
     (let diagnostics = numberDiagnostics (sort_key diagnosticOrder (rp_diagnostics report))
      in report\<lparr>rp_diagnostics := diagnostics,
                rp_functions := buildFunctionSummaries facts diagnostics accessesWereComputed,
                rp_diagnosticsSummary := computeSummary diagnostics\<rparr>)"

section \<open>Properties\<close>

lemma numberDiagnostics_unnumbered:
  "map (\<lambda>d. d\<lparr>d_id := x\<rparr>) (numberDiagnostics ds) = map (\<lambda>d. d\<lparr>d_id := x\<rparr>) ds"
  by (rule nth_equalityI) (simp_all add: numberDiagnostics_def nth_enumerate_eq)

lemma numberDiagnostics_ids:
  "map d_id (numberDiagnostics ds) = map (\<lambda>n. ''diag-'' @ to_string_nat (Suc n)) [0 ..< length ds]"
  by (rule nth_equalityI) (simp_all add: numberDiagnostics_def nth_enumerate_eq)

lemma numberDiagnostics_order: "map diagnosticOrder (numberDiagnostics ds) = map diagnosticOrder ds"
  by (rule nth_equalityI) (simp_all add: numberDiagnostics_def nth_enumerate_eq diagnosticOrder_def)

text \<open>
  Finalizing a report keeps its diagnostics: up to their ids they are the same ones with the same
  multiplicities, ordered by rule, file, line, column and message, and the n-th has the id
  \<open>diag-n\<close>, so no two share an id.
\<close>
theorem finalizeReport_diagnostics:
  "mset (map (\<lambda>d. d\<lparr>d_id := []\<rparr>) (rp_diagnostics (finalizeReport report facts b))) =
     mset (map (\<lambda>d. d\<lparr>d_id := []\<rparr>) (rp_diagnostics report)) \<and>
   sorted (map diagnosticOrder (rp_diagnostics (finalizeReport report facts b))) \<and>
   map d_id (rp_diagnostics (finalizeReport report facts b)) =
     map (\<lambda>n. ''diag-'' @ to_string_nat (Suc n)) [0 ..< length (rp_diagnostics report)] \<and>
   distinct (map d_id (rp_diagnostics (finalizeReport report facts b)))"
  by (simp add: finalizeReport_def Let_def numberDiagnostics_unnumbered numberDiagnostics_ids
      numberDiagnostics_order distinct_map inj_on_def del: mset_map)
    (simp add: mset_map)

lemma computeSummary_counts:
  "ds_info (fold countSeverity ds s) = ds_info s + length (filter (\<lambda>d. d_severity d = Sev_Info) ds)"
  "ds_warning (fold countSeverity ds s) = ds_warning s + length (filter (\<lambda>d. d_severity d = Sev_Warning) ds)"
  "ds_error (fold countSeverity ds s) = ds_error s + length (filter (\<lambda>d. d_severity d = Sev_Error) ds)"
  by (induction ds arbitrary: s) (simp_all add: countSeverity_def split: Severity.split)

lemma severities_partition:
  "length (filter (\<lambda>d. d_severity d = Sev_Info) ds) + length (filter (\<lambda>d. d_severity d = Sev_Warning) ds) +
     length (filter (\<lambda>d. d_severity d = Sev_Error) ds) = length ds"
proof (induction ds)
  case (Cons d ds)
  then show ?case by (cases "d_severity d") simp_all
qed simp

text \<open>
  The counts of a finalized report count its diagnostics: each severity has as many as the
  report holds of it, and together they are all of them.
\<close>
theorem finalizeReport_counts:
  "let r = finalizeReport report facts b; s = rp_diagnosticsSummary r in
     ds_info s = length (filter (\<lambda>d. d_severity d = Sev_Info) (rp_diagnostics r)) \<and>
     ds_warning s = length (filter (\<lambda>d. d_severity d = Sev_Warning) (rp_diagnostics r)) \<and>
     ds_error s = length (filter (\<lambda>d. d_severity d = Sev_Error) (rp_diagnostics r)) \<and>
     ds_info s + ds_warning s + ds_error s = length (rp_diagnostics report)"
proof -
  have "length (rp_diagnostics (finalizeReport report facts b)) = length (rp_diagnostics report)"
    by (simp add: finalizeReport_def Let_def numberDiagnostics_def)
  then show ?thesis
    using severities_partition [of "rp_diagnostics (finalizeReport report facts b)"]
    by (simp add: finalizeReport_def Let_def computeSummary_def computeSummary_counts no_summary_def)
qed

text \<open>A quantity summed over the entries of a map, and what one update adds to it.\<close>

definition summed :: "('v \<Rightarrow> nat) \<Rightarrow> ('k \<times> 'v) list \<Rightarrow> nat" where
  "summed q m = sum_list (map (\<lambda>kv. q (snd kv)) m)"

lemma summed_omap_update:
  assumes "\<And>r. q (f r) = (case r of None \<Rightarrow> 0 | Some v \<Rightarrow> q v) + n"
  shows "summed q (omap_update k f m) = summed q m + n"
  by (induction m) (auto simp: summed_def assms)

lemma summed_fold:
  assumes "\<And>x r. q (f x r) = (case r of None \<Rightarrow> 0 | Some v \<Rightarrow> q v) + n x"
  shows "summed q (fold (\<lambda>x. omap_update (key x) (f x)) xs m) = summed q m + sum_list (map n xs)"
  by (induction xs arbitrary: m) (simp_all add: summed_omap_update [OF assms])

lemma nameAndFile_counts [simp]:
  "fs_sharedAccessCount (nameAndFile l s) = fs_sharedAccessCount s"
  "fs_protectedAccessCount (nameAndFile l s) = fs_protectedAccessCount s"
  "fs_writeAccessCount (nameAndFile l s) = fs_writeAccessCount s"
  by (simp_all add: nameAndFile_def Let_def)

lemma ensureSummary_counts [simp]:
  "fs_sharedAccessCount (ensureSummary f s) = fs_sharedAccessCount (summaryOr s)"
  "fs_protectedAccessCount (ensureSummary f s) = fs_protectedAccessCount (summaryOr s)"
  "fs_writeAccessCount (ensureSummary f s) = fs_writeAccessCount (summaryOr s)"
  by (simp_all add: ensureSummary_def Let_def)

lemma fillDiagnosticSummary_counts [simp]:
  "fs_sharedAccessCount (fillDiagnosticSummary l s) = fs_sharedAccessCount s"
  "fs_protectedAccessCount (fillDiagnosticSummary l s) = fs_protectedAccessCount s"
  "fs_writeAccessCount (fillDiagnosticSummary l s) = fs_writeAccessCount s"
  by (simp_all add: fillDiagnosticSummary_def Let_def)

lemma summaryOr_counts:
  "value_or0 (fs_sharedAccessCount (summaryOr s)) = (case s of None \<Rightarrow> 0 | Some v \<Rightarrow> value_or0 (fs_sharedAccessCount v))"
  "value_or0 (fs_protectedAccessCount (summaryOr s)) = (case s of None \<Rightarrow> 0 | Some v \<Rightarrow> value_or0 (fs_protectedAccessCount v))"
  "value_or0 (fs_writeAccessCount (summaryOr s)) = (case s of None \<Rightarrow> 0 | Some v \<Rightarrow> value_or0 (fs_writeAccessCount v))"
  by (simp_all add: summaryOr_def empty_function_summary_def value_or0_def split: option.split)

lemma value_or0_Some [simp]: "value_or0 (Some n) = n"
  by (simp add: value_or0_def)

lemma summed_markDiagnosticFunctions:
  assumes "\<And>l r. q ((fillDiagnosticSummary l (summaryOr r))\<lparr>fs_hasDiagnostics := True\<rparr>) = (case r of None \<Rightarrow> 0 | Some v \<Rightarrow> q v)"
  shows "summed q (markDiagnosticFunctions d m) = summed q m"
proof -
  have mark: "summed q (ensureDiagnosticSummary (\<lambda>s. s\<lparr>fs_hasDiagnostics := True\<rparr>) l m) = summed q m" for l m
    unfolding ensureDiagnosticSummary_def by (subst summed_omap_update [where n = 0]) (simp_all add: assms)
  have "summed q (fold (\<lambda>related m. if sl_function (rl_location related) = [] then m
      else ensureDiagnosticSummary (\<lambda>s. s\<lparr>fs_hasDiagnostics := True\<rparr>) (rl_location related) m) rs m) = summed q m" for rs :: "RelatedLocation list" and m
    by (induction rs arbitrary: m) (simp_all add: mark)
  then show ?thesis by (simp add: markDiagnosticFunctions_def Let_def mark)
qed

text \<open>
  The loops after the accesses create entries but change no count, so a count summed over the
  functions is the number of accesses it counts.
\<close>

lemma summed_functionMap:
  assumes access: "\<And>a r. q (countAccess a r) = (case r of None \<Rightarrow> 0 | Some v \<Rightarrow> q v) + n a"
    and others: "\<And>l r. q (countLockOrder l r) = (case r of None \<Rightarrow> 0 | Some v \<Rightarrow> q v)"
      "\<And>fe r. q (markReachable fe r) = (case r of None \<Rightarrow> 0 | Some v \<Rightarrow> q v)"
      "\<And>l r. q ((fillDiagnosticSummary l (summaryOr r))\<lparr>fs_hasDiagnostics := True\<rparr>) = (case r of None \<Rightarrow> 0 | Some v \<Rightarrow> q v)"
  shows "summed q (functionMap facts ds) = sum_list (map n (tu_accesses facts))"
proof -
  have "summed q (fold markDiagnosticFunctions ds m) = summed q m" for m
    by (induction ds arbitrary: m) (simp_all add: summed_markDiagnosticFunctions [OF others(3)])
  then show ?thesis
    using summed_fold [of q countAccess n ac_functionId, OF access]
      summed_fold [of q countLockOrder "\<lambda>_. 0" lo_functionId] summed_fold [of q markReachable "\<lambda>_. 0" fst] others(1,2)
    by (simp add: functionMap_def Let_def, simp add: summed_def)
qed

lemma summed_summaries:
  assumes "\<And>s. q (fillCounts s) = q s"
  shows "sum_list (map q (buildFunctionSummaries facts ds b)) = summed q (functionMap facts ds)"
proof -
  have perm: "sum_list (map q (sort_key k xs)) = sum_list (map q xs)" for k :: "FunctionSummary \<Rightarrow> string \<times> string" and xs
    by (metis mset_map mset_sort sum_mset_sum_list)
  show ?thesis
    by (simp add: buildFunctionSummaries_def Let_def perm summed_def comp_def case_prod_beta assms)
qed

text \<open>
  No access is lost or counted twice between the facts and the function summaries: summed over
  the functions, the shared, protected and written counts are the numbers of accesses, of accesses
  under a lock, and of writes.
\<close>
theorem function_summaries_conserve_accesses:
  "let functions = buildFunctionSummaries facts diagnostics b; accesses = tu_accesses facts in
     sum_list (map (\<lambda>s. value_or0 (fs_sharedAccessCount s)) functions) = length accesses \<and>
     sum_list (map (\<lambda>s. value_or0 (fs_protectedAccessCount s)) functions) =
       length (filter (\<lambda>a. ac_heldLocks a \<noteq> {}) accesses) \<and>
     sum_list (map (\<lambda>s. value_or0 (fs_writeAccessCount s)) functions) =
       length (filter (\<lambda>a. ac_kind a = AK_Write) accesses)"
proof -
  have count: "sum_list (map (\<lambda>a. if P a then 1 else 0) as) = length (filter P as)" for P and as :: "AccessFact list"
    by (induction as) simp_all
  note defs = countAccess_def countLockOrder_def markReachable_def fillCounts_def Let_def summaryOr_counts
  have "sum_list (map (\<lambda>s. value_or0 (fs_sharedAccessCount s)) (buildFunctionSummaries facts diagnostics b)) =
      sum_list (map (\<lambda>a. 1) (tu_accesses facts))"
    by (subst summed_summaries, simp add: defs, rule summed_functionMap) (simp_all add: defs)
  moreover have "sum_list (map (\<lambda>s. value_or0 (fs_protectedAccessCount s)) (buildFunctionSummaries facts diagnostics b)) =
      sum_list (map (\<lambda>a. if ac_heldLocks a \<noteq> {} then 1 else 0) (tu_accesses facts))"
    by (subst summed_summaries, simp add: defs, rule summed_functionMap) (simp_all add: defs)
  moreover have "sum_list (map (\<lambda>s. value_or0 (fs_writeAccessCount s)) (buildFunctionSummaries facts diagnostics b)) =
      sum_list (map (\<lambda>a. if ac_kind a = AK_Write then 1 else 0) (tu_accesses facts))"
    by (subst summed_summaries, simp add: defs, rule summed_functionMap) (simp_all add: defs)
  ultimately show ?thesis by (simp only: Let_def count) (simp add: sum_list_triv)
qed

end
