(* ===== verification/Fact_Selection.thy ===== *)
theory Fact_Selection
  imports Data_Race Lock_Order Missing_Join Process_Checkers
begin

text \<open>
  Which facts a unit analysis builds for the selected rules (\<open>analysis/fact_selection.hpp\<close>). The
  selection is meant to be the one place that knows which rule reads which fact: the theorems show
  that it is right about that, for every checker. A unit whose facts hold only what was selected is
  reported on, for each selected rule, as one whose facts hold everything.
\<close>

section \<open>The selection\<close>

record CrossUnitChannels =
  cc_externGlobals :: bool
  cc_helperLockEffects :: bool
  cc_entryConcurrency :: bool
  cc_programThreads :: bool
  cc_programReaps :: bool
  cc_resolvedHandles :: bool
  cc_helperJoins :: bool

record FactSelection =
  se_accesses :: bool
  se_lockOrders :: bool
  se_recursiveLockIds :: bool
  se_threadLifecycles :: bool
  se_conditionWaits :: bool
  se_processLifecycle :: bool
  se_threadArgumentEscapes :: bool
  se_threadArgumentFrees :: bool
  se_expiredThreadLocals :: bool
  se_signalHandlers :: bool
  se_weakPublications :: bool
  se_threadEntries :: bool
  se_program :: bool
  se_channels :: CrossUnitChannels

definition no_channels :: CrossUnitChannels where
  "no_channels = \<lparr>cc_externGlobals = False, cc_helperLockEffects = False, cc_entryConcurrency = False,
     cc_programThreads = False, cc_programReaps = False, cc_resolvedHandles = False,
     cc_helperJoins = False\<rparr>"

definition no_selection :: FactSelection where
  "no_selection = \<lparr>se_accesses = False, se_lockOrders = False, se_recursiveLockIds = False,
     se_threadLifecycles = False, se_conditionWaits = False, se_processLifecycle = False,
     se_threadArgumentEscapes = False, se_threadArgumentFrees = False,
     se_expiredThreadLocals = False, se_signalHandlers = False, se_weakPublications = False,
     se_threadEntries = False, se_program = False, se_channels = no_channels\<rparr>"

definition directCallSites :: "FactSelection \<Rightarrow> bool" where
  "directCallSites s \<longleftrightarrow> se_accesses s \<or> se_lockOrders s \<or> se_threadLifecycles s \<or> se_conditionWaits s \<or>
     se_processLifecycle s \<or> se_signalHandlers s \<or> se_threadEntries s"

definition spawns :: "FactSelection \<Rightarrow> bool" where
  "spawns s \<longleftrightarrow> se_threadEntries s \<or> se_processLifecycle s \<or> cc_programThreads (se_channels s)"

definition lockWrapperSummaries :: "FactSelection \<Rightarrow> bool" where
  "lockWrapperSummaries s \<longleftrightarrow> se_accesses s \<or> se_lockOrders s \<or> cc_helperLockEffects (se_channels s)"

definition lockState :: "FactSelection \<Rightarrow> bool" where
  "lockState s \<longleftrightarrow> se_accesses s \<or> se_lockOrders s"

definition taskConcurrency :: "FactSelection \<Rightarrow> bool" where
  "taskConcurrency s \<longleftrightarrow> se_threadEntries s \<or> se_accesses s \<or> se_lockOrders s"

definition on_channels :: "(CrossUnitChannels \<Rightarrow> CrossUnitChannels) \<Rightarrow> FactSelection \<Rightarrow> FactSelection" where
  "on_channels f s = s\<lparr>se_channels := f (se_channels s)\<rparr>"

fun selectRule :: "RuleId \<Rightarrow> FactSelection \<Rightarrow> FactSelection" where
  "selectRule DataRaceGlobal s =
     on_channels (\<lambda>c. c\<lparr>cc_externGlobals := True, cc_helperLockEffects := True,
         cc_entryConcurrency := True, cc_helperJoins := True\<rparr>)
       (s\<lparr>se_accesses := True, se_threadEntries := True\<rparr>)"
| "selectRule DeadlockLockOrder s =
     on_channels (\<lambda>c. c\<lparr>cc_helperLockEffects := True, cc_entryConcurrency := True, cc_helperJoins := True\<rparr>)
       (s\<lparr>se_lockOrders := True, se_recursiveLockIds := True, se_threadEntries := True\<rparr>)"
| "selectRule MissingJoin s =
     on_channels (\<lambda>c. c\<lparr>cc_resolvedHandles := True, cc_helperJoins := True\<rparr>)
       (s\<lparr>se_threadLifecycles := True\<rparr>)"
| "selectRule ConditionWaitWithoutPredicate s = s\<lparr>se_conditionWaits := True\<rparr>"
| "selectRule ForkAfterThreadCreation s =
     on_channels (\<lambda>c. c\<lparr>cc_programThreads := True\<rparr>) (s\<lparr>se_processLifecycle := True\<rparr>)"
| "selectRule UnreapedChildProcess s =
     on_channels (\<lambda>c. c\<lparr>cc_programReaps := True\<rparr>) (s\<lparr>se_processLifecycle := True\<rparr>)"
| "selectRule ThreadArgumentEscapesFrame s =
     on_channels (\<lambda>c. c\<lparr>cc_helperJoins := True\<rparr>) (s\<lparr>se_threadArgumentEscapes := True\<rparr>)"
| "selectRule ThreadArgumentFreedEarly s =
     on_channels (\<lambda>c. c\<lparr>cc_helperJoins := True\<rparr>) (s\<lparr>se_threadArgumentFrees := True\<rparr>)"
| "selectRule ThreadLocalOutlivesThread s =
     on_channels (\<lambda>c. c\<lparr>cc_helperJoins := True\<rparr>) (s\<lparr>se_expiredThreadLocals := True\<rparr>)"
| "selectRule UnsafeSignalHandler s = s\<lparr>se_signalHandlers := True\<rparr>"
| "selectRule WeakPublicationOrdering s =
     on_channels (\<lambda>c. c\<lparr>cc_externGlobals := True, cc_entryConcurrency := True, cc_helperJoins := True\<rparr>)
       (s\<lparr>se_accesses := True, se_threadEntries := True, se_weakPublications := True\<rparr>)"
| "selectRule CompilerDiagnostic s = s"

definition forRules :: "RuleId list \<Rightarrow> bool \<Rightarrow> FactSelection" where
  "forRules rules projectAnalysis =
     (let s = fold selectRule rules no_selection
      in if projectAnalysis
         then s\<lparr>se_program := True,
                se_threadEntries := se_threadEntries s \<or> cc_entryConcurrency (se_channels s),
                se_threadLifecycles := se_threadLifecycles s \<or> cc_resolvedHandles (se_channels s)\<rparr>
         else s\<lparr>se_channels := no_channels\<rparr>)"

definition everything :: FactSelection where
  "everything = forRules (ao_enabledRules allAvailable) True"

section \<open>Facts that agree on a selection\<close>

text \<open>
  Two sets of facts agree on a selection when every output it selects is the same in both; nothing
  is said of the others, which a builder that skips them leaves as it likes.
\<close>

definition sameThreads :: "TUFacts \<Rightarrow> TUFacts \<Rightarrow> bool" where
  "sameThreads f g \<longleftrightarrow>
     tu_entryConcurrency f = tu_entryConcurrency g \<and> tu_sequencedEntryPairs f = tu_sequencedEntryPairs g \<and>
     tu_reachableThreadEntriesByFunction f = tu_reachableThreadEntriesByFunction g"

definition agreeOn :: "FactSelection \<Rightarrow> TUFacts \<Rightarrow> TUFacts \<Rightarrow> bool" where
  "agreeOn s f g \<longleftrightarrow>
     (se_accesses s \<longrightarrow> tu_accesses f = tu_accesses g) \<and>
     (se_lockOrders s \<longrightarrow> tu_lockOrders f = tu_lockOrders g) \<and>
     (se_recursiveLockIds s \<longrightarrow> tu_recursiveLockIds f = tu_recursiveLockIds g) \<and>
     (se_threadLifecycles s \<longrightarrow> tu_threadLifecycles f = tu_threadLifecycles g) \<and>
     (se_conditionWaits s \<longrightarrow> tu_conditionWaits f = tu_conditionWaits g) \<and>
     (se_processLifecycle s \<longrightarrow> tu_processForks f = tu_processForks g \<and>
        tu_reapsChildProcesses f = tu_reapsChildProcesses g \<and>
        tu_programCreatesThreads f = tu_programCreatesThreads g) \<and>
     (se_threadArgumentEscapes s \<longrightarrow> tu_threadArgumentEscapes f = tu_threadArgumentEscapes g) \<and>
     (se_threadArgumentFrees s \<longrightarrow> tu_threadArgumentFrees f = tu_threadArgumentFrees g) \<and>
     (se_expiredThreadLocals s \<longrightarrow> tu_expiredThreadLocals f = tu_expiredThreadLocals g) \<and>
     (se_signalHandlers s \<longrightarrow> tu_signalHandlers f = tu_signalHandlers g) \<and>
     (se_weakPublications s \<longrightarrow> tu_weakPublications f = tu_weakPublications g) \<and>
     (se_threadEntries s \<longrightarrow> sameThreads f g)"

section \<open>What each checker reads\<close>

named_theorems reads "what a definition reads of the facts, as a congruence"

lemma queries_read [reads]:
  assumes "sameThreads f g"
  shows "entriesOfFunction f = entriesOfFunction g"
    and "entryIsSelfConcurrent f = entryIsSelfConcurrent g"
    and "isSelfConcurrent E f = isSelfConcurrent E g"
    and "mayRunConcurrently A B f = mayRunConcurrently A B g"
    and "mayHappenInParallel r l x X y Y f = mayHappenInParallel r l x X y Y g"
proof -
  have same: "tu_entryConcurrency f = tu_entryConcurrency g" "tu_sequencedEntryPairs f = tu_sequencedEntryPairs g"
    "tu_reachableThreadEntriesByFunction f = tu_reachableThreadEntriesByFunction g"
    using assms by (simp_all add: sameThreads_def)
  show "entriesOfFunction f = entriesOfFunction g" by (intro ext) (simp only: entriesOfFunction_def same)
  show self: "entryIsSelfConcurrent f = entryIsSelfConcurrent g"
    by (intro ext) (simp only: entryIsSelfConcurrent_def same)
  then show "isSelfConcurrent E f = isSelfConcurrent E g" by (simp only: isSelfConcurrent_def)
  have "entriesOverlap f = entriesOverlap g" by (intro ext) (simp only: entriesOverlap_def same self)
  then show m: "mayRunConcurrently A B f = mayRunConcurrently A B g" for A B by (simp only: mayRunConcurrently_def)
  show "mayHappenInParallel r l x X y Y f = mayHappenInParallel r l x X y Y g"
    by (simp only: mayHappenInParallel_def m)
qed

lemma access_queries_read [reads]:
  assumes "sameThreads f g"
  shows "entriesOf f = entriesOf g" "takesPart f = takesPart g" "parallelAccesses f = parallelAccesses g"
    and "pairConflicts f = pairConflicts g" "racesWithItself a E f = racesWithItself a E g"
    and "shareSelfConcurrentEntry E F f = shareSelfConcurrentEntry E F g"
    and "collectConflictKinds a b E F f = collectConflictKinds a b E F g"
    and "selfConcurrentWrite f = selfConcurrentWrite g"
proof -
  note q = queries_read [OF assms]
  show e: "entriesOf f = entriesOf g" by (simp add: entriesOf_def q fun_eq_iff)
  show "takesPart f = takesPart g" using assms by (simp add: takesPart_def sameThreads_def fun_eq_iff)
  show p: "parallelAccesses f = parallelAccesses g" by (simp add: parallelAccesses_def e q fun_eq_iff)
  show "pairConflicts f = pairConflicts g" by (simp add: pairConflicts_def p fun_eq_iff)
  show "racesWithItself a E f = racesWithItself a E g" by (simp add: racesWithItself_def q)
  show sh: "shareSelfConcurrentEntry E F f = shareSelfConcurrentEntry E F g" for E F
    by (simp add: shareSelfConcurrentEntry_def q)
  show "collectConflictKinds a b E F f = collectConflictKinds a b E F g"
    by (simp add: collectConflictKinds_def sh q)
  show "selfConcurrentWrite f = selfConcurrentWrite g" by (simp add: selfConcurrentWrite_def e q fun_eq_iff)
qed

lemma data_race_steps_read [reads]:
  assumes "sameThreads f g"
  shows "pairStep f = pairStep g" "selfStep f = selfStep g" "conflictsOf f = conflictsOf g"
    and "pairDiagnostic a b E F f = pairDiagnostic a b E F g" "emitConflict f = emitConflict g"
    and "checkSymbol f = checkSymbol g"
proof -
  note q = access_queries_read [OF assms]
  show p: "pairStep f = pairStep g" by (intro ext) (simp only: pairStep_def q)
  show s: "selfStep f = selfStep g" by (intro ext) (simp only: selfStep_def q)
  show c: "conflictsOf f = conflictsOf g" by (intro ext) (simp only: conflictsOf_def p s)
  show d: "pairDiagnostic a b E F f = pairDiagnostic a b E F g" for a b E F
    by (intro ext) (simp only: pairDiagnostic_def q)
  show e: "emitConflict f = emitConflict g" by (intro ext) (simp only: emitConflict_def q d)
  show "checkSymbol f = checkSymbol g" by (intro ext) (simp only: checkSymbol_def c e q)
qed

lemma dataRaceRun_reads:
  "sameThreads f g \<Longrightarrow> tu_accesses f = tu_accesses g \<Longrightarrow> dataRaceRun f = dataRaceRun g"
  by (simp add: dataRaceRun_def accessesBySymbol_def reads)

lemma lock_order_queries_read [reads]:
  assumes "sameThreads f g"
  shows "entriesFor o1 f = entriesFor o1 g" "participatesInConcurrency o1 f = participatesInConcurrency o1 g"
    and "contextLabel o1 f = contextLabel o1 g" "cycleDiagnostic f = cycleDiagnostic g"
    and "mayHappenInParallelWithEach o1 os f = mayHappenInParallelWithEach o1 os g"
    and "emitOnce f = emitOnce g" "closeCycle f = closeCycle g"
proof -
  note q = queries_read [OF assms]
  show e: "entriesFor o1 f = entriesFor o1 g" for o1 by (simp add: entriesFor_def q)
  show "participatesInConcurrency o1 f = participatesInConcurrency o1 g"
    using assms by (simp add: participatesInConcurrency_def sameThreads_def)
  show l: "contextLabel o1 f = contextLabel o1 g" for o1 by (simp add: contextLabel_def e)
  have d: "describeOrder f = describeOrder g" by (intro ext) (simp only: describeOrder_def l)
  show c: "cycleDiagnostic f = cycleDiagnostic g" by (intro ext) (simp only: cycleDiagnostic_def l d)
  show "mayHappenInParallelWithEach o1 os f = mayHappenInParallelWithEach o1 os g"
    by (simp add: mayHappenInParallelWithEach_def parallelOrders_def e q)
  show eo: "emitOnce f = emitOnce g" by (simp add: emitOnce_def c fun_eq_iff)
  show "closeCycle f = closeCycle g" by (simp add: closeCycle_def eo fun_eq_iff)
qed

lemma walk_reads [reads]:
  assumes "sameThreads f g"
  shows "walk graph f bound start leads items onPath path st = walk graph g bound start leads items onPath path st"
proof (induction graph f \<equiv> f bound start leads items onPath path st rule: walk.induct)
  case (2 graph bound start leads lock order items onPath path st)
  note q = lock_order_queries_read [OF assms]
  note IH = 2(1) [OF refl] 2(2-5) [OF refl _ refl]
  show ?case
  proof (cases "lock \<noteq> start \<and> (\<not> leadsTo leads lock \<or> lock \<in> onPath)")
    case True
    then show ?thesis using IH(1) by (simp add: walk.simps)
  next
    case follow: False
    note IH = IH(2-5) [OF follow]
    show ?thesis
    proof (cases "ws_examined (st\<lparr>ws_examined := Suc (ws_examined st)\<rparr>) > bound \<or> \<not> mayHappenInParallelWithEach order path f")
      case True
      then show ?thesis using follow IH(1) by (auto simp: walk.simps(2) q Let_def)
    next
      case taken: False
      then show ?thesis
        using follow IH(2-4) by (cases "lock = start") (auto simp: walk.simps(2) q Let_def split: prod.split)
    qed
  qed
qed (simp add: walk.simps)

lemma lockOrderRun_reads:
  assumes "sameThreads f g" "tu_lockOrders f = tu_lockOrders g" "tu_recursiveLockIds f = tu_recursiveLockIds g"
  shows "lockOrderRun f = lockOrderRun g"
proof -
  have search: "searchFrom G f b P = searchFrom G g b P" for G b P
    by (intro ext) (simp only: searchFrom_def reads [OF assms(1)])
  have "reportDeadlockingCycles r G f b = reportDeadlockingCycles r G g b" for r G b
    by (simp only: reportDeadlockingCycles_def search reads [OF assms(1)])
  moreover have "edgesByFirstLock f = edgesByFirstLock g"
    by (simp add: edgesByFirstLock_def assms(2) reads [OF assms(1)])
  moreover have "reacquires f = reacquires g" by (simp add: reacquires_def assms(3) fun_eq_iff)
  ultimately show ?thesis by (simp add: lockOrderRun_def assms(2))
qed

lemma missingJoinRun_reads: "tu_threadLifecycles f = tu_threadLifecycles g \<Longrightarrow> missingJoinRun f = missingJoinRun g"
  by (simp add: missingJoinRun_def)

lemma conditionWaitRun_reads: "tu_conditionWaits f = tu_conditionWaits g \<Longrightarrow> conditionWaitRun f = conditionWaitRun g"
  by (simp add: conditionWaitRun_def)

lemma publicationOrderingRun_reads:
  assumes "sameThreads f g" "tu_weakPublications f = tu_weakPublications g"
  shows "publicationOrderingRun f = publicationOrderingRun g"
proof -
  have "tu_reachableThreadEntriesByFunction f = tu_reachableThreadEntriesByFunction g"
    using assms(1) by (simp add: sameThreads_def)
  then have "publicationsOverlap f = publicationsOverlap g"
    by (intro ext) (simp only: publicationsOverlap_def reads [OF assms(1)])
  then show ?thesis by (simp only: publicationOrderingRun_def assms(2))
qed

text \<open>The process checker answers for several rules, each from facts of its own.\<close>

definition ofRule :: "RuleId \<Rightarrow> DiagnosticReport \<Rightarrow> Diagnostic list" where
  "ofRule rule report = filter (\<lambda>d. d_ruleId d = rule) (rp_diagnostics report)"

lemma ofRule_process:
  "ofRule ThreadArgumentEscapesFrame (processLifecycleRun facts) = map escapeDiagnostic (tu_threadArgumentEscapes facts)"
  "ofRule ThreadArgumentFreedEarly (processLifecycleRun facts) = map freedDiagnostic (tu_threadArgumentFrees facts)"
  "ofRule ThreadLocalOutlivesThread (processLifecycleRun facts) = map expiredDiagnostic (tu_expiredThreadLocals facts)"
  "ofRule UnsafeSignalHandler (processLifecycleRun facts) = map signalHandlerDiagnostic (tu_signalHandlers facts)"
  "ofRule ForkAfterThreadCreation (processLifecycleRun facts) =
     filter (\<lambda>d. d_ruleId d = ForkAfterThreadCreation) (concat (map (forkDiagnostics facts) (tu_processForks facts)))"
  "ofRule UnreapedChildProcess (processLifecycleRun facts) =
     filter (\<lambda>d. d_ruleId d = UnreapedChildProcess) (concat (map (forkDiagnostics facts) (tu_processForks facts)))"
proof -
  have fork: "filter (\<lambda>d. d_ruleId d = r) (concat (map (forkDiagnostics facts) fs)) = []"
    if "r \<notin> {ForkAfterThreadCreation, UnreapedChildProcess}" for r fs
    using that by (auto simp: filter_empty_conv forkDiagnostics_def split: if_splits)
  show "ofRule ThreadArgumentEscapesFrame (processLifecycleRun facts) = map escapeDiagnostic (tu_threadArgumentEscapes facts)"
    "ofRule ThreadArgumentFreedEarly (processLifecycleRun facts) = map freedDiagnostic (tu_threadArgumentFrees facts)"
    "ofRule ThreadLocalOutlivesThread (processLifecycleRun facts) = map expiredDiagnostic (tu_expiredThreadLocals facts)"
    "ofRule UnsafeSignalHandler (processLifecycleRun facts) = map signalHandlerDiagnostic (tu_signalHandlers facts)"
    "ofRule ForkAfterThreadCreation (processLifecycleRun facts) =
     filter (\<lambda>d. d_ruleId d = ForkAfterThreadCreation) (concat (map (forkDiagnostics facts) (tu_processForks facts)))"
    "ofRule UnreapedChildProcess (processLifecycleRun facts) =
     filter (\<lambda>d. d_ruleId d = UnreapedChildProcess) (concat (map (forkDiagnostics facts) (tu_processForks facts)))"
    by (simp_all add: ofRule_def processLifecycleRun_result fork filter_map comp_def)
qed

section \<open>The checker of a rule\<close>

text \<open>The checker that answers for a rule, as both analyzers dispatch on it.\<close>

fun checkerOf :: "RuleId \<Rightarrow> TUFacts \<Rightarrow> DiagnosticReport" where
  "checkerOf DataRaceGlobal facts = dataRaceRun facts"
| "checkerOf DeadlockLockOrder facts = lockOrderRun facts"
| "checkerOf MissingJoin facts = the (missingJoinRun facts)"
| "checkerOf ConditionWaitWithoutPredicate facts = conditionWaitRun facts"
| "checkerOf WeakPublicationOrdering facts = publicationOrderingRun facts"
| "checkerOf CompilerDiagnostic facts = empty_report"
| "checkerOf _ facts = processLifecycleRun facts"

fun readsSelected :: "RuleId \<Rightarrow> FactSelection \<Rightarrow> bool" where
  "readsSelected DataRaceGlobal s \<longleftrightarrow> se_accesses s \<and> se_threadEntries s"
| "readsSelected DeadlockLockOrder s \<longleftrightarrow> se_lockOrders s \<and> se_recursiveLockIds s \<and> se_threadEntries s"
| "readsSelected MissingJoin s \<longleftrightarrow> se_threadLifecycles s"
| "readsSelected ConditionWaitWithoutPredicate s \<longleftrightarrow> se_conditionWaits s"
| "readsSelected ForkAfterThreadCreation s \<longleftrightarrow> se_processLifecycle s"
| "readsSelected UnreapedChildProcess s \<longleftrightarrow> se_processLifecycle s"
| "readsSelected ThreadArgumentEscapesFrame s \<longleftrightarrow> se_threadArgumentEscapes s"
| "readsSelected ThreadArgumentFreedEarly s \<longleftrightarrow> se_threadArgumentFrees s"
| "readsSelected ThreadLocalOutlivesThread s \<longleftrightarrow> se_expiredThreadLocals s"
| "readsSelected UnsafeSignalHandler s \<longleftrightarrow> se_signalHandlers s"
| "readsSelected WeakPublicationOrdering s \<longleftrightarrow> se_weakPublications s \<and> se_threadEntries s"
| "readsSelected CompilerDiagnostic s \<longleftrightarrow> True"

lemma readsSelected_selectRule: "readsSelected rule (selectRule rule s)"
  by (cases rule) (simp_all add: on_channels_def)

lemma readsSelected_mono: "readsSelected rule s \<Longrightarrow> readsSelected rule (selectRule rule' s)"
  by (cases rule; cases rule') (simp_all add: on_channels_def)

lemma readsSelected_fold:
  "rule \<in> set rules \<or> readsSelected rule s \<Longrightarrow> readsSelected rule (fold selectRule rules s)"
  by (induction rules arbitrary: s) (auto simp: readsSelected_selectRule readsSelected_mono)

lemma readsSelected_forRules: "rule \<in> set rules \<Longrightarrow> readsSelected rule (forRules rules project)"
  using readsSelected_fold [of rule rules no_selection]
  by (cases rule) (simp_all add: forRules_def Let_def)

text \<open>
  \<open>sameRead\<close>: two sets of facts agree on what the checker of a rule reads to answer for the rule. What the program says of threads and reaped children
  matters only to a unit that forks.
\<close>

fun sameRead :: "RuleId \<Rightarrow> TUFacts \<Rightarrow> TUFacts \<Rightarrow> bool" where
  "sameRead DataRaceGlobal f g \<longleftrightarrow> tu_accesses f = tu_accesses g \<and> sameThreads f g"
| "sameRead DeadlockLockOrder f g \<longleftrightarrow> tu_lockOrders f = tu_lockOrders g \<and> tu_recursiveLockIds f = tu_recursiveLockIds g \<and> sameThreads f g"
| "sameRead MissingJoin f g \<longleftrightarrow> tu_threadLifecycles f = tu_threadLifecycles g"
| "sameRead ConditionWaitWithoutPredicate f g \<longleftrightarrow> tu_conditionWaits f = tu_conditionWaits g"
| "sameRead ForkAfterThreadCreation f g \<longleftrightarrow> tu_processForks f = tu_processForks g \<and>
     (tu_processForks f = [] \<or> tu_programCreatesThreads f = tu_programCreatesThreads g)"
| "sameRead UnreapedChildProcess f g \<longleftrightarrow> tu_processForks f = tu_processForks g \<and>
     (tu_processForks f = [] \<or> tu_reapsChildProcesses f = tu_reapsChildProcesses g)"
| "sameRead ThreadArgumentEscapesFrame f g \<longleftrightarrow> tu_threadArgumentEscapes f = tu_threadArgumentEscapes g"
| "sameRead ThreadArgumentFreedEarly f g \<longleftrightarrow> tu_threadArgumentFrees f = tu_threadArgumentFrees g"
| "sameRead ThreadLocalOutlivesThread f g \<longleftrightarrow> tu_expiredThreadLocals f = tu_expiredThreadLocals g"
| "sameRead UnsafeSignalHandler f g \<longleftrightarrow> tu_signalHandlers f = tu_signalHandlers g"
| "sameRead WeakPublicationOrdering f g \<longleftrightarrow> tu_weakPublications f = tu_weakPublications g \<and> sameThreads f g"
| "sameRead CompilerDiagnostic f g \<longleftrightarrow> True"

lemma fork_rules_read:
  assumes "tu_processForks f = tu_processForks g"
  shows "tu_processForks f = [] \<or> tu_programCreatesThreads f = tu_programCreatesThreads g \<Longrightarrow>
      ofRule ForkAfterThreadCreation (processLifecycleRun f) = ofRule ForkAfterThreadCreation (processLifecycleRun g)"
    and "tu_processForks f = [] \<or> tu_reapsChildProcesses f = tu_reapsChildProcesses g \<Longrightarrow>
      ofRule UnreapedChildProcess (processLifecycleRun f) = ofRule UnreapedChildProcess (processLifecycleRun g)"
proof -
  have "filter (\<lambda>d. d_ruleId d = ForkAfterThreadCreation) (forkDiagnostics f fork) = filter (\<lambda>d. d_ruleId d = ForkAfterThreadCreation) (forkDiagnostics g fork)"
    if "tu_programCreatesThreads f = tu_programCreatesThreads g" for fork
    using that by (simp add: forkDiagnostics_def)
  then show "tu_processForks f = [] \<or> tu_programCreatesThreads f = tu_programCreatesThreads g \<Longrightarrow>
      ofRule ForkAfterThreadCreation (processLifecycleRun f) = ofRule ForkAfterThreadCreation (processLifecycleRun g)"
    using assms by (auto simp: ofRule_process filter_concat comp_def)
  have "filter (\<lambda>d. d_ruleId d = UnreapedChildProcess) (forkDiagnostics f fork) = filter (\<lambda>d. d_ruleId d = UnreapedChildProcess) (forkDiagnostics g fork)"
    if "tu_reapsChildProcesses f = tu_reapsChildProcesses g" for fork
    using that by (simp add: forkDiagnostics_def)
  then show "tu_processForks f = [] \<or> tu_reapsChildProcesses f = tu_reapsChildProcesses g \<Longrightarrow>
      ofRule UnreapedChildProcess (processLifecycleRun f) = ofRule UnreapedChildProcess (processLifecycleRun g)"
    using assms by (auto simp: ofRule_process filter_concat comp_def)
qed

lemma sameRead_report: "sameRead rule f g \<Longrightarrow> ofRule rule (checkerOf rule f) = ofRule rule (checkerOf rule g)"
  using dataRaceRun_reads [of f g] lockOrderRun_reads [of f g] missingJoinRun_reads [of f g] conditionWaitRun_reads [of f g]
    publicationOrderingRun_reads [of f g] fork_rules_read [of f g]
  by (cases rule) (auto simp: ofRule_process(1-4))

lemma agreeOn_sameRead: "readsSelected rule s \<Longrightarrow> agreeOn s f g \<Longrightarrow> sameRead rule f g"
  by (cases rule) (auto simp: agreeOn_def)

text \<open>
  C12: The fact selection gives every rule what its checker reads: for any selected rules, in a unit or
  a project analysis, two sets of facts that agree on the selected outputs lead each selected rule
  to the same diagnostics, whatever the other outputs hold.
\<close>
theorem selection_suffices:
  assumes "rule \<in> set rules" "agreeOn (forRules rules project) f g"
  shows "ofRule rule (checkerOf rule f) = ofRule rule (checkerOf rule g)"
  by (rule sameRead_report [OF agreeOn_sameRead [OF readsSelected_forRules [OF assms(1)] assms(2)]])

theorem selection_suffices_witness:
  "ofRule DataRaceGlobal (checkerOf DataRaceGlobal (sample_facts [sample_access])) =
   ofRule DataRaceGlobal (checkerOf DataRaceGlobal ((sample_facts [sample_access])\<lparr>tu_conditionWaits := [undefined]\<rparr>))"
  by (rule selection_suffices [of _ "[DataRaceGlobal]" False])
    (simp_all add: agreeOn_def forRules_def sameThreads_def on_channels_def no_selection_def Let_def)

lemma selectRule_commute: "selectRule a (selectRule b s) = selectRule b (selectRule a s)"
  by (cases a; cases b) (simp_all add: on_channels_def)

lemma selectRule_idem: "selectRule a (selectRule a s) = selectRule a s"
  by (cases a) (simp_all add: on_channels_def)

lemma fold_selectRule_absorb:
  "rule \<in> set rules \<Longrightarrow> selectRule rule (fold selectRule rules s) = fold selectRule rules s"
proof (induction rules arbitrary: s)
  case (Cons r rules)
  have "selectRule rule (fold selectRule rs s) = fold selectRule rs (selectRule rule s)" for rs s
    by (induction rs arbitrary: s) (simp_all add: selectRule_commute)
  then show ?case using Cons by (auto simp: selectRule_idem)
qed simp

lemma fold_selectRule_subset:
  "set rules \<subseteq> set rules' \<Longrightarrow> fold selectRule (rules @ rules') s = fold selectRule rules' s"
proof (induction rules arbitrary: s)
  case (Cons r rules)
  have "selectRule r (fold selectRule rs s) = fold selectRule rs (selectRule r s)" for rs s
    by (induction rs arbitrary: s) (simp_all add: selectRule_commute)
  moreover have "selectRule r (fold selectRule rules' s) = fold selectRule rules' s"
    using Cons.prems by (intro fold_selectRule_absorb) auto
  ultimately have "fold selectRule rules' (selectRule r s) = fold selectRule rules' s" by simp
  then show ?case using Cons.IH [of "selectRule r s"] Cons.prems by simp
qed simp

lemma fold_selectRule_append_commute:
  "fold selectRule (rules @ rules') s = fold selectRule (rules' @ rules) s"
proof (induction rules arbitrary: s)
  case (Cons r rules)
  have move: "selectRule r (fold selectRule rs s) = fold selectRule rs (selectRule r s)" for rs s
    by (induction rs arbitrary: s) (simp_all add: selectRule_commute)
  show ?case using Cons.IH [of "selectRule r s"] by (simp add: move)
qed simp

text \<open>
  The selection depends on which rules are selected, not on their order or repetition; in a unit
  analysis it selects no cross-unit channel, and in a project analysis the facts behind each
  selected channel are built.
\<close>
theorem selection_of_rule_set:
  assumes "set rules = set rules'"
  shows "forRules rules project = forRules rules' project \<and>
    se_channels (forRules rules False) = no_channels \<and>
    (cc_entryConcurrency (se_channels (forRules rules project)) \<longrightarrow> se_threadEntries (forRules rules project)) \<and>
    (cc_resolvedHandles (se_channels (forRules rules project)) \<longrightarrow> se_threadLifecycles (forRules rules project))"
proof -
  have "fold selectRule rules no_selection = fold selectRule rules' no_selection"
    using fold_selectRule_subset [of rules rules'] fold_selectRule_subset [of rules' rules]
      fold_selectRule_append_commute [of rules rules'] assms by simp
  then show ?thesis by (simp add: forRules_def Let_def no_channels_def)
qed

theorem selection_of_rule_set_witness:
  "forRules [MissingJoin, DataRaceGlobal] True = forRules [DataRaceGlobal, MissingJoin, MissingJoin] True"
  using selection_of_rule_set [of "[MissingJoin, DataRaceGlobal]" "[DataRaceGlobal, MissingJoin, MissingJoin]" True]
  by (simp add: insert_commute)

end
