(* ===== verification/Symbol_Index.thy ===== *)
theory Symbol_Index
  imports Fact_Selection "HOL-Library.Multiset"
begin

text \<open>
  What the translation units of a project tell one another: the program symbol index
  (\<open>analysis/cross_tu/program_symbol_index.cpp\<close>) and the gate that decides which units the whole
  program contradicts (\<open>crossTUChangesFacts\<close> of \<open>analysis/cross_tu/inter_tu_coordinator.cpp\<close>). Each
  question the index answers is characterized over the units added, from which the answers are shown
  not to depend on the order of the units.
\<close>

section \<open>The index\<close>

record EntrySpawns =
  es_instanceCount :: nat
  es_insideLoop :: bool

record FunctionUnits =
  fu_first :: nat
  fu_several :: bool

record ProgramSymbolIndex =
  pi_spawnSitesByEntry :: "(string \<times> EntrySpawns) list"
  pi_unitsByFunction :: "(string \<times> FunctionUnits) list"
  pi_definedGlobals :: "string set"
  pi_lockSummariesBySymbol :: "(string \<times> ParameterLockEffect list) list"
  pi_resolvedHandleSymbols :: "string set"
  pi_joiningHelpersBySymbol :: "(string \<times> JoinedParameter list) list"
  pi_reapsChildren :: bool

definition empty_index :: ProgramSymbolIndex where
  "empty_index = \<lparr>pi_spawnSitesByEntry = [], pi_unitsByFunction = [], pi_definedGlobals = {},
     pi_lockSummariesBySymbol = [], pi_resolvedHandleSymbols = {}, pi_joiningHelpersBySymbol = [],
     pi_reapsChildren = False\<rparr>"

text \<open>\<open>emplace\<close> keeps the entry that is already there.\<close>

definition emplace :: "'v \<Rightarrow> 'v option \<Rightarrow> 'v" where
  "emplace v r = (case r of None \<Rightarrow> v | Some old \<Rightarrow> old)"

definition showUnit :: "nat \<Rightarrow> FunctionUnits option \<Rightarrow> FunctionUnits" where
  "showUnit unit r =
     (case r of
        None \<Rightarrow> \<lparr>fu_first = unit, fu_several = False\<rparr>
      | Some u \<Rightarrow> if fu_first u \<noteq> unit then u\<lparr>fu_several := True\<rparr> else u)"

definition addSpawns :: "EntryConcurrencyInfo \<Rightarrow> EntrySpawns option \<Rightarrow> EntrySpawns" where
  "addSpawns c r =
     (let s = (case r of None \<Rightarrow> \<lparr>es_instanceCount = 0, es_insideLoop = False\<rparr> | Some s \<Rightarrow> s)
      in s\<lparr>es_instanceCount := es_instanceCount s + ec_staticSpawnCount c,
           es_insideLoop := es_insideLoop s \<or> ec_hasSpawnInLoop c\<rparr>)"

text \<open>The symbols of the facts a unit keeps by function id; an id with no symbol is skipped.\<close>

definition bySymbol :: "TUFacts \<Rightarrow> (string \<times> 'a) list \<Rightarrow> (string \<times> 'a) list" where
  "bySymbol facts es =
     List.map_filter (\<lambda>(id, v). map_option (\<lambda>symbol. (symbol, v)) (map_of (ps_functionSymbolsById (tu_program facts)) id)) es"

definition helpersBySymbol :: "TUFacts \<Rightarrow> (string \<times> 'a) list \<Rightarrow> (string \<times> 'a) list" where
  "helpersBySymbol facts es =
     filter (\<lambda>(symbol, _). symbol \<notin> ps_declaredFunctions (tu_program facts)) (bySymbol facts es)"

definition resolvedHandles :: "TUFacts \<Rightarrow> string set" where
  "resolvedHandles facts =
     Option.these (map_of (ps_handleSymbolsByGroupId (tu_program facts)) ` tu_resolvedGlobalHandleIds facts)"

definition addUnit :: "nat \<times> TUFacts \<Rightarrow> ProgramSymbolIndex \<Rightarrow> ProgramSymbolIndex" where
  "addUnit uf index =
     (let (unit, facts) = uf; program = tu_program facts
      in index\<lparr>pi_definedGlobals := pi_definedGlobals index \<union> ps_definedGlobals program,
           pi_unitsByFunction :=
             fold (\<lambda>e. umap_update (snd e) (showUnit unit)) (ps_functionSymbolsById program)
               (pi_unitsByFunction index),
           pi_reapsChildren := pi_reapsChildren index \<or> tu_reapsChildProcesses facts,
           pi_resolvedHandleSymbols := pi_resolvedHandleSymbols index \<union> resolvedHandles facts,
           pi_lockSummariesBySymbol :=
             fold (\<lambda>e. umap_update (fst e) (emplace (snd e)))
               (helpersBySymbol facts (tu_lockWrapperSummaries facts)) (pi_lockSummariesBySymbol index),
           pi_joiningHelpersBySymbol :=
             fold (\<lambda>e. umap_update (fst e) (emplace (snd e)))
               (helpersBySymbol facts (tu_joiningHelpers facts)) (pi_joiningHelpersBySymbol index),
           pi_spawnSitesByEntry :=
             fold (\<lambda>e. umap_update (fst e) (addSpawns (snd e)))
               (bySymbol facts (tu_entryConcurrency facts)) (pi_spawnSitesByEntry index)\<rparr>)"

definition lockSummaryFor :: "ProgramSymbolIndex \<Rightarrow> string \<Rightarrow> ParameterLockEffect list option" where
  "lockSummaryFor index symbol = map_of (pi_lockSummariesBySymbol index) symbol"

definition resolvesHandleElsewhere :: "ProgramSymbolIndex \<Rightarrow> string \<Rightarrow> bool" where
  "resolvesHandleElsewhere index symbol \<longleftrightarrow> symbol \<in> pi_resolvedHandleSymbols index"

definition joinedParametersOf :: "ProgramSymbolIndex \<Rightarrow> string \<Rightarrow> JoinedParameter list option" where
  "joinedParametersOf index symbol = map_of (pi_joiningHelpersBySymbol index) symbol"

definition isThreadEntry :: "ProgramSymbolIndex \<Rightarrow> string \<Rightarrow> bool" where
  "isThreadEntry index symbol \<longleftrightarrow> map_of (pi_spawnSitesByEntry index) symbol \<noteq> None"

definition spawnCount :: "ProgramSymbolIndex \<Rightarrow> string \<Rightarrow> nat" where
  "spawnCount index symbol =
     (case map_of (pi_spawnSitesByEntry index) symbol of None \<Rightarrow> 0 | Some s \<Rightarrow> es_instanceCount s)"

definition spawnedInLoop :: "ProgramSymbolIndex \<Rightarrow> string \<Rightarrow> bool" where
  "spawnedInLoop index symbol \<longleftrightarrow>
     (case map_of (pi_spawnSitesByEntry index) symbol of None \<Rightarrow> False | Some s \<Rightarrow> es_insideLoop s)"

definition appearsInSeveralUnits :: "ProgramSymbolIndex \<Rightarrow> string \<Rightarrow> bool" where
  "appearsInSeveralUnits index symbol \<longleftrightarrow>
     (case map_of (pi_unitsByFunction index) symbol of None \<Rightarrow> False | Some u \<Rightarrow> fu_several u)"

definition isDefinedSomewhere :: "ProgramSymbolIndex \<Rightarrow> string \<Rightarrow> bool" where
  "isDefinedSomewhere index symbol \<longleftrightarrow> symbol \<in> pi_definedGlobals index"

definition index_programCreatesThreads :: "ProgramSymbolIndex \<Rightarrow> bool" where
  "index_programCreatesThreads index \<longleftrightarrow> pi_spawnSitesByEntry index \<noteq> []"

definition programReapsChildren :: "ProgramSymbolIndex \<Rightarrow> bool" where
  "programReapsChildren index \<longleftrightarrow> pi_reapsChildren index"

definition index_empty :: "ProgramSymbolIndex \<Rightarrow> bool" where
  "index_empty index \<longleftrightarrow>
     pi_spawnSitesByEntry index = [] \<and> pi_definedGlobals index = {} \<and> pi_lockSummariesBySymbol index = []"

definition indexOf :: "(nat \<times> TUFacts) list \<Rightarrow> ProgramSymbolIndex" where
  "indexOf units = fold addUnit units empty_index"

section \<open>The gate of the second pass\<close>

definition crossTUChangesFacts :: "TUFacts \<Rightarrow> ProgramSymbolIndex \<Rightarrow> FactSelection \<Rightarrow> bool" where
  "crossTUChangesFacts facts index selection \<longleftrightarrow>
     (let program = tu_program facts; channels = se_channels selection
      in if cc_externGlobals channels \<and> (\<exists>global \<in> ps_declaredGlobals program. isDefinedSomewhere index global) then True
         else if cc_programThreads channels \<and> tu_processForks facts \<noteq> [] \<and>
                 \<not> tu_programCreatesThreads facts \<and> index_programCreatesThreads index then True
         else if cc_programReaps channels \<and> tu_processForks facts \<noteq> [] \<and>
                 \<not> tu_reapsChildProcesses facts \<and> programReapsChildren index then True
         else if cc_resolvedHandles channels \<and>
                 (\<exists>f \<in> set (tu_threadLifecycles facts).
                    tl_action f = TL_Create \<and>
                    (case map_of (ps_handleSymbolsByGroupId program) (tl_handleGroupId f) of
                       None \<Rightarrow> False
                     | Some symbol \<Rightarrow> resolvesHandleElsewhere index symbol)) then True
         else if cc_helperLockEffects channels \<and>
                 (\<exists>function \<in> ps_declaredFunctions program. lockSummaryFor index function \<noteq> None) then True
         else if cc_helperJoins channels \<and>
                 (\<exists>function \<in> ps_declaredFunctions program. joinedParametersOf index function \<noteq> None) then True
         else if \<not> cc_entryConcurrency channels then False
         else if \<exists>symbol \<in> ps_settlingFunctions program. appearsInSeveralUnits index symbol then True
         else \<exists>(id, symbol) \<in> set (ps_functionSymbolsById program).
                \<not> (symbol \<in> ps_declaredFunctions program \<or> \<not> isThreadEntry index symbol) \<and>
                (case map_of (tu_entryConcurrency facts) id of
                   None \<Rightarrow> True
                 | Some c \<Rightarrow> spawnCount index symbol > ec_staticSpawnCount c \<or>
                             spawnedInLoop index symbol \<and> \<not> ec_hasSpawnInLoop c))"

section \<open>What the index says of its units\<close>

type_synonym program_units = "(nat \<times> TUFacts) list"

definition entrySpawnsOf :: "program_units \<Rightarrow> string \<Rightarrow> EntryConcurrencyInfo list" where
  "entrySpawnsOf units symbol =
     concat (map (\<lambda>uf. map snd (filter (\<lambda>e. fst e = symbol) (bySymbol (snd uf) (tu_entryConcurrency (snd uf))))) units)"

definition unitsShowing :: "program_units \<Rightarrow> string \<Rightarrow> nat set" where
  "unitsShowing units symbol =
     fst ` {uf \<in> set units. symbol \<in> snd ` set (ps_functionSymbolsById (tu_program (snd uf)))}"

lemma um_lookup_fold:
  "map_of (fold (\<lambda>x. umap_update (key x) (f x)) xs m) k =
     fold (\<lambda>x r. Some (f x r)) (filter (\<lambda>x. key x = k) xs) (map_of m k)"
  by (induction xs arbitrary: m) (simp_all add: umap_lookup_update)

lemma filter_key_empty:
  "filter (\<lambda>e. fst e = k) es = [] \<longleftrightarrow> k \<notin> fst ` set es"
  "filter (\<lambda>e. snd e = k) es' = [] \<longleftrightarrow> k \<notin> snd ` set es'"
  by (induction es; force) (induction es'; force)

lemma addUnit_simps [simp]:
  "pi_definedGlobals (addUnit (u, f) index) = pi_definedGlobals index \<union> ps_definedGlobals (tu_program f)"
  "pi_reapsChildren (addUnit (u, f) index) = (pi_reapsChildren index \<or> tu_reapsChildProcesses f)"
  "pi_resolvedHandleSymbols (addUnit (u, f) index) = pi_resolvedHandleSymbols index \<union> resolvedHandles f"
  by (simp_all add: addUnit_def Let_def)

lemma addSpawns_fold:
  "fold (\<lambda>c r. Some (addSpawns c r)) cs r =
     (if cs = [] then r
      else let s = (case r of None \<Rightarrow> \<lparr>es_instanceCount = 0, es_insideLoop = False\<rparr> | Some s \<Rightarrow> s)
           in Some (s\<lparr>es_instanceCount := es_instanceCount s + sum_list (map ec_staticSpawnCount cs),
                      es_insideLoop := es_insideLoop s \<or> (\<exists>c \<in> set cs. ec_hasSpawnInLoop c)\<rparr>))"
  by (induction cs arbitrary: r) (auto simp: addSpawns_def Let_def)

lemma spawnSites_units:
  "map_of (pi_spawnSitesByEntry (fold addUnit units index)) symbol =
     fold (\<lambda>c r. Some (addSpawns c r)) (entrySpawnsOf units symbol) (map_of (pi_spawnSitesByEntry index) symbol)"
proof (induction units arbitrary: index)
  case (Cons uf units)
  have snds: "fold (\<lambda>e r. Some (addSpawns (snd e) r)) es r = fold (\<lambda>c r. Some (addSpawns c r)) (map snd es) r"
    for es :: "(string \<times> EntryConcurrencyInfo) list" and r
    by (induction es arbitrary: r) simp_all
  show ?case
    unfolding fold_Cons comp_apply Cons.IH
    by (cases uf) (simp add: addUnit_def Let_def um_lookup_fold snds entrySpawnsOf_def)
qed (simp add: entrySpawnsOf_def)

lemma spawn_answers:
  fixes units
  defines "index \<equiv> indexOf units"
  shows "isThreadEntry index symbol \<longleftrightarrow> entrySpawnsOf units symbol \<noteq> []"
    and "spawnCount index symbol = sum_list (map ec_staticSpawnCount (entrySpawnsOf units symbol))"
    and "spawnedInLoop index symbol \<longleftrightarrow> (\<exists>c \<in> set (entrySpawnsOf units symbol). ec_hasSpawnInLoop c)"
proof -
  have "map_of (pi_spawnSitesByEntry index) symbol =
      fold (\<lambda>c r. Some (addSpawns c r)) (entrySpawnsOf units symbol) None"
    unfolding index_def indexOf_def spawnSites_units by (simp add: empty_index_def)
  note look = this [unfolded addSpawns_fold Let_def, simplified]
  show "isThreadEntry index symbol \<longleftrightarrow> entrySpawnsOf units symbol \<noteq> []"
    "spawnCount index symbol = sum_list (map ec_staticSpawnCount (entrySpawnsOf units symbol))"
    "spawnedInLoop index symbol \<longleftrightarrow> (\<exists>c \<in> set (entrySpawnsOf units symbol). ec_hasSpawnInLoop c)"
    by (auto simp: isThreadEntry_def spawnCount_def spawnedInLoop_def look)
qed

lemma showUnit_fold:
  "fold (\<lambda>_ r. Some (showUnit u r)) xs r = (if xs = [] then r else Some (showUnit u r))"
  by (induction xs arbitrary: r) (auto simp: showUnit_def split: option.split)

lemma unitsShowing_answers:
  "appearsInSeveralUnits (indexOf units) symbol \<longleftrightarrow> (\<exists>u v. u \<in> unitsShowing units symbol \<and> v \<in> unitsShowing units symbol \<and> u \<noteq> v)"
proof -
  have "(case map_of (pi_unitsByFunction (indexOf units)) symbol of
      None \<Rightarrow> unitsShowing units symbol = {}
    | Some u \<Rightarrow> fu_first u \<in> unitsShowing units symbol \<and> (fu_several u \<longleftrightarrow> unitsShowing units symbol \<noteq> {fu_first u}))"
  proof (induction units rule: rev_induct)
    case Nil
    then show ?case by (simp add: indexOf_def empty_index_def unitsShowing_def)
  next
    case (snoc uf units)
    obtain u f where uf: "uf = (u, f)" by (cases uf)
    let ?here = "filter (\<lambda>e. snd e = symbol) (ps_functionSymbolsById (tu_program f))"
    have showing: "unitsShowing (units @ [uf]) symbol = unitsShowing units symbol \<union> (if ?here = [] then {} else {u})"
      unfolding filter_key_empty unitsShowing_def uf by (auto simp: image_iff; force)
    have "map_of (pi_unitsByFunction (indexOf (units @ [uf]))) symbol =
        (if ?here = [] then map_of (pi_unitsByFunction (indexOf units)) symbol
         else Some (showUnit u (map_of (pi_unitsByFunction (indexOf units)) symbol)))"
      by (simp add: indexOf_def addUnit_def uf Let_def um_lookup_fold showUnit_fold)
    then show ?case
      using snoc.IH unfolding showing by (auto simp: showUnit_def split: option.splits if_splits)
  qed
  then show ?thesis
    by (auto simp: appearsInSeveralUnits_def split: option.splits)
qed

lemma emplace_fold:
  "fold (\<lambda>e r. Some (emplace (snd e) r)) es r = None \<longleftrightarrow> es = [] \<and> r = None"
  by (induction es arbitrary: r) auto

lemma helper_answers:
  "lockSummaryFor (indexOf units) symbol \<noteq> None \<longleftrightarrow>
     (\<exists>uf \<in> set units. symbol \<in> fst ` set (helpersBySymbol (snd uf) (tu_lockWrapperSummaries (snd uf))))"
  "joinedParametersOf (indexOf units) symbol \<noteq> None \<longleftrightarrow>
     (\<exists>uf \<in> set units. symbol \<in> fst ` set (helpersBySymbol (snd uf) (tu_joiningHelpers (snd uf))))"
proof -
  have "lockSummaryFor (fold addUnit units index) symbol = None \<longleftrightarrow> lockSummaryFor index symbol = None \<and>
      (\<forall>uf \<in> set units. symbol \<notin> fst ` set (helpersBySymbol (snd uf) (tu_lockWrapperSummaries (snd uf))))"
    "joinedParametersOf (fold addUnit units index) symbol = None \<longleftrightarrow> joinedParametersOf index symbol = None \<and>
      (\<forall>uf \<in> set units. symbol \<notin> fst ` set (helpersBySymbol (snd uf) (tu_joiningHelpers (snd uf))))" for index
    by (induction units arbitrary: index)
      (simp_all add: lockSummaryFor_def joinedParametersOf_def addUnit_def Let_def um_lookup_fold emplace_fold
        filter_key_empty case_prod_beta conj_ac)
  from this [of empty_index] show
    "lockSummaryFor (indexOf units) symbol \<noteq> None \<longleftrightarrow>
     (\<exists>uf \<in> set units. symbol \<in> fst ` set (helpersBySymbol (snd uf) (tu_lockWrapperSummaries (snd uf))))"
    "joinedParametersOf (indexOf units) symbol \<noteq> None \<longleftrightarrow>
     (\<exists>uf \<in> set units. symbol \<in> fst ` set (helpersBySymbol (snd uf) (tu_joiningHelpers (snd uf))))"
    by (auto simp: indexOf_def lockSummaryFor_def joinedParametersOf_def empty_index_def)
qed

lemma set_answers:
  "isDefinedSomewhere (indexOf units) symbol \<longleftrightarrow> (\<exists>uf \<in> set units. symbol \<in> ps_definedGlobals (tu_program (snd uf)))"
  "resolvesHandleElsewhere (indexOf units) symbol \<longleftrightarrow> (\<exists>uf \<in> set units. symbol \<in> resolvedHandles (snd uf))"
  "programReapsChildren (indexOf units) \<longleftrightarrow> (\<exists>uf \<in> set units. tu_reapsChildProcesses (snd uf))"
proof -
  have "pi_definedGlobals (fold addUnit units index) = pi_definedGlobals index \<union> (\<Union>uf \<in> set units. ps_definedGlobals (tu_program (snd uf)))"
    "pi_resolvedHandleSymbols (fold addUnit units index) = pi_resolvedHandleSymbols index \<union> (\<Union>uf \<in> set units. resolvedHandles (snd uf))"
    "pi_reapsChildren (fold addUnit units index) \<longleftrightarrow> pi_reapsChildren index \<or> (\<exists>uf \<in> set units. tu_reapsChildProcesses (snd uf))" for index
    by (induction units arbitrary: index) auto
  then show "isDefinedSomewhere (indexOf units) symbol \<longleftrightarrow> (\<exists>uf \<in> set units. symbol \<in> ps_definedGlobals (tu_program (snd uf)))"
    "resolvesHandleElsewhere (indexOf units) symbol \<longleftrightarrow> (\<exists>uf \<in> set units. symbol \<in> resolvedHandles (snd uf))"
    "programReapsChildren (indexOf units) \<longleftrightarrow> (\<exists>uf \<in> set units. tu_reapsChildProcesses (snd uf))"
    by (simp_all add: indexOf_def isDefinedSomewhere_def resolvesHandleElsewhere_def programReapsChildren_def empty_index_def)
qed

lemma createsThreads_answer:
  "index_programCreatesThreads (indexOf units) \<longleftrightarrow> (\<exists>symbol. isThreadEntry (indexOf units) symbol)"
  unfolding index_programCreatesThreads_def isThreadEntry_def
  by (cases "pi_spawnSitesByEntry (indexOf units)") auto

section \<open>Properties\<close>

text \<open>
  C15: The spawns of an entry add up over the program: its instance count is the sum over the units of
  what each counted, it is spawned in a loop when some unit does so, and a function appears in
  several units exactly when two different units show it, however often each was added.
\<close>
theorem index_counts:
  "spawnCount (indexOf units) symbol = sum_list (map ec_staticSpawnCount (entrySpawnsOf units symbol)) \<and>
   (spawnedInLoop (indexOf units) symbol \<longleftrightarrow> (\<exists>c \<in> set (entrySpawnsOf units symbol). ec_hasSpawnInLoop c)) \<and>
   (isThreadEntry (indexOf units) symbol \<longleftrightarrow> entrySpawnsOf units symbol \<noteq> []) \<and>
   (appearsInSeveralUnits (indexOf units) symbol \<longleftrightarrow>
      (\<exists>u v. u \<in> unitsShowing units symbol \<and> v \<in> unitsShowing units symbol \<and> u \<noteq> v))"
  by (simp add: spawn_answers unitsShowing_answers)

lemma entrySpawnsOf_mset:
  "mset units = mset units' \<Longrightarrow> mset (entrySpawnsOf units symbol) = mset (entrySpawnsOf units' symbol)"
  unfolding entrySpawnsOf_def mset_concat map_map by (simp add: mset_map flip: sum_mset_sum_list)

lemma answers_independent:
  assumes "mset units = mset units'"
  shows "isThreadEntry (indexOf units) = isThreadEntry (indexOf units')"
    and "spawnCount (indexOf units) = spawnCount (indexOf units')"
    and "spawnedInLoop (indexOf units) = spawnedInLoop (indexOf units')"
    and "appearsInSeveralUnits (indexOf units) = appearsInSeveralUnits (indexOf units')"
    and "lockSummaryFor (indexOf units) symbol = None \<longleftrightarrow> lockSummaryFor (indexOf units') symbol = None"
    and "joinedParametersOf (indexOf units) symbol = None \<longleftrightarrow> joinedParametersOf (indexOf units') symbol = None"
    and "isDefinedSomewhere (indexOf units) = isDefinedSomewhere (indexOf units')"
    and "resolvesHandleElsewhere (indexOf units) = resolvesHandleElsewhere (indexOf units')"
    and "programReapsChildren (indexOf units) = programReapsChildren (indexOf units')"
    and "index_programCreatesThreads (indexOf units) = index_programCreatesThreads (indexOf units')"
proof -
  have units: "set units = set units'" using assms by (rule mset_eq_setD)
  have spawns: "mset (entrySpawnsOf units s) = mset (entrySpawnsOf units' s)" for s
    using assms by (rule entrySpawnsOf_mset)
  have same_set: "set (entrySpawnsOf units s) = set (entrySpawnsOf units' s)" for s
    using spawns by (rule mset_eq_setD)
  have sums: "sum_list (map ec_staticSpawnCount (entrySpawnsOf units s)) = sum_list (map ec_staticSpawnCount (entrySpawnsOf units' s))" for s
    by (metis mset_map spawns sum_mset_sum_list)
  show "isThreadEntry (indexOf units) = isThreadEntry (indexOf units')"
    "spawnedInLoop (indexOf units) = spawnedInLoop (indexOf units')"
    by (simp_all add: spawn_answers fun_eq_iff same_set set_empty [symmetric] del: set_empty)
  then show "index_programCreatesThreads (indexOf units) = index_programCreatesThreads (indexOf units')"
    by (simp add: createsThreads_answer)
  show "spawnCount (indexOf units) = spawnCount (indexOf units')" by (simp add: spawn_answers sums fun_eq_iff)
  show "appearsInSeveralUnits (indexOf units) = appearsInSeveralUnits (indexOf units')"
    by (simp add: unitsShowing_answers unitsShowing_def units fun_eq_iff)
  show "lockSummaryFor (indexOf units) symbol = None \<longleftrightarrow> lockSummaryFor (indexOf units') symbol = None"
    "joinedParametersOf (indexOf units) symbol = None \<longleftrightarrow> joinedParametersOf (indexOf units') symbol = None"
    using helper_answers [of units symbol] helper_answers [of units' symbol] unfolding units by auto
  show "isDefinedSomewhere (indexOf units) = isDefinedSomewhere (indexOf units')"
    "resolvesHandleElsewhere (indexOf units) = resolvesHandleElsewhere (indexOf units')"
    "programReapsChildren (indexOf units) = programReapsChildren (indexOf units')"
    by (simp_all add: set_answers units fun_eq_iff)
qed

lemma gate_independent:
  assumes "mset units = mset units'"
  shows "crossTUChangesFacts facts (indexOf units) selection = crossTUChangesFacts facts (indexOf units') selection"
  unfolding crossTUChangesFacts_def Let_def
  by (simp only: answers_independent [OF assms])

text \<open>
  Units may be added to the index in any order: every question of the gate, and so the decision
  which units to analyse again, has the same answer.
\<close>
theorem index_order_irrelevant:
  assumes "mset units = mset units'"
  shows "crossTUChangesFacts facts (indexOf units) selection = crossTUChangesFacts facts (indexOf units') selection \<and>
    spawnCount (indexOf units) = spawnCount (indexOf units') \<and>
    spawnedInLoop (indexOf units) = spawnedInLoop (indexOf units') \<and>
    appearsInSeveralUnits (indexOf units) = appearsInSeveralUnits (indexOf units')"
  using gate_independent [OF assms] answers_independent [OF assms] by simp

theorem index_order_irrelevant_witness:
  "spawnCount (indexOf [(0, no_facts), (1, no_facts\<lparr>tu_reapsChildProcesses := True\<rparr>)]) =
   spawnCount (indexOf [(1, no_facts\<lparr>tu_reapsChildProcesses := True\<rparr>), (0, no_facts)])"
  using index_order_irrelevant [of "[(0, no_facts), (1, no_facts\<lparr>tu_reapsChildProcesses := True\<rparr>)]"
      "[(1, no_facts\<lparr>tu_reapsChildProcesses := True\<rparr>), (0, no_facts)]"]
  by (simp add: add_mset_commute)

text \<open>
  The contents of a helper's summary are another matter: the first unit to describe a symbol wins, so
  two units that describe one helper differently leave an index that depends on their order.
\<close>

definition describing :: "ParameterLockEffect list \<Rightarrow> TUFacts" where
  "describing effects = no_facts\<lparr>tu_lockWrapperSummaries := [(''f'', effects)],
     tu_program := no_program\<lparr>ps_functionSymbolsById := [(''f'', ''f'')]\<rparr>\<rparr>"

lemma lockSummary_first_wins:
  "lockSummaryFor (indexOf [(0, describing [e]), (1, describing [])]) ''f'' = Some [e] \<and>
   lockSummaryFor (indexOf [(1, describing []), (0, describing [e])]) ''f'' = Some []"
  by (simp add: lockSummaryFor_def indexOf_def addUnit_def describing_def helpersBySymbol_def bySymbol_def
      map_filter_simps emplace_def empty_index_def no_facts_def no_program_def Let_def)

text \<open>
  A handle the unit resolves itself also opens the gate: the index answers for every unit, the one
  that asks included.
\<close>

definition joiningItself :: TUFacts where
  "joiningItself = no_facts\<lparr>tu_threadLifecycles := [sample_lifecycle TL_Create ''h'' None],
     tu_resolvedGlobalHandleIds := {''h''},
     tu_program := no_program\<lparr>ps_handleSymbolsByGroupId := [(''h'', ''h'')]\<rparr>\<rparr>"

lemma own_handle_opens_gate:
  "crossTUChangesFacts joiningItself (indexOf [(0, joiningItself)]) (forRules [MissingJoin] True)"
  by (simp add: crossTUChangesFacts_def set_answers resolvedHandles_def joiningItself_def no_facts_def no_program_def
      sample_lifecycle_def forRules_def on_channels_def no_selection_def no_channels_def Let_def)

end
