(* ===== verification/Error_Codes.thy ===== *)
theory Error_Codes
  imports Prelude
begin

text \<open>
  The errors of the compilation and loading phases (\<open>coretrace_concurrency_error.cpp\<close>). An error code
  is a number with its category; the category of this library is told apart from the others, which
  bring a name and a message of their own.
\<close>

datatype CompilePhase = Phase_None | ValidateInput | BuildCommand | BackendCompile | IRParse

datatype CompileErrc =
    Success | InvalidRequest | InputFileAccessFailed | InputFileDoesNotExist | InputFileNotRegular
  | InputFileNotReadable | TemporaryBitcodeFileCreationFailed | BackendCompilationFailed
  | MissingIROutput | BitcodeReadFailed | IRParseFailed | BitcodeParseFailed

datatype error_code =
    CompileCode (ec_number: int)
  | ForeignCode (ec_categoryName: string) (ec_number: int) (ec_text: string)

record CompileError =
  ce_code :: error_code
  ce_phase :: CompilePhase
  ce_message :: string

fun errc_value :: "CompileErrc \<Rightarrow> int" where
  "errc_value Success = 0"
| "errc_value InvalidRequest = 1"
| "errc_value InputFileAccessFailed = 2"
| "errc_value InputFileDoesNotExist = 3"
| "errc_value InputFileNotRegular = 4"
| "errc_value InputFileNotReadable = 5"
| "errc_value TemporaryBitcodeFileCreationFailed = 6"
| "errc_value BackendCompilationFailed = 7"
| "errc_value MissingIROutput = 8"
| "errc_value BitcodeReadFailed = 9"
| "errc_value IRParseFailed = 10"
| "errc_value BitcodeParseFailed = 11"

text \<open>The enumerator a number is cast to; a number with none falls through every \<open>case\<close>.\<close>

definition errc_of :: "int \<Rightarrow> CompileErrc option" where
  "errc_of n =
     List.find (\<lambda>e. errc_value e = n)
       [Success, InvalidRequest, InputFileAccessFailed, InputFileDoesNotExist, InputFileNotRegular,
        InputFileNotReadable, TemporaryBitcodeFileCreationFailed, BackendCompilationFailed,
        MissingIROutput, BitcodeReadFailed, IRParseFailed, BitcodeParseFailed]"

definition no_error :: CompileError where
  "no_error = \<lparr>ce_code = CompileCode 0, ce_phase = Phase_None, ce_message = []\<rparr>"

definition hasError :: "CompileError \<Rightarrow> bool" where
  "hasError err \<longleftrightarrow> ec_number (ce_code err) \<noteq> 0"

definition make_error_code :: "CompileErrc \<Rightarrow> error_code" where
  "make_error_code err = CompileCode (errc_value err)"

fun errc_message :: "CompileErrc \<Rightarrow> string" where
  "errc_message Success = ''success''"
| "errc_message InvalidRequest = ''invalid compile request''"
| "errc_message InputFileAccessFailed = ''failed to access input file''"
| "errc_message InputFileDoesNotExist = ''input file does not exist''"
| "errc_message InputFileNotRegular = ''input path is not a regular file''"
| "errc_message InputFileNotReadable = ''input file is not readable''"
| "errc_message TemporaryBitcodeFileCreationFailed = ''failed to create temporary bitcode file''"
| "errc_message BackendCompilationFailed = ''compiler backend failed''"
| "errc_message MissingIROutput = ''compiler backend did not produce expected LLVM IR output''"
| "errc_message BitcodeReadFailed = ''failed to read bitcode output''"
| "errc_message IRParseFailed = ''failed to parse LLVM IR''"
| "errc_message BitcodeParseFailed = ''failed to parse LLVM bitcode''"

definition code_message :: "error_code \<Rightarrow> string" where
  "code_message code =
     (case code of
        CompileCode n \<Rightarrow> (case errc_of n of None \<Rightarrow> ''unknown compile error'' | Some e \<Rightarrow> errc_message e)
      | ForeignCode _ _ text \<Rightarrow> text)"

fun phase_name :: "CompilePhase \<Rightarrow> string" where
  "phase_name Phase_None = ''none''"
| "phase_name ValidateInput = ''validate_input''"
| "phase_name BuildCommand = ''build_command''"
| "phase_name BackendCompile = ''backend_compile''"
| "phase_name IRParse = ''ir_parse''"

fun errc_name :: "CompileErrc \<Rightarrow> string" where
  "errc_name Success = ''success''"
| "errc_name InvalidRequest = ''invalid_request''"
| "errc_name InputFileAccessFailed = ''input_file_access_failed''"
| "errc_name InputFileDoesNotExist = ''input_file_does_not_exist''"
| "errc_name InputFileNotRegular = ''input_file_not_regular''"
| "errc_name InputFileNotReadable = ''input_file_not_readable''"
| "errc_name TemporaryBitcodeFileCreationFailed = ''temporary_bitcode_file_creation_failed''"
| "errc_name BackendCompilationFailed = ''backend_compilation_failed''"
| "errc_name MissingIROutput = ''missing_ir_output''"
| "errc_name BitcodeReadFailed = ''bitcode_read_failed''"
| "errc_name IRParseFailed = ''ir_parse_failed''"
| "errc_name BitcodeParseFailed = ''bitcode_parse_failed''"

definition code_name :: "error_code \<Rightarrow> string" where
  "code_name code =
     (case code of
        CompileCode n \<Rightarrow> (case errc_of n of None \<Rightarrow> ''unknown_compile_error'' | Some e \<Rightarrow> errc_name e)
      | ForeignCode name _ _ \<Rightarrow> name)"

definition formatCompileError :: "CompileError \<Rightarrow> string" where
  "formatCompileError err =
     (if ec_number (ce_code err) = 0 then []
      else
        (if ce_phase err \<noteq> Phase_None then phase_name (ce_phase err) @ '': '' else []) @
        code_name (ce_code err) @ '': '' @ code_message (ce_code err) @
        (if ce_message err \<noteq> [] then '' ('' @ ce_message err @ '')'' else []))"

lemma errc_of_value [simp]: "errc_of (errc_value e) = Some e"
  by (cases e) (simp_all add: errc_of_def)

lemma errc_name_chars: "CHR '':'' \<notin> set (errc_name e)"
  by (cases e) simp_all

lemma phase_name_chars: "CHR '':'' \<notin> set (phase_name p)"
  by (cases p) simp_all

lemma errc_name_inject: "errc_name e = errc_name e' \<longleftrightarrow> e = e'"
  by (cases e; cases e') simp_all

lemma phase_name_inject: "phase_name p = phase_name p' \<longleftrightarrow> p = p'"
  by (cases p; cases p') simp_all

text \<open>
  A formatted error of this library tells its phase, its code and its message apart: two errors
  raised in some phase whose texts are equal are the same error.
\<close>
theorem formatCompileError_inject:
  fixes p p' :: CompilePhase
  defines err_def: "err \<equiv> \<lambda>p e m. \<lparr>ce_code = make_error_code e, ce_phase = p, ce_message = m\<rparr>"
  assumes codes: "e \<noteq> Success" "e' \<noteq> Success" and phases: "p \<noteq> Phase_None" "p' \<noteq> Phase_None"
    and same: "formatCompileError (err p e m) = formatCompileError (err p' e' m')"
  shows "p = p' \<and> e = e' \<and> m = m'"
proof -
  have "errc_value e = 0 \<longleftrightarrow> e = Success" for e by (cases e) simp_all
  with codes have nonzero: "errc_value e \<noteq> 0" "errc_value e' \<noteq> 0" by blast+
  have shape: "formatCompileError (err p e m) = phase_name p @ CHR '':'' # '' '' @ errc_name e @ CHR '':'' # '' '' @
      errc_message e @ (if m \<noteq> [] then '' ('' @ m @ '')'' else [])"
    if "p \<noteq> Phase_None" "errc_value e \<noteq> 0" for p e m
    using that by (simp add: formatCompileError_def err_def make_error_code_def code_name_def code_message_def)
  have "phase_name p = phase_name p' \<and> '' '' @ errc_name e @ CHR '':'' # '' '' @ errc_message e @ (if m \<noteq> [] then '' ('' @ m @ '')'' else []) =
     '' '' @ errc_name e' @ CHR '':'' # '' '' @ errc_message e' @ (if m' \<noteq> [] then '' ('' @ m' @ '')'' else [])"
    using same unfolding shape [OF phases(1) nonzero(1)] shape [OF phases(2) nonzero(2)]
    by (rule split_at_delimiter [OF _ phase_name_chars phase_name_chars])
  then have p: "p = p'" and rest: "errc_name e @ CHR '':'' # '' '' @ errc_message e @ (if m \<noteq> [] then '' ('' @ m @ '')'' else []) =
     errc_name e' @ CHR '':'' # '' '' @ errc_message e' @ (if m' \<noteq> [] then '' ('' @ m' @ '')'' else [])"
    by (simp_all add: phase_name_inject)
  from rest have "errc_name e = errc_name e' \<and> '' '' @ errc_message e @ (if m \<noteq> [] then '' ('' @ m @ '')'' else []) =
     '' '' @ errc_message e' @ (if m' \<noteq> [] then '' ('' @ m' @ '')'' else [])"
    by (rule split_at_delimiter [OF _ errc_name_chars errc_name_chars])
  then show ?thesis using p by (auto simp: errc_name_inject split: if_splits)
qed

theorem formatCompileError_inject_witness:
  "formatCompileError \<lparr>ce_code = make_error_code IRParseFailed, ce_phase = IRParse, ce_message = ''x''\<rparr> \<noteq>
   formatCompileError \<lparr>ce_code = make_error_code IRParseFailed, ce_phase = IRParse, ce_message = ''y''\<rparr>"
  using formatCompileError_inject [of IRParseFailed IRParseFailed IRParse IRParse "''x''" "''y''"] by auto

end
