(* ===== verification/Coordinator.thy ===== *)
theory Coordinator
  imports Symbol_Index Report_Builder Error_Codes Lock_Order_Proofs
begin

text \<open>
  The two analyses: of one translation unit (\<open>SingleTUConcurrencyAnalyzer::analyze\<close> of
  \<open>coretrace_concurrency_analysis.cpp\<close>) and of a project
  (\<open>analysis/cross_tu/inter_tu_coordinator.cpp\<close>). The builder of a unit's facts and the loader of its
  bitcode are arguments. The workers of a pass finish in any order: a schedule gives the order in
  which the tasks of a pass take effect, and the theorems show on what it can have an influence.
\<close>

section \<open>The units of a project\<close>

record FileBitcode =
  fb_path :: string
  fb_size :: u64
  fb_digest :: u64
  fb_error :: CompileError

record ProjectUnit =
  pu_identifier :: string
  pu_bitcode :: string
  pu_file :: "FileBitcode option"

text \<open>A file system tells the bytes of a file, or the message of the error that reading it raises.\<close>

type_synonym file_system = "string \<Rightarrow> string + string"

definition bitcodeReadError :: "string \<Rightarrow> CompileError" where
  "bitcodeReadError message =
     \<lparr>ce_code = make_error_code BitcodeReadFailed, ce_phase = IRParse, ce_message = message\<rparr>"

definition cannotRead :: "string \<Rightarrow> string \<Rightarrow> string" where
  "cannotRead path err = ''cannot read bitcode from '' @ [CHR 0x27] @ path @ [CHR 0x27] @ '': '' @ err"

definition add :: "string \<Rightarrow> string \<Rightarrow> ProjectUnit list \<Rightarrow> ProjectUnit list" where
  "add identifier bitcode units =
     units @ [\<lparr>pu_identifier = identifier, pu_bitcode = bitcode, pu_file = None\<rparr>]"

definition addFile ::
  "file_system \<Rightarrow> (string \<Rightarrow> u64) \<Rightarrow> string \<Rightarrow> string \<Rightarrow> ProjectUnit list \<Rightarrow> ProjectUnit list" where
  "addFile files digest identifier path units =
     (let blank = \<lparr>fb_path = path, fb_size = 0, fb_digest = 0, fb_error = no_error\<rparr>;
          file = (case files path of
                    Inr bytes \<Rightarrow> blank\<lparr>fb_size := word_of_nat (length bytes), fb_digest := digest bytes\<rparr>
                  | Inl err \<Rightarrow> blank\<lparr>fb_error := bitcodeReadError (cannotRead path err)\<rparr>)
      in units @ [\<lparr>pu_identifier = identifier, pu_bitcode = [], pu_file = Some file\<rparr>])"

definition bitcodeBytes :: "ProjectUnit list \<Rightarrow> u64" where
  "bitcodeBytes units = fold (\<lambda>unit total. total + word_of_nat (length (pu_bitcode unit))) units 0"

text \<open>An index out of range throws, which is \<open>None\<close>.\<close>

definition load ::
  "file_system \<Rightarrow> (string \<Rightarrow> u64) \<Rightarrow> (string \<Rightarrow> string \<Rightarrow> CompileError + 'm) \<Rightarrow> ProjectUnit list \<Rightarrow>
   nat \<Rightarrow> (CompileError + 'm) option" where
  "load files digest parseBC units index =
     (if index \<ge> length units then None
      else
        (let unit = units ! index
         in case pu_file unit of
              None \<Rightarrow> Some (parseBC (pu_bitcode unit) (pu_identifier unit))
            | Some file \<Rightarrow>
                if hasError (fb_error file) then Some (Inl (fb_error file))
                else
                  (case files (fb_path file) of
                     Inl err \<Rightarrow> Some (Inl (bitcodeReadError (cannotRead (fb_path file) err)))
                   | Inr bytes \<Rightarrow>
                       if word_of_nat (length bytes) \<noteq> fb_size file \<or> digest bytes \<noteq> fb_digest file
                       then Some (Inl (bitcodeReadError (''bitcode in '' @ [CHR 0x27] @ fb_path file @
                              [CHR 0x27] @ '' changed since the unit was added'')))
                       else Some (parseBC bytes (pu_identifier unit)))))"

section \<open>The report of one unit\<close>

definition appendDiagnostics :: "DiagnosticReport \<Rightarrow> DiagnosticReport \<Rightarrow> DiagnosticReport" where
  "appendDiagnostics report partial =
     report\<lparr>rp_diagnostics := rp_diagnostics report @ rp_diagnostics partial,
            rp_notices := rp_notices report @ rp_notices partial\<rparr>"

definition runIf :: "bool \<Rightarrow> DiagnosticReport \<Rightarrow> DiagnosticReport \<Rightarrow> DiagnosticReport" where
  "runIf enabled partial report = (if enabled then appendDiagnostics report partial else report)"

text \<open>
  The checkers of the enabled rules in their order. The missing-join detector always returns
  (\<open>missingJoinRun_result\<close>), so taking its result with \<open>the\<close> loses nothing.
\<close>

definition checkUnit :: "AnalysisOptions \<Rightarrow> TUFacts \<Rightarrow> DiagnosticReport" where
  "checkUnit opts facts =
     (let report = runIf (isEnabled opts DataRaceGlobal) (dataRaceRun facts) empty_report;
          report = runIf (isEnabled opts DeadlockLockOrder) (lockOrderRun facts) report;
          report = runIf (isEnabled opts MissingJoin) (the (missingJoinRun facts)) report;
          report = runIf (isEnabled opts ConditionWaitWithoutPredicate) (conditionWaitRun facts) report;
          report = runIf (isEnabled opts WeakPublicationOrdering) (publicationOrderingRun facts) report;
          processReport = processLifecycleRun facts;
          processReport = processReport\<lparr>rp_diagnostics :=
            filter (\<lambda>d. isEnabled opts (d_ruleId d)) (rp_diagnostics processReport)\<rparr>
      in runIf (isEnabled opts ForkAfterThreadCreation \<or> isEnabled opts UnreapedChildProcess \<or>
                isEnabled opts ThreadArgumentEscapesFrame \<or> isEnabled opts ThreadArgumentFreedEarly \<or>
                isEnabled opts ThreadLocalOutlivesThread \<or> isEnabled opts UnsafeSignalHandler)
           processReport report)"

definition singleAnalyze ::
  "('m \<Rightarrow> FactSelection \<Rightarrow> ProgramSymbolIndex option \<Rightarrow> TUFacts) \<Rightarrow> AnalysisOptions \<Rightarrow> 'm \<Rightarrow> DiagnosticReport" where
  "singleAnalyze build opts module =
     (let selection = forRules (ao_enabledRules opts) False;
          facts = build module selection None
      in finalizeReport (checkUnit opts facts) facts (se_accesses selection))"

section \<open>The project\<close>

record FailedUnit =
  fa_identifier :: string
  fa_error :: CompileError

record ProjectAnalysis =
  pa_report :: DiagnosticReport
  pa_skippedIncompatibleModules :: "string list"
  pa_reanalyzedUnitCount :: nat
  pa_failedUnits :: "FailedUnit list"

definition empty_analysis :: ProjectAnalysis where
  "empty_analysis = \<lparr>pa_report = empty_report, pa_skippedIncompatibleModules = [],
     pa_reanalyzedUnitCount = 0, pa_failedUnits = []\<rparr>"

definition complete :: "ProjectAnalysis \<Rightarrow> bool" where
  "complete analysis \<longleftrightarrow> pa_failedUnits analysis = []"

definition diagnosticKey :: "Diagnostic \<Rightarrow> string" where
  "diagnosticKey d =
     d_id d @ ''|'' @ sl_file (d_location d) @ '':'' @ to_string_nat (sl_line (d_location d)) @ '':'' @
     to_string_nat (sl_column (d_location d)) @ ''|'' @ d_message d"

text \<open>What the loader and the builder bring: each pass loads the units anew.\<close>

record 'm Project =
  pr_identifiers :: "string list"
  pr_load :: "nat \<Rightarrow> nat \<Rightarrow> CompileError + 'm"
  pr_build :: "'m \<Rightarrow> FactSelection \<Rightarrow> ProgramSymbolIndex option \<Rightarrow> TUFacts"

record PassState =
  st_facts :: "TUFacts list"
  st_failed :: "bool list"
  st_failures :: "(nat \<times> FailedUnit) list"

definition analyseUnit ::
  "'m Project \<Rightarrow> FactSelection \<Rightarrow> nat \<Rightarrow> ProgramSymbolIndex \<Rightarrow> nat \<Rightarrow> PassState \<Rightarrow> PassState" where
  "analyseUnit project selection pass program index st =
     (case pr_load project pass index of
        Inl err \<Rightarrow>
          st\<lparr>st_failed := (st_failed st)[index := True],
             st_facts := (st_facts st)[index := no_facts],
             st_failures := st_failures st @
               [(index, \<lparr>fa_identifier = pr_identifiers project ! index, fa_error = err\<rparr>)]\<rparr>
      | Inr module \<Rightarrow>
          st\<lparr>st_facts := (st_facts st)[index := pr_build project module selection (Some program)]\<rparr>)"

definition abiOf :: "PassState \<Rightarrow> nat \<Rightarrow> string" where
  "abiOf st index = ps_abiKey (tu_program (st_facts st ! index))"

definition unitCountByAbi :: "PassState \<Rightarrow> (string \<times> nat) list" where
  "unitCountByAbi st =
     fold (\<lambda>index. omap_update (abiOf st index) (\<lambda>n. (case n of None \<Rightarrow> 0 | Some n \<Rightarrow> n) + 1))
       (filter (\<lambda>index. \<not> st_failed st ! index) [0 ..< length (st_facts st)]) []"

text \<open>\<open>std::max_element\<close>: the first entry that no later one exceeds.\<close>

fun max_element :: "('k \<times> nat) \<Rightarrow> ('k \<times> nat) list \<Rightarrow> 'k \<times> nat" where
  "max_element largest [] = largest"
| "max_element largest (e # es) = max_element (if snd largest < snd e then e else largest) es"

definition mergeDiagnostic :: "Diagnostic \<Rightarrow> string set \<times> DiagnosticReport \<Rightarrow> string set \<times> DiagnosticReport" where
  "mergeDiagnostic d st =
     (let (reported, report) = st
      in if diagnosticKey d \<in> reported then st
         else (insert (diagnosticKey d) reported, emit report d))"

definition mergeNotice :: "AnalysisNotice \<Rightarrow> DiagnosticReport \<Rightarrow> DiagnosticReport" where
  "mergeNotice notice report =
     (if notice \<in> set (rp_notices report) then report
      else report\<lparr>rp_notices := rp_notices report @ [notice]\<rparr>)"

definition mergeModule :: "DiagnosticReport \<Rightarrow> string set \<times> DiagnosticReport \<Rightarrow> string set \<times> DiagnosticReport" where
  "mergeModule moduleReport st =
     (let (reported, report) = fold mergeDiagnostic (rp_diagnostics moduleReport) st;
          report = fold mergeNotice (rp_notices moduleReport) report
      in (reported, report\<lparr>rp_functions := rp_functions report @ rp_functions moduleReport\<rparr>))"

definition moduleReport :: "AnalysisOptions \<Rightarrow> FactSelection \<Rightarrow> TUFacts \<Rightarrow> DiagnosticReport" where
  "moduleReport opts selection facts =
     finalizeReport (checkUnit opts facts) facts (se_accesses selection)"

definition mergedReport :: "AnalysisOptions \<Rightarrow> FactSelection \<Rightarrow> TUFacts list \<Rightarrow> DiagnosticReport" where
  "mergedReport opts selection factsOfUnits =
     (let report = snd (fold (\<lambda>facts. mergeModule (moduleReport opts selection facts)) factsOfUnits ({}, empty_report))
      in report\<lparr>rp_diagnosticsSummary := computeSummary (rp_diagnostics report)\<rparr>)"

definition initialState :: "'m Project \<Rightarrow> PassState" where
  "initialState project =
     (let n = length (pr_identifiers project)
      in \<lparr>st_facts = replicate n no_facts, st_failed = replicate n False, st_failures = []\<rparr>)"

definition analyze ::
  "'m Project \<Rightarrow> AnalysisOptions \<Rightarrow> (nat list \<Rightarrow> nat list) \<Rightarrow> (nat list \<Rightarrow> nat list) \<Rightarrow> ProjectAnalysis" where
  "analyze project opts scheduleA scheduleB =
     (let unitCount = length (pr_identifiers project)
      in if unitCount = 0 then empty_analysis
         else
           (let selection = forRules (ao_enabledRules opts) True;
                st = fold (analyseUnit project selection 0 empty_index) (scheduleA [0 ..< unitCount])
                       (initialState project)
            in case unitCountByAbi st of
                 [] \<Rightarrow> empty_analysis\<lparr>pa_failedUnits := map snd (st_failures st)\<rparr>
               | first # others \<Rightarrow>
                   (let dominantAbi = fst (max_element first others);
                        loaded = filter (\<lambda>index. \<not> st_failed st ! index) [0 ..< unitCount];
                        compatible = filter (\<lambda>index. abiOf st index = dominantAbi) loaded;
                        skipped = filter (\<lambda>index. abiOf st index \<noteq> dominantAbi) loaded;
                        programIndex = indexOf (map (\<lambda>index. (index, st_facts st ! index)) compatible);
                        again = filter (\<lambda>index. crossTUChangesFacts (st_facts st ! index) programIndex selection)
                                  compatible;
                        st = fold (analyseUnit project selection 1 programIndex) (scheduleB again) st
                    in \<lparr>pa_report = mergedReport opts selection
                          (map (\<lambda>index. st_facts st ! index)
                            (filter (\<lambda>index. \<not> st_failed st ! index) compatible)),
                        pa_skippedIncompatibleModules = map (\<lambda>index. pr_identifiers project ! index) skipped,
                        pa_reanalyzedUnitCount = length again,
                        pa_failedUnits = map snd (sort_key fst (st_failures st))\<rparr>)))"

section \<open>A pass and its schedule\<close>

definition failureOf :: "'m Project \<Rightarrow> nat \<Rightarrow> nat \<Rightarrow> nat \<times> FailedUnit" where
  "failureOf project pass index =
     (index, \<lparr>fa_identifier = pr_identifiers project ! index, fa_error = projl (pr_load project pass index)\<rparr>)"

definition factsAfter :: "'m Project \<Rightarrow> FactSelection \<Rightarrow> nat \<Rightarrow> ProgramSymbolIndex \<Rightarrow> nat \<Rightarrow> TUFacts" where
  "factsAfter project selection pass program index =
     (case pr_load project pass index of Inl _ \<Rightarrow> no_facts | Inr m \<Rightarrow> pr_build project m selection (Some program))"

lemma analyseUnit_lengths [simp]:
  "length (st_facts (analyseUnit P sel pass prog i st)) = length (st_facts st)"
  "length (st_failed (analyseUnit P sel pass prog i st)) = length (st_failed st)"
  by (simp_all add: analyseUnit_def split: sum.split)

lemma analyseUnit_entries:
  "j < length (st_facts st) \<Longrightarrow> st_facts (analyseUnit P sel pass prog i st) ! j =
     (if j = i then factsAfter P sel pass prog j else st_facts st ! j)"
  "j < length (st_failed st) \<Longrightarrow> st_failed (analyseUnit P sel pass prog i st) ! j \<longleftrightarrow>
     st_failed st ! j \<or> j = i \<and> isl (pr_load P pass j)"
  "st_failures (analyseUnit P sel pass prog i st) =
     st_failures st @ (if isl (pr_load P pass i) then [failureOf P pass i] else [])"
  by (cases "j = i"; auto simp: analyseUnit_def factsAfter_def failureOf_def split: sum.split)+

lemma pass_lengths [simp]:
  "length (st_facts (fold (analyseUnit P sel pass prog) is st)) = length (st_facts st)"
  "length (st_failed (fold (analyseUnit P sel pass prog) is st)) = length (st_failed st)"
  by (induction "is" arbitrary: st) simp_all

lemma pass_facts:
  "j < length (st_facts st) \<Longrightarrow> st_facts (fold (analyseUnit P sel pass prog) is st) ! j =
     (if j \<in> set is then factsAfter P sel pass prog j else st_facts st ! j)"
  by (induction "is" arbitrary: st) (auto simp: analyseUnit_entries)

lemma pass_failed:
  "j < length (st_failed st) \<Longrightarrow> st_failed (fold (analyseUnit P sel pass prog) is st) ! j \<longleftrightarrow>
     st_failed st ! j \<or> j \<in> set is \<and> isl (pr_load P pass j)"
  by (induction "is" arbitrary: st) (auto simp: analyseUnit_entries)

lemma pass_failures:
  "st_failures (fold (analyseUnit P sel pass prog) is st) =
     st_failures st @ map (failureOf P pass) (filter (\<lambda>i. isl (pr_load P pass i)) is)"
  by (induction "is" arbitrary: st) (simp_all add: analyseUnit_entries)

text \<open>Two orders of the same tasks leave the same facts and flags, and the failures in some order.\<close>

lemma pass_schedule:
  assumes "mset is = mset is'"
  shows "st_facts (fold (analyseUnit P sel pass prog) is st) = st_facts (fold (analyseUnit P sel pass prog) is' st)"
    and "st_failed (fold (analyseUnit P sel pass prog) is st) = st_failed (fold (analyseUnit P sel pass prog) is' st)"
    and "mset (st_failures (fold (analyseUnit P sel pass prog) is st)) = mset (st_failures (fold (analyseUnit P sel pass prog) is' st))"
proof -
  have same: "set is = set is'" using assms by (rule mset_eq_setD)
  show "st_facts (fold (analyseUnit P sel pass prog) is st) = st_facts (fold (analyseUnit P sel pass prog) is' st)"
    by (rule nth_equalityI) (simp_all add: pass_facts same)
  show "st_failed (fold (analyseUnit P sel pass prog) is st) = st_failed (fold (analyseUnit P sel pass prog) is' st)"
    by (rule nth_equalityI) (simp_all add: pass_failed same)
  show "mset (st_failures (fold (analyseUnit P sel pass prog) is st)) = mset (st_failures (fold (analyseUnit P sel pass prog) is' st))"
    by (simp add: pass_failures assms mset_filter)
qed

lemma unitCountByAbi_empty:
  assumes "length (st_failed st) = length (st_facts st)"
  shows "unitCountByAbi st = [] \<longleftrightarrow> (\<forall>i < length (st_facts st). st_failed st ! i)"
proof -
  have "fst ` set (unitCountByAbi st) = abiOf st ` set (filter (\<lambda>i. \<not> st_failed st ! i) [0 ..< length (st_facts st)])"
    unfolding unitCountByAbi_def om.keys_fold [OF om.inv_empty] by simp
  then have "unitCountByAbi st = [] \<longleftrightarrow> filter (\<lambda>i. \<not> st_failed st ! i) [0 ..< length (st_facts st)] = []"
    by (metis image_is_empty list.set(1) set_empty)
  then show ?thesis by (auto simp: filter_empty_conv)
qed

text \<open>The state after the first pass, whatever its schedule.\<close>

definition afterA :: "'m Project \<Rightarrow> AnalysisOptions \<Rightarrow> nat list \<Rightarrow> PassState" where
  "afterA project opts order =
     fold (analyseUnit project (forRules (ao_enabledRules opts) True) 0 empty_index) order (initialState project)"

definition isSchedule :: "(nat list \<Rightarrow> nat list) \<Rightarrow> bool" where
  "isSchedule schedule \<longleftrightarrow> (\<forall>tasks. mset (schedule tasks) = mset tasks)"

lemma afterA_schedule:
  assumes "isSchedule s" "isSchedule s'"
  shows "st_facts (afterA P opts (s is)) = st_facts (afterA P opts (s' is))"
    and "st_failed (afterA P opts (s is)) = st_failed (afterA P opts (s' is))"
    and "mset (st_failures (afterA P opts (s is))) = mset (st_failures (afterA P opts (s' is)))"
  using pass_schedule [of "s is" "s' is"] assms by (simp_all add: afterA_def isSchedule_def)

lemma abi_cong:
  "st_facts st = st_facts st' \<Longrightarrow> abiOf st = abiOf st'"
  "st_facts st = st_facts st' \<Longrightarrow> st_failed st = st_failed st' \<Longrightarrow> unitCountByAbi st = unitCountByAbi st'"
  by (simp_all add: abiOf_def unitCountByAbi_def fun_eq_iff)

lemma afterA_entries:
  assumes "isSchedule s" "j < length (pr_identifiers P)"
  shows "st_facts (afterA P opts (s [0 ..< length (pr_identifiers P)])) ! j =
      factsAfter P (forRules (ao_enabledRules opts) True) 0 empty_index j"
    and "st_failed (afterA P opts (s [0 ..< length (pr_identifiers P)])) ! j \<longleftrightarrow> isl (pr_load P 0 j)"
proof -
  have "set (s [0 ..< length (pr_identifiers P)]) = {0 ..< length (pr_identifiers P)}"
    using assms(1) mset_eq_setD [of "s [0 ..< length (pr_identifiers P)]" "[0 ..< length (pr_identifiers P)]"]
    by (simp add: isSchedule_def)
  then show "st_facts (afterA P opts (s [0 ..< length (pr_identifiers P)])) ! j =
      factsAfter P (forRules (ao_enabledRules opts) True) 0 empty_index j"
    "st_failed (afterA P opts (s [0 ..< length (pr_identifiers P)])) ! j \<longleftrightarrow> isl (pr_load P 0 j)"
    using assms(2) by (simp_all add: afterA_def initialState_def Let_def pass_facts pass_failed)
qed

lemma afterA_lengths [simp]:
  "length (st_facts (afterA P opts is)) = length (pr_identifiers P)"
  "length (st_failed (afterA P opts is)) = length (pr_identifiers P)"
  by (simp_all add: afterA_def initialState_def Let_def)

lemma afterA_empty:
  assumes "isSchedule s"
  shows "unitCountByAbi (afterA P opts (s [0 ..< length (pr_identifiers P)])) = [] \<longleftrightarrow>
    (\<forall>i < length (pr_identifiers P). isl (pr_load P 0 i))"
  by (simp add: unitCountByAbi_empty afterA_entries [OF assms])

section \<open>The choice of the ABI and the second pass\<close>

text \<open>
  The parts of \<open>analyze\<close> after the first pass, as functions of its state: they read the facts and
  the flags, not the failures.
\<close>

definition dominantAbi :: "PassState \<Rightarrow> string" where
  "dominantAbi st = (case unitCountByAbi st of [] \<Rightarrow> [] | first # others \<Rightarrow> fst (max_element first others))"

definition loadedUnits :: "PassState \<Rightarrow> nat list" where
  "loadedUnits st = filter (\<lambda>index. \<not> st_failed st ! index) [0 ..< length (st_facts st)]"

definition compatibleUnits :: "PassState \<Rightarrow> nat list" where
  "compatibleUnits st = filter (\<lambda>index. abiOf st index = dominantAbi st) (loadedUnits st)"

definition skippedUnits :: "PassState \<Rightarrow> nat list" where
  "skippedUnits st = filter (\<lambda>index. abiOf st index \<noteq> dominantAbi st) (loadedUnits st)"

definition programIndexOf :: "PassState \<Rightarrow> ProgramSymbolIndex" where
  "programIndexOf st = indexOf (map (\<lambda>index. (index, st_facts st ! index)) (compatibleUnits st))"

definition againUnits :: "FactSelection \<Rightarrow> PassState \<Rightarrow> nat list" where
  "againUnits selection st =
     filter (\<lambda>index. crossTUChangesFacts (st_facts st ! index) (programIndexOf st) selection) (compatibleUnits st)"

definition afterB :: "'m Project \<Rightarrow> FactSelection \<Rightarrow> PassState \<Rightarrow> nat list \<Rightarrow> PassState" where
  "afterB project selection st order = fold (analyseUnit project selection 1 (programIndexOf st)) order st"

lemma analyze_parts:
  fixes P opts sA sB
  defines "sel \<equiv> forRules (ao_enabledRules opts) True"
    and "st \<equiv> afterA P opts (sA [0 ..< length (pr_identifiers P)])"
  assumes "isSchedule sA"
  shows "analyze P opts sA sB =
    (if length (pr_identifiers P) = 0 then empty_analysis
     else if \<forall>i < length (pr_identifiers P). isl (pr_load P 0 i)
     then empty_analysis\<lparr>pa_failedUnits := map snd (st_failures st)\<rparr>
     else let stB = afterB P sel st (sB (againUnits sel st))
          in \<lparr>pa_report = mergedReport opts sel
                (map (\<lambda>index. st_facts stB ! index) (filter (\<lambda>index. \<not> st_failed stB ! index) (compatibleUnits st))),
              pa_skippedIncompatibleModules = map (\<lambda>index. pr_identifiers P ! index) (skippedUnits st),
              pa_reanalyzedUnitCount = length (againUnits sel st),
              pa_failedUnits = map snd (sort_key fst (st_failures stB))\<rparr>)"
proof -
  have empty: "unitCountByAbi st = [] \<longleftrightarrow> (\<forall>i < length (pr_identifiers P). isl (pr_load P 0 i))"
    unfolding st_def using assms(3) by (rule afterA_empty)
  have n: "length (st_facts st) = length (pr_identifiers P)" by (simp add: st_def)
  show ?thesis
    unfolding analyze_def Let_def sel_def [symmetric]
    by (cases "unitCountByAbi st")
      (simp_all add: empty [symmetric] st_def [symmetric, unfolded afterA_def sel_def [symmetric]] n
        afterB_def againUnits_def programIndexOf_def compatibleUnits_def
        skippedUnits_def loadedUnits_def dominantAbi_def afterA_def sel_def [symmetric])
qed

lemma parts_cong:
  assumes "st_facts st = st_facts st'" "st_failed st = st_failed st'"
  shows "compatibleUnits st = compatibleUnits st'" "skippedUnits st = skippedUnits st'"
    and "programIndexOf st = programIndexOf st'" "againUnits sel st = againUnits sel st'"
proof -
  have "dominantAbi st = dominantAbi st'" by (simp add: dominantAbi_def abi_cong [OF assms(1)] abi_cong(2) [OF assms])
  then show c: "compatibleUnits st = compatibleUnits st'" "skippedUnits st = skippedUnits st'"
    by (simp_all add: compatibleUnits_def skippedUnits_def loadedUnits_def assms abi_cong(1) [OF assms(1)])
  show p: "programIndexOf st = programIndexOf st'" by (simp add: programIndexOf_def c assms)
  show "againUnits sel st = againUnits sel st'" by (simp add: againUnits_def p c assms)
qed

lemma compatible_loaded:
  "i \<in> set (compatibleUnits st) \<Longrightarrow> i < length (st_facts st) \<and> \<not> st_failed st ! i"
  "i \<in> set (againUnits sel st) \<Longrightarrow> i \<in> set (compatibleUnits st)"
  by (auto simp: compatibleUnits_def loadedUnits_def againUnits_def)

lemma failures_distinct:
  fixes P opts
  assumes "isSchedule sA" "isSchedule sB"
  defines "st \<equiv> afterA P opts (sA [0 ..< length (pr_identifiers P)])"
  shows "distinct (map fst (st_failures (afterB P sel st (sB (againUnits sel st)))))"
proof -
  let ?A = "sA [0 ..< length (pr_identifiers P)]" and ?B = "sB (againUnits sel st)"
  have perm: "mset ?A = mset [0 ..< length (pr_identifiers P)]" "mset ?B = mset (againUnits sel st)"
    using assms(1,2) by (simp_all add: isSchedule_def)
  have "distinct (againUnits sel st)"
    by (simp add: againUnits_def compatibleUnits_def loadedUnits_def)
  then have "distinct ?A" "distinct ?B" using perm by (metis distinct_upt mset_eq_imp_distinct_iff)+
  moreover have "\<not> isl (pr_load P 0 i)" if "i \<in> set ?B" for i
  proof -
    have "i \<in> set (compatibleUnits st)" using that perm(2) compatible_loaded(2) by (metis mset_eq_setD)
    then have "i < length (pr_identifiers P)" "\<not> st_failed st ! i"
      using compatible_loaded(1) [of i st] by (simp_all add: st_def)
    then show ?thesis using afterA_entries(2) [OF assms(1), of i P opts] by (simp add: st_def)
  qed
  ultimately show ?thesis
    by (auto simp: afterB_def pass_failures st_def afterA_def initialState_def Let_def failureOf_def comp_def
        distinct_filter)
qed

lemma sorted_failures_unique:
  assumes "mset xs = mset ys" "distinct (map fst xs)"
  shows "sort_key fst xs = sort_key fst ys"
  using assms by (intro sort_key_inj_key_eq) (simp_all add: distinct_map)

section \<open>Properties\<close>

text \<open>
  C21: When some unit loads, a project analysis does not depend on the order in which the workers
  finish: report, skipped units, second-pass count and failed units are the same for every two
  schedules of the two passes.
\<close>
theorem analyze_schedule_independent:
  assumes "isSchedule sA" "isSchedule sB" "isSchedule sA'" "isSchedule sB'"
    and "\<exists>i < length (pr_identifiers P). \<not> isl (pr_load P 0 i)"
  shows "analyze P opts sA sB = analyze P opts sA' sB'"
proof -
  let ?n = "[0 ..< length (pr_identifiers P)]" and ?sel = "forRules (ao_enabledRules opts) True"
  let ?st = "afterA P opts (sA ?n)" and ?st' = "afterA P opts (sA' ?n)"
  note same = afterA_schedule [OF assms(1,3), of P opts ?n]
  note cong = parts_cong [OF same(1,2)]
  define B where "B = afterB P ?sel ?st (sB (againUnits ?sel ?st))"
  define B' where "B' = afterB P ?sel ?st' (sB' (againUnits ?sel ?st'))"
  have tasks: "mset (sB (againUnits ?sel ?st)) = mset (sB' (againUnits ?sel ?st'))"
    using assms(2,4) cong(4) by (simp add: isSchedule_def)
  have facts: "st_facts B = st_facts B'"
    by (rule nth_equalityI)
      (simp_all add: B_def B'_def afterB_def pass_facts same(1) cong(3) mset_eq_setD [OF tasks])
  have failed: "st_failed B = st_failed B'"
    by (rule nth_equalityI)
      (simp_all add: B_def B'_def afterB_def pass_failed same(2) cong(3) mset_eq_setD [OF tasks])
  have "mset (st_failures B) = mset (st_failures B')"
    by (simp add: B_def B'_def afterB_def pass_failures same(3) mset_filter tasks)
  then have failures: "sort_key fst (st_failures B) = sort_key fst (st_failures B')"
    using failures_distinct [OF assms(1,2)] unfolding B_def by (rule sorted_failures_unique)
  have loads: "\<not> (\<forall>i < length (pr_identifiers P). isl (pr_load P 0 i))" "length (pr_identifiers P) \<noteq> 0"
    using assms(5) by auto
  show ?thesis
    unfolding analyze_parts [OF assms(1)] analyze_parts [OF assms(3)] Let_def if_not_P [OF loads(1)] if_not_P [OF loads(2)]
    unfolding B_def [symmetric] B'_def [symmetric] by (simp add: facts failed failures cong)
qed

definition sample_project :: "(nat \<Rightarrow> nat \<Rightarrow> CompileError + TUFacts) \<Rightarrow> TUFacts Project" where
  "sample_project loads = \<lparr>pr_identifiers = [''a'', ''b''], pr_load = loads, pr_build = (\<lambda>m _ _. m)\<rparr>"

lemma schedules [simp]: "isSchedule (\<lambda>tasks. tasks)" "isSchedule rev"
  by (simp_all add: isSchedule_def)

theorem analyze_schedule_independent_witness:
  "analyze (sample_project (\<lambda>_ _. Inr no_facts)) allAvailable (\<lambda>tasks. tasks) (\<lambda>tasks. tasks) =
   analyze (sample_project (\<lambda>_ _. Inr no_facts)) allAvailable rev rev"
  by (rule analyze_schedule_independent) (auto simp: sample_project_def)

text \<open>
  When no unit loads the failures are listed as the workers met them: the list depends on the schedule.
\<close>

lemma all_failed_depends_on_schedule:
  "pa_failedUnits (analyze (sample_project (\<lambda>_ _. Inl e)) opts (\<lambda>tasks. tasks) s) =
     [\<lparr>fa_identifier = ''a'', fa_error = e\<rparr>, \<lparr>fa_identifier = ''b'', fa_error = e\<rparr>] \<and>
   pa_failedUnits (analyze (sample_project (\<lambda>_ _. Inl e)) opts rev s) =
     [\<lparr>fa_identifier = ''b'', fa_error = e\<rparr>, \<lparr>fa_identifier = ''a'', fa_error = e\<rparr>]"
  unfolding analyze_parts [OF schedules(1)] analyze_parts [OF schedules(2)]
  by (simp add: sample_project_def afterA_def analyseUnit_entries initialState_def failureOf_def upt_rec Let_def)

text \<open>The largest group of units with one ABI.\<close>

definition unitsWithAbi :: "PassState \<Rightarrow> string \<Rightarrow> nat" where
  "unitsWithAbi st abi = length (filter (\<lambda>index. abiOf st index = abi) (loadedUnits st))"

lemma fold_count:
  "fold (\<lambda>x r. Some ((case r of None \<Rightarrow> 0 | Some n \<Rightarrow> n) + 1)) xs r =
     (if xs = [] then r else Some ((case r of None \<Rightarrow> 0 | Some n \<Rightarrow> n) + length xs))"
  by (induction xs arbitrary: r) auto

lemma unitCountByAbi_entries:
  "(abi, n) \<in> set (unitCountByAbi st) \<longleftrightarrow> n = unitsWithAbi st abi \<and> n > 0"
  "omap_inv (unitCountByAbi st)"
proof -
  show inv: "omap_inv (unitCountByAbi st)"
    unfolding unitCountByAbi_def by (rule om.inv_fold [OF om.inv_empty])
  have look: "map_of (unitCountByAbi st) abi =
      (if unitsWithAbi st abi = 0 then None else Some (unitsWithAbi st abi))"
    unfolding unitCountByAbi_def om.lookup_fold [OF om.inv_empty] fold_count
    by (auto simp: unitsWithAbi_def loadedUnits_def)
  show "(abi, n) \<in> set (unitCountByAbi st) \<longleftrightarrow> n = unitsWithAbi st abi \<and> n > 0"
    unfolding map_of_eq_Some_iff [OF om.inv_distinct [OF inv], symmetric] look by auto
qed

lemma max_element_first:
  assumes "omap_inv (e # es)" "(k, v) = max_element e es"
  shows "(k, v) \<in> set (e # es) \<and> (\<forall>(k', v') \<in> set (e # es). v' < v \<or> v' = v \<and> k \<le> k')"
  using assms
proof (induction es arbitrary: e)
  case (Cons e' es)
  obtain a m b n where e: "e = (a, m)" "e' = (b, n)" by (cases e, cases e')
  have inv: "omap_inv (e # es)" "omap_inv (e' # es)" "a < b"
    using Cons.prems(1) by (auto simp: e omap_inv_Cons)
  show ?case
  proof (cases "m < n")
    case True
    then have "(k, v) \<in> set (e' # es) \<and> (\<forall>(k', v') \<in> set (e' # es). v' < v \<or> v' = v \<and> k \<le> k')"
      using Cons.IH [OF inv(2)] Cons.prems(2) by (simp add: e)
    with True show ?thesis by (auto simp: e)
  next
    case False
    then have "(k, v) \<in> set (e # es) \<and> (\<forall>(k', v') \<in> set (e # es). v' < v \<or> v' = v \<and> k \<le> k')"
      using Cons.IH [OF inv(1)] Cons.prems(2) by (simp add: e)
    with False inv(3) show ?thesis by (auto simp: e)
  qed
qed auto

text \<open>
  The ABI a project is analysed for is that of the most units that loaded, and of the smallest
  name among those with as many: the choice does not depend on the order of the units.
\<close>
theorem dominant_abi_choice:
  assumes "loadedUnits st \<noteq> []"
  shows "unitsWithAbi st (dominantAbi st) > 0 \<and>
    (\<forall>abi. unitsWithAbi st abi \<le> unitsWithAbi st (dominantAbi st)) \<and>
    (\<forall>abi. unitsWithAbi st abi = unitsWithAbi st (dominantAbi st) \<longrightarrow> dominantAbi st \<le> abi)"
proof -
  obtain i where "i \<in> set (loadedUnits st)" using assms by (cases "loadedUnits st") auto
  then have "unitsWithAbi st (abiOf st i) > 0" by (auto simp: unitsWithAbi_def filter_empty_conv)
  then have "(abiOf st i, unitsWithAbi st (abiOf st i)) \<in> set (unitCountByAbi st)"
    by (simp add: unitCountByAbi_entries)
  then obtain e es where es: "unitCountByAbi st = e # es" by (cases "unitCountByAbi st") auto
  obtain k v where kv: "(k, v) = max_element e es" by (metis surj_pair)
  have dom: "dominantAbi st = k" by (simp add: dominantAbi_def es kv [symmetric])
  have first: "(k, v) \<in> set (unitCountByAbi st) \<and>
      (\<forall>(k', v') \<in> set (unitCountByAbi st). v' < v \<or> v' = v \<and> k \<le> k')"
    using max_element_first [OF _ kv] unitCountByAbi_entries(2) [of st] unfolding es by blast
  then have best: "unitsWithAbi st abi < v \<or> unitsWithAbi st abi = v \<and> k \<le> abi" if "unitsWithAbi st abi > 0" for abi
    using unitCountByAbi_entries(1) [of abi "unitsWithAbi st abi" st] that by blast
  from first have v: "v = unitsWithAbi st k" "v > 0" by (simp_all add: unitCountByAbi_entries)
  have "unitsWithAbi st abi \<le> v" "unitsWithAbi st abi = v \<Longrightarrow> k \<le> abi" for abi
    using best [of abi] v(2) by (cases "unitsWithAbi st abi = 0"; auto)+
  with v show ?thesis unfolding dom by simp
qed

theorem dominant_abi_choice_witness:
  "unitsWithAbi \<lparr>st_facts = [no_facts], st_failed = [False], st_failures = []\<rparr>
     (dominantAbi \<lparr>st_facts = [no_facts], st_failed = [False], st_failures = []\<rparr>) > 0"
  using dominant_abi_choice [of "\<lparr>st_facts = [no_facts], st_failed = [False], st_failures = []\<rparr>"]
  by (simp add: loadedUnits_def)

text \<open>Every unit ends in one place: failed, skipped, or in the report.\<close>

lemma mset_split_filter: "mset (filter P xs) + mset (filter (\<lambda>x. \<not> P x) xs) = mset xs"
  by (induction xs) simp_all

lemma loaded_split:
  "mset (loadedUnits st) = mset (compatibleUnits st) + mset (skippedUnits st)"
  unfolding compatibleUnits_def skippedUnits_def by (rule mset_split_filter [symmetric])

text \<open>
  C16: No unit is lost: the units of a project of which some unit loads are those that failed, those
  skipped for their ABI, and those whose facts, built in the first or in the second pass, the report
  is made of, each exactly once.
\<close>
theorem analyze_accounts_for_units:
  assumes "isSchedule sA" "isSchedule sB" "\<exists>i < length (pr_identifiers P). \<not> isl (pr_load P 0 i)"
  shows "\<exists>contributing facts.
    mset (pr_identifiers P) =
      mset (map fa_identifier (pa_failedUnits (analyze P opts sA sB))) +
      mset (pa_skippedIncompatibleModules (analyze P opts sA sB)) +
      mset (map (\<lambda>i. pr_identifiers P ! i) contributing) \<and>
    pa_report (analyze P opts sA sB) =
      mergedReport opts (forRules (ao_enabledRules opts) True) (map facts contributing) \<and>
    (\<exists>program. \<forall>i \<in> set contributing.
       facts i = factsAfter P (forRules (ao_enabledRules opts) True) 0 empty_index i \<or>
       facts i = factsAfter P (forRules (ao_enabledRules opts) True) 1 program i)"
proof -
  let ?n = "[0 ..< length (pr_identifiers P)]" and ?sel = "forRules (ao_enabledRules opts) True"
  let ?id = "\<lambda>i. pr_identifiers P ! i"
  define st where "st = afterA P opts (sA ?n)"
  define again where "again = againUnits ?sel st"
  define B where "B = afterB P ?sel st (sB again)"
  define contributing where "contributing = filter (\<lambda>i. \<not> st_failed B ! i) (compatibleUnits st)"
  have loads: "\<not> (\<forall>i < length (pr_identifiers P). isl (pr_load P 0 i))" "length (pr_identifiers P) \<noteq> 0"
    using assms(3) by auto
  have run: "analyze P opts sA sB = \<lparr>pa_report = mergedReport opts ?sel (map (\<lambda>i. st_facts B ! i) contributing),
      pa_skippedIncompatibleModules = map ?id (skippedUnits st), pa_reanalyzedUnitCount = length again,
      pa_failedUnits = map snd (sort_key fst (st_failures B))\<rparr>"
    unfolding analyze_parts [OF assms(1)] if_not_P [OF loads(1)] if_not_P [OF loads(2)]
    by (simp add: Let_def st_def B_def again_def contributing_def)
  have perm: "mset (sA ?n) = mset ?n" "mset (sB again) = mset again" using assms(1,2) by (simp_all add: isSchedule_def)
  have failedA: "filter (\<lambda>i. st_failed st ! i) ?n = filter (\<lambda>i. isl (pr_load P 0 i)) ?n"
    using afterA_entries(2) [OF assms(1)] by (intro filter_cong) (simp_all add: st_def)
  have failedB: "filter (\<lambda>i. st_failed B ! i) (compatibleUnits st) = filter (\<lambda>i. isl (pr_load P 1 i)) again"
  proof -
    have "st_failed B ! i \<longleftrightarrow> i \<in> set again \<and> isl (pr_load P 1 i)" if "i \<in> set (compatibleUnits st)" for i
      using compatible_loaded(1) [OF that] mset_eq_setD [OF perm(2)]
      by (simp add: B_def afterB_def pass_failed st_def)
    then have "filter (\<lambda>i. st_failed B ! i) (compatibleUnits st) =
        filter (\<lambda>i. i \<in> set again \<and> isl (pr_load P 1 i)) (compatibleUnits st)"
      by (intro filter_cong) simp_all
    also have "\<dots> = filter (\<lambda>i. isl (pr_load P 1 i)) again"
      unfolding again_def againUnits_def filter_filter by (intro filter_cong) auto
    finally show ?thesis .
  qed
  have "map fa_identifier (map snd (st_failures B)) =
      map ?id (filter (\<lambda>i. isl (pr_load P 0 i)) (sA ?n)) @ map ?id (filter (\<lambda>i. isl (pr_load P 1 i)) (sB again))"
    by (simp add: B_def afterB_def st_def afterA_def pass_failures initialState_def Let_def failureOf_def comp_def)
  then have failures: "mset (map fa_identifier (map snd (st_failures B))) =
      mset (map ?id (filter (\<lambda>i. st_failed st ! i) ?n)) + mset (map ?id (filter (\<lambda>i. st_failed B ! i) (compatibleUnits st)))"
    unfolding failedA failedB by (simp add: perm mset_filter)
  have "mset ?n = mset (filter (\<lambda>i. st_failed st ! i) ?n) + mset (loadedUnits st)"
    using mset_split_filter [of "\<lambda>i. st_failed st ! i" ?n] unfolding loadedUnits_def by (simp add: st_def)
  also have "mset (loadedUnits st) = mset (filter (\<lambda>i. st_failed B ! i) (compatibleUnits st)) + mset contributing + mset (skippedUnits st)"
    unfolding loaded_split contributing_def mset_split_filter ..
  finally have "image_mset ?id (mset ?n) = image_mset ?id (mset (filter (\<lambda>i. st_failed st ! i) ?n) +
      (mset (filter (\<lambda>i. st_failed B ! i) (compatibleUnits st)) + mset contributing + mset (skippedUnits st)))"
    by (rule arg_cong)
  moreover have "image_mset ?id (mset ?n) = mset (pr_identifiers P)"
    by (metis map_nth mset_map)
  ultimately have "mset (pr_identifiers P) = mset (map fa_identifier (map snd (sort_key fst (st_failures B)))) +
      mset (map ?id (skippedUnits st)) + mset (map ?id contributing)"
    using failures by (simp only: mset_map mset_sort image_mset_union union_ac)
  moreover have "st_facts B ! i = factsAfter P ?sel 0 empty_index i \<or> st_facts B ! i = factsAfter P ?sel 1 (programIndexOf st) i"
    if "i \<in> set contributing" for i
  proof -
    have i: "i < length (pr_identifiers P)"
      using that compatible_loaded(1) [of i st] by (simp add: contributing_def st_def)
    then show ?thesis
      using afterA_entries(1) [OF assms(1) i, of opts] by (simp add: B_def afterB_def pass_facts st_def)
  qed
  ultimately show ?thesis
    unfolding run by (intro exI [of _ contributing] exI [of _ "\<lambda>i. st_facts B ! i"]) auto
qed

theorem analyze_accounts_for_units_witness:
  "\<exists>contributing facts.
    mset [''a'', ''b''] =
      mset (map fa_identifier (pa_failedUnits (analyze (sample_project (\<lambda>_ _. Inr no_facts)) allAvailable rev rev))) +
      mset (pa_skippedIncompatibleModules (analyze (sample_project (\<lambda>_ _. Inr no_facts)) allAvailable rev rev)) +
      mset (map (\<lambda>i. [''a'', ''b''] ! i) contributing) \<and>
    pa_report (analyze (sample_project (\<lambda>_ _. Inr no_facts)) allAvailable rev rev) =
      mergedReport allAvailable (forRules (ao_enabledRules allAvailable) True) (map facts contributing) \<and>
    (\<exists>program. \<forall>i \<in> set contributing.
       facts i = factsAfter (sample_project (\<lambda>_ _. Inr no_facts)) (forRules (ao_enabledRules allAvailable) True) 0 empty_index i \<or>
       facts i = factsAfter (sample_project (\<lambda>_ _. Inr no_facts)) (forRules (ao_enabledRules allAvailable) True) 1 program i)"
  using analyze_accounts_for_units [of rev rev "sample_project (\<lambda>_ _. Inr no_facts)" allAvailable]
  unfolding sample_project_def by force

text \<open>What each checker brings, by the contract it meets.\<close>

lemma runIf_member:
  "d \<in> set (rp_diagnostics (runIf enabled part report)) \<longleftrightarrow>
     d \<in> set (rp_diagnostics report) \<or> enabled \<and> d \<in> set (rp_diagnostics part)"
  by (auto simp: runIf_def appendDiagnostics_def)

lemma checkUnit_rules:
  assumes "d \<in> set (rp_diagnostics (checkUnit opts facts))"
  shows "isEnabled opts (d_ruleId d) \<and> d_severity d = rm_defaultSeverity (lookupRuleMetadata (d_ruleId d))"
proof -
  have single: "isEnabled opts (d_ruleId d) \<and> d_severity d = rm_defaultSeverity (lookupRuleMetadata (d_ruleId d))"
    if "isEnabled opts rule" "well_formed_diagnostic {rule} d" for rule
    using that by (simp add: well_formed_diagnostic_def)
  consider "isEnabled opts DataRaceGlobal" "d \<in> set (rp_diagnostics (dataRaceRun facts))"
    | "isEnabled opts DeadlockLockOrder" "d \<in> set (rp_diagnostics (lockOrderRun facts))"
    | "isEnabled opts MissingJoin" "d \<in> set (rp_diagnostics (the (missingJoinRun facts)))"
    | "isEnabled opts ConditionWaitWithoutPredicate" "d \<in> set (rp_diagnostics (conditionWaitRun facts))"
    | "isEnabled opts WeakPublicationOrdering" "d \<in> set (rp_diagnostics (publicationOrderingRun facts))"
    | "isEnabled opts (d_ruleId d)" "d \<in> set (rp_diagnostics (processLifecycleRun facts))"
    using assms by (simp add: checkUnit_def Let_def runIf_member) blast
  then show ?thesis
  proof cases
    case 6
    then show ?thesis using pl.diagnostic_severity by blast
  qed (rule single, assumption, rule dr.diagnostics_ok lo.diagnostics_ok mj.diagnostics_ok cw.diagnostics_ok
      po.diagnostics_ok, assumption)+
qed

lemma finalizeReport_member:
  assumes "d \<in> set (rp_diagnostics (finalizeReport report facts b))"
  obtains d' where "d' \<in> set (rp_diagnostics report)" "d_ruleId d = d_ruleId d'" "d_severity d = d_severity d'"
proof -
  have "d\<lparr>d_id := []\<rparr> \<in> (\<lambda>d. d\<lparr>d_id := []\<rparr>) ` set (rp_diagnostics (finalizeReport report facts b))"
    using assms by blast
  also have "\<dots> = set (map (\<lambda>d. d\<lparr>d_id := []\<rparr>) (numberDiagnostics (sort_key diagnosticOrder (rp_diagnostics report))))"
    by (simp add: finalizeReport_def Let_def)
  also have "\<dots> = (\<lambda>d. d\<lparr>d_id := []\<rparr>) ` set (rp_diagnostics report)"
    by (simp only: numberDiagnostics_unnumbered set_map set_sort)
  finally obtain d' where "d' \<in> set (rp_diagnostics report)" "d\<lparr>d_id := []\<rparr> = d'\<lparr>d_id := []\<rparr>" by blast
  with that show thesis by (metis Diagnostic.ext_inject Diagnostic.surjective Diagnostic.update_convs(1))
qed

text \<open>What merging keeps: the keys seen are those of the merged diagnostics, each once.\<close>

definition merged :: "string set \<times> DiagnosticReport \<Rightarrow> bool" where
  "merged st \<longleftrightarrow> fst st = diagnosticKey ` set (rp_diagnostics (snd st)) \<and>
     distinct (map diagnosticKey (rp_diagnostics (snd st)))"

lemma mergeDiagnostic_merged:
  assumes "merged st"
  shows "merged (mergeDiagnostic d st)"
    and "set (rp_diagnostics (snd (mergeDiagnostic d st))) \<subseteq> insert d (set (rp_diagnostics (snd st)))"
    and "fst (mergeDiagnostic d st) = insert (diagnosticKey d) (fst st)"
  using assms by (cases st; auto simp: merged_def mergeDiagnostic_def)+

lemma mergeDiagnostics_merged:
  assumes "merged st"
  shows "merged (fold mergeDiagnostic ds st) \<and>
    set (rp_diagnostics (snd (fold mergeDiagnostic ds st))) \<subseteq> set (rp_diagnostics (snd st)) \<union> set ds \<and>
    fst (fold mergeDiagnostic ds st) = fst st \<union> diagnosticKey ` set ds"
  using assms
proof (induction ds arbitrary: st)
  case (Cons d ds)
  note step = mergeDiagnostic_merged [OF Cons.prems, of d]
  show ?case using Cons.IH [OF step(1)] step(2,3) by auto
qed simp

lemma mergeModule_merged:
  assumes "merged st"
  shows "merged (mergeModule r st) \<and>
    set (rp_diagnostics (snd (mergeModule r st))) \<subseteq> set (rp_diagnostics (snd st)) \<union> set (rp_diagnostics r) \<and>
    fst (mergeModule r st) = fst st \<union> diagnosticKey ` set (rp_diagnostics r)"
proof -
  have "rp_diagnostics (fold mergeNotice ns rep) = rp_diagnostics rep" for ns rep
    by (induction ns arbitrary: rep) (simp_all add: mergeNotice_def)
  then have "fst (mergeModule r st) = fst (fold mergeDiagnostic (rp_diagnostics r) st)"
    "rp_diagnostics (snd (mergeModule r st)) = rp_diagnostics (snd (fold mergeDiagnostic (rp_diagnostics r) st))"
    by (simp_all add: mergeModule_def Let_def split: prod.split)
  then show ?thesis using mergeDiagnostics_merged [OF assms, of "rp_diagnostics r"] unfolding merged_def by argo
qed

lemma mergedReport_diagnostics:
  fixes opts sel units
  defines "ds \<equiv> rp_diagnostics (mergedReport opts sel units)"
  shows "distinct (map diagnosticKey ds)"
    and "set ds \<subseteq> (\<Union>facts \<in> set units. set (rp_diagnostics (moduleReport opts sel facts)))"
    and "diagnosticKey ` set ds = (\<Union>facts \<in> set units. diagnosticKey ` set (rp_diagnostics (moduleReport opts sel facts)))"
proof -
  let ?f = "\<lambda>units. fold (\<lambda>facts. mergeModule (moduleReport opts sel facts)) units ({}, empty_report)"
  have "merged (?f units) \<and>
      set (rp_diagnostics (snd (?f units))) \<subseteq> (\<Union>facts \<in> set units. set (rp_diagnostics (moduleReport opts sel facts))) \<and>
      fst (?f units) = (\<Union>facts \<in> set units. diagnosticKey ` set (rp_diagnostics (moduleReport opts sel facts)))"
  proof (induction units rule: rev_induct)
    case Nil
    then show ?case by (simp add: merged_def)
  next
    case (snoc facts units)
    then have "merged (?f units)" by blast
    from mergeModule_merged [OF this, of "moduleReport opts sel facts"] snoc show ?case by auto
  qed
  then show "distinct (map diagnosticKey ds)"
    "set ds \<subseteq> (\<Union>facts \<in> set units. set (rp_diagnostics (moduleReport opts sel facts)))"
    "diagnosticKey ` set ds = (\<Union>facts \<in> set units. diagnosticKey ` set (rp_diagnostics (moduleReport opts sel facts)))"
    unfolding ds_def mergedReport_def merged_def Let_def by (simp, simp, simp) (metis (no_types, lifting))
qed

text \<open>
  C26: An analysis reports enabled rules only, each with the severity the catalog gives it, of a unit
  and of a project alike: no checker answers for a rule that was not asked for.
\<close>
theorem only_enabled_rules:
  "(\<forall>d \<in> set (rp_diagnostics (singleAnalyze build opts module)).
      isEnabled opts (d_ruleId d) \<and> d_severity d = rm_defaultSeverity (lookupRuleMetadata (d_ruleId d))) \<and>
   (\<forall>d \<in> set (rp_diagnostics (mergedReport opts selection units)).
      isEnabled opts (d_ruleId d) \<and> d_severity d = rm_defaultSeverity (lookupRuleMetadata (d_ruleId d)))"
proof -
  have unit: "isEnabled opts (d_ruleId d) \<and> d_severity d = rm_defaultSeverity (lookupRuleMetadata (d_ruleId d))"
    if "d \<in> set (rp_diagnostics (finalizeReport (checkUnit opts facts) facts b))" for d facts b
    using that checkUnit_rules by (elim finalizeReport_member) metis
  then show ?thesis
    using mergedReport_diagnostics(2) [of opts selection units] unfolding moduleReport_def
    by (auto simp: singleAnalyze_def Let_def)
qed

theorem only_enabled_rules_witness:
  "list_all (\<lambda>d. isEnabled allAvailable (d_ruleId d))
     (rp_diagnostics (mergedReport allAvailable no_selection [sample_facts [sample_access]]))"
  using only_enabled_rules [of "\<lambda>_ _ _. no_facts" allAvailable "()" no_selection "[sample_facts [sample_access]]"]
  unfolding list_all_iff by blast

text \<open>
  Merging the reports of the units drops exactly the diagnostics whose key is already there: the
  merged report has one diagnostic for each key of the units' reports, and no key twice.
\<close>
theorem merge_by_key:
  "distinct (map diagnosticKey (rp_diagnostics (mergedReport opts selection units))) \<and>
   diagnosticKey ` set (rp_diagnostics (mergedReport opts selection units)) =
     (\<Union>facts \<in> set units. diagnosticKey ` set (rp_diagnostics (moduleReport opts selection facts)))"
  by (simp add: mergedReport_diagnostics)

text \<open>
  The key holds the id a diagnostic was given in its own unit: copies of one finding that stand at
  different places of their units' reports have different keys, and both are reported.
\<close>

lemma copies_with_other_ids_kept:
  assumes "i \<noteq> j"
  shows "rp_diagnostics (snd (mergeModule (emit empty_report (d\<lparr>d_id := j\<rparr>))
    (mergeModule (emit empty_report (d\<lparr>d_id := i\<rparr>)) ({}, empty_report)))) = [d\<lparr>d_id := i\<rparr>, d\<lparr>d_id := j\<rparr>]"
  using assms by (simp add: mergeModule_def mergeDiagnostic_def diagnosticKey_def)

text \<open>Nor are the ids of a project report unique: each unit numbers its diagnostics from one.\<close>

lemma project_ids_repeat:
  assumes "d_message d \<noteq> d_message e" "d_location d = d_location e"
  shows "map d_id (rp_diagnostics (snd (mergeModule (emit empty_report (e\<lparr>d_id := ''diag-1''\<rparr>))
    (mergeModule (emit empty_report (d\<lparr>d_id := ''diag-1''\<rparr>)) ({}, empty_report))))) = [''diag-1'', ''diag-1'']"
  using assms by (simp add: mergeModule_def mergeDiagnostic_def diagnosticKey_def)

text \<open>
  A unit added from a file: a load parses what the file holds then, provided its size and digest are those recorded when the unit was
  added, and fails with a read error otherwise. Another content of the same size and digest would be taken for the recorded one.
\<close>

lemma load_added_file:
  assumes "files path = Inr bytes" "index = length units"
  shows "load files' digest parseBC (addFile files digest identifier path units) index =
    (case files' path of
       Inl err \<Rightarrow> Some (Inl (bitcodeReadError (cannotRead path err)))
     | Inr now \<Rightarrow>
         if word_of_nat (length now) = (word_of_nat (length bytes) :: u64) \<and> digest now = digest bytes then Some (parseBC now identifier)
         else Some (Inl (bitcodeReadError (''bitcode in '' @ [CHR 0x27] @ path @ [CHR 0x27] @
                '' changed since the unit was added''))))"
  using assms
  by (auto simp: load_def addFile_def Let_def nth_append hasError_def no_error_def split: sum.split)

text \<open>A project whose units have several ABIs is complete by \<open>complete\<close>, though it skipped units.\<close>

definition twoAbis :: "nat \<Rightarrow> nat \<Rightarrow> CompileError + TUFacts" where
  "twoAbis pass i = Inr (if i = 0 then no_facts else no_facts\<lparr>tu_program := no_program\<lparr>ps_abiKey := ''other''\<rparr>\<rparr>)"

lemma complete_with_skipped_units:
  fixes opts
  defines "analysis \<equiv> analyze (sample_project twoAbis) opts (\<lambda>tasks. tasks) (\<lambda>tasks. tasks)"
  shows "complete analysis \<and> pa_skippedIncompatibleModules analysis \<noteq> []"
proof -
  let ?P = "sample_project twoAbis"
  define st where "st = afterA ?P opts [0 ..< length (pr_identifiers ?P)]"
  have loads: "\<not> isl (pr_load ?P pass i)" for pass i by (simp add: sample_project_def twoAbis_def)
  have n: "length (pr_identifiers ?P) = 2" by (simp add: sample_project_def)
  have abi: "abiOf st 0 = []" "abiOf st 1 = ''other''"
    using afterA_entries(1) [OF schedules(1), of 0 ?P opts] afterA_entries(1) [OF schedules(1), of 1 ?P opts] n
    by (simp_all add: st_def abiOf_def factsAfter_def sample_project_def twoAbis_def no_facts_def no_program_def)
  have "loadedUnits st = [0, 1]"
    using afterA_entries(2) [OF schedules(1), of 0 ?P opts] afterA_entries(2) [OF schedules(1), of 1 ?P opts] n loads
    by (simp add: loadedUnits_def st_def upt_rec)
  then have "skippedUnits st \<noteq> []" using abi by (simp add: skippedUnits_def)
  moreover have "st_failures (afterB ?P sel st order) = []" for sel order
    by (simp add: afterB_def pass_failures loads st_def afterA_def initialState_def Let_def)
  moreover have some: "\<not> (\<forall>i < length (pr_identifiers ?P). isl (pr_load ?P 0 i))" "length (pr_identifiers ?P) \<noteq> 0"
    using loads n by (simp_all add: exI [of _ 0])
  ultimately show ?thesis
    unfolding analysis_def analyze_parts [OF schedules(1)] if_not_P [OF some(1)] if_not_P [OF some(2)]
    by (simp add: complete_def Let_def st_def)
qed

end
