(* ===== verification/Live_Units.thy ===== *)
theory Live_Units
  imports Prelude Diagnostics "HOL-Library.Word"
begin

text \<open>
  The gauge of the units in memory (\<open>LiveUnitGauge\<close>, \<open>LiveUnitSlot\<close> and \<open>liveUnitBound\<close> of
  \<open>analysis/cross_tu/inter_tu_coordinator.cpp\<close>) under every interleaving of the workers of the passes,
  which share one gauge: the second pass goes on with the peak the first one left.
  Each access to one of the two atomics is one step; \<open>compare_exchange_weak\<close> may also fail when the
  values agree. The pool is a bound on the tasks that run at once. The counters are natural numbers:
  \<open>gauge_bounded\<close> shows that neither exceeds the number of workers, which is itself a
  \<open>std::size_t\<close>, so none wraps around.
\<close>

section \<open>The gauge\<close>

record LiveUnitGauge =
  live :: nat
  peak :: nat

definition new_gauge :: LiveUnitGauge where
  "new_gauge = \<lparr>live = 0, peak = 0\<rparr>"

text \<open>
  Where a task stands: it waits for a worker, has incremented \<open>live_\<close> to the value \<open>now\<close>, is in the loop of
  \<open>enter\<close> with the peak it saw last, holds its slot, or has left.
\<close>

datatype TaskState = Waiting | Incremented nat | Comparing nat nat | Holding | Released

text \<open>
  The next atomic access of a task and its outcomes. The flag marks the failure of the weak exchange
  on equal values.
\<close>

fun taskStep :: "LiveUnitGauge \<Rightarrow> TaskState \<Rightarrow> (bool \<times> LiveUnitGauge \<times> TaskState) list" where
  "taskStep g Waiting = [(False, g\<lparr>live := live g + 1\<rparr>, Incremented (live g + 1))]"
| "taskStep g (Incremented now) = [(False, g, Comparing now (peak g))]"
| "taskStep g (Comparing now seen) =
     (if now > seen
      then if peak g = seen
           then [(False, g\<lparr>peak := now\<rparr>, Holding), (True, g, Comparing now seen)]
           else [(False, g, Comparing now (peak g))]
      else [(False, g, Holding)])"
| "taskStep g Holding = [(False, g\<lparr>live := live g - 1\<rparr>, Released)]"
| "taskStep g Released = []"

definition liveUnitBound :: "32 word \<Rightarrow> AnalysisOptions \<Rightarrow> nat" where
  "liveUnitBound hardware opts =
     (if ao_maxLiveUnits opts \<noteq> 0 then ao_maxLiveUnits opts
      else if hardware = 0 then 1 else unat hardware)"

lemma liveUnitBound_positive: "liveUnitBound hardware opts > 0"
  by (simp add: liveUnitBound_def unat_gt_0)

section \<open>A pass\<close>

record PassTasks =
  gauge :: LiveUnitGauge
  tasks :: "TaskState list"

definition holdsSlot :: "TaskState \<Rightarrow> bool" where
  "holdsSlot t \<longleftrightarrow> t \<noteq> Waiting \<and> t \<noteq> Released"

definition active :: "PassTasks \<Rightarrow> nat" where
  "active s = length (filter holdsSlot (tasks s))"

definition startPass :: "LiveUnitGauge \<Rightarrow> nat \<Rightarrow> PassTasks" where
  "startPass g n = \<lparr>gauge = g, tasks = replicate n Waiting\<rparr>"

definition finished :: "PassTasks \<Rightarrow> bool" where
  "finished s \<longleftrightarrow> (\<forall>t \<in> set (tasks s). t = Released)"

inductive passStep :: "nat \<Rightarrow> bool \<Rightarrow> PassTasks \<Rightarrow> PassTasks \<Rightarrow> bool" for workers where
  step: "i < length (tasks s) \<Longrightarrow> (tasks s ! i = Waiting \<Longrightarrow> active s < workers) \<Longrightarrow>
    (spurious, g, t) \<in> set (taskStep (gauge s) (tasks s ! i)) \<Longrightarrow>
    passStep workers spurious s \<lparr>gauge = g, tasks = (tasks s)[i := t]\<rparr>"

text \<open>
  The states an analysis went through, the latest first, the last pass being one over \<open>n\<close> units. The
  first pass starts on a new gauge. A pass that is over may be followed by another one over the units
  chosen for it, on the gauge as it was left.
\<close>

inductive execution :: "nat \<Rightarrow> nat \<Rightarrow> PassTasks list \<Rightarrow> bool" for workers where
  start: "execution workers n [startPass new_gauge n]"
| again: "execution workers m (s # trace) \<Longrightarrow> finished s \<Longrightarrow>
    execution workers n (startPass (gauge s) n # s # trace)"
| extend: "execution workers n (s # trace) \<Longrightarrow> passStep workers spurious s s' \<Longrightarrow>
    execution workers n (s' # s # trace)"

lemma passStepE [consumes 1, case_names step]:
  assumes "passStep workers spurious s s'"
  obtains i g t where "s' = \<lparr>gauge = g, tasks = (tasks s)[i := t]\<rparr>" "i < length (tasks s)"
    "tasks s ! i = Waiting \<Longrightarrow> active s < workers" "(spurious, g, t) \<in> set (taskStep (gauge s) (tasks s ! i))"
  using assms by (cases rule: passStep.cases) blast

lemma count_update:
  "i < length ts \<Longrightarrow> length (filter P (ts[i := t])) + (if P (ts ! i) then 1 else 0) =
     length (filter P ts) + (if P t then 1 else 0)"
proof (induction ts arbitrary: i)
  case (Cons u ts)
  then show ?case by (cases i) auto
qed simp

section \<open>Bounds\<close>

text \<open>
  The invariant of a state: the live count is that of the slots held, no more tasks hold one than
  there are workers, and what a task remembers is no more than what it was read from.
\<close>

fun remembers :: "nat \<Rightarrow> nat \<Rightarrow> TaskState \<Rightarrow> bool" where
  "remembers workers pk (Incremented now) \<longleftrightarrow> now \<le> workers"
| "remembers workers pk (Comparing now seen) \<longleftrightarrow> now \<le> workers \<and> seen \<le> pk"
| "remembers workers pk _ \<longleftrightarrow> True"

definition pass_inv :: "nat \<Rightarrow> PassTasks \<Rightarrow> bool" where
  "pass_inv workers s \<longleftrightarrow> live (gauge s) = active s \<and> active s \<le> workers \<and> peak (gauge s) \<le> workers \<and>
     (\<forall>t \<in> set (tasks s). remembers workers (peak (gauge s)) t)"

lemma remembers_mono: "remembers workers p t \<Longrightarrow> p \<le> q \<Longrightarrow> remembers workers q t"
  by (cases t) auto

lemma taskStep_peak: "(spurious, g', t') \<in> set (taskStep g t) \<Longrightarrow> peak g \<le> peak g'"
  by (cases t) (auto split: if_splits)

lemma taskStep_live:
  assumes "(spurious, g', t') \<in> set (taskStep g t)" "holdsSlot t \<Longrightarrow> live g > 0"
  shows "live g' + (if holdsSlot t then 1 else 0) = live g + (if holdsSlot t' then 1 else 0)"
  using assms by (cases t) (auto simp: holdsSlot_def split: if_splits)

lemma taskStep_remembers:
  assumes "(spurious, g', t') \<in> set (taskStep g t)" "remembers workers (peak g) t" "peak g \<le> workers"
    and "t = Waiting \<Longrightarrow> live g < workers"
  shows "remembers workers (peak g') t'" "peak g' \<le> workers"
  using assms by (cases t; auto split: if_splits)+

lemma passStep_inv:
  assumes "passStep workers spurious s s'" "pass_inv workers s"
  shows "pass_inv workers s'"
  using assms(1)
proof (cases rule: passStepE)
  case (step i g t)
  let ?old = "tasks s ! i"
  have inv: "live (gauge s) = active s" "active s \<le> workers" "peak (gauge s) \<le> workers"
    "\<And>t. t \<in> set (tasks s) \<Longrightarrow> remembers workers (peak (gauge s)) t"
    using assms(2) by (auto simp: pass_inv_def)
  have "active s > 0" if "holdsSlot ?old"
    using that step(2) by (auto simp: active_def filter_empty_conv)
  then have l: "live g + (if holdsSlot ?old then 1 else 0) = live (gauge s) + (if holdsSlot t then 1 else 0)"
    using taskStep_live [OF step(4)] inv(1) by simp
  have waiting: "?old = Waiting \<Longrightarrow> live (gauge s) < workers" using step(3) inv(1) by simp
  note r = taskStep_remembers [OF step(4) inv(4) inv(3) waiting, OF nth_mem [OF step(2)]]
  have count: "active s' + (if holdsSlot ?old then 1 else 0) = active s + (if holdsSlot t then 1 else 0)"
    using count_update [OF step(2), of holdsSlot t] by (simp add: active_def step(1))
  have "active s' \<le> workers"
  proof (cases "holdsSlot ?old")
    case False
    then have "?old = Waiting \<or> t = ?old" using step(4) by (cases ?old) (auto simp: holdsSlot_def)
    then show ?thesis using count False waiting inv by (auto split: if_splits)
  qed (use count inv(2) in \<open>auto split: if_splits\<close>)
  moreover have "remembers workers (peak g) u" if "u \<in> set ((tasks s)[i := t])" for u
    using that set_update_subset_insert [of "tasks s" i t] r(1)
      remembers_mono [OF inv(4) taskStep_peak [OF step(4)]] by blast
  ultimately show ?thesis using l count r(2) inv(1) by (simp add: pass_inv_def step(1))
qed

lemma finished_active: "finished s \<Longrightarrow> active s = 0"
  by (auto simp: finished_def active_def filter_empty_conv holdsSlot_def)

lemma execution_inv: "execution workers n (s # trace) \<Longrightarrow> pass_inv workers s"
proof (induction n "s # trace" arbitrary: s trace rule: execution.induct)
  case start
  then show ?case by (simp add: pass_inv_def startPass_def new_gauge_def active_def holdsSlot_def)
next
  case (again m s trace n)
  then have "active s = 0" by (simp add: finished_active)
  with again show ?case by (simp add: pass_inv_def startPass_def active_def holdsSlot_def)
next
  case (extend n s trace spurious s')
  then show ?case using passStep_inv by blast
qed

section \<open>The peak\<close>

fun pendingNow :: "TaskState \<Rightarrow> nat set" where
  "pendingNow (Incremented now) = {now}"
| "pendingNow (Comparing now seen) = {now}"
| "pendingNow _ = {}"

text \<open>A count is recorded when the peak has reached it or a task is about to raise the peak to it.\<close>

definition recorded :: "PassTasks \<Rightarrow> nat \<Rightarrow> bool" where
  "recorded s v \<longleftrightarrow> v \<le> peak (gauge s) \<or> (\<exists>t \<in> set (tasks s). \<exists>now \<in> pendingNow t. v \<le> now)"

lemma taskStep_pending:
  assumes "(spurious, g', t') \<in> set (taskStep g t)"
  shows "live g' \<le> live g \<or> live g' \<in> pendingNow t'"
    and "peak g' = peak g \<or> peak g' \<in> pendingNow t"
    and "pendingNow t' \<subseteq> insert (live g') (pendingNow t)"
  using assms by (cases t; auto split: if_splits)+

lemma taskStep_recorded:
  assumes "(spurious, g', t') \<in> set (taskStep g t)" "remembers workers (peak g) t" "now \<in> pendingNow t" "v \<le> now"
  shows "v \<le> peak g' \<or> (\<exists>now \<in> pendingNow t'. v \<le> now)"
  using assms by (cases t) (auto split: if_splits)

lemma passStep_recorded:
  assumes "passStep workers spurious s s'" "pass_inv workers s" "recorded s v"
  shows "recorded s' v"
  using assms(1)
proof (cases rule: passStepE)
  case (step i g t)
  have "remembers workers (peak (gauge s)) (tasks s ! i)"
    using assms(2) step(2) by (simp add: pass_inv_def)
  note own = taskStep_recorded [OF step(4) this]
  have here: "t \<in> set ((tasks s)[i := t])" using step(2) by (rule set_update_memI)
  have other: "tasks s ! j \<in> set ((tasks s)[i := t])" if "j < length (tasks s)" "j \<noteq> i" for j
    using that by (metis length_list_update nth_list_update_neq nth_mem)
  from assms(3) consider "v \<le> peak (gauge s)"
    | j now where "j < length (tasks s)" "now \<in> pendingNow (tasks s ! j)" "v \<le> now"
    by (auto simp: recorded_def in_set_conv_nth)
  then show ?thesis
  proof cases
    case 1
    then show ?thesis using taskStep_peak [OF step(4)] by (simp add: recorded_def step(1))
  next
    case 2
    then show ?thesis using own [OF _ 2(3)] here other [of j] by (cases "j = i") (auto simp: recorded_def step(1))
  qed
qed

lemma execution_history:
  assumes "execution workers n (s # trace)"
  shows "(\<forall>u \<in> set (s # trace). recorded s (live (gauge u))) \<and>
    insert (peak (gauge s)) (\<Union> (pendingNow ` set (tasks s))) \<subseteq> (\<lambda>u. live (gauge u)) ` set (s # trace)"
  using assms
proof (induction n "s # trace" arbitrary: s trace rule: execution.induct)
  case start
  then show ?case by (auto simp: recorded_def startPass_def new_gauge_def)
next
  case (again m s trace n)
  then have "recorded s v \<longleftrightarrow> v \<le> peak (gauge s)" for v by (auto simp: recorded_def finished_def)
  moreover have "recorded (startPass (gauge s) n) v \<longleftrightarrow> v \<le> peak (gauge s)" for v
    by (auto simp: recorded_def startPass_def)
  ultimately show ?case using again by (auto simp: startPass_def)
next
  case (extend n s trace spurious s')
  let ?lives = "\<lambda>us. (\<lambda>u. live (gauge u)) ` set us"
  from extend.hyps(3) obtain i g t where step: "s' = \<lparr>gauge = g, tasks = (tasks s)[i := t]\<rparr>" "i < length (tasks s)"
    "(spurious, g, t) \<in> set (taskStep (gauge s) (tasks s ! i))"
    by (rule passStepE)
  note pend = taskStep_pending [OF step(3)]
  note keep = passStep_recorded [OF extend.hyps(3) execution_inv [OF extend.hyps(1)]]
  have now: "t \<in> set (tasks s')" using set_update_memI [OF step(2)] by (simp add: step(1))
  have "recorded s (live (gauge s))" using extend.hyps(2) by simp
  then have "recorded s' (live (gauge s))" by (rule keep)
  then have "recorded s' (live g)" using pend(1) now by (fastforce simp: recorded_def step(1))
  moreover have "recorded s' (live (gauge u))" if "u \<in> set (s # trace)" for u using that keep extend.hyps(2) by blast
  moreover have old: "pendingNow (tasks s ! i) \<subseteq> ?lives (s # trace)" "peak (gauge s) \<in> ?lives (s # trace)"
    using extend.hyps(2) nth_mem [OF step(2)] by blast+
  then have "peak g \<in> ?lives (s # trace)" using pend(2) by (metis (no_types, lifting) subsetD)
  moreover have "pendingNow u \<subseteq> ?lives (s' # s # trace)" if "u \<in> set (tasks s')" for u
  proof -
    from that have "u = t \<or> u \<in> set (tasks s)"
      using set_update_subset_insert [of "tasks s" i t] by (auto simp: step(1))
    moreover have "pendingNow t \<subseteq> insert (live g) (?lives (s # trace))" using pend(3) old(1) by blast
    ultimately show ?thesis using extend.hyps(2) by (auto simp: step(1))
  qed
  ultimately show ?case by (auto simp: step(1))
qed

text \<open>
  C30: Whatever the interleaving of the workers, when a pass is over the gauge shows the largest number
  of units that were live at once in this pass and the passes before it, which share the gauge, that
  number is at most the number of workers, and no unit is counted as live any more.
\<close>
theorem peak_is_most_live:
  assumes "execution workers n (s # trace)" "finished s"
  shows "peak (gauge s) = Max ((\<lambda>u. live (gauge u)) ` set (s # trace)) \<and> peak (gauge s) \<le> workers \<and>
    live (gauge s) = 0"
proof -
  have inv: "pass_inv workers s" using assms(1) by (rule execution_inv)
  have "pendingNow t = {}" if "t \<in> set (tasks s)" for t
    using assms(2) that by (auto simp: finished_def)
  then have "live (gauge u) \<le> peak (gauge s)" if "u \<in> set (s # trace)" for u
    using execution_history [OF assms(1)] that by (auto simp: recorded_def)
  moreover have "peak (gauge s) \<in> (\<lambda>u. live (gauge u)) ` set (s # trace)"
    using execution_history [OF assms(1)] by blast
  ultimately have "peak (gauge s) = Max ((\<lambda>u. live (gauge u)) ` set (s # trace))"
    by (intro Max_eqI [symmetric]) auto
  moreover have "active s = 0" using assms(2) by (rule finished_active)
  ultimately show ?thesis using inv by (simp add: pass_inv_def)
qed

text \<open>
  C29: At every moment of a pass the live count is the number of units the workers hold, and neither
  it nor the peak exceeds the number of workers.
\<close>
theorem gauge_bounded:
  assumes "execution workers n (s # trace)"
  shows "live (gauge s) = length (filter holdsSlot (tasks s)) \<and> live (gauge s) \<le> workers \<and>
    peak (gauge s) \<le> workers \<and> length (tasks s) = n"
proof -
  have "length (tasks s) = n"
    using assms by (induction n "s # trace" arbitrary: s trace rule: execution.induct)
      (auto simp: startPass_def elim: passStepE)
  then show ?thesis using execution_inv [OF assms] by (simp add: pass_inv_def active_def)
qed

section \<open>Termination\<close>

fun stepsLeft :: "nat \<Rightarrow> TaskState \<Rightarrow> nat" where
  "stepsLeft workers Waiting = workers + 4"
| "stepsLeft workers (Incremented now) = workers + 3"
| "stepsLeft workers (Comparing now seen) = workers - seen + 2"
| "stepsLeft workers Holding = 1"
| "stepsLeft workers Released = 0"

definition passSteps :: "nat \<Rightarrow> PassTasks \<Rightarrow> nat" where
  "passSteps workers s = sum_list (map (stepsLeft workers) (tasks s))"

lemma taskStep_decreases:
  assumes "(False, g', t') \<in> set (taskStep g t)" "remembers workers (peak g) t" "peak g \<le> workers"
  shows "stepsLeft workers t' < stepsLeft workers t"
  using assms by (cases t) (auto split: if_splits)

lemma sum_list_update_less:
  fixes f :: "'a \<Rightarrow> nat"
  assumes "i < length xs" "f y < f (xs ! i)"
  shows "sum_list (map f (xs[i := y])) < sum_list (map f xs)"
  using assms
proof (induction xs arbitrary: i)
  case (Cons x xs)
  then show ?case by (cases i) auto
qed simp

lemma taskStep_spurious: "(True, g', t') \<in> set (taskStep g t) \<Longrightarrow> g' = g \<and> t' = t"
  by (cases t) (auto split: if_splits)

lemma taskStep_enabled: "t \<noteq> Released \<Longrightarrow> \<exists>g' t'. (False, g', t') \<in> set (taskStep g t)"
  by (cases t) auto

lemma passStep_decreases:
  assumes "passStep workers False s s'" "pass_inv workers s"
  shows "passSteps workers s' < passSteps workers s"
  using assms(1)
proof (cases rule: passStepE)
  case (step i g t)
  have "remembers workers (peak (gauge s)) (tasks s ! i)" "peak (gauge s) \<le> workers"
    using assms(2) step(2) by (simp_all add: pass_inv_def)
  then show ?thesis
    using sum_list_update_less [OF step(2) taskStep_decreases [OF step(4), of workers]] by (simp add: passSteps_def step(1))
qed

lemma passStep_spurious: "passStep workers True s s' \<Longrightarrow> s' = s"
  by (cases rule: passStepE) (auto dest!: taskStep_spurious)

text \<open>
  A run of a pass takes fewer than \<open>passSteps\<close> steps that are no spurious failures, so one that goes on for
  ever does nothing else from some point on.
\<close>

lemma run_settles:
  assumes "\<And>i. passStep workers (b i) (\<sigma> i) (\<sigma> (Suc i))" "pass_inv workers (\<sigma> 0)"
  shows "\<exists>m. \<forall>i \<ge> m. b i"
proof -
  have inv: "pass_inv workers (\<sigma> i)" for i
    by (induction i) (use assms passStep_inv in blast)+
  have less: "passSteps workers (\<sigma> (Suc i)) < passSteps workers (\<sigma> i)" if "\<not> b i" for i
    using that passStep_decreases [OF _ inv] assms(1) [of i] by simp
  have same: "\<sigma> (Suc i) = \<sigma> i" if "b i" for i
    using that passStep_spurious assms(1) [of i] by simp
  have "\<exists>m \<ge> k. \<forall>i \<ge> m. b i" for k
  proof (induction "passSteps workers (\<sigma> k)" arbitrary: k rule: less_induct)
    case less
    show ?case
    proof (cases "\<forall>i \<ge> k. b i")
      case False
      then obtain j where j: "j \<ge> k" "\<not> b j" "\<And>i. k \<le> i \<Longrightarrow> i < j \<Longrightarrow> b i"
        using exists_least_iff [of "\<lambda>j. j \<ge> k \<and> \<not> b j"] by (metis (no_types, lifting))
      have "\<sigma> j = \<sigma> k" using j(1,3)
        by (induction j rule: dec_induct) (auto simp: same)
      then have "passSteps workers (\<sigma> (Suc j)) < passSteps workers (\<sigma> k)" using \<open>\<not> b j\<close> less.prems
        by (metis \<open>\<And>i. \<not> b i \<Longrightarrow> passSteps workers (\<sigma> (Suc i)) < passSteps workers (\<sigma> i)\<close>)
      from less.hyps [OF this] j(1) show ?thesis by (meson Suc_leD le_trans)
    qed blast
  qed
  then show ?thesis by blast
qed

text \<open>
  C31: A pass ends unless a weak exchange keeps failing without a cause: until every unit is released some
  worker can take a step that is no such failure, each of these takes at least one from a finite budget,
  a failure of a weak exchange on equal values changes nothing, and a run that never ends does nothing
  but repeat such failures from some point on.
\<close>
theorem pass_terminates:
  assumes "execution workers n (s # trace)" "workers > 0"
  shows "(finished s \<or> (\<exists>s'. passStep workers False s s')) \<and>
    (\<forall>s'. passStep workers False s s' \<longrightarrow> passSteps workers s' < passSteps workers s) \<and>
    (\<forall>s'. passStep workers True s s' \<longrightarrow> s' = s) \<and>
    (\<forall>\<sigma> b. \<sigma> 0 = s \<and> (\<forall>i. passStep workers (b i) (\<sigma> i) (\<sigma> (Suc i))) \<longrightarrow> (\<exists>m. \<forall>i \<ge> m. b i))"
proof (intro conjI allI impI)
  have inv: "pass_inv workers s" using assms(1) by (rule execution_inv)
  show "finished s \<or> (\<exists>s'. passStep workers False s s')"
  proof (cases "\<exists>t \<in> set (tasks s). holdsSlot t")
    case True
    then obtain i where i: "i < length (tasks s)" "holdsSlot (tasks s ! i)" by (auto simp: in_set_conv_nth)
    then show ?thesis
      using taskStep_enabled [of "tasks s ! i" "gauge s"] by (auto simp: holdsSlot_def intro: passStep.step)
  next
    case False
    then have "active s = 0" by (simp add: active_def filter_empty_conv)
    moreover have "\<exists>i < length (tasks s). tasks s ! i = Waiting" if "\<not> finished s"
      using that False by (auto simp: finished_def holdsSlot_def in_set_conv_nth)
    ultimately show ?thesis
      using assms(2) taskStep_enabled [of Waiting "gauge s"] by (metis TaskState.distinct(7) passStep.step)
  qed
  show "passSteps workers s' < passSteps workers s" if "passStep workers False s s'" for s'
    using that inv by (rule passStep_decreases)
  show "s' = s" if "passStep workers True s s'" for s'
    using that by (rule passStep_spurious)
  show "\<exists>m. \<forall>i \<ge> m. b i" if "\<sigma> 0 = s \<and> (\<forall>i. passStep workers (b i) (\<sigma> i) (\<sigma> (Suc i)))" for \<sigma> b
    using that inv by (intro run_settles [of workers b \<sigma>]) auto
qed

section \<open>Witnesses\<close>

text \<open>The pass over one unit, state by state, on a gauge that shows the peak \<open>p\<close>.\<close>

abbreviation onePass :: "nat \<Rightarrow> nat \<Rightarrow> TaskState \<Rightarrow> PassTasks" where
  "onePass l p t \<equiv> \<lparr>gauge = \<lparr>live = l, peak = p\<rparr>, tasks = [t]\<rparr>"

lemma extend_onePass:
  assumes "execution 1 1 (onePass l p t # trace)" "t = Waiting \<or> holdsSlot t"
    and "(b, \<lparr>live = l', peak = p'\<rparr>, t') \<in> set (taskStep \<lparr>live = l, peak = p\<rparr> t)"
  shows "execution 1 1 (onePass l' p' t' # onePass l p t # trace)"
proof -
  have "passStep 1 b (onePass l p t) \<lparr>gauge = \<lparr>live = l', peak = p'\<rparr>, tasks = (tasks (onePass l p t))[0 := t']\<rparr>"
    using assms by (intro passStep.step) (auto simp: active_def holdsSlot_def)
  with assms(1) show ?thesis by (auto intro: execution.extend)
qed

abbreviation unitPass :: "nat \<Rightarrow> PassTasks list" where
  "unitPass p \<equiv> [onePass 0 1 Released, onePass 1 1 Holding, onePass 1 p (Comparing 1 p),
     onePass 1 p (Incremented 1), onePass 0 p Waiting]"

lemma one_unit_pass:
  assumes "execution 1 1 (onePass 0 p Waiting # trace)" "p \<le> 1"
  shows "execution 1 1 (unitPass p @ trace)"
proof -
  from extend_onePass [OF assms(1), of False 1 p "Incremented 1"]
  have "execution 1 1 (onePass 1 p (Incremented 1) # onePass 0 p Waiting # trace)" by simp
  from extend_onePass [OF this, of False 1 p "Comparing 1 p"]
  have "execution 1 1 (onePass 1 p (Comparing 1 p) # onePass 1 p (Incremented 1) # onePass 0 p Waiting # trace)"
    by (simp add: holdsSlot_def)
  from extend_onePass [OF this, of False 1 1 Holding] assms(2)
  have "execution 1 1 (onePass 1 1 Holding # onePass 1 p (Comparing 1 p) # onePass 1 p (Incremented 1) #
      onePass 0 p Waiting # trace)"
    by (cases "p = 1") (simp_all add: holdsSlot_def)
  from extend_onePass [OF this, of False 0 1 Released] show ?thesis by (simp add: holdsSlot_def)
qed

text \<open>One unit analysed in the first pass and again in the second.\<close>

lemma two_pass_execution: "execution 1 1 (unitPass 1 @ unitPass 0)"
proof -
  have "execution 1 1 [onePass 0 0 Waiting]"
    using execution.start [of 1 1] by (simp add: startPass_def new_gauge_def)
  from one_unit_pass [OF this] have "execution 1 1 (unitPass 0)" by simp
  from execution.again [OF this, of 1] have "execution 1 1 (onePass 0 1 Waiting # unitPass 0)"
    by (simp add: finished_def startPass_def)
  from one_unit_pass [OF this] show ?thesis by simp
qed

theorem peak_is_most_live_witness:
  "peak (gauge (onePass 0 1 Released)) = Max ((\<lambda>u. live (gauge u)) ` set (unitPass 1 @ unitPass 0)) \<and>
   live (gauge (onePass 0 1 Released)) = 0"
  using peak_is_most_live [OF two_pass_execution [unfolded append_Cons]] by (simp add: finished_def)

theorem gauge_bounded_witness:
  "live (gauge (onePass 0 1 Released)) = length (filter holdsSlot [Released]) \<and> peak (gauge (onePass 0 1 Released)) \<le> 1"
  using gauge_bounded [OF two_pass_execution [unfolded append_Cons]] by simp

theorem pass_terminates_witness:
  "finished (onePass 0 1 Released) \<or> (\<exists>s'. passStep 1 False (onePass 0 1 Released) s')"
  using pass_terminates [OF two_pass_execution [unfolded append_Cons]] by simp

end
