(* ===== verification/Text.thy ===== *)
theory Text
  imports Prelude
begin

text \<open>
  What the code uses of \<open>std::string_view\<close>: searching a character from an index, substrings, the two
  index loops that trim a text and cut it into lines, and \<open>std::from_chars\<close> on unsigned numbers,
  with the reference functions on lists the component proofs rest on.
\<close>

section \<open>Searching and cutting\<close>

text \<open>\<open>find(c, start)\<close>; \<open>npos\<close> is \<^const>\<open>None\<close>.\<close>

definition find_from :: "char \<Rightarrow> string \<Rightarrow> nat \<Rightarrow> nat option" where
  "find_from c s start =
     (let index = start + length (takeWhile (\<lambda>x. x \<noteq> c) (drop start s))
      in if index < length s then Some index else None)"

text \<open>\<open>substr(start, count)\<close>.\<close>

definition substr :: "string \<Rightarrow> nat \<Rightarrow> nat \<Rightarrow> string" where
  "substr s start count = take count (drop start s)"

lemma find_from_None: "find_from c s start = None \<Longrightarrow> start \<le> length s \<Longrightarrow> c \<notin> set (drop start s)"
proof
  assume none: "find_from c s start = None" and "c \<in> set (drop start s)"
  then obtain a b where "drop start s = a @ c # b" "c \<notin> set a" by (meson split_list_first)
  then have "takeWhile (\<lambda>x. x \<noteq> c) (drop start s) = a" by (auto simp: takeWhile_tail takeWhile_append2)
  moreover have "length s - start = length a + 1 + length b"
    using arg_cong [OF \<open>drop start s = a @ c # b\<close>, of length] by simp
  ultimately show False using none by (simp add: find_from_def Let_def split: if_splits)
qed

lemma find_from_Some:
  assumes "find_from c s start = Some index"
  shows "start \<le> index" "index < length s"
    and "drop start s = substr s start (index - start) @ c # drop (index + 1) s"
    and "c \<notin> set (substr s start (index - start))"
proof -
  let ?t = "takeWhile (\<lambda>x. x \<noteq> c) (drop start s)"
  from assms have index: "index = start + length ?t" "start + length ?t < length s"
    by (auto simp: find_from_def Let_def split: if_splits)
  then show "start \<le> index" "index < length s" by simp_all
  have pre: "substr s start (index - start) = ?t"
    unfolding substr_def using takeWhile_eq_take [of "\<lambda>x. x \<noteq> c" "drop start s"] index(1) by simp
  have "length ?t < length (drop start s)" using index(2) by simp
  then have "drop start s ! length ?t = c" using nth_length_takeWhile by blast
  then have "drop start s = ?t @ c # drop (Suc (length ?t)) (drop start s)"
    using \<open>length ?t < length (drop start s)\<close>
    by (metis id_take_nth_drop takeWhile_eq_take)
  then show "drop start s = substr s start (index - start) @ c # drop (index + 1) s"
    using pre index(1) by (simp add: add.commute add.left_commute)
  show "c \<notin> set (substr s start (index - start))" unfolding pre using set_takeWhileD by fastforce
qed

lemma find_from_at:
  assumes "drop start s = a @ c # b" "c \<notin> set a" "start \<le> length s"
  shows "find_from c s start = Some (start + length a)" "drop (start + length a + 1) s = b"
    and "substr s start (length a) = a"
proof -
  have "takeWhile (\<lambda>x. x \<noteq> c) (drop start s) = a"
    unfolding assms(1) using assms(2) by (induction a) auto
  moreover have "start + length a < length s"
    using arg_cong [OF assms(1), of length] assms(3) by simp
  ultimately show "find_from c s start = Some (start + length a)" by (simp add: find_from_def Let_def)
  have "drop (start + length a + 1) s = drop (length a + 1) (drop start s)" by (simp add: add.commute)
  then show "drop (start + length a + 1) s = b" by (simp add: assms(1))
  show "substr s start (length a) = a" by (simp add: substr_def assms(1))
qed

lemma find_from_none:
  assumes "c \<notin> set (drop start s)"
  shows "find_from c s start = None"
proof -
  have "takeWhile (\<lambda>x. x \<noteq> c) (drop start s) = drop start s"
    using assms unfolding takeWhile_eq_all_conv by blast
  then show ?thesis unfolding find_from_def Let_def by (simp only: length_drop) simp
qed

section \<open>Trimming\<close>

function trimBegin :: "string \<Rightarrow> nat \<Rightarrow> nat" where
  "trimBegin s begin = (if begin < length s \<and> isspace (s ! begin) then trimBegin s (begin + 1) else begin)"
  by auto
termination by (relation "measure (\<lambda>(s, begin). length s - begin)") auto

fun trimEnd :: "string \<Rightarrow> nat \<Rightarrow> nat \<Rightarrow> nat" where
  "trimEnd s begin 0 = 0"
| "trimEnd s begin (Suc e) = (if Suc e > begin \<and> isspace (s ! e) then trimEnd s begin e else Suc e)"

definition trim :: "string \<Rightarrow> string" where
  "trim s = (let begin = trimBegin s 0; e = trimEnd s begin (length s) in substr s begin (e - begin))"

declare trimBegin.simps [simp del]

lemma trimBegin_dropWhile:
  "begin \<le> length s \<Longrightarrow> begin \<le> trimBegin s begin \<and> trimBegin s begin \<le> length s \<and>
     drop (trimBegin s begin) s = dropWhile isspace (drop begin s)"
proof (induction s "begin" rule: trimBegin.induct)
  case (1 s b)
  show ?case
  proof (cases "b < length s")
    case True
    then have "drop b s = s ! b # drop (b + 1) s" by (simp add: Cons_nth_drop_Suc)
    then show ?thesis using 1 True by (auto simp: trimBegin.simps [of s b])
  next
    case False
    then have "trimBegin s b = b" by (simp add: trimBegin.simps)
    with False show ?thesis using 1(2) by simp
  qed
qed

lemma trimEnd_dropWhile:
  "begin \<le> e \<Longrightarrow> e \<le> length s \<Longrightarrow> substr s begin (trimEnd s begin e - begin) =
     rev (dropWhile isspace (rev (substr s begin (e - begin))))"
proof (induction e)
  case (Suc e)
  show ?case
  proof (cases "Suc e > begin")
    case True
    then have "substr s begin (Suc e - begin) = substr s begin (e - begin) @ [s ! e]"
      using Suc.prems by (simp add: substr_def Suc_diff_le take_Suc_conv_app_nth)
    then show ?thesis using Suc True by auto
  qed (use Suc.prems in \<open>simp add: substr_def\<close>)
qed (simp add: substr_def)

lemma trim_reference: "trim s = rev (dropWhile isspace (rev (dropWhile isspace s)))"
proof -
  have b: "trimBegin s 0 \<le> length s" "drop (trimBegin s 0) s = dropWhile isspace s"
    using trimBegin_dropWhile [of 0 s] by simp_all
  have "substr s (trimBegin s 0) (length s - trimBegin s 0) = dropWhile isspace s"
    unfolding substr_def b(2) [symmetric] by simp
  then show ?thesis using trimEnd_dropWhile [OF b(1) order_refl] by (simp add: trim_def Let_def)
qed

lemma trim_id: "s \<noteq> [] \<Longrightarrow> \<not> isspace (hd s) \<Longrightarrow> \<not> isspace (last s) \<Longrightarrow> trim s = s"
proof -
  assume "s \<noteq> []" "\<not> isspace (hd s)" "\<not> isspace (last s)"
  then have "dropWhile isspace s = s" "dropWhile isspace (rev s) = rev s"
    by (simp_all add: dropWhile_eq_self_iff hd_rev)
  then show ?thesis by (simp add: trim_reference)
qed

lemma trim_empty_string [simp]: "trim [] = []"
  by (simp add: trim_reference)

lemma trim_space [simp]: "isspace c \<Longrightarrow> trim (c # s) = trim s"
  by (simp add: trim_reference)

section \<open>Lines\<close>

abbreviation newline :: char where
  "newline \<equiv> CHR 0x0A"

function splitLinesFrom :: "string \<Rightarrow> nat \<Rightarrow> string list" where
  "splitLinesFrom text cursor =
     (if cursor < length text
      then (case find_from newline text cursor of
              None \<Rightarrow> [drop cursor text]
            | Some lineEnd \<Rightarrow> substr text cursor (lineEnd - cursor) # splitLinesFrom text (lineEnd + 1))
      else [])"
  by auto
termination
  by (relation "measure (\<lambda>(text, cursor). length text - cursor)") (auto dest: find_from_Some)

definition splitLines :: "string \<Rightarrow> string list" where
  "splitLines text = splitLinesFrom text 0 @ (if text = [] then [[]] else [])"

declare splitLinesFrom.simps [simp del]

text \<open>The lines of a text: each ends at a newline, the last one at the latest with the text.\<close>

fun lines_of :: "string \<Rightarrow> string list" where
  "lines_of [] = []"
| "lines_of (c # s) =
     (if c = newline then [] # lines_of s
      else case lines_of s of [] \<Rightarrow> [[c]] | l # ls \<Rightarrow> (c # l) # ls)"

lemma lines_of_single: "newline \<notin> set s \<Longrightarrow> s \<noteq> [] \<Longrightarrow> lines_of s = [s]"
proof (induction s)
  case (Cons c s)
  then show ?case by (cases "s = []") auto
qed simp

lemma lines_of_append: "newline \<notin> set a \<Longrightarrow> lines_of (a @ newline # b) = a # lines_of b"
  by (induction a) auto

lemma splitLinesFrom_lines: "cursor \<le> length text \<Longrightarrow> splitLinesFrom text cursor = lines_of (drop cursor text)"
proof (induction "text" cursor rule: splitLinesFrom.induct)
  case (1 t cursor)
  show ?case
  proof (cases "cursor < length t")
    case True
    show ?thesis
    proof (cases "find_from newline t cursor")
      case None
      then show ?thesis
        using True find_from_None [OF None] by (simp add: splitLinesFrom.simps lines_of_single)
    next
      case (Some lineEnd)
      note at = find_from_Some [OF Some]
      have "splitLinesFrom t (lineEnd + 1) = lines_of (drop (lineEnd + 1) t)"
        using 1(1) [OF True Some] at(2) by simp
      then show ?thesis
        using True Some lines_of_append [OF at(4), of "drop (lineEnd + 1) t"] at(3)
        by (simp add: splitLinesFrom.simps [of t cursor])
    qed
  qed (use 1 in \<open>simp add: splitLinesFrom.simps\<close>)
qed

lemma splitLines_lines: "splitLines text = (if text = [] then [[]] else lines_of text)"
  using splitLinesFrom_lines [of 0 "text"] by (simp add: splitLines_def)

lemma lines_of_concat: "concat (map (\<lambda>l. l @ [newline]) (lines_of s)) = (if s = [] \<or> last s = newline then s else s @ [newline])"
proof (induction s)
  case (Cons c s)
  have "lines_of s = [] \<longleftrightarrow> s = []" by (cases s) (auto split: list.splits)
  with Cons show ?case by (auto split: list.splits)
qed simp

end
