(* ===== verification/Compiler_Diagnostics.thy ===== *)
theory Compiler_Diagnostics
  imports Text Report_Builder Error_Codes "HOL-Library.Word"
begin

text \<open>
  The parser of the compiler's output (\<open>diagnostics/compiler_diagnostic_parser.cpp\<close>). Numbers are read
  into a 32-bit \<open>unsigned\<close>, which wraps. The pointer \<open>currentPrimary\<close> into the vector of diagnostics is
  the index it points to.
\<close>

section \<open>One line\<close>

record ParsedDiagnosticLine =
  pl_location :: SourceLocation
  pl_severity :: Severity
  pl_severityLabel :: string
  pl_message :: string
  pl_hasStructuredLocation :: bool

fun parseDigits :: "string \<Rightarrow> 32 word \<Rightarrow> 32 word option" where
  "parseDigits [] v = Some v"
| "parseDigits (ch # text) v =
     (if \<not> isdigit ch then None else parseDigits text (v * 10 + word_of_nat (digit_value ch)))"

definition parseUnsigned :: "string \<Rightarrow> 32 word option" where
  "parseUnsigned text = (if text = [] then None else parseDigits text 0)"

definition toSeverityToken :: "string \<Rightarrow> string" where
  "toSeverityToken value =
     (if value = ''fatal error'' then value
      else if value = ''error'' then value
      else if value = ''warning'' then value
      else if value = ''note'' then value
      else if value = ''remark'' then value
      else [])"

definition mapSeverity :: "string \<Rightarrow> Severity" where
  "mapSeverity value =
     (if value = ''warning'' then Sev_Warning
      else if value = ''remark'' \<or> value = ''note'' then Sev_Info
      else Sev_Error)"

definition parseStructuredLine :: "string \<Rightarrow> ParsedDiagnosticLine option" where
  "parseStructuredLine line =
     (case find_from (CHR '':'') line 0 of None \<Rightarrow> None | Some firstColon \<Rightarrow>
      case find_from (CHR '':'') line (firstColon + 1) of None \<Rightarrow> None | Some secondColon \<Rightarrow>
      case find_from (CHR '':'') line (secondColon + 1) of None \<Rightarrow> None | Some thirdColon \<Rightarrow>
      case find_from (CHR '':'') line (thirdColon + 1) of None \<Rightarrow> None | Some fourthColon \<Rightarrow>
      case parseUnsigned (substr line (firstColon + 1) (secondColon - firstColon - 1)) of None \<Rightarrow> None
      | Some lineNumber \<Rightarrow>
      case parseUnsigned (substr line (secondColon + 1) (thirdColon - secondColon - 1)) of None \<Rightarrow> None
      | Some columnNumber \<Rightarrow>
        (let severity = trim (substr line (thirdColon + 1) (fourthColon - thirdColon - 1));
             severityToken = toSeverityToken severity
         in if severityToken = [] then None
            else Some
              \<lparr>pl_location = no_location\<lparr>sl_file := substr line 0 firstColon, sl_line := unat lineNumber,
                 sl_column := unat columnNumber, sl_endLine := unat lineNumber, sl_endColumn := unat columnNumber\<rparr>,
               pl_severity = mapSeverity severityToken, pl_severityLabel = severity,
               pl_message = trim (drop (fourthColon + 1) line), pl_hasStructuredLocation = True\<rparr>))"

section \<open>The report\<close>

definition fallbackDiagnostic :: "CompileError \<Rightarrow> string \<Rightarrow> string \<Rightarrow> Diagnostic" where
  "fallbackDiagnostic err inputFile rawDiagnostics =
     (let d = b_property ''rawDiagnostic'' (PropString rawDiagnostics)
                (b_property ''compilerSeverity'' (PropString ''error'')
                (b_message (if ce_message err = [] then code_message (ce_code err) else ce_message err)
                (b_severity Sev_Error
                (b_primaryLocation (no_location\<lparr>sl_file := inputFile\<rparr>) (builder CompilerDiagnostic)))));
          formattedError = formatCompileError err
      in if formattedError \<noteq> [] then b_note formattedError d else d)"

definition unstructuredDiagnostic :: "string \<Rightarrow> string \<Rightarrow> Diagnostic" where
  "unstructuredDiagnostic inputFile line =
     b_property ''rawDiagnostic'' (PropString line)
       (b_property ''compilerSeverity'' (PropString ''error'')
       (b_message line
       (b_severity Sev_Error
       (b_primaryLocation (no_location\<lparr>sl_file := inputFile\<rparr>) (builder CompilerDiagnostic)))))"

definition structuredDiagnostic :: "ParsedDiagnosticLine \<Rightarrow> string \<Rightarrow> Diagnostic" where
  "structuredDiagnostic parsed line =
     b_property ''rawDiagnostic'' (PropString line)
       (b_property ''compilerSeverity'' (PropString (pl_severityLabel parsed))
       (b_message (pl_message parsed)
       (b_severity (pl_severity parsed)
       (b_primaryLocation (pl_location parsed) (builder CompilerDiagnostic)))))"

definition summarize :: "DiagnosticReport \<Rightarrow> DiagnosticSummary" where
  "summarize report = fold countSeverity (rp_diagnostics report) no_summary"

type_synonym parse_state = "DiagnosticReport \<times> nat option"

definition onPrimary :: "nat \<Rightarrow> (Diagnostic \<Rightarrow> Diagnostic) \<Rightarrow> DiagnosticReport \<Rightarrow> DiagnosticReport" where
  "onPrimary i f report =
     report\<lparr>rp_diagnostics := (rp_diagnostics report)[i := f (rp_diagnostics report ! i)]\<rparr>"

definition emitPrimary :: "Diagnostic \<Rightarrow> DiagnosticReport \<Rightarrow> parse_state" where
  "emitPrimary d report = (emit report d, Some (length (rp_diagnostics (emit report d)) - 1))"

definition parseLine :: "string \<Rightarrow> string \<Rightarrow> parse_state \<Rightarrow> parse_state" where
  "parseLine inputFile rawLine st =
     (let (report, currentPrimary) = st; line = trim rawLine
      in if line = [] then st
         else
           (case parseStructuredLine line of
              None \<Rightarrow>
                (case currentPrimary of
                   Some i \<Rightarrow> (onPrimary i (b_note line) report, currentPrimary)
                 | None \<Rightarrow> emitPrimary (unstructuredDiagnostic inputFile line) report)
            | Some parsed \<Rightarrow>
                if pl_severityLabel parsed = ''note''
                then (case currentPrimary of
                        Some i \<Rightarrow>
                          (onPrimary i (b_relatedLocation ''Compiler note'' (pl_location parsed) \<circ> b_note (pl_message parsed))
                             report, currentPrimary)
                      | None \<Rightarrow> emitPrimary (structuredDiagnostic parsed line) report)
                else emitPrimary (structuredDiagnostic parsed line) report))"

definition compilerOrder :: "Diagnostic \<Rightarrow> string \<times> nat \<times> nat \<times> string" where
  "compilerOrder d = (sl_file (d_location d), sl_line (d_location d), sl_column (d_location d), d_message d)"

definition parseCompilerDiagnostics :: "string \<Rightarrow> CompileError \<Rightarrow> string \<Rightarrow> DiagnosticReport" where
  "parseCompilerDiagnostics rawDiagnostics err inputFile =
     (let report = fst (fold (parseLine inputFile) (splitLines rawDiagnostics) (empty_report, None));
          report = (if rp_diagnostics report = []
                    then emit report (fallbackDiagnostic err inputFile rawDiagnostics) else report);
          report = report\<lparr>rp_diagnostics := numberDiagnostics (sort_key compilerOrder (rp_diagnostics report))\<rparr>
      in report\<lparr>rp_diagnosticsSummary := summarize report\<rparr>)"

section \<open>Numbers\<close>

lemma parseDigits_value:
  "parseDigits s (word_of_nat v) = (if \<forall>c \<in> set s. isdigit c
     then Some (word_of_nat (foldl (\<lambda>v c. v * 10 + digit_value c) v s)) else None)"
proof (induction s arbitrary: v)
  case (Cons c s)
  have "(word_of_nat v :: 32 word) * 10 + word_of_nat (digit_value c) = word_of_nat (v * 10 + digit_value c)" by simp
  then show ?case using Cons.IH [of "v * 10 + digit_value c"] by (simp only: parseDigits.simps) simp
qed simp

lemma parseUnsigned_value:
  "parseUnsigned s = (if s \<noteq> [] \<and> (\<forall>c \<in> set s. isdigit c) then Some (word_of_nat (digits_value s)) else None)"
  using parseDigits_value [of s 0] by (simp add: parseUnsigned_def digits_value_def)

text \<open>A number the compiler prints is read modulo \<open>2 ^ 32\<close>.\<close>

lemma parseUnsigned_number: "parseUnsigned (to_string_nat n) = Some (word_of_nat n)"
  using to_string_nat_digits [of _ n] by (simp add: parseUnsigned_value)

section \<open>Reading back a rendered line\<close>

text \<open>The way a compiler prints a diagnostic.\<close>

definition renderLine :: "string \<Rightarrow> nat \<Rightarrow> nat \<Rightarrow> string \<Rightarrow> string \<Rightarrow> string" where
  "renderLine file line column label message =
     file @ '':'' @ to_string_nat line @ '':'' @ to_string_nat column @ '': '' @ label @ '': '' @ message"

lemma no_colon_in_number: "CHR '':'' \<notin> set (to_string_nat n)"
  using to_string_nat_digits [of "CHR '':''" n] by (auto simp: isdigit_def)

text \<open>The four colons of a line, and what stands between them.\<close>

lemma parseStructuredLine_parts:
  assumes "line = a @ CHR '':'' # b @ CHR '':'' # c @ CHR '':'' # e @ CHR '':'' # m"
    and "CHR '':'' \<notin> set a" "CHR '':'' \<notin> set b" "CHR '':'' \<notin> set c" "CHR '':'' \<notin> set e"
    and "parseUnsigned b = Some l" "parseUnsigned c = Some k" "toSeverityToken (trim e) \<noteq> []"
  shows "parseStructuredLine line = Some
    \<lparr>pl_location = no_location\<lparr>sl_file := a, sl_line := unat l, sl_column := unat k, sl_endLine := unat l,
       sl_endColumn := unat k\<rparr>, pl_severity = mapSeverity (trim e), pl_severityLabel = trim e,
     pl_message = trim m, pl_hasStructuredLocation = True\<rparr>"
proof -
  define p1 where "p1 = length a"
  define p2 where "p2 = p1 + 1 + length b"
  define p3 where "p3 = p2 + 1 + length c"
  define p4 where "p4 = p3 + 1 + length e"
  note pos = p1_def p2_def p3_def p4_def
  have len: "p1 + 1 \<le> length line" "p2 + 1 \<le> length line" "p3 + 1 \<le> length line"
    by (simp_all add: assms(1) pos)
  have start: "drop 0 line = a @ CHR '':'' # b @ CHR '':'' # c @ CHR '':'' # e @ CHR '':'' # m"
    by (simp add: assms(1))
  note f1 = find_from_at [OF start assms(2), simplified, folded p1_def]
  note f2 = find_from_at [OF f1(2) [unfolded Suc_eq_plus1] assms(3) len(1), folded p2_def]
  note f3 = find_from_at [OF f2(2) assms(4) len(2), folded p3_def]
  note f4 = find_from_at [OF f3(2) assms(5) len(3), folded p4_def]
  have widths: "p2 - p1 - 1 = length b" "p3 - p2 - 1 = length c" "p4 - p3 - 1 = length e" by (simp_all add: pos)
  have "toSeverityToken (trim e) = trim e" using assms(8) by (auto simp: toSeverityToken_def split: if_splits)
  then show ?thesis
    unfolding parseStructuredLine_def f1 f2(1) f3(1) f4(1) option.case widths f2(3) f3(3) f4(3) assms(6,7) f4(2) Let_def
    using assms(8) by simp
qed

text \<open>
  C35: A diagnostic printed by the compiler as file, line, column, label and message is read back as it
  was printed, for line and column numbers of 32 bits and a file name without a colon.
\<close>
theorem rendered_line_read_back:
  assumes "CHR '':'' \<notin> set file" "line < 2 ^ 32" "column < 2 ^ 32"
    and "label \<in> {''fatal error'', ''error'', ''warning'', ''note'', ''remark''}" "trim message = message"
  shows "parseStructuredLine (renderLine file line column label message) = Some
    \<lparr>pl_location = no_location\<lparr>sl_file := file, sl_line := line, sl_column := column, sl_endLine := line,
       sl_endColumn := column\<rparr>, pl_severity = mapSeverity label, pl_severityLabel = label,
     pl_message = message, pl_hasStructuredLocation = True\<rparr>"
proof -
  have space: "isspace (CHR '' '')" by (simp add: isspace_def)
  have label: "CHR '':'' \<notin> set ('' '' @ label)" "trim ('' '' @ label) = label" "toSeverityToken label \<noteq> []"
    using assms(4) by (auto simp: space trim_id isspace_def toSeverityToken_def)
  have message: "trim (CHR '' '' # message) = message" using assms(5) by (simp add: space)
  have number: "unat (word_of_nat n :: 32 word) = n" if "n < 2 ^ 32" for n
    using that by (simp add: unat_of_nat)
  have "renderLine file line column label message =
      file @ CHR '':'' # to_string_nat line @ CHR '':'' # to_string_nat column @ CHR '':'' # ('' '' @ label) @ CHR '':'' #
        (CHR '' '' # message)"
    by (simp add: renderLine_def)
  from parseStructuredLine_parts [OF this assms(1) no_colon_in_number no_colon_in_number label(1)
      parseUnsigned_number parseUnsigned_number] show ?thesis
    by (simp only: label(2,3) message number [OF assms(2)] number [OF assms(3)] simp_thms)
qed

theorem rendered_line_read_back_witness:
  "parseStructuredLine (renderLine ''a.c'' 3 7 ''warning'' ''x'') = Some
    \<lparr>pl_location = no_location\<lparr>sl_file := ''a.c'', sl_line := 3, sl_column := 7, sl_endLine := 3,
       sl_endColumn := 7\<rparr>, pl_severity = Sev_Warning, pl_severityLabel = ''warning'',
     pl_message = ''x'', pl_hasStructuredLocation = True\<rparr>"
  using rendered_line_read_back [of "''a.c''" 3 7 "''warning''" "''x''"]
  by (simp add: trim_id isspace_def mapSeverity_def)

section \<open>Nothing the compiler said is lost\<close>

definition lineText :: "string \<Rightarrow> string" where
  "lineText line = (case parseStructuredLine line of None \<Rightarrow> line | Some parsed \<Rightarrow> pl_message parsed)"

definition texts :: "Diagnostic list \<Rightarrow> string list" where
  "texts ds = concat (map (\<lambda>d. d_message d # d_notes d) ds)"

definition parse_inv :: "parse_state \<Rightarrow> bool" where
  "parse_inv st \<longleftrightarrow> (case snd st of None \<Rightarrow> rp_diagnostics (fst st) = []
     | Some i \<Rightarrow> Suc i = length (rp_diagnostics (fst st)))"

lemma emitPrimary_texts:
  "parse_inv (emitPrimary d report)"
  "texts (rp_diagnostics (fst (emitPrimary d report))) = texts (rp_diagnostics report) @ d_message d # d_notes d"
  by (simp_all add: parse_inv_def emitPrimary_def emit_def texts_def)

lemma onPrimary_texts:
  assumes "parse_inv (report, Some i)" "\<And>d. d_message (f d) = d_message d" "\<And>d. d_notes (f d) = d_notes d @ [note]"
  shows "parse_inv (onPrimary i f report, Some i)"
    and "texts (rp_diagnostics (onPrimary i f report)) = texts (rp_diagnostics report) @ [note]"
proof -
  have i: "Suc i = length (rp_diagnostics report)" using assms(1) by (simp add: parse_inv_def)
  then show "parse_inv (onPrimary i f report, Some i)" by (simp add: parse_inv_def onPrimary_def)
  from i obtain ds d where ds: "rp_diagnostics report = ds @ [d]" "i = length ds"
    by (metis Suc_inject length_append_singleton rev_exhaust list.size(3) nat.distinct(1))
  then show "texts (rp_diagnostics (onPrimary i f report)) = texts (rp_diagnostics report) @ [note]"
    by (simp add: onPrimary_def texts_def assms(2,3))
qed

lemma new_diagnostic_text [simp]:
  "d_message (unstructuredDiagnostic file line) = line" "d_notes (unstructuredDiagnostic file line) = []"
  "d_message (structuredDiagnostic parsed line) = pl_message parsed" "d_notes (structuredDiagnostic parsed line) = []"
  by (simp_all add: unstructuredDiagnostic_def structuredDiagnostic_def builder_defs builder_def Let_def)

lemma parseLine_texts:
  assumes "parse_inv st"
  shows "parse_inv (parseLine file raw st) \<and> texts (rp_diagnostics (fst (parseLine file raw st))) =
    texts (rp_diagnostics (fst st)) @ (if trim raw = [] then [] else [lineText (trim raw)])"
proof -
  obtain report current where st: "st = (report, current)" by (cases st)
  have noted: "parse_inv (onPrimary i f report, Some i) \<and>
      texts (rp_diagnostics (onPrimary i f report)) = texts (rp_diagnostics report) @ [n]"
    if "current = Some i" "\<And>d. d_message (f d) = d_message d" "\<And>d. d_notes (f d) = d_notes d @ [n]" for i f n
    using onPrimary_texts [of report i f n] assms that unfolding st by blast
  show ?thesis
    using assms
    by (cases current; cases "parseStructuredLine (trim raw)")
      (simp_all add: st parseLine_def lineText_def emitPrimary_texts noted b_note_def b_relatedLocation_def Let_def)
qed

lemma parseLines_texts:
  assumes "parse_inv st"
  shows "parse_inv (fold (parseLine file) ls st) \<and> texts (rp_diagnostics (fst (fold (parseLine file) ls st))) =
    texts (rp_diagnostics (fst st)) @ map lineText (filter (\<lambda>l. l \<noteq> []) (map trim ls))"
  using assms
proof (induction ls arbitrary: st)
  case (Cons l ls)
  note step = parseLine_texts [OF Cons.prems, of "file" l]
  show ?case using Cons.IH [of "parseLine file l st"] step by simp
qed simp

text \<open>
  Nothing the compiler printed is lost: the messages and notes of the report are exactly the texts
  of its non-blank lines, and when there is none the report carries the error itself. The report is
  never empty, it is ordered by location and message, and its ids number it from one.
\<close>
theorem compiler_output_kept:
  "let said = filter (\<lambda>l. l \<noteq> []) (map trim (splitLines raw));
       ds = rp_diagnostics (parseCompilerDiagnostics raw err file)
   in ds \<noteq> [] \<and>
      mset (concat (map (\<lambda>d. d_message d # d_notes d) ds)) =
        (if said = []
         then mset ((if ce_message err = [] then code_message (ce_code err) else ce_message err) #
                (if formatCompileError err = [] then [] else [formatCompileError err]))
         else mset (map lineText said)) \<and>
      sorted (map compilerOrder ds) \<and>
      map d_id ds = map (\<lambda>n. ''diag-'' @ to_string_nat (Suc n)) [0 ..< length ds]"
proof -
  define said where "said = filter (\<lambda>l. l \<noteq> []) (map trim (splitLines raw))"
  define read where "read = rp_diagnostics (fst (fold (parseLine file) (splitLines raw) (empty_report, None)))"
  define full where "full = (if read = [] then [fallbackDiagnostic err file raw] else read)"
  define ds where "ds = rp_diagnostics (parseCompilerDiagnostics raw err file)"
  have "texts read = map lineText said"
    using parseLines_texts [of "(empty_report, None)" "file" "splitLines raw"]
    by (simp add: parse_inv_def empty_report_def texts_def read_def said_def)
  then have texts: "texts full = (if said = []
      then (if ce_message err = [] then code_message (ce_code err) else ce_message err) #
             (if formatCompileError err = [] then [] else [formatCompileError err])
      else map lineText said)"
    by (auto simp: full_def texts_def fallbackDiagnostic_def builder_defs builder_def Let_def)
  have ds: "ds = numberDiagnostics (sort_key compilerOrder full)"
    by (simp add: ds_def parseCompilerDiagnostics_def Let_def emit_def full_def read_def)
  have text_of: "map (\<lambda>d. d_message d # d_notes d) (numberDiagnostics xs) = map (\<lambda>d. d_message d # d_notes d) xs"
    and order_of: "map compilerOrder (numberDiagnostics xs) = map compilerOrder xs" for xs
    by (rule nth_equalityI; simp add: numberDiagnostics_def nth_enumerate_eq compilerOrder_def)+
  have "mset (concat (map (\<lambda>d. d_message d # d_notes d) ds)) = mset (texts full)"
    unfolding ds text_of texts_def by (simp add: mset_concat flip: sum_mset_sum_list)
  moreover have "length ds = length full" by (simp add: ds numberDiagnostics_def)
  moreover from this have "ds \<noteq> []" by (auto simp: full_def split: if_splits)
  moreover have "map d_id ds = map (\<lambda>n. ''diag-'' @ to_string_nat (Suc n)) [0 ..< length ds]"
    using numberDiagnostics_ids [of "sort_key compilerOrder full"] by (simp add: ds numberDiagnostics_def)
  ultimately show ?thesis
    unfolding Let_def said_def [symmetric] ds_def [symmetric] texts by (simp add: ds order_of)
qed

text \<open>The numbers wrap: a line number of \<open>2 ^ 32 + 1\<close> is reported as line one.\<close>

lemma line_number_wraps:
  "map_option (\<lambda>p. sl_line (pl_location p)) (parseStructuredLine (renderLine ''a.c'' (2 ^ 32 + 1) 1 ''error'' ''x'')) =
     Some 1"
proof -
  have "renderLine ''a.c'' (2 ^ 32 + 1) 1 ''error'' ''x'' = ''a.c'' @ CHR '':'' # to_string_nat (2 ^ 32 + 1) @
      CHR '':'' # to_string_nat 1 @ CHR '':'' # '' error'' @ CHR '':'' # '' x''"
    by (simp add: renderLine_def)
  from parseStructuredLine_parts [OF this _ no_colon_in_number no_colon_in_number _
      parseUnsigned_number parseUnsigned_number]
  show ?thesis by (simp add: trim_id isspace_def toSeverityToken_def unat_of_nat)
qed

end
