(* ===== verification/Compile_Command.thy ===== *)
theory Compile_Command
  imports Text
begin

text \<open>
  The compiler arguments of a request (\<open>internal/compile_command_builder.cpp\<close>). The two removals
  compact the vector in place with a read and a write index; an element moved to its new place leaves
  an unspecified string behind, the argument \<open>husk\<close>. The loops are shown to compute what the list
  functions \<open>withoutOutputPath\<close> and \<open>withoutWarningErrors\<close> say, whatever \<open>husk\<close> is.
\<close>

datatype IRFormat = LL | BC

fun ir_format_name :: "IRFormat \<Rightarrow> string" where
  "ir_format_name LL = ''ll''"
| "ir_format_name BC = ''bc''"

record CompileRequest =
  rq_inputFile :: string
  rq_extraCompileArgs :: "string list"
  rq_format :: IRFormat
  rq_instrument :: bool

definition new_request :: CompileRequest where
  "new_request = \<lparr>rq_inputFile = [], rq_extraCompileArgs = [], rq_format = BC, rq_instrument = False\<rparr>"

definition hasExactToken :: "string list \<Rightarrow> string \<Rightarrow> bool" where
  "hasExactToken args token \<longleftrightarrow> token \<in> set args"

definition appendIfMissing :: "string \<Rightarrow> string list \<Rightarrow> string list" where
  "appendIfMissing flag args = (if \<not> hasExactToken args flag then args @ [flag] else args)"

section \<open>Output paths\<close>

definition moveArg :: "string \<Rightarrow> nat \<Rightarrow> nat \<Rightarrow> string list \<Rightarrow> string list" where
  "moveArg husk writeIndex readIndex args =
     (if writeIndex \<noteq> readIndex then args[writeIndex := args ! readIndex, readIndex := husk] else args)"

function removeOutputLoop :: "string \<Rightarrow> string list \<Rightarrow> nat \<Rightarrow> nat \<Rightarrow> string list" where
  "removeOutputLoop husk args readIndex writeIndex =
     (if readIndex < length args
      then
        (let arg = args ! readIndex
         in if arg = ''-o''
            then removeOutputLoop husk args
                   ((if readIndex + 1 < length args then readIndex + 1 else readIndex) + 1) writeIndex
            else if starts_with arg ''-o='' then removeOutputLoop husk args (readIndex + 1) writeIndex
            else if length arg > 2 \<and> starts_with arg ''-o''
            then removeOutputLoop husk args (readIndex + 1) writeIndex
            else removeOutputLoop husk (moveArg husk writeIndex readIndex args) (readIndex + 1) (writeIndex + 1))
      else take writeIndex args)"
  by auto
termination
  by (relation "measure (\<lambda>(husk, args, readIndex, writeIndex). length args - readIndex)")
    (auto simp: moveArg_def)

definition removeOutputPathArgs :: "string \<Rightarrow> string list \<Rightarrow> string list" where
  "removeOutputPathArgs husk args = removeOutputLoop husk args 0 0"

section \<open>Warnings as errors\<close>

definition forceUnoptimizedCodegen :: "string list \<Rightarrow> string list" where
  "forceUnoptimizedCodegen args = args @ [''-O0'']"

definition turnsWarningsIntoErrors :: "string \<Rightarrow> bool" where
  "turnsWarningsIntoErrors arg \<longleftrightarrow> starts_with arg ''-Werror'' \<or> arg = ''-pedantic-errors''"

definition moveWidth :: "string \<Rightarrow> nat \<Rightarrow> nat \<Rightarrow> nat \<Rightarrow> string list \<Rightarrow> string list" where
  "moveWidth husk width readIndex writeIndex args =
     fold (\<lambda>k. moveArg husk (writeIndex + k) (readIndex + k)) [0 ..< width] args"

lemma moveArg_length [simp]: "length (moveArg husk w r args) = length args"
  by (simp add: moveArg_def)

lemma moveWidth_length [simp]: "length (moveWidth husk width r w args) = length args"
proof -
  have "length (fold (\<lambda>k. moveArg husk (w + k) (r + k)) ks args) = length args" for ks
    by (induction ks arbitrary: args) simp_all
  then show ?thesis by (simp add: moveWidth_def)
qed

function removeWarningsLoop :: "string \<Rightarrow> string list \<Rightarrow> nat \<Rightarrow> nat \<Rightarrow> string list" where
  "removeWarningsLoop husk args readIndex writeIndex =
     (if readIndex < length args
      then
        (let handsOn = (args ! readIndex = ''-Xclang'' \<and> readIndex + 1 < length args);
             width = (if handsOn then 2 else 1)
         in if \<not> turnsWarningsIntoErrors (args ! (readIndex + width - 1))
            then removeWarningsLoop husk (moveWidth husk width readIndex writeIndex args)
                   (readIndex + (width - 1) + 1) (writeIndex + width)
            else removeWarningsLoop husk args (readIndex + (width - 1) + 1) writeIndex)
      else take writeIndex args)"
  by auto
termination
  by (relation "measure (\<lambda>(husk, args, readIndex, writeIndex). length args - readIndex)") auto

definition removeWarningsAsErrors :: "string \<Rightarrow> string list \<Rightarrow> string list" where
  "removeWarningsAsErrors husk args = removeWarningsLoop husk args 0 0"

section \<open>The commands\<close>

definition buildLL :: "string \<Rightarrow> CompileRequest \<Rightarrow> string list" where
  "buildLL husk request =
     (let args = rq_extraCompileArgs request;
          args = forceUnoptimizedCodegen args;
          args = removeWarningsAsErrors husk args;
          args = removeOutputPathArgs husk args;
          args = appendIfMissing ''-emit-llvm'' args;
          args = appendIfMissing ''-S'' args;
          args = appendIfMissing ''-g'' args
      in if \<not> hasExactToken args (rq_inputFile request) then args @ [rq_inputFile request] else args)"

definition buildBC :: "string \<Rightarrow> CompileRequest \<Rightarrow> string list" where
  "buildBC husk request =
     (let args = rq_extraCompileArgs request;
          args = forceUnoptimizedCodegen args;
          args = removeWarningsAsErrors husk args;
          args = removeAll ''-S'' args;
          args = removeOutputPathArgs husk args;
          args = appendIfMissing ''-emit-llvm'' args;
          args = appendIfMissing ''-c'' args;
          args = appendIfMissing ''-g'' args
      in if \<not> hasExactToken args (rq_inputFile request) then args @ [rq_inputFile request] else args)"

declare removeOutputLoop.simps [simp del] removeWarningsLoop.simps [simp del]

section \<open>What the loops compute\<close>

text \<open>\<open>-o\<close> goes with the argument after it, every longer option that starts with \<open>-o\<close> goes alone.\<close>

fun withoutOutputPath :: "string list \<Rightarrow> string list" where
  "withoutOutputPath [] = []"
| "withoutOutputPath (arg # args) =
     (if arg = ''-o'' then withoutOutputPath (drop 1 args)
      else if starts_with arg ''-o'' then withoutOutputPath args
      else arg # withoutOutputPath args)"

text \<open>\<open>-Xclang\<close> goes or stays with the argument after it.\<close>

fun withoutWarningErrors :: "string list \<Rightarrow> string list" where
  "withoutWarningErrors [] = []"
| "withoutWarningErrors [arg] = (if turnsWarningsIntoErrors arg then [] else [arg])"
| "withoutWarningErrors (arg # next # args) =
     (if arg = ''-Xclang''
      then (if turnsWarningsIntoErrors next then [] else [arg, next]) @ withoutWarningErrors args
      else (if turnsWarningsIntoErrors arg then [] else [arg]) @ withoutWarningErrors (next # args))"

lemma moveArg_parts:
  assumes "w \<le> r" "r < length args"
  shows "take (w + 1) (moveArg husk w r args) = take w args @ [args ! r]"
    and "drop (r + 1) (moveArg husk w r args) = drop (r + 1) args"
  using assms by (auto simp: moveArg_def take_Suc_conv_app_nth nth_list_update)

lemma option_o: "starts_with arg ''-o'' \<longleftrightarrow> arg = ''-o'' \<or> starts_with arg ''-o='' \<or> length arg > 2 \<and> starts_with arg ''-o''"
  by (auto simp: starts_with_iff)

lemma removeOutputLoop_correct:
  "w \<le> r \<Longrightarrow> removeOutputLoop husk args r w = take w args @ withoutOutputPath (drop r args)"
proof (induction husk args r w rule: removeOutputLoop.induct)
  case (1 husk args r w)
  show ?case
  proof (cases "r < length args")
    case True
    then have d: "drop r args = args ! r # drop (r + 1) args" by (simp add: Cons_nth_drop_Suc)
    consider "args ! r = ''-o''" | "args ! r \<noteq> ''-o''" "starts_with (args ! r) ''-o''"
      | "\<not> starts_with (args ! r) ''-o''" "args ! r \<noteq> ''-o''"
      by (auto simp: starts_with_def)
    then show ?thesis
    proof cases
      case 1
      have "withoutOutputPath (drop r args) =
          withoutOutputPath (drop ((if r + 1 < length args then r + 1 else r) + 1) args)"
        unfolding d using 1 by auto
      then show ?thesis
        using "1.IH"(1) [OF True refl 1] \<open>w \<le> r\<close> True 1 by (simp add: removeOutputLoop.simps [of husk args r w])
    next
      case 2
      then show ?thesis
        using "1.IH"(2,3) [OF True refl] \<open>w \<le> r\<close> True option_o [of "args ! r"]
        by (auto simp: removeOutputLoop.simps [of husk args r w] d Let_def)
    next
      case 3
      then have "\<not> starts_with (args ! r) ''-o=''" using option_o by blast
      then show ?thesis
        using "1.IH"(4) [OF True refl 3(2)] \<open>w \<le> r\<close> True 3 moveArg_parts [of w r args husk]
        by (simp add: removeOutputLoop.simps [of husk args r w] d Let_def)
    qed
  qed (simp add: removeOutputLoop.simps)
qed

lemma moveWidth_parts:
  assumes "w \<le> r" "r + width \<le> length args"
  shows "take (w + width) (moveWidth husk width r w args) = take w args @ take width (drop r args)"
    and "drop (r + width) (moveWidth husk width r w args) = drop (r + width) args"
    and "drop r (moveWidth husk 0 r w args) = drop r args"
proof -
  have "take (w + width) (moveWidth husk width r w args) = take w args @ take width (drop r args) \<and>
      drop (r + width) (moveWidth husk width r w args) = drop (r + width) args"
    using assms(2)
  proof (induction width)
    case (Suc width)
    let ?moved = "moveWidth husk width r w args"
    have step: "moveWidth husk (Suc width) r w args = moveArg husk (w + width) (r + width) ?moved"
      by (simp add: moveWidth_def)
    have "?moved ! (r + width) = args ! (r + width)"
      using Suc by (metis (no_types, lifting) Suc_le_lessD add_Suc_right drop_eq_Nil2 hd_drop_conv_nth
          less_le_not_le linorder_not_le moveWidth_length)
    moreover have "drop 1 (drop (r + width) ?moved) = drop 1 (drop (r + width) args)" using Suc by simp
    then have "drop (r + width + 1) ?moved = drop (r + width + 1) args" by simp
    ultimately show ?case
      using Suc moveArg_parts [of "w + width" "r + width" ?moved husk] assms(1)
      unfolding step by (simp add: take_Suc_conv_app_nth)
  qed (simp add: moveWidth_def)
  then show "take (w + width) (moveWidth husk width r w args) = take w args @ take width (drop r args)"
    "drop (r + width) (moveWidth husk width r w args) = drop (r + width) args" by simp_all
  show "drop r (moveWidth husk 0 r w args) = drop r args" by (simp add: moveWidth_def)
qed

lemma removeWarningsLoop_correct:
  "w \<le> r \<Longrightarrow> removeWarningsLoop husk args r w = take w args @ withoutWarningErrors (drop r args)"
proof (induction husk args r w rule: removeWarningsLoop.induct)
  case (1 husk args r w)
  show ?case
  proof (cases "r < length args")
    case True
    define width where "width = (if args ! r = ''-Xclang'' \<and> r + 1 < length args then 2 else 1 :: nat)"
    have width: "r + width \<le> length args" "width > 0" using True by (auto simp: width_def)
    have bad: "withoutWarningErrors (drop r args) =
        (if turnsWarningsIntoErrors (args ! (r + width - 1)) then [] else take width (drop r args)) @
          withoutWarningErrors (drop (r + width) args)"
    proof (cases "r + 1 < length args")
      case two: True
      then have "drop r args = args ! r # args ! (r + 1) # drop (r + 2) args"
        using True by (metis Cons_nth_drop_Suc Suc_eq_plus1 add_2_eq_Suc' )
      then show ?thesis
        using two by (auto simp: width_def drop_Suc simp flip: Cons_nth_drop_Suc)
    next
      case False
      then have "drop r args = [args ! r]" using True by (metis Cons_nth_drop_Suc Suc_eq_plus1 drop_eq_Nil linorder_not_le)
      then show ?thesis using False by (auto simp: width_def)
    qed
    have loop: "removeWarningsLoop husk args r w =
        (if \<not> turnsWarningsIntoErrors (args ! (r + width - 1))
         then removeWarningsLoop husk (moveWidth husk width r w args) (r + (width - 1) + 1) (w + width)
         else removeWarningsLoop husk args (r + (width - 1) + 1) w)"
      using True by (simp add: removeWarningsLoop.simps [of husk args r w] width_def Let_def)
    show ?thesis
    proof (cases "turnsWarningsIntoErrors (args ! (r + width - 1))")
      case True
      then show ?thesis
        using "1.IH"(2) [OF \<open>r < length args\<close> refl width_def] \<open>w \<le> r\<close> width unfolding loop bad by simp
    next
      case False
      then show ?thesis
        using "1.IH"(1) [OF \<open>r < length args\<close> refl width_def] \<open>w \<le> r\<close> width
          moveWidth_parts(1,2) [OF \<open>w \<le> r\<close> width(1), of husk]
        unfolding loop bad by simp
    qed
  qed (simp add: removeWarningsLoop.simps)
qed

text \<open>
  The two in-place removals compute the list functions that state their rule: an \<open>-o\<close> goes with its
  value and a longer option starting with \<open>-o\<close> alone; an option that turns warnings into errors goes,
  together with the \<open>-Xclang\<close> that hands it on, and no other argument does.
\<close>
theorem in_place_removals:
  "removeOutputPathArgs husk args = withoutOutputPath args \<and>
   removeWarningsAsErrors husk args = withoutWarningErrors args"
  by (simp add: removeOutputPathArgs_def removeWarningsAsErrors_def removeOutputLoop_correct removeWarningsLoop_correct)

section \<open>What a command asks for\<close>

lemma withoutOutputPath_filter:
  "''-o'' \<notin> set args \<Longrightarrow> withoutOutputPath args = filter (\<lambda>arg. \<not> starts_with arg ''-o'') args"
  by (induction args) (auto simp: starts_with_def)

lemma withoutWarningErrors_set:
  "set (withoutWarningErrors args) \<subseteq> {arg \<in> set args. \<not> turnsWarningsIntoErrors arg}"
  by (induction args rule: withoutWarningErrors.induct)
    (auto simp: turnsWarningsIntoErrors_def starts_with_def)

lemma withoutWarningErrors_last:
  assumes "\<not> turnsWarningsIntoErrors flag"
  shows "\<exists>kept. withoutWarningErrors (args @ [flag]) = kept @ [flag]"
  using assms
proof (induction args rule: withoutWarningErrors.induct)
  case (3 arg "next" args)
  then show ?case by (auto simp: append_assoc [symmetric] simp del: append_assoc)
qed auto

lemma appendIfMissing_appends:
  "\<exists>more. appendIfMissing flag args = args @ more \<and> set more \<subseteq> {flag} \<and> flag \<in> set (args @ more)"
  by (auto simp: appendIfMissing_def hasExactToken_def)

text \<open>What both commands make of the arguments they were given.\<close>

definition cleaned :: "(string \<Rightarrow> bool) \<Rightarrow> string list \<Rightarrow> string list" where
  "cleaned keep args = withoutOutputPath (filter keep (withoutWarningErrors (args @ [''-O0''])))"

lemma cleaned_ends:
  assumes "''-o'' \<notin> set args" "keep ''-O0''"
  shows "\<exists>before. cleaned keep args = before @ [''-O0'']"
    and "set (cleaned keep args) \<subseteq> {arg \<in> insert ''-O0'' (set args).
      keep arg \<and> \<not> turnsWarningsIntoErrors arg \<and> \<not> starts_with arg ''-o''}"
proof -
  have "\<not> turnsWarningsIntoErrors ''-O0''" by (simp add: turnsWarningsIntoErrors_def starts_with_def)
  from withoutWarningErrors_last [OF this] obtain kept where kept: "withoutWarningErrors (args @ [''-O0'']) = kept @ [''-O0'']"
    by blast
  have sub: "set (kept @ [''-O0'']) \<subseteq> {arg \<in> insert ''-O0'' (set args). \<not> turnsWarningsIntoErrors arg}"
    using withoutWarningErrors_set [of "args @ [''-O0'']"] unfolding kept by auto
  then have "''-o'' \<notin> set (filter keep (kept @ [''-O0'']))" using assms(1) by auto
  then have c: "cleaned keep args = filter (\<lambda>arg. \<not> starts_with arg ''-o'') (filter keep (kept @ [''-O0'']))"
    unfolding cleaned_def kept by (rule withoutOutputPath_filter)
  then show "\<exists>before. cleaned keep args = before @ [''-O0'']" using assms(2) by (simp add: starts_with_def)
  show "set (cleaned keep args) \<subseteq> {arg \<in> insert ''-O0'' (set args).
      keep arg \<and> \<not> turnsWarningsIntoErrors arg \<and> \<not> starts_with arg ''-o''}"
    using sub unfolding c by auto
qed

lemma build_cleaned:
  "buildLL husk request = fold appendIfMissing [''-emit-llvm'', ''-S'', ''-g'', rq_inputFile request]
     (cleaned (\<lambda>_. True) (rq_extraCompileArgs request))"
  "buildBC husk request = fold appendIfMissing [''-emit-llvm'', ''-c'', ''-g'', rq_inputFile request]
     (cleaned (\<lambda>arg. arg \<noteq> ''-S'') (rq_extraCompileArgs request))"
proof -
  have remove: "removeOutputPathArgs husk args = withoutOutputPath args"
    "removeWarningsAsErrors husk args = withoutWarningErrors args" for args
    by (simp_all add: removeOutputPathArgs_def removeWarningsAsErrors_def removeOutputLoop_correct removeWarningsLoop_correct)
  show "buildLL husk request = fold appendIfMissing [''-emit-llvm'', ''-S'', ''-g'', rq_inputFile request]
     (cleaned (\<lambda>_. True) (rq_extraCompileArgs request))"
    "buildBC husk request = fold appendIfMissing [''-emit-llvm'', ''-c'', ''-g'', rq_inputFile request]
     (cleaned (\<lambda>arg. arg \<noteq> ''-S'') (rq_extraCompileArgs request))"
    by (simp_all add: buildLL_def buildBC_def remove cleaned_def forceUnoptimizedCodegen_def Let_def
        appendIfMissing_def [of "rq_inputFile request"] removeAll_filter_not_eq eq_commute)
qed

lemma fold_appendIfMissing:
  "\<exists>more. fold appendIfMissing flags args = args @ more \<and> set more \<subseteq> set flags \<and> set flags \<subseteq> set (args @ more)"
proof (induction flags arbitrary: args)
  case (Cons flag flags)
  obtain more where m: "appendIfMissing flag args = args @ more" "set more \<subseteq> {flag}" "flag \<in> set (args @ more)"
    using appendIfMissing_appends by blast
  obtain more' where "fold appendIfMissing flags (args @ more) = (args @ more) @ more'" "set more' \<subseteq> set flags"
    "set flags \<subseteq> set ((args @ more) @ more')"
    using Cons.IH by blast
  then show ?case using m by (intro exI [of _ "more @ more'"]) auto
qed simp

text \<open>
  Whatever arguments a request brings, as long as none is a bare \<open>-o\<close>, the command asks for LLVM
  output of the input file with debug information, at no optimization level but \<open>-O0\<close>, which is the
  last one named; it names no output file and turns no warning into an error; in bitcode mode it
  asks for no assembly text.
\<close>

lemma command_pinned:
  assumes "''-o'' \<notin> set (rq_extraCompileArgs request)" "\<not> starts_with (rq_inputFile request) ''-''"
  shows "(\<exists>before after. buildBC husk request = before @ ''-O0'' # after \<and> (\<forall>arg \<in> set after. \<not> starts_with arg ''-O'')) \<and>
    (\<exists>before after. buildLL husk request = before @ ''-O0'' # after \<and> (\<forall>arg \<in> set after. \<not> starts_with arg ''-O'')) \<and>
    {''-emit-llvm'', ''-c'', ''-g'', rq_inputFile request} \<subseteq> set (buildBC husk request) \<and>
    {''-emit-llvm'', ''-S'', ''-g'', rq_inputFile request} \<subseteq> set (buildLL husk request) \<and>
    (\<forall>arg \<in> set (buildBC husk request) \<union> set (buildLL husk request).
       \<not> turnsWarningsIntoErrors arg \<and> \<not> starts_with arg ''-o'') \<and>
    ''-S'' \<notin> set (buildBC husk request)"
proof -
  have input: "\<not> starts_with (rq_inputFile request) (CHR ''-'' # s)" for s
    using assms(2) by (auto simp: starts_with_iff)
  have built: "(\<exists>before after. fold appendIfMissing flags (cleaned keep (rq_extraCompileArgs request)) = before @ ''-O0'' # after \<and>
        (\<forall>arg \<in> set after. \<not> starts_with arg ''-O'')) \<and>
      set flags \<subseteq> set (fold appendIfMissing flags (cleaned keep (rq_extraCompileArgs request))) \<and>
      (\<forall>arg \<in> set (fold appendIfMissing flags (cleaned keep (rq_extraCompileArgs request))).
        \<not> turnsWarningsIntoErrors arg \<and> \<not> starts_with arg ''-o'' \<and> (keep arg \<or> arg \<in> set flags))"
    if keepO: "keep ''-O0''" and clean: "\<forall>flag \<in> set flags. \<not> starts_with flag ''-O'' \<and> \<not> turnsWarningsIntoErrors flag \<and> \<not> starts_with flag ''-o''"
    for keep flags
  proof -
    obtain before where before: "cleaned keep (rq_extraCompileArgs request) = before @ [''-O0'']"
      using cleaned_ends(1) [of _ keep, OF assms(1) keepO] by blast
    obtain more where more: "fold appendIfMissing flags (before @ [''-O0'']) = (before @ [''-O0'']) @ more"
      "set more \<subseteq> set flags" "set flags \<subseteq> set ((before @ [''-O0'']) @ more)"
      using fold_appendIfMissing by blast
    have "\<forall>arg \<in> set more. \<not> starts_with arg ''-O''" using more(2) clean by blast
    then show ?thesis
      using more cleaned_ends(2) [of _ keep, OF assms(1) keepO] clean unfolding before by force
  qed
  have flags: "\<forall>flag \<in> set [''-emit-llvm'', m, ''-g'', rq_inputFile request].
      \<not> starts_with flag ''-O'' \<and> \<not> turnsWarningsIntoErrors flag \<and> \<not> starts_with flag ''-o''"
    if "m = ''-c'' \<or> m = ''-S''" for m
  proof -
    have "\<forall>flag \<in> set [''-emit-llvm'', m, ''-g''].
        \<not> starts_with flag ''-O'' \<and> \<not> turnsWarningsIntoErrors flag \<and> \<not> starts_with flag ''-o''"
      using that by (auto simp: starts_with_def turnsWarningsIntoErrors_def)
    moreover have "rq_inputFile request \<noteq> ''-pedantic-errors''" using assms(2) by (auto simp: starts_with_def)
    then have "\<not> turnsWarningsIntoErrors (rq_inputFile request)" using input by (simp add: turnsWarningsIntoErrors_def)
    ultimately show ?thesis using input by simp
  qed
  have "rq_inputFile request \<noteq> ''-S''" using assms(2) by (auto simp: starts_with_def)
  then show ?thesis
    using built [of "\<lambda>arg. arg \<noteq> ''-S''", OF _ flags [of "''-c''"]] built [of "\<lambda>_. True", OF _ flags [of "''-S''"]]
    unfolding build_cleaned by auto
qed

text \<open>A bare \<open>-o\<close> at the end takes the appended \<open>-O0\<close> for its value: the level asked for before it stands.\<close>

lemma dangling_output_option:
  "buildBC husk \<lparr>rq_inputFile = ''a.c'', rq_extraCompileArgs = [''-O2'', ''-o''], rq_format = BC, rq_instrument = False\<rparr> =
     [''-O2'', ''-emit-llvm'', ''-c'', ''-g'', ''a.c'']"
  by (simp add: build_cleaned cleaned_def appendIfMissing_def hasExactToken_def turnsWarningsIntoErrors_def starts_with_def)

end
