(* ===== verification/Compiler.thy ===== *)
theory Compiler
  imports Compile_Command Error_Codes
begin

text \<open>
  Compiling a request into a module in memory (\<open>coretrace_concurrency_analyzer.cpp\<close>, with the loader of
  \<open>internal/ir_loader.cpp\<close> and the adapter of \<open>internal/compilation_backend.cpp\<close>). The compiler library,
  the two parsers of LLVM and the file system's answers about the input are arguments.
\<close>

datatype OutputMode = ToMemory | ToMemoryBitcode

record BackendCompileOutput =
  bo_success :: bool
  bo_diagnostics :: string
  bo_llvmIR :: string
  bo_llvmBitcode :: string

text \<open>\<open>compilerlib::compile\<close>, \<open>llvm::parseIR\<close> and \<open>llvm::parseBitcodeFile\<close>; a parser fails with its message.\<close>

record 'm Toolchain =
  tc_compile :: "string list \<Rightarrow> OutputMode \<Rightarrow> bool \<Rightarrow> BackendCompileOutput"
  tc_parseIR :: "string \<Rightarrow> string + 'm"
  tc_parseBitcodeFile :: "string \<Rightarrow> string \<Rightarrow> string + 'm"

text \<open>
  \<open>std::filesystem::exists\<close> and \<open>is_regular_file\<close> answer and may set an error code, whose message is
  given; opening the file for reading succeeds or not.
\<close>

record InputProbe =
  ip_exists :: "string \<Rightarrow> bool \<times> string option"
  ip_isRegularFile :: "string \<Rightarrow> bool \<times> string option"
  ip_opens :: "string \<Rightarrow> bool"

record 'm CompileResult =
  cr_success :: bool
  cr_diagnostics :: string
  cr_error :: CompileError
  cr_llvmIRText :: string
  cr_llvmBitcode :: string
  cr_module :: "'m option"

definition new_result :: "'m CompileResult" where
  "new_result = \<lparr>cr_success = False, cr_diagnostics = [], cr_error = no_error, cr_llvmIRText = [],
     cr_llvmBitcode = [], cr_module = None\<rparr>"

section \<open>Backend and loader\<close>

definition compileLLToMemory :: "'m Toolchain \<Rightarrow> string list \<Rightarrow> bool \<Rightarrow> BackendCompileOutput" where
  "compileLLToMemory tc args instrument = tc_compile tc args ToMemory instrument"

definition compileBCToMemory :: "'m Toolchain \<Rightarrow> string list \<Rightarrow> bool \<Rightarrow> BackendCompileOutput" where
  "compileBCToMemory tc args instrument = tc_compile tc args ToMemoryBitcode instrument"

definition loadError :: "CompileErrc \<Rightarrow> string \<Rightarrow> CompileError" where
  "loadError code message = \<lparr>ce_code = make_error_code code, ce_phase = IRParse, ce_message = message\<rparr>"

definition parseLL :: "'m Toolchain \<Rightarrow> string \<Rightarrow> CompileError \<Rightarrow> 'm option \<times> CompileError" where
  "parseLL tc llvmIR err =
     (case tc_parseIR tc llvmIR of
        Inr module \<Rightarrow> (Some module, err)
      | Inl message \<Rightarrow> (None, loadError IRParseFailed message))"

definition parseBCNamed :: "'m Toolchain \<Rightarrow> string \<Rightarrow> string \<Rightarrow> CompileError \<Rightarrow> 'm option \<times> CompileError" where
  "parseBCNamed tc llvmBitcode bufferName err =
     (case tc_parseBitcodeFile tc llvmBitcode bufferName of
        Inr module \<Rightarrow> (Some module, err)
      | Inl message \<Rightarrow> (None, loadError BitcodeParseFailed message))"

definition parseBC :: "'m Toolchain \<Rightarrow> string \<Rightarrow> CompileError \<Rightarrow> 'm option \<times> CompileError" where
  "parseBC tc llvmBitcode err = parseBCNamed tc llvmBitcode ''in_memory_bc'' err"

section \<open>Compiling\<close>

definition setCompileError ::
  "CompilePhase \<Rightarrow> CompileErrc \<Rightarrow> string \<Rightarrow> 'm CompileResult \<Rightarrow> 'm CompileResult" where
  "setCompileError phase code message result =
     result\<lparr>cr_error := \<lparr>ce_code = make_error_code code, ce_phase = phase, ce_message = message\<rparr>\<rparr>"

definition inputError :: "CompileErrc \<Rightarrow> string \<Rightarrow> CompileError" where
  "inputError code message = \<lparr>ce_code = make_error_code code, ce_phase = ValidateInput, ce_message = message\<rparr>"

definition accessError :: "string \<Rightarrow> string option \<Rightarrow> CompileErrc \<Rightarrow> CompileError" where
  "accessError inputFile ec otherwise =
     (case ec of
        Some message \<Rightarrow> inputError InputFileAccessFailed ([CHR 0x27] @ inputFile @ [CHR 0x27] @ '': '' @ message)
      | None \<Rightarrow> inputError otherwise inputFile)"

text \<open>The error a file is refused with, if it is.\<close>

definition validateInputFile :: "InputProbe \<Rightarrow> string \<Rightarrow> CompileError option" where
  "validateInputFile probe inputFile =
     (case ip_exists probe inputFile of (there, ec) \<Rightarrow>
        if \<not> there then Some (accessError inputFile ec InputFileDoesNotExist)
        else
          (case ip_isRegularFile probe inputFile of (regular, ec) \<Rightarrow>
             if \<not> regular then Some (accessError inputFile ec InputFileNotRegular)
             else if \<not> ip_opens probe inputFile then Some (inputError InputFileNotReadable inputFile)
             else None))"

definition finishParse ::
  "CompileErrc \<Rightarrow> string \<Rightarrow> (CompileError \<Rightarrow> 'm option \<times> CompileError) \<Rightarrow> 'm CompileResult \<Rightarrow> 'm CompileResult" where
  "finishParse code message parse result =
     (case parse (cr_error result) of (module, err) \<Rightarrow>
        (let result = result\<lparr>cr_module := module, cr_error := err\<rparr>
         in if module = None
            then (if \<not> hasError (cr_error result) then setCompileError IRParse code message result else result)
            else result\<lparr>cr_success := True\<rparr>))"

definition compileLL :: "'m Toolchain \<Rightarrow> string \<Rightarrow> CompileRequest \<Rightarrow> 'm CompileResult \<Rightarrow> 'm CompileResult" where
  "compileLL tc husk request result =
     (let backendResult = compileLLToMemory tc (buildLL husk request) (rq_instrument request);
          result = result\<lparr>cr_diagnostics := bo_diagnostics backendResult\<rparr>
      in if \<not> bo_success backendResult
         then setCompileError BackendCompile BackendCompilationFailed ''backend failed in ll mode'' result
         else if bo_llvmIR backendResult = []
         then setCompileError BackendCompile MissingIROutput
                ''compiler backend returned an empty IR payload in ll mode'' result
         else finishParse IRParseFailed ''failed to parse LLVM IR in ll mode''
                (parseLL tc (bo_llvmIR backendResult)) (result\<lparr>cr_llvmIRText := bo_llvmIR backendResult\<rparr>))"

definition compileBC :: "'m Toolchain \<Rightarrow> string \<Rightarrow> CompileRequest \<Rightarrow> 'm CompileResult \<Rightarrow> 'm CompileResult" where
  "compileBC tc husk request result =
     (let backendResult = compileBCToMemory tc (buildBC husk request) (rq_instrument request);
          result = result\<lparr>cr_diagnostics := bo_diagnostics backendResult\<rparr>
      in if \<not> bo_success backendResult
         then setCompileError BackendCompile BackendCompilationFailed ''backend failed in bc mode'' result
         else if bo_llvmBitcode backendResult = []
         then setCompileError BackendCompile MissingIROutput
                ''compiler backend returned an empty bitcode payload in bc mode'' result
         else finishParse BitcodeParseFailed ''failed to parse LLVM bitcode in bc mode''
                (parseBC tc (bo_llvmBitcode backendResult)) (result\<lparr>cr_llvmBitcode := bo_llvmBitcode backendResult\<rparr>))"

definition compile :: "InputProbe \<Rightarrow> 'm Toolchain \<Rightarrow> string \<Rightarrow> CompileRequest \<Rightarrow> 'm CompileResult" where
  "compile probe tc husk request =
     (if rq_inputFile request = []
      then setCompileError ValidateInput InvalidRequest ''input file is required'' new_result
      else
        (case validateInputFile probe (rq_inputFile request) of
           Some err \<Rightarrow> new_result\<lparr>cr_error := err\<rparr>
         | None \<Rightarrow>
             (case rq_format request of
                LL \<Rightarrow> compileLL tc husk request new_result
              | BC \<Rightarrow> compileBC tc husk request new_result)))"

section \<open>What a loader promises\<close>

text \<open>
  A loader that gives no module says why, and one that gives a module leaves the error alone. A compiler
  over such a loader reports the loader's error, never its own fallback.
\<close>

locale ir_loader =
  fixes parse :: "string \<Rightarrow> CompileError \<Rightarrow> 'm option \<times> CompileError"
  assumes fails_with_error: "fst (parse payload err) = None \<Longrightarrow> hasError (snd (parse payload err)) \<and>
      ce_phase (snd (parse payload err)) = IRParse"
    and keeps_error: "fst (parse payload err) \<noteq> None \<Longrightarrow> snd (parse payload err) = err"
begin

lemma finish_result:
  "finishParse code message (parse payload) result =
     (if fst (parse payload (cr_error result)) = None
      then result\<lparr>cr_module := None, cr_error := snd (parse payload (cr_error result))\<rparr>
      else result\<lparr>cr_module := fst (parse payload (cr_error result)), cr_success := True\<rparr>)"
  using fails_with_error [of payload "cr_error result"] keeps_error [of payload "cr_error result"]
  by (auto simp: finishParse_def Let_def split: prod.split)

lemma finish_outcome:
  assumes "cr_error result = no_error" "\<not> cr_success result" "cr_module result = None"
  shows "(cr_success (finishParse code message (parse payload) result) \<longleftrightarrow>
        \<not> hasError (cr_error (finishParse code message (parse payload) result))) \<and>
      (cr_success (finishParse code message (parse payload) result) \<longleftrightarrow>
        cr_module (finishParse code message (parse payload) result) \<noteq> None) \<and>
      ce_phase (cr_error (finishParse code message (parse payload) result)) =
        (if fst (parse payload no_error) = None then IRParse else Phase_None)"
  using assms fails_with_error [of payload no_error]
  by (auto simp: finish_result hasError_def no_error_def)

end

interpretation ll: ir_loader "parseLL tc" for tc
  by unfold_locales (auto simp: parseLL_def loadError_def hasError_def make_error_code_def split: sum.splits)

interpretation bc: ir_loader "parseBC tc" for tc
  by unfold_locales
    (auto simp: parseBC_def parseBCNamed_def loadError_def hasError_def make_error_code_def split: sum.splits)

section \<open>Properties\<close>

text \<open>How far a request comes.\<close>

definition refused :: "InputProbe \<Rightarrow> CompileRequest \<Rightarrow> bool" where
  "refused probe request \<longleftrightarrow>
     rq_inputFile request = [] \<or> validateInputFile probe (rq_inputFile request) \<noteq> None"

definition payload :: "'m Toolchain \<Rightarrow> string \<Rightarrow> CompileRequest \<Rightarrow> string option" where
  "payload tc husk request =
     (let out = (case rq_format request of
                   LL \<Rightarrow> tc_compile tc (buildLL husk request) ToMemory (rq_instrument request)
                 | BC \<Rightarrow> tc_compile tc (buildBC husk request) ToMemoryBitcode (rq_instrument request));
          bytes = (case rq_format request of LL \<Rightarrow> bo_llvmIR out | BC \<Rightarrow> bo_llvmBitcode out)
      in if bo_success out \<and> bytes \<noteq> [] then Some bytes else None)"

definition parsed :: "'m Toolchain \<Rightarrow> CompileRequest \<Rightarrow> string \<Rightarrow> 'm option" where
  "parsed tc request bytes =
     (case (case rq_format request of LL \<Rightarrow> tc_parseIR tc bytes | BC \<Rightarrow> tc_parseBitcodeFile tc bytes ''in_memory_bc'') of
        Inl _ \<Rightarrow> None | Inr module \<Rightarrow> Some module)"

lemma validate_phase:
  "validateInputFile probe input = Some err \<Longrightarrow> hasError err \<and> ce_phase err = ValidateInput"
  by (auto simp: validateInputFile_def accessError_def inputError_def hasError_def make_error_code_def
      split: prod.splits option.splits if_splits)

lemma compile_LL:
  assumes "rq_format request = LL" "cr_error r = no_error" "\<not> cr_success r" "cr_module r = None"
  shows "(cr_success (compileLL tc husk request r) \<longleftrightarrow> \<not> hasError (cr_error (compileLL tc husk request r))) \<and>
    (cr_success (compileLL tc husk request r) \<longleftrightarrow> cr_module (compileLL tc husk request r) \<noteq> None) \<and>
    ce_phase (cr_error (compileLL tc husk request r)) =
      (case payload tc husk request of None \<Rightarrow> BackendCompile
       | Some bytes \<Rightarrow> if parsed tc request bytes = None then IRParse else Phase_None)"
proof -
  have none: "fst (parseLL tc bytes no_error) = None \<longleftrightarrow> parsed tc request bytes = None" for bytes
    using assms(1) by (simp add: parseLL_def parsed_def split: sum.split)
  define out where "out = tc_compile tc (buildLL husk request) ToMemory (rq_instrument request)"
  define r' where "r' = r\<lparr>cr_diagnostics := bo_diagnostics out, cr_llvmIRText := bo_llvmIR out\<rparr>"
  have "cr_error r' = no_error" "\<not> cr_success r'" "cr_module r' = None" using assms by (simp_all add: r'_def)
  note outcome = ll.finish_outcome [OF this, of IRParseFailed "''failed to parse LLVM IR in ll mode''" tc "bo_llvmIR out"]
  show ?thesis
  proof (cases "bo_success out \<and> bo_llvmIR out \<noteq> []")
    case True
    then have "compileLL tc husk request r = finishParse IRParseFailed ''failed to parse LLVM IR in ll mode'' (parseLL tc (bo_llvmIR out)) r'"
      "payload tc husk request = Some (bo_llvmIR out)"
      using assms(1) by (simp_all add: compileLL_def compileLLToMemory_def payload_def Let_def out_def r'_def)
    then show ?thesis using outcome unfolding none by (simp only: option.case) blast
  next
    case False
    then have "payload tc husk request = None" using assms(1) by (simp add: payload_def Let_def out_def)
    with False show ?thesis
      using assms by (auto simp: compileLL_def compileLLToMemory_def Let_def setCompileError_def hasError_def
          make_error_code_def out_def)
  qed
qed

lemma compile_BC:
  assumes "rq_format request = BC" "cr_error r = no_error" "\<not> cr_success r" "cr_module r = None"
  shows "(cr_success (compileBC tc husk request r) \<longleftrightarrow> \<not> hasError (cr_error (compileBC tc husk request r))) \<and>
    (cr_success (compileBC tc husk request r) \<longleftrightarrow> cr_module (compileBC tc husk request r) \<noteq> None) \<and>
    ce_phase (cr_error (compileBC tc husk request r)) =
      (case payload tc husk request of None \<Rightarrow> BackendCompile
       | Some bytes \<Rightarrow> if parsed tc request bytes = None then IRParse else Phase_None)"
proof -
  have none: "fst (parseBC tc bytes no_error) = None \<longleftrightarrow> parsed tc request bytes = None" for bytes
    using assms(1) by (simp add: parseBC_def parseBCNamed_def parsed_def split: sum.split)
  define out where "out = tc_compile tc (buildBC husk request) ToMemoryBitcode (rq_instrument request)"
  define r' where "r' = r\<lparr>cr_diagnostics := bo_diagnostics out, cr_llvmBitcode := bo_llvmBitcode out\<rparr>"
  have "cr_error r' = no_error" "\<not> cr_success r'" "cr_module r' = None" using assms by (simp_all add: r'_def)
  note outcome = bc.finish_outcome [OF this, of BitcodeParseFailed "''failed to parse LLVM bitcode in bc mode''" tc "bo_llvmBitcode out"]
  show ?thesis
  proof (cases "bo_success out \<and> bo_llvmBitcode out \<noteq> []")
    case True
    then have "compileBC tc husk request r = finishParse BitcodeParseFailed ''failed to parse LLVM bitcode in bc mode'' (parseBC tc (bo_llvmBitcode out)) r'"
      "payload tc husk request = Some (bo_llvmBitcode out)"
      using assms(1) by (simp_all add: compileBC_def compileBCToMemory_def payload_def Let_def out_def r'_def)
    then show ?thesis using outcome unfolding none by (simp only: option.case) blast
  next
    case False
    then have "payload tc husk request = None" using assms(1) by (simp add: payload_def Let_def out_def)
    with False show ?thesis
      using assms by (auto simp: compileBC_def compileBCToMemory_def Let_def setCompileError_def hasError_def
          make_error_code_def out_def)
  qed
qed

text \<open>
  C34: Compiling a request succeeds exactly when it yields a module and exactly when it sets no error; the
  phase of the error tells the first step that failed, the validation of the input, the backend or its
  empty output, or the parsing of the result.
\<close>
theorem compile_outcome:
  "let r = compile probe tc husk request
   in (cr_success r \<longleftrightarrow> cr_module r \<noteq> None) \<and>
      (cr_success r \<longleftrightarrow> \<not> hasError (cr_error r)) \<and>
      ce_phase (cr_error r) =
        (if refused probe request then ValidateInput
         else case payload tc husk request of
                None \<Rightarrow> BackendCompile
              | Some bytes \<Rightarrow> if parsed tc request bytes = None then IRParse else Phase_None)"
proof (cases "refused probe request")
  case True
  then show ?thesis
    using validate_phase [of probe "rq_inputFile request"]
    by (auto simp: compile_def refused_def new_result_def setCompileError_def hasError_def make_error_code_def Let_def)
next
  case False
  have new: "cr_error new_result = no_error" "\<not> cr_success new_result" "cr_module new_result = None"
    by (simp_all add: new_result_def)
  show ?thesis
  proof (cases "rq_format request")
    case LL
    then have "compile probe tc husk request = compileLL tc husk request new_result"
      using False by (simp add: compile_def refused_def)
    then show ?thesis using False compile_LL [OF LL new, of tc husk] unfolding Let_def by (simp only: if_False) blast
  next
    case BC
    then have "compile probe tc husk request = compileBC tc husk request new_result"
      using False by (simp add: compile_def refused_def)
    then show ?thesis using False compile_BC [OF BC new, of tc husk] unfolding Let_def by (simp only: if_False) blast
  qed
qed

end
