(* ===== verification/Paths.thy ===== *)
theory Paths
  imports Text
begin

text \<open>
  What the code uses of \<open>std::filesystem::path\<close> on a POSIX system: absolute paths, joining, lexical
  normalization, the extension, and the comparison by elements that orders a \<open>std::map\<close> keyed by paths.
\<close>

abbreviation slash :: char where
  "slash \<equiv> CHR ''/''"

fun split_on :: "char \<Rightarrow> string \<Rightarrow> string list" where
  "split_on d [] = [[]]"
| "split_on d (c # s) =
     (if c = d then [] # split_on d s
      else case split_on d s of [] \<Rightarrow> [[c]] | part # parts \<Rightarrow> (c # part) # parts)"

definition is_absolute :: "string \<Rightarrow> bool" where
  "is_absolute p \<longleftrightarrow> starts_with p ''/''"

text \<open>\<open>operator/\<close>.\<close>

definition path_append :: "string \<Rightarrow> string \<Rightarrow> string" where
  "path_append lhs rhs =
     (if is_absolute rhs then rhs
      else if lhs \<noteq> [] \<and> last lhs \<noteq> slash then lhs @ [slash] @ rhs
      else lhs @ rhs)"

definition filenames :: "string \<Rightarrow> string list" where
  "filenames p = filter (\<lambda>name. name \<noteq> []) (split_on slash p)"

text \<open>Dots go, and two dots go with the name before them, or at the root by themselves.\<close>

definition normalStep :: "bool \<Rightarrow> string \<Rightarrow> string list \<Rightarrow> string list" where
  "normalStep rooted name kept =
     (if name = ''.'' then kept
      else if name = ''..'' \<and> kept \<noteq> [] \<and> hd kept \<noteq> ''..'' then tl kept
      else if name = ''..'' \<and> rooted \<and> kept = [] then kept
      else name # kept)"

definition endsInDirectory :: "string \<Rightarrow> bool" where
  "endsInDirectory p \<longleftrightarrow> p \<noteq> [] \<and> last p = slash \<or>
     filenames p \<noteq> [] \<and> (last (filenames p) = ''.'' \<or> last (filenames p) = ''..'')"

text \<open>The path of a list of names, the last one first, with its separators.\<close>

definition render :: "bool \<Rightarrow> string list \<Rightarrow> bool \<Rightarrow> string" where
  "render rooted kept directory =
     (let path = (if rooted then ''/'' else []) @ join_with ''/'' (rev kept) @
                 (if directory \<and> kept \<noteq> [] \<and> hd kept \<noteq> ''..'' then ''/'' else [])
      in if path = [] then ''.'' else path)"

definition lexically_normal :: "string \<Rightarrow> string" where
  "lexically_normal p =
     (if p = [] then []
      else render (is_absolute p) (fold (normalStep (is_absolute p)) (filenames p) []) (endsInDirectory p))"

text \<open>The elements two paths are compared by; a trailing separator is an empty last element.\<close>

definition path_key :: "string \<Rightarrow> bool \<times> string list" where
  "path_key p = (is_absolute p, filenames p @ (if filenames p \<noteq> [] \<and> last p = slash then [[]] else []))"

definition parent_path :: "string \<Rightarrow> string" where
  "parent_path p =
     (let directory = rev (dropWhile (\<lambda>c. c \<noteq> slash) (rev p));
          stem = rev (dropWhile (\<lambda>c. c = slash) (rev directory))
      in if stem = [] \<and> directory \<noteq> [] then ''/'' else stem)"

definition filename :: "string \<Rightarrow> string" where
  "filename p = last (split_on slash p)"

definition extension :: "string \<Rightarrow> string" where
  "extension p =
     (let name = filename p; stem = rev (dropWhile (\<lambda>c. c \<noteq> CHR ''.'') (rev name))
      in if name = ''.'' \<or> name = ''..'' then []
         else if length stem \<le> 1 then []
         else drop (length stem - 1) name)"

section \<open>Normal paths\<close>

lemma split_on_nonempty [simp]: "split_on d s \<noteq> []"
  by (cases s) (auto split: list.split)

lemma split_on_single: "d \<notin> set s \<Longrightarrow> split_on d s = [s]"
  by (induction s) auto

lemma split_on_append: "d \<notin> set a \<Longrightarrow> split_on d (a @ d # b) = a # split_on d b"
  by (induction a) auto

lemma split_on_snoc: "split_on d (s @ [d]) = split_on d s @ [[]]"
  by (induction s) (auto split: list.split)

lemma split_on_parts: "part \<in> set (split_on d s) \<Longrightarrow> d \<notin> set part"
  by (induction s arbitrary: part) (auto split: list.splits if_splits)

lemma split_on_join:
  "names \<noteq> [] \<Longrightarrow> (\<And>n. n \<in> set names \<Longrightarrow> d \<notin> set n) \<Longrightarrow> split_on d (join_with [d] names) = names"
proof (induction "[d]" names rule: join_with.induct)
  case (3 x y xs)
  then show ?case by (simp add: split_on_append)
qed (auto simp: split_on_single)

text \<open>Names a normalized path may have: dots nowhere, two dots at the front of a relative path only.\<close>

definition normal_names :: "bool \<Rightarrow> string list \<Rightarrow> bool" where
  "normal_names rooted names \<longleftrightarrow>
     (\<forall>n \<in> set names. n \<noteq> [] \<and> n \<noteq> ''.'' \<and> slash \<notin> set n) \<and>
     (\<exists>k rest. names = replicate k ''..'' @ rest \<and> ''..'' \<notin> set rest \<and> (rooted \<longrightarrow> k = 0))"

lemma normal_namesI:
  assumes "names = replicate k ''..'' @ rest" "''..'' \<notin> set rest" "rooted \<longrightarrow> k = 0"
    and "\<forall>n \<in> set names. n \<noteq> [] \<and> n \<noteq> ''.'' \<and> slash \<notin> set n"
  shows "normal_names rooted names"
  using assms unfolding normal_names_def by blast

lemma normal_namesE:
  assumes "normal_names rooted names"
  obtains k rest where "names = replicate k ''..'' @ rest" "''..'' \<notin> set rest" "rooted \<longrightarrow> k = 0"
    "\<forall>n \<in> set names. n \<noteq> [] \<and> n \<noteq> ''.'' \<and> slash \<notin> set n"
  using assms unfolding normal_names_def by blast

lemma normal_names_snoc:
  assumes "normal_names rooted names" "n \<noteq> []" "n \<noteq> ''.''" "n \<noteq> ''..''" "slash \<notin> set n"
  shows "normal_names rooted (names @ [n])"
  using assms(1)
proof (rule normal_namesE)
  fix k rest
  assume "names = replicate k ''..'' @ rest" "''..'' \<notin> set rest" "rooted \<longrightarrow> k = 0"
    "\<forall>n \<in> set names. n \<noteq> [] \<and> n \<noteq> ''.'' \<and> slash \<notin> set n"
  then show ?thesis using assms(2-5) by (intro normal_namesI [of _ k "rest @ [n]"]) auto
qed

lemma normal_names_dotdot:
  assumes "normal_names False names" "names = [] \<or> last names = ''..''"
  shows "normal_names False (names @ [''..''])"
  using assms(1)
proof (rule normal_namesE)
  fix k rest
  assume k: "names = replicate k ''..'' @ rest" "''..'' \<notin> set rest"
    "\<forall>n \<in> set names. n \<noteq> [] \<and> n \<noteq> ''.'' \<and> slash \<notin> set n"
  have "rest = []"
  proof (rule ccontr)
    assume "rest \<noteq> []"
    then have "last names = last rest" "names \<noteq> []" by (simp_all add: k(1))
    then show False using assms(2) k(2) last_in_set [OF \<open>rest \<noteq> []\<close>] by simp
  qed
  then have "names @ [''..''] = replicate (Suc k) ''..'' @ []" by (simp add: k(1) replicate_append_same)
  then show ?thesis using k(3) by (intro normal_namesI [of _ "Suc k" "[]"]) auto
qed

lemma normal_names_butlast:
  assumes "normal_names rooted names" "names \<noteq> []" "last names \<noteq> ''..''"
  shows "normal_names rooted (butlast names)"
  using assms(1)
proof (rule normal_namesE)
  fix k rest
  assume k: "names = replicate k ''..'' @ rest" "''..'' \<notin> set rest" "rooted \<longrightarrow> k = 0"
    "\<forall>n \<in> set names. n \<noteq> [] \<and> n \<noteq> ''.'' \<and> slash \<notin> set n"
  have "rest \<noteq> []"
  proof
    assume "rest = []"
    then have "k \<noteq> 0" "last names = ''..''" using assms(2) by (auto simp: k(1) last_replicate)
    then show False using assms(3) by simp
  qed
  then have "butlast names = replicate k ''..'' @ butlast rest" by (simp add: k(1) butlast_append)
  moreover have "''..'' \<notin> set (butlast rest)" using k(2) by (meson in_set_butlastD)
  moreover have "\<forall>n \<in> set (butlast names). n \<noteq> [] \<and> n \<noteq> ''.'' \<and> slash \<notin> set n"
    using k(4) by (meson in_set_butlastD)
  ultimately show ?thesis using k(3) by (intro normal_namesI [of _ k "butlast rest"])
qed

lemma normalStep_normal:
  assumes "normal_names rooted (rev kept)" "n \<noteq> []" "slash \<notin> set n"
  shows "normal_names rooted (rev (normalStep rooted n kept))"
proof -
  have last: "kept \<noteq> [] \<Longrightarrow> last (rev kept) = hd kept" "rev (tl kept) = butlast (rev kept)"
    by (simp_all add: last_rev butlast_rev)
  have "\<not> rooted" if "kept \<noteq> []" "hd kept = ''..''"
  proof
    assume "rooted"
    then have "''..'' \<notin> set (rev kept)" using assms(1) by (auto elim!: normal_namesE)
    then show False using that by (metis hd_in_set set_rev)
  qed
  then consider "n = ''.''" | "n = ''..''" "kept \<noteq> []" "hd kept \<noteq> ''..''" | "n = ''..''" "rooted" "kept = []"
    | "n = ''..''" "\<not> rooted" "kept = [] \<or> hd kept = ''..''" | "n \<noteq> ''.''" "n \<noteq> ''..''"
    by argo
  then show ?thesis
  proof cases
    case 1
    then show ?thesis using assms(1) by (simp add: normalStep_def)
  next
    case 2
    then have "normal_names rooted (butlast (rev kept))" using normal_names_butlast [OF assms(1)] last(1) by simp
    moreover have "normalStep rooted n kept = tl kept" using 2 by (simp add: normalStep_def)
    ultimately show ?thesis by (simp only: last(2))
  next
    case 3
    then show ?thesis using assms(1) by (simp add: normalStep_def)
  next
    case 4
    then have "rev kept = [] \<or> last (rev kept) = ''..''" using last(1) by (cases "kept = []") simp_all
    then have "normal_names False (rev kept @ [''..''])" using normal_names_dotdot [of "rev kept"] assms(1) 4(2) by simp
    moreover have "normalStep rooted n kept = ''..'' # kept" using 4 by (auto simp: normalStep_def)
    ultimately show ?thesis using 4(2) by simp
  next
    case 5
    then show ?thesis using normal_names_snoc [OF assms(1,2) 5 assms(3)] by (simp add: normalStep_def)
  qed
qed

lemma filenames_members: "n \<in> set (filenames p) \<Longrightarrow> n \<noteq> [] \<and> slash \<notin> set n"
  using split_on_parts by (auto simp: filenames_def)

lemma normalize_normal:
  assumes "\<forall>n \<in> set names. n \<noteq> [] \<and> slash \<notin> set n" "normal_names rooted (rev kept)"
  shows "normal_names rooted (rev (fold (normalStep rooted) names kept))"
  using assms
proof (induction names arbitrary: kept)
  case (Cons n names)
  then show ?case using normalStep_normal [of rooted kept n] by simp
qed simp

lemma normalize_id:
  assumes "normal_names rooted names"
  shows "fold (normalStep rooted) names [] = rev names"
proof -
  have dots: "fold (normalStep False) (replicate k ''..'') (replicate j ''..'') = replicate (k + j) ''..''" for k j
  proof (induction k arbitrary: j)
    case (Suc k)
    have "normalStep False ''..'' (replicate j ''..'') = replicate (Suc j) ''..''" by (cases j) (simp_all add: normalStep_def)
    then show ?case using Suc [of "Suc j"] by simp
  qed simp
  have plain: "fold (normalStep rooted) rest kept = rev rest @ kept"
    if "''..'' \<notin> set rest" "''.'' \<notin> set rest" for rest kept
    using that by (induction rest arbitrary: kept) (auto simp: normalStep_def)
  from assms obtain k rest where k: "names = replicate k ''..'' @ rest" "''..'' \<notin> set rest" "rooted \<longrightarrow> k = 0"
    "\<forall>n \<in> set names. n \<noteq> [] \<and> n \<noteq> ''.'' \<and> slash \<notin> set n"
    by (rule normal_namesE)
  have "''.'' \<notin> set rest" using k(1,4) by auto
  then have rest: "fold (normalStep rooted) rest kept = rev rest @ kept" for kept
    using plain k(2) by blast
  have "fold (normalStep rooted) (replicate k ''..'') [] = replicate k ''..''"
    using dots [of k 0] k(3) by (cases rooted) simp_all
  then show ?thesis by (simp add: k(1) rest)
qed

lemma filenames_render:
  assumes "normal_names rooted (rev kept)"
  shows "filenames (render rooted kept directory) = (if \<not> rooted \<and> kept = [] then [''.''] else rev kept)"
proof -
  have names: "\<And>n. n \<in> set (rev kept) \<Longrightarrow> slash \<notin> set n" "filter (\<lambda>n. n \<noteq> []) (rev kept) = rev kept"
    using assms by (auto simp: normal_names_def filter_id_conv)
  have join: "filenames (join_with ''/'' (rev kept)) = rev kept" if "kept \<noteq> []"
    using split_on_join [of "rev kept" slash] names that by (simp add: filenames_def)
  have lead: "filenames (slash # s) = filenames s" and trail: "filenames (s @ [slash]) = filenames s" for s
    by (simp_all add: filenames_def split_on_snoc)
  have "filenames [] = []" "filenames ''.'' = [''.'']" by (simp_all add: filenames_def)
  then show ?thesis
    using join lead trail by (cases "kept = []") (auto simp: render_def Let_def append_assoc [symmetric] simp del: append_assoc)
qed

lemma join_with_end: "names \<noteq> [] \<Longrightarrow> last names \<noteq> [] \<Longrightarrow> join_with sep names \<noteq> [] \<and> last (join_with sep names) = last (last names)"
proof (induction sep names rule: join_with.induct)
  case (3 sep x y xs)
  then show ?case by (auto simp: last_append)
qed auto

text \<open>Where a rendered path ends, and whether it is absolute.\<close>

lemma render_ends:
  assumes "normal_names rooted (rev kept)" "kept \<noteq> []"
  shows "last (render rooted kept directory) = slash \<longleftrightarrow> directory \<and> hd kept \<noteq> ''..''"
    and "is_absolute (render rooted kept directory) \<longleftrightarrow> rooted"
    and "render rooted kept directory \<noteq> []"
proof -
  have hd: "hd kept \<noteq> []" "slash \<notin> set (hd kept)" "last (rev kept) = hd kept"
    using assms hd_in_set [OF assms(2)] by (auto simp: normal_names_def last_rev)
  have front: "last kept \<noteq> []" "slash \<notin> set (last kept)"
    using assms last_in_set [OF assms(2)] by (auto simp: normal_names_def)
  note end_of = join_with_end [of "rev kept" "''/''"]
  have "last (hd kept) \<noteq> slash" using last_in_set [OF hd(1)] hd(2) by metis
  then have ne: "join_with ''/'' (rev kept) \<noteq> []" and lst: "last (join_with ''/'' (rev kept)) \<noteq> slash"
    using end_of hd(1,3) assms(2) by simp_all
  have first: "hd (join_with ''/'' (rev kept)) \<noteq> slash"
  proof (cases "rev kept")
    case (Cons x xs)
    then have "x = last kept" using assms(2) by (metis hd_rev list.sel(1))
    with front have "x \<noteq> []" "slash \<notin> set x" by simp_all
    then obtain c cs where "x = c # cs" "c \<noteq> slash" by (cases x) auto
    then show ?thesis unfolding Cons by (cases xs) simp_all
  qed (use assms(2) in simp)
  show "last (render rooted kept directory) = slash \<longleftrightarrow> directory \<and> hd kept \<noteq> ''..''"
    using ne lst assms(2) by (auto simp: render_def Let_def last_append)
  show "is_absolute (render rooted kept directory) \<longleftrightarrow> rooted"
    using ne first by (cases "join_with ''/'' (rev kept)") (auto simp: render_def Let_def is_absolute_def starts_with_def)
  show "render rooted kept directory \<noteq> []" using ne by (simp add: render_def Let_def)
qed

lemma render_cong:
  "(d \<and> hd kept \<noteq> ''..'') = (d' \<and> hd kept \<noteq> ''..'') \<Longrightarrow> render rooted kept d = render rooted kept d'"
  unfolding render_def Let_def by (cases "hd kept = ''..''"; cases d; cases d') simp_all

lemma lexically_normal_render:
  assumes "normal_names rooted (rev kept)"
  shows "lexically_normal (render rooted kept directory) = render rooted kept directory"
proof (cases "kept = []")
  case True
  have "lexically_normal ''/'' = ''/''" "lexically_normal ''.'' = ''.''"
    by (simp_all add: lexically_normal_def render_def filenames_def is_absolute_def starts_with_def normalStep_def Let_def)
  then show ?thesis using True by (simp add: render_def Let_def)
next
  case False
  note ends = render_ends [OF assms False, of directory]
  have names: "filenames (render rooted kept directory) = rev kept"
    using filenames_render [OF assms] False by simp
  have "last (rev kept) = hd kept" using False by (simp add: last_rev)
  moreover have "hd kept \<noteq> ''.''" using assms hd_in_set [OF False] by (auto simp: normal_names_def)
  ultimately have "endsInDirectory (render rooted kept directory) \<longleftrightarrow> directory \<and> hd kept \<noteq> ''..'' \<or> hd kept = ''..''"
    using False ends by (auto simp: endsInDirectory_def names)
  then have "render rooted kept (endsInDirectory (render rooted kept directory)) = render rooted kept directory"
    by (intro render_cong) blast
  then show ?thesis using ends(2,3) normalize_id [OF assms] by (simp add: lexically_normal_def names)
qed

text \<open>A normalized path is its own normal form.\<close>

lemma lexically_normal_idem [simp]: "lexically_normal (lexically_normal p) = lexically_normal p"
proof (cases "p = []")
  case False
  have "normal_names (is_absolute p) (rev [])" by (simp add: normal_names_def)
  then have "normal_names (is_absolute p) (rev (fold (normalStep (is_absolute p)) (filenames p) []))"
    using filenames_members [of _ p] by (intro normalize_normal) auto
  then show ?thesis using False lexically_normal_render by (simp add: lexically_normal_def [of p])
qed (simp add: lexically_normal_def)

end
