(* ===== verification/Compilation_Database.thy ===== *)
theory Compilation_Database
  imports Paths "HOL-Library.Sublist"
begin

text \<open>
  Reading \<open>compile_commands.json\<close> (\<open>internal/compilation_database.cpp\<close>). The JSON library and the
  command-line tokenizer of LLVM are arguments, as is the file that is read; the paths are those of
  \<open>Paths\<close>.
\<close>

section \<open>Options\<close>

definition kSemanticOptionPrefixes :: "string list" where
  "kSemanticOptionPrefixes =
     [''-I'', ''-isystem'', ''-D'', ''-std='', ''--sysroot'', ''-f'', ''-m'', ''-include'']"

definition isOutputOrDependencyOption :: "string \<Rightarrow> bool" where
  "isOutputOrDependencyOption argument \<longleftrightarrow>
     argument \<in> set [''-o'', ''-c'', ''-MD'', ''-MMD'', ''-MF'', ''-MT'', ''-MQ'', ''-MP'']"

definition takesSeparateValue :: "string \<Rightarrow> bool" where
  "takesSeparateValue argument \<longleftrightarrow> argument \<in> set [''-o'', ''-MF'', ''-MT'', ''-MQ'']"

definition countSemanticOptions :: "string list \<Rightarrow> nat" where
  "countSemanticOptions arguments =
     length (filter (\<lambda>argument. \<exists>prefix \<in> set kSemanticOptionPrefixes. starts_with argument prefix) arguments)"

definition absolutePath :: "string \<Rightarrow> string \<Rightarrow> string" where
  "absolutePath file directory =
     lexically_normal (if is_absolute file then file else path_append directory file)"

definition isOptimizationOption :: "string \<Rightarrow> bool" where
  "isOptimizationOption argument \<longleftrightarrow>
     (if argument = ''-flto'' \<or> starts_with argument ''-flto='' then True
      else if \<not> starts_with argument ''-O'' then False
      else
        (let level = drop 2 argument
         in level = [] \<or> level = ''fast'' \<or>
            length level = 1 \<and>
              (isdigit (level ! 0) \<or> level ! 0 = CHR ''s'' \<or> level ! 0 = CHR ''z'' \<or> level ! 0 = CHR ''g'')))"

text \<open>The loop over the arguments after the compiler; skipping a value advances the index by one more.\<close>

fun replayFrom :: "string \<Rightarrow> string \<Rightarrow> string list \<Rightarrow> string list" where
  "replayFrom file directory [] = []"
| "replayFrom file directory (argument # raw) =
     (if isOutputOrDependencyOption argument
      then replayFrom file directory (if takesSeparateValue argument then drop 1 raw else raw)
      else if starts_with argument ''-o'' \<and> length argument > 2 then replayFrom file directory raw
      else if isOptimizationOption argument then replayFrom file directory raw
      else if path_key (absolutePath argument directory) = path_key file then replayFrom file directory raw
      else argument # replayFrom file directory raw)"

definition replayableArguments :: "string list \<Rightarrow> string \<Rightarrow> string \<Rightarrow> string list" where
  "replayableArguments raw file directory = replayFrom file directory (drop (if raw = [] then 0 else 1) raw)"

section \<open>Entries\<close>

record CompileCommand =
  cc_file :: string
  cc_directory :: string
  cc_arguments :: "string list"

text \<open>
  The accessors of \<open>llvm::json::Value\<close> and \<open>Object\<close>, the parser, which fails with a message, and
  \<open>llvm::cl::TokenizeGNUCommandLine\<close>.
\<close>

record 'v JsonLibrary =
  js_parse :: "string \<Rightarrow> string + 'v"
  js_getAsArray :: "'v \<Rightarrow> 'v list option"
  js_getAsObject :: "'v \<Rightarrow> 'v option"
  js_getAsString :: "'v \<Rightarrow> string option"
  js_getString :: "'v \<Rightarrow> string \<Rightarrow> string option"
  js_getArray :: "'v \<Rightarrow> string \<Rightarrow> 'v list option"
  js_tokenize :: "string \<Rightarrow> string list"

fun readStrings :: "'v JsonLibrary \<Rightarrow> 'v list \<Rightarrow> string + string list" where
  "readStrings js [] = Inr []"
| "readStrings js (argument # arguments) =
     (case js_getAsString js argument of
        None \<Rightarrow> Inl ''compilation database: 'arguments' must hold strings''
      | Some text \<Rightarrow>
          (case readStrings js arguments of Inl err \<Rightarrow> Inl err | Inr texts \<Rightarrow> Inr (text # texts)))"

definition readArguments :: "'v JsonLibrary \<Rightarrow> 'v \<Rightarrow> string + string list" where
  "readArguments js entry =
     (case js_getArray js entry ''arguments'' of
        Some arguments \<Rightarrow> readStrings js arguments
      | None \<Rightarrow>
          (case js_getString js entry ''command'' of
             Some command \<Rightarrow> Inr (js_tokenize js command)
           | None \<Rightarrow> Inl (''compilation database: entry has neither 'arguments' nor 'command'' @ [CHR 0x27])))"

definition readEntry :: "'v JsonLibrary \<Rightarrow> 'v \<Rightarrow> string + CompileCommand" where
  "readEntry js value =
     (case js_getAsObject js value of
        None \<Rightarrow> Inl ''compilation database: entries must be objects''
      | Some entry \<Rightarrow>
          (case (js_getString js entry ''file'', js_getString js entry ''directory'') of
             (Some file, Some directory) \<Rightarrow>
               (case readArguments js entry of
                  Inl err \<Rightarrow> Inl err
                | Inr raw \<Rightarrow>
                    (let directory = lexically_normal directory;
                         file = absolutePath file directory
                     in Inr \<lparr>cc_file = file, cc_directory = directory,
                             cc_arguments = replayableArguments raw file directory\<rparr>))
           | _ \<Rightarrow> Inl (''compilation database: entry is missing 'file' or 'directory'' @ [CHR 0x27])))"

type_synonym best_commands = "((bool \<times> string list) \<times> CompileCommand) list"

definition keepBetter :: "CompileCommand \<Rightarrow> best_commands \<Rightarrow> best_commands" where
  "keepBetter command best =
     (case map_of best (path_key (cc_file command)) of
        None \<Rightarrow> omap_insert (path_key (cc_file command)) command best
      | Some existing \<Rightarrow>
          if countSemanticOptions (cc_arguments command) > countSemanticOptions (cc_arguments existing)
          then omap_insert (path_key (cc_file command)) command best
          else best)"

fun loadEntries :: "'v JsonLibrary \<Rightarrow> 'v list \<Rightarrow> best_commands \<Rightarrow> string + best_commands" where
  "loadEntries js [] best = Inr best"
| "loadEntries js (value # entries) best =
     (case readEntry js value of
        Inl err \<Rightarrow> Inl err
      | Inr command \<Rightarrow> loadEntries js entries (keepBetter command best))"

text \<open>A file that cannot be read is \<^const>\<open>None\<close>.\<close>

definition loadFromFile :: "'v JsonLibrary \<Rightarrow> (string \<Rightarrow> string option) \<Rightarrow> string \<Rightarrow> string + CompileCommand list" where
  "loadFromFile js files path =
     (case files path of
        None \<Rightarrow> Inl (''compilation database: cannot read '' @ path)
      | Some buffer \<Rightarrow>
          (case js_parse js buffer of
             Inl message \<Rightarrow> Inl (''compilation database: '' @ message)
           | Inr parsed \<Rightarrow>
               (case js_getAsArray js parsed of
                  None \<Rightarrow> Inl ''compilation database: top level must be an array''
                | Some entries \<Rightarrow>
                    (case loadEntries js entries [] of
                       Inl err \<Rightarrow> Inl err
                     | Inr best \<Rightarrow> Inr (map snd best)))))"

section \<open>Queries\<close>

definition supportedExtensions :: "string list" where
  "supportedExtensions = [''.c'', ''.C'', ''.cc'', ''.cpp'', ''.cxx'', ''.c++'', ''.cp'']"

definition analyzableSources :: "bool \<Rightarrow> CompileCommand list \<Rightarrow> CompileCommand list" where
  "analyzableSources includeDependencies commands =
     filter (\<lambda>command. extension (cc_file command) \<in> set supportedExtensions \<and>
         (includeDependencies \<or> \<not> contains (cc_file command) ''/_deps/'')) commands"

definition findCommand :: "string \<Rightarrow> CompileCommand list \<Rightarrow> CompileCommand option" where
  "findCommand file commands =
     List.find (\<lambda>command. path_key (cc_file command) = path_key (lexically_normal file)) commands"

section \<open>Which entry is kept\<close>

definition fileKey :: "CompileCommand \<Rightarrow> bool \<times> string list" where
  "fileKey command = path_key (cc_file command)"

definition options :: "CompileCommand \<Rightarrow> nat" where
  "options command = countSemanticOptions (cc_arguments command)"

text \<open>The first of the commands with the most options.\<close>

definition richest :: "CompileCommand list \<Rightarrow> CompileCommand \<Rightarrow> bool" where
  "richest commands c \<longleftrightarrow> (\<exists>before after. commands = before @ c # after \<and>
     (\<forall>b \<in> set before. options b < options c) \<and> (\<forall>a \<in> set after. options a \<le> options c))"

lemma keepBetter_update:
  "keepBetter c best = (if \<exists>b. map_of best (fileKey c) = Some b \<and> options c \<le> options b then best
     else omap_update (fileKey c) (\<lambda>_. c) best)"
  by (auto simp: keepBetter_def fileKey_def options_def omap_insert_def split: option.split)

lemma richest_snoc:
  assumes "cs = [] \<and> r = None \<or> (\<exists>b. r = Some b \<and> richest cs b)"
  shows "richest (cs @ [c]) (case r of None \<Rightarrow> c | Some b \<Rightarrow> if options c \<le> options b then b else c)"
proof (cases r)
  case None
  then have "cs @ [c] = [] @ c # []" using assms by simp
  then show ?thesis unfolding None richest_def by (intro exI [of _ "[]"]) simp
next
  case (Some b)
  then obtain before after where b: "cs = before @ b # after" "\<forall>x \<in> set before. options x < options b"
    "\<forall>x \<in> set after. options x \<le> options b"
    using assms by (auto simp: richest_def)
  show ?thesis
  proof (cases "options c \<le> options b")
    case True
    then show ?thesis unfolding Some richest_def using b
      by (intro exI [of _ before] exI [of _ "after @ [c]"]) auto
  next
    case False
    then have "\<forall>x \<in> set cs. options x < options c" using b by (auto simp: le_less_trans order.strict_trans)
    then show ?thesis unfolding Some richest_def using False
      by (intro exI [of _ cs] exI [of _ "[]"]) simp
  qed
qed

definition of_file :: "CompileCommand list \<Rightarrow> bool \<times> string list \<Rightarrow> CompileCommand list" where
  "of_file commands key = filter (\<lambda>c. fileKey c = key) commands"

definition chosen :: "CompileCommand list \<Rightarrow> CompileCommand option \<Rightarrow> bool" where
  "chosen commands r \<longleftrightarrow> commands = [] \<and> r = None \<or> (\<exists>b. r = Some b \<and> richest commands b)"

lemma keepBetter_lookup:
  assumes "omap_inv best"
  shows "omap_inv (keepBetter c best)"
    and "map_of (keepBetter c best) key = (if key = fileKey c
      then Some (case map_of best (fileKey c) of None \<Rightarrow> c | Some b \<Rightarrow> if options c \<le> options b then b else c)
      else map_of best key)"
  using assms by (auto simp: keepBetter_update omap_inv_update omap_lookup_update split: option.split)

lemma keepBetter_all:
  "omap_inv (fold keepBetter cs [])" "chosen (of_file cs key) (map_of (fold keepBetter cs []) key)"
proof (induction cs rule: rev_induct)
  case Nil
  {
    case 1
    show ?case by simp
  next
    case 2
    show ?case by (simp add: of_file_def chosen_def)
  }
next
  case (snoc c cs)
  {
    case 1
    show ?case using keepBetter_lookup(1) [OF snoc(1)] by simp
  next
    case 2
    have "of_file (cs @ [c]) key = of_file cs key @ (if fileKey c = key then [c] else [])" by (simp add: of_file_def)
    then show ?case
      using snoc(2) richest_snoc [of "of_file cs key" "map_of (fold keepBetter cs []) key" c]
      by (cases "key = fileKey c") (simp_all add: keepBetter_lookup(2) [OF snoc(1)] chosen_def)
  }
qed

lemma ex_list_cons: "(\<exists>xs. P xs) \<longleftrightarrow> P [] \<or> (\<exists>x xs. P (x # xs))"
  by (metis list.exhaust)

lemma loadEntries_commands:
  "loadEntries js entries best = Inr result \<longleftrightarrow>
     (\<exists>commands. map (readEntry js) entries = map Inr commands \<and> result = fold keepBetter commands best)"
proof (induction entries arbitrary: best)
  case (Cons e entries)
  show ?case
  proof (cases "readEntry js e")
    case (Inr c)
    have "(\<exists>commands. map (readEntry js) (e # entries) = map Inr commands \<and> result = fold keepBetter commands best) \<longleftrightarrow>
        (\<exists>commands. map (readEntry js) entries = map Inr commands \<and> result = fold keepBetter commands (keepBetter c best))"
      by (subst ex_list_cons) (auto simp: Inr)
    then show ?thesis using Inr by (simp add: Cons.IH)
  qed auto
qed auto

text \<open>
  A database that loads has been read entry by entry, and holds each source once, in the order of
  paths: for a source with several entries, the first of those with the most semantic options.
\<close>
theorem database_entries:
  assumes "loadFromFile js files path = Inr commands"
  shows "\<exists>buffer parsed entries read.
    files path = Some buffer \<and> js_parse js buffer = Inr parsed \<and> js_getAsArray js parsed = Some entries \<and>
    map (readEntry js) entries = map Inr read \<and>
    sorted_wrt (<) (map fileKey commands) \<and> fileKey ` set commands = fileKey ` set read \<and>
    (\<forall>c \<in> set commands. richest (filter (\<lambda>r. fileKey r = fileKey c) read) c)"
proof -
  from assms obtain buffer parsed entries best where
    load: "files path = Some buffer" "js_parse js buffer = Inr parsed" "js_getAsArray js parsed = Some entries"
      "loadEntries js entries [] = Inr best" "commands = map snd best"
    by (auto simp: loadFromFile_def split: option.splits sum.splits)
  then obtain read where read: "map (readEntry js) entries = map Inr read" "best = fold keepBetter read []"
    by (auto simp: loadEntries_commands)
  have inv: "omap_inv best" unfolding read(2) by (rule keepBetter_all)
  have pick: "chosen (of_file read key) (map_of best key)" for key unfolding read(2) by (rule keepBetter_all)
  have look: "(k, c) \<in> set best \<longleftrightarrow> map_of best k = Some c" for k c
    using om.inv_distinct [OF inv] by (rule map_of_eq_Some_iff [symmetric])
  have rich: "richest (of_file read k) c" if "(k, c) \<in> set best" for k c
    using pick [of k] that by (simp add: look chosen_def)
  have member: "c \<in> set cs" if "richest cs c" for c cs using that by (auto simp: richest_def)
  have key: "fileKey c = k" "c \<in> set read" if "(k, c) \<in> set best" for k c
    using member [OF rich [OF that]] by (auto simp: of_file_def)
  then have keys: "map fileKey commands = map fst best" unfolding load(5) by auto
  have "fileKey c \<in> fst ` set best" if "c \<in> set read" for c
  proof -
    have "of_file read (fileKey c) \<noteq> []" using that by (auto simp: of_file_def filter_empty_conv)
    then obtain b where "map_of best (fileKey c) = Some b" using pick [of "fileKey c"] by (auto simp: chosen_def)
    then have "(fileKey c, b) \<in> set best" by (simp add: look)
    then show ?thesis by (rule rev_image_eqI) simp
  qed
  moreover have "fst ` set best = fileKey ` set commands" using keys by (metis set_map)
  moreover have "fileKey ` set commands \<subseteq> fileKey ` set read" using key(2) unfolding load(5) by auto
  ultimately have "fileKey ` set commands = fileKey ` set read" by blast
  moreover have "sorted_wrt (<) (map fileKey commands)" using inv unfolding keys omap_inv_def .
  moreover have "richest (filter (\<lambda>r. fileKey r = fileKey c) read) c" if "c \<in> set commands" for c
  proof -
    from that obtain k where "(k, c) \<in> set best" unfolding load(5) by auto
    then show ?thesis using rich key(1) unfolding of_file_def by blast
  qed
  ultimately show ?thesis using load(1-3) read(1) by blast
qed

text \<open>A library over a small type of values, with a database of one source compiled twice.\<close>

datatype sample_value = SString string | SArray "sample_value list" | SObject "(string \<times> sample_value) list"

definition sample_library :: "sample_value \<Rightarrow> sample_value JsonLibrary" where
  "sample_library value =
     \<lparr>js_parse = (\<lambda>_. Inr value),
      js_getAsArray = (\<lambda>v. case v of SArray vs \<Rightarrow> Some vs | _ \<Rightarrow> None),
      js_getAsObject = (\<lambda>v. case v of SObject _ \<Rightarrow> Some v | _ \<Rightarrow> None),
      js_getAsString = (\<lambda>v. case v of SString s \<Rightarrow> Some s | _ \<Rightarrow> None),
      js_getString = (\<lambda>v key. case v of
         SObject fs \<Rightarrow> (case map_of fs key of Some (SString s) \<Rightarrow> Some s | _ \<Rightarrow> None) | _ \<Rightarrow> None),
      js_getArray = (\<lambda>v key. case v of
         SObject fs \<Rightarrow> (case map_of fs key of Some (SArray vs) \<Rightarrow> Some vs | _ \<Rightarrow> None) | _ \<Rightarrow> None),
      js_tokenize = (\<lambda>command. split_on (CHR '' '') command)\<rparr>"

definition sample_database :: sample_value where
  "sample_database = SArray
     [SObject [(''file'', SString ''a.c''), (''directory'', SString ''/p''), (''command'', SString ''cc -c a.c'')],
      SObject [(''file'', SString ''/p/a.c''), (''directory'', SString ''/p''), (''command'', SString ''cc -DX -O2 a.c'')]]"

lemma sample_load:
  "loadFromFile (sample_library sample_database) (\<lambda>_. Some []) ''db'' =
     Inr [\<lparr>cc_file = ''/p/a.c'', cc_directory = ''/p'', cc_arguments = [''-DX'']\<rparr>]"
  by code_simp

theorem database_entries_witness:
  "\<exists>read. fileKey ` set [\<lparr>cc_file = ''/p/a.c'', cc_directory = ''/p'', cc_arguments = [''-DX'']\<rparr>] = fileKey ` set read"
  using database_entries [OF sample_load] by blast

section \<open>Replayed arguments\<close>

definition replayable :: "string \<Rightarrow> string \<Rightarrow> string \<Rightarrow> bool" where
  "replayable file directory a \<longleftrightarrow> \<not> isOutputOrDependencyOption a \<and> \<not> (starts_with a ''-o'' \<and> length a > 2) \<and>
     \<not> isOptimizationOption a \<and> path_key (absolutePath a directory) \<noteq> path_key file"

lemma replayFrom_Cons:
  "replayFrom file directory (a # raw) =
     (if isOutputOrDependencyOption a
      then replayFrom file directory (if takesSeparateValue a then drop 1 raw else raw)
      else if replayable file directory a then a # replayFrom file directory raw
      else replayFrom file directory raw)"
  unfolding replayable_def by (simp del: One_nat_def)

declare replayFrom.simps(2) [simp del]

lemma replayFrom_sub:
  "list_all (replayable file directory) (replayFrom file directory raw) \<and> subseq (replayFrom file directory raw) raw"
proof (induction "length raw" arbitrary: raw rule: less_induct)
  case less
  show ?case
  proof (cases raw)
    case (Cons a rest)
    have ih: "list_all (replayable file directory) (replayFrom file directory r) \<and> subseq (replayFrom file directory r) r"
      if "r = rest \<or> r = drop 1 rest" for r
      using that by (intro less) (auto simp: Cons)
    have "subseq r (a # rest)" if "subseq r rest \<or> subseq r (drop 1 rest)" for r
      using that by (cases rest) auto
    then show ?thesis
      using ih [of rest] ih [of "drop 1 rest"] unfolding Cons replayFrom_Cons by (simp split: if_split)
  qed simp
qed

lemma replayable_clean:
  assumes "a \<in> set (replayableArguments raw file directory)"
  shows "\<not> isOutputOrDependencyOption a" "\<not> starts_with a ''-o''" "\<not> isOptimizationOption a"
    and "path_key (absolutePath a directory) \<noteq> path_key file"
proof -
  have "replayable file directory a"
    using assms replayFrom_sub [of "file" directory "drop (if raw = [] then 0 else 1) raw"]
    unfolding replayableArguments_def list_all_iff by blast
  then have r: "\<not> isOutputOrDependencyOption a" "\<not> (starts_with a ''-o'' \<and> length a > 2)" "\<not> isOptimizationOption a"
    "path_key (absolutePath a directory) \<noteq> path_key file"
    by (simp_all add: replayable_def)
  have "isOutputOrDependencyOption ''-o''" by (simp add: isOutputOrDependencyOption_def)
  moreover have "a = ''-o''" if "starts_with a ''-o''" "\<not> length a > 2"
    using that by (auto simp: starts_with_iff)
  ultimately show "\<not> isOutputOrDependencyOption a" "\<not> starts_with a ''-o''" "\<not> isOptimizationOption a"
    "path_key (absolutePath a directory) \<noteq> path_key file"
    using r by blast+
qed

text \<open>
  The arguments replayed for a source are some of those recorded after the compiler, in their order:
  none selects an output or a dependency file, none asks for optimization, and none names the source.
\<close>
theorem replayed_arguments:
  "subseq (replayableArguments raw file directory) (drop 1 raw) \<and>
   (\<forall>a \<in> set (replayableArguments raw file directory).
      \<not> isOutputOrDependencyOption a \<and> \<not> starts_with a ''-o'' \<and> \<not> isOptimizationOption a \<and>
      path_key (absolutePath a directory) \<noteq> path_key file)"
proof -
  have "drop (if raw = [] then 0 else 1) raw = drop 1 raw" by simp
  then show ?thesis
    using replayable_clean [of _ raw "file" directory] replayFrom_sub [of "file" directory "drop 1 raw"]
    unfolding replayableArguments_def by metis
qed

theorem replayed_arguments_witness:
  "subseq (replayableArguments [''cc'', ''-O2'', ''-DX'', ''-o'', ''a.o'', ''a.c''] ''/p/a.c'' ''/p'')
     [''-O2'', ''-DX'', ''-o'', ''a.o'', ''a.c'']"
  using replayed_arguments [of "[''cc'', ''-O2'', ''-DX'', ''-o'', ''a.o'', ''a.c'']" "''/p/a.c''" "''/p''"]
  by simp

section \<open>Finding a command\<close>

lemma readEntry_normal: "readEntry js value = Inr c \<Longrightarrow> lexically_normal (cc_file c) = cc_file c"
  by (auto simp: readEntry_def absolutePath_def Let_def split: option.splits sum.splits)

lemma loaded_commands:
  assumes "loadFromFile js files path = Inr commands"
  shows "distinct (map fileKey commands)"
    and "c \<in> set commands \<Longrightarrow> \<exists>value. readEntry js value = Inr c"
proof -
  from assms obtain best entries where best: "commands = map snd best" "loadEntries js entries [] = Inr best"
    by (auto simp: loadFromFile_def split: option.splits sum.splits)
  then obtain read where read: "map (readEntry js) entries = map Inr read" "best = fold keepBetter read []"
    by (auto simp: loadEntries_commands)
  have inv: "omap_inv best" unfolding read(2) by (rule keepBetter_all)
  have key: "fileKey d = k \<and> d \<in> set read" if "(k, d) \<in> set best" for k d
  proof -
    have "map_of best k = Some d" using that om.inv_distinct [OF inv] by simp
    then have "richest (of_file read k) d" using keepBetter_all(2) [of read k] by (simp add: chosen_def read(2))
    then have "d \<in> set (of_file read k)" by (auto simp: richest_def)
    then show ?thesis by (simp add: of_file_def)
  qed
  then have "map fileKey commands = map fst best" unfolding best(1) by auto
  then show "distinct (map fileKey commands)" using om.inv_distinct [OF inv] by simp
  show "\<exists>value. readEntry js value = Inr c" if "c \<in> set commands"
  proof -
    have "c \<in> set read" using that key unfolding best(1) by auto
    then have "Inr c \<in> set (map (readEntry js) entries)" unfolding read(1) by simp
    then show ?thesis by force
  qed
qed

text \<open>
  Every command of a loaded database is found under the path it is stored with.
\<close>
theorem find_after_load:
  assumes "loadFromFile js files path = Inr commands" "c \<in> set commands"
  shows "findCommand (cc_file c) commands = Some c"
proof -
  have "lexically_normal (cc_file c) = cc_file c" using loaded_commands(2) [OF assms] by (auto dest: readEntry_normal)
  then show ?thesis
    using assms(2) loaded_commands(1) [OF assms(1)]
    by (auto simp: findCommand_def find_Some_iff in_set_conv_nth distinct_conv_nth fileKey_def)
qed

theorem find_after_load_witness:
  "findCommand ''/p/a.c'' [\<lparr>cc_file = ''/p/a.c'', cc_directory = ''/p'', cc_arguments = [''-DX'']\<rparr>] =
     Some \<lparr>cc_file = ''/p/a.c'', cc_directory = ''/p'', cc_arguments = [''-DX'']\<rparr>"
  using find_after_load [OF sample_load, of "\<lparr>cc_file = ''/p/a.c'', cc_directory = ''/p'', cc_arguments = [''-DX'']\<rparr>"]
  by simp

end
