(* ===== verification/Ir_Cache.thy ===== *)
theory Ir_Cache
  imports Compilation_Database "HOL-Library.Word"
begin

text \<open>
  The cache of compiled units (\<open>internal/ir_cache.cpp\<close>). The file system maps the path of a regular file
  to its bytes; each write carries its outcome, so a store may fail or stop at any of them. The hash
  \<open>llvm::SHA256\<close> is an argument, a function of the bytes it was updated with.
\<close>

unbundle bit_operations_syntax

type_synonym file_store = "string \<Rightarrow> string option"
type_synonym sha256 = "string \<Rightarrow> 8 word list"

section \<open>Files\<close>

definition kDigits :: string where
  "kDigits = ''0123456789abcdef''"

definition toHex :: "8 word list \<Rightarrow> string" where
  "toHex digest = concat (map (\<lambda>byte. [kDigits ! unat (drop_bit 4 byte), kDigits ! unat (byte AND 15)]) digest)"

text \<open>
  How a write ends: in full, with the file not opened, cut short, with the bytes still in the buffer lost when the
  stream is closed, which nobody asks about, or with the rename refused.
\<close>

datatype WriteOutcome = Written | OpenFails | WriteFails string | CloseFails string | RenameFails

definition writeFileAtomically ::
  "WriteOutcome \<Rightarrow> file_store \<Rightarrow> string \<Rightarrow> string \<Rightarrow> file_store \<times> bool" where
  "writeFileAtomically outcome fs path contents =
     (let temporary = path @ ''.tmp''
      in case outcome of
           OpenFails \<Rightarrow> (fs, False)
         | WriteFails part \<Rightarrow> (fs(temporary \<mapsto> part), False)
         | CloseFails part \<Rightarrow> ((fs(temporary := None))(path \<mapsto> part), True)
         | RenameFails \<Rightarrow> (fs(temporary := None), False)
         | Written \<Rightarrow> ((fs(temporary := None))(path \<mapsto> contents), True))"

section \<open>The dependency file\<close>

abbreviation backslash :: char where
  "backslash \<equiv> CHR 0x5C"

definition flush :: "string \<Rightarrow> string list \<Rightarrow> string list" where
  "flush current prerequisites = (if current \<noteq> [] then prerequisites @ [current] else prerequisites)"

definition separates :: "char \<Rightarrow> bool" where
  "separates c \<longleftrightarrow> c = CHR '' '' \<or> c = CHR 0x09 \<or> c = newline \<or> c = CHR 0x0D"

definition escapable :: "char \<Rightarrow> bool" where
  "escapable c \<longleftrightarrow> c = CHR '' '' \<or> c = backslash \<or> c = CHR ''#''"

text \<open>The loop over the characters after the colon; an escape consumes two of them.\<close>

fun scanPrerequisites :: "string \<Rightarrow> string \<Rightarrow> string list \<Rightarrow> string list" where
  "scanPrerequisites [] current prerequisites = flush current prerequisites"
| "scanPrerequisites (character # rest) current prerequisites =
     (if character = backslash \<and> rest \<noteq> [] \<and> hd rest = newline
      then scanPrerequisites (tl rest) [] (flush current prerequisites)
      else if character = backslash \<and> rest \<noteq> [] \<and> escapable (hd rest)
      then scanPrerequisites (tl rest) (current @ [hd rest]) prerequisites
      else if separates character then scanPrerequisites rest [] (flush current prerequisites)
      else scanPrerequisites rest (current @ [character]) prerequisites)"

definition parseDependencyFile :: "string \<Rightarrow> string list" where
  "parseDependencyFile contents =
     (case find_from (CHR '':'') contents 0 of
        None \<Rightarrow> []
      | Some colon \<Rightarrow> scanPrerequisites (drop (colon + 1) contents) [] [])"

section \<open>Entries\<close>

definition openCache :: "bool \<Rightarrow> bool \<Rightarrow> string \<Rightarrow> string option" where
  "openCache createFails isDirectory directory = (if createFails \<and> \<not> isDirectory then None else Some directory)"

definition keyMaterial :: "CompileCommand \<Rightarrow> string" where
  "keyMaterial command =
     cc_file command @ [CHR 0x00] @ concat (map (\<lambda>argument. argument @ [CHR 0x00]) (cc_arguments command))"

definition keyFor :: "sha256 \<Rightarrow> CompileCommand \<Rightarrow> string" where
  "keyFor sha command = toHex (sha (keyMaterial command))"

definition entryPath :: "sha256 \<Rightarrow> string \<Rightarrow> CompileCommand \<Rightarrow> string \<Rightarrow> string" where
  "entryPath sha directory command ending = path_append directory (keyFor sha command @ ending)"

definition depfilePathFor :: "sha256 \<Rightarrow> string \<Rightarrow> CompileCommand \<Rightarrow> string" where
  "depfilePathFor sha directory command = entryPath sha directory command ''.d''"

text \<open>
  The loop over the stored list of dependencies: the bytes the stamp is updated with, or \<^const>\<open>None\<close> when a
  dependency cannot be read.
\<close>

function dependencyBytes :: "file_store \<Rightarrow> string \<Rightarrow> nat \<Rightarrow> string option" where
  "dependencyBytes fs dependencyList begin =
     (if begin < length dependencyList
      then
        (let e = find_from newline dependencyList begin;
             path = (case e of None \<Rightarrow> drop begin dependencyList | Some e \<Rightarrow> substr dependencyList begin (e - begin));
             begin' = (case e of None \<Rightarrow> length dependencyList | Some e \<Rightarrow> e + 1)
         in if path = [] then dependencyBytes fs dependencyList begin'
            else
              (case fs path of
                 None \<Rightarrow> None
               | Some contents \<Rightarrow>
                   map_option (\<lambda>bytes. contents @ bytes) (dependencyBytes fs dependencyList begin')))
      else Some [])"
  by auto
termination
  by (relation "measure (\<lambda>(fs, dependencyList, begin). length dependencyList - begin)")
    (auto dest: find_from_Some split: option.splits)

definition lookupPath :: "sha256 \<Rightarrow> string \<Rightarrow> file_store \<Rightarrow> CompileCommand \<Rightarrow> string option" where
  "lookupPath sha directory fs command =
     (case (fs (entryPath sha directory command ''.deps''), fs (entryPath sha directory command ''.stamp'')) of
        (Some dependencyList, Some storedStamp) \<Rightarrow>
          (case dependencyBytes fs dependencyList 0 of
             None \<Rightarrow> None
           | Some bytes \<Rightarrow>
               if toHex (sha bytes) \<noteq> storedStamp then None
               else if fs (entryPath sha directory command ''.bc'') = None then None
               else Some (entryPath sha directory command ''.bc''))
      | _ \<Rightarrow> None)"

definition lookup :: "sha256 \<Rightarrow> string \<Rightarrow> file_store \<Rightarrow> CompileCommand \<Rightarrow> string option" where
  "lookup sha directory fs command =
     (case lookupPath sha directory fs command of None \<Rightarrow> None | Some bitcode \<Rightarrow> fs bitcode)"

fun readDependencies :: "file_store \<Rightarrow> string list \<Rightarrow> (string \<times> string) option" where
  "readDependencies fs [] = Some ([], [])"
| "readDependencies fs (path # paths) =
     (case fs path of
        None \<Rightarrow> None
      | Some contents \<Rightarrow>
          map_option (\<lambda>(bytes, list). (contents @ bytes, path @ [newline] @ list)) (readDependencies fs paths))"

text \<open>Each write happens only after the one before it.\<close>

definition store ::
  "sha256 \<Rightarrow> string \<Rightarrow> WriteOutcome \<times> WriteOutcome \<times> WriteOutcome \<Rightarrow> file_store \<Rightarrow> CompileCommand \<Rightarrow>
   string \<Rightarrow> string \<Rightarrow> file_store \<times> string option" where
  "store sha directory outcomes fs command bitcode depfile =
     (case fs depfile of
        None \<Rightarrow> (fs, None)
      | Some fragment \<Rightarrow>
          (let dependencies = parseDependencyFile fragment
           in if dependencies = [] then (fs, None)
              else
                (case readDependencies fs dependencies of
                   None \<Rightarrow> (fs, None)
                 | Some (bytes, dependencyList) \<Rightarrow>
                     (let (o1, o2, o3) = outcomes;
                          (fs, ok) = writeFileAtomically o1 fs (entryPath sha directory command ''.bc'') bitcode
                      in if \<not> ok then (fs, None)
                         else
                           (let (fs, ok) = writeFileAtomically o2 fs (entryPath sha directory command ''.deps'') dependencyList
                            in if \<not> ok then (fs, None)
                               else
                                 (let (fs, ok) = writeFileAtomically o3 fs (entryPath sha directory command ''.stamp'')
                                        (toHex (sha bytes))
                                  in if \<not> ok then (fs, None)
                                     else (fs, Some (entryPath sha directory command ''.bc''))))))))"

declare dependencyBytes.simps [simp del]

section \<open>Digits\<close>

lemma kDigits_inject: "i < 16 \<Longrightarrow> j < 16 \<Longrightarrow> kDigits ! i = kDigits ! j \<longleftrightarrow> i = j"
proof -
  have "distinct kDigits" "length kDigits = 16" by (simp_all add: kDigits_def)
  then show "i < 16 \<Longrightarrow> j < 16 \<Longrightarrow> kDigits ! i = kDigits ! j \<longleftrightarrow> i = j" by (simp add: nth_eq_iff_index_eq)
qed

lemma nibbles:
  fixes b :: "8 word"
  shows "unat (drop_bit 4 b) < 16" "unat (b AND 15) < 16"
proof -
  have "unat b < 256" using unsigned_less [of b] by simp
  moreover have "unat (drop_bit 4 b) = unat b div 2 ^ 4" 
    using unat_drop_bit_eq [of 4 b] drop_bit_eq_div [of 4 "unat b"] by (rule trans)
  ultimately show "unat (drop_bit 4 b) < 16" by simp
  have "b AND 15 = take_bit 4 b" by (simp add: take_bit_eq_mask mask_eq_exp_minus_1)
  then have "unat (b AND 15) = take_bit 4 (unat b)" by (simp only: unsigned_take_bit_eq)
  then show "unat (b AND 15) < 16" using take_bit_nat_less_exp [of 4 "unat b"] by simp
qed

lemma nibbles_inject:
  fixes a b :: "8 word"
  assumes "unat (drop_bit 4 a) = unat (drop_bit 4 b)" "unat (a AND 15) = unat (b AND 15)"
  shows "a = b"
proof -
  have low: "x AND 15 = take_bit 4 x" for x :: "8 word" by (simp add: take_bit_eq_mask mask_eq_exp_minus_1)
  have "push_bit 4 (drop_bit 4 a) + take_bit 4 a = push_bit 4 (drop_bit 4 b) + take_bit 4 b"
    using assms unfolding low word_unat_eq_iff [symmetric] by simp
  then show ?thesis by (simp add: bits_ident)
qed

lemma toHex_inject: "toHex a = toHex b \<longleftrightarrow> a = b"
proof (induction a arbitrary: b)
  case Nil
  then show ?case by (cases b) (auto simp: toHex_def)
next
  case (Cons x a)
  show ?case
  proof (cases b)
    case (Cons y c)
    have "toHex (x # a) = toHex (y # c) \<longleftrightarrow> unat (drop_bit 4 x) = unat (drop_bit 4 y) \<and>
        unat (x AND 15) = unat (y AND 15) \<and> toHex a = toHex c"
      by (simp add: toHex_def kDigits_inject nibbles)
    then show ?thesis using nibbles_inject [of x y] Cons.IH [of c] Cons by auto
  qed (auto simp: toHex_def)
qed

section \<open>Dependency files read back\<close>

text \<open>
  The format of a dependency file: after the target and a colon, paths set apart by blanks, ends of lines and
  continuations, a backslash before the end of the line. In a path a backslash before a space, a backslash or a
  hash stands for that character, and before any other character of the path for itself.
\<close>

inductive gap :: "string \<Rightarrow> bool" where
  none: "gap []"
| blank: "separates c \<Longrightarrow> gap g \<Longrightarrow> gap (c # g)"
| continued: "gap g \<Longrightarrow> gap (backslash # newline # g)"

inductive spells :: "string \<Rightarrow> string \<Rightarrow> bool" where
  over: "spells [] []"
| plain: "\<not> separates c \<Longrightarrow> c \<noteq> backslash \<Longrightarrow> spells s path \<Longrightarrow> spells (c # s) (c # path)"
| escaped: "c \<in> {CHR '' '', backslash, CHR ''#''} \<Longrightarrow> spells s path \<Longrightarrow> spells (backslash # c # s) (c # path)"
| kept: "spells (c # s) path \<Longrightarrow> c \<notin> {CHR '' '', backslash, CHR ''#'', newline} \<Longrightarrow> spells (backslash # c # s) (backslash # path)"

inductive lists_paths :: "string \<Rightarrow> string list \<Rightarrow> bool" where
  over: "gap g \<Longrightarrow> lists_paths g []"
| more: "gap g \<Longrightarrow> g \<noteq> [] \<Longrightarrow> spells s path \<Longrightarrow> path \<noteq> [] \<Longrightarrow> lists_paths rest paths \<Longrightarrow>
    lists_paths (g @ s @ rest) (path # paths)"

lemma scan_gap: "gap g \<Longrightarrow> scanPrerequisites (g @ rest) [] acc = scanPrerequisites rest [] acc"
  by (induction rule: gap.induct) (auto simp: flush_def separates_def)

lemma scan_gap_flush:
  assumes "gap g" "g \<noteq> [] \<or> rest = []"
  shows "scanPrerequisites (g @ rest) current acc = scanPrerequisites rest [] (flush current acc)"
  using assms
proof (cases rule: gap.cases)
  case (blank c g')
  then show ?thesis using scan_gap [OF blank(3), of rest "flush current acc"] by (auto simp: separates_def)
next
  case (continued g')
  then show ?thesis using scan_gap [OF continued(2), of rest "flush current acc"] by simp
qed (use assms(2) in \<open>simp add: flush_def\<close>)

lemma scan_spelled: "spells s path \<Longrightarrow> scanPrerequisites (s @ rest) current acc = scanPrerequisites rest (current @ path) acc"
  by (induction arbitrary: current rule: spells.induct) (auto simp: escapable_def separates_def)

lemma scan_listed: "lists_paths s paths \<Longrightarrow> scanPrerequisites s current acc = flush current acc @ paths"
proof (induction arbitrary: current acc rule: lists_paths.induct)
  case (over g)
  then show ?case using scan_gap_flush [of g "[]" current acc] by (simp add: flush_def)
next
  case (more g s path rest paths)
  then show ?case by (simp add: scan_gap_flush scan_spelled flush_def)
qed

text \<open>
  C33: A dependency file in this format, its lines continued or not, is read as exactly the paths it lists, in their
  order, with the escapes undone.
\<close>
theorem dependency_file_read_back:
  assumes "CHR '':'' \<notin> set target" "lists_paths rest paths"
  shows "parseDependencyFile (target @ '':'' @ rest) = paths"
proof -
  have "drop 0 (target @ '':'' @ rest) = target @ CHR '':'' # rest" by simp
  from find_from_at [OF this assms(1)] show ?thesis
    using scan_listed [OF assms(2), of "[]" "[]"] by (simp add: parseDependencyFile_def flush_def)
qed

lemma spells_plain: "list_all (\<lambda>c. \<not> separates c \<and> c \<noteq> backslash) path \<Longrightarrow> spells path path"
  by (induction path) (auto intro: spells.intros)

text \<open>The list \<open>main.c\<close>, \<open>a b.h\<close>, \<open>local.h\<close> on three lines.\<close>

lemma continued_lines:
  "lists_paths ('' main.c '' @ [backslash, newline] @ ''  a'' @ [backslash] @ '' b.h '' @ [backslash, newline] @ ''  local.h'' @ [newline])
     [''main.c'', ''a b.h'', ''local.h'']"
proof -
  have gaps: "gap [newline]" "gap '' ''" "gap (CHR '' '' # backslash # newline # ''  '')"
    by (auto intro!: gap.intros simp: separates_def)
  have plain: "spells ''main.c'' ''main.c''" "spells ''local.h'' ''local.h''" "spells ''b.h'' ''b.h''"
    by (simp_all add: spells_plain separates_def)
  have "spells (backslash # CHR '' '' # ''b.h'') ('' b.h'')" using plain(3) by (intro spells.escaped) auto
  then have spaced: "spells (CHR ''a'' # backslash # CHR '' '' # ''b.h'') ''a b.h''" by (intro spells.plain) (auto simp: separates_def)
  have "lists_paths ((CHR '' '' # backslash # newline # ''  '') @ ''local.h'' @ [newline]) [''local.h'']"
    by (rule lists_paths.more [OF gaps(3) _ plain(2) _ lists_paths.over [OF gaps(1)]]) simp_all
  from lists_paths.more [OF gaps(3) _ spaced _ this]
  have "lists_paths ((CHR '' '' # backslash # newline # ''  '') @ (CHR ''a'' # backslash # CHR '' '' # ''b.h'') @
      (CHR '' '' # backslash # newline # ''  '') @ ''local.h'' @ [newline]) [''a b.h'', ''local.h'']" by simp
  from lists_paths.more [OF gaps(2) _ plain(1) _ this] show ?thesis by simp
qed

theorem dependency_file_read_back_witness:
  "parseDependencyFile (''out.bc'' @ '':'' @ '' main.c '' @ [backslash, newline] @ ''  a'' @ [backslash] @ '' b.h '' @ [backslash, newline] @
     ''  local.h'' @ [newline]) = [''main.c'', ''a b.h'', ''local.h'']"
  by (rule dependency_file_read_back [OF _ continued_lines]) simp

text \<open>A dollar sign, which make-style rules write twice, is not undone.\<close>

lemma doubled_dollar_kept: "parseDependencyFile ''o: a$$b.c'' = [''a$$b.c'']"
  by code_simp

lemma scan_plain:
  assumes "newline \<notin> set current" "\<forall>p \<in> set acc. p \<noteq> [] \<and> newline \<notin> set p"
  shows "\<forall>p \<in> set (scanPrerequisites s current acc). p \<noteq> [] \<and> newline \<notin> set p"
  using assms
proof (induction s current acc rule: scanPrerequisites.induct)
  case (2 c rest current acc)
  have flushed: "\<forall>p \<in> set (flush current acc). p \<noteq> [] \<and> newline \<notin> set p" using 2(5,6) by (auto simp: flush_def)
  let ?join = "c = backslash \<and> rest \<noteq> [] \<and> hd rest = newline"
  let ?escape = "c = backslash \<and> rest \<noteq> [] \<and> escapable (hd rest)"
  consider ?join | "\<not> ?join" ?escape | "\<not> ?join" "\<not> ?escape" "separates c" | "\<not> ?join" "\<not> ?escape" "\<not> separates c"
    by blast
  then show ?case
  proof cases
    case 1
    show ?thesis
      unfolding scanPrerequisites.simps(2) if_P [OF 1] by (rule "2.IH"(1) [OF 1 _ flushed]) simp
  next
    case 2
    then have "newline \<notin> set (current @ [hd rest])" using "2.prems"(1) by (auto simp: escapable_def)
    from "2.IH"(2) [OF 2 this "2.prems"(2)] show ?thesis
      unfolding scanPrerequisites.simps(2) if_not_P [OF 2(1)] if_P [OF 2(2)] .
  next
    case 3
    show ?thesis
      unfolding scanPrerequisites.simps(2) if_not_P [OF 3(1)] if_not_P [OF 3(2)] if_P [OF 3(3)]
      by (rule "2.IH"(3) [OF 3 _ flushed]) simp
  next
    case 4
    then have "newline \<notin> set (current @ [c])" using "2.prems"(1) by (auto simp: separates_def)
    from "2.IH"(4) [OF 4 this "2.prems"(2)] show ?thesis
      unfolding scanPrerequisites.simps(2) if_not_P [OF 4(1)] if_not_P [OF 4(2)] if_not_P [OF 4(3)] .
  qed
qed (auto simp: flush_def)

lemma parseDependencyFile_plain: "p \<in> set (parseDependencyFile s) \<Longrightarrow> p \<noteq> [] \<and> newline \<notin> set p"
  using scan_plain [of "[]" "[]"] by (auto simp: parseDependencyFile_def split: option.splits)

section \<open>When an entry is valid\<close>

fun readAll :: "file_store \<Rightarrow> string list \<Rightarrow> string option" where
  "readAll fs [] = Some []"
| "readAll fs (path # paths) =
     (case fs path of None \<Rightarrow> None | Some contents \<Rightarrow> map_option (\<lambda>bytes. contents @ bytes) (readAll fs paths))"

lemma dependencyBytes_lines:
  "begin \<le> length list \<Longrightarrow>
     dependencyBytes fs list begin = readAll fs (filter (\<lambda>p. p \<noteq> []) (lines_of (drop begin list)))"
proof (induction "length list - begin" arbitrary: "begin" rule: less_induct)
  case (less b)
  show ?case
  proof (cases "b < length list")
    case True
    show ?thesis
    proof (cases "find_from newline list b")
      case None
      have "newline \<notin> set (drop b list)" using find_from_None [OF None] True by simp
      then have "lines_of (drop b list) = [drop b list]" using True by (simp add: lines_of_single)
      moreover have "dependencyBytes fs list (length list) = Some []" by (simp add: dependencyBytes.simps)
      ultimately show ?thesis using True None by (simp add: dependencyBytes.simps [of fs list b] split: option.split)
    next
      case (Some e)
      note at = find_from_Some [OF Some]
      have "lines_of (drop b list) = substr list b (e - b) # lines_of (drop (e + 1) list)"
        unfolding at(3) by (rule lines_of_append [OF at(4)])
      moreover have "dependencyBytes fs list (e + 1) = readAll fs (filter (\<lambda>p. p \<noteq> []) (lines_of (drop (e + 1) list)))"
        using at(1,2) by (intro less) auto
      ultimately show ?thesis
        using True Some by (simp add: dependencyBytes.simps [of fs list b] Let_def split: option.split)
    qed
  next
    case False
    then show ?thesis using less(2) by (simp add: dependencyBytes.simps)
  qed
qed

lemma readDependencies_all:
  "readDependencies fs paths =
     map_option (\<lambda>bytes. (bytes, concat (map (\<lambda>p. p @ [newline]) paths))) (readAll fs paths)"
  by (induction paths) (auto simp: option.map_comp comp_def split: option.split)

lemma listed_dependencies:
  assumes "\<forall>p \<in> set paths. p \<noteq> [] \<and> newline \<notin> set p"
  shows "dependencyBytes fs (concat (map (\<lambda>p. p @ [newline]) paths)) 0 = readAll fs paths"
proof -
  have "lines_of (concat (map (\<lambda>p. p @ [newline]) paths)) = paths"
    using assms by (induction paths) (simp_all add: lines_of_append)
  moreover have "filter (\<lambda>p. p \<noteq> []) paths = paths" using assms by (simp add: filter_id_conv)
  ultimately show ?thesis by (simp add: dependencyBytes_lines)
qed

text \<open>The files of an entry differ in what follows the key.\<close>

lemma toHex_relative: "\<not> is_absolute (toHex digest @ CHR ''.'' # s)"
proof (cases digest)
  case (Cons byte digest)
  have "kDigits ! i \<noteq> slash" if "i < 16" for i
    using that nth_mem [of i kDigits] by (auto simp: kDigits_def)
  then show ?thesis using Cons nibbles(1) [of byte] by (simp add: toHex_def is_absolute_def starts_with_def)
qed (simp add: toHex_def is_absolute_def starts_with_def)

lemma entryPath_shape:
  "\<exists>stem. \<forall>s. entryPath sha directory command (CHR ''.'' # s) = stem @ CHR ''.'' # s"
  using toHex_relative by (auto simp: entryPath_def path_append_def keyFor_def)

abbreviation allWritten :: "WriteOutcome \<times> WriteOutcome \<times> WriteOutcome" where
  "allWritten \<equiv> (Written, Written, Written)"

lemma store_success:
  assumes "store sha directory allWritten fs command bitcode depfile = (fs1, Some path)"
  obtains fragment bytes where "fs depfile = Some fragment" "readAll fs (parseDependencyFile fragment) = Some bytes"
    and "path = entryPath sha directory command ''.bc''"
    and "fs1 (entryPath sha directory command ''.bc'') = Some bitcode"
    and "fs1 (entryPath sha directory command ''.deps'') = Some (concat (map (\<lambda>p. p @ [newline]) (parseDependencyFile fragment)))"
    and "fs1 (entryPath sha directory command ''.stamp'') = Some (toHex (sha bytes))"
proof -
  obtain stem where stem: "\<And>s. entryPath sha directory command (CHR ''.'' # s) = stem @ CHR ''.'' # s"
    using entryPath_shape [of sha directory command] by blast
  obtain fragment where f: "fs depfile = Some fragment" using assms by (cases "fs depfile") (simp_all add: store_def)
  obtain bytes where b: "readAll fs (parseDependencyFile fragment) = Some bytes"
    using assms f by (cases "readAll fs (parseDependencyFile fragment)") (simp_all add: store_def readDependencies_all Let_def split: if_splits)
  let ?bc = "entryPath sha directory command ''.bc''" and ?deps = "entryPath sha directory command ''.deps''" and ?stamp = "entryPath sha directory command ''.stamp''"
  have "path = ?bc \<and> fs1 = (((((fs(?bc @ ''.tmp'' := None))(?bc \<mapsto> bitcode))(?deps @ ''.tmp'' := None))
      (?deps \<mapsto> concat (map (\<lambda>p. p @ [newline]) (parseDependencyFile fragment))))(?stamp @ ''.tmp'' := None))(?stamp \<mapsto> toHex (sha bytes))"
    using assms f b by (clarsimp simp: store_def Let_def readDependencies_all writeFileAtomically_def split: if_splits)
  then show thesis using f b by (intro that [of fragment bytes]) (simp_all add: stem)
qed

text \<open>
  C32: An entry whose three files were written in full answers a lookup with the bitcode it was stored with exactly
  as long as every dependency the compiler named can be read and the concatenation of their contents has the digest
  that of the contents then had; it does not matter what else has changed, as long as the files of the entry are
  untouched. The digest is of the contents joined without a mark, so bytes moved from one dependency to the next
  go unnoticed (\<open>moved_bytes_unnoticed\<close>).
\<close>
theorem cache_entry_valid:
  assumes "store sha directory allWritten fs command bitcode depfile = (fs1, Some path)"
    and "\<forall>ending \<in> {''.bc'', ''.deps'', ''.stamp''}.
      fs2 (entryPath sha directory command ending) = fs1 (entryPath sha directory command ending)"
  shows "\<exists>fragment old. fs depfile = Some fragment \<and> readAll fs (parseDependencyFile fragment) = Some old \<and>
    lookup sha directory fs2 command =
      (case readAll fs2 (parseDependencyFile fragment) of
         None \<Rightarrow> None
       | Some new \<Rightarrow> if sha new = sha old then Some bitcode else None)"
proof -
  from assms(1) obtain fragment bytes where f: "fs depfile = Some fragment" "readAll fs (parseDependencyFile fragment) = Some bytes"
    and files: "fs1 (entryPath sha directory command ''.bc'') = Some bitcode"
      "fs1 (entryPath sha directory command ''.deps'') = Some (concat (map (\<lambda>p. p @ [newline]) (parseDependencyFile fragment)))"
      "fs1 (entryPath sha directory command ''.stamp'') = Some (toHex (sha bytes))"
    by (rule store_success)
  have "dependencyBytes fs2 (concat (map (\<lambda>p. p @ [newline]) (parseDependencyFile fragment))) 0 =
      readAll fs2 (parseDependencyFile fragment)"
    using parseDependencyFile_plain by (intro listed_dependencies) blast
  then have "lookup sha directory fs2 command =
      (case readAll fs2 (parseDependencyFile fragment) of
         None \<Rightarrow> None | Some new \<Rightarrow> if sha new = sha bytes then Some bitcode else None)"
    using assms(2) files by (simp add: lookup_def lookupPath_def toHex_inject split: option.split)
  with f show ?thesis by blast
qed

text \<open>A hash that keeps its input, and a source compiled into a fresh cache.\<close>

definition sample_sha :: sha256 where
  "sample_sha s = map (\<lambda>c. word_of_nat (of_char c)) s"

definition sample_command :: CompileCommand where
  "sample_command = \<lparr>cc_file = ''a'', cc_directory = ''/'', cc_arguments = []\<rparr>"

definition sample_files :: "string \<Rightarrow> file_store" where
  "sample_files source = [''a'' \<mapsto> source, ''d'' \<mapsto> ''o: a'']"

lemma sample_read: "readDependencies (sample_files s) [''a''] = Some (s, ''a'' @ [newline])"
  "parseDependencyFile ''o: a'' = [''a'']"
  by (simp add: sample_files_def, code_simp)

lemma sample_store:
  "\<exists>fs1 path. store sample_sha ''c'' allWritten (sample_files ''x'') sample_command ''bc'' ''d'' = (fs1, Some path)"
proof -
  have "sample_files ''x'' ''d'' = Some ''o: a''" by (simp add: sample_files_def)
  moreover have "sample_files ''x'' ''a'' = Some ''x''" by (simp add: sample_files_def)
  ultimately show ?thesis by (simp add: store_def sample_read Let_def writeFileAtomically_def)
qed

theorem cache_entry_valid_witness:
  "\<exists>fs1 fragment old. sample_files ''x'' ''d'' = Some fragment \<and>
     readAll (sample_files ''x'') (parseDependencyFile fragment) = Some old \<and>
     lookup sample_sha ''c'' fs1 sample_command =
      (case readAll fs1 (parseDependencyFile fragment) of
         None \<Rightarrow> None
       | Some new \<Rightarrow> if sample_sha new = sample_sha old then Some ''bc'' else None)"
proof -
  obtain fs1 path where "store sample_sha ''c'' allWritten (sample_files ''x'') sample_command ''bc'' ''d'' = (fs1, Some path)"
    using sample_store by blast
  from cache_entry_valid [OF this, of fs1] show ?thesis by blast
qed

section \<open>Keys\<close>

lemma material_arguments:
  assumes "\<forall>a \<in> set xs. CHR 0x00 \<notin> set a" "\<forall>a \<in> set ys. CHR 0x00 \<notin> set a"
    and "concat (map (\<lambda>a. a @ [CHR 0x00]) xs) = concat (map (\<lambda>a. a @ [CHR 0x00]) ys)"
  shows "xs = ys"
  using assms
proof (induction xs arbitrary: ys)
  case Nil
  then show ?case by (cases ys) auto
next
  case (Cons x xs)
  then obtain y ys' where ys: "ys = y # ys'" by (cases ys) auto
  have "x @ CHR 0x00 # concat (map (\<lambda>a. a @ [CHR 0x00]) xs) = y @ CHR 0x00 # concat (map (\<lambda>a. a @ [CHR 0x00]) ys')"
    using Cons.prems(3) by (simp add: ys)
  from split_at_delimiter [OF this] show ?case using Cons.prems(1,2) Cons.IH [of ys'] by (simp add: ys)
qed

text \<open>
  Commands for different sources, or with different arguments, have different keys, provided the hash
  tells their descriptions apart and no path or argument holds a NUL byte: no splitting of the same
  characters into other arguments gives the same key.
\<close>
theorem keys_tell_commands_apart:
  assumes "\<forall>s \<in> set (cc_file a # cc_arguments a) \<union> set (cc_file b # cc_arguments b). CHR 0x00 \<notin> set s"
    and "sha (keyMaterial a) = sha (keyMaterial b) \<longrightarrow> keyMaterial a = keyMaterial b"
    and "keyFor sha a = keyFor sha b"
  shows "cc_file a = cc_file b \<and> cc_arguments a = cc_arguments b"
proof -
  have "keyMaterial a = keyMaterial b" using assms(2,3) by (simp add: keyFor_def toHex_inject)
  then have "cc_file a @ CHR 0x00 # concat (map (\<lambda>s. s @ [CHR 0x00]) (cc_arguments a)) =
      cc_file b @ CHR 0x00 # concat (map (\<lambda>s. s @ [CHR 0x00]) (cc_arguments b))"
    by (simp add: keyMaterial_def)
  from split_at_delimiter [OF this] show ?thesis
    using assms(1) material_arguments [of "cc_arguments a" "cc_arguments b"] by simp
qed

theorem keys_tell_commands_apart_witness:
  "keyFor sample_sha sample_command \<noteq> keyFor sample_sha (sample_command\<lparr>cc_arguments := [''b'']\<rparr>)"
  using keys_tell_commands_apart [of sample_command "sample_command\<lparr>cc_arguments := [''b'']\<rparr>" sample_sha]
  by (auto simp: sample_command_def sample_sha_def keyMaterial_def)

section \<open>An entry over an older one\<close>

text \<open>
  Bitcode that replaces that of an older entry is in place before the older stamp is: a store that stops
  in between leaves the new bitcode under the stamp of the old sources, and when these come back the
  lookup answers with it.
\<close>

lemma interrupted_store_mixes_entries:
  defines "old \<equiv> fst (store sample_sha ''c'' allWritten (sample_files ''x'') sample_command ''old'' ''d'')"
  defines "changed \<equiv> old(''a'' \<mapsto> ''y'')"
  defines "stopped \<equiv> fst (store sample_sha ''c'' (Written, OpenFails, Written) changed sample_command ''new'' ''d'')"
  shows "lookup sample_sha ''c'' (stopped(''a'' \<mapsto> ''x'')) sample_command = Some ''new''"
  unfolding stopped_def changed_def old_def by code_simp

text \<open>The stamp of two dependencies does not change when bytes move from one to the other, whatever the hash.\<close>

lemma moved_bytes_unnoticed:
  "dependencyBytes [''a'' \<mapsto> ''x'', ''b'' \<mapsto> ''yz''] (''a'' @ [newline] @ ''b'' @ [newline]) 0 =
   dependencyBytes [''a'' \<mapsto> ''xy'', ''b'' \<mapsto> ''z''] (''a'' @ [newline] @ ''b'' @ [newline]) 0"
  by code_simp

text \<open>Bytes lost when the file is closed: the store succeeds, and the lookup answers with what is left of the bitcode.\<close>

lemma truncated_bitcode_served:
  "lookup sample_sha ''c'' (fst (store sample_sha ''c'' (CloseFails ''b'', Written, Written) (sample_files ''x'') sample_command ''bc'' ''d''))
     sample_command = Some ''b''"
  by code_simp

end
