(* ===== verification/Command_Options.thy ===== *)
theory Command_Options
  imports Paths Diagnostics Compile_Command
begin

text \<open>
  The command line of the tool (\<open>main.cpp\<close>): the parsers of the option values and the loop over the
  arguments, which ends with the options or with an exit code and what is printed.
\<close>

section \<open>Values\<close>

definition kFindingsExitCode :: nat where
  "kFindingsExitCode = 2"

definition printHelp :: string where
  "printHelp =
     ''CoreTrace Concurrency Analyzer bootstrap CLI'' @ [newline, newline] @
     ''Usage:'' @ [newline] @
     ''  coretrace_concurrency_analyzer <file.c|cpp> [options]'' @ [newline, newline] @
     ''Options:'' @ [newline] @
     ''  --ir-format=ll|bc        Compilation output mode (default: bc)'' @ [newline] @
     ''  --compile-arg=<arg>      Forward a compile argument (repeatable)'' @ [newline] @
     ''  --instrument             Enable compilerlib instrumentation mode'' @ [newline] @
     ''  --compile-commands=PATH  Analyse a whole project from a compile_commands.json'' @ [newline] @
     ''                           instead of a single file (implies --analyze)'' @ [newline] @
     ''  --no-cache               Recompile every unit, and neither read nor write the'' @ [newline] @
     ''                           IR cache; the bitcode is then kept in memory'' @ [newline] @
     ''  --max-live-units=N       Most units held in memory at once during a project'' @ [newline] @
     ''                           analysis (default: one per hardware thread)'' @ [newline, newline] @
     ''Sources are always compiled unoptimized: the analysis describes the program as'' @ [newline] @
     ''written, and an optimizer removes the very structure the rules read.'' @ [newline] @
     ''  --analyze                Run selected single-TU concurrency checks on the IR '' @
     ''module'' @ [newline] @
     ''  --rules=<comma-separated>|all'' @ [newline] @
     ''                           Rule selection for --analyze. Available: data-race,'' @ [newline] @
     ''                           missing-join, deadlock-lock-order, condition-wait,'' @ [newline] @
     ''                           fork-after-thread, unreaped-child, thread-arg-escape,'' @ [newline] @
     ''                           unsafe-signal-handler, weak-publication,'' @ [newline] @
     ''                           thread-arg-freed, thread-local-escape, or `all`'' @ [newline] @
     ''                           (default: every rule)'' @ [newline] @
     ''  --format=human|json|sarif'' @ [newline] @
     ''                           Diagnostic output format for --analyze (default: '' @
     ''human)'' @ [newline] @
     ''  --verbose                Print request details for debugging'' @ [newline] @
     ''  --                       Forward all following args to compilerlib'' @ [newline] @
     ''  -h, --help               Show this help message'' @ [newline] @
     ''  --version                Print the analyzer version and exit'' @ [newline] @
     ''  --fail-on=none|error|warning'' @ [newline] @
     ''                           Exit '' @
     to_string_nat kFindingsExitCode @
     '' when the analysis reports at that severity or'' @ [newline] @
     ''                           above (default: none). Exit 1 still means the'' @ [newline] @
     ''                           analysis could not run.'' @ [newline, newline] @
     ''Examples:'' @ [newline] @
     ''  coretrace_concurrency_analyzer test.c --ir-format=ll'' @ [newline] @
     ''  coretrace_concurrency_analyzer test.c --ir-format=bc --compile-arg=-Iinclude'' @ [newline] @
     ''  coretrace_concurrency_analyzer test.c --analyze --format=human'' @ [newline] @
     ''  coretrace_concurrency_analyzer test.c --analyze --rules=all --format=human'' @ [newline] @
     ''  coretrace_concurrency_analyzer test.c --analyze --format=sarif'' @ [newline] @
     ''  coretrace_concurrency_analyzer test.c -- --std=gnu11 -Wall'' @ [newline] @
     ''  coretrace_concurrency_analyzer --compile-commands=build/compile_commands.json'' @ [newline]"

definition parseFormat :: "string \<Rightarrow> IRFormat option" where
  "parseFormat value = (if value = ''ll'' then Some LL else if value = ''bc'' then Some BC else None)"

definition parseOutputFormat :: "string \<Rightarrow> OutputFormat option" where
  "parseOutputFormat value =
     (if value = ''human'' then Some OF_Human
      else if value = ''json'' then Some OF_Json
      else if value = ''sarif'' then Some OF_Sarif
      else None)"

fun ruleOptionLabel :: "RuleId \<Rightarrow> string" where
  "ruleOptionLabel DataRaceGlobal = ''data-race''"
| "ruleOptionLabel MissingJoin = ''missing-join''"
| "ruleOptionLabel DeadlockLockOrder = ''deadlock-lock-order''"
| "ruleOptionLabel ConditionWaitWithoutPredicate = ''condition-wait''"
| "ruleOptionLabel ForkAfterThreadCreation = ''fork-after-thread''"
| "ruleOptionLabel UnreapedChildProcess = ''unreaped-child''"
| "ruleOptionLabel ThreadArgumentEscapesFrame = ''thread-arg-escape''"
| "ruleOptionLabel UnsafeSignalHandler = ''unsafe-signal-handler''"
| "ruleOptionLabel WeakPublicationOrdering = ''weak-publication''"
| "ruleOptionLabel ThreadArgumentFreedEarly = ''thread-arg-freed''"
| "ruleOptionLabel ThreadLocalOutlivesThread = ''thread-local-escape''"
| "ruleOptionLabel CompilerDiagnostic = ''compiler-diagnostic''"

definition parseAnalysisRule :: "string \<Rightarrow> RuleId option" where
  "parseAnalysisRule value =
     (if value = ''data-race'' then Some DataRaceGlobal
      else if value = ''missing-join'' then Some MissingJoin
      else if value = ''deadlock-lock-order'' then Some DeadlockLockOrder
      else if value = ''condition-wait'' then Some ConditionWaitWithoutPredicate
      else if value = ''fork-after-thread'' then Some ForkAfterThreadCreation
      else if value = ''unreaped-child'' then Some UnreapedChildProcess
      else if value = ''thread-arg-escape'' then Some ThreadArgumentEscapesFrame
      else if value = ''unsafe-signal-handler'' then Some UnsafeSignalHandler
      else if value = ''weak-publication'' then Some WeakPublicationOrdering
      else if value = ''thread-arg-freed'' then Some ThreadArgumentFreedEarly
      else if value = ''thread-local-escape'' then Some ThreadLocalOutlivesThread
      else None)"

definition appendRuleIfMissing :: "RuleId \<Rightarrow> RuleId list \<Rightarrow> RuleId list" where
  "appendRuleIfMissing rule enabledRules = (if rule \<notin> set enabledRules then enabledRules @ [rule] else enabledRules)"

text \<open>The loop over the comma-separated tokens.\<close>

lemma find_from_bounds: "Some index = find_from c s start \<Longrightarrow> start \<le> index \<and> index < length s"
  using find_from_Some(1,2) [of c s start index] by simp

function parseRuleTokens :: "string \<Rightarrow> nat \<Rightarrow> RuleId list \<Rightarrow> RuleId list option" where
  "parseRuleTokens value start enabledRules =
     (if start \<le> length value
      then
        (let comma = find_from (CHR '','') value start;
             token = (case comma of None \<Rightarrow> drop start value | Some comma \<Rightarrow> substr value start (comma - start))
         in if token = [] then None
            else
              (case parseAnalysisRule token of
                 None \<Rightarrow> None
               | Some rule \<Rightarrow>
                   (case comma of
                      None \<Rightarrow> Some (appendRuleIfMissing rule enabledRules)
                    | Some comma \<Rightarrow>
                        parseRuleTokens value (comma + 1) (appendRuleIfMissing rule enabledRules))))
      else Some enabledRules)"
  by auto
termination
  by (relation "measure (\<lambda>(value, start, enabledRules). length value + 1 - start)") 
    (auto dest!: find_from_bounds)

definition parseAnalysisRules :: "string \<Rightarrow> AnalysisOptions option" where
  "parseAnalysisRules value =
     (if value = ''all'' then Some allAvailable
      else
        (case parseRuleTokens value 0 [] of
           None \<Rightarrow> None
         | Some enabledRules \<Rightarrow>
             if enabledRules = [] then None else Some (allAvailable\<lparr>ao_enabledRules := enabledRules\<rparr>)))"

datatype FailOn = FailOn_None | FailOn_Error | FailOn_Warning

definition parseFailOn :: "string \<Rightarrow> FailOn option" where
  "parseFailOn value =
     (if value = ''none'' then Some FailOn_None
      else if value = ''error'' then Some FailOn_Error
      else if value = ''warning'' then Some FailOn_Warning
      else None)"

fun gateExitCode :: "FailOn \<Rightarrow> DiagnosticSummary \<Rightarrow> nat" where
  "gateExitCode FailOn_None summary = 0"
| "gateExitCode FailOn_Error summary = (if ds_error summary > 0 then kFindingsExitCode else 0)"
| "gateExitCode FailOn_Warning summary =
     (if ds_error summary > 0 \<or> ds_warning summary > 0 then kFindingsExitCode else 0)"

text \<open>
  \<open>std::from_chars\<close> into a \<open>std::size_t\<close>: whether it succeeded, how many characters it consumed, and the
  value, which stays as it was on failure.
\<close>

definition from_chars :: "string \<Rightarrow> nat \<Rightarrow> bool \<times> nat \<times> nat" where
  "from_chars value parsed =
     (let digits = takeWhile isdigit value
      in if digits = [] then (False, 0, parsed)
         else if digits_value digits \<ge> 2 ^ 64 then (False, length digits, parsed)
         else (True, length digits, digits_value digits))"

definition parseMaxLiveUnits :: "string \<Rightarrow> nat option" where
  "parseMaxLiveUnits value =
     (case from_chars value 0 of (ok, consumed, parsed) \<Rightarrow>
        if \<not> ok \<or> consumed \<noteq> length value \<or> parsed = 0 then None else Some parsed)"

section \<open>The arguments\<close>

record CommandLine =
  cl_request :: CompileRequest
  cl_analyze :: bool
  cl_passthroughMode :: bool
  cl_verbose :: bool
  cl_failOn :: FailOn
  cl_outputFormatExplicit :: bool
  cl_rulesExplicit :: bool
  cl_compileCommandsPath :: string
  cl_useCache :: bool
  cl_outputFormat :: OutputFormat
  cl_analysisOptions :: AnalysisOptions

definition initial_line :: CommandLine where
  "initial_line = \<lparr>cl_request = new_request, cl_analyze = False, cl_passthroughMode = False, cl_verbose = False,
     cl_failOn = FailOn_None, cl_outputFormatExplicit = False, cl_rulesExplicit = False,
     cl_compileCommandsPath = [], cl_useCache = True, cl_outputFormat = OF_Human,
     cl_analysisOptions = allAvailable\<rparr>"

text \<open>The end of the program: its exit code, what it wrote to standard output and to standard error.\<close>

record Exit =
  ex_code :: nat
  ex_out :: string
  ex_err :: string

definition refuse :: "string \<Rightarrow> Exit + 'a" where
  "refuse message = Inl \<lparr>ex_code = 1, ex_out = [], ex_err = message @ [newline]\<rparr>"

definition addCompileArg :: "string \<Rightarrow> CommandLine \<Rightarrow> CommandLine" where
  "addCompileArg arg cl =
     cl\<lparr>cl_request := (cl_request cl)\<lparr>rq_extraCompileArgs := rq_extraCompileArgs (cl_request cl) @ [arg]\<rparr>\<rparr>"

definition value_of :: "string \<Rightarrow> string \<Rightarrow> string" where
  "value_of prefix arg = drop (length prefix) arg"

definition parseArgument :: "string \<Rightarrow> string \<Rightarrow> CommandLine \<Rightarrow> Exit + CommandLine" where
  "parseArgument version arg cl =
     (if cl_passthroughMode cl then Inr (addCompileArg arg cl)
      else if arg = ''--'' then Inr (cl\<lparr>cl_passthroughMode := True\<rparr>)
      else if arg = ''-h'' \<or> arg = ''--help'' then Inl \<lparr>ex_code = 0, ex_out = printHelp, ex_err = []\<rparr>
      else if arg = ''--version''
      then Inl \<lparr>ex_code = 0, ex_out = ''coretrace_concurrency_analyzer '' @ version @ [newline], ex_err = []\<rparr>
      else if arg = ''--verbose'' then Inr (cl\<lparr>cl_verbose := True\<rparr>)
      else if arg = ''--analyze'' then Inr (cl\<lparr>cl_analyze := True\<rparr>)
      else if starts_with arg ''--ir-format=''
      then (case parseFormat (value_of ''--ir-format='' arg) of
              None \<Rightarrow> refuse (''Unsupported --ir-format value: '' @ arg)
            | Some format \<Rightarrow> Inr (cl\<lparr>cl_request := (cl_request cl)\<lparr>rq_format := format\<rparr>\<rparr>))
      else if starts_with arg ''--max-live-units=''
      then (case parseMaxLiveUnits (value_of ''--max-live-units='' arg) of
              None \<Rightarrow> refuse (''Unsupported --max-live-units value: '' @ arg @ '' (expected a positive integer)'')
            | Some parsed \<Rightarrow>
                Inr (cl\<lparr>cl_analysisOptions := (cl_analysisOptions cl)\<lparr>ao_maxLiveUnits := parsed\<rparr>\<rparr>))
      else if starts_with arg ''--fail-on=''
      then (case parseFailOn (value_of ''--fail-on='' arg) of
              None \<Rightarrow> refuse (''Unsupported --fail-on value: '' @ arg)
            | Some policy \<Rightarrow> Inr (cl\<lparr>cl_failOn := policy\<rparr>))
      else if starts_with arg ''--format=''
      then (case parseOutputFormat (value_of ''--format='' arg) of
              None \<Rightarrow> refuse (''Unsupported --format value: '' @ arg)
            | Some format \<Rightarrow> Inr (cl\<lparr>cl_outputFormat := format, cl_outputFormatExplicit := True\<rparr>))
      else if starts_with arg ''--rules=''
      then (case parseAnalysisRules (value_of ''--rules='' arg) of
              None \<Rightarrow> refuse (''Unsupported --rules value: '' @ arg)
            | Some opts \<Rightarrow> Inr (cl\<lparr>cl_analysisOptions := opts, cl_rulesExplicit := True\<rparr>))
      else if arg = ''--no-cache'' then Inr (cl\<lparr>cl_useCache := False\<rparr>)
      else if starts_with arg ''--compile-commands=''
      then (if value_of ''--compile-commands='' arg = [] then refuse ''--compile-commands requires a path''
            else Inr (cl\<lparr>cl_compileCommandsPath := value_of ''--compile-commands='' arg, cl_analyze := True\<rparr>))
      else if starts_with arg ''--compile-arg='' then Inr (addCompileArg (value_of ''--compile-arg='' arg) cl)
      else if arg = ''--instrument'' then Inr (cl\<lparr>cl_request := (cl_request cl)\<lparr>rq_instrument := True\<rparr>\<rparr>)
      else if arg \<noteq> [] \<and> hd arg = CHR ''-'' then refuse (''Unknown option: '' @ arg)
      else if rq_inputFile (cl_request cl) = []
      then Inr (cl\<lparr>cl_request := (cl_request cl)\<lparr>rq_inputFile := arg\<rparr>\<rparr>)
      else refuse (''Unexpected positional argument: '' @ arg))"

fun parseArguments :: "string \<Rightarrow> string list \<Rightarrow> CommandLine \<Rightarrow> Exit + CommandLine" where
  "parseArguments version [] cl = Inr cl"
| "parseArguments version (arg # args) cl =
     (case parseArgument version arg cl of Inl e \<Rightarrow> Inl e | Inr cl \<Rightarrow> parseArguments version args cl)"

declare parseRuleTokens.simps [simp del]

section \<open>Rules\<close>

text \<open>The rules a list of tokens names, if each names one.\<close>

definition namedRules :: "string list \<Rightarrow> RuleId list option" where
  "namedRules tokens = those (map parseAnalysisRule tokens)"

lemma parseAnalysisRule_empty [simp]: "parseAnalysisRule [] = None"
  by (simp add: parseAnalysisRule_def)

lemma namedRules_Cons:
  "namedRules (token # tokens) =
     (case parseAnalysisRule token of None \<Rightarrow> None | Some rule \<Rightarrow> map_option (\<lambda>rules. rule # rules) (namedRules tokens))"
  by (simp add: namedRules_def split: option.split)

lemma parseRuleTokens_named:
  "start \<le> length value \<Longrightarrow> parseRuleTokens value start acc =
     map_option (\<lambda>rules. fold appendRuleIfMissing rules acc) (namedRules (split_on (CHR '','') (drop start value)))"
proof (induction "length value - start" arbitrary: start acc rule: less_induct)
  case less
  show ?case
  proof (cases "find_from (CHR '','') value start")
    case None
    have "CHR '','' \<notin> set (drop start value)" using find_from_None [OF None less(2)] .
    then have "split_on (CHR '','') (drop start value) = [drop start value]" by (rule split_on_single)
    then show ?thesis
      using None less(2) parseAnalysisRule_empty
      by (cases "drop start value = []")
        (auto simp: parseRuleTokens.simps [of "value" start acc] namedRules_def split: option.split)
  next
    case (Some comma)
    note at = find_from_Some [OF Some]
    let ?token = "substr value start (comma - start)"
    have split: "split_on (CHR '','') (drop start value) = ?token # split_on (CHR '','') (drop (comma + 1) value)"
      unfolding at(3) using at(4) by (rule split_on_append)
    have "parseRuleTokens value (comma + 1) acc' =
        map_option (\<lambda>rules. fold appendRuleIfMissing rules acc') (namedRules (split_on (CHR '','') (drop (comma + 1) value)))" for acc'
      using at(1,2) by (intro less) auto
    then show ?thesis
      using Some less(2) unfolding split namedRules_Cons
      by (cases "?token = []") (auto simp: parseRuleTokens.simps [of "value" start acc] Let_def option.map_comp comp_def split: option.split)
  qed
qed

lemma fold_appendRule: "fold appendRuleIfMissing rules [] = rev (remdups (rev rules))"
proof (induction rules rule: rev_induct)
  case (snoc rule rules)
  then show ?case by (simp add: appendRuleIfMissing_def)
qed simp

lemma namedRules_none: "namedRules tokens = Some [] \<Longrightarrow> tokens = []"
  by (cases tokens) (auto simp: namedRules_Cons split: option.splits)

text \<open>
  A rule selection is accepted exactly when each comma-separated token names a rule, and enables the
  named rules in their order, each once; \<open>all\<close> enables every rule of the tool.
\<close>
theorem rule_selection:
  "parseAnalysisRules value =
     (if value = ''all'' then Some allAvailable
      else map_option (\<lambda>rules. allAvailable\<lparr>ao_enabledRules := rev (remdups (rev rules))\<rparr>)
             (namedRules (split_on (CHR '','') value)))"
proof (cases "namedRules (split_on (CHR '','') value)")
  case (Some rules)
  then have "rules \<noteq> []" using namedRules_none [of "split_on (CHR '','') value"] by auto
  then have "rev (remdups (rev rules)) \<noteq> []" by simp
  then show ?thesis using Some parseRuleTokens_named [of 0 "value" "[]"] by (simp add: parseAnalysisRules_def fold_appendRule)
qed (use parseRuleTokens_named [of 0 "value" "[]"] in \<open>simp add: parseAnalysisRules_def\<close>)

lemma label_read_back: "rule \<noteq> CompilerDiagnostic \<Longrightarrow> parseAnalysisRule (ruleOptionLabel rule) = Some rule"
  by (cases rule) (simp_all add: parseAnalysisRule_def)

lemma label_plain: "CHR '','' \<notin> set (ruleOptionLabel rule)"
  by (cases rule) simp_all

text \<open>
  The labels printed for a list of rules, joined by commas, select these rules.
\<close>
theorem rule_labels_read_back:
  assumes "rules \<noteq> []" "CompilerDiagnostic \<notin> set rules"
  shows "parseAnalysisRules (join_with '','' (map ruleOptionLabel rules)) =
    Some (allAvailable\<lparr>ao_enabledRules := rev (remdups (rev rules))\<rparr>)"
proof -
  have split: "split_on (CHR '','') (join_with '','' (map ruleOptionLabel rules)) = map ruleOptionLabel rules"
    using assms(1) label_plain by (intro split_on_join) auto
  have named: "namedRules (map ruleOptionLabel rules) = Some rules"
    using assms(2) by (induction rules) (auto simp: namedRules_Cons label_read_back, simp add: namedRules_def)
  have "join_with '','' (map ruleOptionLabel rules) \<noteq> ''all''"
  proof
    assume "join_with '','' (map ruleOptionLabel rules) = ''all''"
    then have "namedRules (split_on (CHR '','') ''all'') = Some rules" using split named by simp
    then show False by (simp add: namedRules_def parseAnalysisRule_def)
  qed
  moreover have "parseRuleTokens (join_with '','' (map ruleOptionLabel rules)) 0 [] = Some (rev (remdups (rev rules)))"
    using parseRuleTokens_named [of 0] split named by (simp add: fold_appendRule)
  ultimately show ?thesis using assms(1) by (simp add: parseAnalysisRules_def)
qed

theorem rule_labels_read_back_witness:
  "parseAnalysisRules (join_with '','' (map ruleOptionLabel [MissingJoin, DataRaceGlobal])) =
     Some (allAvailable\<lparr>ao_enabledRules := [MissingJoin, DataRaceGlobal]\<rparr>)"
  using rule_labels_read_back [of "[MissingJoin, DataRaceGlobal]"] by simp

section \<open>Numbers\<close>

lemma parseMaxLiveUnits_digits:
  assumes "list_all isdigit value"
  shows "parseMaxLiveUnits value =
    (if value \<noteq> [] \<and> 0 < digits_value value \<and> digits_value value < 2 ^ 64 then Some (digits_value value) else None)"
proof -
  have all: "takeWhile isdigit value = value" using assms by (simp only: takeWhile_eq_all_conv list_all_iff)
  show ?thesis unfolding parseMaxLiveUnits_def from_chars_def Let_def all by (auto simp: linorder_not_le)
qed

text \<open>
  A bound on the live units is accepted exactly when it is written in decimal digits only, is not
  zero and fits a 64-bit \<open>size_t\<close>; an accepted one has the value written.
\<close>
theorem max_live_units_value:
  "parseMaxLiveUnits value =
     (if value \<noteq> [] \<and> list_all isdigit value \<and> 0 < digits_value value \<and> digits_value value < 2 ^ 64
      then Some (digits_value value) else None)"
proof (cases "list_all isdigit value")
  case False
  then have "takeWhile isdigit value \<noteq> value" by (metis list_all_iff set_takeWhileD)
  then have "length (takeWhile isdigit value) \<noteq> length value"
    by (metis takeWhile_eq_take take_all order_refl)
  then show ?thesis using False unfolding parseMaxLiveUnits_def from_chars_def Let_def by auto
qed (simp add: parseMaxLiveUnits_digits)

section \<open>Arguments after the separator\<close>

lemma passthrough_arguments:
  "cl_passthroughMode cl \<Longrightarrow> parseArguments version args cl = Inr (fold addCompileArg args cl)"
  by (induction args arbitrary: cl) (simp_all add: parseArgument_def addCompileArg_def)

text \<open>
  Every argument after \<open>--\<close> is forwarded to the compiler as it is, in its order, whatever it looks
  like; none of them changes an option of the tool.
\<close>
theorem separator_forwards_arguments:
  assumes "\<not> cl_passthroughMode cl"
  shows "parseArguments version (''--'' # args) cl = Inr (cl\<lparr>cl_passthroughMode := True,
    cl_request := (cl_request cl)\<lparr>rq_extraCompileArgs := rq_extraCompileArgs (cl_request cl) @ args\<rparr>\<rparr>)"
proof -
  have "fold addCompileArg args c = c\<lparr>cl_request := (cl_request c)\<lparr>rq_extraCompileArgs := rq_extraCompileArgs (cl_request c) @ args\<rparr>\<rparr>"
    for c by (induction args arbitrary: c) (simp_all add: addCompileArg_def)
  then show ?thesis
    using assms passthrough_arguments [of "cl\<lparr>cl_passthroughMode := True\<rparr>" version args] by (simp add: parseArgument_def)
qed

theorem separator_forwards_arguments_witness:
  "parseArguments [] [''--'', ''--help''] initial_line = Inr (initial_line\<lparr>cl_passthroughMode := True,
    cl_request := new_request\<lparr>rq_extraCompileArgs := [''--help'']\<rparr>\<rparr>)"
  using separator_forwards_arguments [of initial_line "[]" "[''--help'']"] by (simp add: initial_line_def new_request_def)

text \<open>
  Selecting rules replaces all analysis options: a bound on the live units given before is lost, one
  given after is kept.
\<close>

lemma rules_reset_live_units:
  "map_option (\<lambda>cl. ao_maxLiveUnits (cl_analysisOptions cl))
     (case parseArguments [] [''--max-live-units=2'', ''--rules=all''] initial_line of Inl _ \<Rightarrow> None | Inr cl \<Rightarrow> Some cl) = Some 0"
  "map_option (\<lambda>cl. ao_maxLiveUnits (cl_analysisOptions cl))
     (case parseArguments [] [''--rules=all'', ''--max-live-units=2''] initial_line of Inl _ \<Rightarrow> None | Inr cl \<Rightarrow> Some cl) = Some 2"
proof -
  have live: "parseArgument [] ''--max-live-units=2'' cl =
      Inr (cl\<lparr>cl_analysisOptions := (cl_analysisOptions cl)\<lparr>ao_maxLiveUnits := 2\<rparr>\<rparr>)"
    and rules: "parseArgument [] ''--rules=all'' cl = Inr (cl\<lparr>cl_analysisOptions := allAvailable, cl_rulesExplicit := True\<rparr>)"
    if "\<not> cl_passthroughMode cl" for cl
    using that parseMaxLiveUnits_digits [of "''2''"]
    by (simp_all add: parseArgument_def starts_with_def value_of_def parseAnalysisRules_def isdigit_def digits_value_def
        digit_value_def)
  show "map_option (\<lambda>cl. ao_maxLiveUnits (cl_analysisOptions cl))
     (case parseArguments [] [''--max-live-units=2'', ''--rules=all''] initial_line of Inl _ \<Rightarrow> None | Inr cl \<Rightarrow> Some cl) = Some 0"
    "map_option (\<lambda>cl. ao_maxLiveUnits (cl_analysisOptions cl))
     (case parseArguments [] [''--rules=all'', ''--max-live-units=2''] initial_line of Inl _ \<Rightarrow> None | Inr cl \<Rightarrow> Some cl) = Some 2"
    by (simp_all add: live rules initial_line_def allAvailable_def)
qed

end
