(* ===== verification/Report_Renderer.thy ===== *)
theory Report_Renderer
  imports Report_Builder Text
begin

text \<open>
  The rendering of a report (\<open>reporting/report_renderer.cpp\<close>): the text for a reader, the JSON document
  and the SARIF log. JSON values are a datatype, with objects as lists of members in the order they
  were inserted; printing a value, the MD5 digest and \<open>std::filesystem::relative\<close> are the record
  \<open>Renderer\<close>. Strings are taken to be valid UTF-8, which \<open>llvm::json\<close> keeps as they are; it replaces bytes that are not,
  and the datatype does not.
\<close>

record RenderContext =
  rc_toolName :: string
  rc_inputFile :: string
  rc_mode :: string
  rc_analysisTimeMs :: int
  rc_sourceRoot :: string

datatype json =
    JNull
  | JBool bool
  | JInt int
  | JString string
  | JArray "json list"
  | JObject "(string \<times> json) list"

text \<open>\<open>relative\<close> gives \<^const>\<open>None\<close> when it sets an error.\<close>

record Renderer =
  rd_print :: "json \<Rightarrow> string"
  rd_md5 :: "string \<Rightarrow> string"
  rd_relative :: "string \<Rightarrow> string \<Rightarrow> string option"

text \<open>Inserting keeps a member that is there, assigning replaces it.\<close>

definition obj_insert :: "string \<times> json \<Rightarrow> (string \<times> json) list \<Rightarrow> (string \<times> json) list" where
  "obj_insert member members = (if fst member \<in> fst ` set members then members else members @ [member])"

definition obj_assign :: "string \<times> json \<Rightarrow> (string \<times> json) list \<Rightarrow> (string \<times> json) list" where
  "obj_assign member members =
     (if fst member \<in> fst ` set members
      then map (\<lambda>m. if fst m = fst member then member else m) members else members @ [member])"

section \<open>Names\<close>

fun severityUpper :: "Severity \<Rightarrow> string" where
  "severityUpper Sev_Info = ''INFO''"
| "severityUpper Sev_Warning = ''WARNING''"
| "severityUpper Sev_Error = ''ERROR''"

fun severityTitle :: "Severity \<Rightarrow> string" where
  "severityTitle Sev_Info = ''Info''"
| "severityTitle Sev_Warning = ''Warning''"
| "severityTitle Sev_Error = ''Error''"

fun confidenceUpper :: "ConfidenceLevel \<Rightarrow> string" where
  "confidenceUpper Conf_Low = ''LOW''"
| "confidenceUpper Conf_Medium = ''MEDIUM''"
| "confidenceUpper Conf_High = ''HIGH''"

fun sarifLevel :: "Severity \<Rightarrow> string" where
  "sarifLevel Sev_Info = ''note''"
| "sarifLevel Sev_Warning = ''warning''"
| "sarifLevel Sev_Error = ''error''"

definition propertyString :: "Diagnostic \<Rightarrow> string \<Rightarrow> string option" where
  "propertyString d key =
     (case map_of (d_properties d) key of Some (PropString value) \<Rightarrow> Some value | _ \<Rightarrow> None)"

definition effectiveFile :: "SourceLocation \<Rightarrow> RenderContext \<Rightarrow> string" where
  "effectiveFile location context = (if sl_file location \<noteq> [] then sl_file location else rc_inputFile context)"

definition formatLocationHeader :: "SourceLocation \<Rightarrow> RenderContext \<Rightarrow> string" where
  "formatLocationHeader location context =
     (let file = effectiveFile location context
      in if sl_line location \<noteq> 0 \<and> file \<noteq> []
         then file @ '':'' @ to_string_nat (sl_line location) @ '':'' @ to_string_nat (sl_column location)
         else if file \<noteq> [] then file
         else ''<unknown-location>'')"

definition formatDetailedLocation :: "SourceLocation \<Rightarrow> RenderContext \<Rightarrow> string" where
  "formatDetailedLocation location context =
     formatLocationHeader location context @
     (if sl_function location \<noteq> [] then '' in '' @ sl_function location else [])"

text \<open>The arrow before a note is one character of three bytes in UTF-8.\<close>

definition noteArrow :: string where
  "noteArrow = [CHR 0xE2, CHR 0x86, CHR 0xB3]"

abbreviation tab :: char where
  "tab \<equiv> CHR 0x09"

definition renderDiagnosticBody :: "Diagnostic \<Rightarrow> string" where
  "renderDiagnosticBody d =
     ''[!!!'' @ severityTitle (d_severity d) @ ''] '' @ d_message d @
     concat (map (\<lambda>note. [newline, tab] @ ''     '' @ noteArrow @ '' '' @ note) (d_notes d)) @ [newline]"

definition firstCweIdentifier :: "Diagnostic \<Rightarrow> string option" where
  "firstCweIdentifier d =
     map_option (\<lambda>taxonomy. tx_scheme taxonomy @ ''-'' @ tx_id taxonomy)
       (find (\<lambda>taxonomy. tx_scheme taxonomy = ''CWE'') (d_taxonomies d))"

definition primaryCweIdentifier :: "RuleId \<Rightarrow> string option" where
  "primaryCweIdentifier ruleId =
     (case rm_primaryTaxonomy (lookupRuleMetadata ruleId) of
        Some taxonomy \<Rightarrow> if tx_scheme taxonomy = ''CWE'' then Some (tx_scheme taxonomy @ ''-'' @ tx_id taxonomy) else None
      | None \<Rightarrow> None)"

section \<open>JSON values\<close>

fun toJsonValue :: "DiagnosticPropertyValue \<Rightarrow> json" where
  "toJsonValue (PropBool value) = JBool value"
| "toJsonValue (PropInt value) = JInt value"
| "toJsonValue (PropString value) = JString value"
| "toJsonValue (PropStrings items) = JArray (map JString items)"

abbreviation JNat :: "nat \<Rightarrow> json" where
  "JNat n \<equiv> JInt (int n)"

definition endLineOf :: "SourceLocation \<Rightarrow> nat" where
  "endLineOf location = (if sl_endLine location = 0 then sl_line location else sl_endLine location)"

definition endColumnOf :: "SourceLocation \<Rightarrow> nat" where
  "endColumnOf location = (if sl_endColumn location = 0 then sl_column location else sl_endColumn location)"

definition toJsonLocation :: "SourceLocation \<Rightarrow> RenderContext \<Rightarrow> json" where
  "toJsonLocation location context =
     JObject [(''file'', JString (effectiveFile location context)),
              (''function'', JString (sl_function location)),
              (''startLine'', JNat (sl_line location)),
              (''startColumn'', JNat (sl_column location)),
              (''endLine'', JNat (endLineOf location)),
              (''endColumn'', JNat (endColumnOf location))]"

definition uriOf :: "Renderer \<Rightarrow> SourceLocation \<Rightarrow> RenderContext \<Rightarrow> string" where
  "uriOf rd location context =
     (let file = effectiveFile location context
      in if file = [] then []
         else if rc_sourceRoot context \<noteq> []
         then (case rd_relative rd file (rc_sourceRoot context) of
                 Some relative \<Rightarrow> if relative \<noteq> [] then relative else file
               | None \<Rightarrow> file)
         else file)"

definition toSarifLocation :: "Renderer \<Rightarrow> SourceLocation \<Rightarrow> RenderContext \<Rightarrow> (string \<times> json) list" where
  "toSarifLocation rd location context =
     (let artifact = JObject [(''uri'', JString (uriOf rd location context))];
          region = (if sl_line location \<noteq> 0
                    then [(''startLine'', JNat (sl_line location)), (''startColumn'', JNat (sl_column location)),
                          (''endLine'', JNat (endLineOf location)), (''endColumn'', JNat (endColumnOf location))]
                    else []);
          physical = [(''artifactLocation'', artifact)];
          physical = (if region \<noteq> [] then obj_insert (''region'', JObject region) physical else physical);
          object = [(''physicalLocation'', JObject physical)]
      in if sl_function location \<noteq> []
         then obj_insert (''logicalLocations'',
                JArray [JObject [(''name'', JString (sl_function location)), (''kind'', JString ''function'')]]) object
         else object)"

definition fingerprintFor :: "Renderer \<Rightarrow> Diagnostic \<Rightarrow> RenderContext \<Rightarrow> string" where
  "fingerprintFor rd d context =
     (let symbol = (case propertyString d ''symbol'' of Some symbol \<Rightarrow> symbol | None \<Rightarrow> [])
      in rd_md5 rd (rule_name (d_ruleId d) @ effectiveFile (d_location d) context @
           to_string_nat (sl_line (d_location d)) @ to_string_nat (sl_column (d_location d)) @ symbol))"

section \<open>The text\<close>

definition humanDiagnostic :: "RenderContext \<Rightarrow> Diagnostic \<Rightarrow> string" where
  "humanDiagnostic context d =
     (let location = d_location d; body = renderDiagnosticBody d
      in (if sl_function location \<noteq> [] then [newline] @ ''Function: '' @ sl_function location @ [newline]
          else [newline] @ ''Location: '' @ formatLocationHeader location context @ [newline]) @
         [tab] @ ''severity: '' @ severityUpper (d_severity d) @ [newline] @
         [tab] @ ''ruleId: '' @ rule_name (d_ruleId d) @ [newline] @
         (case firstCweIdentifier d of Some weakness \<Rightarrow> [tab] @ ''cwe: '' @ weakness @ [newline] | None \<Rightarrow> []) @
         (case propertyString d ''symbol'' of Some symbol \<Rightarrow> [tab] @ ''symbol: '' @ symbol @ [newline] | None \<Rightarrow> []) @
         (if sl_line location \<noteq> 0
          then [tab] @ ''at line '' @ to_string_nat (sl_line location) @ '', column '' @
               to_string_nat (sl_column location) @ [newline]
          else if effectiveFile location context \<noteq> []
          then [tab] @ ''at '' @ effectiveFile location context @ '' (line unavailable)'' @ [newline]
          else [tab] @ ''at source location unavailable'' @ [newline]) @
         (if body \<noteq> [] \<and> last body = newline then [tab] @ take (length body - 1) body @ [newline]
          else [tab] @ body @ [newline]) @
         concat (map (\<lambda>related. [tab] @ ''related: '' @ rl_label related @ '' -> '' @
           formatDetailedLocation (rl_location related) context @ [newline]) (d_relatedLocations d)))"

definition humanNotice :: "AnalysisNotice \<Rightarrow> string" where
  "humanNotice notice =
     [newline] @ ''Notice: '' @ an_id notice @ [newline] @
     [tab] @ ''ruleId: '' @ rule_name (an_ruleId notice) @ [newline] @
     [tab] @ an_message notice @ [newline]"

definition renderHuman :: "DiagnosticReport \<Rightarrow> RenderContext \<Rightarrow> string" where
  "renderHuman report context =
     ''Mode: '' @ rc_mode context @ [newline] @
     concat (map (humanDiagnostic context) (rp_diagnostics report)) @
     concat (map humanNotice (rp_notices report)) @
     [newline] @ ''Diagnostics summary: info='' @ to_string_nat (ds_info (rp_diagnosticsSummary report)) @
     '', warning='' @ to_string_nat (ds_warning (rp_diagnosticsSummary report)) @
     '', error='' @ to_string_nat (ds_error (rp_diagnosticsSummary report)) @ [newline]"

section \<open>The JSON document\<close>

text \<open>
  When the accesses were computed, a summary has all three counts (\<open>counts_together\<close>); when they were not, a
  unit has no access to count.
\<close>

definition jsonFunction :: "RenderContext \<Rightarrow> FunctionSummary \<Rightarrow> json" where
  "jsonFunction context function =
     (let entry = [(''file'', JString (if fs_file function = [] then rc_inputFile context else fs_file function)),
                   (''name'', JString (fs_name function)),
                   (''threadReachable'', JBool (fs_threadReachable function)),
                   (''threadEntries'', JArray (map JString (fs_threadEntries function))),
                   (''hasDiagnostics'', JBool (fs_hasDiagnostics function))]
      in JObject
           (case fs_sharedAccessCount function of
              None \<Rightarrow> entry
            | Some shared \<Rightarrow>
                obj_assign (''writeAccessCount'', JNat (the (fs_writeAccessCount function)))
                  (obj_assign (''protectedAccessCount'', JNat (the (fs_protectedAccessCount function)))
                    (obj_assign (''sharedAccessCount'', JNat shared) entry))))"

definition jsonProperties :: "Diagnostic \<Rightarrow> (string \<times> json) list" where
  "jsonProperties d = fold (\<lambda>(key, value). obj_insert (key, toJsonValue value)) (d_properties d) []"

definition jsonDetails :: "RenderContext \<Rightarrow> Diagnostic \<Rightarrow> json" where
  "jsonDetails context d =
     JObject [(''message'', JString (d_message d)), (''notes'', JArray (map JString (d_notes d))),
              (''properties'', JObject (jsonProperties d))]"

definition jsonRelated :: "RenderContext \<Rightarrow> RelatedLocation \<Rightarrow> json" where
  "jsonRelated context related =
     JObject [(''label'', JString (rl_label related)), (''location'', toJsonLocation (rl_location related) context)]"

definition jsonDiagnostic :: "RenderContext \<Rightarrow> Diagnostic \<Rightarrow> json" where
  "jsonDiagnostic context d =
     JObject [(''id'', JString (d_id d)),
              (''severity'', JString (severityUpper (d_severity d))),
              (''ruleId'', JString (rule_name (d_ruleId d))),
              (''confidence'', case d_confidence d of None \<Rightarrow> JNull | Some confidence \<Rightarrow> JString (confidenceUpper confidence)),
              (''cwe'', case firstCweIdentifier d of None \<Rightarrow> JNull | Some weakness \<Rightarrow> JString weakness),
              (''location'', toJsonLocation (d_location d) context),
              (''relatedLocations'', JArray (map (jsonRelated context) (d_relatedLocations d))),
              (''details'', jsonDetails context d)]"

definition jsonNotice :: "AnalysisNotice \<Rightarrow> json" where
  "jsonNotice notice =
     JObject [(''id'', JString (an_id notice)), (''ruleId'', JString (rule_name (an_ruleId notice))),
              (''message'', JString (an_message notice))]"

definition renderJsonValue :: "DiagnosticReport \<Rightarrow> RenderContext \<Rightarrow> json" where
  "renderJsonValue report context =
     (let document =
            [(''meta'', JObject [(''tool'', JString (rc_toolName context)), (''inputFile'', JString (rc_inputFile context)),
                (''mode'', JString (rc_mode context)), (''analysisTimeMs'', JInt (rc_analysisTimeMs context))]),
             (''functions'', JArray (map (jsonFunction context) (rp_functions report))),
             (''diagnostics'', JArray (map (jsonDiagnostic context) (rp_diagnostics report))),
             (''diagnosticsSummary'', JObject
                [(''info'', JNat (ds_info (rp_diagnosticsSummary report))),
                 (''warning'', JNat (ds_warning (rp_diagnosticsSummary report))),
                 (''error'', JNat (ds_error (rp_diagnosticsSummary report)))])]
      in JObject
           (if rp_notices report \<noteq> []
            then obj_assign (''notices'', JArray (map jsonNotice (rp_notices report))) document else document))"

definition renderJson :: "Renderer \<Rightarrow> DiagnosticReport \<Rightarrow> RenderContext \<Rightarrow> string" where
  "renderJson rd report context = rd_print rd (renderJsonValue report context)"

section \<open>The SARIF log\<close>

definition sarifRule :: "RuleId \<Rightarrow> string option \<Rightarrow> json" where
  "sarifRule ruleId weakness =
     (let metadata = lookupRuleMetadata ruleId
      in JObject [(''id'', JString (rule_name (rm_ruleId metadata))),
                  (''name'', JString (rule_name (rm_ruleId metadata))),
                  (''shortDescription'', JObject [(''text'', JString (rm_title metadata))]),
                  (''fullDescription'', JObject [(''text'', JString (rm_shortDescription metadata))]),
                  (''defaultConfiguration'', JObject [(''level'', JString (sarifLevel (rm_defaultSeverity metadata)))]),
                  (''properties'', JObject [(''tags'', JArray
                     ([JString ''concurrency''] @ (case weakness of Some weakness \<Rightarrow> [JString weakness] | None \<Rightarrow> [])))])])"

definition sarifDescribeRule :: "RuleId \<times> string option \<Rightarrow> RuleId set \<times> json list \<Rightarrow> RuleId set \<times> json list" where
  "sarifDescribeRule rule st =
     (let (ruleId, weakness) = rule; (emitted_rules, rules) = st
      in if ruleId \<in> emitted_rules then st
         else (insert ruleId emitted_rules, rules @ [sarifRule ruleId weakness]))"

definition sarifRules :: "DiagnosticReport \<Rightarrow> json list" where
  "sarifRules report =
     snd (fold sarifDescribeRule
       (map (\<lambda>d. (d_ruleId d, firstCweIdentifier d)) (rp_diagnostics report) @
        map (\<lambda>notice. (an_ruleId notice, primaryCweIdentifier (an_ruleId notice))) (rp_notices report)) ({}, []))"

definition sarifResultProperties :: "Diagnostic \<Rightarrow> (string \<times> json) list" where
  "sarifResultProperties d =
     (let props = (case d_confidence d of
                     Some confidence \<Rightarrow> obj_insert (''confidence'', JString (confidenceUpper confidence)) []
                   | None \<Rightarrow> []);
          props = (if jsonProperties d \<noteq> []
                   then obj_insert (''coretraceDiagnosticProperties'', JObject (jsonProperties d)) props else props)
      in if d_notes d \<noteq> [] then obj_insert (''notes'', JArray (map JString (d_notes d))) props else props)"

definition sarifRelated :: "Renderer \<Rightarrow> RenderContext \<Rightarrow> RelatedLocation \<Rightarrow> json" where
  "sarifRelated rd context related =
     JObject (obj_insert (''message'', JObject [(''text'', JString (rl_label related))])
       (toSarifLocation rd (rl_location related) context))"

definition sarifResult :: "Renderer \<Rightarrow> RenderContext \<Rightarrow> Diagnostic \<Rightarrow> json" where
  "sarifResult rd context d =
     JObject [(''ruleId'', JString (rule_name (d_ruleId d))),
              (''level'', JString (sarifLevel (d_severity d))),
              (''message'', JObject [(''text'', JString (d_message d))]),
              (''locations'', JArray [JObject (toSarifLocation rd (d_location d) context)]),
              (''relatedLocations'', JArray (map (sarifRelated rd context) (d_relatedLocations d))),
              (''partialFingerprints'', JObject [(''primaryLocationLineHash'', JString (fingerprintFor rd d context))]),
              (''properties'', JObject (sarifResultProperties d))]"

definition sarifDescriptor :: "AnalysisNotice \<Rightarrow> string set \<times> json list \<Rightarrow> string set \<times> json list" where
  "sarifDescriptor notice st =
     (let (described_notices, descriptors) = st
      in if an_id notice \<in> described_notices then st
         else (insert (an_id notice) described_notices, descriptors @ [JObject [(''id'', JString (an_id notice))]]))"

definition sarifNotification :: "AnalysisNotice \<Rightarrow> json" where
  "sarifNotification notice =
     JObject [(''descriptor'', JObject [(''id'', JString (an_id notice))]),
              (''associatedRule'', JObject [(''id'', JString (rule_name (an_ruleId notice)))]),
              (''level'', JString ''warning''),
              (''message'', JObject [(''text'', JString (an_message notice))])]"

definition sarifDocument :: "Renderer \<Rightarrow> DiagnosticReport \<Rightarrow> RenderContext \<Rightarrow> json" where
  "sarifDocument rd report context =
     (let driver = [(''name'', JString (rc_toolName context)), (''rules'', JArray (sarifRules report))];
          run = [];
          run = (if rp_notices report \<noteq> []
                 then obj_insert (''invocations'', JArray [JObject
                        [(''executionSuccessful'', JBool True),
                         (''toolExecutionNotifications'', JArray (map sarifNotification (rp_notices report)))]]) run
                 else run);
          driver = (if rp_notices report \<noteq> []
                    then obj_insert (''notifications'', JArray (snd (fold sarifDescriptor (rp_notices report) ({}, [])))) driver
                    else driver);
          run = obj_insert (''tool'', JObject [(''driver'', JObject driver)]) run;
          run = obj_insert (''results'', JArray (map (sarifResult rd context) (rp_diagnostics report))) run
      in JObject [(''version'', JString ''2.1.0''),
                  (''$schema'', JString ''https://schemastore.azurewebsites.net/schemas/json/sarif-2.1.0-rtm.5.json''),
                  (''runs'', JArray [JObject run])])"

definition renderSarif :: "Renderer \<Rightarrow> DiagnosticReport \<Rightarrow> RenderContext \<Rightarrow> string" where
  "renderSarif rd report context = rd_print rd (sarifDocument rd report context)"

fun renderReport :: "Renderer \<Rightarrow> DiagnosticReport \<Rightarrow> RenderContext \<Rightarrow> OutputFormat \<Rightarrow> string" where
  "renderReport rd report context OF_Human = renderHuman report context"
| "renderReport rd report context OF_Json = renderJson rd report context"
| "renderReport rd report context OF_Sarif = renderSarif rd report context"

section \<open>What the SARIF log refers to\<close>

text \<open>Members and elements of a value; what is not there is no member and no element.\<close>

definition get :: "string \<Rightarrow> json \<Rightarrow> json" where
  "get key v = (case v of JObject members \<Rightarrow> (case map_of members key of Some m \<Rightarrow> m | None \<Rightarrow> JNull) | _ \<Rightarrow> JNull)"

definition elements :: "json \<Rightarrow> json list" where
  "elements v = (case v of JArray vs \<Rightarrow> vs | _ \<Rightarrow> [])"

definition sarifRun :: "json \<Rightarrow> json" where
  "sarifRun document = (case elements (get ''runs'' document) of run # _ \<Rightarrow> run | [] \<Rightarrow> JNull)"

definition sarifDriver :: "json \<Rightarrow> json" where
  "sarifDriver document = get ''driver'' (get ''tool'' (sarifRun document))"

definition describedRules :: "json \<Rightarrow> json list" where
  "describedRules document = map (get ''id'') (elements (get ''rules'' (sarifDriver document)))"

definition describedNotices :: "json \<Rightarrow> json list" where
  "describedNotices document = map (get ''id'') (elements (get ''notifications'' (sarifDriver document)))"

definition sarifResults :: "json \<Rightarrow> json list" where
  "sarifResults document = elements (get ''results'' (sarifRun document))"

definition sarifNotifications :: "json \<Rightarrow> json list" where
  "sarifNotifications document =
     concat (map (\<lambda>invocation. elements (get ''toolExecutionNotifications'' invocation))
       (elements (get ''invocations'' (sarifRun document))))"

text \<open>A loop that emits something for each key it meets, the first time only.\<close>

definition emit_once :: "('a \<Rightarrow> 'k) \<Rightarrow> ('a \<Rightarrow> 'b) \<Rightarrow> 'a \<Rightarrow> 'k set \<times> 'b list \<Rightarrow> 'k set \<times> 'b list" where
  "emit_once key f x st = (if key x \<in> fst st then st else (insert (key x) (fst st), snd st @ [f x]))"

lemma emit_once_fold:
  assumes "\<And>x. g (f x) = h (key x)" "inj h"
  shows "set (map g (snd (fold (emit_once key f) xs ({}, [])))) = h ` key ` set xs \<and>
    distinct (map g (snd (fold (emit_once key f) xs ({}, []))))"
proof -
  have "fst (fold (emit_once key f) xs ({}, [])) = key ` set xs \<and>
    set (map g (snd (fold (emit_once key f) xs ({}, [])))) = h ` key ` set xs \<and>
    distinct (map g (snd (fold (emit_once key f) xs ({}, []))))"
  proof (induction xs rule: rev_induct)
    case (snoc x xs)
    then show ?case by (auto simp: emit_once_def assms(1) inj_eq [OF assms(2)] simp del: set_map)
  qed simp
  then show ?thesis by blast
qed

lemma sarifDescribeRule_once: "sarifDescribeRule = emit_once fst (\<lambda>(ruleId, weakness). sarifRule ruleId weakness)"
  by (auto simp: fun_eq_iff sarifDescribeRule_def emit_once_def split: prod.split)

lemma sarifDescriptor_once: "sarifDescriptor = emit_once an_id (\<lambda>notice. JObject [(''id'', JString (an_id notice))])"
  by (auto simp: fun_eq_iff sarifDescriptor_def emit_once_def split: prod.split)

lemma metadata_rule [simp]: "rm_ruleId (lookupRuleMetadata r) = r"
  by (cases r) simp_all

lemma rule_name_inject [simp]: "rule_name a = rule_name b \<longleftrightarrow> a = b"
  by (cases a; cases b) simp_all

lemma sarifRules_ids:
  "set (map (get ''id'') (sarifRules report)) =
     JString ` rule_name ` (d_ruleId ` set (rp_diagnostics report) \<union> an_ruleId ` set (rp_notices report)) \<and>
   distinct (map (get ''id'') (sarifRules report))"
proof -
  have "get ''id'' (case rule of (ruleId, weakness) \<Rightarrow> sarifRule ruleId weakness) = (JString \<circ> rule_name) (fst rule)" for rule
    by (simp add: get_def sarifRule_def Let_def split: prod.split)
  note once = emit_once_fold [of "get ''id''" _ "JString \<circ> rule_name" fst, OF this]
  have "inj (JString \<circ> rule_name)" by (auto simp: inj_on_def)
  from once [OF this] show ?thesis
    unfolding sarifRules_def sarifDescribeRule_once by (simp add: image_image image_Un del: fold_append)
qed

lemma sarifDescriptors_ids:
  "set (map (get ''id'') (snd (fold sarifDescriptor notices ({}, [])))) = JString ` an_id ` set notices \<and>
   distinct (map (get ''id'') (snd (fold sarifDescriptor notices ({}, []))))"
  unfolding sarifDescriptor_once by (rule emit_once_fold) (simp_all add: get_def inj_on_def)

lemma sarif_parts:
  "sarifResults (sarifDocument rd report context) = map (sarifResult rd context) (rp_diagnostics report)"
  "describedRules (sarifDocument rd report context) = map (get ''id'') (sarifRules report)"
  "sarifNotifications (sarifDocument rd report context) = map sarifNotification (rp_notices report)"
  "describedNotices (sarifDocument rd report context) =
     map (get ''id'') (snd (fold sarifDescriptor (rp_notices report) ({}, [])))"
  by (simp_all add: sarifResults_def describedRules_def sarifNotifications_def describedNotices_def sarifDriver_def
      sarifRun_def sarifDocument_def Let_def get_def elements_def obj_insert_def)

text \<open>
  C39: Every reference inside a SARIF log resolves: the rules described are exactly those its results and its
  notifications name, each described once, and the notifications described are exactly those it
  holds, each once; it has one result for each diagnostic of the report, in their order.
\<close>
theorem sarif_references_resolve:
  fixes report rd ctx
  defines "log \<equiv> sarifDocument rd report ctx"
  shows "set (describedRules log) =
      set (map (get ''ruleId'') (sarifResults log)) \<union>
      set (map (\<lambda>n. get ''id'' (get ''associatedRule'' n)) (sarifNotifications log)) \<and>
    distinct (describedRules log) \<and>
    set (describedNotices log) = set (map (\<lambda>n. get ''id'' (get ''descriptor'' n)) (sarifNotifications log)) \<and>
    distinct (describedNotices log) \<and>
    map (get ''message'') (sarifResults log) =
      map (\<lambda>d. JObject [(''text'', JString (d_message d))]) (rp_diagnostics report)"
proof -
  have result: "get ''ruleId'' (sarifResult rd ctx d) = JString (rule_name (d_ruleId d))"
    "get ''message'' (sarifResult rd ctx d) = JObject [(''text'', JString (d_message d))]" for d
    by (simp_all add: sarifResult_def get_def)
  have notification: "get ''id'' (get ''associatedRule'' (sarifNotification n)) = JString (rule_name (an_ruleId n))"
    "get ''id'' (get ''descriptor'' (sarifNotification n)) = JString (an_id n)" for n
    by (simp_all add: sarifNotification_def get_def)
  show ?thesis
    unfolding log_def sarif_parts list.map_comp comp_def result notification
    using sarifRules_ids [of report] sarifDescriptors_ids [of "rp_notices report"]
    by (simp add: image_image image_Un)
qed

section \<open>The JSON document read back\<close>

text \<open>A reader of the document that knows nothing but the names of its members and the words for severities, confidence levels and rules.\<close>

fun asString :: "json \<Rightarrow> string" where
  "asString (JString s) = s"
| "asString _ = []"

fun asNat :: "json \<Rightarrow> nat" where
  "asNat (JInt n) = nat n"
| "asNat _ = 0"

definition asNatOption :: "json \<Rightarrow> nat option" where
  "asNatOption v = (if v = JNull then None else Some (asNat v))"

definition readSeverity :: "string \<Rightarrow> Severity" where
  "readSeverity s = the (map_of [(''INFO'', Sev_Info), (''WARNING'', Sev_Warning), (''ERROR'', Sev_Error)] s)"

definition readConfidence :: "string \<Rightarrow> ConfidenceLevel option" where
  "readConfidence s = map_of [(''LOW'', Conf_Low), (''MEDIUM'', Conf_Medium), (''HIGH'', Conf_High)] s"

definition readRule :: "string \<Rightarrow> RuleId" where
  "readRule s =
     the (map_of
       [(''CompilerDiagnostic'', CompilerDiagnostic), (''DataRaceGlobal'', DataRaceGlobal), (''MissingJoin'', MissingJoin),
        (''DeadlockLockOrder'', DeadlockLockOrder), (''ConditionWaitWithoutPredicate'', ConditionWaitWithoutPredicate),
        (''ForkAfterThreadCreation'', ForkAfterThreadCreation), (''UnreapedChildProcess'', UnreapedChildProcess),
        (''ThreadArgumentEscapesFrame'', ThreadArgumentEscapesFrame), (''UnsafeSignalHandler'', UnsafeSignalHandler),
        (''WeakPublicationOrdering'', WeakPublicationOrdering), (''ThreadArgumentFreedEarly'', ThreadArgumentFreedEarly),
        (''ThreadLocalOutlivesThread'', ThreadLocalOutlivesThread)] s)"

fun readProperty :: "json \<Rightarrow> DiagnosticPropertyValue" where
  "readProperty (JBool b) = PropBool b"
| "readProperty (JInt n) = PropInt n"
| "readProperty (JString s) = PropString s"
| "readProperty v = PropStrings (map asString (elements v))"

definition membersOf :: "json \<Rightarrow> (string \<times> json) list" where
  "membersOf v = (case v of JObject ms \<Rightarrow> ms | _ \<Rightarrow> [])"

definition readLocation :: "json \<Rightarrow> SourceLocation" where
  "readLocation v =
     \<lparr>sl_file = asString (get ''file'' v), sl_line = asNat (get ''startLine'' v), sl_column = asNat (get ''startColumn'' v),
      sl_endLine = asNat (get ''endLine'' v), sl_endColumn = asNat (get ''endColumn'' v), sl_function = asString (get ''function'' v)\<rparr>"

definition readRelated :: "json \<Rightarrow> RelatedLocation" where
  "readRelated v = \<lparr>rl_label = asString (get ''label'' v), rl_location = readLocation (get ''location'' v)\<rparr>"

definition readDiagnostic :: "json \<Rightarrow> Diagnostic" where
  "readDiagnostic v =
     \<lparr>d_id = asString (get ''id'' v), d_severity = readSeverity (asString (get ''severity'' v)), d_ruleId = readRule (asString (get ''ruleId'' v)),
      d_confidence = readConfidence (asString (get ''confidence'' v)),
      d_taxonomies = (if get ''cwe'' v = JNull then [] else [\<lparr>tx_scheme = ''CWE'', tx_id = drop 4 (asString (get ''cwe'' v)), tx_title = []\<rparr>]),
      d_location = readLocation (get ''location'' v), d_relatedLocations = map readRelated (elements (get ''relatedLocations'' v)),
      d_message = asString (get ''message'' (get ''details'' v)), d_notes = map asString (elements (get ''notes'' (get ''details'' v))),
      d_properties = map (\<lambda>(key, value). (key, readProperty value)) (membersOf (get ''properties'' (get ''details'' v)))\<rparr>"

definition readFunction :: "json \<Rightarrow> FunctionSummary" where
  "readFunction v =
     \<lparr>fs_file = asString (get ''file'' v), fs_name = asString (get ''name'' v), fs_threadReachable = (get ''threadReachable'' v = JBool True),
      fs_threadEntries = map asString (elements (get ''threadEntries'' v)), fs_sharedAccessCount = asNatOption (get ''sharedAccessCount'' v),
      fs_protectedAccessCount = asNatOption (get ''protectedAccessCount'' v), fs_writeAccessCount = asNatOption (get ''writeAccessCount'' v),
      fs_hasDiagnostics = (get ''hasDiagnostics'' v = JBool True)\<rparr>"

definition readNotice :: "json \<Rightarrow> AnalysisNotice" where
  "readNotice v = \<lparr>an_id = asString (get ''id'' v), an_ruleId = readRule (asString (get ''ruleId'' v)), an_message = asString (get ''message'' v)\<rparr>"

definition readReport :: "json \<Rightarrow> DiagnosticReport" where
  "readReport v =
     \<lparr>rp_functions = map readFunction (elements (get ''functions'' v)), rp_diagnostics = map readDiagnostic (elements (get ''diagnostics'' v)),
      rp_diagnosticsSummary =
        \<lparr>ds_info = asNat (get ''info'' (get ''diagnosticsSummary'' v)), ds_warning = asNat (get ''warning'' (get ''diagnosticsSummary'' v)),
         ds_error = asNat (get ''error'' (get ''diagnosticsSummary'' v))\<rparr>,
      rp_notices = map readNotice (elements (get ''notices'' v))\<rparr>"

text \<open>
  What the document leaves out or fills in: a location without a file is in the input file and one without an end ends where it starts, of the
  taxonomies only the first CWE is shown, without its title.
\<close>

definition shownLocation :: "RenderContext \<Rightarrow> SourceLocation \<Rightarrow> SourceLocation" where
  "shownLocation ctx l =
     l\<lparr>sl_file := if sl_file l = [] then rc_inputFile ctx else sl_file l,
       sl_endLine := if sl_endLine l = 0 then sl_line l else sl_endLine l,
       sl_endColumn := if sl_endColumn l = 0 then sl_column l else sl_endColumn l\<rparr>"

definition shownDiagnostic :: "RenderContext \<Rightarrow> Diagnostic \<Rightarrow> Diagnostic" where
  "shownDiagnostic ctx d =
     d\<lparr>d_taxonomies := map (\<lambda>t. t\<lparr>tx_title := []\<rparr>) (take 1 (filter (\<lambda>t. tx_scheme t = ''CWE'') (d_taxonomies d))),
       d_location := shownLocation ctx (d_location d),
       d_relatedLocations := map (\<lambda>r. r\<lparr>rl_location := shownLocation ctx (rl_location r)\<rparr>) (d_relatedLocations d)\<rparr>"

definition shownReport :: "RenderContext \<Rightarrow> DiagnosticReport \<Rightarrow> DiagnosticReport" where
  "shownReport ctx report =
     report\<lparr>rp_functions := map (\<lambda>f. f\<lparr>fs_file := if fs_file f = [] then rc_inputFile ctx else fs_file f\<rparr>) (rp_functions report),
            rp_diagnostics := map (shownDiagnostic ctx) (rp_diagnostics report)\<rparr>"

definition allOrNoCounts :: "FunctionSummary \<Rightarrow> bool" where
  "allOrNoCounts f \<longleftrightarrow>
     (fs_sharedAccessCount f = None) = (fs_protectedAccessCount f = None) \<and> (fs_sharedAccessCount f = None) = (fs_writeAccessCount f = None)"

lemma asString_JString [simp]: "map (asString \<circ> JString) xs = xs"
  by (induction xs) simp_all

lemma readSeverity_upper [simp]: "readSeverity (severityUpper severity) = severity"
  by (cases severity) (simp_all add: readSeverity_def)

lemma readConfidence_upper [simp]: "readConfidence (confidenceUpper confidence) = Some confidence"
  by (cases confidence) (simp_all add: readConfidence_def)

lemma readRule_name [simp]: "readRule (rule_name rule) = rule"
  by (cases rule) (simp_all add: readRule_def)

lemma readProperty_value [simp]: "readProperty (toJsonValue v) = v"
  by (cases v) (simp_all add: elements_def)

lemma readLocation_rendered [simp]: "readLocation (toJsonLocation l ctx) = shownLocation ctx l"
  by (simp add: readLocation_def toJsonLocation_def shownLocation_def get_def effectiveFile_def endLineOf_def endColumnOf_def)

lemma obj_insert_distinct:
  "distinct (map fst (ms @ map (\<lambda>(k, v). (k, h v)) ps)) \<Longrightarrow>
   fold (\<lambda>(k, v). obj_insert (k, h v)) ps ms = ms @ map (\<lambda>(k, v). (k, h v)) ps"
proof (induction ps arbitrary: ms)
  case (Cons p ps)
  obtain k v where p: "p = (k, v)" by (cases p)
  have "fold (\<lambda>(k, v). obj_insert (k, h v)) ps (ms @ [(k, h v)]) = (ms @ [(k, h v)]) @ map (\<lambda>(k, v). (k, h v)) ps"
    using Cons.prems unfolding p by (intro Cons.IH) simp
  moreover have "k \<notin> fst ` set ms" using Cons.prems unfolding p by auto
  then have "obj_insert (k, h v) ms = ms @ [(k, h v)]" by (simp add: obj_insert_def)
  ultimately show ?case by (simp add: p)
qed simp

lemma jsonProperties_all:
  assumes "distinct (map fst (d_properties d))"
  shows "jsonProperties d = map (\<lambda>(k, v). (k, toJsonValue v)) (d_properties d)"
proof -
  have "map fst (map (\<lambda>(k, v). (k, toJsonValue v)) (d_properties d)) = map fst (d_properties d)" by auto
  then have "distinct (map fst ([] @ map (\<lambda>(k, v). (k, toJsonValue v)) (d_properties d)))"
    using assms by (simp only: append_Nil)
  from obj_insert_distinct [OF this] show ?thesis by (simp add: jsonProperties_def)
qed

lemma first_cwe:
  "firstCweIdentifier d = None \<Longrightarrow> filter (\<lambda>t. tx_scheme t = ''CWE'') (d_taxonomies d) = []"
  "firstCweIdentifier d = Some weakness \<Longrightarrow>
   map (\<lambda>t. t\<lparr>tx_title := []\<rparr>) (take 1 (filter (\<lambda>t. tx_scheme t = ''CWE'') (d_taxonomies d))) = [\<lparr>tx_scheme = ''CWE'', tx_id = drop 4 weakness, tx_title = []\<rparr>]"
proof -
  let ?cwe = "filter (\<lambda>t. tx_scheme t = ''CWE'') (d_taxonomies d)"
  have "find P xs = (case filter P xs of [] \<Rightarrow> None | x # _ \<Rightarrow> Some x)" for P and xs :: "TaxonomyRef list"
    by (induction xs) auto
  then have first: "firstCweIdentifier d = (case ?cwe of [] \<Rightarrow> None | t # _ \<Rightarrow> Some (tx_scheme t @ ''-'' @ tx_id t))"
    by (simp add: firstCweIdentifier_def split: list.split)
  then show "firstCweIdentifier d = None \<Longrightarrow> ?cwe = []" by (simp split: list.splits)
  assume some: "firstCweIdentifier d = Some weakness"
  then obtain t rest where t: "?cwe = t # rest" using first by (cases ?cwe) simp_all
  then have "t \<in> set ?cwe" by simp
  then have "tx_scheme t = ''CWE''" by simp
  with some t first show "map (\<lambda>t. t\<lparr>tx_title := []\<rparr>) (take 1 ?cwe) = [\<lparr>tx_scheme = ''CWE'', tx_id = drop 4 weakness, tx_title = []\<rparr>]"
    by auto
qed

lemma readDiagnostic_rendered:
  assumes "distinct (map fst (d_properties d))"
  shows "readDiagnostic (jsonDiagnostic ctx d) = shownDiagnostic ctx d"
proof -
  have "map (readRelated \<circ> jsonRelated ctx) rs = map (\<lambda>r. r\<lparr>rl_location := shownLocation ctx (rl_location r)\<rparr>) rs" for rs
    by (simp add: readRelated_def jsonRelated_def get_def)
  moreover have "map ((\<lambda>(key, value). (key, readProperty value)) \<circ> (\<lambda>(key, value). (key, toJsonValue value))) ps = ps" for ps :: "(string \<times> DiagnosticPropertyValue) list"
    by (induction ps) auto
  moreover have "readConfidence [] = None" by (simp add: readConfidence_def)
  ultimately show ?thesis
    using first_cwe [of d]
    by (cases "d_confidence d"; cases "firstCweIdentifier d")
      (simp_all add: readDiagnostic_def jsonDiagnostic_def shownDiagnostic_def get_def elements_def membersOf_def jsonDetails_def
        jsonProperties_all [OF assms])
qed

lemma readFunction_rendered:
  assumes "allOrNoCounts f"
  shows "readFunction (jsonFunction ctx f) = f\<lparr>fs_file := if fs_file f = [] then rc_inputFile ctx else fs_file f\<rparr>"
  using assms
  by (cases "fs_sharedAccessCount f"; cases "fs_protectedAccessCount f"; cases "fs_writeAccessCount f")
    (simp_all add: readFunction_def jsonFunction_def get_def elements_def asNatOption_def obj_assign_def allOrNoCounts_def Let_def)

lemma readNotice_rendered: "readNotice (jsonNotice n) = n"
  by (simp add: readNotice_def jsonNotice_def get_def)

text \<open>
  C40: The JSON document is read back by the names of its members: a reader that looks up the documented members finds every diagnostic
  with its severity, rule, confidence, first CWE, positions, related locations, message, notes and properties, every function summary with its
  counts, the counts of the report and its notices, in their order. Only what the document fills in (the file of a location without one, an end
  that is not given) or leaves out (other taxonomies, the title of the first CWE) differs. Properties have different keys, and a summary has all its counts or none.
\<close>
theorem json_report_read_back:
  assumes "list_all (\<lambda>d. distinct (map fst (d_properties d))) (rp_diagnostics report)" "list_all allOrNoCounts (rp_functions report)"
  shows "readReport (renderJsonValue report ctx) = shownReport ctx report"
proof -
  have "map (readDiagnostic \<circ> jsonDiagnostic ctx) (rp_diagnostics report) = map (shownDiagnostic ctx) (rp_diagnostics report)"
    using assms(1) by (simp add: list_all_iff readDiagnostic_rendered)
  moreover have "map (readFunction \<circ> jsonFunction ctx) (rp_functions report) =
      map (\<lambda>f. f\<lparr>fs_file := if fs_file f = [] then rc_inputFile ctx else fs_file f\<rparr>) (rp_functions report)"
    using assms(2) by (simp add: list_all_iff readFunction_rendered)
  moreover have "map (readNotice \<circ> jsonNotice) ns = ns" for ns by (induction ns) (simp_all add: readNotice_rendered)
  ultimately show ?thesis
    by (simp add: readReport_def renderJsonValue_def shownReport_def get_def elements_def obj_assign_def Let_def)
qed

theorem json_report_read_back_witness:
  "readReport (renderJsonValue
      (empty_report\<lparr>rp_diagnostics := [(builder MissingJoin)\<lparr>d_location := no_location\<lparr>sl_line := 3, sl_column := 5\<rparr>,
           d_properties := [(''k'', PropInt 1)]\<rparr>],
         rp_functions := [\<lparr>fs_file = ''b.c'', fs_name = ''f'', fs_threadReachable = True, fs_threadEntries = [''f''], fs_sharedAccessCount = Some 4,
           fs_protectedAccessCount = Some 3, fs_writeAccessCount = Some 2, fs_hasDiagnostics = True\<rparr>]\<rparr>)
      \<lparr>rc_toolName = ''t'', rc_inputFile = ''a.c'', rc_mode = ''IR'', rc_analysisTimeMs = 0, rc_sourceRoot = []\<rparr>) =
   shownReport \<lparr>rc_toolName = ''t'', rc_inputFile = ''a.c'', rc_mode = ''IR'', rc_analysisTimeMs = 0, rc_sourceRoot = []\<rparr>
      (empty_report\<lparr>rp_diagnostics := [(builder MissingJoin)\<lparr>d_location := no_location\<lparr>sl_line := 3, sl_column := 5\<rparr>,
           d_properties := [(''k'', PropInt 1)]\<rparr>],
         rp_functions := [\<lparr>fs_file = ''b.c'', fs_name = ''f'', fs_threadReachable = True, fs_threadEntries = [''f''], fs_sharedAccessCount = Some 4,
           fs_protectedAccessCount = Some 3, fs_writeAccessCount = Some 2, fs_hasDiagnostics = True\<rparr>]\<rparr>)"
  by (rule json_report_read_back) (simp_all add: allOrNoCounts_def)

text \<open>A summary counts all accesses it has to, or none.\<close>

lemma counts_together:
  "s \<in> set (buildFunctionSummaries facts ds True) \<Longrightarrow>
     fs_sharedAccessCount s \<noteq> None \<and> fs_protectedAccessCount s \<noteq> None \<and> fs_writeAccessCount s \<noteq> None"
  by (auto simp: buildFunctionSummaries_def Let_def fillCounts_def)

text \<open>
  A location with a line but no column, as the compiler gives one to code it made itself, becomes a region
  that starts in column 0, while columns of a SARIF region start at 1.
\<close>

lemma sarif_column_zero:
  "toSarifLocation rd (no_location\<lparr>sl_line := 3\<rparr>) ctx =
     [(''physicalLocation'', JObject
        [(''artifactLocation'', JObject [(''uri'', JString (uriOf rd (no_location\<lparr>sl_line := 3\<rparr>) ctx))]),
         (''region'', JObject [(''startLine'', JInt 3), (''startColumn'', JInt 0), (''endLine'', JInt 3), (''endColumn'', JInt 0)])])]"
  by (simp add: toSarifLocation_def no_location_def endLineOf_def endColumnOf_def obj_insert_def Let_def)

end
