(* ===== verification/Command_Line.thy ===== *)
theory Command_Line
  imports Command_Options Compiler Compiler_Diagnostics Ir_Cache Coordinator Report_Renderer
begin

text \<open>
  The program (\<open>main.cpp\<close>): the analysis of one file, the analysis of a project from its compilation
  database with the cache, and \<open>main\<close>, from the arguments to the exit code and the two output streams.
  What the program finds outside, the compiler, the file system, the clock, the printer of JSON values and
  the builder of facts, is the record \<open>World\<close>.
\<close>

record ('m, 'v) World =
  w_version :: string
  w_probe :: InputProbe
  w_toolchain :: "'m Toolchain"
  w_husk :: string
  w_build :: "'m \<Rightarrow> FactSelection \<Rightarrow> ProgramSymbolIndex option \<Rightarrow> TUFacts"
  w_renderer :: Renderer
  w_currentPath :: "string option"
  w_definedFunctions :: "'m \<Rightarrow> nat"
  w_milliseconds :: "nat \<Rightarrow> nat \<Rightarrow> int"
  w_json :: "'v JsonLibrary"
  w_sha :: sha256
  w_digest :: "string \<Rightarrow> u64"
  w_files :: file_store
  w_compileWrites :: "CompileRequest \<Rightarrow> file_store \<Rightarrow> file_store"
  w_storeOutcomes :: "CompileCommand \<Rightarrow> WriteOutcome \<times> WriteOutcome \<times> WriteOutcome"
  w_createFails :: bool
  w_isDirectory :: bool
  w_readError :: "string \<Rightarrow> string"
  w_scheduleA :: "nat list \<Rightarrow> nat list"
  w_scheduleB :: "nat list \<Rightarrow> nat list"
  w_loadMilliseconds :: int
  w_peakLiveUnits :: nat
  w_peakResidentMegabytes :: int

section \<open>Output\<close>

definition true_or_false :: "bool \<Rightarrow> string" where
  "true_or_false b = (if b then ''true'' else ''false'')"

definition printRequestSummary :: "CompileRequest \<Rightarrow> bool \<Rightarrow> AnalysisOptions \<Rightarrow> OutputFormat \<Rightarrow> string" where
  "printRequestSummary request analyzes opts outputFormat =
     ''request.input-file: '' @ rq_inputFile request @ [newline] @
     ''request.ir-format: '' @ ir_format_name (rq_format request) @ [newline] @
     ''request.instrument: '' @ true_or_false (rq_instrument request) @ [newline] @
     ''request.analyze: '' @ true_or_false analyzes @ [newline] @
     (if analyzes
      then ''request.output-format: '' @ output_format_name outputFormat @ [newline] @
           ''request.rules:'' @ concat (map (\<lambda>rule. '' '' @ ruleOptionLabel rule) (ao_enabledRules opts)) @ [newline]
      else []) @
     ''request.extra-args-count: '' @ to_string_nat (length (rq_extraCompileArgs request)) @ [newline] @
     concat (map (\<lambda>arg. ''request.extra-arg: '' @ arg @ [newline]) (rq_extraCompileArgs request))"

definition makeRenderContext :: "('m, 'v) World \<Rightarrow> string \<Rightarrow> int \<Rightarrow> RenderContext" where
  "makeRenderContext w inputFile analysisTimeMs =
     \<lparr>rc_toolName = ''coretrace-concurrency-analyzer'', rc_inputFile = inputFile, rc_mode = ''IR'',
      rc_analysisTimeMs = analysisTimeMs,
      rc_sourceRoot = (case w_currentPath w of None \<Rightarrow> [] | Some sourceRoot \<Rightarrow> sourceRoot)\<rparr>"

definition emitStructuredReport :: "('m, 'v) World \<Rightarrow> DiagnosticReport \<Rightarrow> RenderContext \<Rightarrow> OutputFormat \<Rightarrow> string" where
  "emitStructuredReport w report context outputFormat =
     (let rendered = renderReport (w_renderer w) report context outputFormat
      in rendered @ (if rendered \<noteq> [] \<and> last rendered \<noteq> newline then [newline] else []))"

section \<open>A compilation that failed\<close>

definition hasStructuredLocations :: "DiagnosticReport \<Rightarrow> bool" where
  "hasStructuredLocations report \<longleftrightarrow>
     (\<exists>d \<in> set (rp_diagnostics report). sl_line (d_location d) \<noteq> 0 \<or> sl_column (d_location d) \<noteq> 0)"

definition compileRequest :: "('m, 'v) World \<Rightarrow> CompileRequest \<Rightarrow> 'm CompileResult" where
  "compileRequest w request = compile (w_probe w) (w_toolchain w) (w_husk w) request"

definition buildCompileFailureReport ::
  "('m, 'v) World \<Rightarrow> CompileRequest \<Rightarrow> 'm CompileResult \<Rightarrow> DiagnosticReport" where
  "buildCompileFailureReport w request result =
     (let report = parseCompilerDiagnostics (cr_diagnostics result) (cr_error result) (rq_inputFile request)
      in if rq_format request \<noteq> BC \<or> hasStructuredLocations report then report
         else
           (let llResult = compileRequest w (request\<lparr>rq_format := LL\<rparr>)
            in if cr_success llResult then report
               else
                 (let recovered = parseCompilerDiagnostics (cr_diagnostics llResult) (cr_error llResult) (rq_inputFile request)
                  in if hasStructuredLocations recovered then recovered
                     else if cr_diagnostics llResult \<noteq> [] then recovered
                     else report)))"

section \<open>A project\<close>

record UnitsState =
  us_files :: file_store
  us_units :: "ProjectUnit list"
  us_failedSources :: "string list"
  us_reusedUnits :: nat
  us_compiledUnits :: nat
  us_err :: string

definition fileSystem :: "('m, 'v) World \<Rightarrow> file_store \<Rightarrow> file_system" where
  "fileSystem w fs path = (case fs path of None \<Rightarrow> Inl (w_readError w path) | Some bytes \<Rightarrow> Inr bytes)"

text \<open>The entry of the cache a unit is taken from: one that is valid, can be read and parses.\<close>

definition reusableEntry :: "('m, 'v) World \<Rightarrow> string option \<Rightarrow> file_store \<Rightarrow> CompileCommand \<Rightarrow> string option" where
  "reusableEntry w cache fs command =
     (case cache of
        None \<Rightarrow> None
      | Some directory \<Rightarrow>
          (case lookupPath (w_sha w) directory fs command of
             None \<Rightarrow> None
           | Some entry \<Rightarrow>
               (case fs entry of
                  None \<Rightarrow> None
                | Some cached \<Rightarrow>
                    if fst (parseBC (w_toolchain w) cached no_error) \<noteq> None then Some entry else None)))"

definition unitRequest :: "sha256 \<Rightarrow> string option \<Rightarrow> CompileCommand \<Rightarrow> CompileRequest" where
  "unitRequest sha cache command =
     new_request\<lparr>rq_inputFile := cc_file command,
       rq_extraCompileArgs := cc_arguments command @
         (case cache of None \<Rightarrow> [] | Some directory \<Rightarrow> [''-MD'', ''-MF'', depfilePathFor sha directory command]),
       rq_format := BC\<rparr>"

definition storeUnit ::
  "('m, 'v) World \<Rightarrow> string option \<Rightarrow> file_store \<Rightarrow> CompileCommand \<Rightarrow> string \<Rightarrow> file_store \<times> string option" where
  "storeUnit w cache fs command bitcode =
     (case cache of
        None \<Rightarrow> (fs, None)
      | Some directory \<Rightarrow>
          (let depfile = depfilePathFor (w_sha w) directory command;
               (fs, stored) = store (w_sha w) directory (w_storeOutcomes w command) fs command bitcode depfile
           in (fs(depfile := None), stored)))"

definition prepareUnit :: "('m, 'v) World \<Rightarrow> string option \<Rightarrow> bool \<Rightarrow> CompileCommand \<Rightarrow> UnitsState \<Rightarrow> UnitsState" where
  "prepareUnit w cache verbose command st =
     (case reusableEntry w cache (us_files st) command of
        Some entry \<Rightarrow>
          st\<lparr>us_reusedUnits := us_reusedUnits st + 1,
             us_units := addFile (fileSystem w (us_files st)) (w_digest w) (cc_file command) entry (us_units st)\<rparr>
      | None \<Rightarrow>
          (let request = unitRequest (w_sha w) cache command;
               fs = w_compileWrites w request (us_files st);
               result = compileRequest w request
           in if \<not> cr_success result \<or> cr_module result = None
              then st\<lparr>us_files := fs, us_failedSources := us_failedSources st @ [cc_file command],
                      us_err := us_err st @ (if verbose \<and> cr_diagnostics result \<noteq> [] then cr_diagnostics result else [])\<rparr>
              else
                (let (fs, stored) = storeUnit w cache fs command (cr_llvmBitcode result)
                 in st\<lparr>us_files := fs, us_compiledUnits := us_compiledUnits st + 1,
                       us_units := (case stored of
                          Some path \<Rightarrow> addFile (fileSystem w fs) (w_digest w) (cc_file command) path (us_units st)
                        | None \<Rightarrow> add (cc_file command) (cr_llvmBitcode result) (us_units st))\<rparr>)))"

definition prepareUnits :: "('m, 'v) World \<Rightarrow> string option \<Rightarrow> bool \<Rightarrow> CompileCommand list \<Rightarrow> UnitsState" where
  "prepareUnits w cache verbose commands =
     fold (prepareUnit w cache verbose) commands
       \<lparr>us_files = w_files w, us_units = [], us_failedSources = [], us_reusedUnits = 0, us_compiledUnits = 0, us_err = []\<rparr>"

definition parseUnit :: "('m, 'v) World \<Rightarrow> string \<Rightarrow> string \<Rightarrow> CompileError + 'm" where
  "parseUnit w bytes identifier =
     (case parseBCNamed (w_toolchain w) bytes identifier no_error of
        (Some module, _) \<Rightarrow> Inr module
      | (None, err) \<Rightarrow> Inl err)"

definition projectOf :: "('m, 'v) World \<Rightarrow> UnitsState \<Rightarrow> 'm Project" where
  "projectOf w st =
     \<lparr>pr_identifiers = map pu_identifier (us_units st),
      pr_load = (\<lambda>pass index. the (load (fileSystem w (us_files st)) (w_digest w) (parseUnit w) (us_units st) index)),
      pr_build = w_build w\<rparr>"

definition projectAnalysis :: "('m, 'v) World \<Rightarrow> AnalysisOptions \<Rightarrow> UnitsState \<Rightarrow> ProjectAnalysis" where
  "projectAnalysis w opts st = analyze (projectOf w st) opts (w_scheduleA w) (w_scheduleB w)"

definition verboseSummary :: "('m, 'v) World \<Rightarrow> UnitsState \<Rightarrow> ProjectAnalysis \<Rightarrow> string" where
  "verboseSummary w st analysis =
     ''units: '' @ to_string_nat (us_compiledUnits st) @ '' compiled, '' @ to_string_nat (us_reusedUnits st) @
     '' reused, '' @ to_string_nat (length (us_failedSources st) + length (pa_failedUnits analysis)) @ '' failed'' @ [newline] @
     ''compile-ms: '' @ to_string_int (w_milliseconds w 0 1) @ [newline] @
     ''analysis-ms: '' @ to_string_int (w_milliseconds w 1 2) @ [newline] @
     ''load-ms: '' @ to_string_int (w_loadMilliseconds w) @ [newline] @
     ''reanalyzed-units: '' @ to_string_nat (pa_reanalyzedUnitCount analysis) @ [newline] @
     ''live-units-max: '' @ to_string_nat (w_peakLiveUnits w) @ [newline] @
     ''bitcode-mb: '' @ to_string_nat (unat (bitcodeBytes (us_units st)) div (1024 * 1024)) @ [newline] @
     ''peak-rss-mb: '' @ to_string_int (w_peakResidentMegabytes w) @ [newline]"

definition skippedSummary :: "UnitsState \<Rightarrow> ProjectAnalysis \<Rightarrow> string" where
  "skippedSummary st analysis =
     concat (map (\<lambda>source. ''skipped (compilation failed): '' @ source @ [newline]) (us_failedSources st)) @
     concat (map (\<lambda>unit. ''skipped (bitcode failed to load): '' @ fa_identifier unit @ '': '' @
       ce_message (fa_error unit) @ [newline]) (pa_failedUnits analysis)) @
     concat (map (\<lambda>module. ''skipped (target ABI differs from the project): '' @ module @ [newline])
       (pa_skippedIncompatibleModules analysis))"

definition failed :: "string \<Rightarrow> Exit" where
  "failed message = \<lparr>ex_code = 1, ex_out = [], ex_err = message @ [newline]\<rparr>"

definition analyzeProject ::
  "('m, 'v) World \<Rightarrow> string \<Rightarrow> AnalysisOptions \<Rightarrow> OutputFormat \<Rightarrow> bool \<Rightarrow> bool \<Rightarrow> FailOn \<Rightarrow> Exit" where
  "analyzeProject w databasePath opts outputFormat verbose useCache failOn =
     (case loadFromFile (w_json w) (w_files w) databasePath of
        Inl message \<Rightarrow>
          failed (''failed to read compilation database '' @ [CHR 0x27] @ databasePath @ [CHR 0x27] @ '': '' @ message)
      | Inr database \<Rightarrow>
          (let commands = analyzableSources False database
           in if commands = []
              then failed (''compilation database '' @ [CHR 0x27] @ databasePath @ [CHR 0x27] @ '' contains no analyzable source'')
              else
                (let cache = (if useCache
                              then openCache (w_createFails w) (w_isDirectory w)
                                     (path_append (parent_path databasePath) ''.coretrace-ir-cache'')
                              else None);
                     st = prepareUnits w cache verbose commands
                 in if us_units st = []
                    then \<lparr>ex_code = 1, ex_out = [],
                          ex_err = us_err st @ ''no unit of '' @ [CHR 0x27] @ databasePath @ [CHR 0x27] @
                            '' could be compiled'' @ [newline]\<rparr>
                    else
                      (let analysis = projectAnalysis w opts st;
                           err = us_err st @ (if verbose then verboseSummary w st analysis else []) @ skippedSummary st analysis;
                           out = emitStructuredReport w (pa_report analysis)
                                   (makeRenderContext w databasePath (w_milliseconds w 0 2)) outputFormat
                       in if us_failedSources st \<noteq> [] \<or> \<not> complete analysis
                          then \<lparr>ex_code = 1, ex_out = out, ex_err = err\<rparr>
                          else \<lparr>ex_code = gateExitCode failOn (rp_diagnosticsSummary (pa_report analysis)),
                                ex_out = out, ex_err = err\<rparr>))))"

section \<open>One file\<close>

definition analyzeFile :: "('m, 'v) World \<Rightarrow> CommandLine \<Rightarrow> Exit" where
  "analyzeFile w cl =
     (let request = cl_request cl;
          summary = (if cl_verbose cl
                     then printRequestSummary request (cl_analyze cl) (cl_analysisOptions cl) (cl_outputFormat cl) else []);
          toErr = (cl_analyze cl \<and> cl_outputFormat cl \<noteq> OF_Human);
          out = (if toErr then [] else summary);
          err = (if toErr then summary else []);
          result = compileRequest w request;
          err = err @ (if \<not> cl_analyze cl then cr_diagnostics result else [])
      in if \<not> cr_success result
         then
           (if cl_analyze cl
            then \<lparr>ex_code = 1,
                  ex_out = out @ emitStructuredReport w (buildCompileFailureReport w request result)
                    (makeRenderContext w (rq_inputFile request) (- 1)) (cl_outputFormat cl),
                  ex_err = err\<rparr>
            else
              (let renderedError = formatCompileError (cr_error result)
               in \<lparr>ex_code = 1, ex_out = out,
                   ex_err = err @ (if renderedError \<noteq> [] then renderedError else ''unknown_compile_failure'') @ [newline]\<rparr>))
         else if cl_analyze cl
         then
           (let report = singleAnalyze (w_build w) (cl_analysisOptions cl) (the (cr_module result))
            in \<lparr>ex_code = gateExitCode (cl_failOn cl) (rp_diagnosticsSummary report),
                ex_out = out @ emitStructuredReport w report
                  (makeRenderContext w (rq_inputFile request) (w_milliseconds w 0 1)) (cl_outputFormat cl),
                ex_err = err\<rparr>)
         else
           \<lparr>ex_code = 0,
            ex_out = out @ ''IR compilation succeeded'' @ [newline] @
              ''format: '' @ ir_format_name (rq_format request) @ [newline] @
              ''payload-bytes: '' @
                to_string_nat (length (if rq_format request = BC then cr_llvmBitcode result else cr_llvmIRText result)) @
                [newline] @
              ''defined-functions: '' @ to_string_nat (w_definedFunctions w (the (cr_module result))) @ [newline],
            ex_err = err\<rparr>)"

definition runTool :: "('m, 'v) World \<Rightarrow> CommandLine \<Rightarrow> Exit" where
  "runTool w cl =
     (if cl_compileCommandsPath cl \<noteq> []
      then
        (if rq_inputFile (cl_request cl) \<noteq> []
         then failed ''--compile-commands and a positional input file are exclusive''
         else if rq_extraCompileArgs (cl_request cl) \<noteq> []
         then failed (''--compile-arg does not apply to --compile-commands: each unit uses '' @
                ''the flags recorded in the database'')
         else analyzeProject w (cl_compileCommandsPath cl) (cl_analysisOptions cl) (cl_outputFormat cl)
                (cl_verbose cl) (cl_useCache cl) (cl_failOn cl))
      else if rq_inputFile (cl_request cl) = [] then \<lparr>ex_code = 1, ex_out = printHelp, ex_err = []\<rparr>
      else if cl_outputFormatExplicit cl \<and> \<not> cl_analyze cl then failed ''--format requires --analyze''
      else if cl_rulesExplicit cl \<and> \<not> cl_analyze cl then failed ''--rules requires --analyze''
      else analyzeFile w cl)"

definition mainProgram :: "('m, 'v) World \<Rightarrow> string list \<Rightarrow> Exit" where
  "mainProgram w args =
     (case parseArguments (w_version w) args initial_line of
        Inl e \<Rightarrow> e
      | Inr cl \<Rightarrow> runTool w cl)"

section \<open>Exit codes\<close>

lemma parseArgument_exit: "parseArgument version arg cl = Inl e \<Longrightarrow> ex_code e \<le> 1"
  unfolding parseArgument_def refuse_def by (auto split: if_splits option.splits)

lemma parseArguments_exit: "parseArguments version args cl = Inl e \<Longrightarrow> ex_code e \<le> 1"
  by (induction args arbitrary: cl) (auto dest: parseArgument_exit split: sum.splits)

text \<open>The severities a gate reacts to.\<close>

fun reaches :: "FailOn \<Rightarrow> Severity \<Rightarrow> bool" where
  "reaches FailOn_None severity \<longleftrightarrow> False"
| "reaches FailOn_Error severity \<longleftrightarrow> severity = Sev_Error"
| "reaches FailOn_Warning severity \<longleftrightarrow> severity = Sev_Error \<or> severity = Sev_Warning"

lemma gate_of_summary:
  "gateExitCode policy (computeSummary ds) = (if \<exists>d \<in> set ds. reaches policy (d_severity d) then 2 else 0)"
  by (cases policy)
    (auto simp: computeSummary_def computeSummary_counts no_summary_def kFindingsExitCode_def filter_empty_conv)

lemma singleAnalyze_summary:
  "rp_diagnosticsSummary (singleAnalyze build opts module) = computeSummary (rp_diagnostics (singleAnalyze build opts module))"
  by (simp add: singleAnalyze_def finalizeReport_def Let_def)

lemma analyze_summary:
  "rp_diagnosticsSummary (pa_report (analyze project opts sA sB)) =
     computeSummary (rp_diagnostics (pa_report (analyze project opts sA sB)))"
  by (simp add: analyze_def Let_def mergedReport_def empty_analysis_def empty_report_def computeSummary_def
      split: list.split)

text \<open>The units of a project as the options make them, when the options ask for a project that can be read.\<close>

definition projectUnits :: "('m, 'v) World \<Rightarrow> CommandLine \<Rightarrow> (CompileCommand list \<times> UnitsState) option" where
  "projectUnits w cl =
     (case loadFromFile (w_json w) (w_files w) (cl_compileCommandsPath cl) of
        Inl _ \<Rightarrow> None
      | Inr database \<Rightarrow>
          (let commands = analyzableSources False database;
               cache = (if cl_useCache cl
                        then openCache (w_createFails w) (w_isDirectory w)
                               (path_append (parent_path (cl_compileCommandsPath cl)) ''.coretrace-ir-cache'')
                        else None)
           in if commands = [] then None else Some (commands, prepareUnits w cache (cl_verbose cl) commands)))"

text \<open>The report of an analysis that was asked for and left out no part of its input.\<close>

definition completedReport :: "('m, 'v) World \<Rightarrow> CommandLine \<Rightarrow> DiagnosticReport option" where
  "completedReport w cl =
     (if cl_compileCommandsPath cl \<noteq> []
      then
        (if rq_inputFile (cl_request cl) \<noteq> [] \<or> rq_extraCompileArgs (cl_request cl) \<noteq> [] then None
         else
           (case projectUnits w cl of
              None \<Rightarrow> None
            | Some (commands, st) \<Rightarrow>
                if us_units st \<noteq> [] \<and> us_failedSources st = [] \<and>
                   pa_failedUnits (projectAnalysis w (cl_analysisOptions cl) st) = []
                then Some (pa_report (projectAnalysis w (cl_analysisOptions cl) st)) else None))
      else if rq_inputFile (cl_request cl) \<noteq> [] \<and> cl_analyze cl \<and> cr_success (compileRequest w (cl_request cl))
      then Some (singleAnalyze (w_build w) (cl_analysisOptions cl) (the (cr_module (compileRequest w (cl_request cl)))))
      else None)"

definition verdict :: "FailOn \<Rightarrow> DiagnosticReport option \<Rightarrow> nat" where
  "verdict policy report =
     (case report of
        None \<Rightarrow> 1
      | Some report \<Rightarrow> if \<exists>d \<in> set (rp_diagnostics report). reaches policy (d_severity d) then 2 else 0)"

lemma analyzeProject_code:
  "ex_code (analyzeProject w (cl_compileCommandsPath cl) (cl_analysisOptions cl) fmt (cl_verbose cl) (cl_useCache cl) policy) =
     verdict policy
       (case projectUnits w cl of
          None \<Rightarrow> None
        | Some (commands, st) \<Rightarrow>
            if us_units st \<noteq> [] \<and> us_failedSources st = [] \<and>
               pa_failedUnits (projectAnalysis w (cl_analysisOptions cl) st) = []
            then Some (pa_report (projectAnalysis w (cl_analysisOptions cl) st)) else None)"
  by (simp add: analyzeProject_def projectUnits_def verdict_def failed_def complete_def Let_def
      projectAnalysis_def analyze_summary gate_of_summary split: sum.split)

lemma analyzeFile_code:
  "ex_code (analyzeFile w cl) =
     (if cl_analyze cl
      then verdict (cl_failOn cl)
        (if cr_success (compileRequest w (cl_request cl))
         then Some (singleAnalyze (w_build w) (cl_analysisOptions cl) (the (cr_module (compileRequest w (cl_request cl)))))
         else None)
      else if cr_success (compileRequest w (cl_request cl)) then 0 else 1)"
  by (simp add: analyzeFile_def Let_def verdict_def singleAnalyze_summary gate_of_summary)

text \<open>What is asked of the compiler alone, with no analysis.\<close>

definition compilesOnly :: "CommandLine \<Rightarrow> bool" where
  "compilesOnly cl \<longleftrightarrow> cl_compileCommandsPath cl = [] \<and> rq_inputFile (cl_request cl) \<noteq> [] \<and> \<not> cl_analyze cl \<and>
     \<not> cl_outputFormatExplicit cl \<and> \<not> cl_rulesExplicit cl"

lemma runTool_code:
  "ex_code (runTool w cl) =
     (if compilesOnly cl then (if cr_success (compileRequest w (cl_request cl)) then 0 else 1)
      else verdict (cl_failOn cl) (completedReport w cl))"
  by (simp add: runTool_def compilesOnly_def completedReport_def analyzeProject_code analyzeFile_code failed_def verdict_def)

text \<open>
  C27: The exit code is 2 exactly when the arguments are accepted, they ask for an analysis, that analysis
  completed and its report holds a diagnostic of a severity the gate reacts to. An analysis of a file completed
  when the file compiled; one of a project when the database was read, its sources gave at least one unit, none of them
  failed to compile and \<open>complete()\<close> holds, that is, no unit failed to load. Units skipped because their ABI is not that of the
  largest group do not count as missing (\<open>complete_with_skipped_units\<close>).
\<close>
theorem findings_exit_code:
  "ex_code (mainProgram w args) = 2 \<longleftrightarrow>
     (\<exists>cl report. parseArguments (w_version w) args initial_line = Inr cl \<and>
        completedReport w cl = Some report \<and>
        (\<exists>d \<in> set (rp_diagnostics report). reaches (cl_failOn cl) (d_severity d)))"
proof (cases "parseArguments (w_version w) args initial_line")
  case (Inl e)
  then show ?thesis using parseArguments_exit [OF Inl] by (simp add: mainProgram_def)
next
  case (Inr cl)
  have "completedReport w cl = None" if "compilesOnly cl" using that by (simp add: compilesOnly_def completedReport_def)
  then have "ex_code (runTool w cl) = 2 \<longleftrightarrow> verdict (cl_failOn cl) (completedReport w cl) = 2"
    by (auto simp: runTool_code verdict_def)
  then show ?thesis by (simp add: mainProgram_def Inr verdict_def split: option.split)
qed

section \<open>The units of a project\<close>

text \<open>Each command becomes a unit or a failed source, never both and never neither.\<close>

definition accounted :: "CompileCommand list \<Rightarrow> UnitsState \<Rightarrow> bool" where
  "accounted commands st \<longleftrightarrow>
     (\<exists>made. subseq made commands \<and> map pu_identifier (us_units st) = map cc_file made \<and>
        mset (us_failedSources st) + mset (map cc_file made) = mset (map cc_file commands)) \<and>
     us_reusedUnits st + us_compiledUnits st = length (us_units st)"

lemma addFile_identifiers [simp]:
  "map pu_identifier (addFile files digest identifier path units) = map pu_identifier units @ [identifier]"
  "length (addFile files digest identifier path units) = Suc (length units)"
  by (simp_all add: addFile_def Let_def)

lemma add_identifiers [simp]:
  "map pu_identifier (add identifier bitcode units) = map pu_identifier units @ [identifier]"
  "length (add identifier bitcode units) = Suc (length units)"
  by (simp_all add: add_def)

lemma accounted_snoc:
  assumes "accounted commands st"
    and "map pu_identifier (us_units st') = map pu_identifier (us_units st) @ [cc_file command] \<and>
       us_failedSources st' = us_failedSources st \<or>
     us_units st' = us_units st \<and> us_failedSources st' = us_failedSources st @ [cc_file command]"
    and "us_reusedUnits st' + us_compiledUnits st' + length (us_units st) =
      us_reusedUnits st + us_compiledUnits st + length (us_units st')"
  shows "accounted (commands @ [command]) st'"
proof -
  from assms(1) obtain made where made: "subseq made commands" "map pu_identifier (us_units st) = map cc_file made"
      "mset (us_failedSources st) + mset (map cc_file made) = mset (map cc_file commands)"
      and count: "us_reusedUnits st + us_compiledUnits st = length (us_units st)"
    by (auto simp: accounted_def)
  have "us_reusedUnits st' + us_compiledUnits st' = length (us_units st')" using count assms(3) by simp
  moreover have "\<exists>made'. subseq made' (commands @ [command]) \<and> map pu_identifier (us_units st') = map cc_file made' \<and>
      mset (us_failedSources st') + mset (map cc_file made') = mset (map cc_file (commands @ [command]))"
    using assms(2)
  proof
    assume "map pu_identifier (us_units st') = map pu_identifier (us_units st) @ [cc_file command] \<and>
       us_failedSources st' = us_failedSources st"
    then show ?thesis using made by (intro exI [of _ "made @ [command]"]) simp
  next
    assume "us_units st' = us_units st \<and> us_failedSources st' = us_failedSources st @ [cc_file command]"
    then show ?thesis using made by (intro exI [of _ made]) (auto intro: subseq_rev_drop_many)
  qed
  ultimately show ?thesis by (simp add: accounted_def)
qed

lemma prepareUnit_accounted:
  assumes "accounted commands st"
  shows "accounted (commands @ [command]) (prepareUnit w cache verbose command st)"
  using assms
  by (rule accounted_snoc) (simp_all add: prepareUnit_def Let_def split: option.split prod.split)

lemma prepareUnits_accounted: "accounted commands (prepareUnits w cache verbose commands)"
proof (induction commands rule: rev_induct)
  case Nil
  then show ?case by (simp add: prepareUnits_def accounted_def)
next
  case (snoc command commands)
  then show ?case unfolding prepareUnits_def fold_append comp_def by (auto intro: prepareUnit_accounted)
qed

lemma accounted_complete:
  assumes "accounted commands st" "us_failedSources st = []"
  shows "map pu_identifier (us_units st) = map cc_file commands"
proof -
  from assms obtain made where made: "subseq made commands" "map pu_identifier (us_units st) = map cc_file made"
      "mset (map cc_file made) = mset (map cc_file commands)"
    by (auto simp: accounted_def)
  have "length made = length commands" using mset_eq_length [OF made(3)] by simp
  then show ?thesis using made subseq_same_length [OF made(1)] by simp
qed

text \<open>
  C28: Each analyzable source of the database (one with a supported extension and not under \<open>/_deps/\<close>) becomes a
  unit, in the order of the database, or is listed as failed, and the units reused and the units
  compiled add up to the units; unless the exit code is 1, no analyzable source failed to compile, each of them
  is a unit and no unit failed to load. Sources that are not analyzable are left out silently, and units skipped for
  their ABI do not make the exit code 1.
\<close>
theorem partial_project_fails:
  "accounted commands (prepareUnits w cache verbose commands) \<and>
   (ex_code (analyzeProject w path opts fmt verbose useCache policy) = 1 \<or>
    (\<exists>database. loadFromFile (w_json w) (w_files w) path = Inr database \<and>
       (let cache = (if useCache
                     then openCache (w_createFails w) (w_isDirectory w)
                            (path_append (parent_path path) ''.coretrace-ir-cache'')
                     else None);
            st = prepareUnits w cache verbose (analyzableSources False database)
        in us_failedSources st = [] \<and> map pu_identifier (us_units st) = map cc_file (analyzableSources False database) \<and>
           pa_failedUnits (projectAnalysis w opts st) = [])))"
proof -
  have complete_units: "map pu_identifier (us_units (prepareUnits w cache verbose cs)) = map cc_file cs"
    if "us_failedSources (prepareUnits w cache verbose cs) = []" for cs cache
    using prepareUnits_accounted that by (rule accounted_complete)
  then show ?thesis
    using prepareUnits_accounted
    by (auto simp: analyzeProject_def Let_def failed_def complete_def split: sum.split)
qed

section \<open>The command of a unit\<close>

lemma readEntry_arguments:
  "readEntry js value = Inr c \<Longrightarrow> \<exists>raw file directory. cc_arguments c = replayableArguments raw file directory"
  by (auto simp: readEntry_def Let_def split: option.splits sum.splits intro!: exI)

lemma depfile_no_option: "depfilePathFor sha directory command \<noteq> ''-o''"
proof -
  have "last (depfilePathFor sha directory command) = CHR ''d''"
    by (simp add: depfilePathFor_def entryPath_def path_append_def)
  then show ?thesis by auto
qed

text \<open>
  Whatever flags the database records for a source, the command its unit is compiled with asks for the
  bitcode of that source with debug information, and \<open>-O0\<close> is the last optimization level it names;
  it names no output file, turns no warning into an error and asks for no assembly text.
\<close>
theorem unit_command_pinned:
  assumes "loadFromFile js files path = Inr database" "command \<in> set database"
    and "\<not> starts_with (cc_file command) ''-''"
  shows "let args = buildBC husk (unitRequest sha cache command)
    in (\<exists>before after. args = before @ ''-O0'' # after \<and> list_all (\<lambda>arg. \<not> starts_with arg ''-O'') after) \<and>
       {''-emit-llvm'', ''-c'', ''-g'', cc_file command} \<subseteq> set args \<and>
       list_all (\<lambda>arg. \<not> turnsWarningsIntoErrors arg \<and> \<not> starts_with arg ''-o'' \<and> arg \<noteq> ''-S'') args"
proof -
  have "\<exists>raw file directory. cc_arguments command = replayableArguments raw file directory"
    using loaded_commands(2) [OF assms(1,2)] by (auto dest: readEntry_arguments)
  then have "''-o'' \<notin> set (cc_arguments command)"
    using replayable_clean(2) [of "''-o''"] by (auto simp: starts_with_def)
  then have no_output: "''-o'' \<notin> set (rq_extraCompileArgs (unitRequest sha cache command))"
    using depfile_no_option [of sha _ command, symmetric] by (simp add: unitRequest_def split: option.split)
  have input: "rq_inputFile (unitRequest sha cache command) = cc_file command" by (simp add: unitRequest_def)
  show ?thesis
    using command_pinned [OF no_output, of husk] assms(3) unfolding input Let_def list_all_iff by (auto simp: Ball_def)
qed

theorem unit_command_pinned_witness:
  "list_all (\<lambda>arg. \<not> turnsWarningsIntoErrors arg \<and> \<not> starts_with arg ''-o'' \<and> arg \<noteq> ''-S'')
     (buildBC [] (unitRequest (\<lambda>_. []) None
        \<lparr>cc_file = ''/p/a.c'', cc_directory = ''/p'', cc_arguments = [''-DX'']\<rparr>))"
  using unit_command_pinned [OF sample_load, of "\<lparr>cc_file = ''/p/a.c'', cc_directory = ''/p'', cc_arguments = [''-DX'']\<rparr>" "[]" "\<lambda>_. []" None]
  by (simp add: starts_with_def Let_def)

end
