(* ===== verification/Symbol_Classifier.thy ===== *)
theory Symbol_Classifier
  imports Text
begin

text \<open>
  The recognition of synchronization calls (\<open>analysis/concurrency_symbol_classifier.cpp\<close>): the canonical
  name of a function, what kind of call a name stands for, the memo of the classifier, and the
  questions about a call that read its operands. The name of a function and what the operands of a
  call are, casts stripped, come from the IR: the records below hold what the code reads of it.
\<close>

datatype CallKind =
    CK_Unknown
  | CK_PThreadCreate
  | CK_PThreadJoin
  | CK_PThreadDetach
  | CK_PThreadMutexLock
  | CK_PThreadMutexUnlock
  | CK_PThreadMutexTryLock
  | CK_PThreadRwLockAcquire
  | CK_PThreadRwLockTryAcquire
  | CK_PThreadRwLockUnlock
  | CK_PThreadSpinLock
  | CK_PThreadSpinUnlock
  | CK_PThreadSpinTryLock
  | CK_PThreadMutexInit
  | CK_PThreadMutexAttrSetType
  | CK_StdThreadCtor
  | CK_StdThreadMove
  | CK_StdThreadJoin
  | CK_StdThreadDetach
  | CK_StdThreadDtor
  | CK_StdJThreadCtor
  | CK_StdMutexLock
  | CK_StdMutexUnlock
  | CK_StdMutexTryLock
  | CK_StdLockGuardCtor
  | CK_StdLockGuardDeferredCtor
  | CK_StdLockGuardDtor
  | CK_CondWaitWithoutPredicate
  | CK_CondWaitWithPredicate
  | CK_ProcessFork
  | CK_ProcessExec
  | CK_ProcessWait
  | CK_StaticInitGuardAcquire
  | CK_StaticInitGuardRelease
  | CK_ThreadExitDestructorRegistration
  | CK_PThreadOnce

fun call_kind_name :: "CallKind \<Rightarrow> string" where
  "call_kind_name CK_Unknown = ''unknown''"
| "call_kind_name CK_PThreadCreate = ''pthread_create''"
| "call_kind_name CK_PThreadJoin = ''pthread_join''"
| "call_kind_name CK_PThreadDetach = ''pthread_detach''"
| "call_kind_name CK_PThreadMutexLock = ''pthread_mutex_lock''"
| "call_kind_name CK_PThreadMutexUnlock = ''pthread_mutex_unlock''"
| "call_kind_name CK_PThreadMutexTryLock = ''pthread_mutex_trylock''"
| "call_kind_name CK_PThreadRwLockAcquire = ''pthread_rwlock_acquire''"
| "call_kind_name CK_PThreadRwLockTryAcquire = ''pthread_rwlock_tryacquire''"
| "call_kind_name CK_PThreadRwLockUnlock = ''pthread_rwlock_unlock''"
| "call_kind_name CK_PThreadSpinLock = ''pthread_spin_lock''"
| "call_kind_name CK_PThreadSpinUnlock = ''pthread_spin_unlock''"
| "call_kind_name CK_PThreadSpinTryLock = ''pthread_spin_trylock''"
| "call_kind_name CK_PThreadMutexInit = ''pthread_mutex_init''"
| "call_kind_name CK_PThreadMutexAttrSetType = ''pthread_mutexattr_settype''"
| "call_kind_name CK_StdThreadCtor = ''std_thread_ctor''"
| "call_kind_name CK_StdThreadMove = ''std_thread_move''"
| "call_kind_name CK_StdThreadJoin = ''std_thread_join''"
| "call_kind_name CK_StdThreadDetach = ''std_thread_detach''"
| "call_kind_name CK_StdThreadDtor = ''std_thread_dtor''"
| "call_kind_name CK_StdJThreadCtor = ''std_jthread_ctor''"
| "call_kind_name CK_StdMutexLock = ''std_mutex_lock''"
| "call_kind_name CK_StdMutexUnlock = ''std_mutex_unlock''"
| "call_kind_name CK_StdMutexTryLock = ''std_mutex_try_lock''"
| "call_kind_name CK_StdLockGuardCtor = ''std_lock_guard_ctor''"
| "call_kind_name CK_StdLockGuardDeferredCtor = ''std_lock_guard_deferred_ctor''"
| "call_kind_name CK_StdLockGuardDtor = ''std_lock_guard_dtor''"
| "call_kind_name CK_CondWaitWithoutPredicate = ''cond_wait_without_predicate''"
| "call_kind_name CK_CondWaitWithPredicate = ''cond_wait_with_predicate''"
| "call_kind_name CK_ProcessFork = ''fork''"
| "call_kind_name CK_ProcessExec = ''exec''"
| "call_kind_name CK_ProcessWait = ''wait''"
| "call_kind_name CK_StaticInitGuardAcquire = ''static_init_guard_acquire''"
| "call_kind_name CK_StaticInitGuardRelease = ''static_init_guard_release''"
| "call_kind_name CK_ThreadExitDestructorRegistration = ''thread_exit_destructor_registration''"
| "call_kind_name CK_PThreadOnce = ''pthread_once''"

section \<open>Canonical names\<close>

text \<open>
  The loop that strips ABI tags. Indexes and lengths are 64-bit: \<open>digitsEnd + tagLength\<close> wraps, so that the
  loop may go back and never end, which is \<^const>\<open>None\<close>; \<open>std::stoul\<close> throws on a number that does not fit,
  which is \<^const>\<open>Inl\<close>.
\<close>

type_synonym 'a outcome = "(unit + 'a) option"

partial_function (option) stripFrom :: "string \<Rightarrow> nat \<Rightarrow> string \<Rightarrow> string outcome" where
  "stripFrom name index stripped =
     (if index < length name
      then
        (if name ! index \<noteq> CHR ''B'' \<or> index + 1 \<ge> length name \<or> \<not> isdigit (name ! (index + 1))
         then stripFrom name (index + 1) (stripped @ [name ! index])
         else
           (let digits = takeWhile isdigit (drop (index + 1) name);
                digitsEnd = index + 1 + length digits;
                tagLength = digits_value digits
            in if tagLength \<ge> 2 ^ 64 then Some (Inl ())
               else if (digitsEnd + tagLength) mod 2 ^ 64 > length name
               then stripFrom name (index + 1) (stripped @ [name ! index])
               else stripFrom name ((digitsEnd + tagLength) mod 2 ^ 64) stripped))
      else Some (Inr stripped))"

definition stripAbiTags :: "string \<Rightarrow> string outcome" where
  "stripAbiTags name = stripFrom name 0 []"

definition canonicalName :: "string \<Rightarrow> string outcome" where
  "canonicalName name =
     (let name = (if starts_with name [CHR 0x01] then drop 1 name else name);
          name = (if starts_with name [CHR 0x5C, CHR ''0'', CHR ''1''] then drop 3 name else name)
      in if starts_with name ''_Z'' then stripAbiTags name else Some (Inr name))"

section \<open>Names of the standard library\<close>

definition isStdNamespaceSymbol :: "string \<Rightarrow> bool" where
  "isStdNamespaceSymbol name \<longleftrightarrow> starts_with name ''_ZNSt'' \<or> starts_with name ''_ZNKSt'' \<or>
     starts_with name ''_ZSt'' \<or> starts_with name ''_ZNVSt''"

definition isStdThreadCtor :: "string \<Rightarrow> bool" where
  "isStdThreadCtor name \<longleftrightarrow>
     (if \<not> isStdNamespaceSymbol name \<or> \<not> contains name ''thread'' then False
      else if \<not> (contains name ''threadC1'' \<or> contains name ''threadC2'') then False
      else if contains name ''threadC1Ev'' \<or> contains name ''threadC2Ev'' \<or> contains name ''ERKS0_'' \<or>
              contains name ''ERKS_'' \<or> contains name ''EOS0_'' \<or> contains name ''EOS_''
      then False else True)"

definition isStdJThreadCtor :: "string \<Rightarrow> bool" where
  "isStdJThreadCtor name \<longleftrightarrow> isStdNamespaceSymbol name \<and> contains name ''jthread'' \<and>
     (contains name ''threadC1'' \<or> contains name ''threadC2'')"

definition isStdThreadMove :: "string \<Rightarrow> bool" where
  "isStdThreadMove name \<longleftrightarrow>
     (if \<not> isStdNamespaceSymbol name \<or> \<not> contains name ''thread'' \<or>
         (\<not> contains name ''EOS0_'' \<and> \<not> contains name ''EOS_'')
      then False
      else contains name ''threadC1'' \<or> contains name ''threadC2'' \<or> contains name ''threadaS'')"

definition isLockGuardTemplate :: "string \<Rightarrow> bool" where
  "isLockGuardTemplate name \<longleftrightarrow> contains name ''lock_guard'' \<or> contains name ''unique_lock'' \<or>
     contains name ''scoped_lock'' \<or> contains name ''shared_lock''"

definition isStdLockGuardCtor :: "string \<Rightarrow> bool" where
  "isStdLockGuardCtor name \<longleftrightarrow> isStdNamespaceSymbol name \<and> isLockGuardTemplate name \<and>
     (contains name ''C1E'' \<or> contains name ''C2E'')"

definition isDeferredLockGuardCtor :: "string \<Rightarrow> bool" where
  "isDeferredLockGuardCtor name \<longleftrightarrow> contains name ''defer_lock''"

definition isStdLockGuardDtor :: "string \<Rightarrow> bool" where
  "isStdLockGuardDtor name \<longleftrightarrow> isStdNamespaceSymbol name \<and> isLockGuardTemplate name \<and>
     (contains name ''D1Ev'' \<or> contains name ''D2Ev'')"

definition matchesPlainSymbol :: "string \<Rightarrow> string \<Rightarrow> bool" where
  "matchesPlainSymbol actual expected \<longleftrightarrow> actual = expected \<or> starts_with actual ''_'' \<and> drop 1 actual = expected"

definition isStdMutexLock :: "string \<Rightarrow> bool" where
  "isStdMutexLock name \<longleftrightarrow>
     (if \<not> isStdNamespaceSymbol name \<or> \<not> contains name ''mutex'' then False
      else contains name ''4lockEv'' \<or> contains name ''11lock_sharedEv'')"

definition isStdMutexUnlock :: "string \<Rightarrow> bool" where
  "isStdMutexUnlock name \<longleftrightarrow>
     (if \<not> isStdNamespaceSymbol name \<or> \<not> contains name ''mutex'' then False
      else contains name ''6unlockEv'' \<or> contains name ''13unlock_sharedEv'')"

definition isStdMutexTryLock :: "string \<Rightarrow> bool" where
  "isStdMutexTryLock name \<longleftrightarrow>
     (if \<not> isStdNamespaceSymbol name \<or> \<not> contains name ''mutex'' then False
      else contains name ''8try_lockEv'' \<or> contains name ''15try_lock_sharedEv'')"

definition conditionWaitRechecksItself :: "string \<Rightarrow> bool option" where
  "conditionWaitRechecksItself name =
     (if \<not> isStdNamespaceSymbol name \<or> \<not> contains name ''condition_variable'' then None
      else if contains name ''4waitE'' then Some False
      else if contains name ''4waitI'' then Some True
      else if contains name ''wait_for'' \<or> contains name ''wait_until'' then Some (\<not> contains name ''9cv_status'')
      else None)"

definition isStdThreadJoin :: "string \<Rightarrow> bool" where
  "isStdThreadJoin name \<longleftrightarrow> isStdNamespaceSymbol name \<and> contains name ''thread'' \<and> contains name ''4joinEv''"

definition isStdThreadDtor :: "string \<Rightarrow> bool" where
  "isStdThreadDtor name \<longleftrightarrow> isStdNamespaceSymbol name \<and> contains name ''thread'' \<and>
     (contains name ''threadD1'' \<or> contains name ''threadD2'')"

definition isStdThreadDetach :: "string \<Rightarrow> bool" where
  "isStdThreadDetach name \<longleftrightarrow> isStdNamespaceSymbol name \<and> contains name ''thread'' \<and> contains name ''6detachEv''"

section \<open>The kind of a call\<close>

text \<open>\<open>classifyCallee\<close> after the canonical name: the second half, for names of namespace \<open>std\<close>, comes first.\<close>

definition classifyStd :: "string \<Rightarrow> CallKind" where
  "classifyStd name =
     (if isStdJThreadCtor name then CK_StdJThreadCtor
      else if isStdThreadMove name then CK_StdThreadMove
      else if isStdThreadCtor name then CK_StdThreadCtor
      else if isStdThreadJoin name then CK_StdThreadJoin
      else if isStdThreadDetach name then CK_StdThreadDetach
      else if isStdThreadDtor name then CK_StdThreadDtor
      else if isStdMutexTryLock name then CK_StdMutexTryLock
      else if isStdMutexLock name then CK_StdMutexLock
      else if isStdMutexUnlock name then CK_StdMutexUnlock
      else
        (case conditionWaitRechecksItself name of
           Some rechecks \<Rightarrow> if rechecks then CK_CondWaitWithPredicate else CK_CondWaitWithoutPredicate
         | None \<Rightarrow>
             if isStdLockGuardDtor name then CK_StdLockGuardDtor
             else if isStdLockGuardCtor name
             then (if isDeferredLockGuardCtor name then CK_StdLockGuardDeferredCtor else CK_StdLockGuardCtor)
             else CK_Unknown))"

definition classifyName :: "string \<Rightarrow> CallKind" where
  "classifyName name =
     (if matchesPlainSymbol name ''pthread_create''
      then CK_PThreadCreate
      else if matchesPlainSymbol name ''pthread_join''
      then CK_PThreadJoin
      else if matchesPlainSymbol name ''pthread_detach''
      then CK_PThreadDetach
      else if matchesPlainSymbol name ''fork'' \<or> matchesPlainSymbol name ''vfork''
      then CK_ProcessFork
      else if matchesPlainSymbol name ''execl'' \<or> matchesPlainSymbol name ''execlp'' \<or>
         matchesPlainSymbol name ''execle'' \<or> matchesPlainSymbol name ''execv'' \<or>
         matchesPlainSymbol name ''execvp'' \<or> matchesPlainSymbol name ''execvpe'' \<or>
         matchesPlainSymbol name ''execve'' \<or> matchesPlainSymbol name ''posix_spawn'' \<or>
         matchesPlainSymbol name ''posix_spawnp''
      then CK_ProcessExec
      else if matchesPlainSymbol name ''wait'' \<or> matchesPlainSymbol name ''waitpid'' \<or>
         matchesPlainSymbol name ''waitid'' \<or> matchesPlainSymbol name ''wait3'' \<or>
         matchesPlainSymbol name ''wait4''
      then CK_ProcessWait
      else if matchesPlainSymbol name ''pthread_cond_wait'' \<or> matchesPlainSymbol name ''pthread_cond_timedwait''
      then CK_CondWaitWithoutPredicate
      else if matchesPlainSymbol name ''pthread_mutex_lock''
      then CK_PThreadMutexLock
      else if matchesPlainSymbol name ''pthread_mutex_unlock''
      then CK_PThreadMutexUnlock
      else if matchesPlainSymbol name ''pthread_mutex_trylock'' \<or>
         matchesPlainSymbol name ''pthread_mutex_timedlock''
      then CK_PThreadMutexTryLock
      else if matchesPlainSymbol name ''pthread_rwlock_rdlock'' \<or>
         matchesPlainSymbol name ''pthread_rwlock_wrlock''
      then CK_PThreadRwLockAcquire
      else if matchesPlainSymbol name ''pthread_rwlock_tryrdlock'' \<or>
         matchesPlainSymbol name ''pthread_rwlock_trywrlock'' \<or>
         matchesPlainSymbol name ''pthread_rwlock_timedrdlock'' \<or>
         matchesPlainSymbol name ''pthread_rwlock_timedwrlock''
      then CK_PThreadRwLockTryAcquire
      else if matchesPlainSymbol name ''pthread_rwlock_unlock''
      then CK_PThreadRwLockUnlock
      else if matchesPlainSymbol name ''pthread_spin_lock''
      then CK_PThreadSpinLock
      else if matchesPlainSymbol name ''pthread_spin_unlock''
      then CK_PThreadSpinUnlock
      else if matchesPlainSymbol name ''pthread_spin_trylock''
      then CK_PThreadSpinTryLock
      else if matchesPlainSymbol name ''pthread_once''
      then CK_PThreadOnce
      else if matchesPlainSymbol name ''__cxa_thread_atexit'' \<or>
         matchesPlainSymbol name ''__cxa_thread_atexit_impl'' \<or> matchesPlainSymbol name ''_tlv_atexit''
      then CK_ThreadExitDestructorRegistration
      else if matchesPlainSymbol name ''__cxa_guard_acquire''
      then CK_StaticInitGuardAcquire
      else if matchesPlainSymbol name ''__cxa_guard_release'' \<or> matchesPlainSymbol name ''__cxa_guard_abort''
      then CK_StaticInitGuardRelease
      else if matchesPlainSymbol name ''pthread_mutex_init''
      then CK_PThreadMutexInit
      else if matchesPlainSymbol name ''pthread_mutexattr_settype''
      then CK_PThreadMutexAttrSetType
      else classifyStd name)"

text \<open>A question about the canonical name of a function.\<close>

definition onCanonical :: "(string \<Rightarrow> 'a) \<Rightarrow> string \<Rightarrow> 'a outcome" where
  "onCanonical f name = map_option (map_sum id f) (canonicalName name)"

definition classifyCallee :: "string \<Rightarrow> CallKind outcome" where
  "classifyCallee = onCanonical classifyName"

section \<open>The classifier\<close>

text \<open>
  Functions are known by their addresses, here numbers; \<open>nameOf\<close> gives the name of the function at an
  address. The classifier remembers what it answered for a function.
\<close>

type_synonym cache = "nat \<rightharpoonup> CallKind"

definition classify :: "(nat \<Rightarrow> string) \<Rightarrow> nat \<Rightarrow> cache \<Rightarrow> (CallKind \<times> cache) outcome" where
  "classify nameOf callee cache =
     (case cache callee of
        Some kind \<Rightarrow> Some (Inr (kind, cache))
      | None \<Rightarrow> map_option (map_sum id (\<lambda>kind. (kind, cache(callee \<mapsto> kind)))) (classifyCallee (nameOf callee)))"

text \<open>
  What the code reads of an operand: an integer constant, a constant cast of an integer to a pointer, a
  function behind casts, or storage of the frame with the values stored into it, directly or
  through an element address.
\<close>

datatype storage_user = GetElementPtr "nat option option list" | Store "nat option" | OtherUser

datatype operand =
    ConstantInt int
  | IntToPtr "int option"
  | FunctionOperand nat
  | Alloca "storage_user list"
  | OtherOperand

record CallBase =
  cb_directCallee :: "nat option"
  cb_args :: "operand list"

definition classifyCall :: "(nat \<Rightarrow> string) \<Rightarrow> CallBase \<Rightarrow> cache \<Rightarrow> (CallKind \<times> cache) outcome" where
  "classifyCall nameOf call cache =
     (case cb_directCallee call of Some callee \<Rightarrow> classify nameOf callee cache | None \<Rightarrow> Some (Inr (CK_Unknown, cache)))"

definition aboutCallee :: "(nat \<Rightarrow> string) \<Rightarrow> (string \<Rightarrow> bool) \<Rightarrow> CallBase \<Rightarrow> bool outcome" where
  "aboutCallee nameOf f call =
     (case cb_directCallee call of None \<Rightarrow> Some (Inr False) | Some callee \<Rightarrow> onCanonical f (nameOf callee))"

definition targetsRecursiveLock :: "(nat \<Rightarrow> string) \<Rightarrow> CallBase \<Rightarrow> bool outcome" where
  "targetsRecursiveLock nameOf =
     aboutCallee nameOf (\<lambda>canonical. contains canonical ''recursive_mutex'' \<or> contains canonical ''recursive_timed_mutex'')"

definition adoptsHeldLocks :: "(nat \<Rightarrow> string) \<Rightarrow> CallBase \<Rightarrow> bool outcome" where
  "adoptsHeldLocks nameOf = aboutCallee nameOf (\<lambda>canonical. contains canonical ''adopt_lock'')"

definition callsStandardLibrary :: "(nat \<Rightarrow> string) \<Rightarrow> CallBase \<Rightarrow> bool outcome" where
  "callsStandardLibrary nameOf = aboutCallee nameOf isStdNamespaceSymbol"

definition releasesMemory :: "(nat \<Rightarrow> string) \<Rightarrow> CallBase \<Rightarrow> bool outcome" where
  "releasesMemory nameOf call =
     (if cb_args call = [] then Some (Inr False)
      else aboutCallee nameOf
             (\<lambda>name. matchesPlainSymbol name ''free'' \<or> starts_with name ''_ZdlPv'' \<or> starts_with name ''_ZdaPv'') call)"

definition kUnsafe :: "string list" where
  "kUnsafe =
     [''malloc'', ''calloc'', ''realloc'', ''free'', ''exit'', ''printf'', ''fprintf'',
      ''sprintf'', ''snprintf'', ''vprintf'', ''vfprintf'', ''puts'', ''fputs'', ''putchar'',
      ''fopen'', ''fclose'', ''fwrite'', ''fread'', ''strtok'']"

fun isUnsafeKind :: "CallKind \<Rightarrow> bool" where
  "isUnsafeKind CK_PThreadMutexLock \<longleftrightarrow> True"
| "isUnsafeKind CK_PThreadMutexUnlock \<longleftrightarrow> True"
| "isUnsafeKind CK_PThreadMutexTryLock \<longleftrightarrow> True"
| "isUnsafeKind CK_PThreadRwLockAcquire \<longleftrightarrow> True"
| "isUnsafeKind CK_PThreadRwLockTryAcquire \<longleftrightarrow> True"
| "isUnsafeKind CK_PThreadRwLockUnlock \<longleftrightarrow> True"
| "isUnsafeKind CK_StdMutexLock \<longleftrightarrow> True"
| "isUnsafeKind CK_StdMutexUnlock \<longleftrightarrow> True"
| "isUnsafeKind CK_StdMutexTryLock \<longleftrightarrow> True"
| "isUnsafeKind CK_StdLockGuardCtor \<longleftrightarrow> True"
| "isUnsafeKind CK_StdLockGuardDtor \<longleftrightarrow> True"
| "isUnsafeKind CK_CondWaitWithoutPredicate \<longleftrightarrow> True"
| "isUnsafeKind CK_CondWaitWithPredicate \<longleftrightarrow> True"
| "isUnsafeKind _ \<longleftrightarrow> False"

definition isUnsafeName :: "string \<Rightarrow> bool" where
  "isUnsafeName name \<longleftrightarrow> (\<exists>unsafe \<in> set kUnsafe. matchesPlainSymbol name unsafe) \<or>
     starts_with name ''_Znw'' \<or> starts_with name ''_Zna'' \<or> starts_with name ''_ZdlPv'' \<or> starts_with name ''_ZdaPv''"

definition isAsyncSignalUnsafe :: "(nat \<Rightarrow> string) \<Rightarrow> CallBase \<Rightarrow> cache \<Rightarrow> (bool \<times> cache) outcome" where
  "isAsyncSignalUnsafe nameOf call cache =
     (case cb_directCallee call of
        None \<Rightarrow> Some (Inr (False, cache))
      | Some callee \<Rightarrow>
          (case onCanonical isUnsafeName (nameOf callee) of
             None \<Rightarrow> None
           | Some (Inl e) \<Rightarrow> Some (Inl e)
           | Some (Inr unsafe) \<Rightarrow>
               if unsafe then Some (Inr (True, cache))
               else map_option (map_sum id (\<lambda>(kind, cache). (isUnsafeKind kind, cache))) (classifyCall nameOf call cache)))"

definition isSignalSetter :: "string \<Rightarrow> bool" where
  "isSignalSetter name \<longleftrightarrow>
     matchesPlainSymbol name ''signal'' \<or> matchesPlainSymbol name ''bsd_signal'' \<or> matchesPlainSymbol name ''sigset''"

definition ignoresChildTermination :: "(nat \<Rightarrow> string) \<Rightarrow> CallBase \<Rightarrow> bool outcome" where
  "ignoresChildTermination nameOf call =
     (if length (cb_args call) \<le> 1 then Some (Inr False)
      else aboutCallee nameOf
             (\<lambda>name. isSignalSetter name \<and>
                (case cb_args call ! 0 of
                   ConstantInt signalNumber \<Rightarrow>
                     signalNumber \<in> {17, 20} \<and>
                     (case cb_args call ! 1 of IntToPtr handlerValue \<Rightarrow> handlerValue = Some 1 | _ \<Rightarrow> False)
                 | _ \<Rightarrow> False)) call)"

fun functionBehind :: "operand \<Rightarrow> nat option" where
  "functionBehind (FunctionOperand f) = Some f"
| "functionBehind _ = None"

text \<open>An element address is used by stores, \<^const>\<open>Some\<close> of the function stored if any, and by others, \<^const>\<open>None\<close>.\<close>

fun storedHandler :: "storage_user list \<Rightarrow> nat option" where
  "storedHandler [] = None"
| "storedHandler (user # users) =
     (case user of
        GetElementPtr nested \<Rightarrow>
          (case find (\<lambda>use. use \<noteq> None \<and> use \<noteq> Some None) nested of
             Some (Some handler) \<Rightarrow> handler
           | _ \<Rightarrow> storedHandler users)
      | Store (Some handler) \<Rightarrow> Some handler
      | _ \<Rightarrow> storedHandler users)"

definition installedSignalHandler :: "(nat \<Rightarrow> string) \<Rightarrow> CallBase \<Rightarrow> nat option outcome" where
  "installedSignalHandler nameOf call =
     (case cb_directCallee call of
        None \<Rightarrow> Some (Inr None)
      | Some callee \<Rightarrow>
          onCanonical
            (\<lambda>name.
               if isSignalSetter name
               then (if length (cb_args call) \<le> 1 then None else functionBehind (cb_args call ! 1))
               else if \<not> matchesPlainSymbol name ''sigaction'' \<or> length (cb_args call) \<le> 1 then None
               else (case cb_args call ! 1 of Alloca users \<Rightarrow> storedHandler users | _ \<Rightarrow> None))
            (nameOf callee))"

section \<open>ABI tags\<close>

text \<open>A part of a name in which nothing reads as a tag, and a tag as the ABI writes it.\<close>

fun tagFree :: "string \<Rightarrow> bool" where
  "tagFree [] \<longleftrightarrow> True"
| "tagFree [c] \<longleftrightarrow> c \<noteq> CHR ''B''"
| "tagFree (c # d # cs) \<longleftrightarrow> \<not> (c = CHR ''B'' \<and> isdigit d) \<and> tagFree (d # cs)"

definition abiTag :: "string \<Rightarrow> string" where
  "abiTag t = CHR ''B'' # to_string_nat (length t) @ t"

definition tagged :: "(string \<times> string) list \<Rightarrow> string \<Rightarrow> string" where
  "tagged ps z = concat (map (\<lambda>(a, t). a @ abiTag t) ps) @ z"

definition isTag :: "string \<Rightarrow> bool" where
  "isTag t \<longleftrightarrow> t \<noteq> [] \<and> \<not> isdigit (hd t)"

lemma tagFree_append: "tagFree a \<Longrightarrow> tagFree b \<Longrightarrow> tagFree (a @ b)"
proof (induction a rule: tagFree.induct)
  case (2 c)
  then show ?case by (cases b) auto
qed simp_all

lemma stripFrom_free:
  "tagFree a \<Longrightarrow> stripFrom (p @ a @ r) (length p) acc = stripFrom (p @ a @ r) (length p + length a) (acc @ a)"
proof (induction a arbitrary: p acc rule: tagFree.induct)
  case (2 c)
  then show ?case by (simp add: stripFrom.simps [of _ "length p"] nth_append)
next
  case (3 c d cs)
  have "stripFrom (p @ (c # d # cs) @ r) (length p) acc = stripFrom ((p @ [c]) @ (d # cs) @ r) (length (p @ [c])) (acc @ [c])"
    using 3(2) by (subst stripFrom.simps) (auto simp: nth_append)
  also have "\<dots> = stripFrom ((p @ [c]) @ (d # cs) @ r) (length (p @ [c]) + length (d # cs)) ((acc @ [c]) @ d # cs)"
    using 3(2) by (intro 3(1)) simp
  finally show ?case by simp
qed simp

lemma takeWhile_number:
  "isTag t \<Longrightarrow> takeWhile isdigit (to_string_nat n @ t @ r) = to_string_nat n"
  by (subst takeWhile_append2) (auto simp: isTag_def to_string_nat_digits neq_Nil_conv)

lemma to_string_nat_head: "\<exists>c cs. to_string_nat n = c # cs \<and> isdigit c"
  by (metis hd_in_set list.exhaust_sel to_string_nat_digits to_string_nat_nonempty)

lemma stripFrom_tag:
  assumes "isTag t" "length (p @ abiTag t @ r) < 2 ^ 64"
  shows "stripFrom (p @ abiTag t @ r) (length p) acc = stripFrom (p @ abiTag t @ r) (length p + length (abiTag t)) acc"
proof -
  let ?name = "p @ abiTag t @ r" and ?n = "to_string_nat (length t)"
  obtain c cs where n: "?n = c # cs" "isdigit c" using to_string_nat_head by blast
  have at: "length p < length ?name" "?name ! length p = CHR ''B''" by (simp_all add: abiTag_def nth_append)
  have next_digit: "\<not> (length p + 1 \<ge> length ?name)" "isdigit (?name ! (length p + 1))"
    using n by (simp_all add: abiTag_def nth_append)
  have digits: "takeWhile isdigit (drop (length p + 1) ?name) = ?n"
    using takeWhile_number [OF assms(1)] by (simp add: abiTag_def)
  have total: "length p + 1 + length ?n + length t = length p + length (abiTag t)" by (simp add: abiTag_def)
  have fits: "length p + length (abiTag t) < 2 ^ 64" "length t < 2 ^ 64" using assms(2) by (simp_all add: abiTag_def)
  have "(length p + length (abiTag t)) mod 2 ^ 64 = length p + length (abiTag t)" using fits(1) by (rule mod_less)
  then show ?thesis
    unfolding stripFrom.simps [of ?name "length p"] Let_def digits digits_value_to_string total
    using at next_digit fits(2) by simp
qed

lemma stripFrom_tagged:
  assumes "list_all (\<lambda>(a, t). tagFree a \<and> isTag t) ps" "tagFree z" "length (p @ tagged ps z) < 2 ^ 64"
  shows "stripFrom (p @ tagged ps z) (length p) acc = Some (Inr (acc @ concat (map fst ps) @ z))"
  using assms
proof (induction ps arbitrary: p acc)
  case Nil
  then show ?case
    using stripFrom_free [of z p "[]" acc] by (simp add: tagged_def stripFrom.simps [of _ "length p + length z"])
next
  case (Cons at ps)
  obtain a t where at: "at = (a, t)" by (cases at)
  let ?r = "tagged ps z"
  have name: "p @ tagged (at # ps) z = p @ a @ abiTag t @ ?r" by (simp add: tagged_def at)
  have "stripFrom (p @ a @ abiTag t @ ?r) (length p) acc = stripFrom ((p @ a) @ abiTag t @ ?r) (length (p @ a)) (acc @ a)"
    using Cons.prems by (simp add: stripFrom_free at)
  also have "\<dots> = stripFrom ((p @ a @ abiTag t) @ ?r) (length (p @ a @ abiTag t)) (acc @ a)"
    using Cons.prems unfolding name by (subst stripFrom_tag) (simp_all add: at add.assoc)
  also have "\<dots> = Some (Inr ((acc @ a) @ concat (map fst ps) @ z))"
    using Cons.prems unfolding name by (intro Cons.IH) simp_all
  finally show ?case unfolding name by (simp add: at)
qed

lemma canonical_mangled: "canonicalName (''_Z'' @ name) = stripAbiTags (''_Z'' @ name)"
  by (simp add: canonicalName_def starts_with_def Let_def)

text \<open>
  The ABI tags of a mangled name are stripped and nothing else is: wherever tags stand between the parts of
  a name, its canonical name is the parts put together, and a call is classified as if the function
  had no tags.
\<close>
theorem abi_tags_stripped:
  assumes "list_all (\<lambda>(a, t). tagFree a \<and> isTag t) ps" "tagFree z" "length (tagged ps z) + 2 < 2 ^ 64"
  shows "canonicalName (''_Z'' @ tagged ps z) = Some (Inr (''_Z'' @ concat (map fst ps) @ z)) \<and>
    classifyCallee (''_Z'' @ tagged ps z) = classifyCallee (''_Z'' @ concat (map fst ps) @ z)"
proof -
  have stripped: "canonicalName (''_Z'' @ tagged ps z) = Some (Inr (''_Z'' @ concat (map fst ps) @ z))"
    if "list_all (\<lambda>(a, t). tagFree a \<and> isTag t) ps" "tagFree z" "length (tagged ps z) + 2 < 2 ^ 64" for ps z
  proof -
    have "stripFrom (''_Z'' @ tagged ps z) 0 [] = stripFrom (''_Z'' @ tagged ps z) (length ''_Z'') ''_Z''"
      using stripFrom_free [of "''_Z''" "[]" "tagged ps z" "[]"] by simp
    also have "\<dots> = Some (Inr (''_Z'' @ concat (map fst ps) @ z))" using that by (intro stripFrom_tagged) simp_all
    finally show ?thesis unfolding canonical_mangled stripAbiTags_def .
  qed
  have "tagFree (concat (map fst ps) @ z)"
    using assms(1,2) by (induction ps) (auto intro: tagFree_append)
  moreover have "length (concat (map fst ps)) \<le> length (concat (map (\<lambda>(a, t). a @ abiTag t) ps))" by (induction ps) auto
  ultimately have "canonicalName (''_Z'' @ concat (map fst ps) @ z) = Some (Inr (''_Z'' @ concat (map fst ps) @ z))"
    using stripped [of "[]" "concat (map fst ps) @ z"] assms(3) by (simp add: tagged_def)
  then show ?thesis using stripped [OF assms] by (simp add: classifyCallee_def onCanonical_def)
qed

theorem abi_tags_stripped_witness:
  "canonicalName (''_Z'' @ tagged [(''3foo'', ''cxx11'')] ''Ev'') = Some (Inr (''_Z'' @ concat (map fst [(''3foo'', ''cxx11'')]) @ ''Ev''))"
proof -
  have name: "tagged [(''3foo'', ''cxx11'')] ''Ev'' = ''3fooB5cxx11Ev''" by code_simp
  have "list_all (\<lambda>(a, t). tagFree a \<and> isTag t) [(''3foo'', ''cxx11'')]" "tagFree ''Ev''"
    "length (tagged [(''3foo'', ''cxx11'')] ''Ev'') + 2 < 2 ^ 64"
    by (simp_all add: isTag_def isdigit_def name)
  from abi_tags_stripped [OF this] show ?thesis by blast
qed

text \<open>
  A length that makes \<open>digitsEnd + tagLength\<close> wrap to the index of the tag itself: the loop never ends.
\<close>

lemma strip_never_returns: "stripAbiTags ''_ZB18446744073709551595'' = None"
proof -
  let ?name = "''_ZB18446744073709551595''"
  have digits: "takeWhile isdigit (drop 3 ?name) = drop 3 ?name" by (simp add: isdigit_def)
  have number: "digits_value (drop 3 ?name) = 18446744073709551595" by (simp add: digits_value_def digit_value_def)
  have "False" if "stripFrom ?name 2 acc = Some r" for acc r
  proof -
    have "?name = ?name \<longrightarrow> (2 :: nat) \<noteq> 2"
      using that
    proof (rule stripFrom.raw_induct [where P = "\<lambda>n i a r. n = ?name \<longrightarrow> i \<noteq> 2", rotated])
      fix f n i a y
      assume ih: "\<And>n i a y. f n i a = Some y \<Longrightarrow> n = ?name \<longrightarrow> i \<noteq> 2"
        and step: "(if i < length n
          then if n ! i \<noteq> CHR ''B'' \<or> length n \<le> i + 1 \<or> \<not> isdigit (n ! (i + 1)) then f n (i + 1) (a @ [n ! i])
               else let digits = takeWhile isdigit (drop (i + 1) n); digitsEnd = i + 1 + length digits; tagLength = digits_value digits
                    in if 2 ^ 64 \<le> tagLength then Some (Inl ())
                       else if length n < (digitsEnd + tagLength) mod 2 ^ 64 then f n (i + 1) (a @ [n ! i])
                       else f n ((digitsEnd + tagLength) mod 2 ^ 64) a
          else Some (Inr a)) = Some y"
      show "n = ?name \<longrightarrow> i \<noteq> 2"
      proof (intro impI notI)
        assume at: "n = ?name" "i = 2"
        have "f ?name 2 a = Some y"
          using step unfolding at by (simp add: isdigit_def digits [simplified] number [simplified])
        then show False using ih by blast
      qed
    qed
    then show False using that by blast
  qed
  then have "stripFrom ?name 2 acc = None" for acc by (cases "stripFrom ?name 2 acc") blast+
  moreover have "stripFrom ?name 0 [] = stripFrom ?name 2 ''_Z''"
    by (subst stripFrom.simps, simp, subst stripFrom.simps, simp add: numeral_2_eq_2)
  ultimately show ?thesis by (simp add: stripAbiTags_def)
qed

section \<open>Which names are classified\<close>

definition plainTable :: "(string \<times> CallKind) list" where
  "plainTable =
     [(''pthread_create'', CK_PThreadCreate),
      (''pthread_join'', CK_PThreadJoin),
      (''pthread_detach'', CK_PThreadDetach),
      (''fork'', CK_ProcessFork),
      (''vfork'', CK_ProcessFork),
      (''execl'', CK_ProcessExec),
      (''execlp'', CK_ProcessExec),
      (''execle'', CK_ProcessExec),
      (''execv'', CK_ProcessExec),
      (''execvp'', CK_ProcessExec),
      (''execvpe'', CK_ProcessExec),
      (''execve'', CK_ProcessExec),
      (''posix_spawn'', CK_ProcessExec),
      (''posix_spawnp'', CK_ProcessExec),
      (''wait'', CK_ProcessWait),
      (''waitpid'', CK_ProcessWait),
      (''waitid'', CK_ProcessWait),
      (''wait3'', CK_ProcessWait),
      (''wait4'', CK_ProcessWait),
      (''pthread_cond_wait'', CK_CondWaitWithoutPredicate),
      (''pthread_cond_timedwait'', CK_CondWaitWithoutPredicate),
      (''pthread_mutex_lock'', CK_PThreadMutexLock),
      (''pthread_mutex_unlock'', CK_PThreadMutexUnlock),
      (''pthread_mutex_trylock'', CK_PThreadMutexTryLock),
      (''pthread_mutex_timedlock'', CK_PThreadMutexTryLock),
      (''pthread_rwlock_rdlock'', CK_PThreadRwLockAcquire),
      (''pthread_rwlock_wrlock'', CK_PThreadRwLockAcquire),
      (''pthread_rwlock_tryrdlock'', CK_PThreadRwLockTryAcquire),
      (''pthread_rwlock_trywrlock'', CK_PThreadRwLockTryAcquire),
      (''pthread_rwlock_timedrdlock'', CK_PThreadRwLockTryAcquire),
      (''pthread_rwlock_timedwrlock'', CK_PThreadRwLockTryAcquire),
      (''pthread_rwlock_unlock'', CK_PThreadRwLockUnlock),
      (''pthread_spin_lock'', CK_PThreadSpinLock),
      (''pthread_spin_unlock'', CK_PThreadSpinUnlock),
      (''pthread_spin_trylock'', CK_PThreadSpinTryLock),
      (''pthread_once'', CK_PThreadOnce),
      (''__cxa_thread_atexit'', CK_ThreadExitDestructorRegistration),
      (''__cxa_thread_atexit_impl'', CK_ThreadExitDestructorRegistration),
      (''_tlv_atexit'', CK_ThreadExitDestructorRegistration),
      (''__cxa_guard_acquire'', CK_StaticInitGuardAcquire),
      (''__cxa_guard_release'', CK_StaticInitGuardRelease),
      (''__cxa_guard_abort'', CK_StaticInitGuardRelease),
      (''pthread_mutex_init'', CK_PThreadMutexInit),
      (''pthread_mutexattr_settype'', CK_PThreadMutexAttrSetType)]"

fun firstPlain :: "string \<Rightarrow> (string \<times> CallKind) list \<Rightarrow> CallKind \<Rightarrow> CallKind" where
  "firstPlain name [] otherwise = otherwise"
| "firstPlain name ((symbol, kind) # table) otherwise =
     (if matchesPlainSymbol name symbol then kind else firstPlain name table otherwise)"

lemma if_or: "(if P \<or> Q then x else y) = (if P then x else if Q then x else y)"
  by simp

lemma classifyName_table: "classifyName name = firstPlain name plainTable (classifyStd name)"
  by (simp only: classifyName_def plainTable_def firstPlain.simps if_or)

lemma firstPlain_cases: "firstPlain name table otherwise = otherwise \<or> (\<exists>symbol \<in> fst ` set table. matchesPlainSymbol name symbol)"
  by (induction table) auto

lemma classifyStd_gated: "\<not> isStdNamespaceSymbol name \<Longrightarrow> classifyStd name = CK_Unknown"
  by (simp add: classifyStd_def isStdJThreadCtor_def isStdThreadMove_def isStdThreadCtor_def isStdThreadJoin_def
      isStdThreadDetach_def isStdThreadDtor_def isStdMutexTryLock_def isStdMutexLock_def isStdMutexUnlock_def
      conditionWaitRechecksItself_def isStdLockGuardDtor_def isStdLockGuardCtor_def)

lemma plain_symbols_classified:
  "list_all (\<lambda>(symbol, kind). classifyName symbol = kind \<and> classifyName (CHR ''_'' # symbol) = kind) plainTable"
  by code_simp

text \<open>
  Each plain symbol of the table has its kind, with and without a leading underscore, and no other name has
  a kind unless it belongs to namespace \<open>std\<close>: a user type whose name contains the name of a lock or a
  thread is not taken for one.
\<close>
theorem names_classified:
  "list_all (\<lambda>(symbol, kind). classifyName symbol = kind \<and> classifyName (CHR ''_'' # symbol) = kind) plainTable \<and>
   (classifyName name = CK_Unknown \<or> isStdNamespaceSymbol name \<or>
    (\<exists>symbol \<in> fst ` set plainTable. matchesPlainSymbol name symbol))"
  using plain_symbols_classified firstPlain_cases [of name plainTable "classifyStd name"] classifyStd_gated [of name]
  unfolding classifyName_table by metis

section \<open>The memo\<close>

text \<open>What a classifier answers for a sequence of functions, and what it would answer without its memo.\<close>

definition bind_outcome :: "'a outcome \<Rightarrow> ('a \<Rightarrow> 'b outcome) \<Rightarrow> 'b outcome" where
  "bind_outcome outcome f = (case outcome of None \<Rightarrow> None | Some (Inl e) \<Rightarrow> Some (Inl e) | Some (Inr x) \<Rightarrow> f x)"

fun classifyEach :: "(nat \<Rightarrow> string) \<Rightarrow> nat list \<Rightarrow> cache \<Rightarrow> CallKind list outcome" where
  "classifyEach nameOf [] cache = Some (Inr [])"
| "classifyEach nameOf (callee # callees) cache =
     bind_outcome (classify nameOf callee cache)
       (\<lambda>(kind, cache). map_option (map_sum id ((#) kind)) (classifyEach nameOf callees cache))"

fun classifyAlone :: "(nat \<Rightarrow> string) \<Rightarrow> nat list \<Rightarrow> CallKind list outcome" where
  "classifyAlone nameOf [] = Some (Inr [])"
| "classifyAlone nameOf (callee # callees) =
     bind_outcome (classifyCallee (nameOf callee)) (\<lambda>kind. map_option (map_sum id ((#) kind)) (classifyAlone nameOf callees))"

definition coherent :: "(nat \<Rightarrow> string) \<Rightarrow> cache \<Rightarrow> bool" where
  "coherent nameOf cache \<longleftrightarrow> (\<forall>callee kind. cache callee = Some kind \<longrightarrow> classifyCallee (nameOf callee) = Some (Inr kind))"

lemma classify_coherent:
  assumes "coherent nameOf cache"
  shows "\<exists>cache'. coherent nameOf cache' \<and>
    classify nameOf callee cache = map_option (map_sum id (\<lambda>kind. (kind, cache'))) (classifyCallee (nameOf callee))"
proof (cases "cache callee")
  case (Some kind)
  then have "classifyCallee (nameOf callee) = Some (Inr kind)" using assms by (simp add: coherent_def)
  then show ?thesis using assms Some by (intro exI [of _ cache]) (simp add: classify_def)
next
  case None
  show ?thesis
  proof (cases "\<exists>kind. classifyCallee (nameOf callee) = Some (Inr kind)")
    case True
    then obtain kind where "classifyCallee (nameOf callee) = Some (Inr kind)" ..
    then show ?thesis
      using assms None by (intro exI [of _ "cache(callee \<mapsto> kind)"]) (auto simp: classify_def coherent_def)
  next
    case False
    then show ?thesis
      using assms None
      by (intro exI [of _ cache], cases "classifyCallee (nameOf callee)"; cases "the (classifyCallee (nameOf callee))")
        (simp_all add: classify_def)
  qed
qed

lemma classifyEach_coherent: "coherent nameOf cache \<Longrightarrow> classifyEach nameOf callees cache = classifyAlone nameOf callees"
proof (induction callees arbitrary: cache)
  case (Cons callee callees)
  obtain cache' where c: "coherent nameOf cache'"
    "classify nameOf callee cache = map_option (map_sum id (\<lambda>kind. (kind, cache'))) (classifyCallee (nameOf callee))"
    using classify_coherent [OF Cons.prems] by blast
  show ?case
    using Cons.IH [OF c(1)] by (simp add: c(2) bind_outcome_def split: option.split sum.split)
qed simp

text \<open>
  The memo of the classifier is not seen from outside: for every sequence of functions a new classifier
  gives the kinds that classifying each function on its own gives, an exception included.
\<close>
theorem memo_transparent: "classifyEach nameOf callees Map.empty = classifyAlone nameOf callees"
  by (rule classifyEach_coherent) (simp add: coherent_def)

end
