(* ===== verification/Lock_Ids.thy ===== *)
theory Lock_Ids
  imports Facts Text
begin

text \<open>
  The names of locks (\<open>parameterLockPlace\<close>, \<open>lockIdAt\<close> and \<open>lockIdRoot\<close> of \<open>analysis/ir_utils.cpp\<close>) and the
  bindings they are read back into (\<open>RootBinding\<close> of \<open>analysis/facts.hpp\<close>). An exception of the number
  parsers of the standard library is \<^const>\<open>Inl\<close>.
\<close>

datatype RootBindingKind = RB_Global | RB_Argument

record LinearIndex =
  li_parameter :: "nat option"
  li_scale :: i64
  li_offset :: i64
  li_widened :: bool

record RootBinding =
  rb_kind :: RootBindingKind
  rb_symbol :: string
  rb_argumentIndex :: nat
  rb_region :: MemoryRegion
  rb_designated :: MemoryRegion
  rb_index :: "LinearIndex option"

definition globalRoot :: "string \<Rightarrow> MemoryRegion \<Rightarrow> RootBinding" where
  "globalRoot symbol region =
     \<lparr>rb_kind = RB_Global, rb_symbol = symbol, rb_argumentIndex = 0, rb_region = region,
      rb_designated = whole_region, rb_index = None\<rparr>"

definition argumentRoot :: "nat \<Rightarrow> MemoryRegion \<Rightarrow> RootBinding" where
  "argumentRoot index region =
     \<lparr>rb_kind = RB_Argument, rb_symbol = [], rb_argumentIndex = index, rb_region = region,
      rb_designated = whole_region, rb_index = None\<rparr>"

definition kParameterLockPrefix :: string where
  "kParameterLockPrefix = ''%arg''"

record ParameterLockPlace =
  pl_argumentIndex :: nat
  pl_place :: MemoryRegion

section \<open>Numbers of the standard library\<close>

definition fits_i64 :: "int \<Rightarrow> bool" where
  "fits_i64 v \<longleftrightarrow> - (2 ^ 63) \<le> v \<and> v < 2 ^ 63"

definition signed_value :: "bool \<Rightarrow> string \<Rightarrow> int" where
  "signed_value negative digits = (if negative then - int (digits_value digits) else int (digits_value digits))"

text \<open>\<open>std::stoll\<close>: blanks, a sign and digits, with whatever follows them ignored.\<close>

definition stoll :: "string \<Rightarrow> unit + int" where
  "stoll s =
     (let t = dropWhile isspace s;
          negative = (t \<noteq> [] \<and> hd t = CHR ''-'');
          t = (if t \<noteq> [] \<and> (hd t = CHR ''-'' \<or> hd t = CHR ''+'') then tl t else t);
          digits = takeWhile isdigit t;
          v = signed_value negative digits
      in if digits = [] \<or> \<not> fits_i64 v then Inl () else Inr v)"

text \<open>\<open>std::from_chars\<close> for a signed 64-bit integer: the value when there is one and it fits, and what is left.\<close>

definition from_chars_i64 :: "string \<Rightarrow> (int \<times> string) option" where
  "from_chars_i64 s =
     (let negative = (s \<noteq> [] \<and> hd s = CHR ''-'');
          t = (if negative then tl s else s);
          digits = takeWhile isdigit t;
          v = signed_value negative digits
      in if digits = [] \<or> \<not> fits_i64 v then None else Some (v, dropWhile isdigit t))"

section \<open>Lock ids\<close>

definition parameterLockPlace :: "string \<Rightarrow> unit + ParameterLockPlace option" where
  "parameterLockPlace lockId =
     (if \<not> starts_with lockId kParameterLockPrefix then Inr None
      else
        (let rest = drop (length kParameterLockPrefix) lockId;
             index = takeWhile isdigit rest;
             ending = dropWhile isdigit rest
         in if index = [] then Inr None
            else if digits_value index \<ge> 2 ^ 64 then Inl ()
            else
              (let result = \<lparr>pl_argumentIndex = digits_value index mod 2 ^ 32, pl_place = whole_region\<rparr>
               in if ending = ''[*]''
                  then Inr (Some (result\<lparr>pl_place := whole_region\<lparr>mr_hasKnownOffset := False\<rparr>\<rparr>))
                  else if starts_with ending ''+''
                  then (case stoll (drop 1 ending) of
                          Inl e \<Rightarrow> Inl e
                        | Inr v \<Rightarrow> Inr (Some (result\<lparr>pl_place := whole_region\<lparr>mr_byteOffset := word_of_int v\<rparr>\<rparr>)))
                  else if ending \<noteq> [] then Inr None
                  else Inr (Some result))))"

definition positionOf :: "RootBinding \<Rightarrow> MemoryRegion \<Rightarrow> MemoryRegion" where
  "positionOf object place =
     whole_region\<lparr>mr_hasKnownOffset := mr_hasKnownOffset (rb_region object) \<and> mr_hasKnownOffset place,
                  mr_byteOffset := mr_byteOffset (rb_region object) + mr_byteOffset place\<rparr>"

definition lockIdAt :: "RootBinding \<Rightarrow> MemoryRegion \<Rightarrow> string" where
  "lockIdAt object place =
     (if rb_kind object = RB_Argument
      then kParameterLockPrefix @ to_string_nat (rb_argumentIndex object) @ suffix_of (positionOf object place)
      else rb_symbol object @ suffix_of (positionOf object place))"

text \<open>What stands after the last plus sign, with what stands before it.\<close>

definition split_at_last :: "char \<Rightarrow> string \<Rightarrow> (string \<times> string) option" where
  "split_at_last c s =
     (if c \<in> set s
      then Some (rev (tl (dropWhile (\<lambda>x. x \<noteq> c) (rev s))), rev (takeWhile (\<lambda>x. x \<noteq> c) (rev s)))
      else None)"

definition ends_with :: "string \<Rightarrow> string \<Rightarrow> bool" where
  "ends_with s e \<longleftrightarrow> length e \<le> length s \<and> drop (length s - length e) s = e"

definition lockIdRoot :: "string \<Rightarrow> unit + RootBinding" where
  "lockIdRoot lockId =
     (case parameterLockPlace lockId of
        Inl e \<Rightarrow> Inl e
      | Inr (Some place) \<Rightarrow> Inr (argumentRoot (pl_argumentIndex place) (pl_place place))
      | Inr None \<Rightarrow>
          Inr (if ends_with lockId ''[*]''
               then globalRoot (take (length lockId - 3) lockId) (whole_region\<lparr>mr_hasKnownOffset := False\<rparr>)
               else
                 (case split_at_last (CHR ''+'') lockId of
                    None \<Rightarrow> globalRoot lockId whole_region
                  | Some (name, offset) \<Rightarrow>
                      (case from_chars_i64 offset of
                         Some (byteOffset, []) \<Rightarrow> globalRoot name (whole_region\<lparr>mr_byteOffset := word_of_int byteOffset\<rparr>)
                       | _ \<Rightarrow> globalRoot lockId whole_region))))"

section \<open>Reading back\<close>

lemma to_string_int_split:
  "to_string_int i = (if i < 0 then CHR ''-'' # to_string_nat (nat (- i)) else to_string_nat (nat i))"
  by (simp add: to_string_int_def)

lemma takeWhile_string_nat [simp]:
  "takeWhile isdigit (to_string_nat n) = to_string_nat n" "dropWhile isdigit (to_string_nat n) = []"
  using to_string_nat_digits by (auto simp: takeWhile_eq_all_conv dropWhile_eq_Nil_conv)

lemma hd_string_nat: "isdigit (hd (to_string_nat n))"
  using to_string_nat_digits [of "hd (to_string_nat n)" n] by simp

lemma hd_string_nat_sign: "hd (to_string_nat n) \<noteq> CHR ''-''" "hd (to_string_nat n) \<noteq> CHR ''+''" "\<not> isspace (hd (to_string_nat n))"
  using hd_string_nat [of n] by (auto simp: isdigit_def isspace_def)

lemma from_chars_read_back: "fits_i64 i \<Longrightarrow> from_chars_i64 (to_string_int i) = Some (i, [])"
  using hd_string_nat_sign(1) to_string_nat_digits
  by (auto simp: from_chars_i64_def to_string_int_split signed_value_def Let_def)

lemma stoll_read_back: "fits_i64 i \<Longrightarrow> stoll (to_string_int i) = Inr i"
proof -
  assume fits: "fits_i64 i"
  have "dropWhile isspace (to_string_int i) = to_string_int i"
    using hd_string_nat_sign(3) [of "nat i"] to_string_nat_nonempty [of "nat i"]
    by (auto simp: to_string_int_split isspace_def dropWhile_eq_self_iff)
  then show ?thesis
    using fits hd_string_nat_sign(1,2) by (auto simp: stoll_def to_string_int_split signed_value_def Let_def)
qed

lemma sint_fits: "fits_i64 (sint (w :: i64))"
  using sint_greater_eq [of w] sint_lt [of w] by (simp add: fits_i64_def)

text \<open>A symbol in which nothing reads as a place, and the place read back: an unknown one has no offset.\<close>

definition plainSymbol :: "string \<Rightarrow> bool" where
  "plainSymbol s \<longleftrightarrow> \<not> starts_with s kParameterLockPrefix \<and> CHR ''+'' \<notin> set s \<and> \<not> ends_with s ''[*]''"

definition namedRoot :: "RootBinding \<Rightarrow> bool" where
  "namedRoot object \<longleftrightarrow>
     (if rb_kind object = RB_Argument then rb_argumentIndex object < 2 ^ 32 else plainSymbol (rb_symbol object))"

definition readPlace :: "MemoryRegion \<Rightarrow> MemoryRegion" where
  "readPlace position = (if mr_hasKnownOffset position then position else whole_region\<lparr>mr_hasKnownOffset := False\<rparr>)"

definition rootAt :: "RootBinding \<Rightarrow> MemoryRegion \<Rightarrow> RootBinding" where
  "rootAt object place =
     (if rb_kind object = RB_Argument
      then argumentRoot (rb_argumentIndex object) (readPlace (positionOf object place))
      else globalRoot (rb_symbol object) (readPlace (positionOf object place)))"

lemma suffix_cases:
  "suffix_of (positionOf object place) =
     (if \<not> mr_hasKnownOffset (positionOf object place) then ''[*]''
      else if mr_byteOffset (positionOf object place) = 0 then []
      else ''+'' @ to_string_int (sint (mr_byteOffset (positionOf object place))))"
  by (simp add: suffix_of_def positionOf_def whole_region_def)

lemma position_region:
  "positionOf object place = whole_region\<lparr>mr_hasKnownOffset := mr_hasKnownOffset (positionOf object place),
     mr_byteOffset := mr_byteOffset (positionOf object place)\<rparr>"
  by (simp add: positionOf_def)

lemma sign_no_digit: "\<not> isdigit (CHR ''+'')" "\<not> isdigit (CHR ''['')"
  by (simp_all add: isdigit_def)

lemma takeWhile_string_nat_append:
  "s = [] \<or> \<not> isdigit (hd s) \<Longrightarrow> takeWhile isdigit (to_string_nat n @ s) = to_string_nat n"
  "s = [] \<or> \<not> isdigit (hd s) \<Longrightarrow> dropWhile isdigit (to_string_nat n @ s) = s"
  using to_string_nat_digits [of _ n]
  by (cases s; auto simp: takeWhile_append dropWhile_append takeWhile_eq_all_conv)+

lemma suffix_head: "suffix_of (positionOf object place) = [] \<or> \<not> isdigit (hd (suffix_of (positionOf object place)))"
  unfolding suffix_cases by (simp add: sign_no_digit)

lemma parameter_read_back:
  assumes "rb_kind object = RB_Argument" "rb_argumentIndex object < 2 ^ 32"
  shows "parameterLockPlace (lockIdAt object place) =
    Inr (Some \<lparr>pl_argumentIndex = rb_argumentIndex object, pl_place = readPlace (positionOf object place)\<rparr>)"
proof -
  let ?s = "suffix_of (positionOf object place)" and ?i = "rb_argumentIndex object" and ?p = "positionOf object place"
  have small: "\<not> ?i \<ge> 2 ^ 64" "?i mod 2 ^ 32 = ?i" using assms(2) by simp_all
  have plc: "(if ?s = ''[*]'' then Inr (Some (r\<lparr>pl_place := whole_region\<lparr>mr_hasKnownOffset := False\<rparr>\<rparr>))
      else if starts_with ?s ''+''
      then (case stoll (drop 1 ?s) of Inl e \<Rightarrow> Inl e
        | Inr v \<Rightarrow> Inr (Some (r\<lparr>pl_place := whole_region\<lparr>mr_byteOffset := word_of_int v\<rparr>\<rparr>)))
      else if ?s \<noteq> [] then Inr None else Inr (Some r)) = Inr (Some (r\<lparr>pl_place := readPlace ?p\<rparr>))"
    if "pl_place r = whole_region" for r
  proof (cases "mr_hasKnownOffset ?p")
    case True
    then have known: "readPlace ?p = whole_region\<lparr>mr_byteOffset := mr_byteOffset ?p\<rparr>"
      using position_region [of object place] by (simp add: readPlace_def whole_region_def)
    show ?thesis
    proof (cases "mr_byteOffset ?p = 0")
      case zero: True
      then have "readPlace ?p = whole_region" unfolding known by (simp add: whole_region_def)
      then show ?thesis using that True zero by (simp add: suffix_cases starts_with_def)
    next
      case False
      then show ?thesis
        unfolding known using True sint_fits by (simp add: suffix_cases starts_with_def stoll_read_back)
    qed
  qed (simp add: suffix_cases readPlace_def)
  have rest: "drop (length kParameterLockPrefix) (lockIdAt object place) = to_string_nat ?i @ ?s"
    "starts_with (lockIdAt object place) kParameterLockPrefix"
    using assms(1) by (simp_all add: lockIdAt_def kParameterLockPrefix_def starts_with_def)
  show ?thesis
    using rest(2) plc [of "\<lparr>pl_argumentIndex = ?i, pl_place = whole_region\<rparr>"]
    unfolding parameterLockPlace_def Let_def rest(1) takeWhile_string_nat_append [OF suffix_head] digits_value_to_string
      small(2) if_not_P [OF small(1)] if_not_P [OF to_string_nat_nonempty]
    by (simp only: not_True_eq_False if_False ParameterLockPlace.simps)
qed

lemma split_at_last_append: "c \<notin> set b \<Longrightarrow> split_at_last c (a @ c # b) = Some (a, b)"
  by (simp add: split_at_last_def takeWhile_append dropWhile_append takeWhile_eq_all_conv)

lemma int_no_plus: "CHR ''+'' \<notin> set (to_string_int i)"
  using to_string_int_chars [of "CHR ''+''" i] by (auto simp: isdigit_def)

lemma int_last_digit: "isdigit (last (to_string_int i))"
proof -
  have "isdigit (last (to_string_nat n))" for n using to_string_nat_digits [of "last (to_string_nat n)" n] by simp
  then show ?thesis by (simp add: to_string_int_split)
qed

lemma ends_with_last: "ends_with s e \<Longrightarrow> e \<noteq> [] \<Longrightarrow> last s = last e"
  by (metis append_take_drop_id ends_with_def last_append)

lemma global_read_back:
  assumes "plainSymbol s"
  shows "lockIdRoot (s @ ''[*]'') = Inr (globalRoot s (whole_region\<lparr>mr_hasKnownOffset := False\<rparr>))"
    and "lockIdRoot s = Inr (globalRoot s whole_region)"
    and "fits_i64 i \<Longrightarrow> lockIdRoot (s @ ''+'' @ to_string_int i) = Inr (globalRoot s (whole_region\<lparr>mr_byteOffset := word_of_int i\<rparr>))"
proof -
  have no_parameter: "parameterLockPlace (s @ t) = Inr None" if "t = [] \<or> hd t \<in> {CHR ''['', CHR ''+''}" for t
  proof -
    have "\<not> starts_with (s @ t) kParameterLockPrefix"
    proof (cases "t = [] \<or> 4 \<le> length s")
      case True
      then show ?thesis using assms by (auto simp: plainSymbol_def starts_with_def kParameterLockPrefix_def)
    next
      case False
      then have "(s @ t) ! length s \<in> {CHR ''['', CHR ''+''}" using that by (simp add: nth_append hd_conv_nth)
      moreover have "(s @ t) ! length s = ''%arg'' ! length s" if "starts_with (s @ t) ''%arg''"
      proof -
        have "take 4 (s @ t) = ''%arg''" using that by (simp add: starts_with_def numeral_eq_Suc)
        moreover have "take 4 (s @ t) ! length s = (s @ t) ! length s" using False by (intro nth_take) simp
        ultimately show ?thesis by simp
      qed
      moreover have "''%arg'' ! length s \<in> {CHR ''%'', CHR ''a'', CHR ''r'', CHR ''g''}"
        using False by (auto simp: less_Suc_eq numeral_eq_Suc not_le)
      ultimately show ?thesis by (auto simp: kParameterLockPrefix_def)
    qed
    then show ?thesis by (simp add: parameterLockPlace_def)
  qed
  show "lockIdRoot (s @ ''[*]'') = Inr (globalRoot s (whole_region\<lparr>mr_hasKnownOffset := False\<rparr>))"
    using no_parameter [of "''[*]''"] by (simp add: lockIdRoot_def ends_with_def)
  show "lockIdRoot s = Inr (globalRoot s whole_region)"
    using no_parameter [of "[]"] assms by (simp add: lockIdRoot_def plainSymbol_def split_at_last_def)
  show "lockIdRoot (s @ ''+'' @ to_string_int i) = Inr (globalRoot s (whole_region\<lparr>mr_byteOffset := word_of_int i\<rparr>))" if "fits_i64 i"
  proof -
    have "\<not> ends_with (s @ ''+'' @ to_string_int i) ''[*]''"
      using ends_with_last [of "s @ ''+'' @ to_string_int i" "''[*]''"] int_last_digit [of i]
      by (auto simp: isdigit_def to_string_int_split split: if_splits)
    then show ?thesis
      using no_parameter [of "''+'' @ to_string_int i"] from_chars_read_back [OF that] int_no_plus [of i]
      by (simp add: lockIdRoot_def split_at_last_append)
  qed
qed

lemma lockIdAt_root: "namedRoot object \<Longrightarrow> lockIdAt (rootAt object place) whole_region = lockIdAt object place"
  by (simp add: lockIdAt_def rootAt_def suffix_cases)
    (simp add: positionOf_def argumentRoot_def globalRoot_def readPlace_def whole_region_def)

text \<open>
  C38: A lock id is read back as the root it was made for, with the place of the lock in it, and printing what was
  read back gives the id again; so two roots with one id are the same object, and a lock named after a
  parameter is never taken for one of an object.
\<close>
theorem lock_id_read_back:
  assumes "namedRoot object"
  shows "lockIdRoot (lockIdAt object place) = Inr (rootAt object place) \<and>
    lockIdAt (rootAt object place) whole_region = lockIdAt object place \<and>
    (parameterLockPlace (lockIdAt object place) = Inr None \<longleftrightarrow> rb_kind object = RB_Global)"
proof (cases "rb_kind object")
  case RB_Argument
  then have "parameterLockPlace (lockIdAt object place) =
      Inr (Some \<lparr>pl_argumentIndex = rb_argumentIndex object, pl_place = readPlace (positionOf object place)\<rparr>)"
    using assms by (intro parameter_read_back) (simp_all add: namedRoot_def)
  then show ?thesis using RB_Argument lockIdAt_root [OF assms] by (simp add: lockIdRoot_def rootAt_def)
next
  case RB_Global
  let ?p = "positionOf object place"
  have plain: "plainSymbol (rb_symbol object)" using assms RB_Global by (simp add: namedRoot_def)
  have id: "lockIdAt object place = rb_symbol object @ suffix_of ?p" using RB_Global by (simp add: lockIdAt_def)
  have known: "mr_hasKnownOffset ?p \<Longrightarrow> readPlace ?p = whole_region\<lparr>mr_byteOffset := mr_byteOffset ?p\<rparr>"
    using position_region [of object place] by (simp add: readPlace_def whole_region_def)
  have root: "lockIdRoot (lockIdAt object place) = Inr (globalRoot (rb_symbol object) (readPlace ?p))"
  proof -
    consider "\<not> mr_hasKnownOffset ?p" | "mr_hasKnownOffset ?p" "mr_byteOffset ?p = 0" | "mr_hasKnownOffset ?p" "mr_byteOffset ?p \<noteq> 0"
      by blast
    then show ?thesis
    proof cases
      case 1
      then show ?thesis unfolding id suffix_cases using global_read_back(1) [OF plain] by (simp add: readPlace_def)
    next
      case 2
      then have "readPlace ?p = whole_region" using known by (simp add: whole_region_def)
      then show ?thesis unfolding id suffix_cases using 2 global_read_back(2) [OF plain] by simp
    next
      case 3
      then show ?thesis
        unfolding id suffix_cases using global_read_back(3) [OF plain sint_fits [of "mr_byteOffset ?p"]] known by simp
    qed
  qed
  moreover have "parameterLockPlace (lockIdAt object place) = Inr None"
    using root by (auto simp: lockIdRoot_def globalRoot_def argumentRoot_def split: sum.splits option.splits)
  ultimately show ?thesis using RB_Global lockIdAt_root [OF assms] by (simp add: rootAt_def)
qed

theorem lock_id_read_back_witness:
  "lockIdRoot (lockIdAt (globalRoot ''m'' whole_region) (whole_region\<lparr>mr_byteOffset := 8\<rparr>)) =
     Inr (rootAt (globalRoot ''m'' whole_region) (whole_region\<lparr>mr_byteOffset := 8\<rparr>))"
proof -
  have "namedRoot (globalRoot ''m'' whole_region)"
    by (simp add: namedRoot_def globalRoot_def plainSymbol_def kParameterLockPrefix_def starts_with_def ends_with_def)
  from lock_id_read_back [OF this] show ?thesis by blast
qed

end
