(* ===== verification/Program_IR.thy ===== *)
theory Program_IR
  imports Symbol_Classifier Facts
begin

text \<open>
  What the analyses of \<open>analysis/\<close> read of an LLVM module: functions with their blocks, the predecessors of a
  block, and the instructions, of which calls matter. Values are a type of their own, \<open>'v\<close>; what the
  utilities of \<open>ir_utils.cpp\<close> and the analyses of LLVM answer about a value, an instruction or a block is
  a field, or an argument of the definitions that ask. Instructions are told apart by their address.
  \<open>ca_kind\<close> and the flags beside it are what the classifier answers for the call (\<open>Symbol_Classifier\<close>).
\<close>

record FunctionRef =
  fr_id :: string
  fr_isDeclaration :: bool

record 'v Call =
  ca_kind :: CallKind
  ca_directCallee :: "FunctionRef option"
  ca_calledFunction :: "string option"
  ca_args :: "'v list"
  ca_targetsRecursiveLock :: bool
  ca_adoptsHeldLocks :: bool

record 'v Instruction =
  in_address :: nat
  in_call :: "'v Call option"
  in_loweredLocation :: SourceLocation
  in_userLocation :: SourceLocation

record 'v Block =
  bb_instructions :: "'v Instruction list"
  bb_predecessors :: "nat list"
  bb_isReachable :: bool
  bb_inLoop :: bool
  bb_returns :: bool

text \<open>The first block of a function is its entry; an argument is known by whether it is a pointer.\<close>

record 'v Function =
  fn_id :: string
  fn_isDeclaration :: bool
  fn_args :: "bool list"
  fn_blocks :: "'v Block list"

abbreviation block :: "'v Function \<Rightarrow> nat \<Rightarrow> 'v Block" where
  "block f b \<equiv> fn_blocks f ! b"

definition fn_instructions :: "'v Function \<Rightarrow> 'v Instruction list" where
  "fn_instructions f = concat (map bb_instructions (fn_blocks f))"

text \<open>A block is reachable when a path of the control flow leads to it, which is what LLVM's dominator tree answers.\<close>

inductive cfg_path :: "'v Function \<Rightarrow> nat \<Rightarrow> bool" for f where
  entry: "cfg_path f 0"
| step: "cfg_path f p \<Longrightarrow> b < length (fn_blocks f) \<Longrightarrow> p \<in> set (bb_predecessors (block f b)) \<Longrightarrow> cfg_path f b"

definition wf_function :: "'v Function \<Rightarrow> bool" where
  "wf_function f \<longleftrightarrow> fn_blocks f \<noteq> [] \<and> bb_predecessors (block f 0) = [] \<and>
     (\<forall>b < length (fn_blocks f). set (bb_predecessors (block f b)) \<subseteq> {..<length (fn_blocks f)} \<and>
        (bb_isReachable (block f b) \<longleftrightarrow> cfg_path f b)) \<and>
     distinct (map in_address (fn_instructions f))"

lemma wf_reachable:
  assumes "wf_function f"
  shows "fn_blocks f \<noteq> []" "bb_isReachable (block f 0)" "bb_predecessors (block f 0) = []"
    and "b < length (fn_blocks f) \<Longrightarrow> p \<in> set (bb_predecessors (block f b)) \<Longrightarrow> p < length (fn_blocks f)"
    and "b < length (fn_blocks f) \<Longrightarrow> bb_isReachable (block f b) \<longleftrightarrow> cfg_path f b"
  using assms cfg_path.entry [of f] by (auto simp: wf_function_def)

end
