(* ===== verification/Lock_Effects.thy ===== *)
theory Lock_Effects
  imports Program_IR Lock_Ids
begin

text \<open>
  The effects calls have on locks: \<open>SynchronizationEffectResolver\<close> of \<open>analysis/synchronization_effects.cpp\<close> and
  the application of its answers to a function, \<open>analysis/lock_effect_application.cpp\<close>.
\<close>

section \<open>The resolver\<close>

datatype LockEffectKind = LE_Acquire | LE_TryAcquire | LE_Release | LE_GuardAcquire | LE_GuardRelease

record LockEffect =
  le_kind :: LockEffectKind
  le_lockIds :: "string list"
  le_guardId :: string
  le_recursiveLock :: bool
  le_adoptsHeldLocks :: bool

definition new_effect :: LockEffect where
  "new_effect = \<lparr>le_kind = LE_Acquire, le_lockIds = [], le_guardId = [], le_recursiveLock = False, le_adoptsHeldLocks = False\<rparr>"

text \<open>The answers of \<open>ir_utils.cpp\<close> about a value.\<close>

record 'v LockNaming =
  ln_canonicalLockId :: "'v \<Rightarrow> string option"
  ln_canonicalStorageGroupId :: "'v \<Rightarrow> string option"
  ln_localObjectLockId :: "'v \<Rightarrow> string set \<Rightarrow> string option"
  ln_objectFieldLockId :: "'v \<Rightarrow> nat \<Rightarrow> RootBinding \<Rightarrow> string option"
  ln_parameterFieldLockId :: "'v \<Rightarrow> string option"
  ln_parameterLockId :: "'v \<Rightarrow> string option"
  ln_designatesRecursiveLockType :: "'v \<Rightarrow> bool"
  ln_isPointer :: "'v \<Rightarrow> bool"

datatype SharedObjectKind = SO_Global | SO_Local | SO_BehindPointer

text \<open>The object a thread entry receives; what it points to in the IR is left out.\<close>

record SharedObjectBinding =
  sb_object :: RootBinding
  sb_kind :: SharedObjectKind
  sb_argumentIndex :: nat
  sb_elementPerThread :: bool
  sb_constructedClass :: string
  sb_keptForLackOfProof :: bool
  sb_runByDirectCalls :: bool
  sb_settledThrough :: "string list"

type_synonym summaries = "string \<rightharpoonup> ParameterLockEffect list"

record 'v Resolver =
  rs_naming :: "'v LockNaming"
  rs_summaries :: "summaries option"
  rs_nameParameterLocks :: bool
  rs_sharedObject :: "SharedObjectBinding option"
  rs_localObjects :: "string set option"
  rs_nameParameterFieldLocks :: bool

fun plainLockEffect :: "CallKind \<Rightarrow> LockEffectKind option" where
  "plainLockEffect CK_PThreadMutexLock = Some LE_Acquire"
| "plainLockEffect CK_PThreadRwLockAcquire = Some LE_Acquire"
| "plainLockEffect CK_PThreadSpinLock = Some LE_Acquire"
| "plainLockEffect CK_StdMutexLock = Some LE_Acquire"
| "plainLockEffect CK_PThreadMutexTryLock = Some LE_TryAcquire"
| "plainLockEffect CK_PThreadRwLockTryAcquire = Some LE_TryAcquire"
| "plainLockEffect CK_PThreadSpinTryLock = Some LE_TryAcquire"
| "plainLockEffect CK_StdMutexTryLock = Some LE_TryAcquire"
| "plainLockEffect CK_StaticInitGuardAcquire = Some LE_TryAcquire"
| "plainLockEffect CK_PThreadMutexUnlock = Some LE_Release"
| "plainLockEffect CK_PThreadRwLockUnlock = Some LE_Release"
| "plainLockEffect CK_PThreadSpinUnlock = Some LE_Release"
| "plainLockEffect CK_StdMutexUnlock = Some LE_Release"
| "plainLockEffect CK_StaticInitGuardRelease = Some LE_Release"
| "plainLockEffect _ = None"

definition orElse :: "'a option \<Rightarrow> 'a option \<Rightarrow> 'a option" where
  "orElse a b = (case a of Some _ \<Rightarrow> a | None \<Rightarrow> b)"

definition lockIdOf :: "'v Resolver \<Rightarrow> 'v \<Rightarrow> string option" where
  "lockIdOf rs v =
     orElse (ln_canonicalLockId (rs_naming rs) v)
     (orElse (case rs_localObjects rs of Some localObjects \<Rightarrow> ln_localObjectLockId (rs_naming rs) v localObjects | None \<Rightarrow> None)
     (orElse (case rs_sharedObject rs of
                Some shared \<Rightarrow> ln_objectFieldLockId (rs_naming rs) v (sb_argumentIndex shared) (sb_object shared)
              | None \<Rightarrow> None)
     (if rs_nameParameterFieldLocks rs then ln_parameterFieldLockId (rs_naming rs) v
      else if rs_nameParameterLocks rs then ln_parameterLockId (rs_naming rs) v
      else None)))"

definition summarizedEffect :: "'v Resolver \<Rightarrow> 'v Call \<Rightarrow> ParameterLockEffect \<Rightarrow> LockEffect list" where
  "summarizedEffect rs call parameter =
     (if pe_argumentIndex parameter \<ge> length (ca_args call) then []
      else
        (let operand = ca_args call ! pe_argumentIndex parameter
         in case lockIdOf rs operand of
              None \<Rightarrow> []
            | Some lockId \<Rightarrow>
                [new_effect\<lparr>le_kind := (if pe_acquires parameter then LE_Acquire else LE_Release),
                   le_lockIds := [lockId],
                   le_recursiveLock := pe_recursiveLock parameter \<or> ln_designatesRecursiveLockType (rs_naming rs) operand\<rparr>]))"

definition summarizedEffects :: "'v Resolver \<Rightarrow> 'v Call \<Rightarrow> LockEffect list" where
  "summarizedEffects rs call =
     (case rs_summaries rs of
        None \<Rightarrow> []
      | Some summaries \<Rightarrow>
          (case ca_calledFunction call of
             None \<Rightarrow> []
           | Some callee \<Rightarrow>
               (case summaries callee of
                  None \<Rightarrow> []
                | Some summary \<Rightarrow> concat (map (summarizedEffect rs call) summary))))"

definition guardOperand :: "'v Resolver \<Rightarrow> 'v Call \<Rightarrow> 'v \<Rightarrow> LockEffect \<Rightarrow> LockEffect" where
  "guardOperand rs call operand effect =
     (if \<not> ln_isPointer (rs_naming rs) operand then effect
      else
        (case lockIdOf rs operand of
           None \<Rightarrow> effect
         | Some lockId \<Rightarrow>
             effect\<lparr>le_lockIds := le_lockIds effect @ [lockId],
                    le_recursiveLock := le_recursiveLock effect \<or> ln_designatesRecursiveLockType (rs_naming rs) operand \<or>
                      ca_targetsRecursiveLock call\<rparr>))"

definition resolve :: "'v Resolver \<Rightarrow> 'v Call \<Rightarrow> LockEffect list" where
  "resolve rs call =
     (if ca_args call = [] then []
      else if ca_kind call = CK_Unknown then summarizedEffects rs call
      else
        (let first = ca_args call ! 0
         in case plainLockEffect (ca_kind call) of
              Some plainEffect \<Rightarrow>
                (case lockIdOf rs first of
                   None \<Rightarrow> []
                 | Some lockId \<Rightarrow>
                     [new_effect\<lparr>le_kind := plainEffect, le_lockIds := [lockId],
                        le_recursiveLock := ln_designatesRecursiveLockType (rs_naming rs) first \<or> ca_targetsRecursiveLock call\<rparr>])
            | None \<Rightarrow>
                if ca_kind call = CK_StdLockGuardDtor \<or> ca_kind call = CK_StdLockGuardDeferredCtor
                then
                  (case ln_canonicalStorageGroupId (rs_naming rs) first of
                     None \<Rightarrow> []
                   | Some guardId \<Rightarrow>
                       if ca_kind call = CK_StdLockGuardDeferredCtor then []
                       else [new_effect\<lparr>le_kind := LE_GuardRelease, le_guardId := guardId\<rparr>])
                else if ca_kind call \<noteq> CK_StdLockGuardCtor then []
                else
                  (case ln_canonicalStorageGroupId (rs_naming rs) first of
                     None \<Rightarrow> []
                   | Some guardId \<Rightarrow>
                       (let effect = fold (guardOperand rs call) (drop 1 (ca_args call))
                              (new_effect\<lparr>le_kind := LE_GuardAcquire, le_guardId := guardId,
                                 le_adoptsHeldLocks := ca_adoptsHeldLocks call\<rparr>)
                        in if le_lockIds effect = [] then [] else [effect]))))"

section \<open>The effects of a function\<close>

record FunctionLockEffects =
  fe_guardBindings :: "string \<rightharpoonup> string list"
  fe_effectsByInstruction :: "(nat \<times> LockEffect list) list"

definition bindGuard :: "LockEffect \<Rightarrow> (string \<rightharpoonup> string list) \<Rightarrow> (string \<rightharpoonup> string list)" where
  "bindGuard effect bindings =
     (if le_kind effect \<noteq> LE_GuardAcquire then bindings
      else
        (let bound = (case bindings (le_guardId effect) of Some bound \<Rightarrow> bound | None \<Rightarrow> [])
         in bindings(le_guardId effect \<mapsto>
              fold (\<lambda>lockId bound. if lockId \<in> set bound then bound else bound @ [lockId]) (le_lockIds effect) bound)))"

definition addInstruction :: "'v Resolver \<Rightarrow> 'v Instruction \<Rightarrow> FunctionLockEffects \<Rightarrow> FunctionLockEffects" where
  "addInstruction rs instruction effects =
     (case in_call instruction of
        None \<Rightarrow> effects
      | Some call \<Rightarrow>
          (let instructionEffects = resolve rs call
           in if instructionEffects = [] then effects
              else
                effects\<lparr>fe_guardBindings := fold bindGuard instructionEffects (fe_guardBindings effects),
                        fe_effectsByInstruction := fe_effectsByInstruction effects @ [(in_address instruction, instructionEffects)]\<rparr>))"

definition collectFunctionLockEffects :: "'v Function \<Rightarrow> 'v Resolver \<Rightarrow> FunctionLockEffects" where
  "collectFunctionLockEffects f rs =
     fold (addInstruction rs) (fn_instructions f) \<lparr>fe_guardBindings = Map.empty, fe_effectsByInstruction = []\<rparr>"

record LockStateChange =
  lc_acquired :: "string list"
  lc_orderedAcquired :: "string list"
  lc_released :: "string list"
  lc_recursivelyAcquirable :: "string list"

definition no_change :: LockStateChange where
  "no_change = \<lparr>lc_acquired = [], lc_orderedAcquired = [], lc_released = [], lc_recursivelyAcquirable = []\<rparr>"

definition change_empty :: "LockStateChange \<Rightarrow> bool" where
  "change_empty change \<longleftrightarrow> lc_acquired change = [] \<and> lc_released change = []"

definition applyEffect :: "FunctionLockEffects \<Rightarrow> LockEffect \<Rightarrow> LockStateChange \<Rightarrow> LockStateChange" where
  "applyEffect effects effect change =
     (let acquired = change\<lparr>lc_acquired := lc_acquired change @ le_lockIds effect\<rparr>;
          recursive = (\<lambda>change. if le_recursiveLock effect
            then change\<lparr>lc_recursivelyAcquirable := lc_recursivelyAcquirable change @ le_lockIds effect\<rparr> else change);
          ordered = (if \<not> le_adoptsHeldLocks effect
            then acquired\<lparr>lc_orderedAcquired := lc_orderedAcquired change @ le_lockIds effect\<rparr> else acquired)
      in case le_kind effect of
           LE_Acquire \<Rightarrow> recursive ordered
         | LE_GuardAcquire \<Rightarrow> recursive ordered
         | LE_TryAcquire \<Rightarrow> recursive acquired
         | LE_Release \<Rightarrow> change\<lparr>lc_released := lc_released change @ le_lockIds effect\<rparr>
         | LE_GuardRelease \<Rightarrow>
             (case fe_guardBindings effects (le_guardId effect) of
                Some bound \<Rightarrow> change\<lparr>lc_released := lc_released change @ bound\<rparr>
              | None \<Rightarrow> change))"

definition lockStateChangeFor :: "'v Instruction \<Rightarrow> FunctionLockEffects \<Rightarrow> LockStateChange" where
  "lockStateChangeFor instruction effects =
     (case map_of (fe_effectsByInstruction effects) (in_address instruction) of
        None \<Rightarrow> no_change
      | Some instructionEffects \<Rightarrow> fold (applyEffect effects) instructionEffects no_change)"

end
