(* ===== verification/Lock_Flow.thy ===== *)
theory Lock_Flow
  imports Lock_Effects
begin

text \<open>
  The data flow that tells which locks are held at the start of each block, as the lock-scope tracker
  (\<open>analysis/lock_scope_tracker.cpp\<close>) and the lock-order collector (\<open>analysis/lock_order_collector.cpp\<close>) both
  write it out. What a collector does to the instructions of a block, and what it records there, is an
  argument. A state of \<^const>\<open>None\<close> is a block not visited yet. The locale \<open>lock_flow\<close> is the contract the
  two collectors meet: inside it, the loop is shown to end and to compute exactly the locks held on
  every path.
\<close>

type_synonym lock_state = "string set option"

definition meetState :: "'v Function \<Rightarrow> lock_state list \<Rightarrow> nat \<Rightarrow> lock_state \<Rightarrow> lock_state" where
  "meetState f outStates predecessor result =
     (if \<not> bb_isReachable (block f predecessor) then result
      else
        (case outStates ! predecessor of
           None \<Rightarrow> result
         | Some out \<Rightarrow> (case result of None \<Rightarrow> Some out | Some locks \<Rightarrow> Some (locks \<inter> out))))"

definition meetPredecessorStates :: "'v Function \<Rightarrow> nat \<Rightarrow> lock_state list \<Rightarrow> lock_state" where
  "meetPredecessorStates f b outStates =
     (case fold (meetState f outStates) (bb_predecessors (block f b)) None of
        Some locks \<Rightarrow> Some locks
      | None \<Rightarrow> if b = 0 then Some {} else None)"

record 'a FlowState =
  fl_in :: "lock_state list"
  fl_out :: "lock_state list"
  fl_recorded :: 'a
  fl_changed :: bool

type_synonym 'a block_process = "nat \<Rightarrow> string set \<Rightarrow> 'a \<Rightarrow> string set \<times> 'a"

definition visitBlock :: "'v Function \<Rightarrow> 'a block_process \<Rightarrow> nat \<Rightarrow> 'a FlowState \<Rightarrow> 'a FlowState" where
  "visitBlock f process b st =
     (let newInState = (if b \<noteq> 0 then meetPredecessorStates f b (fl_out st) else fl_in st ! b)
      in case newInState of
           None \<Rightarrow> st
         | Some locks \<Rightarrow>
             (let (currentLocks, recorded) = process b locks (fl_recorded st);
                  st = st\<lparr>fl_recorded := recorded\<rparr>;
                  st = (if fl_in st ! b \<noteq> newInState
                        then st\<lparr>fl_in := (fl_in st)[b := newInState], fl_changed := True\<rparr> else st)
              in if fl_out st ! b \<noteq> Some currentLocks
                 then st\<lparr>fl_out := (fl_out st)[b := Some currentLocks], fl_changed := True\<rparr> else st))"

definition reachableBlocks :: "'v Function \<Rightarrow> nat list" where
  "reachableBlocks f = filter (\<lambda>b. bb_isReachable (block f b)) [0 ..< length (fn_blocks f)]"

definition flowRound :: "'v Function \<Rightarrow> 'a block_process \<Rightarrow> 'a FlowState \<Rightarrow> 'a FlowState" where
  "flowRound f process st = fold (visitBlock f process) (reachableBlocks f) (st\<lparr>fl_changed := False\<rparr>)"

partial_function (option) flowLoop :: "'v Function \<Rightarrow> 'a block_process \<Rightarrow> 'a FlowState \<Rightarrow> 'a FlowState option" where
  "flowLoop f process st =
     (let st = flowRound f process st in if fl_changed st then flowLoop f process st else Some st)"

definition initialFlow :: "'v Function \<Rightarrow> string set \<Rightarrow> 'a \<Rightarrow> 'a FlowState" where
  "initialFlow f entryLocks nothing =
     (let n = length (fn_blocks f)
      in \<lparr>fl_in = (replicate n None)[0 := Some entryLocks], fl_out = replicate n None, fl_recorded = nothing,
          fl_changed = True\<rparr>)"

section \<open>Locks held along a path\<close>

text \<open>
  \<open>held_on_path f T E b s\<close>: a path from the entry, where the locks \<open>E\<close> are held, to the start of block \<open>b\<close>
  leaves the locks \<open>s\<close> held there, when \<open>T\<close> tells what a block does to the locks held at its start.
\<close>

inductive held_on_path :: "'v Function \<Rightarrow> (nat \<Rightarrow> string set \<Rightarrow> string set) \<Rightarrow> string set \<Rightarrow> nat \<Rightarrow> string set \<Rightarrow> bool"
  for f T E where
  entry: "held_on_path f T E 0 E"
| step: "held_on_path f T E p s \<Longrightarrow> b < length (fn_blocks f) \<Longrightarrow> p \<in> set (bb_predecessors (block f b)) \<Longrightarrow>
    held_on_path f T E b (T p s)"

definition held_on_all_paths :: "'v Function \<Rightarrow> (nat \<Rightarrow> string set \<Rightarrow> string set) \<Rightarrow> string set \<Rightarrow> nat \<Rightarrow> string set" where
  "held_on_all_paths f T E b = {l. \<forall>s. held_on_path f T E b s \<longrightarrow> l \<in> s}"

lemma held_on_path_exists: "cfg_path f b \<Longrightarrow> \<exists>s. held_on_path f T E b s"
  by (induction rule: cfg_path.induct) (blast intro: held_on_path.intros)+

lemma held_on_path_cfg: "held_on_path f T E b s \<Longrightarrow> cfg_path f b"
  by (induction rule: held_on_path.induct) (blast intro: cfg_path.intros)+

lemma cfg_path_bound: "cfg_path f b \<Longrightarrow> wf_function f \<Longrightarrow> b < length (fn_blocks f)"
  by (induction rule: cfg_path.induct) (auto simp: wf_function_def)

section \<open>Meeting the predecessors\<close>

text \<open>\<open>below a b\<close>: state \<open>b\<close> is at least as far as \<open>a\<close>: visited if \<open>a\<close> is, with no more locks.\<close>

definition below :: "lock_state \<Rightarrow> lock_state \<Rightarrow> bool" where
  "below a b \<longleftrightarrow> (\<forall>s. a = Some s \<longrightarrow> (\<exists>t. b = Some t \<and> t \<subseteq> s))"

lemma below_refl [simp]: "below a a" and below_None [simp]: "below None a"
  by (simp_all add: below_def)

lemma below_trans: "below a b \<Longrightarrow> below b c \<Longrightarrow> below a c"
  by (fastforce simp: below_def)

lemma fold_meet:
  "fold (meetState f outs) ps r =
     (let sets = [s. Some s \<leftarrow> r # map ((!) outs) (filter (\<lambda>p. bb_isReachable (block f p)) ps)]
      in if sets = [] then None else Some (\<Inter> (set sets)))"
proof (induction ps arbitrary: r)
  case Nil
  then show ?case by (cases r) simp_all
next
  case (Cons p ps)
  show ?case
    unfolding fold.simps comp_apply Cons.IH
    by (cases r; cases "outs ! p"; cases "bb_isReachable (block f p)") (auto simp: meetState_def Let_def)
qed

definition newIn :: "'v Function \<Rightarrow> 'a FlowState \<Rightarrow> nat \<Rightarrow> lock_state" where
  "newIn f st b = (if b \<noteq> 0 then meetPredecessorStates f b (fl_out st) else fl_in st ! b)"

lemma newIn_meet:
  assumes "b \<noteq> 0"
  shows "newIn f st b =
    (let sets = {s. \<exists>p \<in> set (bb_predecessors (block f b)). bb_isReachable (block f p) \<and> fl_out st ! p = Some s}
     in if sets = {} then None else Some (\<Inter> sets))"
proof -
  let ?list = "[s. Some s \<leftarrow> None # map ((!) (fl_out st)) (filter (\<lambda>p. bb_isReachable (block f p)) (bb_predecessors (block f b)))]"
  have "set ?list = {s. \<exists>p \<in> set (bb_predecessors (block f b)). bb_isReachable (block f p) \<and> fl_out st ! p = Some s}"
    by (force split: option.splits)
  moreover have "newIn f st b = (if ?list = [] then None else Some (\<Inter> (set ?list)))"
    using assms unfolding newIn_def meetPredecessorStates_def fold_meet Let_def by simp
  ultimately show ?thesis by (simp add: Let_def flip: set_empty)
qed

text \<open>Below, everywhere.\<close>

definition states_below :: "lock_state list \<Rightarrow> lock_state list \<Rightarrow> bool" where
  "states_below as bs \<longleftrightarrow> length as = length bs \<and> (\<forall>b < length as. below (as ! b) (bs ! b))"

lemma states_below_refl [simp]: "states_below as as"
  by (simp add: states_below_def)

lemma states_below_update: "b < length as \<Longrightarrow> below (as ! b) x \<Longrightarrow> states_below as (as[b := x])"
  by (simp add: states_below_def nth_list_update)

lemma newIn_mono:
  assumes "wf_function f" "b < length (fn_blocks f)" "length (fl_out st) = length (fn_blocks f)"
    and "states_below (fl_out st) (fl_out st')" "below (fl_in st ! 0) (fl_in st' ! 0)"
  shows "below (newIn f st b) (newIn f st' b)"
proof (cases "b = 0")
  case True
  then show ?thesis using assms(5) by (simp add: newIn_def)
next
  case False
  show ?thesis
    unfolding below_def
  proof (intro allI impI)
    fix s assume "newIn f st b = Some s"
    then have sets: "\<exists>p \<in> set (bb_predecessors (block f b)). bb_isReachable (block f p) \<and> fl_out st ! p \<noteq> None"
      and s: "s = \<Inter> {s. \<exists>p \<in> set (bb_predecessors (block f b)). bb_isReachable (block f p) \<and> fl_out st ! p = Some s}"
      by (auto simp: newIn_meet [OF False] Let_def split: if_splits)
    have lower: "\<exists>t. fl_out st' ! p = Some t \<and> t \<subseteq> u" if "p \<in> set (bb_predecessors (block f b))" "fl_out st ! p = Some u" for p u
      using assms(4) wf_reachable(4) [OF assms(1,2) that(1)] that(2) assms(3) unfolding states_below_def below_def by auto
    let ?sets = "{s. \<exists>p \<in> set (bb_predecessors (block f b)). bb_isReachable (block f p) \<and> fl_out st' ! p = Some s}"
    have "?sets \<noteq> {}" using sets lower by blast
    then have "newIn f st' b = Some (\<Inter> ?sets)" by (simp add: newIn_meet [OF False] Let_def)
    moreover have "\<Inter> ?sets \<subseteq> s" unfolding s using lower by blast
    ultimately show "\<exists>t. newIn f st' b = Some t \<and> t \<subseteq> s" by blast
  qed
qed

section \<open>The contract of a collector\<close>

definition through :: "(nat \<Rightarrow> string set) \<Rightarrow> (nat \<Rightarrow> string set) \<Rightarrow> nat \<Rightarrow> string set \<Rightarrow> string set" where
  "through kill gen b s = s - kill b \<union> gen b"

lemma through_mono: "s \<subseteq> t \<Longrightarrow> through kill gen b s \<subseteq> through kill gen b t"
  by (auto simp: through_def)

text \<open>
  What holds of the states during the loop: a state names locks of \<open>U\<close> only, among them each lock that every
  path leaves held, and none that no path leaves held; visiting a block never adds to its states.
\<close>

definition covers :: "(string set \<Rightarrow> bool) \<Rightarrow> (string set \<Rightarrow> string set) \<Rightarrow> string set \<Rightarrow> lock_state \<Rightarrow> bool" where
  "covers onPath T U a \<longleftrightarrow>
     (\<forall>s. a = Some s \<longrightarrow> s \<subseteq> U \<and> (\<forall>l. (\<forall>s'. onPath s' \<longrightarrow> l \<in> T s') \<longrightarrow> l \<in> s) \<and> (\<forall>l \<in> s. \<exists>s'. onPath s' \<and> l \<in> T s'))"

definition descends :: "'v Function \<Rightarrow> (nat \<Rightarrow> string set \<Rightarrow> string set) \<Rightarrow> 'a FlowState \<Rightarrow> nat \<Rightarrow> bool" where
  "descends f T st b \<longleftrightarrow> below (fl_in st ! b) (newIn f st b) \<and> below (fl_out st ! b) (map_option (T b) (newIn f st b))"

definition flow_inv :: "'v Function \<Rightarrow> (nat \<Rightarrow> string set \<Rightarrow> string set) \<Rightarrow> string set \<Rightarrow> string set \<Rightarrow> 'a FlowState \<Rightarrow> bool" where
  "flow_inv f T E U st \<longleftrightarrow>
     length (fl_in st) = length (fn_blocks f) \<and> length (fl_out st) = length (fn_blocks f) \<and> fl_in st ! 0 = Some E \<and>
     (\<forall>b < length (fn_blocks f). bb_isReachable (block f b) \<longrightarrow> descends f T st b) \<and>
     (\<forall>b < length (fn_blocks f). covers (held_on_path f T E b) id U (fl_in st ! b) \<and>
        covers (held_on_path f T E b) (T b) U (fl_out st ! b))"

definition rank :: "string set \<Rightarrow> lock_state \<Rightarrow> nat" where
  "rank U a = (case a of None \<Rightarrow> card U + 1 | Some s \<Rightarrow> card s)"

definition total_rank :: "string set \<Rightarrow> 'a FlowState \<Rightarrow> nat" where
  "total_rank U st = sum_list (map (rank U) (fl_in st)) + sum_list (map (rank U) (fl_out st))"

lemma rank_below:
  assumes "finite U" "below a b" "\<And>s. a = Some s \<Longrightarrow> s \<subseteq> U" "\<And>s. b = Some s \<Longrightarrow> s \<subseteq> U"
  shows "rank U b \<le> rank U a" and "a \<noteq> b \<Longrightarrow> rank U b < rank U a"
proof -
  consider "a = None" "b = None" | t where "a = None" "b = Some t" | s t where "a = Some s" "b = Some t" "t \<subseteq> s"
    using assms(2) unfolding below_def by (cases a; cases b) auto
  then have "rank U b \<le> rank U a \<and> (a \<noteq> b \<longrightarrow> rank U b < rank U a)"
  proof cases
    case 2
    then show ?thesis using assms(1,4) card_mono [of U t] by (simp add: rank_def)
  next
    case 3
    have fin: "finite s" using assms(1) assms(3) [OF 3(1)] by (rule rev_finite_subset)
    show ?thesis using 3 card_mono [OF fin 3(3)] psubset_card_mono [OF fin, of t] by (auto simp: rank_def)
  qed simp
  then show "rank U b \<le> rank U a" "a \<noteq> b \<Longrightarrow> rank U b < rank U a" by blast+
qed

lemma sum_rank_update:
  assumes "b < length as" "rank U x \<le> rank U (as ! b)"
  shows "sum_list (map (rank U) (as[b := x])) + rank U (as ! b) = sum_list (map (rank U) as) + rank U x"
proof -
  have "sum_list (map (rank U) as) \<ge> rank U (as ! b)"
    using assms(1) elem_le_sum_list [of b "map (rank U) as"] by simp
  then show ?thesis using assms by (simp add: map_update sum_list_update)
qed

text \<open>A visit sets both states of the block it visits, once its predecessors tell what they are.\<close>

lemma visitBlock_effect:
  assumes "\<And>b s r. fst (process b s r) = T b s"
    and "length (fl_in st) = length (fn_blocks f)" "length (fl_out st) = length (fn_blocks f)" "b < length (fn_blocks f)"
  shows "newIn f st b = None \<Longrightarrow> visitBlock f process b st = st"
    and "newIn f st b = Some s \<Longrightarrow> visitBlock f process b st =
      \<lparr>fl_in = (fl_in st)[b := Some s], fl_out = (fl_out st)[b := Some (T b s)],
       fl_recorded = snd (process b s (fl_recorded st)),
       fl_changed = (fl_changed st \<or> fl_in st ! b \<noteq> Some s \<or> fl_out st ! b \<noteq> Some (T b s))\<rparr>"
proof -
  show "newIn f st b = None \<Longrightarrow> visitBlock f process b st = st"
    by (simp add: visitBlock_def newIn_def Let_def)
  assume new: "newIn f st b = Some s"
  obtain r where p: "process b s (fl_recorded st) = (T b s, r)"
    using assms(1) [of b s "fl_recorded st"] by (cases "process b s (fl_recorded st)") simp
  have "(fl_in st)[b := Some s] = fl_in st" if "fl_in st ! b = Some s" using that by (metis list_update_id)
  moreover have "(fl_out st)[b := Some (T b s)] = fl_out st" if "fl_out st ! b = Some (T b s)" using that by (metis list_update_id)
  ultimately show "visitBlock f process b st =
      \<lparr>fl_in = (fl_in st)[b := Some s], fl_out = (fl_out st)[b := Some (T b s)],
       fl_recorded = snd (process b s (fl_recorded st)),
       fl_changed = (fl_changed st \<or> fl_in st ! b \<noteq> Some s \<or> fl_out st ! b \<noteq> Some (T b s))\<rparr>"
    unfolding visitBlock_def newIn_def [symmetric] new Let_def option.case p prod.case by (cases st) auto
qed

locale lock_flow =
  fixes process :: "'a block_process" and kill gen :: "nat \<Rightarrow> string set"
  assumes process_locks: "fst (process b s r) = through kill gen b s"
    and finite_gen: "finite (gen b)"
begin

lemma visit_effect:
  assumes "flow_inv f (through kill gen) E U st" "b < length (fn_blocks f)"
  shows "newIn f st b = None \<Longrightarrow> visitBlock f process b st = st"
    and "newIn f st b = Some s \<Longrightarrow> visitBlock f process b st =
      \<lparr>fl_in = (fl_in st)[b := Some s], fl_out = (fl_out st)[b := Some (through kill gen b s)],
       fl_recorded = snd (process b s (fl_recorded st)),
       fl_changed = (fl_changed st \<or> fl_in st ! b \<noteq> Some s \<or> fl_out st ! b \<noteq> Some (through kill gen b s))\<rparr>"
  using assms by (intro visitBlock_effect; simp add: process_locks flow_inv_def)+

lemma all_paths_through:
  assumes "cfg_path f b" "\<And>s'. held_on_path f (through kill gen) E b s' \<Longrightarrow> l \<in> through kill gen b s'"
    and "(\<And>s'. held_on_path f (through kill gen) E b s' \<Longrightarrow> l \<in> s') \<Longrightarrow> l \<in> s"
  shows "l \<in> through kill gen b s"
proof (cases "l \<in> gen b")
  case False
  obtain s' where "held_on_path f (through kill gen) E b s'" using held_on_path_exists [OF assms(1)] by blast
  then have "l \<notin> kill b" using assms(2) False by (auto simp: through_def)
  moreover have "l \<in> s" using assms(2) False by (intro assms(3)) (auto simp: through_def)
  ultimately show ?thesis by (simp add: through_def)
qed (simp add: through_def)

lemma newIn_inv:
  assumes "wf_function f" "flow_inv f (through kill gen) E U st" "b < length (fn_blocks f)"
  shows "covers (held_on_path f (through kill gen) E b) id U (newIn f st b)"
proof (cases "b = 0")
  case True
  have "covers (held_on_path f (through kill gen) E b) id U (fl_in st ! b)"
    using assms(2,3) unfolding flow_inv_def by blast
  moreover have "newIn f st b = fl_in st ! b" using True by (simp add: newIn_def)
  ultimately show ?thesis by simp
next
  case False
  let ?T = "through kill gen"
  let ?sets = "{s. \<exists>p \<in> set (bb_predecessors (block f b)). bb_isReachable (block f p) \<and> fl_out st ! p = Some s}"
  have out: "covers (held_on_path f ?T E p) (?T p) U (fl_out st ! p)" if "p \<in> set (bb_predecessors (block f b))" for p
    using assms(2) wf_reachable(4) [OF assms(1,3) that] unfolding flow_inv_def by blast
  show ?thesis
    unfolding covers_def
  proof (intro allI impI conjI)
    fix s assume "newIn f st b = Some s"
    then have s: "?sets \<noteq> {}" "s = \<Inter> ?sets" by (auto simp: newIn_meet [OF False] Let_def split: if_splits)
    show "s \<subseteq> U" using s out unfolding covers_def by blast
    show "\<forall>l \<in> s. \<exists>s'. held_on_path f ?T E b s' \<and> l \<in> id s'"
    proof
      fix l assume l: "l \<in> s"
      obtain p t where p: "p \<in> set (bb_predecessors (block f b))" "fl_out st ! p = Some t" "l \<in> t" using s l by blast
      then obtain s' where "held_on_path f ?T E p s'" "l \<in> ?T p s'" using out [OF p(1)] unfolding covers_def by blast
      then show "\<exists>s'. held_on_path f ?T E b s' \<and> l \<in> id s'" using held_on_path.step [OF _ assms(3) p(1)] by auto
    qed
    fix l assume all: "\<forall>s'. held_on_path f ?T E b s' \<longrightarrow> l \<in> id s'"
    show "l \<in> s"
      unfolding s(2)
    proof clarify
      fix t p assume p: "p \<in> set (bb_predecessors (block f b))" "bb_isReachable (block f p)" "fl_out st ! p = Some t"
      have "l \<in> ?T p s'" if "held_on_path f ?T E p s'" for s'
        using all held_on_path.step [OF that assms(3) p(1)] by simp
      then show "l \<in> t" using out [OF p(1)] p(3) unfolding covers_def by blast
    qed
  qed
qed

lemma covers_through:
  assumes "cfg_path f b" "covers (held_on_path f (through kill gen) E b) id U (Some s)" "gen b \<subseteq> U"
  shows "covers (held_on_path f (through kill gen) E b) (through kill gen b) U (Some (through kill gen b s))"
proof -
  have "through kill gen b s \<subseteq> U" using assms(2,3) by (auto simp: covers_def through_def)
  moreover have "l \<in> through kill gen b s"
    if "\<And>s'. held_on_path f (through kill gen) E b s' \<Longrightarrow> l \<in> through kill gen b s'" for l
    using assms(1) that by (rule all_paths_through) (use assms(2) in \<open>auto simp: covers_def\<close>)
  moreover have "\<exists>s'. held_on_path f (through kill gen) E b s' \<and> l \<in> through kill gen b s'" if "l \<in> through kill gen b s" for l
  proof (cases "l \<in> gen b")
    case True
    then show ?thesis using held_on_path_exists [OF assms(1)] by (auto simp: through_def)
  next
    case False
    then show ?thesis using that assms(2) by (auto simp: covers_def through_def)
  qed
  ultimately show ?thesis by (simp add: covers_def)
qed

lemma visit_inv:
  assumes wf: "wf_function f" and inv: "flow_inv f (through kill gen) E U st"
    and b: "b < length (fn_blocks f)" "bb_isReachable (block f b)" and gens: "gen b \<subseteq> U"
  shows "flow_inv f (through kill gen) E U (visitBlock f process b st) \<and>
    states_below (fl_in st) (fl_in (visitBlock f process b st)) \<and>
    states_below (fl_out st) (fl_out (visitBlock f process b st))"
proof (cases "newIn f st b")
  case None
  then show ?thesis using visit_effect(1) [OF inv b(1)] inv by simp
next
  case (Some s)
  let ?T = "through kill gen" and ?st = "visitBlock f process b st"
  note eff = visit_effect(2) [OF inv b(1) Some]
  have len: "length (fl_in st) = length (fn_blocks f)" "length (fl_out st) = length (fn_blocks f)"
    and entry: "fl_in st ! 0 = Some E"
    and post: "\<And>c. c < length (fn_blocks f) \<Longrightarrow> bb_isReachable (block f c) \<Longrightarrow> descends f ?T st c"
    and cov: "\<And>c. c < length (fn_blocks f) \<Longrightarrow> covers (held_on_path f ?T E c) id U (fl_in st ! c) \<and>
      covers (held_on_path f ?T E c) (?T c) U (fl_out st ! c)"
    using inv by (auto simp: flow_inv_def)
  have at: "fl_in ?st ! c = (if c = b then Some s else fl_in st ! c)"
    "fl_out ?st ! c = (if c = b then Some (?T b s) else fl_out st ! c)" if "c < length (fn_blocks f)" for c
    using that len unfolding eff by (simp_all add: nth_list_update)
  have zero: "fl_in ?st ! 0 = Some E"
    using entry Some b(1) wf_reachable(1) [OF wf] at(1) [of 0] by (auto simp: newIn_def)
  have lower: "states_below (fl_in st) (fl_in ?st)" "states_below (fl_out st) (fl_out ?st)"
    using post [OF b] Some len b(1) unfolding eff descends_def by (auto intro!: states_below_update)
  have mono: "below (newIn f st c) (newIn f ?st c)" if "c < length (fn_blocks f)" for c
    using wf that len(2) lower(2) by (rule newIn_mono) (simp add: entry zero)
  have out_mono: "below (map_option (?T c) x) (map_option (?T c) y)" if "below x y" for c x y
    using that through_mono [of _ _ kill gen c] unfolding below_def by (cases x; cases y) auto
  have "descends f ?T ?st c" if c: "c < length (fn_blocks f)" "bb_isReachable (block f c)" for c
  proof (cases "c = b")
    case True
    then show ?thesis
      using mono [OF c(1)] out_mono [OF mono [OF c(1)], of b] Some at [OF c(1)] by (simp add: descends_def)
  next
    case False
    have "below (fl_in st ! c) (newIn f ?st c)"
      using post [OF c] mono [OF c(1)] unfolding descends_def by (blast intro: below_trans)
    moreover have "below (fl_out st ! c) (map_option (?T c) (newIn f ?st c))"
      using post [OF c] out_mono [OF mono [OF c(1)]] unfolding descends_def by (blast intro: below_trans)
    ultimately show ?thesis using False at [OF c(1)] by (simp add: descends_def)
  qed
  moreover have new: "covers (held_on_path f ?T E b) id U (Some s)" using newIn_inv [OF wf inv b(1)] Some by simp
  moreover have "covers (held_on_path f ?T E b) (?T b) U (Some (?T b s))"
    using wf_reachable(5) [OF wf b(1)] b(2) by (intro covers_through new gens) simp
  moreover have "length (fl_in ?st) = length (fn_blocks f)" "length (fl_out ?st) = length (fn_blocks f)"
    using len unfolding eff by simp_all
  ultimately show ?thesis using zero lower cov at unfolding flow_inv_def by simp
qed

text \<open>A visit that changes nothing finds the states of its block settled.\<close>

lemma visit_rank:
  assumes wf: "wf_function f" and inv: "flow_inv f (through kill gen) E U st"
    and b: "b < length (fn_blocks f)" "bb_isReachable (block f b)" and U: "gen b \<subseteq> U" "finite U"
  shows "total_rank U (visitBlock f process b st) \<le> total_rank U st"
    and "fl_changed (visitBlock f process b st) \<Longrightarrow> fl_changed st \<or> total_rank U (visitBlock f process b st) < total_rank U st"
proof -
  let ?T = "through kill gen" and ?st = "visitBlock f process b st"
  have "total_rank U ?st \<le> total_rank U st \<and> (fl_changed ?st \<longrightarrow> fl_changed st \<or> total_rank U ?st < total_rank U st)"
  proof (cases "newIn f st b")
    case None
    then show ?thesis using visit_effect(1) [OF inv b(1)] by simp
  next
    case (Some s)
    note eff = visit_effect(2) [OF inv b(1) Some]
    have len: "b < length (fl_in st)" "b < length (fl_out st)" using inv b(1) by (simp_all add: flow_inv_def)
    have lower: "below (fl_in st ! b) (Some s)" "below (fl_out st ! b) (Some (?T b s))"
      using inv b Some by (auto simp: flow_inv_def descends_def)
    have cov: "covers (held_on_path f ?T E b) id U (fl_in st ! b)" "covers (held_on_path f ?T E b) (?T b) U (fl_out st ! b)"
      using inv b(1) by (auto simp: flow_inv_def)
    have new: "s \<subseteq> U" "?T b s \<subseteq> U"
      using newIn_inv [OF wf inv b(1)] Some U(1) by (auto simp: covers_def through_def)
    have r1: "rank U (Some s) \<le> rank U (fl_in st ! b)" "fl_in st ! b \<noteq> Some s \<Longrightarrow> rank U (Some s) < rank U (fl_in st ! b)"
      using cov(1) new by (auto intro!: rank_below [OF U(2) lower(1)] simp: covers_def)
    have r2: "rank U (Some (?T b s)) \<le> rank U (fl_out st ! b)"
      "fl_out st ! b \<noteq> Some (?T b s) \<Longrightarrow> rank U (Some (?T b s)) < rank U (fl_out st ! b)"
      using cov(2) new by (auto intro!: rank_below [OF U(2) lower(2)] simp: covers_def)
    have "total_rank U ?st + rank U (fl_in st ! b) + rank U (fl_out st ! b) =
        total_rank U st + rank U (Some s) + rank U (Some (?T b s))"
      using sum_rank_update [OF len(1) r1(1)] sum_rank_update [OF len(2) r2(1)] unfolding eff total_rank_def by simp
    moreover have "fl_changed ?st \<longleftrightarrow> fl_changed st \<or> fl_in st ! b \<noteq> Some s \<or> fl_out st ! b \<noteq> Some (?T b s)"
      unfolding eff by simp
    ultimately show ?thesis using r1 r2 by linarith
  qed
  then show "total_rank U ?st \<le> total_rank U st"
    and "fl_changed ?st \<Longrightarrow> fl_changed st \<or> total_rank U ?st < total_rank U st" by blast+
qed

definition settled :: "'v Function \<Rightarrow> 'a FlowState \<Rightarrow> nat \<Rightarrow> bool" where
  "settled f st b \<longleftrightarrow> newIn f st b = None \<or>
     fl_in st ! b = newIn f st b \<and> fl_out st ! b = map_option (through kill gen b) (newIn f st b)"

definition recordIn :: "'v Function \<Rightarrow> 'a FlowState \<Rightarrow> nat \<Rightarrow> 'a \<Rightarrow> 'a" where
  "recordIn f st b r = (case newIn f st b of None \<Rightarrow> r | Some s \<Rightarrow> snd (process b s r))"

lemma visit_unchanged:
  assumes inv: "flow_inv f (through kill gen) E U st" and b: "b < length (fn_blocks f)"
    and unchanged: "\<not> fl_changed (visitBlock f process b st)"
  shows "\<not> fl_changed st" "settled f st b"
    and "visitBlock f process b st = st\<lparr>fl_recorded := recordIn f st b (fl_recorded st)\<rparr>"
proof -
  have "\<not> fl_changed st \<and> settled f st b \<and>
    visitBlock f process b st = st\<lparr>fl_recorded := recordIn f st b (fl_recorded st)\<rparr>"
  proof (cases "newIn f st b")
    case None
    then show ?thesis using visit_effect(1) [OF inv b] unchanged by (simp add: settled_def recordIn_def)
  next
    case (Some s)
    note eff = visit_effect(2) [OF inv b Some]
    have same: "\<not> fl_changed st" "fl_in st ! b = Some s" "fl_out st ! b = Some (through kill gen b s)"
      using unchanged unfolding eff by simp_all
    then have "(fl_in st)[b := Some s] = fl_in st" "(fl_out st)[b := Some (through kill gen b s)] = fl_out st"
      by (metis list_update_id)+
    then show ?thesis using same Some unfolding eff by (cases st) (simp add: settled_def recordIn_def)
  qed
  then show "\<not> fl_changed st" "settled f st b"
    and "visitBlock f process b st = st\<lparr>fl_recorded := recordIn f st b (fl_recorded st)\<rparr>" by blast+
qed

lemma newIn_recorded [simp]: "newIn f (st\<lparr>fl_recorded := r\<rparr>) b = newIn f st b"
  by (simp add: newIn_def)

lemma inv_recorded [simp]:
  "flow_inv f T E U (st\<lparr>fl_recorded := r\<rparr>) = flow_inv f T E U st" "flow_inv f T E U (st\<lparr>fl_changed := c\<rparr>) = flow_inv f T E U st"
  by (simp_all add: flow_inv_def descends_def newIn_def)

lemma settled_recorded [simp]: "settled f (st\<lparr>fl_recorded := r\<rparr>) = settled f st"
  and recordIn_recorded [simp]: "recordIn f (st\<lparr>fl_recorded := r\<rparr>) = recordIn f st"
  by (intro ext; simp add: settled_def recordIn_def)+

lemma visits_inv:
  assumes "wf_function f" "flow_inv f (through kill gen) E U st" "set bs \<subseteq> set (reachableBlocks f)"
    and "\<And>b. b < length (fn_blocks f) \<Longrightarrow> gen b \<subseteq> U" "finite U"
  shows "flow_inv f (through kill gen) E U (fold (visitBlock f process) bs st) \<and>
    total_rank U (fold (visitBlock f process) bs st) \<le> total_rank U st \<and>
    (fl_changed (fold (visitBlock f process) bs st) \<longrightarrow>
       fl_changed st \<or> total_rank U (fold (visitBlock f process) bs st) < total_rank U st)"
  using assms(2,3)
proof (induction bs arbitrary: st)
  case (Cons b bs)
  have b: "b < length (fn_blocks f)" "bb_isReachable (block f b)" using Cons.prems(2) by (auto simp: reachableBlocks_def)
  note visit = visit_inv [OF assms(1) Cons.prems(1) b assms(4) [OF b(1)]] visit_rank [OF assms(1) Cons.prems(1) b assms(4) [OF b(1)] assms(5)]
  have "set bs \<subseteq> set (reachableBlocks f)" using Cons.prems(2) by simp
  note rest = Cons.IH [OF conjunct1 [OF visit(1)] this]
  show ?case using rest visit(2,3) by auto
qed simp

lemma visits_unchanged:
  assumes "wf_function f" "flow_inv f (through kill gen) E U st" "set bs \<subseteq> set (reachableBlocks f)"
    and "\<And>b. b < length (fn_blocks f) \<Longrightarrow> gen b \<subseteq> U" and "\<not> fl_changed (fold (visitBlock f process) bs st)"
  shows "\<not> fl_changed st \<and> (\<forall>b \<in> set bs. settled f st b) \<and>
    fold (visitBlock f process) bs st = st\<lparr>fl_recorded := fold (recordIn f st) bs (fl_recorded st)\<rparr>"
  using assms(2,3,5)
proof (induction bs arbitrary: st)
  case (Cons b bs)
  let ?st = "visitBlock f process b st"
  have b: "b < length (fn_blocks f)" "bb_isReachable (block f b)" and bs: "set bs \<subseteq> set (reachableBlocks f)"
    using Cons.prems(2) by (auto simp: reachableBlocks_def)
  note rest = Cons.IH [OF conjunct1 [OF visit_inv [OF assms(1) Cons.prems(1) b assms(4) [OF b(1)]]] bs]
  have rest: "\<not> fl_changed ?st" "\<forall>b \<in> set bs. settled f ?st b"
    "fold (visitBlock f process) bs ?st = ?st\<lparr>fl_recorded := fold (recordIn f ?st) bs (fl_recorded ?st)\<rparr>"
    using rest Cons.prems(3) by simp_all
  note here = visit_unchanged [OF Cons.prems(1) b(1) rest(1)]
  show ?case using here(1,2) rest(2,3) by (simp add: here(3))
qed simp

text \<open>The loop ends, whatever a predicate \<open>P\<close> that recording keeps says of what was recorded before the last round.\<close>

lemma flowLoop_returns:
  assumes "wf_function f" "flow_inv f (through kill gen) E U st" "\<And>b. b < length (fn_blocks f) \<Longrightarrow> gen b \<subseteq> U" "finite U" "P (fl_recorded st)"
    and P: "\<And>b st. P (fl_recorded st) \<Longrightarrow> b \<in> set (reachableBlocks f) \<Longrightarrow> flow_inv f (through kill gen) E U st \<Longrightarrow>
      P (fl_recorded (visitBlock f process b st))"
  shows "\<exists>st' r. flowLoop f process st = Some st' \<and> flow_inv f (through kill gen) E U st' \<and> P r \<and>
    (\<forall>b \<in> set (reachableBlocks f). settled f st' b) \<and> fl_recorded st' = fold (recordIn f st') (reachableBlocks f) r"
  using assms(2,5)
proof (induction "total_rank U st" arbitrary: st rule: less_induct)
  case less
  let ?st = "st\<lparr>fl_changed := False\<rparr>"
  have inv: "flow_inv f (through kill gen) E U ?st" using less.prems(1) by simp
  have keep: "P (fl_recorded (fold (visitBlock f process) bs s))"
    if "set bs \<subseteq> set (reachableBlocks f)" "flow_inv f (through kill gen) E U s" "P (fl_recorded s)" for bs s
    using that
  proof (induction bs arbitrary: s)
    case (Cons b bs)
    have b: "b < length (fn_blocks f)" "bb_isReachable (block f b)" using Cons.prems(1) by (auto simp: reachableBlocks_def)
    show ?case
      using Cons.IH [of "visitBlock f process b s"] Cons.prems P visit_inv [OF assms(1) Cons.prems(2) b assms(3) [OF b(1)]] by simp
  qed simp
  note round = visits_inv [OF assms(1) inv subset_refl assms(3,4), folded flowRound_def]
  have kept: "P (fl_recorded (flowRound f process st))"
    unfolding flowRound_def using inv less.prems(2) by (intro keep) simp_all
  show ?case
  proof (cases "fl_changed (flowRound f process st)")
    case True
    then have "total_rank U (flowRound f process st) < total_rank U st"
      using round by (simp add: total_rank_def)
    then show ?thesis
      using less.hyps [OF _ conjunct1 [OF round] kept] True flowLoop.simps [of f process st] by (simp add: Let_def)
  next
    case False
    note same = visits_unchanged [OF assms(1) inv subset_refl assms(3) False [unfolded flowRound_def], folded flowRound_def]
    have st': "flowRound f process st = ?st\<lparr>fl_recorded := fold (recordIn f ?st) (reachableBlocks f) (fl_recorded st)\<rparr>"
      using same by simp
    have "settled f (flowRound f process st) = settled f ?st" "recordIn f (flowRound f process st) = recordIn f ?st"
      unfolding st' by (simp_all only: settled_recorded recordIn_recorded)
    then show ?thesis
      using same round less.prems(2) False flowLoop.simps [of f process st] by (auto simp: Let_def intro!: exI [of _ "fl_recorded st"])
  qed
qed

lemma initial_inv:
  assumes "wf_function f" "E \<subseteq> U"
  shows "flow_inv f (through kill gen) E U (initialFlow f E r)"
proof -
  have n: "0 < length (fn_blocks f)" using wf_reachable(1) [OF assms(1)] by simp
  have "fl_in (initialFlow f E r) ! b = (if b = 0 then Some E else None)" "fl_out (initialFlow f E r) ! b = None"
    if "b < length (fn_blocks f)" for b
    using that n by (simp_all add: initialFlow_def Let_def nth_list_update)
  moreover have "l \<in> E" if "\<forall>s. held_on_path f (through kill gen) E 0 s \<longrightarrow> l \<in> id s" for l
    using that held_on_path.entry by fastforce
  moreover have "\<exists>s. held_on_path f (through kill gen) E 0 s \<and> l \<in> s" if "l \<in> E" for l
    using that held_on_path.entry by blast
  ultimately show ?thesis
    using n assms(2) by (simp add: flow_inv_def descends_def covers_def newIn_def initialFlow_def Let_def)
qed

lemma settled_path:
  assumes wf: "wf_function f" and inv: "flow_inv f (through kill gen) E U st"
    and settled: "\<forall>b \<in> set (reachableBlocks f). settled f st b"
    and "held_on_path f (through kill gen) E b s"
  shows "\<exists>t. newIn f st b = Some t \<and> fl_out st ! b = Some (through kill gen b t) \<and> t \<subseteq> s"
  using assms(4)
proof (induction rule: held_on_path.induct)
  case entry
  have "newIn f st 0 = Some E" using inv by (simp add: flow_inv_def newIn_def)
  moreover have "settled f st 0" using settled wf_reachable(1,2) [OF wf] by (simp add: reachableBlocks_def)
  ultimately show ?case by (auto simp: settled_def)
next
  case (step p s b)
  obtain t where t: "newIn f st p = Some t" "fl_out st ! p = Some (through kill gen p t)" "t \<subseteq> s" using step.IH by blast
  have paths: "cfg_path f p" "cfg_path f b"
    using held_on_path_cfg [OF step.hyps(1)] held_on_path_cfg [OF held_on_path.step [OF step.hyps]] by blast+
  have reach: "bb_isReachable (block f p)" "bb_isReachable (block f b)"
    using paths wf_reachable(5) [OF wf] cfg_path_bound [OF _ wf] by blast+
  have "b \<noteq> 0" using step.hyps(3) wf_reachable(3) [OF wf] by (metis empty_iff empty_set)
  let ?sets = "{s. \<exists>p \<in> set (bb_predecessors (block f b)). bb_isReachable (block f p) \<and> fl_out st ! p = Some s}"
  have out: "through kill gen p t \<in> ?sets" using t(2) reach(1) step.hyps(3) by blast
  then have "?sets \<noteq> {}" by blast
  then have "newIn f st b = Some (\<Inter> ?sets)" by (simp add: newIn_meet [OF \<open>b \<noteq> 0\<close>] Let_def)
  then obtain u where u: "newIn f st b = Some u" "u \<subseteq> through kill gen p t" using Inter_lower [OF out] by blast
  have "settled f st b" using settled reach(2) step.hyps(2) by (simp add: reachableBlocks_def)
  then show ?case using u t(3) through_mono [OF t(3), of kill gen p] by (auto simp: settled_def)
qed

lemma settled_exact:
  assumes "wf_function f" "flow_inv f (through kill gen) E U st" "\<forall>b \<in> set (reachableBlocks f). settled f st b"
    and "b \<in> set (reachableBlocks f)"
  shows "newIn f st b = Some (held_on_all_paths f (through kill gen) E b)"
proof -
  have b: "b < length (fn_blocks f)" "cfg_path f b"
    using assms(4) wf_reachable(5) [OF assms(1)] by (auto simp: reachableBlocks_def)
  obtain t where t: "newIn f st b = Some t"
    using held_on_path_exists [OF b(2)] settled_path [OF assms(1-3)] by blast
  have "t \<subseteq> s" if "held_on_path f (through kill gen) E b s" for s
    using settled_path [OF assms(1-3) that] t by auto
  moreover have "l \<in> t" if "\<And>s. held_on_path f (through kill gen) E b s \<Longrightarrow> l \<in> s" for l
    using newIn_inv [OF assms(1,2) b(1)] t that by (auto simp: covers_def)
  ultimately show ?thesis unfolding t held_on_all_paths_def by blast
qed

theorem flow_exact:
  assumes "wf_function f" "finite E" "P nothing"
    and "\<And>b s r. P r \<Longrightarrow> b \<in> set (reachableBlocks f) \<Longrightarrow> held_on_all_paths f (through kill gen) E b \<subseteq> s \<Longrightarrow>
      (\<And>l. l \<in> s \<Longrightarrow> \<exists>s'. held_on_path f (through kill gen) E b s' \<and> l \<in> s') \<Longrightarrow> P (snd (process b s r))"
  shows "\<exists>st r. flowLoop f process (initialFlow f E nothing) = Some st \<and> P r \<and>
    fl_recorded st = fold (\<lambda>b r. snd (process b (held_on_all_paths f (through kill gen) E b) r)) (reachableBlocks f) r"
proof -
  define U where "U = E \<union> (\<Union>b < length (fn_blocks f). gen b)"
  have U: "E \<subseteq> U" "\<And>b. b < length (fn_blocks f) \<Longrightarrow> gen b \<subseteq> U" "finite U"
    unfolding U_def using assms(2) finite_gen by auto
  have step: "P (fl_recorded (visitBlock f process b st))"
    if "P (fl_recorded st)" "b \<in> set (reachableBlocks f)" "flow_inv f (through kill gen) E U st" for b st
  proof -
    have b: "b < length (fn_blocks f)" using that(2) by (simp add: reachableBlocks_def)
    show ?thesis
    proof (cases "newIn f st b")
      case (Some s)
      have "held_on_all_paths f (through kill gen) E b \<subseteq> s"
        using newIn_inv [OF assms(1) that(3) b] Some by (auto simp: covers_def held_on_all_paths_def)
      moreover have "\<exists>s'. held_on_path f (through kill gen) E b s' \<and> l \<in> s'" if "l \<in> s" for l
        using newIn_inv [OF assms(1) \<open>flow_inv f (through kill gen) E U st\<close> b] Some that by (auto simp: covers_def)
      ultimately show ?thesis using visit_effect(2) [OF that(3) b Some] assms(4) [OF that(1,2)] by simp
    qed (use visit_effect(1) [OF that(3) b] that(1) in simp)
  qed
  have initial: "P (fl_recorded (initialFlow f E nothing))" using assms(3) by (simp add: initialFlow_def Let_def)
  obtain st r where st: "flowLoop f process (initialFlow f E nothing) = Some st" "flow_inv f (through kill gen) E U st" "P r"
    "\<forall>b \<in> set (reachableBlocks f). settled f st b" "fl_recorded st = fold (recordIn f st) (reachableBlocks f) r"
    using flowLoop_returns [where P = P, OF assms(1) initial_inv [OF assms(1) U(1), of nothing] U(2,3) initial step] by blast
  have "fold (recordIn f st) (reachableBlocks f) r =
      fold (\<lambda>b r. snd (process b (held_on_all_paths f (through kill gen) E b) r)) (reachableBlocks f) r"
    by (intro fold_cong) (simp_all add: recordIn_def fun_eq_iff settled_exact [OF assms(1) st(2,4)])
  then show ?thesis using st by metis
qed

end

end
