(* ===== verification/Lock_Scope.thy ===== *)
theory Lock_Scope
  imports Lock_Flow
begin

text \<open>
  Which locks a function holds at given instructions: \<open>LockScopeTracker\<close> of \<open>analysis/lock_scope_tracker.cpp\<close>. It
  runs the data flow of \<open>Lock_Flow\<close> and notes, in each round, the locks held at the instructions it was
  asked about.
\<close>

section \<open>The tracker\<close>

type_synonym SharedObjectBindings = "(string \<times> SharedObjectBinding) list"

definition sharedObjectNames :: "SharedObjectBindings \<Rightarrow> SharedObjectKind \<Rightarrow> string set" where
  "sharedObjectNames bindings kind =
     set (map (\<lambda>(entryFunctionId, binding). rb_symbol (sb_object binding)) (filter (\<lambda>(entryFunctionId, binding). sb_kind binding = kind) bindings))"

record 'v LockScopeTracker =
  lt_naming :: "'v LockNaming"
  lt_summaries :: "summaries option"
  lt_sharedObjects :: "SharedObjectBindings option"

definition localObjects :: "SharedObjectBindings option \<Rightarrow> string set" where
  "localObjects sharedObjects =
     (case sharedObjects of None \<Rightarrow> {} | Some bindings \<Rightarrow> sharedObjectNames bindings SO_Local)"

definition scopeObject :: "SharedObjectBindings option \<Rightarrow> string \<Rightarrow> SharedObjectBinding option" where
  "scopeObject sharedObjects functionId =
     (case sharedObjects of
        None \<Rightarrow> None
      | Some bindings \<Rightarrow>
          (case map_of bindings functionId of
             None \<Rightarrow> None
           | Some binding \<Rightarrow> if \<not> sb_keptForLackOfProof binding \<and> \<not> sb_runByDirectCalls binding then Some binding else None))"

definition scopeResolver :: "'v LockScopeTracker \<Rightarrow> 'v Function \<Rightarrow> 'v Resolver" where
  "scopeResolver tracker f =
     \<lparr>rs_naming = lt_naming tracker, rs_summaries = lt_summaries tracker, rs_nameParameterLocks = False,
      rs_sharedObject = scopeObject (lt_sharedObjects tracker) (fn_id f),
      rs_localObjects = Some (localObjects (lt_sharedObjects tracker)), rs_nameParameterFieldLocks = True\<rparr>"

definition changeLocks :: "LockStateChange \<Rightarrow> string set \<Rightarrow> string set" where
  "changeLocks change currentLocks = (currentLocks - set (lc_released change)) \<union> set (lc_acquired change)"

type_synonym held_by_access = "nat \<rightharpoonup> string set"

definition trackInstruction ::
  "FunctionLockEffects \<Rightarrow> nat set \<Rightarrow> 'v Instruction \<Rightarrow> string set \<times> held_by_access \<Rightarrow> string set \<times> held_by_access" where
  "trackInstruction effects tracked instruction st =
     (let (currentLocks, heldLocksByAccess) = st
      in (changeLocks (lockStateChangeFor instruction effects) currentLocks,
          if in_address instruction \<in> tracked then heldLocksByAccess(in_address instruction \<mapsto> currentLocks)
          else heldLocksByAccess))"

definition trackBlock :: "'v Function \<Rightarrow> FunctionLockEffects \<Rightarrow> nat set \<Rightarrow> held_by_access block_process" where
  "trackBlock f effects tracked b locks recorded =
     fold (trackInstruction effects tracked) (bb_instructions (block f b)) (locks, recorded)"

definition collectHeldLocks :: "'v LockScopeTracker \<Rightarrow> 'v Function \<Rightarrow> nat set \<Rightarrow> held_by_access option" where
  "collectHeldLocks tracker f trackedAccesses =
     (if trackedAccesses = {} then Some Map.empty
      else
        (let lockEffects = collectFunctionLockEffects f (scopeResolver tracker f)
         in map_option fl_recorded (flowLoop f (trackBlock f lockEffects trackedAccesses) (initialFlow f {} Map.empty))))"

section \<open>The locks of a run\<close>

text \<open>
  What a straight run of instructions does to the locks held before it is to drop some and add others.
\<close>

definition runLocks :: "FunctionLockEffects \<Rightarrow> 'v Instruction list \<Rightarrow> string set \<Rightarrow> string set" where
  "runLocks effects = fold (\<lambda>instruction. changeLocks (lockStateChangeFor instruction effects))"

definition runKill :: "FunctionLockEffects \<Rightarrow> 'v Instruction list \<Rightarrow> string set" where
  "runKill effects is = (\<Union>i \<in> set is. set (lc_released (lockStateChangeFor i effects)))"

lemma runLocks_kill_gen:
  "runLocks effects is s = s - runKill effects is \<union> runLocks effects is {}"
proof (induction "is" arbitrary: s rule: rev_induct)
  case (snoc i "is")
  let ?c = "lockStateChangeFor i effects"
  have "runLocks effects (is @ [i]) s = changeLocks ?c (runLocks effects is s)" for s by (simp add: runLocks_def)
  moreover have "runKill effects (is @ [i]) = runKill effects is \<union> set (lc_released ?c)" by (auto simp: runKill_def)
  ultimately show ?case using snoc.IH [of s] by (auto simp: changeLocks_def)
qed (simp add: runLocks_def runKill_def)

lemma finite_runLocks [simp]: "finite s \<Longrightarrow> finite (runLocks effects is s)"
  by (induction "is" arbitrary: s) (auto simp: runLocks_def changeLocks_def)

abbreviation blockLocks :: "'v Function \<Rightarrow> FunctionLockEffects \<Rightarrow> nat \<Rightarrow> string set \<Rightarrow> string set" where
  "blockLocks f effects b \<equiv> runLocks effects (bb_instructions (block f b))"

abbreviation blockKill :: "'v Function \<Rightarrow> FunctionLockEffects \<Rightarrow> nat \<Rightarrow> string set" where
  "blockKill f effects b \<equiv> runKill effects (bb_instructions (block f b))"

abbreviation blockGen :: "'v Function \<Rightarrow> FunctionLockEffects \<Rightarrow> nat \<Rightarrow> string set" where
  "blockGen f effects b \<equiv> blockLocks f effects b {}"

lemma through_block: "through (blockKill f effects) (blockGen f effects) = blockLocks f effects"
  by (intro ext) (metis through_def runLocks_kill_gen)

lemma fold_track:
  "fold (trackInstruction effects tracked) is (s, r) =
     (runLocks effects is s, snd (fold (trackInstruction effects tracked) is (s, r)))"
  by (induction "is" arbitrary: s r) (auto simp: trackInstruction_def runLocks_def)

interpretation scope: lock_flow "trackBlock f effects tracked" "blockKill f effects" "blockGen f effects"
  for f :: "'v Function" and effects tracked
proof unfold_locales
  show "fst (trackBlock f effects tracked b s r) = through (blockKill f effects) (blockGen f effects) b s" for b s r
    unfolding through_block trackBlock_def by (subst fold_track) simp
qed simp

section \<open>What is noted\<close>

lemma noted_outside:
  "a \<notin> in_address ` set is \<or> a \<notin> tracked \<Longrightarrow> snd (fold (trackInstruction effects tracked) is (s, r)) a = r a"
  by (induction "is" arbitrary: s r) (auto simp: trackInstruction_def)

lemma noted_at:
  assumes "distinct (map in_address (pre @ i # post))" "in_address i \<in> tracked"
  shows "snd (fold (trackInstruction effects tracked) (pre @ i # post) (s, r)) (in_address i) = Some (runLocks effects pre s)"
proof -
  obtain r' where pre: "fold (trackInstruction effects tracked) pre (s, r) = (runLocks effects pre s, r')"
    using fold_track by blast
  show ?thesis using assms pre by (simp add: trackInstruction_def noted_outside)
qed

lemma distinct_concat_apart:
  "distinct (concat xss) \<Longrightarrow> i < length xss \<Longrightarrow> j < length xss \<Longrightarrow> i \<noteq> j \<Longrightarrow> x \<in> set (xss ! i) \<Longrightarrow> x \<notin> set (xss ! j)"
proof (induction xss arbitrary: i j)
  case (Cons xs xss)
  have inner: "y \<in> set (concat xss)" if "y \<in> set (xss ! k)" "k < length xss" for y k using that by auto
  show ?case
  proof (cases "i = 0 \<or> j = 0")
    case True
    then show ?thesis using Cons.prems inner [of x "i - 1"] inner [of x "j - 1"] by (auto simp: nth_Cons')
  next
    case False
    have "i - 1 < length xss" "j - 1 < length xss" "i - 1 \<noteq> j - 1" using Cons.prems(2-4) False by simp_all linarith+
    then show ?thesis using Cons.IH [of "i - 1" "j - 1"] Cons.prems False by (auto simp: nth_Cons')
  qed
qed simp

lemma wf_addresses:
  assumes "wf_function f" "b < length (fn_blocks f)"
  shows "distinct (map in_address (bb_instructions (block f b)))"
    and "c < length (fn_blocks f) \<Longrightarrow> b \<noteq> c \<Longrightarrow> a \<in> in_address ` set (bb_instructions (block f b)) \<Longrightarrow>
      a \<notin> in_address ` set (bb_instructions (block f c))"
proof -
  let ?as = "map (\<lambda>b. map in_address (bb_instructions b)) (fn_blocks f)"
  have *: "distinct (concat ?as)"
    using assms(1) by (simp add: wf_function_def fn_instructions_def map_concat comp_def)
  have "map in_address (bb_instructions (block f b)) \<in> set ?as" using assms(2) by simp
  then show "distinct (map in_address (bb_instructions (block f b)))" using * unfolding distinct_concat_iff by blast
  assume "c < length (fn_blocks f)" "b \<noteq> c" "a \<in> in_address ` set (bb_instructions (block f b))"
  then show "a \<notin> in_address ` set (bb_instructions (block f c))"
    using distinct_concat_apart [OF *, of b c a] assms(2) by simp
qed

text \<open>Noting block after block leaves for an address what its own block noted.\<close>

lemma noted_blocks:
  fixes f :: "'v Function" and effects tracked locks
  assumes wf: "wf_function f" and bs: "distinct bs" "set bs \<subseteq> {..< length (fn_blocks f)}"
  defines "note \<equiv> (\<lambda>b r. snd (trackBlock f effects tracked b (locks b) r))"
  shows "(\<forall>b \<in> set bs. a \<notin> in_address ` set (bb_instructions (block f b))) \<or> a \<notin> tracked \<Longrightarrow> fold note bs r a = r a"
    and "b \<in> set bs \<Longrightarrow> bb_instructions (block f b) = pre @ i # post \<Longrightarrow> in_address i \<in> tracked \<Longrightarrow>
      fold note bs r (in_address i) = Some (runLocks effects pre (locks b))"
proof -
  have out: "note b r a = r a" if "a \<notin> in_address ` set (bb_instructions (block f b)) \<or> a \<notin> tracked" for b r a
    using that by (simp add: note_def trackBlock_def noted_outside)
  have outs: "fold note bs r a = r a" if "(\<forall>b \<in> set bs. a \<notin> in_address ` set (bb_instructions (block f b))) \<or> a \<notin> tracked" for bs r a
    using that by (induction bs arbitrary: r) (auto simp: out)
  show "(\<forall>b \<in> set bs. a \<notin> in_address ` set (bb_instructions (block f b))) \<or> a \<notin> tracked \<Longrightarrow> fold note bs r a = r a"
    by (rule outs)
  assume b: "b \<in> set bs" and i: "bb_instructions (block f b) = pre @ i # post" "in_address i \<in> tracked"
  obtain cs ds where split: "bs = cs @ b # ds" using b by (meson split_list)
  have "in_address i \<in> in_address ` set (bb_instructions (block f b))" using i(1) by simp
  then have rest: "\<forall>c \<in> set ds. in_address i \<notin> in_address ` set (bb_instructions (block f c))"
    using wf_addresses(2) [OF wf, of b _ "in_address i"] bs split by (auto simp del: image_iff)
  have "note b r' (in_address i) = Some (runLocks effects pre (locks b))" for r'
    using wf_addresses(1) [OF wf, of b] b bs(2) i unfolding note_def trackBlock_def i(1) by (intro noted_at) auto
  then show "fold note bs r (in_address i) = Some (runLocks effects pre (locks b))"
    unfolding split using rest by (simp add: outs)
qed

text \<open>
  \<open>held_before f effects a s\<close>: some run of \<open>f\<close> from its entry, with no lock held there, reaches the instruction at
  address \<open>a\<close> holding \<open>s\<close>.
\<close>

definition held_before :: "'v Function \<Rightarrow> FunctionLockEffects \<Rightarrow> nat \<Rightarrow> string set \<Rightarrow> bool" where
  "held_before f effects a s \<longleftrightarrow>
     (\<exists>b pre i post s0. b < length (fn_blocks f) \<and> bb_instructions (block f b) = pre @ i # post \<and> in_address i = a \<and>
        held_on_path f (blockLocks f effects) {} b s0 \<and> s = runLocks effects pre s0)"

definition held_on_every_run :: "'v Function \<Rightarrow> FunctionLockEffects \<Rightarrow> nat \<Rightarrow> string set" where
  "held_on_every_run f effects a = {l. \<forall>s. held_before f effects a s \<longrightarrow> l \<in> s}"

lemma runLocks_Inter:
  assumes "\<exists>s. R s"
  shows "runLocks effects is {l. \<forall>s. R s \<longrightarrow> l \<in> s} = {l. \<forall>s. R s \<longrightarrow> l \<in> runLocks effects is s}"
proof -
  define K G where "K = runKill effects is" and "G = runLocks effects is {}"
  have kg: "runLocks effects is t = t - K \<union> G" for t unfolding K_def G_def by (rule runLocks_kill_gen)
  show ?thesis unfolding kg using assms by auto
qed

lemma held_before_split:
  assumes "wf_function f" "b < length (fn_blocks f)" "bb_instructions (block f b) = pre @ i # post"
  shows "held_before f effects (in_address i) s \<longleftrightarrow>
    (\<exists>s0. held_on_path f (blockLocks f effects) {} b s0 \<and> s = runLocks effects pre s0)"
proof
  assume "held_before f effects (in_address i) s"
  then obtain c pre' j post' s0 where c: "c < length (fn_blocks f)" "bb_instructions (block f c) = pre' @ j # post'"
    "in_address j = in_address i" "held_on_path f (blockLocks f effects) {} c s0" "s = runLocks effects pre' s0"
    unfolding held_before_def by blast
  have "c = b"
    using wf_addresses(2) [OF assms(1) c(1) assms(2), of "in_address i"] c(2,3) assms(3) by force
  then have "map in_address pre' @ in_address i # map in_address post' = map in_address pre @ in_address i # map in_address post"
    using c(2,3) assms(3) by (metis list.simps(9) map_append)
  moreover have "distinct (map in_address pre @ in_address i # map in_address post)"
    using wf_addresses(1) [OF assms(1,2)] assms(3) by simp
  ultimately have "map in_address pre' = map in_address pre" by (metis append_Cons_eq_iff not_distinct_conv_prefix distinct_append distinct.simps(2) UnI1 UnI2 disjoint_iff)
  then have "length pre' = length pre" by (metis length_map)
  then have "pre' = pre" using \<open>c = b\<close> c(2) assms(3) by simp
  then show "\<exists>s0. held_on_path f (blockLocks f effects) {} b s0 \<and> s = runLocks effects pre s0" using c \<open>c = b\<close> by blast
qed (use assms in \<open>auto simp: held_before_def\<close>)

lemma held_on_every_run_split:
  assumes "wf_function f" "b < length (fn_blocks f)" "bb_instructions (block f b) = pre @ i # post" "cfg_path f b"
  shows "held_on_every_run f effects (in_address i) = runLocks effects pre (held_on_all_paths f (blockLocks f effects) {} b)"
    and "\<exists>s. held_before f effects (in_address i) s"
proof -
  have some: "\<exists>s. held_on_path f (blockLocks f effects) {} b s" using held_on_path_exists [OF assms(4)] by blast
  have "held_on_every_run f effects (in_address i) =
      {l. \<forall>s. held_on_path f (blockLocks f effects) {} b s \<longrightarrow> l \<in> runLocks effects pre s}"
    unfolding held_on_every_run_def held_before_split [OF assms(1-3)] by blast
  then show "held_on_every_run f effects (in_address i) = runLocks effects pre (held_on_all_paths f (blockLocks f effects) {} b)"
    unfolding held_on_all_paths_def runLocks_Inter [OF some] .
  show "\<exists>s. held_before f effects (in_address i) s" using some unfolding held_before_split [OF assms(1-3)] by blast
qed

lemma held_before_block:
  "held_before f effects a s \<Longrightarrow> wf_function f \<Longrightarrow> \<exists>b \<in> set (reachableBlocks f). a \<in> in_address ` set (bb_instructions (block f b))"
  unfolding held_before_def
  by (fastforce simp: reachableBlocks_def wf_reachable(5) dest: held_on_path_cfg)

section \<open>A diamond\<close>

text \<open>
  One lock is taken before a branch, a second on one side of it only; after the join only the first is held
  whatever path was taken.
\<close>

definition lock_call :: "nat \<Rightarrow> nat \<Rightarrow> nat Instruction" where
  "lock_call a v =
     \<lparr>in_address = a,
      in_call = Some \<lparr>ca_kind = CK_StdMutexLock, ca_directCallee = None, ca_calledFunction = None, ca_args = [v],
        ca_targetsRecursiveLock = False, ca_adoptsHeldLocks = False\<rparr>,
      in_loweredLocation = no_location, in_userLocation = no_location\<rparr>"

definition plain_access :: "nat \<Rightarrow> nat Instruction" where
  "plain_access a = \<lparr>in_address = a, in_call = None, in_loweredLocation = no_location, in_userLocation = no_location\<rparr>"

definition plain_block :: "nat Instruction list \<Rightarrow> nat list \<Rightarrow> nat Block" where
  "plain_block is preds = \<lparr>bb_instructions = is, bb_predecessors = preds, bb_isReachable = True, bb_inLoop = False, bb_returns = False\<rparr>"

definition diamond :: "nat Function" where
  "diamond = \<lparr>fn_id = ''f'', fn_isDeclaration = False, fn_args = [],
     fn_blocks = [plain_block [lock_call 0 0] [], plain_block [lock_call 1 1] [0], plain_block [] [0], plain_block [plain_access 2] [1, 2]]\<rparr>"

definition two_locks :: "nat LockScopeTracker" where
  "two_locks =
     \<lparr>lt_naming = \<lparr>ln_canonicalLockId = (\<lambda>v. Some (if v = 0 then ''a'' else ''b'')), ln_canonicalStorageGroupId = (\<lambda>_. None),
        ln_localObjectLockId = (\<lambda>_ _. None), ln_objectFieldLockId = (\<lambda>_ _ _. None), ln_parameterFieldLockId = (\<lambda>_. None),
        ln_parameterLockId = (\<lambda>_. None), ln_designatesRecursiveLockType = (\<lambda>_. False), ln_isPointer = (\<lambda>_. True)\<rparr>,
      lt_summaries = None, lt_sharedObjects = None\<rparr>"

definition diamond_effects :: FunctionLockEffects where
  "diamond_effects = \<lparr>fe_guardBindings = Map.empty,
     fe_effectsByInstruction = [(0, [new_effect\<lparr>le_lockIds := [''a'']\<rparr>]), (1, [new_effect\<lparr>le_lockIds := [''b'']\<rparr>])]\<rparr>"

lemma diamond_path: "cfg_path diamond b" if "b < 4"
proof -
  have 0: "cfg_path diamond 0" by (rule cfg_path.entry)
  have "cfg_path diamond 1" "cfg_path diamond 2"
    by (rule cfg_path.step [OF 0]; simp add: diamond_def plain_block_def numeral_2_eq_2)+
  moreover from this(1) have "cfg_path diamond 3" by (rule cfg_path.step) (simp_all add: diamond_def plain_block_def numeral_3_eq_3)
  moreover have "b = 0 \<or> b = 1 \<or> b = 2 \<or> b = 3" using that by linarith
  ultimately show ?thesis using 0 by auto
qed

lemma diamond_wf: "wf_function diamond"
proof -
  have "b = 0 \<or> b = 1 \<or> b = 2 \<or> b = 3" if "b < 4" for b :: nat using that by linarith
  then have "set (bb_predecessors (block diamond b)) \<subseteq> {..<4}" "bb_isReachable (block diamond b)" if "b < 4" for b
    using that by (fastforce simp: diamond_def plain_block_def)+
  moreover have "length (fn_blocks diamond) = 4" "fn_blocks diamond \<noteq> []" "bb_predecessors (block diamond 0) = []"
    "distinct (map in_address (fn_instructions diamond))"
    by (simp_all add: diamond_def plain_block_def lock_call_def plain_access_def fn_instructions_def)
  ultimately show ?thesis using diamond_path unfolding wf_function_def by simp
qed

lemma diamond_collected: "collectFunctionLockEffects diamond (scopeResolver two_locks diamond) = diamond_effects"
  by (simp add: collectFunctionLockEffects_def diamond_effects_def fn_instructions_def diamond_def plain_block_def lock_call_def
    plain_access_def addInstruction_def resolve_def lockIdOf_def orElse_def scopeResolver_def two_locks_def bindGuard_def new_effect_def)

lemma diamond_runs:
  "blockLocks diamond diamond_effects 0 s = insert ''a'' s" "blockLocks diamond diamond_effects (Suc 0) s = insert ''b'' s"
  "blockLocks diamond diamond_effects 2 s = s"
  by (simp_all add: runLocks_def changeLocks_def lockStateChangeFor_def diamond_def diamond_effects_def plain_block_def lock_call_def
    applyEffect_def new_effect_def no_change_def)

lemma diamond_held:
  "held_on_path diamond (blockLocks diamond diamond_effects) {} b s \<longleftrightarrow>
     b = 0 \<and> s = {} \<or> (b = 1 \<or> b = 2) \<and> s = {''a''} \<or> b = 3 \<and> (s = {''a'', ''b''} \<or> s = {''a''})"
  (is "?held b s \<longleftrightarrow> ?R b s")
proof
  show "?R b s" if "?held b s"
    using that
  proof (induction rule: held_on_path.induct)
    case (step p s b)
    have "b = 0 \<or> b = 1 \<or> b = 2 \<or> b = 3" using step.hyps(2) by (auto simp: diamond_def)
    then have "b = 1 \<and> p = 0 \<or> b = 2 \<and> p = 0 \<or> b = 3 \<and> (p = 1 \<or> p = 2)"
      using step.hyps(3) by (auto simp: diamond_def plain_block_def)
    then show ?case using step.IH by (auto simp: diamond_runs)
  qed simp
  have "?held 0 {}" by (rule held_on_path.entry)
  have edge: "b < length (fn_blocks diamond) \<and> p \<in> set (bb_predecessors (block diamond b))"
    if "(p, b) \<in> {(0, 1), (0, 2), (1, 3), (2, 3)}" for p b
    using that by (auto simp: diamond_def plain_block_def)
  have one: "?held 1 {''a''}" "?held 2 {''a''}"
    using held_on_path.step [OF \<open>?held 0 {}\<close>] edge [of 0 1] edge [of 0 2] by (simp_all only: diamond_runs(1)) simp_all
  have "?held 3 {''a'', ''b''}" "?held 3 {''a''}"
    using held_on_path.step [OF one(1)] held_on_path.step [OF one(2)] edge [of 1 3] edge [of 2 3]
    by (simp_all add: diamond_runs insert_commute)
  then show "?held b s" if "?R b s" using that one \<open>?held 0 {}\<close> by blast
qed

lemma diamond_exact:
  "held_on_every_run diamond diamond_effects 2 = {''a''}" "\<exists>s. held_before diamond diamond_effects 2 s"
proof -
  have *: "3 < length (fn_blocks diamond)" "bb_instructions (block diamond 3) = [] @ plain_access 2 # []" "cfg_path diamond 3"
    using diamond_path [of 3] by (simp_all add: diamond_def plain_block_def)
  note held = held_on_every_run_split [OF diamond_wf *, of diamond_effects]
  have "held_on_all_paths diamond (blockLocks diamond diamond_effects) {} 3 = {''a''}"
    unfolding held_on_all_paths_def diamond_held by auto
  then show "held_on_every_run diamond diamond_effects 2 = {''a''}" "\<exists>s. held_before diamond diamond_effects 2 s"
    using held by (simp_all add: plain_access_def runLocks_def)
qed

section \<open>The locks reported are those of every run\<close>

lemma held_locks_noted:
  assumes "wf_function f"
  shows "\<exists>held. collectHeldLocks tracker f tracked = Some held \<and>
    (let effects = collectFunctionLockEffects f (scopeResolver tracker f)
     in \<forall>a. held a = (if a \<in> tracked \<and> (\<exists>s. held_before f effects a s) then Some (held_on_every_run f effects a) else None))"
proof (cases "tracked = {}")
  case True
  then show ?thesis by (simp add: collectHeldLocks_def)
next
  case False
  define effects where "effects = collectFunctionLockEffects f (scopeResolver tracker f)"
  define locks where "locks = held_on_all_paths f (blockLocks f effects) {}"
  let ?P = "\<lambda>r :: held_by_access. \<forall>a. (\<forall>b \<in> set (reachableBlocks f). a \<notin> in_address ` set (bb_instructions (block f b))) \<or> a \<notin> tracked \<longrightarrow> r a = None"
  have keep: "?P (snd (trackBlock f effects tracked b s r))" if "?P r" "b \<in> set (reachableBlocks f)" for b s r
    using that by (simp add: trackBlock_def noted_outside)
  obtain st r where st: "flowLoop f (trackBlock f effects tracked) (initialFlow f {} Map.empty) = Some st" and r: "?P r"
    and rec: "fl_recorded st = fold (\<lambda>b r. snd (trackBlock f effects tracked b (locks b) r)) (reachableBlocks f) r"
    using scope.flow_exact [where P = ?P and nothing = Map.empty and E = "{}", OF assms _ _ keep]
    unfolding through_block locks_def by (simp del: image_iff) blast
  have bs: "distinct (reachableBlocks f)" "set (reachableBlocks f) \<subseteq> {..< length (fn_blocks f)}"
    by (auto simp: reachableBlocks_def)
  have "fl_recorded st a = (if a \<in> tracked \<and> (\<exists>s. held_before f effects a s) then Some (held_on_every_run f effects a) else None)" for a
  proof (cases "a \<in> tracked \<and> (\<exists>b \<in> set (reachableBlocks f). a \<in> in_address ` set (bb_instructions (block f b)))")
    case True
    then obtain b pre i post where b: "b \<in> set (reachableBlocks f)" "bb_instructions (block f b) = pre @ i # post"
      "in_address i = a" "a \<in> tracked" by (metis imageE split_list)
    have "b < length (fn_blocks f)" "cfg_path f b" using b(1) wf_reachable(5) [OF assms] by (auto simp: reachableBlocks_def)
    note held = held_on_every_run_split [OF assms this(1) b(2) this(2), of effects]
    have "fl_recorded st a = Some (runLocks effects pre (locks b))"
      unfolding rec b(3) [symmetric] using noted_blocks(2) [OF assms bs b(1,2)] b(3,4) by simp
    then show ?thesis using held b(3,4) unfolding locks_def by auto
  next
    case False
    then have "fl_recorded st a = r a" unfolding rec by (intro noted_blocks(1) [OF assms bs]) blast
    moreover have "r a = None" using r False by blast
    moreover have "\<not> (a \<in> tracked \<and> (\<exists>s. held_before f effects a s))" using False held_before_block [OF _ assms] by blast
    ultimately show ?thesis by simp
  qed
  then show ?thesis using st False unfolding collectHeldLocks_def effects_def by (simp add: Let_def)
qed

lemma held_on_path_finite: "held_on_path f (blockLocks f effects) {} b s \<Longrightarrow> finite s"
  by (induction rule: held_on_path.induct) simp_all

lemma held_locks_finite:
  assumes "wf_function f" "collectHeldLocks tracker f tracked = Some held" "held a = Some locks"
  shows "finite locks"
proof -
  define effects where "effects = collectFunctionLockEffects f (scopeResolver tracker f)"
  have held: "held a = (if a \<in> tracked \<and> (\<exists>s. held_before f effects a s) then Some (held_on_every_run f effects a) else None)" for a
    using held_locks_noted [OF assms(1), of tracker tracked] assms(2) unfolding effects_def Let_def by auto
  then obtain s where s: "held_before f effects a s" and locks: "locks = held_on_every_run f effects a"
    using assms(3) by (auto split: if_splits)
  have "finite s" using s unfolding held_before_def by (auto intro!: finite_runLocks dest: held_on_path_finite)
  moreover have "locks \<subseteq> s" unfolding locks held_on_every_run_def using s by blast
  ultimately show ?thesis by (rule rev_finite_subset)
qed

text \<open>
  C2: For a well-formed function, whatever accesses are tracked, the tracker returns. It notes a set of locks for a
  tracked instruction exactly when some run of the function reaches it, and that set is exactly the
  locks held there on every run: nothing is missed at loops and joins and nothing is claimed that one of the paths
  does not hold.
\<close>

theorem held_locks_exact:
  assumes "wf_function f"
  shows "\<exists>held. collectHeldLocks tracker f tracked = Some held \<and>
    (let effects = collectFunctionLockEffects f (scopeResolver tracker f)
     in \<forall>a. held a = (if a \<in> tracked \<and> (\<exists>s. held_before f effects a s) then Some (held_on_every_run f effects a) else None))"
  using assms by (rule held_locks_noted)

theorem held_locks_exact_witness:
  "\<exists>held. collectHeldLocks two_locks diamond {2} = Some held \<and> held 2 = Some {''a''} \<and> held 0 = None"
proof -
  obtain held where "collectHeldLocks two_locks diamond {2} = Some held"
    "\<forall>a. held a = (if a \<in> {2} \<and> (\<exists>s. held_before diamond diamond_effects a s) then Some (held_on_every_run diamond diamond_effects a) else None)"
    using held_locks_exact [OF diamond_wf, of two_locks "{2}"] unfolding diamond_collected Let_def by blast
  then show ?thesis using diamond_exact by (intro exI [of _ held]) simp
qed

end
