(* ===== verification/Call_Graph.thy ===== *)
theory Call_Graph
  imports Program_IR
begin

text \<open>
  The direct calls of a module, \<open>collectDirectCallSites\<close> of \<open>analysis/interprocedural_bindings.cpp\<close>, and the threads
  that run a function, \<open>analysis/thread_context_propagator.cpp\<close>.
\<close>

section \<open>Call sites\<close>

type_synonym 'v Module = "'v Function list"

record DirectCallSite =
  dc_call :: "nat option"
  dc_callerFunctionId :: string
  dc_calleeFunctionId :: string
  dc_loweredLocation :: SourceLocation
  dc_userLocation :: SourceLocation
  dc_insideLoop :: bool

definition directCallSite :: "'v Function \<Rightarrow> 'v Block \<Rightarrow> 'v Instruction \<Rightarrow> DirectCallSite list" where
  "directCallSite f b instruction =
     (case in_call instruction of
        None \<Rightarrow> []
      | Some call \<Rightarrow>
          (case ca_directCallee call of
             None \<Rightarrow> []
           | Some callee \<Rightarrow>
               if fr_isDeclaration callee then []
               else [\<lparr>dc_call = Some (in_address instruction), dc_callerFunctionId = fn_id f, dc_calleeFunctionId = fr_id callee,
                      dc_loweredLocation = in_loweredLocation instruction, dc_userLocation = in_userLocation instruction,
                      dc_insideLoop = bb_inLoop b\<rparr>]))"

definition callSitesOf :: "'v Function \<Rightarrow> DirectCallSite list" where
  "callSitesOf f =
     concat (map (\<lambda>b. if \<not> bb_isReachable b then [] else concat (map (directCallSite f b) (bb_instructions b))) (fn_blocks f))"

definition collectDirectCallSites :: "'v Module \<Rightarrow> DirectCallSite list" where
  "collectDirectCallSites module = concat (map (\<lambda>f. if fn_isDeclaration f then [] else callSitesOf f) module)"

text \<open>The callees of each caller, as the maps of the code hold them: in the order of the calls, repeats included.\<close>

type_synonym callees = "(string \<times> string list) list"

definition addCallee :: "string \<Rightarrow> string \<Rightarrow> callees \<Rightarrow> callees" where
  "addCallee caller callee m = umap_update caller (push callee) m"

definition calleesByCaller :: "DirectCallSite list \<Rightarrow> callees" where
  "calleesByCaller sites = fold (\<lambda>site. addCallee (dc_callerFunctionId site) (dc_calleeFunctionId site)) sites []"

definition calleesOf :: "callees \<Rightarrow> string \<Rightarrow> string list" where
  "calleesOf m f = (case map_of m f of None \<Rightarrow> [] | Some callees \<Rightarrow> callees)"

lemma calleesOf_addCallee [simp]:
  "calleesOf (addCallee caller callee m) f = (if f = caller then calleesOf m f @ [callee] else calleesOf m f)"
  by (simp add: calleesOf_def addCallee_def umap_lookup_update push_def split: option.splits)

lemma calleesOf_Nil [simp]: "calleesOf [] f = []"
  by (simp add: calleesOf_def)

lemma calleesOf_fold:
  "calleesOf (fold (\<lambda>x. addCallee (caller x) (callee x)) xs m) f = calleesOf m f @ map callee (filter (\<lambda>x. caller x = f) xs)"
  by (induction xs arbitrary: m) auto

lemma calleesOf_calleesByCaller:
  "calleesOf (calleesByCaller sites) f = map dc_calleeFunctionId (filter (\<lambda>site. dc_callerFunctionId site = f) sites)"
  by (simp add: calleesByCaller_def calleesOf_fold)

definition allCallees :: "callees \<Rightarrow> string set" where
  "allCallees m = \<Union> (set ` snd ` set m)"

lemma finite_allCallees [simp]: "finite (allCallees m)"
  by (auto simp: allCallees_def)

lemma calleesOf_allCallees: "set (calleesOf m f) \<subseteq> allCallees m"
proof (cases "map_of m f")
  case (Some cs)
  then have "cs \<in> snd ` set m" by (force dest: map_of_SomeD)
  then show ?thesis using Some by (auto simp: calleesOf_def allCallees_def)
qed (simp add: calleesOf_def)

definition calls :: "callees \<Rightarrow> string \<Rightarrow> string \<Rightarrow> bool" where
  "calls m f g \<longleftrightarrow> g \<in> set (calleesOf m f)"

section \<open>The threads that run a function\<close>

text \<open>
  \<open>functionOf\<close> is \<open>resolveFunctionValue\<close> of \<open>ir_utils.cpp\<close>. Registering the destructor of a thread-local object counts as a call.
\<close>

definition registeredDestructor :: "('v \<Rightarrow> FunctionRef option) \<Rightarrow> 'v Instruction \<Rightarrow> string option" where
  "registeredDestructor functionOf instruction =
     (case in_call instruction of
        None \<Rightarrow> None
      | Some call \<Rightarrow>
          if ca_args call = [] \<or> ca_kind call \<noteq> CK_ThreadExitDestructorRegistration then None
          else
            (case functionOf (ca_args call ! 0) of
               None \<Rightarrow> None
             | Some destructor \<Rightarrow> if fr_isDeclaration destructor then None else Some (fr_id destructor)))"

definition addDestructor :: "('v \<Rightarrow> FunctionRef option) \<Rightarrow> 'v Function \<Rightarrow> 'v Instruction \<Rightarrow> callees \<Rightarrow> callees" where
  "addDestructor functionOf f instruction m =
     (case registeredDestructor functionOf instruction of None \<Rightarrow> m | Some destructor \<Rightarrow> addCallee (fn_id f) destructor m)"

definition calleesByFunction :: "('v \<Rightarrow> FunctionRef option) \<Rightarrow> 'v Module \<Rightarrow> DirectCallSite list \<Rightarrow> callees" where
  "calleesByFunction functionOf module directCallSites =
     fold (\<lambda>f. fold (addDestructor functionOf f) (fn_instructions f)) module (calleesByCaller directCallSites)"

definition enqueue :: "string \<Rightarrow> string set \<times> string list \<Rightarrow> string set \<times> string list" where
  "enqueue callee st = (let (visited, queue) = st in if callee \<in> visited then st else (insert callee visited, queue @ [callee]))"

type_synonym entries_by_function = "(string \<times> string set) list"

definition addEntry :: "string \<Rightarrow> string set option \<Rightarrow> string set" where
  "addEntry entry entries = insert entry (case entries of None \<Rightarrow> {} | Some entries \<Rightarrow> entries)"

lemma enqueue_set:
  "set (snd (fold enqueue cs (visited, queue))) = set queue \<union> (set cs - visited)"
  "fst (fold enqueue cs (visited, queue)) = visited \<union> set cs"
  by (induction cs arbitrary: visited queue) (auto simp: enqueue_def)

lemma enqueue_measure:
  assumes "finite U" "set cs \<subseteq> U"
  shows "2 * card (U - fst (fold enqueue cs (visited, queue))) + length (snd (fold enqueue cs (visited, queue))) \<le>
    2 * card (U - visited) + length queue"
  using assms(2)
proof (induction cs arbitrary: visited queue)
  case (Cons c cs)
  show ?case
  proof (cases "c \<in> visited")
    case True
    then show ?thesis using Cons by (simp add: enqueue_def)
  next
    case False
    have "c \<in> U - visited" "U - insert c visited = (U - visited) - {c}" using False Cons.prems by auto
    then have "card (U - visited) = card (U - insert c visited) + 1" using assms(1) card_Suc_Diff1 [of "U - visited" c] by simp
    moreover have "fold enqueue (c # cs) (visited, queue) = fold enqueue cs (insert c visited, queue @ [c])"
      using False by (simp add: enqueue_def)
    ultimately show ?thesis using Cons.IH [of "insert c visited" "queue @ [c]"] Cons.prems by simp
  qed
qed simp

function visitQueue :: "callees \<Rightarrow> string \<Rightarrow> string list \<Rightarrow> string set \<Rightarrow> entries_by_function \<Rightarrow> entries_by_function" where
  "visitQueue m entry [] visited reachable = reachable"
| "visitQueue m entry (f # queue) visited reachable =
     (let (visited', queue') = fold enqueue (calleesOf m f) (visited, queue)
      in visitQueue m entry queue' visited' (umap_update f (addEntry entry) reachable))"
  by pat_completeness auto

termination
proof (relation "measure (\<lambda>(m, _, queue, visited, _). 2 * card (allCallees m - visited) + length queue)", simp, clarify)
  fix m f queue visited x visited' queue'
  assume "(visited', queue') = fold enqueue (calleesOf m f) (visited, queue)"
  then show "((m, entry, queue', visited', umap_update f (addEntry entry) reachable), (m, entry, f # queue, visited, reachable))
      \<in> measure (\<lambda>(m, _, queue, visited, _). 2 * card (allCallees m - visited) + length queue)" for entry reachable
    using enqueue_measure [OF finite_allCallees calleesOf_allCallees, of m f visited queue]
    by (metis (no_types, lifting) case_prod_conv fst_conv in_measure le_imp_less_Suc length_Cons add_Suc_right snd_conv)
qed

definition collectThreadContexts ::
  "('v \<Rightarrow> FunctionRef option) \<Rightarrow> 'v Module \<Rightarrow> DirectCallSite list \<Rightarrow> (string \<times> EntryConcurrencyInfo) list \<Rightarrow> entries_by_function" where
  "collectThreadContexts functionOf module directCallSites entryConcurrency =
     (let m = calleesByFunction functionOf module directCallSites
      in fold (\<lambda>(entry, concurrency). visitQueue m entry [entry] {entry}) entryConcurrency [])"

abbreviation entriesOf :: "entries_by_function \<Rightarrow> string \<Rightarrow> string set" where
  "entriesOf reachable f \<equiv> (case map_of reachable f of None \<Rightarrow> {} | Some entries \<Rightarrow> entries)"

abbreviation runs_from :: "callees \<Rightarrow> string set \<Rightarrow> string \<Rightarrow> bool" where
  "runs_from m start f \<equiv> \<exists>v \<in> start. (calls m)\<^sup>*\<^sup>* v f"

lemma runs_from_step:
  assumes "f0 \<in> start"
  shows "runs_from m (start \<union> set (calleesOf m f0)) f \<longleftrightarrow> runs_from m start f"
proof
  assume "runs_from m (start \<union> set (calleesOf m f0)) f"
  then obtain v where v: "v \<in> start \<union> set (calleesOf m f0)" "(calls m)\<^sup>*\<^sup>* v f" by blast
  show "runs_from m start f"
  proof (cases "v \<in> start")
    case False
    then have "calls m f0 v" using v(1) by (simp add: calls_def)
    then have "(calls m)\<^sup>*\<^sup>* f0 f" using v(2) by (rule converse_rtranclp_into_rtranclp)
    then show ?thesis using assms by blast
  qed (use v in blast)
qed blast

lemma runs_from_closed:
  assumes "\<forall>x \<in> start. set (calleesOf m x) \<subseteq> start"
  shows "runs_from m start f \<longleftrightarrow> f \<in> start"
proof -
  have "x \<in> start" if "(calls m)\<^sup>*\<^sup>* v x" "v \<in> start" for v x
    using that by (induction rule: rtranclp_induct) (use assms in \<open>auto simp: calls_def\<close>)
  then show ?thesis by blast
qed

lemma visitQueue_spec:
  assumes "set queue \<subseteq> visited"
    and "\<forall>x \<in> visited - set queue. set (calleesOf m x) \<subseteq> visited \<and> entry \<in> entriesOf reachable x"
  shows "map_of (visitQueue m entry queue visited reachable) f =
    (if runs_from m visited f then Some (insert entry (entriesOf reachable f)) else map_of reachable f)"
  using assms
proof (induction m entry queue visited reachable rule: visitQueue.induct)
  case (1 m entry visited reachable)
  have "runs_from m visited f \<longleftrightarrow> f \<in> visited" using 1 by (intro runs_from_closed) simp
  then show ?case using 1 by (auto simp: insert_absorb split: option.splits)
next
  case (2 m entry g queue visited reachable)
  define visited' queue' where "visited' = visited \<union> set (calleesOf m g)"
    and "queue' = snd (fold enqueue (calleesOf m g) (visited, queue))"
  have fold: "fold enqueue (calleesOf m g) (visited, queue) = (visited', queue')"
    by (simp add: prod_eq_iff enqueue_set visited'_def queue'_def)
  have queue': "set queue' = set queue \<union> (set (calleesOf m g) - visited)" by (simp add: queue'_def enqueue_set)
  let ?reachable = "umap_update g (addEntry entry) reachable"
  have look: "map_of ?reachable x = (if x = g then Some (insert entry (entriesOf reachable g)) else map_of reachable x)" for x
    by (simp add: umap_lookup_update addEntry_def)
  have g: "g \<in> visited" using 2(2) by simp
  have "map_of (visitQueue m entry queue' visited' ?reachable) f =
      (if runs_from m visited' f then Some (insert entry (entriesOf ?reachable f)) else map_of ?reachable f)"
  proof (rule 2(1) [OF fold [symmetric] refl])
    show "set queue' \<subseteq> visited'" using 2(2) by (auto simp: queue' visited'_def)
    have "set (calleesOf m x) \<subseteq> visited' \<and> entry \<in> entriesOf ?reachable x" if "x \<in> visited' - set queue'" for x
    proof (cases "x = g")
      case True
      then show ?thesis by (simp add: visited'_def look)
    next
      case False
      then have "x \<in> visited - set (g # queue)" using that by (auto simp: queue' visited'_def)
      then show ?thesis using 2(3) False by (auto simp: visited'_def look)
    qed
    then show "\<forall>x \<in> visited' - set queue'. set (calleesOf m x) \<subseteq> visited' \<and> entry \<in> entriesOf ?reachable x" by blast
  qed
  moreover have "runs_from m visited' f \<longleftrightarrow> runs_from m visited f"
    unfolding visited'_def by (rule runs_from_step [OF g])
  moreover have "runs_from m visited g" using g by blast
  ultimately show ?case by (auto simp: fold look)
qed

lemma calleesOf_addDestructor:
  "set (calleesOf (fold (addDestructor functionOf f) is m) g) =
     set (calleesOf m g) \<union> {d. g = fn_id f \<and> (\<exists>i \<in> set is. registeredDestructor functionOf i = Some d)}"
  by (induction "is" arbitrary: m) (auto simp: addDestructor_def split: option.splits)

lemma calls_calleesByFunction:
  "calls (calleesByFunction functionOf module sites) g d \<longleftrightarrow>
     (\<exists>site \<in> set sites. dc_callerFunctionId site = g \<and> dc_calleeFunctionId site = d) \<or>
     (\<exists>f \<in> set module. fn_id f = g \<and> (\<exists>i \<in> set (fn_instructions f). registeredDestructor functionOf i = Some d))"
proof -
  have "set (calleesOf (fold (\<lambda>f. fold (addDestructor functionOf f) (fn_instructions f)) fs m) g) =
    set (calleesOf m g) \<union> {d. \<exists>f \<in> set fs. g = fn_id f \<and> (\<exists>i \<in> set (fn_instructions f). registeredDestructor functionOf i = Some d)}" for fs m
    by (induction fs arbitrary: m) (auto simp: calleesOf_addDestructor)
  then show ?thesis by (auto simp: calls_def calleesByFunction_def calleesOf_calleesByCaller)
qed

text \<open>
  What one function makes run in its own thread, read off the call sites and the instructions: the
  callee of one of its call sites, or a defined function it hands to the runtime as the destructor to
  run when the thread ends.
\<close>

definition registers_at_exit :: "('v \<Rightarrow> FunctionRef option) \<Rightarrow> 'v Function \<Rightarrow> string \<Rightarrow> bool" where
  "registers_at_exit functionOf f d \<longleftrightarrow>
     (\<exists>instruction \<in> set (fn_instructions f). \<exists>call object rest destructor.
        in_call instruction = Some call \<and> ca_kind call = CK_ThreadExitDestructorRegistration \<and>
        ca_args call = object # rest \<and> functionOf object = Some destructor \<and>
        \<not> fr_isDeclaration destructor \<and> fr_id destructor = d)"

definition runs_in_thread_of ::
  "('v \<Rightarrow> FunctionRef option) \<Rightarrow> 'v Module \<Rightarrow> DirectCallSite list \<Rightarrow> string \<Rightarrow> string \<Rightarrow> bool" where
  "runs_in_thread_of functionOf module sites g d \<longleftrightarrow>
     (\<exists>site \<in> set sites. dc_callerFunctionId site = g \<and> dc_calleeFunctionId site = d) \<or>
     (\<exists>f \<in> set module. fn_id f = g \<and> registers_at_exit functionOf f d)"

lemma registers_at_exit_iff:
  "registers_at_exit functionOf f d \<longleftrightarrow> (\<exists>i \<in> set (fn_instructions f). registeredDestructor functionOf i = Some d)"
proof -
  have "registeredDestructor functionOf i = Some d \<longleftrightarrow>
    (\<exists>call object rest destructor. in_call i = Some call \<and> ca_kind call = CK_ThreadExitDestructorRegistration \<and>
        ca_args call = object # rest \<and> functionOf object = Some destructor \<and>
        \<not> fr_isDeclaration destructor \<and> fr_id destructor = d)" for i
    by (cases "in_call i"; cases "ca_args (the (in_call i))")
      (auto simp: registeredDestructor_def split: option.splits)
  then show ?thesis by (simp add: registers_at_exit_def)
qed

lemma calls_runs_in_thread_of:
  "calls (calleesByFunction functionOf module sites) = runs_in_thread_of functionOf module sites"
  by (intro ext) (simp add: calls_calleesByFunction runs_in_thread_of_def registers_at_exit_iff)

text \<open>
  C24: The contexts collected for a function are exactly the thread entries from which a chain leads to it whose
  links are the call sites given and the registrations, anywhere in the module, of a defined function as the
  destructor to run when the thread ends; each entry runs itself, and a function no entry reaches is not in the map.
\<close>

theorem thread_contexts_exact:
  "map_of (collectThreadContexts functionOf module sites entries) f =
     (let reaching = {e \<in> fst ` set entries. (runs_in_thread_of functionOf module sites)\<^sup>*\<^sup>* e f}
      in if reaching = {} then None else Some reaching)"
proof -
  define m where "m = calleesByFunction functionOf module sites"
  have step: "map_of (fold (\<lambda>(entry, concurrency). visitQueue m entry [entry] {entry}) es r) f =
    (let reaching = {e \<in> fst ` set es. (calls m)\<^sup>*\<^sup>* e f} in if reaching = {} then map_of r f else Some (reaching \<union> entriesOf r f))" for es r
  proof (induction es arbitrary: r)
    case (Cons e es)
    obtain entry concurrency where e: "e = (entry, concurrency)" by (cases e)
    let ?r = "visitQueue m entry [entry] {entry} r"
    have "map_of ?r f = (if (calls m)\<^sup>*\<^sup>* entry f then Some (insert entry (entriesOf r f)) else map_of r f)"
      by (subst visitQueue_spec) simp_all
    then show ?case using Cons.IH [of ?r] by (auto simp: e Let_def)
  qed simp
  show ?thesis
    unfolding collectThreadContexts_def Let_def m_def [symmetric] step
    by (simp add: Let_def m_def calls_runs_in_thread_of)
qed

end
