(* ===== verification/Call_Cycles.thy ===== *)
theory Call_Cycles
  imports Call_Graph
begin

text \<open>
  The calls that close a cycle of direct calls, \<open>callsClosingCycles\<close> of \<open>analysis/interprocedural_bindings.cpp\<close>: Tarjan's
  search for strongly connected components with an explicit stack of visits. The vectors \<open>stack\<close> and \<open>visits\<close> are lists whose
  first element is the back of the vector. The map of callees is walked in the order of its list.
\<close>

section \<open>The search\<close>

record Components =
  cp_order :: "string \<rightharpoonup> nat"
  cp_lowest :: "string \<rightharpoonup> nat"
  cp_componentOf :: "string \<rightharpoonup> nat"
  cp_onStack :: "string set"
  cp_stack :: "string list"
  cp_nextOrder :: nat
  cp_nextComponent :: nat

text \<open>Reading a map of the code with \<open>[]\<close> gives zero for a key that is missing.\<close>

definition at0 :: "(string \<rightharpoonup> nat) \<Rightarrow> string \<Rightarrow> nat" where
  "at0 m k = (case m k of None \<Rightarrow> 0 | Some n \<Rightarrow> n)"

type_synonym visits = "(string \<times> nat) list"

definition enterFunction :: "string \<Rightarrow> visits \<times> Components \<Rightarrow> visits \<times> Components" where
  "enterFunction f vs =
     (let (visits, st) = vs
      in ((f, 0) # visits,
          st\<lparr>cp_order := (cp_order st)(f \<mapsto> cp_nextOrder st), cp_lowest := (cp_lowest st)(f \<mapsto> cp_nextOrder st),
             cp_nextOrder := cp_nextOrder st + 1, cp_stack := f # cp_stack st, cp_onStack := insert f (cp_onStack st)\<rparr>))"

definition lowerTo :: "string \<Rightarrow> nat \<Rightarrow> Components \<Rightarrow> Components" where
  "lowerTo f n st = st\<lparr>cp_lowest := (cp_lowest st)(f \<mapsto> min (at0 (cp_lowest st) f) n)\<rparr>"

text \<open>The stack always holds the function whose component is taken off; on an empty stack the code would be undefined.\<close>

fun popComponent :: "string \<Rightarrow> string list \<Rightarrow> Components \<Rightarrow> Components" where
  "popComponent f [] st = st"
| "popComponent f (member # stack) st =
     (let st = st\<lparr>cp_stack := stack, cp_onStack := cp_onStack st - {member},
            cp_componentOf := (cp_componentOf st)(member \<mapsto> cp_nextComponent st)\<rparr>
      in if member \<noteq> f then popComponent f stack st else st)"

definition leaveFunction :: "string \<Rightarrow> visits \<Rightarrow> Components \<Rightarrow> Components" where
  "leaveFunction f visits st =
     (let st = (case visits of [] \<Rightarrow> st | (caller, next) # _ \<Rightarrow> lowerTo caller (at0 (cp_lowest st) f) st)
      in if at0 (cp_lowest st) f \<noteq> at0 (cp_order st) f then st
         else (let st = popComponent f (cp_stack st) st in st\<lparr>cp_nextComponent := cp_nextComponent st + 1\<rparr>))"

definition exploreCall :: "string \<Rightarrow> string \<Rightarrow> visits \<times> Components \<Rightarrow> visits \<times> Components" where
  "exploreCall f callee vs =
     (let (visits, st) = vs
      in if cp_order st callee = None then enterFunction callee (visits, st)
         else if callee \<in> cp_onStack st then (visits, lowerTo f (at0 (cp_order st) callee) st)
         else (visits, st))"

fun visitStep :: "callees \<Rightarrow> visits \<times> Components \<Rightarrow> visits \<times> Components" where
  "visitStep m ([], st) = ([], st)"
| "visitStep m ((f, next) # visits, st) =
     (if next < length (calleesOf m f)
      then exploreCall f (calleesOf m f ! next) ((f, next + 1) # visits, st)
      else (visits, leaveFunction f visits st))"

lemma leave_order [simp]: "cp_order (leaveFunction f visits st) = cp_order st"
proof -
  have "cp_order (popComponent f stack st) = cp_order st" for stack st
    by (induction f stack st rule: popComponent.induct) (simp_all add: Let_def)
  then show ?thesis by (simp add: leaveFunction_def lowerTo_def Let_def split: list.splits prod.splits)
qed

definition visit_measure :: "callees \<Rightarrow> visits \<times> Components \<Rightarrow> nat" where
  "visit_measure m vs =
     (\<Sum>v \<in> allCallees m - dom (cp_order (snd vs)). length (calleesOf m v) + 2) +
     sum_list (map (\<lambda>(f, next). length (calleesOf m f) - next + 1) (fst vs))"

lemma visit_measure_decreases:
  assumes "visits \<noteq> []"
  shows "visit_measure m (visitStep m (visits, st)) < visit_measure m (visits, st)"
proof -
  obtain f "next" rest where v: "visits = (f, next) # rest" using assms by (cases visits) auto
  show ?thesis
  proof (cases "next < length (calleesOf m f)")
    case False
    then show ?thesis by (simp add: v visit_measure_def)
  next
    case True
    define callee where "callee = calleesOf m f ! next"
    show ?thesis
    proof (cases "cp_order st callee")
      case None
      have "callee \<in> allCallees m" using calleesOf_allCallees [of m f] nth_mem [OF True] by (auto simp: callee_def)
      then have "(\<Sum>v \<in> allCallees m - dom (cp_order st). length (calleesOf m v) + 2) =
          length (calleesOf m callee) + 2 + (\<Sum>v \<in> allCallees m - dom (cp_order st) - {callee}. length (calleesOf m v) + 2)"
        using None by (intro sum.remove) auto
      moreover have "allCallees m - dom (cp_order st) - {callee} = allCallees m - dom ((cp_order st)(callee \<mapsto> cp_nextOrder st))" by auto
      ultimately show ?thesis
        using True None by (simp add: v visit_measure_def exploreCall_def enterFunction_def Let_def flip: callee_def)
    next
      case (Some n)
      then show ?thesis using True by (simp add: v visit_measure_def exploreCall_def lowerTo_def Let_def flip: callee_def)
    qed
  qed
qed

function visitAll :: "callees \<Rightarrow> visits \<Rightarrow> Components \<Rightarrow> Components" where
  "visitAll m visits st =
     (if visits = [] then st else (let (visits', st') = visitStep m (visits, st) in visitAll m visits' st'))"
  by pat_completeness auto

termination
proof (relation "measure (\<lambda>(m, visits, st). visit_measure m (visits, st))", simp, clarify)
  fix m visits st x visits' st'
  assume "visits \<noteq> []" "(visits', st') = visitStep m (visits, st)"
  then show "((m, visits', st'), m, visits, st) \<in> measure (\<lambda>(m, visits, st). visit_measure m (visits, st))"
    using visit_measure_decreases [of visits m st] by simp
qed

declare visitAll.simps [simp del]

definition visitRoot :: "callees \<Rightarrow> string \<Rightarrow> Components \<Rightarrow> Components" where
  "visitRoot m root st =
     (if cp_order st root \<noteq> None then st
      else (let (visits, st) = enterFunction root ([], st) in visitAll m visits st))"

definition noComponents :: Components where
  "noComponents = \<lparr>cp_order = Map.empty, cp_lowest = Map.empty, cp_componentOf = Map.empty, cp_onStack = {}, cp_stack = [],
     cp_nextOrder = 0, cp_nextComponent = 0\<rparr>"

definition components :: "callees \<Rightarrow> Components" where
  "components m = fold (visitRoot m) (map fst m) noComponents"

text \<open>\<open>componentOf.at\<close> throws when a function has no component; \<open>None\<close> is that exception.\<close>

definition closesCycle :: "Components \<Rightarrow> DirectCallSite \<Rightarrow> bool option" where
  "closesCycle st site =
     (case dc_call site of
        None \<Rightarrow> Some False
      | Some _ \<Rightarrow>
          (case (cp_componentOf st (dc_callerFunctionId site), cp_componentOf st (dc_calleeFunctionId site)) of
             (Some a, Some b) \<Rightarrow> Some (a = b)
           | _ \<Rightarrow> None))"

fun closingCalls :: "Components \<Rightarrow> DirectCallSite list \<Rightarrow> nat set option" where
  "closingCalls st [] = Some {}"
| "closingCalls st (site # sites) =
     (case closesCycle st site of
        None \<Rightarrow> None
      | Some closes \<Rightarrow> map_option (\<lambda>closing. if closes then set_option (dc_call site) \<union> closing else closing) (closingCalls st sites))"

definition callsClosingCycles :: "DirectCallSite list \<Rightarrow> nat set option" where
  "callsClosingCycles sites = closingCalls (components (calleesByCaller sites)) sites"

section \<open>What holds during the search\<close>

abbreviation num :: "Components \<Rightarrow> string \<Rightarrow> nat" where
  "num st \<equiv> at0 (cp_order st)"

abbreviation low :: "Components \<Rightarrow> string \<Rightarrow> nat" where
  "low st \<equiv> at0 (cp_lowest st)"

abbreviation reaches :: "callees \<Rightarrow> string \<Rightarrow> string \<Rightarrow> bool" where
  "reaches m \<equiv> (calls m)\<^sup>*\<^sup>*"

definition mutual :: "callees \<Rightarrow> string \<Rightarrow> string \<Rightarrow> bool" where
  "mutual m x y \<longleftrightarrow> reaches m x y \<and> reaches m y x"

text \<open>
  The functions under visit are those of \<open>visits\<close>; each function of the stack belongs to the last of them entered no later
  than it. Of a function under visit the first calls were explored, of another one on the stack all.
\<close>

definition owner :: "Components \<Rightarrow> string set \<Rightarrow> string \<Rightarrow> string \<Rightarrow> bool" where
  "owner st path x p \<longleftrightarrow> p \<in> path \<and> num st p \<le> num st x \<and> (\<forall>q \<in> path. num st q \<le> num st x \<longrightarrow> num st q \<le> num st p)"

definition explored :: "callees \<Rightarrow> visits \<Rightarrow> string \<Rightarrow> string set" where
  "explored m visits x = set (case map_of visits x of None \<Rightarrow> calleesOf m x | Some next \<Rightarrow> take next (calleesOf m x))"

definition numbered :: "visits \<Rightarrow> Components \<Rightarrow> bool" where
  "numbered visits st \<longleftrightarrow>
     dom (cp_order st) = set (cp_stack st) \<union> dom (cp_componentOf st) \<and> set (cp_stack st) \<inter> dom (cp_componentOf st) = {} \<and>
     cp_onStack st = set (cp_stack st) \<and>
     sorted_wrt (\<lambda>x y. num st y < num st x) (cp_stack st) \<and> (\<forall>x \<in> dom (cp_order st). num st x < cp_nextOrder st) \<and>
     sorted_wrt (\<lambda>x y. num st y < num st x) (map fst visits) \<and> fst ` set visits \<subseteq> set (cp_stack st)"

definition finished :: "callees \<Rightarrow> Components \<Rightarrow> bool" where
  "finished m st \<longleftrightarrow>
     (\<forall>x \<in> dom (cp_componentOf st). set (calleesOf m x) \<subseteq> dom (cp_componentOf st)) \<and>
     (\<forall>x \<in> dom (cp_componentOf st). \<forall>y \<in> dom (cp_componentOf st). cp_componentOf st x = cp_componentOf st y \<longleftrightarrow> mutual m x y) \<and>
     (\<forall>x c. cp_componentOf st x = Some c \<longrightarrow> c < cp_nextComponent st)"

definition onPath :: "callees \<Rightarrow> string set \<Rightarrow> Components \<Rightarrow> bool" where
  "onPath m path st \<longleftrightarrow>
     (\<forall>p \<in> path. \<forall>x \<in> set (cp_stack st). num st p \<le> num st x \<longrightarrow> reaches m p x) \<and>
     (\<forall>x \<in> set (cp_stack st). \<exists>p \<in> path. num st p \<le> num st x \<and> reaches m x p)"

definition lowSound :: "callees \<Rightarrow> Components \<Rightarrow> bool" where
  "lowSound m st \<longleftrightarrow>
     (\<forall>x \<in> set (cp_stack st). low st x \<le> num st x \<and> (\<exists>w \<in> set (cp_stack st). reaches m x w \<and> low st x = num st w))"

definition lowComplete :: "callees \<Rightarrow> visits \<Rightarrow> Components \<Rightarrow> bool" where
  "lowComplete m visits st \<longleftrightarrow>
     (\<forall>x \<in> set (cp_stack st). \<forall>y \<in> explored m visits x. y \<in> dom (cp_order st) \<and>
        (y \<in> set (cp_stack st) \<longrightarrow> (\<forall>p. owner st (fst ` set visits) x p \<longrightarrow> low st p \<le> num st y)))"

definition search_inv :: "callees \<Rightarrow> visits \<Rightarrow> Components \<Rightarrow> bool" where
  "search_inv m visits st \<longleftrightarrow> numbered visits st \<and> finished m st \<and> onPath m (fst ` set visits) st \<and> lowSound m st \<and> lowComplete m visits st"

lemma search_invD:
  assumes "search_inv m visits st"
  shows "numbered visits st" "finished m st" "onPath m (fst ` set visits) st" "lowSound m st" "lowComplete m visits st"
  using assms by (simp_all add: search_inv_def)

lemma numberedD:
  assumes "numbered visits st"
  shows "set (cp_stack st) \<subseteq> dom (cp_order st)" "dom (cp_componentOf st) \<subseteq> dom (cp_order st)" "fst ` set visits \<subseteq> set (cp_stack st)"
    and "dom (cp_order st) = set (cp_stack st) \<union> dom (cp_componentOf st)" "set (cp_stack st) \<inter> dom (cp_componentOf st) = {}"
    and "sorted_wrt (\<lambda>x y. num st y < num st x) (map fst visits)" "cp_onStack st = set (cp_stack st)"
    and "x \<in> dom (cp_order st) \<Longrightarrow> num st x < cp_nextOrder st"
  using assms by (simp_all add: numbered_def)

lemma at0_update [simp]: "at0 (m(k \<mapsto> v)) x = (if x = k then v else at0 m x)"
  by (simp add: at0_def)

lemma sorted_num:
  assumes "sorted_wrt (\<lambda>x y. num st y < num st x) xs"
  shows "distinct xs" and "x \<in> set xs \<Longrightarrow> y \<in> set xs \<Longrightarrow> num st x = num st y \<Longrightarrow> x = y"
proof -
  show "distinct xs" using assms by (induction xs) auto
  show "x \<in> set xs \<Longrightarrow> y \<in> set xs \<Longrightarrow> num st x = num st y \<Longrightarrow> x = y" using assms by (induction xs) auto
qed

text \<open>The first function of \<open>visits\<close> was entered last.\<close>

lemma top_visit:
  assumes "numbered ((f, next) # visits) st"
  shows "f \<in> set (cp_stack st)" "f \<notin> fst ` set visits" "q \<in> fst ` set visits \<Longrightarrow> num st q < num st f"
    and "map_of visits f = None" "owner st (fst ` set ((f, next) # visits)) x f \<longleftrightarrow> num st f \<le> num st x"
proof -
  have less: "num st q < num st f" if "q \<in> fst ` set visits" for q using assms that by (auto simp: numbered_def)
  then show "q \<in> fst ` set visits \<Longrightarrow> num st q < num st f" by blast
  show "f \<in> set (cp_stack st)" "f \<notin> fst ` set visits" using assms less by (auto simp: numbered_def)
  then show "map_of visits f = None" by (simp add: map_of_eq_None_iff)
  show "owner st (fst ` set ((f, next) # visits)) x f \<longleftrightarrow> num st f \<le> num st x" using less by (auto simp: owner_def intro: less_imp_le)
qed

lemma onPathD:
  assumes "onPath m path st"
  shows "x \<in> set (cp_stack st) \<Longrightarrow> \<exists>p \<in> path. num st p \<le> num st x \<and> reaches m x p"
    and "p \<in> path \<Longrightarrow> x \<in> set (cp_stack st) \<Longrightarrow> num st p \<le> num st x \<Longrightarrow> reaches m p x"
  using assms by (auto simp: onPath_def)

lemma reaches_call: "reaches m p f \<Longrightarrow> y \<in> set (calleesOf m f) \<Longrightarrow> reaches m p y"
  by (auto simp: calls_def intro: rtranclp.rtrancl_into_rtrancl)

lemma owner_shrink:
  assumes "owner st' (insert g path) x p" "p \<noteq> g" "\<And>q. q \<in> insert x path \<Longrightarrow> num st' q = num st q"
  shows "owner st path x p"
  using assms by (auto simp: owner_def)

subsection \<open>Entering a function\<close>

lemma enter_inv:
  assumes inv: "search_inv m visits st" and new: "cp_order st g = None"
    and call: "\<And>p. p \<in> fst ` set visits \<Longrightarrow> reaches m p g"
  shows "search_inv m (fst (enterFunction g (visits, st))) (snd (enterFunction g (visits, st)))"
proof -
  define st' where "st' = snd (enterFunction g (visits, st))"
  note D = search_invD [OF inv]
  have st': "cp_stack st' = g # cp_stack st" "cp_componentOf st' = cp_componentOf st" "cp_onStack st' = insert g (cp_onStack st)"
    "cp_nextOrder st' = cp_nextOrder st + 1" "cp_nextComponent st' = cp_nextComponent st"
    "num st' x = (if x = g then cp_nextOrder st else num st x)" "low st' x = (if x = g then cp_nextOrder st else low st x)"
    "dom (cp_order st') = insert g (dom (cp_order st))" for x
    by (auto simp: st'_def enterFunction_def)
  have fresh: "g \<notin> dom (cp_order st)" "g \<notin> set (cp_stack st)" "g \<notin> dom (cp_componentOf st)" "g \<notin> fst ` set visits"
    using new numberedD [OF D(1)] domIff [of g "cp_order st"] by blast+
  have old: "x \<noteq> g" "num st x < cp_nextOrder st" if "x \<in> set (cp_stack st)" for x using that fresh D(1) by (auto simp: numbered_def)
  have path: "x \<in> set (cp_stack st)" if "x \<in> fst ` set visits" for x using that D(1) by (auto simp: numbered_def)
  have "numbered ((g, 0) # visits) st'"
  proof -
    have "sorted_wrt (\<lambda>x y. num st' y < num st' x) xs" if "set xs \<subseteq> set (cp_stack st)" "sorted_wrt (\<lambda>x y. num st y < num st x) xs" for xs
      using that(2) by (rule sorted_wrt_mono_rel [rotated]) (use that(1) old in \<open>auto simp: st'\<close>)
    then show ?thesis using D(1) old path fresh unfolding numbered_def st' by (auto simp: st' less_Suc_eq)
  qed
  moreover have "finished m st'" using D(2) unfolding finished_def st' .
  moreover have "onPath m (insert g (fst ` set visits)) st'"
    unfolding onPath_def
  proof (intro conjI ballI impI)
    fix p x assume p: "p \<in> insert g (fst ` set visits)" "x \<in> set (cp_stack st')" "num st' p \<le> num st' x"
    show "reaches m p x"
    proof (cases "x = g")
      case True
      then show ?thesis using p(1) call by auto
    next
      case False
      then have x: "x \<in> set (cp_stack st)" using p(2) by (simp add: st')
      then have "p \<noteq> g" using p(3) old [OF x] by (auto simp: st')
      then show ?thesis using D(3) p x False by (auto simp: onPath_def st')
    qed
  next
    fix x assume "x \<in> set (cp_stack st')"
    then consider "x = g" | "x \<in> set (cp_stack st)" by (auto simp: st')
    then show "\<exists>p \<in> insert g (fst ` set visits). num st' p \<le> num st' x \<and> reaches m x p"
    proof cases
      case 2
      then obtain p where "p \<in> fst ` set visits" "num st p \<le> num st x" "reaches m x p" using D(3) unfolding onPath_def by blast
      then show ?thesis using old [OF 2] fresh(4) by (auto simp: st')
    qed auto
  qed
  moreover have "lowSound m st'"
    unfolding lowSound_def
  proof (intro ballI)
    fix x assume "x \<in> set (cp_stack st')"
    then consider "x = g" | "x \<in> set (cp_stack st)" by (auto simp: st')
    then show "low st' x \<le> num st' x \<and> (\<exists>w \<in> set (cp_stack st'). reaches m x w \<and> low st' x = num st' w)"
    proof cases
      case 2
      then obtain w where "w \<in> set (cp_stack st)" "reaches m x w" "low st x = num st w" "low st x \<le> num st x"
        using D(4) by (auto simp: lowSound_def)
      then show ?thesis using old [OF 2] old [of w] by (auto simp: st')
    qed (auto simp: st')
  qed
  moreover have "lowComplete m ((g, 0) # visits) st'"
    unfolding lowComplete_def
  proof (intro ballI conjI impI allI)
    fix x y assume x: "x \<in> set (cp_stack st')" and y: "y \<in> explored m ((g, 0) # visits) x"
    have "x \<noteq> g" using y by (auto simp: explored_def)
    then have x': "x \<in> set (cp_stack st)" and y': "y \<in> explored m visits x" using x y by (auto simp: st' explored_def)
    then have edge: "y \<in> dom (cp_order st)" "y \<in> set (cp_stack st) \<Longrightarrow> owner st (fst ` set visits) x p \<Longrightarrow> low st p \<le> num st y" for p
      using D(5) unfolding lowComplete_def by blast+
    show "y \<in> dom (cp_order st')" using edge(1) by (simp add: st')
    fix p assume "y \<in> set (cp_stack st')" and p: "owner st' (fst ` set ((g, 0) # visits)) x p"
    then have "y \<in> set (cp_stack st)" using edge(1) fresh by (auto simp: st')
    moreover have "p \<noteq> g" using p old [OF x'] \<open>x \<noteq> g\<close> by (auto simp: owner_def st')
    moreover have same: "num st' q = num st q" if "q \<in> insert x (fst ` set visits)" for q
      using that fresh(4) \<open>x \<noteq> g\<close> by (auto simp: st'(6))
    moreover have "owner st (fst ` set visits) x p"
      using owner_shrink [of st' g "fst ` set visits" x p st, OF _ \<open>p \<noteq> g\<close> same] p by simp
    ultimately show "low st' p \<le> num st' y" using edge(2) [of p] old(1) [of y] by (simp add: st')
  qed
  ultimately show ?thesis unfolding search_inv_def st'_def [symmetric] by (simp add: enterFunction_def)
qed

subsection \<open>Exploring a call\<close>

lemma numbered_lowest [simp]: "numbered visits (st\<lparr>cp_lowest := l\<rparr>) = numbered visits st"
  and finished_lowest [simp]: "finished m (st\<lparr>cp_lowest := l\<rparr>) = finished m st"
  and onPath_lowest [simp]: "onPath m path (st\<lparr>cp_lowest := l\<rparr>) = onPath m path st"
  and owner_lowest [simp]: "owner (st\<lparr>cp_lowest := l\<rparr>) = owner st"
  by (simp_all add: numbered_def finished_def onPath_def owner_def fun_eq_iff)

text \<open>Noting one more explored call keeps everything but what \<open>lowComplete\<close> says of that call.\<close>

lemma next_call_inv:
  assumes inv: "search_inv m (inner @ (f, next) # visits) st" and k: "next < length (calleesOf m f)"
    and seen: "calleesOf m f ! next \<in> dom (cp_order st)"
    and lower: "calleesOf m f ! next \<in> set (cp_stack st) \<Longrightarrow> low st f \<le> num st (calleesOf m f ! next)"
  shows "search_inv m (inner @ (f, next + 1) # visits) st"
proof -
  note D = search_invD [OF inv]
  let ?y = "calleesOf m f ! next" and ?old = "inner @ (f, next) # visits" and ?new = "inner @ (f, next + 1) # visits"
  have path: "fst ` set ?new = fst ` set ?old" "map fst ?new = map fst ?old" by simp_all
  have sorted: "sorted_wrt (\<lambda>x y. num st y < num st x) (map fst ?old)" using D(1) by (simp add: numbered_def)
  have own: "p = f" if "owner st (fst ` set ?old) f p" for p
  proof -
    have "num st p = num st f" using that unfolding owner_def by force
    then show ?thesis using that sorted_num(2) [OF sorted, of p f] unfolding owner_def by (simp add: image_Un)
  qed
  have f: "map_of inner f = None" using sorted_num(1) [OF sorted] by (auto simp: map_of_eq_None_iff)
  have "y \<in> dom (cp_order st) \<and> (y \<in> set (cp_stack st) \<longrightarrow> (\<forall>p. owner st (fst ` set ?new) x p \<longrightarrow> low st p \<le> num st y))"
    if x: "x \<in> set (cp_stack st)" and y: "y \<in> explored m ?new x" for x y
  proof (cases "y \<in> explored m ?old x")
    case True
    then show ?thesis using D(5) x unfolding lowComplete_def path by blast
  next
    case False
    then have "x = f" "y = ?y"
      using y k f by (auto simp: explored_def map_add_def take_Suc_conv_app_nth split: if_splits option.splits)
    then show ?thesis using seen lower own unfolding path by blast
  qed
  then have "lowComplete m ?new st" unfolding lowComplete_def by blast
  then show ?thesis using D unfolding search_inv_def numbered_def path by simp
qed

lemma lower_inv:
  assumes inv: "search_inv m visits st" and f: "f \<in> set (cp_stack st)"
    and w: "w \<in> set (cp_stack st)" "reaches m f w"
  shows "search_inv m visits (lowerTo f (num st w) st)"
proof -
  note D = search_invD [OF inv]
  have "low (lowerTo f (num st w) st) p \<le> low st p" for p by (simp add: lowerTo_def)
  then have "lowComplete m visits (lowerTo f (num st w) st)"
    using D(5) unfolding lowComplete_def lowerTo_def by (fastforce simp del: at0_update intro: le_trans)
  moreover have "lowSound m (lowerTo f (num st w) st)"
    using D(4) f w unfolding lowSound_def lowerTo_def by (auto simp: min_def)
  ultimately show ?thesis using D unfolding search_inv_def by (simp add: lowerTo_def)
qed

lemma explore_inv:
  assumes inv: "search_inv m ((f, next) # visits) st" and k: "next < length (calleesOf m f)"
  defines "vs \<equiv> visitStep m ((f, next) # visits, st)"
  shows "search_inv m (fst vs) (snd vs)"
proof -
  note D = search_invD [OF inv]
  let ?y = "calleesOf m f ! next"
  have step: "vs = exploreCall f ?y ((f, next + 1) # visits, st)" using k by (simp add: vs_def)
  have f: "f \<in> set (cp_stack st)" by (rule top_visit(1) [OF D(1)])
  have call: "?y \<in> set (calleesOf m f)" using k by simp
  have reach: "reaches m p f" if "p \<in> insert f (fst ` set visits)" for p
    using that D(3) f top_visit(3) [OF D(1), of p] unfolding onPath_def by (metis image_insert insert_iff list.simps(15) fst_conv less_imp_le order_refl)
  show ?thesis
  proof (cases "cp_order st ?y")
    case None
    have out: "?y \<notin> set (cp_stack st)" using None D(1) domIff [of ?y "cp_order st"] unfolding numbered_def by blast
    let ?st = "snd (enterFunction ?y ((f, next + 1) # visits, st))"
    have entered: "search_inv m ((?y, 0) # (f, next) # visits) ?st"
      using enter_inv [OF inv None] reaches_call [OF reach call] by (simp add: enterFunction_def)
    have "low st f \<le> num st f" "num st f < cp_nextOrder st" "f \<noteq> ?y"
      using D(1,4) f out unfolding lowSound_def numbered_def by auto
    then have "low ?st f \<le> num ?st ?y" "?y \<in> dom (cp_order ?st)" by (simp_all add: enterFunction_def)
    then have "search_inv m ((?y, 0) # (f, next + 1) # visits) ?st"
      by (intro next_call_inv [where inner = "[(?y, 0)]", unfolded append_Cons append_Nil, OF entered k])
    then show ?thesis using None by (simp add: step exploreCall_def) (simp add: enterFunction_def)
  next
    case (Some n)
    then have seen: "?y \<in> dom (cp_order st)" by blast
    show ?thesis
    proof (cases "?y \<in> cp_onStack st")
      case True
      then have y: "?y \<in> set (cp_stack st)" using D(1) by (simp add: numbered_def)
      let ?st = "lowerTo f (num st ?y) st"
      have "search_inv m ((f, next) # visits) ?st"
        by (rule lower_inv [OF inv f y reaches_call [OF rtranclp.rtrancl_refl call]])
      moreover have "?y \<in> dom (cp_order ?st)" "low ?st f \<le> num ?st ?y" using seen by (simp_all add: lowerTo_def)
      ultimately have "search_inv m ((f, next + 1) # visits) ?st"
        by (intro next_call_inv [where inner = "[]", unfolded append_Nil, OF _ k])
      then show ?thesis using Some True by (simp add: step exploreCall_def)
    next
      case False
      then have "search_inv m ((f, next + 1) # visits) st"
        using D(1) by (intro next_call_inv [where inner = "[]", unfolded append_Nil, OF inv k seen]) (simp add: numbered_def)
      then show ?thesis using Some False by (simp add: step exploreCall_def)
    qed
  qed
qed

subsection \<open>Leaving a function\<close>

lemma popComponent_effect:
  "f \<notin> set members \<Longrightarrow> popComponent f (members @ f # rest) st =
     st\<lparr>cp_stack := rest, cp_onStack := cp_onStack st - set (members @ [f]),
        cp_componentOf := (\<lambda>x. if x \<in> set (members @ [f]) then Some (cp_nextComponent st) else cp_componentOf st x)\<rparr>"
proof (induction members arbitrary: st)
  case (Cons a members)
  then show ?case by (auto simp: Let_def Diff_insert2 [symmetric] insert_commute fun_eq_iff intro!: arg_cong2 [where f = "\<lambda>a b. st\<lparr>cp_stack := rest, cp_onStack := a, cp_componentOf := b\<rparr>"])
qed (auto simp: fun_eq_iff Let_def)

text \<open>The caller learns what its callee reached.\<close>

definition informed :: "string \<Rightarrow> visits \<Rightarrow> Components \<Rightarrow> Components" where
  "informed f visits st = (case visits of [] \<Rightarrow> st | (caller, next) # _ \<Rightarrow> lowerTo caller (low st f) st)"

lemma informed_inv:
  assumes inv: "search_inv m ((f, next) # visits) st"
  shows "search_inv m ((f, next) # visits) (informed f visits st)" "low (informed f visits st) f = low st f"
    and "num (informed f visits st) = num st" "cp_stack (informed f visits st) = cp_stack st"
    and "visits \<noteq> [] \<Longrightarrow> low (informed f visits st) (fst (hd visits)) \<le> low st f"
proof -
  note D = search_invD [OF inv]
  have f: "f \<in> set (cp_stack st)" by (rule top_visit(1) [OF D(1)])
  obtain w where w: "w \<in> set (cp_stack st)" "reaches m f w" "low st f = num st w" using D(4) f by (auto simp: lowSound_def)
  have "search_inv m ((f, next) # visits) (informed f visits st) \<and> low (informed f visits st) f = low st f \<and>
    (visits \<noteq> [] \<longrightarrow> low (informed f visits st) (fst (hd visits)) \<le> low st f)"
  proof (cases visits)
    case Nil
    then show ?thesis using inv by (simp add: informed_def)
  next
    case (Cons v vs)
    obtain c k where c: "v = (c, k)" by (cases v)
    have cf: "c \<in> fst ` set visits" using Cons c by simp
    have "c \<in> set (cp_stack st)" using D(1) cf by (auto simp: numbered_def)
    moreover have "reaches m c f" using D(3) cf f top_visit(3) [OF D(1) cf] unfolding onPath_def by auto
    ultimately have "search_inv m ((f, next) # visits) (lowerTo c (num st w) st)"
      using w by (intro lower_inv [OF inv]) auto
    moreover have "c \<noteq> f" using top_visit(2) [OF D(1)] cf by auto
    ultimately show ?thesis using Cons c w(3) by (simp add: informed_def) (simp add: lowerTo_def)
  qed
  then show "search_inv m ((f, next) # visits) (informed f visits st)" "low (informed f visits st) f = low st f"
    "visits \<noteq> [] \<Longrightarrow> low (informed f visits st) (fst (hd visits)) \<le> low st f" by blast+
  show "num (informed f visits st) = num st" "cp_stack (informed f visits st) = cp_stack st"
    by (simp_all add: informed_def lowerTo_def split: list.splits prod.splits)
qed

lemma leave_explored:
  assumes "numbered ((f, next) # visits) st" "length (calleesOf m f) \<le> next"
  shows "explored m ((f, next) # visits) x = explored m visits x"
  using top_visit(4) [OF assms(1)] assms(2) by (auto simp: explored_def)

text \<open>A function that reaches one entered before it stays on the stack, and now belongs to its caller.\<close>

lemma leave_keeps:
  assumes inv: "search_inv m ((f, next) # visits) st" and all: "length (calleesOf m f) \<le> next" and low: "low st f < num st f"
    and told: "visits \<noteq> [] \<Longrightarrow> low st (fst (hd visits)) \<le> low st f"
  shows "search_inv m visits st"
proof -
  note D = search_invD [OF inv] and top = top_visit [OF search_invD(1) [OF inv]]
  obtain w where w: "w \<in> set (cp_stack st)" "reaches m f w" "low st f = num st w" using D(4) top(1) by (auto simp: lowSound_def)
  have path: "onPath m (insert f (fst ` set visits)) st" using D(3) by simp
  obtain p where p: "p \<in> insert f (fst ` set visits)" "num st p \<le> num st w" "reaches m w p" using onPathD(1) [OF path w(1)] by blast
  have pv: "p \<in> fst ` set visits" using p(1,2) w(3) low by auto
  have numbered: "numbered visits st" using D(1) by (simp add: numbered_def)
  have "\<exists>q \<in> fst ` set visits. num st q \<le> num st x \<and> reaches m x q" if xs: "x \<in> set (cp_stack st)" for x
  proof -
    obtain q where q: "q \<in> insert f (fst ` set visits)" "num st q \<le> num st x" "reaches m x q" using onPathD(1) [OF path xs] by blast
    show ?thesis
    proof (cases "q = f")
      case True
      then have "reaches m x p" using q(3) w(2) p(3) by (meson rtranclp_trans)
      moreover have "num st p \<le> num st x" using p(2) w(3) low q(2) unfolding True by linarith
      ultimately show ?thesis using pv by blast
    qed (use q in blast)
  qed
  then have "onPath m (fst ` set visits) st" using path unfolding onPath_def by blast
  moreover have "lowComplete m visits st"
    unfolding lowComplete_def
  proof (intro ballI conjI impI allI)
    fix x y assume x: "x \<in> set (cp_stack st)" and "y \<in> explored m visits x"
    then have y: "y \<in> explored m ((f, next) # visits) x" using leave_explored [OF D(1) all] by simp
    then show "y \<in> dom (cp_order st)" using D(5) x unfolding lowComplete_def by blast
    fix q assume ys: "y \<in> set (cp_stack st)" and q: "owner st (fst ` set visits) x q"
    have edge: "low st q' \<le> num st y" if "owner st (fst ` set ((f, next) # visits)) x q'" for q'
      using D(5) x y ys that unfolding lowComplete_def by blast
    show "low st q \<le> num st y"
    proof (cases "num st f \<le> num st x")
      case True
      have caller: "fst (hd visits) \<in> fst ` set visits" using pv by (cases visits) auto
      then have "num st (fst (hd visits)) \<le> num st x" using True top(3) [OF caller] by linarith
      then have "num st (fst (hd visits)) \<le> num st q" using q caller unfolding owner_def by blast
      moreover have "num st q \<le> num st (fst (hd visits))"
        using numbered q by (cases visits) (auto simp: owner_def numbered_def)
      moreover have "q \<in> fst ` set visits" using q by (simp add: owner_def)
      ultimately have "q = fst (hd visits)"
        using numbered caller sorted_num(2) [of st "map fst visits" q "fst (hd visits)"] by (simp add: numbered_def)
      moreover have "visits \<noteq> []" using pv by auto
      ultimately show ?thesis using told edge [of f] top(5) [of x] True by simp
    next
      case False
      then show ?thesis using q by (intro edge) (auto simp: owner_def)
    qed
  qed
  ultimately show ?thesis using D numbered by (simp add: search_inv_def)
qed

text \<open>The functions entered from \<open>f\<close> on, when \<open>f\<close> reaches none entered before it.\<close>

lemma component_closed:
  assumes inv: "search_inv m ((f, next) # visits) st" and all: "length (calleesOf m f) \<le> next" and low: "low st f = num st f"
  defines "T \<equiv> {x \<in> set (cp_stack st). num st f \<le> num st x}" and "C \<equiv> dom (cp_componentOf st)"
  shows "x \<in> T \<Longrightarrow> set (calleesOf m x) \<subseteq> T \<union> C" "x \<in> T \<Longrightarrow> y \<in> T \<Longrightarrow> mutual m x y" "x \<in> T \<Longrightarrow> y \<in> C \<Longrightarrow> \<not> reaches m y x"
proof -
  note D = search_invD [OF inv] and top = top_visit [OF search_invD(1) [OF inv]]
  have path: "onPath m (insert f (fst ` set visits)) st" using D(3) by simp
  have closed: "set (calleesOf m x) \<subseteq> T \<union> C" if x: "x \<in> T" for x
  proof
    fix y assume y: "y \<in> set (calleesOf m x)"
    have "x \<notin> fst ` set visits" using x top(3) [of x] unfolding T_def by fastforce
    then have y': "y \<in> explored m ((f, next) # visits) x"
      using y unfolding leave_explored [OF D(1) all] by (simp add: explored_def map_of_eq_None_iff [symmetric])
    have xs: "x \<in> set (cp_stack st)" "owner st (fst ` set ((f, next) # visits)) x f" using x top(5) by (auto simp: T_def)
    then have "y \<in> dom (cp_order st)" "y \<in> set (cp_stack st) \<Longrightarrow> low st f \<le> num st y"
      using D(5) y' unfolding lowComplete_def by blast+
    then show "y \<in> T \<union> C" using low D(1) unfolding numbered_def T_def C_def by auto
  qed
  show "x \<in> T \<Longrightarrow> set (calleesOf m x) \<subseteq> T \<union> C" by (rule closed)
  have Cclosed: "set (calleesOf m x) \<subseteq> C" if "x \<in> C" for x using D(2) that unfolding finished_def C_def by blast
  have within: "z \<in> T \<union> C" if "reaches m x z" "x \<in> T \<union> C" for x z
    using that by (induction rule: rtranclp_induct) (use closed Cclosed in \<open>auto simp: calls_def\<close>)
  have inC: "z \<in> C" if "reaches m x z" "x \<in> C" for x z
    using that by (induction rule: rtranclp_induct) (use Cclosed in \<open>auto simp: calls_def\<close>)
  have apart: "T \<inter> C = {}" using D(1) unfolding numbered_def T_def C_def by blast
  show "x \<in> T \<Longrightarrow> y \<in> C \<Longrightarrow> \<not> reaches m y x" using inC apart by blast
  have root: "reaches m x f \<and> reaches m f x" if x: "x \<in> T" for x
  proof
    obtain p where p: "p \<in> insert f (fst ` set visits)" "reaches m x p" using path x unfolding onPath_def T_def by blast
    have "p \<in> set (cp_stack st)" using p(1) top(1) D(1) unfolding numbered_def by auto
    then have "p \<in> T" using within [OF p(2)] x D(1) unfolding numbered_def C_def by blast
    then have "p = f" using p(1) top(3) [of p] by (auto simp: T_def)
    then show "reaches m x f" using p(2) by simp
    show "reaches m f x" using path x unfolding onPath_def T_def by blast
  qed
  show "x \<in> T \<Longrightarrow> y \<in> T \<Longrightarrow> mutual m x y" using root unfolding mutual_def by (meson rtranclp_trans)
qed

lemma leave_component:
  assumes inv: "search_inv m ((f, next) # visits) st" and all: "length (calleesOf m f) \<le> next" and low: "low st f = num st f"
  defines "st' \<equiv> (let st = popComponent f (cp_stack st) st in st\<lparr>cp_nextComponent := cp_nextComponent st + 1\<rparr>)"
  shows "search_inv m visits st'"
proof -
  note D = search_invD [OF inv] and top = top_visit [OF search_invD(1) [OF inv]]
  define T where "T = {x \<in> set (cp_stack st). num st f \<le> num st x}"
  note T = component_closed [OF inv all low, folded T_def]
  obtain members rest where split: "cp_stack st = members @ f # rest" using top(1) by (meson split_list)
  have sorted: "sorted_wrt (\<lambda>x y. num st y < num st x) (members @ f # rest)" using D(1) split by (simp add: numbered_def)
  have order: "\<forall>x \<in> set members. num st f < num st x" "\<forall>x \<in> set rest. num st x < num st f"
    using sorted by (simp_all add: sorted_wrt_append)
  have rest: "x \<in> set rest \<longleftrightarrow> x \<in> set (cp_stack st) \<and> num st x < num st f" for x
    using order unfolding split by (auto dest: less_asym)
  have members: "set (members @ [f]) = T" "f \<notin> set members"
    using order unfolding T_def split by (auto dest: leD intro: less_imp_le)
  have st': "cp_stack st' = rest" "cp_onStack st' = cp_onStack st - T" "cp_order st' = cp_order st" "cp_lowest st' = cp_lowest st"
    "cp_nextOrder st' = cp_nextOrder st" "cp_nextComponent st' = cp_nextComponent st + 1"
    "cp_componentOf st' = (\<lambda>x. if x \<in> T then Some (cp_nextComponent st) else cp_componentOf st x)"
    unfolding st'_def split popComponent_effect [OF members(2)] members(1) by simp_all
  have dom: "dom (cp_componentOf st') = dom (cp_componentOf st) \<union> T" by (auto simp: st' dom_def)
  have stack: "set (cp_stack st) = set rest \<union> T" using members(1) split by auto
  have apart: "set rest \<inter> T = {}" 
  proof -
    have "x \<notin> T" if "x \<in> set rest" for x using order(2) that unfolding T_def by force
    then show ?thesis by blast
  qed
  have visits: "fst ` set visits \<subseteq> set rest" 
  proof
    fix q assume q: "q \<in> fst ` set visits"
    then have "q \<in> set (cp_stack st)" using numberedD(3) [OF D(1)] by auto
    then show "q \<in> set rest" using top(3) [OF q] by (simp add: rest)
  qed
  have "numbered visits st'"
    unfolding numbered_def st'(1-6) dom
  proof (intro conjI ballI)
    show "dom (cp_order st) = set rest \<union> (dom (cp_componentOf st) \<union> T)" using numberedD(4) [OF D(1)] stack by blast
    show "set rest \<inter> (dom (cp_componentOf st) \<union> T) = {}" using numberedD(5) [OF D(1)] stack apart by blast
    show "cp_onStack st - T = set rest" using numberedD(7) [OF D(1)] stack apart by blast
    show "sorted_wrt (\<lambda>x y. num st y < num st x) rest" using sorted by (simp add: sorted_wrt_append)
    show "num st x < cp_nextOrder st" if "x \<in> dom (cp_order st)" for x using numberedD(8) [OF D(1) that] .
    show "sorted_wrt (\<lambda>x y. num st y < num st x) (map fst visits)" using numberedD(6) [OF D(1)] by simp
  qed (rule visits)
  moreover have "finished m st'"
    unfolding finished_def
  proof (intro conjI ballI allI impI)
    fix x assume "x \<in> dom (cp_componentOf st')"
    then show "set (calleesOf m x) \<subseteq> dom (cp_componentOf st')" using T(1) D(2) unfolding dom finished_def by blast
  next
    fix x y assume xy: "x \<in> dom (cp_componentOf st')" "y \<in> dom (cp_componentOf st')"
    have fresh: "cp_componentOf st z \<noteq> Some (cp_nextComponent st)" for z using D(2) unfolding finished_def by fastforce
    have old: "cp_componentOf st z = cp_componentOf st z' \<longleftrightarrow> mutual m z z'" if "z \<in> dom (cp_componentOf st)" "z' \<in> dom (cp_componentOf st)" for z z'
      using that D(2) unfolding finished_def by blast
    consider "x \<in> T" "y \<in> T" | "x \<in> T" "y \<notin> T" "y \<in> dom (cp_componentOf st)" | "x \<notin> T" "y \<in> T" "x \<in> dom (cp_componentOf st)"
      | "x \<notin> T" "y \<notin> T" "x \<in> dom (cp_componentOf st)" "y \<in> dom (cp_componentOf st)" using xy unfolding dom by blast
    then show "cp_componentOf st' x = cp_componentOf st' y \<longleftrightarrow> mutual m x y"
    proof cases
      case 1
      then show ?thesis using T(2) by (simp add: st')
    next
      case 2
      then show ?thesis using T(3) [OF 2(1,3)] fresh [of y] by (auto simp: st' mutual_def)
    next
      case 3
      then show ?thesis using T(3) [OF 3(2,3)] fresh [of x] by (auto simp: st' mutual_def)
    next
      case 4
      then show ?thesis using old by (simp add: st')
    qed
  next
    fix x c assume "cp_componentOf st' x = Some c"
    then show "c < cp_nextComponent st'" using D(2) unfolding finished_def by (auto simp: st' less_Suc_eq split: if_splits)
  qed
  moreover have "onPath m (fst ` set visits) st'"
  proof -
    have path: "onPath m (insert f (fst ` set visits)) st" using D(3) by simp
    have "\<exists>p \<in> fst ` set visits. num st p \<le> num st x \<and> reaches m x p" if "x \<in> set rest" for x
    proof -
      have x: "x \<in> set (cp_stack st)" "num st x < num st f" using that by (simp_all add: rest)
      obtain p where p: "p \<in> insert f (fst ` set visits)" "num st p \<le> num st x" "reaches m x p" using onPathD(1) [OF path x(1)] by blast
      then have "p \<noteq> f" using x(2) by auto
      then show ?thesis using p by blast
    qed
    then show ?thesis using path stack unfolding onPath_def st' by blast
  qed
  moreover have "lowSound m st'"
    unfolding lowSound_def st'
  proof
    fix x assume "x \<in> set rest"
    then have x: "x \<in> set (cp_stack st)" "num st x < num st f" by (simp_all add: rest)
    then obtain w where "w \<in> set (cp_stack st)" "reaches m x w" "low st x = num st w" "low st x \<le> num st x"
      using D(4) unfolding lowSound_def by blast
    then show "low st x \<le> num st x \<and> (\<exists>w \<in> set rest. reaches m x w \<and> low st x = num st w)" using x(2) by (auto simp: rest)
  qed
  moreover have "lowComplete m visits st'"
    unfolding lowComplete_def
  proof (intro ballI conjI impI allI)
    fix x y assume "x \<in> set (cp_stack st')" and y: "y \<in> explored m visits x"
    then have x: "x \<in> set (cp_stack st)" "num st x < num st f" by (simp_all add: st' rest)
    have y: "y \<in> explored m ((f, next) # visits) x" using y leave_explored [OF D(1) all] by simp
    then show "y \<in> dom (cp_order st')" using D(5) x(1) unfolding lowComplete_def st' by blast
    fix p assume "y \<in> set (cp_stack st')" "owner st' (fst ` set visits) x p"
    then have "y \<in> set (cp_stack st)" "owner st (fst ` set ((f, next) # visits)) x p"
      using x(2) by (auto simp: st' rest owner_def)
    then show "low st' p \<le> num st' y" using D(5) x(1) y unfolding lowComplete_def st' by blast
  qed
  ultimately show ?thesis by (simp add: search_inv_def)
qed

subsection \<open>The whole search\<close>

lemma leaveFunction_informed:
  "leaveFunction f visits st =
     (let st = informed f visits st
      in if low st f \<noteq> num st f then st
         else (let st = popComponent f (cp_stack st) st in st\<lparr>cp_nextComponent := cp_nextComponent st + 1\<rparr>))"
  by (simp add: leaveFunction_def informed_def)

lemma leave_inv:
  assumes inv: "search_inv m ((f, next) # visits) st" and all: "length (calleesOf m f) \<le> next"
  shows "search_inv m visits (leaveFunction f visits st)"
proof -
  let ?st = "informed f visits st"
  note I = informed_inv [OF inv]
  have "f \<in> set (cp_stack ?st)" by (rule top_visit(1) [OF search_invD(1) [OF I(1)]])
  then have "low ?st f \<le> num ?st f" using search_invD(4) [OF I(1)] by (simp add: lowSound_def)
  then consider "low ?st f < num ?st f" | "low ?st f = num ?st f" by linarith
  then show ?thesis
  proof cases
    case 1
    then have "search_inv m visits ?st" using I(2,5) by (intro leave_keeps [OF I(1) all]) simp_all
    then show ?thesis using 1 by (simp add: leaveFunction_informed Let_def)
  next
    case 2
    then show ?thesis using leave_component [OF I(1) all 2] by (simp add: leaveFunction_informed Let_def)
  qed
qed

lemma visitStep_inv:
  assumes "search_inv m visits st"
  shows "search_inv m (fst (visitStep m (visits, st))) (snd (visitStep m (visits, st)))"
proof (cases visits)
  case (Cons v vs)
  obtain f "next" where v: "v = (f, next)" by (cases v)
  show ?thesis
  proof (cases "next < length (calleesOf m f)")
    case True
    then show ?thesis using explore_inv [of m f "next" vs st] assms Cons v by simp
  next
    case False
    then show ?thesis using leave_inv [of m f "next" vs st] assms Cons v by simp
  qed
qed (use assms in simp)

lemma visitStep_order: "dom (cp_order st) \<subseteq> dom (cp_order (snd (visitStep m (visits, st))))"
  by (cases "(m, (visits, st))" rule: visitStep.cases) (auto simp: exploreCall_def enterFunction_def lowerTo_def)

lemma visitAll_inv:
  assumes "search_inv m visits st"
  shows "search_inv m [] (visitAll m visits st) \<and> dom (cp_order st) \<subseteq> dom (cp_order (visitAll m visits st))"
  using assms
proof (induction m visits st rule: visitAll.induct)
  case (1 m visits st)
  obtain visits' st' where step: "visitStep m (visits, st) = (visits', st')" by (cases "visitStep m (visits, st)")
  show ?case
  proof (cases "visits = []")
    case True
    then show ?thesis using 1(2) by (simp add: visitAll.simps)
  next
    case False
    have "search_inv m visits' st'" "dom (cp_order st) \<subseteq> dom (cp_order st')"
      using visitStep_inv [OF 1(2)] visitStep_order [of st m visits] step by simp_all
    then show ?thesis using 1(1) [OF False step [symmetric] refl] False step by (subst (1 2) visitAll.simps) auto
  qed
qed

lemma visitRoot_inv:
  assumes "search_inv m [] st"
  shows "search_inv m [] (visitRoot m root st) \<and> insert root (dom (cp_order st)) \<subseteq> dom (cp_order (visitRoot m root st))"
proof (cases "cp_order st root")
  case None
  have "search_inv m (fst (enterFunction root ([], st))) (snd (enterFunction root ([], st)))"
    using enter_inv [OF assms None] by simp
  then show ?thesis using visitAll_inv None by (fastforce simp: visitRoot_def enterFunction_def Let_def)
qed (use assms in \<open>auto simp: visitRoot_def\<close>)

lemma components_inv: "search_inv m [] (components m) \<and> fst ` set m \<subseteq> dom (cp_order (components m))"
proof -
  have "search_inv m [] (fold (visitRoot m) roots st) \<and> set roots \<union> dom (cp_order st) \<subseteq> dom (cp_order (fold (visitRoot m) roots st))"
    if "search_inv m [] st" for roots st
    using that
  proof (induction roots arbitrary: st)
    case (Cons root roots)
    note root = visitRoot_inv [OF Cons.prems, of root]
    then show ?case using Cons.IH [OF conjunct1 [OF root]] by (simp only: fold_simps list.simps(15)) blast
  qed simp
  moreover have "search_inv m [] noComponents"
    by (simp add: search_inv_def numbered_def finished_def onPath_def lowSound_def lowComplete_def noComponents_def)
  ultimately show ?thesis unfolding components_def using set_map [of fst m] by blast
qed

text \<open>Every function with a call, and every function called, ends in a component, and components are the classes of mutual reachability.\<close>

lemma components_exact:
  assumes "calleesOf m f \<noteq> []" "g \<in> set (calleesOf m f)"
  shows "\<exists>a b. cp_componentOf (components m) f = Some a \<and> cp_componentOf (components m) g = Some b \<and> (a = b \<longleftrightarrow> reaches m g f)"
proof -
  let ?st = "components m"
  note D = search_invD [OF conjunct1 [OF components_inv [of m]]]
  have "cp_stack ?st = []" using D(3) by (cases "cp_stack ?st") (auto simp: onPath_def)
  then have dom: "dom (cp_order ?st) = dom (cp_componentOf ?st)" using numberedD(4) [OF D(1)] by simp
  have "f \<in> fst ` set m" using assms(1) weak_map_of_SomeI [of f _ m] by (cases "map_of m f") (force simp: calleesOf_def dest: map_of_SomeD)+
  then have f: "f \<in> dom (cp_componentOf ?st)" using components_inv [of m] dom by blast
  moreover from f have g: "g \<in> dom (cp_componentOf ?st)" using D(2) assms(2) unfolding finished_def by blast
  moreover have "cp_componentOf ?st f = cp_componentOf ?st g \<longleftrightarrow> mutual m f g" using D(2) f g unfolding finished_def by blast
  moreover have "reaches m f g" using assms(2) by (auto simp: calls_def)
  ultimately show ?thesis unfolding mutual_def by auto
qed

text \<open>
  C11: The search returns without an exception, and the calls it gives are exactly those whose callee reaches their caller
  again through direct calls: a function calling itself, or several calling each other.
\<close>

theorem calls_closing_cycles_exact:
  "callsClosingCycles sites =
     Some {call. \<exists>site \<in> set sites. dc_call site = Some call \<and>
       (calls (calleesByCaller sites))\<^sup>*\<^sup>* (dc_calleeFunctionId site) (dc_callerFunctionId site)}"
proof -
  let ?m = "calleesByCaller sites"
  have site: "closesCycle (components ?m) site =
      Some (dc_call site \<noteq> None \<and> reaches ?m (dc_calleeFunctionId site) (dc_callerFunctionId site))"
    if "site \<in> set sites" for site
  proof -
    have "dc_calleeFunctionId site \<in> set (calleesOf ?m (dc_callerFunctionId site))"
      using that by (auto simp: calleesOf_calleesByCaller)
    then obtain a b where "cp_componentOf (components ?m) (dc_callerFunctionId site) = Some a"
      "cp_componentOf (components ?m) (dc_calleeFunctionId site) = Some b"
      "a = b \<longleftrightarrow> reaches ?m (dc_calleeFunctionId site) (dc_callerFunctionId site)"
      using components_exact [of ?m "dc_callerFunctionId site" "dc_calleeFunctionId site"] by fastforce
    then show ?thesis by (simp add: closesCycle_def split: option.splits)
  qed
  have "closingCalls (components ?m) ss =
      Some {call. \<exists>site \<in> set ss. dc_call site = Some call \<and> reaches ?m (dc_calleeFunctionId site) (dc_callerFunctionId site)}"
    if "set ss \<subseteq> set sites" for ss
    using that
  proof (induction ss)
    case (Cons s ss)
    then show ?case by (cases "dc_call s") (auto simp: site)
  qed simp
  then show ?thesis by (simp add: callsClosingCycles_def)
qed

end
