(* ===== verification/Lock_Propagation.thy ===== *)
theory Lock_Propagation
  imports Lock_Scope Call_Graph "HOL-Library.Multiset"
begin

text \<open>
  The locks a function may assume its callers hold: \<open>LockStatePropagator\<close> of \<open>analysis/lock_state_propagator.cpp\<close>. The order in
  which a map keyed by hash is walked is the argument \<open>arrange\<close>. A lock name that \<open>parameterLockPlace\<close> cannot read does
  not occur: the names are built by \<open>lockIdAt\<close>.
\<close>

section \<open>The propagator\<close>

type_synonym entry_locks = "(string \<times> string set) list"

record LockPropagationResult =
  lp_entryLocksByFunction :: entry_locks
  lp_effectiveHeldLocksByCall :: "nat \<rightharpoonup> string set"

definition mergeHeldLocks :: "string set \<Rightarrow> string set \<Rightarrow> string set" where
  "mergeHeldLocks lhs rhs = lhs \<union> rhs"

definition namesParameter :: "string \<Rightarrow> bool" where
  "namesParameter lockId = (case parameterLockPlace lockId of Inr (Some place) \<Rightarrow> True | _ \<Rightarrow> False)"

definition locksForCallee :: "string set \<Rightarrow> string set" where
  "locksForCallee callerLocks = Set.filter (\<lambda>lockId. \<not> namesParameter lockId) callerLocks"

definition intersectHeldLocks :: "string set \<Rightarrow> string set \<Rightarrow> string set" where
  "intersectHeldLocks lhs rhs = lhs \<inter> rhs"

text \<open>The function a call stands in, when it has a body.\<close>

definition callerOf :: "'v Module \<Rightarrow> DirectCallSite \<Rightarrow> 'v Function option" where
  "callerOf module site =
     (case dc_call site of
        None \<Rightarrow> None
      | Some call \<Rightarrow>
          (case find (\<lambda>f. call \<in> in_address ` set (fn_instructions f)) module of
             None \<Rightarrow> None
           | Some caller \<Rightarrow> if fn_isDeclaration caller then None else Some caller))"

definition trackedCalls :: "'v Module \<Rightarrow> DirectCallSite list \<Rightarrow> 'v Function \<Rightarrow> nat set" where
  "trackedCalls module sites f =
     \<Union> (set (map (\<lambda>site. set_option (dc_call site)) (filter (\<lambda>site. map_option fn_id (callerOf module site) = Some (fn_id f)) sites)))"

type_synonym incoming_calls = "(string \<times> DirectCallSite list) list"

definition incomingCallsByCallee :: "'v Module \<Rightarrow> DirectCallSite list \<Rightarrow> incoming_calls" where
  "incomingCallsByCallee module sites =
     fold (\<lambda>site. umap_update (dc_calleeFunctionId site) (push site)) (filter (\<lambda>site. callerOf module site \<noteq> None) sites) []"

definition noteHeld :: "held_by_access \<Rightarrow> held_by_access \<Rightarrow> held_by_access" where
  "noteHeld held acc = (\<lambda>call. case acc call of Some locks \<Rightarrow> Some locks | None \<Rightarrow> held call)"

fun localHeldLocks :: "'v LockScopeTracker \<Rightarrow> 'v Module \<Rightarrow> DirectCallSite list \<Rightarrow> 'v Function list \<Rightarrow> held_by_access \<Rightarrow> held_by_access option" where
  "localHeldLocks tracker module sites [] acc = Some acc"
| "localHeldLocks tracker module sites (f # fs) acc =
     (if fn_isDeclaration f \<or> trackedCalls module sites f = {} then localHeldLocks tracker module sites fs acc
      else
        (case collectHeldLocks tracker f (trackedCalls module sites f) of
           None \<Rightarrow> None
         | Some held \<Rightarrow> localHeldLocks tracker module sites fs (noteHeld held acc)))"

definition effectiveLocks :: "held_by_access \<Rightarrow> entry_locks \<Rightarrow> DirectCallSite \<Rightarrow> string set" where
  "effectiveLocks local entry site =
     (let effective = (case Option.bind (dc_call site) local of Some locks \<Rightarrow> locks | None \<Rightarrow> {})
      in case map_of entry (dc_callerFunctionId site) of
           Some callerLocks \<Rightarrow> mergeHeldLocks effective callerLocks
         | None \<Rightarrow> effective)"

definition mergeCall :: "held_by_access \<Rightarrow> entry_locks \<Rightarrow> DirectCallSite \<Rightarrow> string set option \<Rightarrow> string set option" where
  "mergeCall local entry site merged =
     (let effective = locksForCallee (effectiveLocks local entry site)
      in case merged of None \<Rightarrow> Some effective | Some locks \<Rightarrow> Some (intersectHeldLocks locks effective))"

definition propagateCallee :: "held_by_access \<Rightarrow> string \<times> DirectCallSite list \<Rightarrow> entry_locks \<times> bool \<Rightarrow> entry_locks \<times> bool" where
  "propagateCallee local incoming st =
     (let (callee, cs) = incoming; (entry, changed) = st
      in case fold (mergeCall local entry) cs None of
           None \<Rightarrow> st
         | Some merged \<Rightarrow>
             (let entryLocks = (case map_of entry callee of Some locks \<Rightarrow> locks | None \<Rightarrow> {})
              in if entryLocks \<noteq> merged then (umap_update callee (\<lambda>_. merged) entry, True)
                 else (umap_update callee (\<lambda>_. entryLocks) entry, changed)))"

partial_function (option) propagateLoop :: "held_by_access \<Rightarrow> incoming_calls \<Rightarrow> entry_locks \<Rightarrow> entry_locks option" where
  "propagateLoop local incoming entry =
     (let (entry, changed) = fold (propagateCallee local) incoming (entry, False)
      in if changed then propagateLoop local incoming entry else Some entry)"

definition initialEntryLocks :: "'v Module \<Rightarrow> entry_locks" where
  "initialEntryLocks module =
     fold (\<lambda>f. umap_update (fn_id f) (\<lambda>r. case r of Some locks \<Rightarrow> locks | None \<Rightarrow> {})) (filter (\<lambda>f. \<not> fn_isDeclaration f) module) []"

definition noteEffective :: "held_by_access \<Rightarrow> entry_locks \<Rightarrow> DirectCallSite \<Rightarrow> held_by_access \<Rightarrow> held_by_access" where
  "noteEffective local entry site acc =
     (case dc_call site of
        None \<Rightarrow> acc
      | Some call \<Rightarrow> if acc call = None then acc(call \<mapsto> effectiveLocks local entry site) else acc)"

definition propagateLocks ::
  "(incoming_calls \<Rightarrow> incoming_calls) \<Rightarrow> 'v LockScopeTracker \<Rightarrow> 'v Module \<Rightarrow> DirectCallSite list \<Rightarrow> LockPropagationResult option" where
  "propagateLocks arrange tracker module sites =
     (case localHeldLocks tracker module sites module Map.empty of
        None \<Rightarrow> None
      | Some local \<Rightarrow>
          (case propagateLoop local (arrange (incomingCallsByCallee module sites)) (initialEntryLocks module) of
             None \<Rightarrow> None
           | Some entry \<Rightarrow>
               Some \<lparr>lp_entryLocksByFunction = entry,
                     lp_effectiveHeldLocksByCall = fold (noteEffective local entry) sites Map.empty\<rparr>))"

section \<open>What callers surely hold\<close>

text \<open>
  A lock is surely held on entry to a function that is called, when each of its calls holds it, in the caller or already on entry
  to the caller.
\<close>

definition localLocks :: "held_by_access \<Rightarrow> DirectCallSite \<Rightarrow> string set" where
  "localLocks local site = (case Option.bind (dc_call site) local of Some locks \<Rightarrow> locks | None \<Rightarrow> {})"

inductive surely_held :: "held_by_access \<Rightarrow> DirectCallSite set \<Rightarrow> string \<Rightarrow> string \<Rightarrow> bool" for local sites l where
  "s0 \<in> sites \<Longrightarrow> dc_calleeFunctionId s0 = f \<Longrightarrow> \<not> namesParameter l \<Longrightarrow>
   (\<And>site. site \<in> sites \<Longrightarrow> dc_calleeFunctionId site = f \<Longrightarrow>
      l \<in> localLocks local site \<or> surely_held local sites l (dc_callerFunctionId site)) \<Longrightarrow>
   surely_held local sites l f"

abbreviation entryOf :: "entry_locks \<Rightarrow> string \<Rightarrow> string set" where
  "entryOf entry f \<equiv> (case map_of entry f of Some locks \<Rightarrow> locks | None \<Rightarrow> {})"

lemma effectiveLocks_alt: "effectiveLocks local entry site = localLocks local site \<union> entryOf entry (dc_callerFunctionId site)"
  by (simp add: effectiveLocks_def localLocks_def mergeHeldLocks_def Let_def split: option.splits)

text \<open>What one function's calls give it.\<close>

definition fromCallers :: "held_by_access \<Rightarrow> entry_locks \<Rightarrow> DirectCallSite list \<Rightarrow> string set" where
  "fromCallers local entry cs =
     {l. \<not> namesParameter l \<and> (\<forall>site \<in> set cs. l \<in> localLocks local site \<or> l \<in> entryOf entry (dc_callerFunctionId site))}"

lemma fold_mergeCall:
  "fold (mergeCall local entry) cs r =
     (case r of
        None \<Rightarrow> if cs = [] then None else Some (fromCallers local entry cs)
      | Some locks \<Rightarrow> Some (if cs = [] then locks else locks \<inter> fromCallers local entry cs))"
proof (induction cs arbitrary: r)
  case (Cons site cs)
  show ?case
    unfolding fold_simps Cons.IH
    by (cases r; cases cs)
      (auto simp: mergeCall_def effectiveLocks_alt locksForCallee_def intersectHeldLocks_def fromCallers_def Let_def)
qed (simp split: option.splits)

section \<open>The loop\<close>

definition incoming_ok :: "DirectCallSite set \<Rightarrow> incoming_calls \<Rightarrow> bool" where
  "incoming_ok sites incoming \<longleftrightarrow>
     (\<forall>x \<in> set incoming. snd x \<noteq> [] \<and> set (snd x) = {site \<in> sites. dc_calleeFunctionId site = fst x}) \<and>
     (\<forall>site \<in> sites. dc_calleeFunctionId site \<in> fst ` set incoming)"

text \<open>The sets only grow, towards what is surely held, as long as each is at most what the calls give.\<close>

definition entry_inv :: "held_by_access \<Rightarrow> DirectCallSite set \<Rightarrow> entry_locks \<Rightarrow> bool" where
  "entry_inv local sites entry \<longleftrightarrow>
     (\<forall>f. \<forall>l \<in> entryOf entry f. surely_held local sites l f \<and> (\<forall>site \<in> sites. dc_calleeFunctionId site = f \<longrightarrow>
        l \<in> localLocks local site \<or> l \<in> entryOf entry (dc_callerFunctionId site)))"

definition settledCallee :: "held_by_access \<Rightarrow> entry_locks \<Rightarrow> string \<times> DirectCallSite list \<Rightarrow> bool" where
  "settledCallee local entry incoming \<longleftrightarrow> entryOf entry (fst incoming) = fromCallers local entry (snd incoming)"

lemma entryOf_update [simp]: "entryOf (umap_update f (\<lambda>_. locks) entry) g = (if g = f then locks else entryOf entry g)"
  by (simp add: umap_lookup_update)

lemma propagateCallee_effect:
  assumes "cs \<noteq> []"
  shows "propagateCallee local (callee, cs) (entry, changed) =
    (umap_update callee (\<lambda>_. fromCallers local entry cs) entry, changed \<or> \<not> settledCallee local entry (callee, cs))"
  using assms by (auto simp: propagateCallee_def fold_mergeCall settledCallee_def Let_def)

lemma callee_inv:
  assumes inv: "entry_inv local sites entry" and cs: "cs \<noteq> []" "set cs = {site \<in> sites. dc_calleeFunctionId site = callee}"
  defines "entry' \<equiv> umap_update callee (\<lambda>_. fromCallers local entry cs) entry"
  shows "entry_inv local sites entry'" "entryOf entry f \<subseteq> entryOf entry' f"
proof -
  have below: "l \<in> fromCallers local entry cs" if "l \<in> entryOf entry callee" for l
  proof -
    have "surely_held local sites l callee" using inv that unfolding entry_inv_def by blast
    then have "\<not> namesParameter l" by (cases rule: surely_held.cases) auto
    then show ?thesis using inv that cs(2) unfolding entry_inv_def fromCallers_def by blast
  qed
  have grows: "entryOf entry f \<subseteq> entryOf entry' f" for f unfolding entry'_def entryOf_update using below by auto
  then show "entryOf entry f \<subseteq> entryOf entry' f" .
  have old: "surely_held local sites l f" if "l \<in> entryOf entry f" for l f using inv that unfolding entry_inv_def by blast
  show "entry_inv local sites entry'"
    unfolding entry_inv_def
  proof (intro allI ballI conjI impI)
    fix f l assume l: "l \<in> entryOf entry' f"
    show "surely_held local sites l f"
    proof (cases "f = callee")
      case True
      obtain s0 where "s0 \<in> sites" "dc_calleeFunctionId s0 = f" using cs True by (metis (mono_tags, lifting) list.set_sel(1) mem_Collect_eq)
      moreover have "l \<in> fromCallers local entry cs" using l True by (simp add: entry'_def)
      ultimately show ?thesis using True cs(2) old unfolding fromCallers_def by (intro surely_held.intros [of s0]) blast+
    qed (use l old in \<open>simp add: entry'_def\<close>)
    fix site assume site: "site \<in> sites" "dc_calleeFunctionId site = f"
    have "l \<in> localLocks local site \<or> l \<in> entryOf entry (dc_callerFunctionId site)"
    proof (cases "f = callee")
      case True
      then show ?thesis using l site cs(2) unfolding entry'_def entryOf_update fromCallers_def by auto
    next
      case False
      then show ?thesis using l site inv unfolding entry'_def entryOf_update entry_inv_def by auto
    qed
    then show "l \<in> localLocks local site \<or> l \<in> entryOf entry' (dc_callerFunctionId site)" using grows by blast
  qed
qed

definition lock_names :: "held_by_access \<Rightarrow> DirectCallSite set \<Rightarrow> string set" where
  "lock_names local sites = \<Union> (localLocks local ` sites)"

lemma surely_held_named: "surely_held local sites l f \<Longrightarrow> l \<in> lock_names local sites"
  by (induction rule: surely_held.induct) (auto simp: lock_names_def)

definition entry_rank :: "held_by_access \<Rightarrow> DirectCallSite set \<Rightarrow> string set \<Rightarrow> entry_locks \<Rightarrow> nat" where
  "entry_rank local sites functions entry = (\<Sum>f \<in> functions. card (lock_names local sites - entryOf entry f))"

lemma callee_rank:
  assumes inv: "entry_inv local sites entry" and cs: "cs \<noteq> []" "set cs = {site \<in> sites. dc_calleeFunctionId site = callee}"
    and fin: "finite functions" "callee \<in> functions" "finite (lock_names local sites)"
  defines "entry' \<equiv> umap_update callee (\<lambda>_. fromCallers local entry cs) entry"
  shows "entry_rank local sites functions entry' \<le> entry_rank local sites functions entry"
    and "\<not> settledCallee local entry (callee, cs) \<Longrightarrow> entry_rank local sites functions entry' < entry_rank local sites functions entry"
proof -
  let ?U = "lock_names local sites"
  note kept = callee_inv [OF inv cs, folded entry'_def]
  have le: "card (?U - entryOf entry' f) \<le> card (?U - entryOf entry f)" for f
    using kept(2) [of f] fin(3) by (intro card_mono) auto
  then show "entry_rank local sites functions entry' \<le> entry_rank local sites functions entry"
    unfolding entry_rank_def by (intro sum_mono) simp
  assume "\<not> settledCallee local entry (callee, cs)"
  then have "entryOf entry callee \<subset> entryOf entry' callee"
    using kept(2) [of callee] by (auto simp: settledCallee_def entry'_def)
  moreover have "entryOf entry' callee \<subseteq> ?U"
    using kept(1) surely_held_named unfolding entry_inv_def by blast
  ultimately have "card (?U - entryOf entry' callee) < card (?U - entryOf entry callee)"
    using fin(3) by (intro psubset_card_mono) auto
  then show "entry_rank local sites functions entry' < entry_rank local sites functions entry"
    unfolding entry_rank_def using le fin(1,2) by (intro sum_strict_mono_ex1) auto
qed

lemma settled_cong:
  assumes "\<And>f. entryOf entry f = entryOf entry' f"
  shows "settledCallee local entry x = settledCallee local entry' x"
  unfolding settledCallee_def fromCallers_def assms ..

lemma round_inv:
  assumes "entry_inv local sites entry" "\<forall>x \<in> set inc. fst x \<in> functions \<and> snd x \<noteq> [] \<and> set (snd x) = {site \<in> sites. dc_calleeFunctionId site = fst x}"
    and fin: "finite functions" "finite (lock_names local sites)"
    and "fold (propagateCallee local) inc (entry, c) = (entry', c')"
  shows "entry_inv local sites entry' \<and> entry_rank local sites functions entry' \<le> entry_rank local sites functions entry \<and>
    (c' \<longrightarrow> c \<or> entry_rank local sites functions entry' < entry_rank local sites functions entry) \<and>
    (\<not> c' \<longrightarrow> \<not> c \<and> (\<forall>f. entryOf entry' f = entryOf entry f) \<and> (\<forall>x \<in> set inc. settledCallee local entry x))"
  using assms(1,2,5)
proof (induction inc arbitrary: entry c)
  case (Cons x inc)
  obtain callee cs where x: "x = (callee, cs)" by (cases x)
  have cs: "callee \<in> functions" "cs \<noteq> []" "set cs = {site \<in> sites. dc_calleeFunctionId site = callee}" using Cons.prems(2) x by auto
  let ?entry = "umap_update callee (\<lambda>_. fromCallers local entry cs) entry" and ?c = "c \<or> \<not> settledCallee local entry x"
  note here = callee_inv(1) [OF Cons.prems(1) cs(2,3)] callee_rank [OF Cons.prems(1) cs(2,3) fin(1) cs(1) fin(2)]
  have same: "entryOf ?entry f = entryOf entry f" if "settledCallee local entry x" for f
    using that x by (auto simp: settledCallee_def)
  have step: "propagateCallee local x (entry, c) = (?entry, ?c)" using propagateCallee_effect [OF cs(2)] x by simp
  then have run: "fold (propagateCallee local) inc (?entry, ?c) = (entry', c')" using Cons.prems(3) by simp
  note rest = Cons.IH [OF here(1) _ run]
  have IH: "entry_inv local sites entry'" "entry_rank local sites functions entry' \<le> entry_rank local sites functions ?entry"
    "c' \<Longrightarrow> ?c \<or> entry_rank local sites functions entry' < entry_rank local sites functions ?entry"
    "\<not> c' \<Longrightarrow> \<not> ?c \<and> (\<forall>f. entryOf entry' f = entryOf ?entry f) \<and> (\<forall>x \<in> set inc. settledCallee local ?entry x)"
    using rest Cons.prems(2) by auto
  have "\<forall>f. entryOf entry' f = entryOf entry f" if "\<not> c'" using IH(4) [OF that] same by simp
  moreover have "settledCallee local entry y" if "\<not> c'" "y \<in> set (x # inc)" for y
    using IH(4) [OF that(1)] that(2) same settled_cong [of ?entry entry local y] by auto
  moreover have "c \<or> entry_rank local sites functions entry' < entry_rank local sites functions entry" if "c'"
    using IH(2) IH(3) [OF that] here(2,3) x by (meson le_less_trans less_le_trans)
  moreover have "\<not> c" if "\<not> c'" using IH(4) [OF that] by blast
  moreover have "entry_rank local sites functions entry' \<le> entry_rank local sites functions entry"
    using IH(2) here(2) by (rule le_trans)
  ultimately show ?case using IH(1) by blast
qed auto

text \<open>At the end of the loop the sets are exactly the locks surely held.\<close>

lemma settled_surely_held:
  assumes "entry_inv local sites entry" "incoming_ok sites inc" "\<forall>x \<in> set inc. settledCallee local entry x"
  shows "entryOf entry f = {l. surely_held local sites l f}"
proof -
  have "l \<in> entryOf entry f" if "surely_held local sites l f" for l
    using that
  proof (induction rule: surely_held.induct)
    case (1 s0 f)
    have "f \<in> fst ` set inc" using conjunct2 [OF assms(2) [unfolded incoming_ok_def]] 1(1,2) by blast
    then obtain cs where cs: "(f, cs) \<in> set inc" by force
    have set: "set cs = {site \<in> sites. dc_calleeFunctionId site = f}"
      using conjunct1 [OF assms(2) [unfolded incoming_ok_def], THEN bspec, OF cs] by simp
    have "l \<in> localLocks local site \<or> l \<in> entryOf entry (dc_callerFunctionId site)" if "site \<in> set cs" for site
      using 1(4) [of site] that unfolding set by blast
    then have "l \<in> fromCallers local entry cs" using 1(3) by (simp add: fromCallers_def)
    moreover have "settledCallee local entry (f, cs)" using assms(3) cs by blast
    ultimately show ?case by (simp add: settledCallee_def)
  qed
  moreover have "surely_held local sites l f" if "l \<in> entryOf entry f" for l using assms(1) that unfolding entry_inv_def by blast
  ultimately show ?thesis by blast
qed

lemma propagateLoop_exact:
  assumes "entry_inv local sites entry" "incoming_ok sites inc" "finite (lock_names local sites)"
  shows "\<exists>entry'. propagateLoop local inc entry = Some entry' \<and> (\<forall>f. entryOf entry' f = {l. surely_held local sites l f})"
  using assms(1)
proof (induction "entry_rank local sites (fst ` set inc) entry" arbitrary: entry rule: less_induct)
  case less
  obtain entry' c where run: "fold (propagateCallee local) inc (entry, False) = (entry', c)" by fastforce
  have "\<forall>x \<in> set inc. fst x \<in> fst ` set inc \<and> snd x \<noteq> [] \<and> set (snd x) = {site \<in> sites. dc_calleeFunctionId site = fst x}"
    using assms(2) unfolding incoming_ok_def by blast
  note round = round_inv [OF less.prems this _ assms(3) run]
  show ?case
  proof (cases c)
    case True
    then show ?thesis
      using less.hyps [of entry'] round run propagateLoop.simps [of local inc entry] by simp
  next
    case False
    then have same: "\<forall>f. entryOf entry' f = entryOf entry f" "\<forall>x \<in> set inc. settledCallee local entry x" using round by auto
    then have "\<forall>f. entryOf entry' f = {l. surely_held local sites l f}"
      using settled_surely_held [OF less.prems assms(2)] by simp
    then show ?thesis using False run propagateLoop.simps [of local inc entry] by simp
  qed
qed

section \<open>The whole pass\<close>

lemma incoming_calls_ok:
  "incoming_ok (set (filter (\<lambda>site. callerOf module site \<noteq> None) sites)) (incomingCallsByCallee module sites)"
proof -
  let ?sites = "filter (\<lambda>site. callerOf module site \<noteq> None) sites" and ?inc = "incomingCallsByCallee module sites"
  have inv: "umap_inv ?inc" unfolding incomingCallsByCallee_def by (rule um.inv_fold [OF um.inv_empty])
  have keys: "fst ` set ?inc = dc_calleeFunctionId ` set ?sites"
    unfolding incomingCallsByCallee_def um.keys_fold [OF um.inv_empty] by simp
  have group: "map_of ?inc f = (let g = filter (\<lambda>site. dc_calleeFunctionId site = f) ?sites in if g = [] then None else Some g)" for f
    unfolding incomingCallsByCallee_def by (rule umap_group)
  have "snd x = filter (\<lambda>site. dc_calleeFunctionId site = fst x) ?sites \<and> snd x \<noteq> []" if "x \<in> set ?inc" for x
  proof -
    have "map_of ?inc (fst x) = Some (snd x)" using map_of_is_SomeI [of ?inc "fst x" "snd x"] that inv by (simp add: umap_inv_def)
    then show ?thesis using group [of "fst x"] by (auto simp: Let_def split: if_splits)
  qed
  then show ?thesis unfolding incoming_ok_def using keys by fastforce
qed

lemma localHeldLocks_returns:
  assumes "list_all (\<lambda>f. fn_isDeclaration f \<or> wf_function f) fs" "\<forall>locks \<in> ran acc. finite locks"
  shows "\<exists>local. localHeldLocks tracker module sites fs acc = Some local \<and> (\<forall>locks \<in> ran local. finite locks)"
  using assms
proof (induction fs arbitrary: acc)
  case (Cons f fs)
  show ?case
  proof (cases "fn_isDeclaration f \<or> trackedCalls module sites f = {}")
    case False
    then have wf: "wf_function f" using Cons.prems(1) by simp
    obtain held where held: "collectHeldLocks tracker f (trackedCalls module sites f) = Some held"
      using held_locks_noted [OF wf] by blast
    have "finite locks" if "locks \<in> ran (noteHeld held acc)" for locks
      using that Cons.prems(2) held_locks_finite [OF wf held] unfolding ran_def noteHeld_def by (auto split: option.splits)
    then show ?thesis using Cons.IH [of "noteHeld held acc"] Cons.prems(1) False held by auto
  qed (use Cons in simp)
qed simp

text \<open>A chain of calls that starts in a function nothing calls.\<close>

inductive call_chain :: "DirectCallSite set \<Rightarrow> DirectCallSite list \<Rightarrow> string \<Rightarrow> bool" for sites where
  root: "(\<And>site. site \<in> sites \<Longrightarrow> dc_calleeFunctionId site \<noteq> r) \<Longrightarrow> call_chain sites [] r"
| call: "call_chain sites chain (dc_callerFunctionId site) \<Longrightarrow> site \<in> sites \<Longrightarrow> call_chain sites (chain @ [site]) (dc_calleeFunctionId site)"

inductive_cases surely_heldE: "surely_held local sites l f"

lemma surely_held_chain:
  "call_chain sites chain f \<Longrightarrow> surely_held local sites l f \<Longrightarrow> \<exists>site \<in> set chain. l \<in> localLocks local site"
proof (induction rule: call_chain.induct)
  case (root r)
  then show ?case by (auto elim: surely_heldE)
next
  case (call chain site)
  from call.prems have "l \<in> localLocks local site \<or> surely_held local sites l (dc_callerFunctionId site)"
    by (rule surely_heldE) (use call.hyps(2) in blast)
  then show ?case using call.IH by auto
qed

lemma initialEntryLocks_empty: "entryOf (initialEntryLocks module) f = {}"
proof -
  have "entryOf (fold (\<lambda>f. umap_update (fn_id f) (\<lambda>r. case r of Some locks \<Rightarrow> locks | None \<Rightarrow> {})) fs m) f = {}"
    if "\<And>f. entryOf m f = {}" for fs :: "'a Function list" and m
    using that
  proof (induction fs arbitrary: m)
    case (Cons g fs)
    have "entryOf (umap_update (fn_id g) (\<lambda>r. case r of Some locks \<Rightarrow> locks | None \<Rightarrow> {}) m) f = {}" for f
      using Cons.prems [of f] Cons.prems [of "fn_id g"] by (simp add: umap_lookup_update)
    then show ?case using Cons.IH by simp
  qed simp
  then show ?thesis by (simp add: initialEntryLocks_def)
qed

lemma effective_noted:
  "fold (noteEffective local entry) sites acc =
     (\<lambda>call. case acc call of Some locks \<Rightarrow> Some locks
        | None \<Rightarrow> map_option (effectiveLocks local entry) (find (\<lambda>site. dc_call site = Some call) sites))"
  by (induction sites arbitrary: acc) (auto simp: noteEffective_def fun_eq_iff split: option.splits)

abbreviation bodyCalls :: "'v Module \<Rightarrow> DirectCallSite list \<Rightarrow> DirectCallSite set" where
  "bodyCalls module sites \<equiv> set (filter (\<lambda>site. callerOf module site \<noteq> None) sites)"

lemma propagated_locks:
  assumes "list_all (\<lambda>f. fn_isDeclaration f \<or> wf_function f) module"
    and "mset (arrange (incomingCallsByCallee module sites)) = mset (incomingCallsByCallee module sites)"
  shows "\<exists>result local. propagateLocks arrange tracker module sites = Some result \<and>
    localHeldLocks tracker module sites module Map.empty = Some local \<and>
    (\<forall>f. entryOf (lp_entryLocksByFunction result) f = {l. surely_held local (bodyCalls module sites) l f}) \<and>
    lp_effectiveHeldLocksByCall result =
      (\<lambda>call. map_option (effectiveLocks local (lp_entryLocksByFunction result)) (find (\<lambda>site. dc_call site = Some call) sites))"
proof -
  let ?sites = "bodyCalls module sites" and ?inc = "incomingCallsByCallee module sites"
  obtain local where local: "localHeldLocks tracker module sites module Map.empty = Some local" "\<forall>locks \<in> ran local. finite locks"
    using localHeldLocks_returns [OF assms(1), of Map.empty tracker module sites] by auto
  have "finite (localLocks local site)" for site
    using local(2) by (auto simp: localLocks_def ran_def bind_eq_Some_conv split: option.splits)
  then have fin: "finite (lock_names local ?sites)" by (simp add: lock_names_def)
  have "set (arrange ?inc) = set ?inc" using assms(2) by (rule mset_eq_setD)
  then have ok: "incoming_ok ?sites (arrange ?inc)" using incoming_calls_ok [of module sites] by (simp add: incoming_ok_def)
  have "entry_inv local ?sites (initialEntryLocks module)" by (simp add: entry_inv_def initialEntryLocks_empty)
  then obtain entry where "propagateLoop local (arrange ?inc) (initialEntryLocks module) = Some entry"
    "\<forall>f. entryOf entry f = {l. surely_held local ?sites l f}"
    using propagateLoop_exact [OF _ ok fin] by blast
  then show ?thesis using local(1) by (auto simp: propagateLocks_def effective_noted)
qed

section \<open>A callee under a lock\<close>

text \<open>The function \<open>f\<close> takes a lock and calls \<open>g\<close>.\<close>

definition call_of :: "nat \<Rightarrow> string \<Rightarrow> nat Instruction" where
  "call_of a callee =
     \<lparr>in_address = a,
      in_call = Some \<lparr>ca_kind = CK_Unknown, ca_directCallee = Some \<lparr>fr_id = callee, fr_isDeclaration = False\<rparr>, ca_calledFunction = Some callee,
        ca_args = [], ca_targetsRecursiveLock = False, ca_adoptsHeldLocks = False\<rparr>,
      in_loweredLocation = no_location, in_userLocation = no_location\<rparr>"

definition one_block :: "string \<Rightarrow> nat Instruction list \<Rightarrow> nat Function" where
  "one_block name is = \<lparr>fn_id = name, fn_isDeclaration = False, fn_args = [], fn_blocks = [plain_block is []]\<rparr>"

definition locked_call :: "nat Module" where
  "locked_call = [one_block ''f'' [lock_call 0 0, call_of 1 ''g''], one_block ''g'' [plain_access 2]]"

lemma one_block_wf: "distinct (map in_address is) \<Longrightarrow> wf_function (one_block name is)"
  by (auto simp: wf_function_def one_block_def plain_block_def fn_instructions_def intro: cfg_path.entry)

lemma one_block_held:
  assumes "distinct (map in_address (pre @ i # post))" "collectHeldLocks tracker (one_block name (pre @ i # post)) tracked = Some held"
    and "in_address i \<in> tracked"
  shows "held (in_address i) =
    Some (runLocks (collectFunctionLockEffects (one_block name (pre @ i # post)) (scopeResolver tracker (one_block name (pre @ i # post)))) pre {})"
proof -
  let ?f = "one_block name (pre @ i # post)" and ?e = "collectFunctionLockEffects (one_block name (pre @ i # post)) (scopeResolver tracker (one_block name (pre @ i # post)))"
  have wf: "wf_function ?f" using assms(1) by (rule one_block_wf)
  have path: "held_on_path ?f T {} 0 s \<longleftrightarrow> s = {}" for T s
    by (subst held_on_path.simps) (auto simp: one_block_def plain_block_def)
  have b: "0 < length (fn_blocks ?f)" "bb_instructions (block ?f 0) = pre @ i # post" by (simp_all add: one_block_def plain_block_def)
  note split = held_on_every_run_split [OF wf b cfg_path.entry, of ?e]
  have "held_on_all_paths ?f (blockLocks ?f ?e) {} 0 = {}" unfolding held_on_all_paths_def path by auto
  then have "held_on_every_run ?f ?e (in_address i) = runLocks ?e pre {}" using split(1) by simp
  moreover have "held a = (if a \<in> tracked \<and> (\<exists>s. held_before ?f ?e a s) then Some (held_on_every_run ?f ?e a) else None)" for a
    using held_locks_noted [OF wf, of tracker tracked] assms(2) unfolding Let_def by auto
  ultimately show ?thesis using split(2) assms(3) by simp
qed

lemma locked_call_sites:
  "collectDirectCallSites locked_call =
     [\<lparr>dc_call = Some 1, dc_callerFunctionId = ''f'', dc_calleeFunctionId = ''g'', dc_loweredLocation = no_location,
       dc_userLocation = no_location, dc_insideLoop = False\<rparr>]" (is "_ = [?site]")
  by (simp add: collectDirectCallSites_def callSitesOf_def locked_call_def one_block_def plain_block_def directCallSite_def lock_call_def
    call_of_def plain_access_def)

lemma locked_call_caller: "bodyCalls locked_call (collectDirectCallSites locked_call) = set (collectDirectCallSites locked_call)"
  unfolding locked_call_sites
  by (simp add: callerOf_def locked_call_def one_block_def plain_block_def fn_instructions_def lock_call_def call_of_def)

lemma locked_call_local:
  assumes "localHeldLocks two_locks locked_call (collectDirectCallSites locked_call) locked_call Map.empty = Some local"
  shows "local 1 = Some {''a''}"
proof -
  let ?f = "one_block ''f'' [lock_call 0 0, call_of 1 ''g'']" and ?g = "one_block ''g'' [plain_access 2]"
  have tracked: "trackedCalls locked_call (collectDirectCallSites locked_call) ?f = {1}"
    "trackedCalls locked_call (collectDirectCallSites locked_call) ?g = {}"
    unfolding locked_call_sites
    by (simp_all add: trackedCalls_def callerOf_def locked_call_def one_block_def plain_block_def fn_instructions_def lock_call_def call_of_def)
  have decl: "\<not> fn_isDeclaration ?f" by (simp add: one_block_def)
  have module: "locked_call = [?f, ?g]" by (simp add: locked_call_def)
  obtain held where held: "collectHeldLocks two_locks ?f {1} = Some held" "local = noteHeld held Map.empty"
    using assms decl tracked
    by (subst (asm) (3) module) (auto split: option.splits if_splits)
  have "held (in_address (call_of 1 ''g'')) = Some (runLocks (collectFunctionLockEffects ?f (scopeResolver two_locks ?f)) [lock_call 0 0] {})"
    using one_block_held [of "[lock_call 0 0]" "call_of 1 ''g''" "[]" two_locks "''f''" "{1}" held] held(1)
    by (simp add: lock_call_def call_of_def)
  also have "runLocks (collectFunctionLockEffects ?f (scopeResolver two_locks ?f)) [lock_call 0 0] {} = {''a''}"
    by (simp add: runLocks_def changeLocks_def lockStateChangeFor_def collectFunctionLockEffects_def fn_instructions_def one_block_def
      plain_block_def lock_call_def call_of_def addInstruction_def resolve_def lockIdOf_def orElse_def scopeResolver_def two_locks_def
      bindGuard_def new_effect_def applyEffect_def no_change_def summarizedEffects_def)
  finally show ?thesis using held(2) by (simp add: noteHeld_def call_of_def)
qed

section \<open>What is surely held, by the chains of calls\<close>

text \<open>One function calls another without holding the lock itself.\<close>

definition unlocked_call :: "held_by_access \<Rightarrow> DirectCallSite set \<Rightarrow> string \<Rightarrow> string \<Rightarrow> string \<Rightarrow> bool" where
  "unlocked_call local sites l g f \<longleftrightarrow>
     (\<exists>site \<in> sites. dc_callerFunctionId site = g \<and> dc_calleeFunctionId site = f \<and> l \<notin> localLocks local site)"

text \<open>
  A function is exposed when a chain of such calls leads to it from a function nothing calls, or from one
  that calls itself through such calls: the sets start out empty and only grow, so a lock that a recursion
  merely passes on is never found.
\<close>

definition exposed :: "held_by_access \<Rightarrow> DirectCallSite set \<Rightarrow> string \<Rightarrow> string \<Rightarrow> bool" where
  "exposed local sites l f \<longleftrightarrow>
     (\<exists>g. (unlocked_call local sites l)\<^sup>*\<^sup>* g f \<and>
        (g \<notin> dc_calleeFunctionId ` sites \<or> (unlocked_call local sites l)\<^sup>+\<^sup>+ g g))"

lemma surely_held_not_exposed: "surely_held local sites l f \<Longrightarrow> \<not> exposed local sites l f"
proof (induction rule: surely_held.induct)
  case (1 s0 f)
  let ?u = "unlocked_call local sites l"
  have caller: "\<not> exposed local sites l h" if "?u h f" for h
    using that 1(4) by (auto simp: unlocked_call_def)
  have below: "g \<in> dc_calleeFunctionId ` sites \<and> \<not> ?u\<^sup>+\<^sup>+ g g" if "?u\<^sup>*\<^sup>* g f" for g
  proof (cases "g = f")
    case True
    have False if "?u\<^sup>+\<^sup>+ f f"
    proof -
      from that obtain h where h: "?u\<^sup>*\<^sup>* f h" "?u h f" by (cases rule: tranclp.cases) (auto intro: tranclp_into_rtranclp)
      from h(2,1) have "?u\<^sup>+\<^sup>+ h h" by (rule rtranclp_into_tranclp2)
      then show False using caller [OF h(2)] unfolding exposed_def by blast
    qed
    then show ?thesis using 1(1,2) True by blast
  next
    case False
    from that False obtain h where "?u\<^sup>*\<^sup>* g h" "?u h f" by (cases rule: rtranclp.cases) auto
    then show ?thesis using caller unfolding exposed_def by blast
  qed
  then show ?case unfolding exposed_def by blast
qed

lemma not_exposed_surely_held:
  assumes "finite sites" "\<not> namesParameter l" "\<not> exposed local sites l f"
  shows "surely_held local sites l f"
proof -
  let ?u = "unlocked_call local sites l"
  define r where "r = {(g, h). ?u g h \<and> ?u\<^sup>*\<^sup>* h f}"
  have "r \<subseteq> (\<lambda>site. (dc_callerFunctionId site, dc_calleeFunctionId site)) ` sites"
    by (auto simp: r_def unlocked_call_def)
  then have "finite r" using assms(1) finite_surj by blast
  moreover have "acyclic r"
  proof (rule acyclicI, intro allI notI)
    fix g assume "(g, g) \<in> r\<^sup>+"
    moreover have "r \<subseteq> {(g, h). ?u g h}" by (auto simp: r_def)
    ultimately have "?u\<^sup>+\<^sup>+ g g" "?u\<^sup>*\<^sup>* g f"
      by (auto simp: tranclp_unfold r_def dest: trancl_mono tranclD2)
    then show False using assms(3) unfolding exposed_def by blast
  qed
  ultimately have "wf r" by (rule finite_acyclic_wf)
  then have "?u\<^sup>*\<^sup>* h f \<longrightarrow> surely_held local sites l h" for h
  proof (induction h)
    case (less h)
    show ?case
    proof
      assume h: "?u\<^sup>*\<^sup>* h f"
      then obtain s0 where s0: "s0 \<in> sites" "dc_calleeFunctionId s0 = h" using assms(3) by (auto simp: exposed_def)
      have "l \<in> localLocks local site \<or> surely_held local sites l (dc_callerFunctionId site)"
        if "site \<in> sites" "dc_calleeFunctionId site = h" for site
      proof (rule disjCI)
        assume "\<not> surely_held local sites l (dc_callerFunctionId site)"
        then have "(dc_callerFunctionId site, h) \<notin> r \<or> \<not> ?u\<^sup>*\<^sup>* (dc_callerFunctionId site) f" using less.IH by blast
        then have "\<not> ?u (dc_callerFunctionId site) h" using h by (auto simp: r_def intro: converse_rtranclp_into_rtranclp)
        then show "l \<in> localLocks local site" using that by (auto simp: unlocked_call_def)
      qed
      then show "surely_held local sites l h" using s0 assms(2) surely_held.intros by metis
    qed
  qed
  then show ?thesis by blast
qed

lemma surely_held_iff:
  assumes "finite sites"
  shows "surely_held local sites l f \<longleftrightarrow> \<not> namesParameter l \<and> \<not> exposed local sites l f"
  using surely_held_not_exposed not_exposed_surely_held [OF assms] by (blast elim: surely_heldE)

section \<open>The locks a function may assume\<close>

text \<open>
  C9: For a module of well-formed functions the propagation returns, whatever the order of the map it walks. The locks it gives a
  function on entry are those of the least solution of the rule ``each of the calls of the function, of which there is one, holds the
  lock in the caller or has a caller that has it on entry'', locks named after a parameter left out. In terms of chains: a lock is given
  exactly when no chain of calls that do not hold it leads to the function from one that nothing calls or from one that calls itself
  through such calls, so a lock that a recursion only passes on is lost; and every chain of calls from a function nothing calls has a
  call that holds each lock given. At a call it gives the locks held there together with those its caller has on entry.
\<close>

theorem entry_locks_exact:
  assumes "list_all (\<lambda>f. fn_isDeclaration f \<or> wf_function f) module"
    and "mset (arrange (incomingCallsByCallee module sites)) = mset (incomingCallsByCallee module sites)"
  shows "\<exists>result local. propagateLocks arrange tracker module sites = Some result \<and>
    localHeldLocks tracker module sites module Map.empty = Some local \<and>
    (\<forall>f. entryOf (lp_entryLocksByFunction result) f = {l. surely_held local (bodyCalls module sites) l f}) \<and>
    (\<forall>f. entryOf (lp_entryLocksByFunction result) f =
       {l. \<not> namesParameter l \<and> \<not> exposed local (bodyCalls module sites) l f}) \<and>
    (\<forall>chain f. call_chain (bodyCalls module sites) chain f \<longrightarrow>
       entryOf (lp_entryLocksByFunction result) f \<subseteq> \<Union> (localLocks local ` set chain)) \<and>
    lp_effectiveHeldLocksByCall result =
      (\<lambda>call. map_option (effectiveLocks local (lp_entryLocksByFunction result)) (find (\<lambda>site. dc_call site = Some call) sites))"
proof -
  obtain result local where r: "propagateLocks arrange tracker module sites = Some result"
    "localHeldLocks tracker module sites module Map.empty = Some local"
    "\<forall>f. entryOf (lp_entryLocksByFunction result) f = {l. surely_held local (bodyCalls module sites) l f}"
    "lp_effectiveHeldLocksByCall result =
      (\<lambda>call. map_option (effectiveLocks local (lp_entryLocksByFunction result)) (find (\<lambda>site. dc_call site = Some call) sites))"
    using propagated_locks [where arrange = arrange and sites = sites and tracker = tracker, OF assms] by blast
  have chains: "\<forall>chain f. call_chain (bodyCalls module sites) chain f \<longrightarrow>
      entryOf (lp_entryLocksByFunction result) f \<subseteq> \<Union> (localLocks local ` set chain)"
    unfolding r(3) [rule_format] using surely_held_chain [of "bodyCalls module sites" _ _ local] by blast
  have "\<forall>f. entryOf (lp_entryLocksByFunction result) f =
      {l. \<not> namesParameter l \<and> \<not> exposed local (bodyCalls module sites) l f}"
    unfolding r(3) [rule_format] by (simp add: surely_held_iff del: set_filter)
  with r chains show ?thesis by (intro exI conjI)
qed

theorem entry_locks_exact_witness:
  "\<exists>result. propagateLocks rev two_locks locked_call (collectDirectCallSites locked_call) = Some result \<and>
     entryOf (lp_entryLocksByFunction result) ''g'' = {''a''} \<and> entryOf (lp_entryLocksByFunction result) ''f'' = {}"
proof -
  have wf: "list_all (\<lambda>f. fn_isDeclaration f \<or> wf_function f) locked_call"
    by (simp add: locked_call_def one_block_wf lock_call_def call_of_def)
  obtain result local where r: "propagateLocks rev two_locks locked_call (collectDirectCallSites locked_call) = Some result"
    "localHeldLocks two_locks locked_call (collectDirectCallSites locked_call) locked_call Map.empty = Some local"
    "\<forall>f. entryOf (lp_entryLocksByFunction result) f = {l. surely_held local (set (collectDirectCallSites locked_call)) l f}"
    using entry_locks_exact [OF wf, of rev "collectDirectCallSites locked_call" two_locks] unfolding locked_call_caller by auto
  have local: "localLocks local site = {''a''}" if "site \<in> set (collectDirectCallSites locked_call)" for site
    using that locked_call_local [OF r(2)] by (auto simp: locked_call_sites localLocks_def)
  have "surely_held local (set (collectDirectCallSites locked_call)) l ''f'' \<longleftrightarrow> False" for l
    by (subst surely_held.simps) (auto simp: locked_call_sites)
  moreover have "surely_held local (set (collectDirectCallSites locked_call)) l ''g'' \<longleftrightarrow> l = ''a''" for l
  proof -
    have "\<not> namesParameter ''a''" by code_simp
    moreover have "\<not> surely_held local (set (collectDirectCallSites locked_call)) l ''f''" by (subst surely_held.simps) (auto simp: locked_call_sites)
    ultimately show ?thesis using local by (subst surely_held.simps) (auto simp: locked_call_sites)
  qed
  ultimately show ?thesis using r(1,3) by (intro exI [of _ result]) simp
qed

end
