(* ===== verification/Lock_Wrappers.thy ===== *)
theory Lock_Wrappers
  imports Lock_Scope
begin

text \<open>
  What a function does to a lock it is given as an argument: \<open>collectLockWrapperSummaries\<close> of
  \<open>analysis/lock_wrapper_summaries.cpp\<close>. LLVM's dominator tree answers \<open>dominates a b\<close>, whether the instruction at address \<open>a\<close>
  dominates the terminator of block \<open>b\<close>.
\<close>

section \<open>The summaries\<close>

definition kMaxRounds :: nat where
  "kMaxRounds = 4"

definition parameterPlaceholder :: "nat \<Rightarrow> string" where
  "parameterPlaceholder argumentIndex = ''%arg'' @ to_string_nat argumentIndex"

record NetEffect =
  ne_acquisition :: "nat option"
  ne_release :: "nat option"
  ne_recursiveLock :: bool
  ne_acquisitionCount :: nat
  ne_releaseCount :: nat

definition no_effect :: NetEffect where
  "no_effect = \<lparr>ne_acquisition = None, ne_release = None, ne_recursiveLock = False, ne_acquisitionCount = 0, ne_releaseCount = 0\<rparr>"

definition acquiring :: "LockEffectKind \<Rightarrow> bool" where
  "acquiring kind \<longleftrightarrow> kind = LE_Acquire \<or> kind = LE_TryAcquire \<or> kind = LE_GuardAcquire"

definition countEffect :: "string \<Rightarrow> nat \<Rightarrow> LockEffect \<Rightarrow> NetEffect \<Rightarrow> NetEffect" where
  "countEffect placeholder instruction effect net =
     (if placeholder \<notin> set (le_lockIds effect) then net
      else if acquiring (le_kind effect)
      then net\<lparr>ne_acquisition := Some instruction, ne_acquisitionCount := ne_acquisitionCount net + 1,
               ne_recursiveLock := ne_recursiveLock net \<or> le_recursiveLock effect\<rparr>
      else net\<lparr>ne_release := Some instruction, ne_releaseCount := ne_releaseCount net + 1\<rparr>)"

definition countEffects :: "string \<Rightarrow> FunctionLockEffects \<Rightarrow> NetEffect" where
  "countEffects placeholder effects =
     fold (\<lambda>(instruction, instructionEffects). fold (countEffect placeholder instruction) instructionEffects)
       (fe_effectsByInstruction effects) no_effect"

definition netEffectOnParameter ::
  "'v Function \<Rightarrow> nat \<Rightarrow> FunctionLockEffects \<Rightarrow> (nat \<Rightarrow> nat \<Rightarrow> bool) \<Rightarrow> ParameterLockEffect option" where
  "netEffectOnParameter f argumentIndex effects dominates =
     (let net = countEffects (parameterPlaceholder argumentIndex) effects
      in if ne_acquisitionCount net + ne_releaseCount net \<noteq> 1 then None
         else
           (case (case ne_acquisition net of Some a \<Rightarrow> Some a | None \<Rightarrow> ne_release net) of
              None \<Rightarrow> None
            | Some effectSite \<Rightarrow>
                if list_all (\<lambda>b. bb_returns (block f b) \<longrightarrow> dominates effectSite b) [0 ..< length (fn_blocks f)]
                then Some \<lparr>pe_argumentIndex = argumentIndex, pe_acquires = (ne_acquisition net \<noteq> None),
                           pe_recursiveLock = ne_recursiveLock net\<rparr>
                else None))"

type_synonym wrapper_summaries = "(string \<times> ParameterLockEffect list) list"

definition summaryResolver :: "'v LockNaming \<Rightarrow> wrapper_summaries \<Rightarrow> 'v Resolver" where
  "summaryResolver naming summaries =
     \<lparr>rs_naming = naming, rs_summaries = Some (map_of summaries), rs_nameParameterLocks = True, rs_sharedObject = None,
      rs_localObjects = None, rs_nameParameterFieldLocks = False\<rparr>"

definition parameterEffects :: "'v Function \<Rightarrow> FunctionLockEffects \<Rightarrow> (nat \<Rightarrow> nat \<Rightarrow> bool) \<Rightarrow> ParameterLockEffect list" where
  "parameterEffects f effects dominates =
     List.map_filter (\<lambda>i. if \<not> fn_args f ! i then None else netEffectOnParameter f i effects dominates) [0 ..< length (fn_args f)]"

definition summarizeFunction ::
  "'v LockNaming \<Rightarrow> (string \<Rightarrow> nat \<Rightarrow> nat \<Rightarrow> bool) \<Rightarrow> wrapper_summaries \<Rightarrow> 'v Function \<Rightarrow> wrapper_summaries \<Rightarrow> wrapper_summaries" where
  "summarizeFunction naming dominates summaries f discovered =
     (if fn_isDeclaration f \<or> fn_args f = [] then discovered
      else
        (let effects = collectFunctionLockEffects f (summaryResolver naming summaries)
         in if fe_effectsByInstruction effects = [] then discovered
            else
              (let parameterEffects = parameterEffects f effects (dominates (fn_id f))
               in if parameterEffects = [] then discovered
                  else if map_of discovered (fn_id f) = None then discovered @ [(fn_id f, parameterEffects)]
                  else discovered)))"

definition discover :: "'v LockNaming \<Rightarrow> (string \<Rightarrow> nat \<Rightarrow> nat \<Rightarrow> bool) \<Rightarrow> 'v Function list \<Rightarrow> wrapper_summaries \<Rightarrow> wrapper_summaries" where
  "discover naming dominates module summaries = fold (summarizeFunction naming dominates summaries) module []"

text \<open>Equality of two maps keyed by hash.\<close>

definition sameSummaries :: "wrapper_summaries \<Rightarrow> wrapper_summaries \<Rightarrow> bool" where
  "sameSummaries lhs rhs \<longleftrightarrow> length lhs = length rhs \<and> list_all (\<lambda>(k, v). map_of rhs k = Some v) lhs"

fun summaryRounds ::
  "nat \<Rightarrow> 'v LockNaming \<Rightarrow> (string \<Rightarrow> nat \<Rightarrow> nat \<Rightarrow> bool) \<Rightarrow> 'v Function list \<Rightarrow> wrapper_summaries \<Rightarrow> wrapper_summaries" where
  "summaryRounds 0 naming dominates module summaries = summaries"
| "summaryRounds (Suc rounds) naming dominates module summaries =
     (let discovered = discover naming dominates module summaries
      in if sameSummaries discovered summaries then summaries
         else summaryRounds rounds naming dominates module discovered)"

definition collectLockWrapperSummaries ::
  "'v LockNaming \<Rightarrow> (string \<Rightarrow> nat \<Rightarrow> nat \<Rightarrow> bool) \<Rightarrow> 'v Function list \<Rightarrow> wrapper_summaries" where
  "collectLockWrapperSummaries naming dominates module = summaryRounds kMaxRounds naming dominates module []"

section \<open>Counting the effects\<close>

text \<open>The effects that name a lock, with their instructions.\<close>

definition naming_effects :: "string \<Rightarrow> FunctionLockEffects \<Rightarrow> (nat \<times> LockEffect) list" where
  "naming_effects l effects =
     filter (\<lambda>(i, e). l \<in> set (le_lockIds e)) (concat (map (\<lambda>(i, es). map (Pair i) es) (fe_effectsByInstruction effects)))"

lemma fold_concat_effects:
  "fold (\<lambda>(i, es). fold (g i) es) xs acc = fold (\<lambda>(i, e). g i e) (concat (map (\<lambda>(i, es). map (Pair i) es) xs)) acc"
  by (induction xs arbitrary: acc) (auto simp: fold_map comp_def)

lemma fold_skip: "(\<And>x acc. \<not> P x \<Longrightarrow> g x acc = acc) \<Longrightarrow> fold g xs acc = fold g (filter P xs) acc"
  by (induction xs arbitrary: acc) auto

lemma countEffects_alt: "countEffects l effects = fold (\<lambda>(i, e). countEffect l i e) (naming_effects l effects) no_effect"
  unfolding countEffects_def naming_effects_def fold_concat_effects
  by (rule fold_skip) (auto simp: countEffect_def)

lemma counted:
  assumes "\<forall>(i, e) \<in> set xs. l \<in> set (le_lockIds e)"
  shows "ne_acquisitionCount (fold (\<lambda>(i, e). countEffect l i e) xs net) + ne_releaseCount (fold (\<lambda>(i, e). countEffect l i e) xs net) =
    length xs + ne_acquisitionCount net + ne_releaseCount net"
  using assms by (induction xs arbitrary: net) (auto simp: countEffect_def)

lemma netEffect_single:
  assumes "netEffectOnParameter f i effects dominates = Some p"
  obtains a e where "naming_effects (parameterPlaceholder i) effects = [(a, e)]" "pe_acquires p = acquiring (le_kind e)" "pe_argumentIndex p = i"
    "\<forall>b < length (fn_blocks f). bb_returns (block f b) \<longrightarrow> dominates a b"
proof -
  let ?l = "parameterPlaceholder i"
  let ?net = "countEffects ?l effects"
  have all: "\<forall>(i, e) \<in> set (naming_effects ?l effects). ?l \<in> set (le_lockIds e)" by (auto simp: naming_effects_def)
  have one: "ne_acquisitionCount ?net + ne_releaseCount ?net = 1"
    using assms by (auto simp: netEffectOnParameter_def Let_def split: if_splits)
  then have "length (naming_effects ?l effects) = 1"
    using counted [OF all, of no_effect] unfolding countEffects_alt by (simp add: no_effect_def)
  then obtain a e where ae: "naming_effects ?l effects = [(a, e)]" by (metis One_nat_def length_0_conv length_Suc_conv surj_pair)
  then have net: "?net = countEffect ?l a e no_effect" unfolding countEffects_alt by simp
  have named: "?l \<in> set (le_lockIds e)" using all ae by simp
  show thesis
    by (rule that [OF ae])
      (use assms net named in \<open>auto simp: netEffectOnParameter_def Let_def countEffect_def no_effect_def list_all_iff split: if_splits\<close>)
qed

section \<open>What an instruction does to a lock\<close>

definition boundLocks :: "FunctionLockEffects \<Rightarrow> string \<Rightarrow> string list" where
  "boundLocks effects guardId = (case fe_guardBindings effects guardId of Some bound \<Rightarrow> bound | None \<Rightarrow> [])"

lemma fold_applyEffect:
  "l \<in> set (lc_acquired (fold (applyEffect effects) es c)) \<longleftrightarrow>
     l \<in> set (lc_acquired c) \<or> (\<exists>e \<in> set es. acquiring (le_kind e) \<and> l \<in> set (le_lockIds e))"
  "l \<in> set (lc_released (fold (applyEffect effects) es c)) \<longleftrightarrow>
     l \<in> set (lc_released c) \<or> (\<exists>e \<in> set es. le_kind e = LE_Release \<and> l \<in> set (le_lockIds e) \<or>
       le_kind e = LE_GuardRelease \<and> l \<in> set (boundLocks effects (le_guardId e)))"
proof -
  have acq: "set (lc_acquired (applyEffect effects e c)) = set (lc_acquired c) \<union> (if acquiring (le_kind e) then set (le_lockIds e) else {})" for e c
    by (cases "le_kind e") (auto simp: applyEffect_def acquiring_def Let_def split: option.splits)
  have rel: "set (lc_released (applyEffect effects e c)) = set (lc_released c) \<union>
      (if le_kind e = LE_Release then set (le_lockIds e) else if le_kind e = LE_GuardRelease then set (boundLocks effects (le_guardId e)) else {})" for e c
    by (cases "le_kind e") (auto simp: applyEffect_def boundLocks_def Let_def split: option.splits)
  show "l \<in> set (lc_acquired (fold (applyEffect effects) es c)) \<longleftrightarrow>
     l \<in> set (lc_acquired c) \<or> (\<exists>e \<in> set es. acquiring (le_kind e) \<and> l \<in> set (le_lockIds e))"
    by (induction es arbitrary: c) (auto simp: acq)
  show "l \<in> set (lc_released (fold (applyEffect effects) es c)) \<longleftrightarrow>
     l \<in> set (lc_released c) \<or> (\<exists>e \<in> set es. le_kind e = LE_Release \<and> l \<in> set (le_lockIds e) \<or>
       le_kind e = LE_GuardRelease \<and> l \<in> set (boundLocks effects (le_guardId e)))"
    by (induction es arbitrary: c) (auto simp: rel split: if_splits)
qed

text \<open>The effects collected for a well-formed function.\<close>

definition instruction_effects :: "'v Resolver \<Rightarrow> 'v Instruction \<Rightarrow> LockEffect list" where
  "instruction_effects rs i = (case in_call i of None \<Rightarrow> [] | Some call \<Rightarrow> resolve rs call)"

lemma collected_effects:
  "fe_effectsByInstruction (collectFunctionLockEffects f rs) =
     map (\<lambda>i. (in_address i, instruction_effects rs i)) (filter (\<lambda>i. instruction_effects rs i \<noteq> []) (fn_instructions f))"
proof -
  have "fe_effectsByInstruction (fold (addInstruction rs) is e) =
      fe_effectsByInstruction e @ map (\<lambda>i. (in_address i, instruction_effects rs i)) (filter (\<lambda>i. instruction_effects rs i \<noteq> []) is)" for "is" e
    by (induction "is" arbitrary: e) (auto simp: addInstruction_def instruction_effects_def Let_def split: option.splits)
  then show ?thesis by (simp add: collectFunctionLockEffects_def)
qed

lemma lookup_effects:
  assumes "wf_function f" "i \<in> set (fn_instructions f)"
  shows "lockStateChangeFor i (collectFunctionLockEffects f rs) =
    fold (applyEffect (collectFunctionLockEffects f rs)) (instruction_effects rs i) no_change"
proof -
  let ?es = "fe_effectsByInstruction (collectFunctionLockEffects f rs)"
  have dist: "distinct (map in_address (fn_instructions f))" using assms(1) by (simp add: wf_function_def)
  have keys: "distinct (map fst ?es)"
    unfolding collected_effects using dist by (simp add: comp_def distinct_map inj_on_def)
  have eq: "j = i" if "j \<in> set (fn_instructions f)" "in_address j = in_address i" for j
    using dist that assms(2) by (simp add: distinct_map inj_on_def)
  have "map_of ?es (in_address i) = (if instruction_effects rs i = [] then None else Some (instruction_effects rs i))"
  proof (cases "instruction_effects rs i = []")
    case True
    then have "in_address i \<notin> fst ` set ?es" unfolding collected_effects using eq by auto
    then show ?thesis using True by (simp add: map_of_eq_None_iff)
  next
    case False
    then have "(in_address i, instruction_effects rs i) \<in> set ?es" unfolding collected_effects using assms(2) by auto
    then show ?thesis using keys False by simp
  qed
  then show ?thesis by (simp add: lockStateChangeFor_def)
qed

lemma guard_release_names_none: "e \<in> set (resolve rs call) \<Longrightarrow> le_kind e = LE_GuardRelease \<Longrightarrow> le_lockIds e = []"
proof -
  have plain: "plainLockEffect k \<noteq> Some LE_GuardRelease" for k by (cases k) simp_all
  have guard: "le_kind (fold (guardOperand rs call) vs e) = le_kind e" for vs e
    by (induction vs arbitrary: e) (auto simp: guardOperand_def split: option.splits)
  show "e \<in> set (resolve rs call) \<Longrightarrow> le_kind e = LE_GuardRelease \<Longrightarrow> le_lockIds e = []"
    using plain [of "ca_kind call"]
    by (auto simp: resolve_def summarizedEffects_def summarizedEffect_def Let_def guard new_effect_def split: if_splits option.splits)
qed

section \<open>A summary holds on every way out\<close>

inductive cfg_trace :: "'v Function \<Rightarrow> nat list \<Rightarrow> bool" for f where
  entry: "cfg_trace f [0]"
| step: "cfg_trace f (bs @ [p]) \<Longrightarrow> b < length (fn_blocks f) \<Longrightarrow> p \<in> set (bb_predecessors (block f b)) \<Longrightarrow> cfg_trace f (bs @ [p, b])"

definition trace_instructions :: "'v Function \<Rightarrow> nat list \<Rightarrow> 'v Instruction list" where
  "trace_instructions f bs = concat (map (\<lambda>b. bb_instructions (block f b)) bs)"

lemma trace_blocks:
  assumes "cfg_trace f bs" "wf_function f"
  shows "set (trace_instructions f bs) \<subseteq> set (fn_instructions f)"
proof -
  have "set bs \<subseteq> {..< length (fn_blocks f)}"
    using assms(1) by induction (use assms(2) in \<open>auto simp: wf_function_def\<close>)
  then have "block f b \<in> set (fn_blocks f)" if "b \<in> set bs" for b using that by auto
  then show ?thesis unfolding trace_instructions_def fn_instructions_def by force
qed

text \<open>What the dominator tree promises: an instruction that dominates a block's end stands on every way there.\<close>

definition dominance_ok :: "'v Function \<Rightarrow> (nat \<Rightarrow> nat \<Rightarrow> bool) \<Rightarrow> bool" where
  "dominance_ok f dominates \<longleftrightarrow>
     (\<forall>a bs. cfg_trace f bs \<and> dominates a (last bs) \<longrightarrow> a \<in> in_address ` set (trace_instructions f bs))"

definition guards_release :: "FunctionLockEffects \<Rightarrow> string \<Rightarrow> bool" where
  "guards_release effects l \<longleftrightarrow>
     list_ex (\<lambda>(i, es). list_ex (\<lambda>e. le_kind e = LE_GuardRelease \<and> l \<in> set (boundLocks effects (le_guardId e))) es) (fe_effectsByInstruction effects)"

lemma single_effect_run:
  assumes acq: "\<And>i. i \<in> set is \<Longrightarrow> in_address i = a \<Longrightarrow>
      l \<in> set (lc_acquired (lockStateChangeFor i effects)) \<longleftrightarrow> acquires" 
    and rel: "\<And>i. i \<in> set is \<Longrightarrow> in_address i = a \<Longrightarrow> \<not> acquires \<Longrightarrow> l \<in> set (lc_released (lockStateChangeFor i effects))"
    and rest: "\<And>i. i \<in> set is \<Longrightarrow> in_address i \<noteq> a \<Longrightarrow>
      l \<notin> set (lc_acquired (lockStateChangeFor i effects)) \<and> l \<notin> set (lc_released (lockStateChangeFor i effects))"
    and here: "a \<in> in_address ` set is"
  shows "l \<in> runLocks effects is s \<longleftrightarrow> acquires"
  using assms
proof (induction "is" rule: rev_induct)
  case (snoc i "is")
  have last: "runLocks effects (is @ [i]) s = changeLocks (lockStateChangeFor i effects) (runLocks effects is s)" by (simp add: runLocks_def)
  show ?case
  proof (cases "in_address i = a")
    case True
    then show ?thesis using snoc.prems(1) [of i] snoc.prems(2) [of i] unfolding last changeLocks_def by auto
  next
    case False
    then have "l \<in> runLocks effects is s \<longleftrightarrow> acquires" using snoc.prems by (intro snoc.IH) auto
    then show ?thesis using snoc.prems(3) [of i] False unfolding last changeLocks_def by auto
  qed
qed simp

lemma net_effect_sound:
  assumes wf: "wf_function f" and dom: "dominance_ok f dominates"
    and net: "netEffectOnParameter f n (collectFunctionLockEffects f rs) dominates = Some p"
    and guards: "\<not> guards_release (collectFunctionLockEffects f rs) (parameterPlaceholder n)"
    and bs: "cfg_trace f bs" "last bs < length (fn_blocks f)" "bb_returns (block f (last bs))"
  shows "parameterPlaceholder n \<in> runLocks (collectFunctionLockEffects f rs) (trace_instructions f bs) E \<longleftrightarrow> pe_acquires p"
proof -
  let ?l = "parameterPlaceholder n" and ?effects = "collectFunctionLockEffects f rs"
  obtain a e where single: "naming_effects ?l ?effects = [(a, e)]" and acquires: "pe_acquires p = acquiring (le_kind e)"
    and "\<forall>b < length (fn_blocks f). bb_returns (block f b) \<longrightarrow> dominates a b" using netEffect_single [OF net] by blast
  then have here: "a \<in> in_address ` set (trace_instructions f bs)" using dom bs unfolding dominance_ok_def by blast
  have sub: "set (trace_instructions f bs) \<subseteq> set (fn_instructions f)" by (rule trace_blocks [OF bs(1) wf])
  have named: "in_address i = a \<and> e' = e" if "i \<in> set (fn_instructions f)" "e' \<in> set (instruction_effects rs i)" "?l \<in> set (le_lockIds e')" for i e'
  proof -
    have "(in_address i, e') \<in> set (naming_effects ?l ?effects)"
      using that unfolding naming_effects_def collected_effects by force
    then show ?thesis unfolding single by simp
  qed
  have unguarded: "?l \<notin> set (boundLocks ?effects (le_guardId e'))"
    if "i \<in> set (fn_instructions f)" "e' \<in> set (instruction_effects rs i)" "le_kind e' = LE_GuardRelease" for i e'
    using guards that unfolding guards_release_def collected_effects by (force simp: list_ex_iff)
  have effect: "e \<in> set (instruction_effects rs i) \<and> ?l \<in> set (le_lockIds e)" if "i \<in> set (fn_instructions f)" "in_address i = a" for i
  proof -
    have "(a, e) \<in> set (naming_effects ?l ?effects)" using single by simp
    then obtain j where j: "j \<in> set (fn_instructions f)" "in_address j = a" "e \<in> set (instruction_effects rs j)" "?l \<in> set (le_lockIds e)"
      unfolding naming_effects_def collected_effects by auto
    moreover have "j = i" using wf that j(1,2) by (auto simp: wf_function_def distinct_map inj_on_def)
    ultimately show ?thesis by simp
  qed
  show ?thesis
    unfolding acquires
  proof (rule single_effect_run [OF _ _ _ here])
    fix i assume "i \<in> set (trace_instructions f bs)"
    then have i: "i \<in> set (fn_instructions f)" using sub by blast
    note change = fold_applyEffect [of ?l ?effects "instruction_effects rs i" no_change, folded lookup_effects [OF wf i]]
    have acq: "?l \<in> set (lc_acquired (lockStateChangeFor i ?effects)) \<longleftrightarrow> (\<exists>e' \<in> set (instruction_effects rs i). acquiring (le_kind e') \<and> ?l \<in> set (le_lockIds e'))"
      using change(1) by (simp add: no_change_def)
    have rel: "?l \<in> set (lc_released (lockStateChangeFor i ?effects)) \<longleftrightarrow> (\<exists>e' \<in> set (instruction_effects rs i). le_kind e' = LE_Release \<and> ?l \<in> set (le_lockIds e'))"
      using change(2) unguarded [OF i] by (auto simp: no_change_def)
    show "in_address i = a \<Longrightarrow> ?l \<in> set (lc_acquired (lockStateChangeFor i ?effects)) \<longleftrightarrow> acquiring (le_kind e)"
      unfolding acq using effect [OF i] named [OF i] by blast
    show "?l \<in> set (lc_released (lockStateChangeFor i ?effects))" if "in_address i = a" "\<not> acquiring (le_kind e)"
    proof -
      have "le_kind e \<noteq> LE_GuardRelease"
        using effect [OF i that(1)] guard_release_names_none unfolding instruction_effects_def by (force split: option.splits)
      then have "le_kind e = LE_Release" using that(2) by (cases "le_kind e") (simp_all add: acquiring_def)
      then show ?thesis unfolding rel using effect [OF i that(1)] by blast
    qed
    show "in_address i \<noteq> a \<Longrightarrow> ?l \<notin> set (lc_acquired (lockStateChangeFor i ?effects)) \<and> ?l \<notin> set (lc_released (lockStateChangeFor i ?effects))"
      unfolding acq rel using named [OF i] by blast
  qed
qed

lemma discovered_summary:
  assumes "(name, ps) \<in> set (discover naming dominates module prev)"
  shows "\<exists>f \<in> set module. fn_id f = name \<and> \<not> fn_isDeclaration f \<and>
    ps = parameterEffects f (collectFunctionLockEffects f (summaryResolver naming prev)) (dominates name)"
proof -
  have one: "(name, ps) \<in> set acc \<or> fn_id f = name \<and> \<not> fn_isDeclaration f \<and>
      ps = parameterEffects f (collectFunctionLockEffects f (summaryResolver naming prev)) (dominates name)"
    if "(name, ps) \<in> set (summarizeFunction naming dominates prev f acc)" for f acc
    using that by (auto simp: summarizeFunction_def Let_def split: if_splits)
  have "(name, ps) \<in> set acc \<or> (\<exists>f \<in> set fs. fn_id f = name \<and> \<not> fn_isDeclaration f \<and>
      ps = parameterEffects f (collectFunctionLockEffects f (summaryResolver naming prev)) (dominates name))"
    if "(name, ps) \<in> set (fold (summarizeFunction naming dominates prev) fs acc)" for fs acc
    using that
  proof (induction fs arbitrary: acc)
    case (Cons f fs)
    then show ?case using Cons.IH [of "summarizeFunction naming dominates prev f acc"] one [of f acc] by auto
  qed simp
  then show ?thesis using assms unfolding discover_def by fastforce
qed

text \<open>What is known after some rounds, each over what the one before it found.\<close>

abbreviation knownAfter :: "nat \<Rightarrow> 'v LockNaming \<Rightarrow> (string \<Rightarrow> nat \<Rightarrow> nat \<Rightarrow> bool) \<Rightarrow> 'v Function list \<Rightarrow> wrapper_summaries \<Rightarrow> wrapper_summaries" where
  "knownAfter rounds naming dominates module s \<equiv> (discover naming dominates module ^^ rounds) s"

lemma summary_of_round:
  "x \<in> set (summaryRounds n naming dominates module s) \<Longrightarrow>
   x \<in> set s \<or> (\<exists>rounds < n. x \<in> set (discover naming dominates module (knownAfter rounds naming dominates module s)))"
proof (induction n arbitrary: s)
  case (Suc n)
  let ?d = "discover naming dominates module"
  have "x \<in> set s \<or> x \<in> set (summaryRounds n naming dominates module (?d s))"
    using Suc.prems by (auto simp: Let_def split: if_splits)
  then consider "x \<in> set s" | "x \<in> set (?d s)" | rounds where "rounds < n" "x \<in> set (?d ((?d ^^ rounds) (?d s)))"
    using Suc.IH by blast
  then show ?case
  proof cases
    case (3 rounds)
    then have "Suc rounds < Suc n" "x \<in> set (?d ((?d ^^ Suc rounds) s))" by (simp_all add: funpow_swap1)
    then show ?thesis by blast
  qed (use zero_less_Suc [of n] in \<open>force+\<close>)
qed simp

section \<open>Wrappers around a lock\<close>

text \<open>A function that takes the lock it is given, and one that only guards its body with it.\<close>

definition parameter_naming :: "nat LockNaming" where
  "parameter_naming =
     \<lparr>ln_canonicalLockId = (\<lambda>_. None), ln_canonicalStorageGroupId = (\<lambda>v. Some ''guard''),
      ln_localObjectLockId = (\<lambda>_ _. None), ln_objectFieldLockId = (\<lambda>_ _ _. None), ln_parameterFieldLockId = (\<lambda>_. None),
      ln_parameterLockId = (\<lambda>v. if v = 0 then Some ''%arg0'' else None), ln_designatesRecursiveLockType = (\<lambda>_. False), ln_isPointer = (\<lambda>_. True)\<rparr>"

definition call_with :: "nat \<Rightarrow> CallKind \<Rightarrow> nat list \<Rightarrow> nat Instruction" where
  "call_with a kind vs =
     \<lparr>in_address = a,
      in_call = Some \<lparr>ca_kind = kind, ca_directCallee = None, ca_calledFunction = None, ca_args = vs,
        ca_targetsRecursiveLock = False, ca_adoptsHeldLocks = False\<rparr>,
      in_loweredLocation = no_location, in_userLocation = no_location\<rparr>"

definition wrapper :: "nat Instruction list \<Rightarrow> nat Function" where
  "wrapper is = \<lparr>fn_id = ''take'', fn_isDeclaration = False, fn_args = [True],
     fn_blocks = [(plain_block is [])\<lparr>bb_returns := True\<rparr>]\<rparr>"

lemmas wrapper_defs = parameter_naming_def call_with_def wrapper_def plain_block_def fn_instructions_def collectFunctionLockEffects_def
  addInstruction_def resolve_def lockIdOf_def orElse_def summaryResolver_def new_effect_def bindGuard_def guardOperand_def

definition taken :: "nat Function" where
  "taken = wrapper [call_with 0 CK_PThreadMutexLock [0]]"

definition guarded :: "nat Function" where
  "guarded = wrapper [call_with 0 CK_StdLockGuardCtor [1, 0], call_with 1 CK_StdLockGuardDtor [1]]"

lemma wrapper_trace: "cfg_trace (wrapper is) bs \<Longrightarrow> bs = [0]"
  by (induction rule: cfg_trace.induct) (auto simp: wrapper_def plain_block_def)

lemma taken_ok: "wf_function taken" "dominance_ok taken (\<lambda>a b. a = 0)"
proof -
  show "wf_function taken"
    by (auto simp: wf_function_def taken_def wrapper_def plain_block_def fn_instructions_def intro: cfg_path.entry)
  show "dominance_ok taken (\<lambda>a b. a = 0)"
    unfolding dominance_ok_def taken_def
    by (auto dest!: wrapper_trace) (simp add: trace_instructions_def wrapper_def plain_block_def call_with_def)
qed

text \<open>
  The release by a guard's destructor names no lock, so it is not counted: a function that guards its body with the lock of its
  caller is summarised as leaving it held, though no run holds it at the end.
\<close>

lemma guarded_parameter_left_held:
  "collectLockWrapperSummaries parameter_naming (\<lambda>_ _ _. True) [guarded] =
     [(''take'', [\<lparr>pe_argumentIndex = 0, pe_acquires = True, pe_recursiveLock = False\<rparr>])]"
  "''%arg0'' \<notin> runLocks (collectFunctionLockEffects guarded (summaryResolver parameter_naming [])) (fn_instructions guarded) {}"
  by code_simp+

text \<open>
  C22: Each effect a summary records comes from a function of that name in the module, as read with the summaries known after some earlier round, of which there
  are at most \<open>kMaxRounds\<close>: unless a guard of the function releases the parameter's lock, every run of it from its entry to a return ends with that lock held
  when the summary says it acquires and not held when it says it releases, whatever is held at the entry. The dominator tree is taken to answer what it stands
  for. A guard on the parameter is not covered, and \<open>guarded_parameter_left_held\<close> shows that its summary is wrong.
\<close>

theorem wrapper_summary_sound:
  assumes "(name, ps) \<in> set (collectLockWrapperSummaries naming dominates module)" "p \<in> set ps"
    and "list_all (\<lambda>f. fn_isDeclaration f \<or> wf_function f \<and> dominance_ok f (dominates (fn_id f))) module"
  shows "\<exists>f \<in> set module. \<exists>rounds < kMaxRounds. fn_id f = name \<and>
    (let effects = collectFunctionLockEffects f (summaryResolver naming (knownAfter rounds naming dominates module []));
         l = parameterPlaceholder (pe_argumentIndex p)
     in guards_release effects l \<or>
        (\<forall>bs E. cfg_trace f bs \<and> last bs < length (fn_blocks f) \<and> bb_returns (block f (last bs)) \<longrightarrow>
           (l \<in> runLocks effects (trace_instructions f bs) E \<longleftrightarrow> pe_acquires p)))"
proof -
  obtain rounds where rounds: "rounds < kMaxRounds" "(name, ps) \<in> set (discover naming dominates module (knownAfter rounds naming dominates module []))"
    using summary_of_round [of "(name, ps)" kMaxRounds naming dominates module "[]"] assms(1)
    unfolding collectLockWrapperSummaries_def by auto
  let ?prev = "knownAfter rounds naming dominates module []"
  obtain f where f: "f \<in> set module" "fn_id f = name" "\<not> fn_isDeclaration f"
    and ps: "ps = parameterEffects f (collectFunctionLockEffects f (summaryResolver naming ?prev)) (dominates name)"
    using discovered_summary [OF rounds(2)] by blast
  obtain n where net: "netEffectOnParameter f n (collectFunctionLockEffects f (summaryResolver naming ?prev)) (dominates name) = Some p"
    using assms(2) unfolding ps parameterEffects_def by (auto simp: List.map_filter_def split: if_splits)
  have n: "pe_argumentIndex p = n" using netEffect_single [OF net] by blast
  have ok: "wf_function f" "dominance_ok f (dominates name)" using assms(3) f by (auto simp: list_all_iff)
  show ?thesis using net_effect_sound [OF ok net] f(1,2) n rounds(1) unfolding Let_def by blast
qed

lemma taken_unguarded:
  "list_all (\<lambda>rounds. \<not> guards_release (collectFunctionLockEffects taken (summaryResolver parameter_naming
      (knownAfter rounds parameter_naming (\<lambda>_ a b. a = 0) [taken] []))) (parameterPlaceholder 0)) [0 ..< kMaxRounds]"
  by code_simp

theorem wrapper_summary_sound_witness:
  "\<exists>rounds < kMaxRounds. list_all (\<lambda>E. parameterPlaceholder 0 \<in>
      runLocks (collectFunctionLockEffects taken (summaryResolver parameter_naming (knownAfter rounds parameter_naming (\<lambda>_ a b. a = 0) [taken] [])))
        (trace_instructions taken [0]) E) [{}, {''a''}]"
proof -
  let ?p = "\<lparr>pe_argumentIndex = 0, pe_acquires = True, pe_recursiveLock = False\<rparr>"
  let ?effects = "\<lambda>rounds. collectFunctionLockEffects taken (summaryResolver parameter_naming (knownAfter rounds parameter_naming (\<lambda>_ a b. a = 0) [taken] []))"
  have "collectLockWrapperSummaries parameter_naming (\<lambda>_ a b. a = 0) [taken] = [(''take'', [?p])]" by code_simp
  then have "(''take'', [?p]) \<in> set (collectLockWrapperSummaries parameter_naming (\<lambda>_ a b. a = 0) [taken])" by simp
  note sound = wrapper_summary_sound [OF this, of ?p]
  have exits: "cfg_trace taken [0] \<and> last [0 :: nat] < length (fn_blocks taken) \<and> bb_returns (block taken (last [0]))"
    by (simp add: cfg_trace.entry) (simp add: taken_def wrapper_def plain_block_def)
  obtain rounds where rounds: "rounds < kMaxRounds" "guards_release (?effects rounds) (parameterPlaceholder 0) \<or>
      (\<forall>bs E. cfg_trace taken bs \<and> last bs < length (fn_blocks taken) \<and> bb_returns (block taken (last bs)) \<longrightarrow>
        parameterPlaceholder 0 \<in> runLocks (?effects rounds) (trace_instructions taken bs) E)"
    using sound taken_ok unfolding Let_def by auto
  moreover have "\<not> guards_release (?effects rounds) (parameterPlaceholder 0)" using taken_unguarded rounds(1) by (simp add: list_all_iff)
  ultimately show ?thesis using exits by (intro exI [of _ rounds]) auto
qed

end
