(* ===== verification/Back_Propagation.thy ===== *)
theory Back_Propagation
  imports Call_Graph
begin

text \<open>
  Several passes carry something backwards along the direct calls, from callee to caller, until nothing changes: unsafe calls to the
  signal handlers (\<open>analysis/signal_handler_collector.cpp\<close>), an exec to the forks and the duty to loop around a wait to the outermost
  caller (both in \<open>analysis/tu_facts_builder.cpp\<close>). They differ in what they keep, which the locale \<open>carried_back\<close> abstracts.
\<close>

definition carryCall ::
  "('s \<Rightarrow> string \<Rightarrow> bool) \<Rightarrow> (DirectCallSite \<Rightarrow> bool) \<Rightarrow> (DirectCallSite \<Rightarrow> 's \<Rightarrow> 's) \<Rightarrow> DirectCallSite \<Rightarrow> 's \<times> bool \<Rightarrow> 's \<times> bool" where
  "carryCall has eligible add site st =
     (let (s, changed) = st
      in if eligible site \<and> has s (dc_calleeFunctionId site) \<and> \<not> has s (dc_callerFunctionId site) then (add site s, True) else st)"

partial_function (option) carryBack ::
  "('s \<Rightarrow> string \<Rightarrow> bool) \<Rightarrow> (DirectCallSite \<Rightarrow> bool) \<Rightarrow> (DirectCallSite \<Rightarrow> 's \<Rightarrow> 's) \<Rightarrow> DirectCallSite list \<Rightarrow> 's \<Rightarrow> 's option" where
  "carryBack has eligible add sites s =
     (let (s, changed) = fold (carryCall has eligible add) sites (s, False)
      in if changed then carryBack has eligible add sites s else Some s)"

declare carryBack.simps [code]

definition calls_along :: "(DirectCallSite \<Rightarrow> bool) \<Rightarrow> DirectCallSite list \<Rightarrow> string \<Rightarrow> string \<Rightarrow> bool" where
  "calls_along eligible sites f g \<longleftrightarrow> (\<exists>site \<in> set sites. eligible site \<and> dc_callerFunctionId site = f \<and> dc_calleeFunctionId site = g)"

locale carried_back =
  fixes has :: "'s \<Rightarrow> string \<Rightarrow> bool" and add :: "DirectCallSite \<Rightarrow> 's \<Rightarrow> 's"
  assumes has_add: "has s (dc_calleeFunctionId site) \<Longrightarrow> has (add site s) f \<longleftrightarrow> has s f \<or> f = dc_callerFunctionId site"
begin

definition missing :: "DirectCallSite list \<Rightarrow> 's \<Rightarrow> nat" where
  "missing sites s = card {f \<in> dc_callerFunctionId ` set sites. \<not> has s f}"

text \<open>What a state that came from \<open>s0\<close> satisfies.\<close>

definition carried :: "(DirectCallSite \<Rightarrow> bool) \<Rightarrow> DirectCallSite list \<Rightarrow> 's \<Rightarrow> 's \<Rightarrow> bool" where
  "carried eligible sites s0 s \<longleftrightarrow>
     (\<forall>f. has s0 f \<longrightarrow> has s f) \<and> (\<forall>f. has s f \<longrightarrow> (\<exists>g. has s0 g \<and> (calls_along eligible sites)\<^sup>*\<^sup>* f g))"

lemma carried_refl: "carried eligible sites s s"
  by (auto simp: carried_def)

lemma carried_call:
  assumes "carried eligible sites s0 s" "site \<in> set sites" "eligible site" "has s (dc_calleeFunctionId site)"
  shows "carried eligible sites s0 (add site s)"
proof -
  have "calls_along eligible sites (dc_callerFunctionId site) (dc_calleeFunctionId site)"
    using assms(2,3) by (auto simp: calls_along_def)
  then show ?thesis using assms(1,4) unfolding carried_def has_add [OF assms(4)]
    by (metis (no_types, opaque_lifting) converse_rtranclp_into_rtranclp)
qed

lemma round_spec:
  assumes "set ss \<subseteq> set sites" "carried eligible sites s0 s" "P s"
    and P: "\<And>site s. P s \<Longrightarrow> site \<in> set sites \<Longrightarrow> eligible site \<Longrightarrow> has s (dc_calleeFunctionId site) \<Longrightarrow> \<not> has s (dc_callerFunctionId site) \<Longrightarrow> P (add site s)"
    and "fold (carryCall has eligible add) ss (s, c) = (s', c')"
  shows "carried eligible sites s0 s' \<and> P s' \<and> missing sites s' \<le> missing sites s \<and> (c' \<longrightarrow> c \<or> missing sites s' < missing sites s) \<and>
    (\<not> c' \<longrightarrow> \<not> c \<and> s' = s \<and> (\<forall>site \<in> set ss. eligible site \<and> has s (dc_calleeFunctionId site) \<longrightarrow> has s (dc_callerFunctionId site)))"
  using assms(1-3,5)
proof (induction ss arbitrary: s c)
  case (Cons site ss)
  have sub: "site \<in> set sites" "set ss \<subseteq> set sites" using Cons.prems(1) by auto
  show ?case
  proof (cases "eligible site \<and> has s (dc_calleeFunctionId site) \<and> \<not> has s (dc_callerFunctionId site)")
    case True
    then have "carryCall has eligible add site (s, c) = (add site s, True)" by (simp add: carryCall_def)
    then have step: "fold (carryCall has eligible add) ss (add site s, True) = (s', c')" using Cons.prems(4) by simp
    have "{f \<in> dc_callerFunctionId ` set sites. \<not> has (add site s) f} \<subset> {f \<in> dc_callerFunctionId ` set sites. \<not> has s f}"
      using True sub(1) by (auto simp: has_add)
    then have less: "missing sites (add site s) < missing sites s" unfolding missing_def by (intro psubset_card_mono) auto
    have "carried eligible sites s0 (add site s)" "P (add site s)"
      using carried_call [OF Cons.prems(2) sub(1)] P [OF Cons.prems(3) sub(1)] True by auto
    then show ?thesis using Cons.IH [OF sub(2) _ _ step] less by auto
  next
    case False
    then have "carryCall has eligible add site (s, c) = (s, c)" by (auto simp: carryCall_def)
    then have "fold (carryCall has eligible add) ss (s, c) = (s', c')" using Cons.prems(4) by simp
    then show ?thesis using Cons.IH [OF sub(2) Cons.prems(2,3)] False by auto
  qed
qed auto

theorem carryBack_exact:
  assumes "P s" "\<And>site s. P s \<Longrightarrow> site \<in> set sites \<Longrightarrow> eligible site \<Longrightarrow> has s (dc_calleeFunctionId site) \<Longrightarrow> \<not> has s (dc_callerFunctionId site) \<Longrightarrow> P (add site s)"
  shows "\<exists>s'. carryBack has eligible add sites s = Some s' \<and> P s' \<and>
    (\<forall>f. has s' f \<longleftrightarrow> (\<exists>g. has s g \<and> (calls_along eligible sites)\<^sup>*\<^sup>* f g))"
proof -
  have "\<exists>s'. carryBack has eligible add sites t = Some s' \<and> P s' \<and> (\<forall>f. has s' f \<longleftrightarrow> (\<exists>g. has s g \<and> (calls_along eligible sites)\<^sup>*\<^sup>* f g))"
    if "carried eligible sites s t" "P t" for t
    using that
  proof (induction "missing sites t" arbitrary: t rule: less_induct)
    case less
    obtain t' c where run: "fold (carryCall has eligible add) sites (t, False) = (t', c)" by fastforce
    note spec = round_spec [OF subset_refl less.prems assms(2) run]
    show ?case
    proof (cases c)
      case True
      then show ?thesis using less.hyps [of t'] spec run carryBack.simps [of has eligible add sites t] by simp
    next
      case False
      then have closed: "has t (dc_callerFunctionId site)" if "site \<in> set sites" "eligible site" "has t (dc_calleeFunctionId site)" for site
        using spec that by blast
      have "has t f" if "(calls_along eligible sites)\<^sup>*\<^sup>* f g" "has t g" for f g
        using that by (induction rule: converse_rtranclp_induct) (auto simp: calls_along_def intro: closed)
      then have "has t f \<longleftrightarrow> (\<exists>g. has s g \<and> (calls_along eligible sites)\<^sup>*\<^sup>* f g)" for f
        using less.prems(1) unfolding carried_def by blast
      then show ?thesis using False spec run less.prems(2) carryBack.simps [of has eligible add sites t] by simp
    qed
  qed
  then show ?thesis using carried_refl assms(1) by blast
qed

end

text \<open>The two containers the passes keep: a set of functions, and a map from functions to a fact.\<close>

definition addCaller :: "DirectCallSite \<Rightarrow> string set \<Rightarrow> string set" where
  "addCaller site functions = insert (dc_callerFunctionId site) functions"

interpretation carried_set: carried_back "\<lambda>s f. f \<in> s" addCaller
  by unfold_locales (auto simp: addCaller_def)

definition emplaceCaller :: "(DirectCallSite \<Rightarrow> 'a \<Rightarrow> 'a) \<Rightarrow> DirectCallSite \<Rightarrow> (string \<times> 'a) list \<Rightarrow> (string \<times> 'a) list" where
  "emplaceCaller inherit site m =
     (case map_of m (dc_calleeFunctionId site) of
        None \<Rightarrow> m
      | Some v \<Rightarrow> if map_of m (dc_callerFunctionId site) = None then m @ [(dc_callerFunctionId site, inherit site v)] else m)"

interpretation carried_map: carried_back "\<lambda>m f. map_of m f \<noteq> None" "emplaceCaller inherit" for inherit
  by unfold_locales (auto simp: emplaceCaller_def map_add_def split: option.splits)

end
