(* ===== verification/Collectors.thy ===== *)
theory Collectors
  imports Back_Propagation "HOL-Library.Multiset"
begin

text \<open>
  The facts about condition waits, processes and signal handlers: the collectors of \<open>analysis/condition_wait_collector.cpp\<close>,
  \<open>analysis/process_lifecycle_collector.cpp\<close> and \<open>analysis/signal_handler_collector.cpp\<close>, and what \<open>analysis/tu_facts_builder.cpp\<close> makes of
  the first two. What the classifier answers about a call beyond its kind, and which places are the user's own, are arguments.
\<close>

section \<open>Condition waits\<close>

definition conditionWait :: "'v Function \<Rightarrow> 'v Block \<Rightarrow> 'v Instruction \<Rightarrow> ConditionWaitFact list" where
  "conditionWait f b instruction =
     (case in_call instruction of
        None \<Rightarrow> []
      | Some call \<Rightarrow>
          if ca_kind call \<noteq> CK_CondWaitWithoutPredicate then []
          else [\<lparr>cw_functionId = fn_id f, cw_location = in_userLocation instruction, cw_loweredLocation = in_loweredLocation instruction,
                 cw_guardedByLoop = bb_inLoop b, cw_viaHelper = False\<rparr>])"

definition collectConditionWaits :: "'v Module \<Rightarrow> ConditionWaitFact list" where
  "collectConditionWaits module =
     concat (map (\<lambda>f. if fn_isDeclaration f then []
       else concat (map (\<lambda>b. if \<not> bb_isReachable b then [] else concat (map (conditionWait f b) (bb_instructions b))) (fn_blocks f))) module)"

type_synonym waits = "(string \<times> ConditionWaitFact) list"

definition noteUnguarded :: "ConditionWaitFact \<Rightarrow> waits \<Rightarrow> waits" where
  "noteUnguarded wait m = (if cw_guardedByLoop wait \<or> map_of m (cw_functionId wait) \<noteq> None then m else m @ [(cw_functionId wait, wait)])"

definition inheritWait :: "DirectCallSite \<Rightarrow> ConditionWaitFact \<Rightarrow> ConditionWaitFact" where
  "inheritWait site wait =
     wait\<lparr>cw_functionId := dc_callerFunctionId site, cw_location := dc_userLocation site, cw_viaHelper := True\<rparr>"

abbreviation carries :: "(string \<times> 'a) list \<Rightarrow> string \<Rightarrow> bool" where
  "carries m f \<equiv> map_of m f \<noteq> None"

definition spreadWaits :: "DirectCallSite list \<Rightarrow> waits \<Rightarrow> waits option" where
  "spreadWaits = carryBack carries (\<lambda>site. \<not> dc_insideLoop site) (emplaceCaller inheritWait)"

definition answeredByACaller :: "DirectCallSite list \<Rightarrow> waits \<Rightarrow> string \<Rightarrow> bool" where
  "answeredByACaller sites m f \<longleftrightarrow>
     (let called = filter (\<lambda>site. dc_calleeFunctionId site = f \<and> carries m f) sites;
          outside = filter (\<lambda>site. \<not> dc_insideLoop site) called
      in list_ex (\<lambda>site. carries m (dc_callerFunctionId site)) outside \<or> called \<noteq> [] \<and> outside = [])"

definition wait_order :: "ConditionWaitFact \<Rightarrow> string \<times> nat \<times> nat \<times> string" where
  "wait_order wait = (sl_file (cw_location wait), sl_line (cw_location wait), sl_column (cw_location wait), cw_functionId wait)"

definition buildConditionWaits ::
  "(waits \<Rightarrow> waits) \<Rightarrow> (SourceLocation \<Rightarrow> bool) \<Rightarrow> 'v Module \<Rightarrow> DirectCallSite list \<Rightarrow> ConditionWaitFact list option" where
  "buildConditionWaits arrange userLocation module sites =
     map_option
       (\<lambda>m. sort_key wait_order
          (map snd (filter (\<lambda>(f, wait). \<not> answeredByACaller sites m f \<and> userLocation (cw_location wait)) (arrange m))))
       (spreadWaits sites (fold noteUnguarded (collectConditionWaits module) []))"

section \<open>Processes\<close>

record ProcessLifecycleCollection =
  pc_forks :: "ProcessForkFact list"
  pc_reapsChildren :: bool
  pc_functionsReachingExec :: "string set"

definition collectProcessCall ::
  "('v Instruction \<Rightarrow> bool) \<Rightarrow> 'v Function \<Rightarrow> 'v Instruction \<Rightarrow> ProcessLifecycleCollection \<Rightarrow> ProcessLifecycleCollection" where
  "collectProcessCall leavesReaping f instruction collection =
     (case in_call instruction of
        None \<Rightarrow> collection
      | Some call \<Rightarrow>
          (case ca_kind call of
             CK_ProcessFork \<Rightarrow>
               collection\<lparr>pc_forks := pc_forks collection @
                 [\<lparr>pf_functionId = fn_id f, pf_location = in_userLocation instruction, pf_execReachable = False\<rparr>]\<rparr>
           | CK_ProcessExec \<Rightarrow> collection\<lparr>pc_functionsReachingExec := insert (fn_id f) (pc_functionsReachingExec collection)\<rparr>
           | CK_ProcessWait \<Rightarrow> collection\<lparr>pc_reapsChildren := True\<rparr>
           | _ \<Rightarrow> if leavesReaping instruction then collection\<lparr>pc_reapsChildren := True\<rparr> else collection))"

definition collectProcesses :: "('v Instruction \<Rightarrow> bool) \<Rightarrow> 'v Module \<Rightarrow> ProcessLifecycleCollection" where
  "collectProcesses leavesReaping module =
     fold (\<lambda>f. fold (collectProcessCall leavesReaping f) (fn_instructions f)) (filter (\<lambda>f. \<not> fn_isDeclaration f) module)
       \<lparr>pc_forks = [], pc_reapsChildren = False, pc_functionsReachingExec = {}\<rparr>"

definition spreadExec :: "DirectCallSite list \<Rightarrow> string set \<Rightarrow> string set option" where
  "spreadExec = carryBack (\<lambda>s f. f \<in> s) (\<lambda>_. True) addCaller"

text \<open>\<open>program\<close> is what the rest of the program answers in the second pass: whether it reaps children and creates threads.\<close>

record ProcessFacts =
  fa_reapsChildProcesses :: bool
  fa_programCreatesThreads :: bool
  fa_processForks :: "ProcessForkFact list"

definition buildProcessFacts ::
  "('v Instruction \<Rightarrow> bool) \<Rightarrow> (bool \<times> bool) option \<Rightarrow> SpawnFact list \<Rightarrow> 'v Module \<Rightarrow> DirectCallSite list \<Rightarrow> ProcessFacts option" where
  "buildProcessFacts leavesReaping program spawns module sites =
     (let processes = collectProcesses leavesReaping module
      in map_option
           (\<lambda>reachingExec.
              \<lparr>fa_reapsChildProcesses = (pc_reapsChildren processes \<or> (case program of None \<Rightarrow> False | Some (reaps, creates) \<Rightarrow> reaps)),
               fa_programCreatesThreads = (spawns \<noteq> [] \<or> (case program of None \<Rightarrow> False | Some (reaps, creates) \<Rightarrow> creates)),
               fa_processForks = map (\<lambda>fork. fork\<lparr>pf_execReachable := pf_functionId fork \<in> reachingExec\<rparr>) (pc_forks processes)\<rparr>)
           (spreadExec sites (pc_functionsReachingExec processes)))"

section \<open>Signal handlers\<close>

record UnsafeCall =
  uc_location :: SourceLocation
  uc_functionId :: string

record Installation =
  il_location :: SourceLocation
  il_handlerFunctionId :: string

record 'v SignalQueries =
  sq_installedSignalHandler :: "'v Instruction \<Rightarrow> FunctionRef option"
  sq_isAsyncSignalUnsafe :: "'v Instruction \<Rightarrow> bool"

type_synonym unsafe_calls = "(string \<times> UnsafeCall) list"

definition collectSignalCall ::
  "'v SignalQueries \<Rightarrow> 'v Function \<Rightarrow> 'v Instruction \<Rightarrow> Installation list \<times> unsafe_calls \<Rightarrow> Installation list \<times> unsafe_calls" where
  "collectSignalCall queries f instruction st =
     (let (installations, unsafeByFunction) = st
      in if in_call instruction = None then st
         else
           (case sq_installedSignalHandler queries instruction of
              Some handler \<Rightarrow>
                if \<not> fr_isDeclaration handler
                then (installations @ [\<lparr>il_location = in_userLocation instruction, il_handlerFunctionId = fr_id handler\<rparr>], unsafeByFunction)
                else if sq_isAsyncSignalUnsafe queries instruction \<and> map_of unsafeByFunction (fn_id f) = None
                then (installations, unsafeByFunction @ [(fn_id f, \<lparr>uc_location = in_userLocation instruction, uc_functionId = fn_id f\<rparr>)])
                else st
            | None \<Rightarrow>
                if sq_isAsyncSignalUnsafe queries instruction \<and> map_of unsafeByFunction (fn_id f) = None
                then (installations, unsafeByFunction @ [(fn_id f, \<lparr>uc_location = in_userLocation instruction, uc_functionId = fn_id f\<rparr>)])
                else st))"

definition spreadUnsafe :: "DirectCallSite list \<Rightarrow> unsafe_calls \<Rightarrow> unsafe_calls option" where
  "spreadUnsafe = carryBack carries (\<lambda>_. True) (emplaceCaller (\<lambda>site unsafe. unsafe))"

definition reportInstallation ::
  "unsafe_calls \<Rightarrow> Installation \<Rightarrow> SignalHandlerFact list \<times> string set \<Rightarrow> SignalHandlerFact list \<times> string set" where
  "reportInstallation unsafeByFunction installation st =
     (let (facts, reported) = st; handler = il_handlerFunctionId installation
      in case map_of unsafeByFunction handler of
           None \<Rightarrow> st
         | Some unsafe \<Rightarrow>
             if handler \<in> reported then st
             else (facts @ [\<lparr>sh_location = il_location installation, sh_handlerFunctionId = handler,
                     sh_unsafeCallLocation = uc_location unsafe, sh_unsafeCallFunctionId = uc_functionId unsafe\<rparr>],
                   insert handler reported))"

definition signalCalls :: "'v SignalQueries \<Rightarrow> 'v Module \<Rightarrow> Installation list \<times> unsafe_calls" where
  "signalCalls queries module =
     fold (\<lambda>f. fold (collectSignalCall queries f) (fn_instructions f)) (filter (\<lambda>f. \<not> fn_isDeclaration f) module) ([], [])"

definition collectSignalHandlers :: "'v SignalQueries \<Rightarrow> 'v Module \<Rightarrow> DirectCallSite list \<Rightarrow> SignalHandlerFact list option" where
  "collectSignalHandlers queries module sites =
     (let (installations, unsafeByFunction) = signalCalls queries module
      in if installations = [] \<or> unsafeByFunction = [] then Some []
         else map_option (\<lambda>unsafe. fst (fold (reportInstallation unsafe) installations ([], {}))) (spreadUnsafe sites unsafeByFunction))"

section \<open>Forks and exec\<close>

definition module_calls :: "'v Module \<Rightarrow> (string \<times> 'v Instruction \<times> 'v Call) list" where
  "module_calls module =
     concat (map (\<lambda>f. if fn_isDeclaration f then []
       else List.map_filter (\<lambda>i. map_option (\<lambda>call. (fn_id f, i, call)) (in_call i)) (fn_instructions f)) module)"

definition functions_with :: "(CallKind \<Rightarrow> bool) \<Rightarrow> 'v Module \<Rightarrow> string set" where
  "functions_with P module = {f. \<exists>i call. (f, i, call) \<in> set (module_calls module) \<and> P (ca_kind call)}"

definition collectCall :: "('v Instruction \<Rightarrow> bool) \<Rightarrow> string \<times> 'v Instruction \<times> 'v Call \<Rightarrow> ProcessLifecycleCollection \<Rightarrow> ProcessLifecycleCollection" where
  "collectCall leavesReaping x collection =
     (let (f, i, call) = x
      in \<lparr>pc_forks = pc_forks collection @ (if ca_kind call = CK_ProcessFork
            then [\<lparr>pf_functionId = f, pf_location = in_userLocation i, pf_execReachable = False\<rparr>] else []),
          pc_reapsChildren = (pc_reapsChildren collection \<or> ca_kind call = CK_ProcessWait \<or>
            ca_kind call \<noteq> CK_ProcessFork \<and> ca_kind call \<noteq> CK_ProcessExec \<and> leavesReaping i),
          pc_functionsReachingExec = pc_functionsReachingExec collection \<union> (if ca_kind call = CK_ProcessExec then {f} else {})\<rparr>)"

lemma fold_over_calls:
  assumes "\<And>f i acc. g f i acc = (case in_call i of None \<Rightarrow> acc | Some call \<Rightarrow> h (fn_id f, i, call) acc)"
  shows "fold (\<lambda>f. fold (g f) (fn_instructions f)) (filter (\<lambda>f. \<not> fn_isDeclaration f) module) acc = fold h (module_calls module) acc"
proof -
  have "fold (g f) is acc = fold h (List.map_filter (\<lambda>i. map_option (\<lambda>call. (fn_id f, i, call)) (in_call i)) is) acc" for f "is" acc
    by (induction "is" arbitrary: acc) (auto simp: assms List.map_filter_def split: option.splits)
  then show ?thesis by (induction module arbitrary: acc) (simp_all add: module_calls_def)
qed

lemma collectProcesses_calls:
  "collectProcesses leavesReaping module =
     fold (collectCall leavesReaping) (module_calls module) \<lparr>pc_forks = [], pc_reapsChildren = False, pc_functionsReachingExec = {}\<rparr>"
  unfolding collectProcesses_def
  by (rule fold_over_calls) (auto simp: collectProcessCall_def collectCall_def split: option.splits CallKind.splits)

lemma fold_collectCall:
  "pc_forks (fold (collectCall leavesReaping) xs c) =
     pc_forks c @ map (\<lambda>(f, i, call). \<lparr>pf_functionId = f, pf_location = in_userLocation i, pf_execReachable = False\<rparr>)
       (filter (\<lambda>(f, i, call). ca_kind call = CK_ProcessFork) xs)"
  "pc_functionsReachingExec (fold (collectCall leavesReaping) xs c) =
     pc_functionsReachingExec c \<union> fst ` set (filter (\<lambda>(f, i, call). ca_kind call = CK_ProcessExec) xs)"
  by (induction xs arbitrary: c) (auto simp: collectCall_def Let_def split: if_splits)

text \<open>
  C36: The facts about processes are always built: one for each fork of a function with a body, in order, marked as reaching an exec exactly
  when a chain of direct calls leads from its function to one that calls exec.
\<close>

theorem process_forks_exact:
  "\<exists>facts. buildProcessFacts leavesReaping program spawns module sites = Some facts \<and>
     fa_processForks facts =
       map (\<lambda>(f, i, call). \<lparr>pf_functionId = f, pf_location = in_userLocation i,
              pf_execReachable = (\<exists>g \<in> functions_with (\<lambda>kind. kind = CK_ProcessExec) module. (calls_along (\<lambda>_. True) sites)\<^sup>*\<^sup>* f g)\<rparr>)
         (filter (\<lambda>(f, i, call). ca_kind call = CK_ProcessFork) (module_calls module))"
proof -
  let ?execs = "pc_functionsReachingExec (collectProcesses leavesReaping module)"
  have execs: "?execs = functions_with (\<lambda>kind. kind = CK_ProcessExec) module"
    unfolding collectProcesses_calls fold_collectCall functions_with_def by force
  obtain reaching where "spreadExec sites ?execs = Some reaching"
    "\<And>f. f \<in> reaching \<longleftrightarrow> (\<exists>g \<in> functions_with (\<lambda>kind. kind = CK_ProcessExec) module. (calls_along (\<lambda>_. True) sites)\<^sup>*\<^sup>* f g)"
    using carried_set.carryBack_exact [where P = "\<lambda>_. True" and s = ?execs and sites = sites and eligible = "\<lambda>_. True"]
    unfolding spreadExec_def execs by (auto simp: Bex_def)
  then show ?thesis
    unfolding buildProcessFacts_def collectProcesses_calls [symmetric]
    by (simp add: Let_def collectProcesses_calls fold_collectCall split_def)
qed

section \<open>Handlers that make unsafe calls\<close>

definition installs :: "'v SignalQueries \<Rightarrow> 'v Instruction \<Rightarrow> FunctionRef option" where
  "installs queries i =
     (case sq_installedSignalHandler queries i of Some handler \<Rightarrow> if fr_isDeclaration handler then None else Some handler | None \<Rightarrow> None)"

definition collectSignal :: "'v SignalQueries \<Rightarrow> string \<times> 'v Instruction \<times> 'v Call \<Rightarrow> Installation list \<times> unsafe_calls \<Rightarrow> Installation list \<times> unsafe_calls" where
  "collectSignal queries x st =
     (let (f, i, call) = x; (installations, unsafe) = st
      in case installs queries i of
           Some handler \<Rightarrow> (installations @ [\<lparr>il_location = in_userLocation i, il_handlerFunctionId = fr_id handler\<rparr>], unsafe)
         | None \<Rightarrow>
             if sq_isAsyncSignalUnsafe queries i \<and> map_of unsafe f = None
             then (installations, unsafe @ [(f, \<lparr>uc_location = in_userLocation i, uc_functionId = f\<rparr>)]) else st)"

lemma signalCalls_calls: "signalCalls queries module = fold (collectSignal queries) (module_calls module) ([], [])"
  unfolding signalCalls_def
  by (rule fold_over_calls) (auto simp: collectSignalCall_def collectSignal_def installs_def split: option.splits prod.splits)

definition installed_handlers :: "'v SignalQueries \<Rightarrow> 'v Module \<Rightarrow> string set" where
  "installed_handlers queries module = fr_id ` set (List.map_filter (\<lambda>(f, i, call). installs queries i) (module_calls module))"

definition unsafe_functions :: "'v SignalQueries \<Rightarrow> 'v Module \<Rightarrow> string set" where
  "unsafe_functions queries module =
     {f. \<exists>i call. (f, i, call) \<in> set (module_calls module) \<and> installs queries i = None \<and> sq_isAsyncSignalUnsafe queries i}"

lemma fold_collectSignal:
  "il_handlerFunctionId ` set (fst (fold (collectSignal queries) xs st)) =
     il_handlerFunctionId ` set (fst st) \<union> fr_id ` set (List.map_filter (\<lambda>(f, i, call). installs queries i) xs)"
  "carries (snd (fold (collectSignal queries) xs st)) g \<longleftrightarrow>
     carries (snd st) g \<or> (\<exists>i call. (g, i, call) \<in> set xs \<and> installs queries i = None \<and> sq_isAsyncSignalUnsafe queries i)"
  "(\<And>f u. map_of (snd st) f = Some u \<Longrightarrow> uc_functionId u = f) \<Longrightarrow> map_of (snd (fold (collectSignal queries) xs st)) g = Some u \<Longrightarrow> uc_functionId u = g"
proof -
  show "il_handlerFunctionId ` set (fst (fold (collectSignal queries) xs st)) =
     il_handlerFunctionId ` set (fst st) \<union> fr_id ` set (List.map_filter (\<lambda>(f, i, call). installs queries i) xs)"
  proof (induction xs arbitrary: st)
    case (Cons x xs)
    have "il_handlerFunctionId ` set (fst (collectSignal queries x st)) =
        il_handlerFunctionId ` set (fst st) \<union> fr_id ` set (List.map_filter (\<lambda>(f, i, call). installs queries i) [x])"
      by (cases x; cases st) (auto simp: collectSignal_def List.map_filter_def split: option.splits)
    then show ?case using Cons.IH [of "collectSignal queries x st"] by (auto simp: List.map_filter_def)
  qed (simp add: List.map_filter_def)
  show "carries (snd (fold (collectSignal queries) xs st)) g \<longleftrightarrow>
     carries (snd st) g \<or> (\<exists>i call. (g, i, call) \<in> set xs \<and> installs queries i = None \<and> sq_isAsyncSignalUnsafe queries i)"
  proof (induction xs arbitrary: st)
    case (Cons x xs)
    obtain f i call where x: "x = (f, i, call)" by (cases x)
    have "carries (snd (collectSignal queries x st)) g \<longleftrightarrow> carries (snd st) g \<or> g = f \<and> installs queries i = None \<and> sq_isAsyncSignalUnsafe queries i"
      by (cases st) (auto simp: x collectSignal_def map_add_def split: option.splits)
    then show ?case using Cons.IH [of "collectSignal queries x st"] x by auto
  qed auto
  show "uc_functionId u = g" if "\<And>f u. map_of (snd st) f = Some u \<Longrightarrow> uc_functionId u = f" "map_of (snd (fold (collectSignal queries) xs st)) g = Some u"
    using that
  proof (induction xs arbitrary: st)
    case (Cons x xs)
    have "uc_functionId u = f" if "map_of (snd (collectSignal queries x st)) f = Some u" for f u
      using that Cons.prems(1) [of f u]
      by (cases x; cases st) (auto simp: collectSignal_def map_add_def split: option.splits if_splits)
    then show ?case using Cons.IH [of "collectSignal queries x st"] Cons.prems(2) by simp
  qed simp
qed

lemma fold_report:
  "fold (reportInstallation unsafe) ins (facts, reported) = (facts', reported') \<Longrightarrow>
   distinct (map sh_handlerFunctionId facts) \<Longrightarrow> set (map sh_handlerFunctionId facts) = reported \<Longrightarrow>
   (\<And>wait. wait \<in> set facts \<Longrightarrow> map_option uc_functionId (map_of unsafe (sh_handlerFunctionId wait)) = Some (sh_unsafeCallFunctionId wait)) \<Longrightarrow>
   distinct (map sh_handlerFunctionId facts') \<and>
   set (map sh_handlerFunctionId facts') = reported \<union> {il_handlerFunctionId x |x. x \<in> set ins \<and> carries unsafe (il_handlerFunctionId x)} \<and>
   (\<forall>wait \<in> set facts'. map_option uc_functionId (map_of unsafe (sh_handlerFunctionId wait)) = Some (sh_unsafeCallFunctionId wait))"
proof (induction ins arbitrary: facts reported)
  case (Cons x ins)
  obtain f1 r1 where step: "reportInstallation unsafe x (facts, reported) = (f1, r1)" by fastforce
  have "distinct (map sh_handlerFunctionId f1)" "set (map sh_handlerFunctionId f1) = r1"
    "\<And>wait. wait \<in> set f1 \<Longrightarrow> map_option uc_functionId (map_of unsafe (sh_handlerFunctionId wait)) = Some (sh_unsafeCallFunctionId wait)"
    "r1 = reported \<union> (if carries unsafe (il_handlerFunctionId x) then {il_handlerFunctionId x} else {})"
    using step Cons.prems(2-4) by (auto simp: reportInstallation_def Let_def split: option.splits if_splits)
  then show ?case using Cons.IH [of f1 r1] Cons.prems(1) step by auto
qed auto

text \<open>
  C37: Signal handlers are always collected: one fact for each function installed as a handler from which a chain of direct calls leads to a function
  that makes an async-signal-unsafe call, and for no other; the unsafe call it names belongs to a function the
  handler reaches.
\<close>

theorem signal_handlers_exact:
  "\<exists>facts. collectSignalHandlers queries module sites = Some facts \<and>
     distinct (map sh_handlerFunctionId facts) \<and>
     set (map sh_handlerFunctionId facts) =
       {h \<in> installed_handlers queries module. \<exists>g \<in> unsafe_functions queries module. (calls_along (\<lambda>_. True) sites)\<^sup>*\<^sup>* h g} \<and>
     list_all (\<lambda>x. sh_unsafeCallFunctionId x \<in> unsafe_functions queries module \<and>
       (calls_along (\<lambda>_. True) sites)\<^sup>*\<^sup>* (sh_handlerFunctionId x) (sh_unsafeCallFunctionId x)) facts"
proof -
  let ?reach = "(calls_along (\<lambda>_. True) sites)\<^sup>*\<^sup>*"
  obtain ins unsafe where calls: "signalCalls queries module = (ins, unsafe)" by fastforce
  have ins: "il_handlerFunctionId ` set ins = installed_handlers queries module"
    using fold_collectSignal(1) [of queries "module_calls module" "([], [])"] calls unfolding signalCalls_calls installed_handlers_def by simp
  have uns: "carries unsafe g \<longleftrightarrow> g \<in> unsafe_functions queries module" for g
    using fold_collectSignal(2) [of queries "module_calls module" "([], [])" g] calls unfolding signalCalls_calls unsafe_functions_def by simp
  have own: "uc_functionId u = g" if "map_of unsafe g = Some u" for g u
    using fold_collectSignal(3) [of "([], [])" queries "module_calls module" g u] calls that unfolding signalCalls_calls by simp
  let ?P = "\<lambda>m. \<forall>f u. map_of m f = Some u \<longrightarrow> uc_functionId u \<in> unsafe_functions queries module \<and> ?reach f (uc_functionId u)"
  have init: "?P unsafe"
  proof (intro allI impI)
    fix f u assume u: "map_of unsafe f = Some u"
    then have "uc_functionId u = f" "carries unsafe f" by (simp_all add: own)
    then show "uc_functionId u \<in> unsafe_functions queries module \<and> ?reach f (uc_functionId u)" using uns by simp
  qed
  have step: "?P (emplaceCaller (\<lambda>site unsafe. unsafe) site m)" if "?P m" "site \<in> set sites" for site m
  proof -
    have "calls_along (\<lambda>_. True) sites (dc_callerFunctionId site) (dc_calleeFunctionId site)" using that(2) by (auto simp: calls_along_def)
    then show ?thesis using that(1) by (auto simp: emplaceCaller_def map_add_def intro: converse_rtranclp_into_rtranclp split: option.splits if_splits)
  qed
  have "\<exists>m. spreadUnsafe sites unsafe = Some m \<and> ?P m \<and> (\<forall>f. carries m f \<longleftrightarrow> (\<exists>g. carries unsafe g \<and> ?reach f g))"
    unfolding spreadUnsafe_def by (rule carried_map.carryBack_exact [where P = ?P], rule init, rule step)
  then obtain m where m: "spreadUnsafe sites unsafe = Some m" "?P m" "\<And>f. carries m f \<longleftrightarrow> (\<exists>g. carries unsafe g \<and> ?reach f g)"
    by (elim exE conjE) metis
  obtain facts r where facts: "fold (reportInstallation m) ins ([], {}) = (facts, r)" by fastforce
  note report = fold_report [OF facts]
  show ?thesis
  proof (cases "ins = [] \<or> unsafe = []")
    case True
    then have "{h \<in> installed_handlers queries module. \<exists>g \<in> unsafe_functions queries module. ?reach h g} = {}"
      using ins uns by fastforce
    then show ?thesis using True calls by (simp add: collectSignalHandlers_def)
  next
    case False
    have "set (map sh_handlerFunctionId facts) = {h \<in> installed_handlers queries module. \<exists>g \<in> unsafe_functions queries module. ?reach h g}"
      using report m(3) uns unfolding ins [symmetric] by auto
    moreover have "list_all (\<lambda>x. sh_unsafeCallFunctionId x \<in> unsafe_functions queries module \<and> ?reach (sh_handlerFunctionId x) (sh_unsafeCallFunctionId x)) facts"
      using report m(2) by (fastforce simp: list_all_iff)
    ultimately show ?thesis using report False calls m(1) facts by (simp add: collectSignalHandlers_def)
  qed
qed

section \<open>Who has to loop around a wait\<close>

definition unguarded_waits :: "'v Module \<Rightarrow> ConditionWaitFact list" where
  "unguarded_waits module = filter (\<lambda>wait. \<not> cw_guardedByLoop wait) (collectConditionWaits module)"

definition carries_duty :: "'v Module \<Rightarrow> DirectCallSite list \<Rightarrow> string \<Rightarrow> bool" where
  "carries_duty module sites f \<longleftrightarrow>
     (\<exists>wait \<in> set (unguarded_waits module). (calls_along (\<lambda>site. \<not> dc_insideLoop site) sites)\<^sup>*\<^sup>* f (cw_functionId wait))"

text \<open>Where the loop of a function could be missing: at its own bare waits, and where it calls another function outside a loop.\<close>

definition places :: "'v Module \<Rightarrow> DirectCallSite list \<Rightarrow> string \<Rightarrow> SourceLocation set" where
  "places module sites f =
     cw_location ` {wait \<in> set (unguarded_waits module). cw_functionId wait = f} \<union>
     dc_userLocation ` {site \<in> set sites. dc_callerFunctionId site = f \<and> \<not> dc_insideLoop site}"

definition uncalled :: "DirectCallSite list \<Rightarrow> string \<Rightarrow> bool" where
  "uncalled sites f \<longleftrightarrow> list_all (\<lambda>site. dc_calleeFunctionId site \<noteq> f) sites"

text \<open>What holds of the waits while they are gathered and spread: one for a function, under its name, at one of its places.\<close>

definition waits_wf :: "'v Module \<Rightarrow> DirectCallSite list \<Rightarrow> waits \<Rightarrow> bool" where
  "waits_wf module sites m \<longleftrightarrow>
     distinct (map fst m) \<and> list_all (\<lambda>x. cw_functionId (snd x) = fst x \<and> cw_location (snd x) \<in> places module sites (fst x)) m"

lemma fresh_key: "map_of m f = None \<Longrightarrow> f \<notin> fst ` set m"
  by (simp add: map_of_eq_None_iff)

lemma noteUnguarded_wf:
  assumes "waits_wf module sites m" "wait \<in> set (collectConditionWaits module)"
  shows "waits_wf module sites (noteUnguarded wait m)"
  using assms fresh_key [of m "cw_functionId wait"]
  by (auto simp: waits_wf_def noteUnguarded_def places_def unguarded_waits_def)

lemma fold_noteUnguarded_wf:
  "set waits \<subseteq> set (collectConditionWaits module) \<Longrightarrow> waits_wf module sites m \<Longrightarrow> waits_wf module sites (fold noteUnguarded waits m)"
  by (induction waits arbitrary: m) (simp_all add: noteUnguarded_wf)

lemma fold_noteUnguarded_carries:
  "carries (fold noteUnguarded waits m) f \<longleftrightarrow> carries m f \<or> f \<in> cw_functionId ` set (filter (\<lambda>wait. \<not> cw_guardedByLoop wait) waits)"
proof (induction waits arbitrary: m)
  case (Cons wait waits)
  have "carries (noteUnguarded wait m) f \<longleftrightarrow> carries m f \<or> \<not> cw_guardedByLoop wait \<and> cw_functionId wait = f"
    by (auto simp: noteUnguarded_def map_add_def split: option.splits)
  then show ?case using Cons.IH [of "noteUnguarded wait m"] by auto
qed auto

lemma inheritWait_wf:
  assumes "waits_wf module sites m" "site \<in> set sites" "\<not> dc_insideLoop site"
  shows "waits_wf module sites (emplaceCaller inheritWait site m)"
  using assms fresh_key [of m "dc_callerFunctionId site"]
  by (auto simp: waits_wf_def emplaceCaller_def inheritWait_def places_def split: option.splits)

lemma spread_waits:
  obtains m where "spreadWaits sites (fold noteUnguarded (collectConditionWaits module) []) = Some m"
    "waits_wf module sites m" "\<And>f. carries m f \<longleftrightarrow> carries_duty module sites f"
proof -
  let ?m0 = "fold noteUnguarded (collectConditionWaits module) []"
  have init: "waits_wf module sites ?m0" by (rule fold_noteUnguarded_wf) (simp_all add: waits_wf_def)
  have "\<exists>m. spreadWaits sites ?m0 = Some m \<and> waits_wf module sites m \<and>
      (\<forall>f. carries m f \<longleftrightarrow> (\<exists>g. carries ?m0 g \<and> (calls_along (\<lambda>site. \<not> dc_insideLoop site) sites)\<^sup>*\<^sup>* f g))"
    unfolding spreadWaits_def
    by (rule carried_map.carryBack_exact [where P = "waits_wf module sites"], rule init, rule inheritWait_wf)
  moreover have "(\<exists>g. carries ?m0 g \<and> (calls_along (\<lambda>site. \<not> dc_insideLoop site) sites)\<^sup>*\<^sup>* f g) \<longleftrightarrow> carries_duty module sites f" for f
    unfolding fold_noteUnguarded_carries carries_duty_def unguarded_waits_def by auto
  ultimately show ?thesis using that by metis
qed

lemma answered_iff_called:
  assumes "\<And>f. carries m f \<longleftrightarrow> carries_duty module sites f" "carries m f"
  shows "answeredByACaller sites m f \<longleftrightarrow> \<not> uncalled sites f"
proof -
  have "carries m (dc_callerFunctionId site)" if "site \<in> set sites" "dc_calleeFunctionId site = f" "\<not> dc_insideLoop site" for site
  proof -
    have "calls_along (\<lambda>site. \<not> dc_insideLoop site) sites (dc_callerFunctionId site) f" using that by (auto simp: calls_along_def)
    then show ?thesis using assms unfolding carries_duty_def by (blast intro: converse_rtranclp_into_rtranclp)
  qed
  then show ?thesis using assms(2)
    by (auto simp: answeredByACaller_def Let_def uncalled_def list_ex_iff list_all_iff filter_empty_conv)
qed

lemma sort_key_arranged:
  assumes "mset xs = mset ys" "inj_on f (set xs)"
  shows "sort_key f xs = sort_key f ys"
  using assms by (intro sort_key_inj_key_eq) simp_all

text \<open>
  C23: Condition waits are always collected, and the order in which the hash map holds them does not show in the result. A reported function carries
  the duty (a chain of calls outside loops leads from it to a bare wait outside a loop), is the callee of no direct call, and is reported once, at
  a place in user code where its loop is missing; and no function that carries the duty, that nothing calls and whose places
  all lie in user code is left out. The location of a function is one of its places, chosen by the order of the calls, so one that has a place outside user code
  may be dropped for it. Functions of a recursion call each other and are never reported (\<open>recursion_hides_a_wait\<close>).
\<close>

theorem condition_waits_exact:
  assumes "\<And>m. mset (arrange m) = mset m"
  shows "\<exists>facts. buildConditionWaits arrange userLocation module sites = Some facts \<and>
    buildConditionWaits id userLocation module sites = Some facts \<and>
    sorted (map wait_order facts) \<and> distinct (map cw_functionId facts) \<and>
    list_all (\<lambda>wait. carries_duty module sites (cw_functionId wait) \<and> uncalled sites (cw_functionId wait) \<and>
      cw_location wait \<in> places module sites (cw_functionId wait) \<and> userLocation (cw_location wait)) facts \<and>
    {f. carries_duty module sites f \<and> uncalled sites f \<and> places module sites f \<subseteq> Collect userLocation} \<subseteq> cw_functionId ` set facts"
proof -
  obtain m where spread: "spreadWaits sites (fold noteUnguarded (collectConditionWaits module) []) = Some m"
    and wf: "waits_wf module sites m" and duty: "\<And>f. carries m f \<longleftrightarrow> carries_duty module sites f"
    using spread_waits [of sites module] by metis
  let ?keep = "\<lambda>(f, wait). \<not> answeredByACaller sites m f \<and> userLocation (cw_location wait)"
  let ?facts = "sort_key wait_order (map snd (filter ?keep m))"
  have key: "cw_functionId (snd x) = fst x" "cw_location (snd x) \<in> places module sites (fst x)" if "x \<in> set m" for x
    using wf that by (auto simp: waits_wf_def list_all_iff)
  have ids: "map (cw_functionId \<circ> snd) m = map fst m" by (simp add: key)
  have "inj_on cw_functionId (snd ` set m)"
    using ids wf by (metis waits_wf_def distinct_map inj_on_imageI set_map map_map)
  then have inj: "inj_on wait_order (snd ` set m)" by (auto simp: inj_on_def wait_order_def)
  have perm: "mset (map snd (filter ?keep (arrange m))) = mset (map snd (filter ?keep m))"
    using assms by (simp only: mset_map mset_filter)
  have "set (arrange m) = set m" using assms by (metis set_mset_mset)
  then have "inj_on wait_order (set (map snd (filter ?keep (arrange m))))" using inj by (auto intro: inj_on_subset)
  then have arranged: "sort_key wait_order (map snd (filter ?keep (arrange m))) = ?facts" using perm by (rule sort_key_arranged [rotated])
  have "distinct (map cw_functionId (map snd (filter ?keep m)))"
    using wf unfolding map_map waits_wf_def ids [symmetric] by (blast intro: distinct_map_filter)
  then have dist: "distinct (map cw_functionId ?facts)" by (rule iffD2 [OF mset_eq_imp_distinct_iff, rotated]) (simp add: image_mset.compositionality)
  have complete: "f \<in> cw_functionId ` set ?facts" if "carries_duty module sites f" "uncalled sites f" "places module sites f \<subseteq> Collect userLocation" for f
  proof -
    have has: "carries m f" using duty that(1) by simp
    then obtain wait where "(f, wait) \<in> set m" by (auto dest: map_of_SomeD)
    moreover have "\<not> answeredByACaller sites m f" using answered_iff_called [OF duty has] that(2) by simp
    ultimately show ?thesis using key [of "(f, wait)"] that(3) by force
  qed
  have sound: "carries_duty module sites (cw_functionId wait) \<and> uncalled sites (cw_functionId wait) \<and>
      cw_location wait \<in> places module sites (cw_functionId wait) \<and> userLocation (cw_location wait)" if reported: "wait \<in> set ?facts" for wait
  proof -
    obtain f where f: "(f, wait) \<in> set m" "\<not> answeredByACaller sites m f" "userLocation (cw_location wait)" using reported by auto
    then have has: "carries m f" by (metis weak_map_of_SomeI option.distinct(1))
    show ?thesis using key [OF f(1)] f(2,3) has duty answered_iff_called [OF duty has] by simp
  qed
  have "buildConditionWaits arrange userLocation module sites = Some ?facts" "buildConditionWaits id userLocation module sites = Some ?facts"
    unfolding buildConditionWaits_def spread option.map arranged id_apply by (rule refl)+
  then show ?thesis using dist complete sound unfolding list_all_iff by (intro exI [of _ ?facts] conjI subsetI ballI) (assumption | simp only: sorted_sort_key mem_Collect_eq)+
qed

text \<open>\<open>main\<close> calls \<open>run\<close>, which calls \<open>pause\<close>, which waits; no call is in a loop, so the loop is missing in \<open>main\<close>.\<close>

definition sample_location :: "string \<Rightarrow> nat \<Rightarrow> SourceLocation" where
  "sample_location f line = no_location\<lparr>sl_file := ''a.cpp'', sl_line := line, sl_function := f\<rparr>"

definition sample_site :: "string \<Rightarrow> string \<Rightarrow> nat \<Rightarrow> DirectCallSite" where
  "sample_site f g line =
     \<lparr>dc_call = None, dc_callerFunctionId = f, dc_calleeFunctionId = g, dc_loweredLocation = sample_location f line,
      dc_userLocation = sample_location f line, dc_insideLoop = False\<rparr>"

definition sample_wait :: "unit Function" where
  "sample_wait =
     \<lparr>fn_id = ''pause'', fn_isDeclaration = False, fn_args = [],
      fn_blocks = [\<lparr>bb_instructions =
          [\<lparr>in_address = 1,
            in_call = Some \<lparr>ca_kind = CK_CondWaitWithoutPredicate, ca_directCallee = None, ca_calledFunction = None, ca_args = [],
                            ca_targetsRecursiveLock = False, ca_adoptsHeldLocks = False\<rparr>,
            in_loweredLocation = sample_location ''pause'' 12, in_userLocation = sample_location ''pause'' 12\<rparr>],
        bb_predecessors = [], bb_isReachable = True, bb_inLoop = False, bb_returns = True\<rparr>]\<rparr>"

definition sample_sites :: "DirectCallSite list" where
  "sample_sites = [sample_site ''main'' ''run'' 3, sample_site ''run'' ''pause'' 7]"

lemma sample_duty: "carries_duty [sample_wait] sample_sites ''main''"
proof -
  let ?calls = "calls_along (\<lambda>site. \<not> dc_insideLoop site) sample_sites"
  have "list_ex (\<lambda>wait. cw_functionId wait = ''pause'') (unguarded_waits [sample_wait])" by code_simp
  then obtain wait where "wait \<in> set (unguarded_waits [sample_wait])" "cw_functionId wait = ''pause''" unfolding list_ex_iff by (elim bexE)
  moreover have "?calls ''main'' ''run''" "?calls ''run'' ''pause''" by code_simp+
  then have "?calls\<^sup>*\<^sup>* ''main'' ''pause''" by (rule converse_rtranclp_into_rtranclp [OF _ r_into_rtranclp])
  ultimately show ?thesis unfolding carries_duty_def by (intro bexI [of _ wait]) simp_all
qed

lemma sample_uncalled: "uncalled sample_sites ''main''"
  by code_simp

theorem condition_waits_exact_witness:
  "\<exists>facts. buildConditionWaits rev (\<lambda>_. True) [sample_wait] sample_sites = Some facts \<and>
     buildConditionWaits id (\<lambda>_. True) [sample_wait] sample_sites = Some facts \<and> ''main'' \<in> cw_functionId ` set facts"
  using condition_waits_exact [of rev "\<lambda>_. True" "[sample_wait]" sample_sites] sample_duty sample_uncalled by auto

text \<open>
  A function that waits outside a loop and calls itself outside a loop counts as a caller that answers for it, so that the wait is
  reported nowhere, although nothing loops around it.
\<close>

lemma recursion_hides_a_wait:
  "buildConditionWaits id (\<lambda>_. True) [sample_wait] [] \<noteq> Some [] \<and>
   buildConditionWaits id (\<lambda>_. True) [sample_wait] [sample_site ''pause'' ''pause'' 14] = Some []"
  by code_simp

end
