(* ===== verification/Call_Spread.thy ===== *)
theory Call_Spread
  imports Prelude
begin

text \<open>
  Three loops of \<open>TUFactsBuilder::build\<close> (\<open>analysis/tu_facts_builder.cpp\<close>) have one shape: at every call, each fact kept for the callee
  stands for some facts of the caller, which are added to what is kept; the rounds go on until nothing is new. They carry the
  lifecycle of thread handles, the lock orders a helper leaves open, and the accesses through parameters. The loop is written once,
  over what differs, a call being whatever record the loop runs over, and the locale \<open>call_spread\<close> has the laws from which it ends in a closed state.
\<close>

section \<open>The loop\<close>

text \<open>A fold over steps that may throw; the first exception ends it.\<close>

fun foldE :: "('a \<Rightarrow> 's \<Rightarrow> 'e + 's) \<Rightarrow> 'a list \<Rightarrow> 's \<Rightarrow> 'e + 's" where
  "foldE f [] s = Inr s"
| "foldE f (x # xs) s = (case f x s of Inl e \<Rightarrow> Inl e | Inr s \<Rightarrow> foldE f xs s)"

definition addInstance :: "('b \<Rightarrow> 's \<Rightarrow> 's \<times> bool) \<Rightarrow> 'b \<Rightarrow> 's \<times> bool \<Rightarrow> 's \<times> bool" where
  "addInstance add b st = (let (s, changed) = st; (s, gained) = add b s in (s, gained \<or> changed))"

definition spreadFact ::
  "('c \<Rightarrow> 'a \<Rightarrow> 'e + 'b list) \<Rightarrow> ('b \<Rightarrow> 's \<Rightarrow> 's \<times> bool) \<Rightarrow> 'c \<Rightarrow> 'a \<Rightarrow> 's \<times> bool \<Rightarrow> 'e + 's \<times> bool" where
  "spreadFact instances add site a st =
     (case instances site a of Inl e \<Rightarrow> Inl e | Inr bs \<Rightarrow> Inr (fold (addInstance add) bs st))"

text \<open>The facts of the callee are copied first: in a recursion the caller is the callee, whose facts this adds to.\<close>

definition spreadCall ::
  "('s \<Rightarrow> 'c \<Rightarrow> 'a list) \<Rightarrow> ('c \<Rightarrow> 'a \<Rightarrow> 'e + 'b list) \<Rightarrow> ('b \<Rightarrow> 's \<Rightarrow> 's \<times> bool) \<Rightarrow> 'c \<Rightarrow> 's \<times> bool \<Rightarrow> 'e + 's \<times> bool" where
  "spreadCall facts_of instances add site st = foldE (spreadFact instances add site) (facts_of (fst st) site) st"

partial_function (option) spreadLoop ::
  "('s \<Rightarrow> 'c \<Rightarrow> 'a list) \<Rightarrow> ('c \<Rightarrow> 'a \<Rightarrow> 'e + 'b list) \<Rightarrow> ('b \<Rightarrow> 's \<Rightarrow> 's \<times> bool) \<Rightarrow> 'c list \<Rightarrow> 's \<Rightarrow> ('e + 's) option" where
  "spreadLoop facts_of instances add sites s =
     (case foldE (spreadCall facts_of instances add) sites (s, False) of
        Inl e \<Rightarrow> Some (Inl e)
      | Inr (s, changed) \<Rightarrow> if changed then spreadLoop facts_of instances add sites s else Some (Inr s))"

declare spreadLoop.simps [code]

text \<open>A loop each round of which changes something never returns.\<close>

lemma spreadLoop_diverges:
  assumes "D s" "\<And>s. D s \<Longrightarrow> \<exists>s'. foldE (spreadCall facts_of instances add) sites (s, False) = Inr (s', True) \<and> D s'"
  shows "spreadLoop facts_of instances add sites s = None"
proof -
  have "\<not> D t" if "spreadLoop facts_of instances add sites t = Some y" for y t
  proof -
    have "facts_of = facts_of \<and> instances = instances \<and> add = add \<and> sites = sites \<longrightarrow> \<not> D t"
      using that
    proof (rule spreadLoop.raw_induct [where P = "\<lambda>f i a ss s y. f = facts_of \<and> i = instances \<and> a = add \<and> ss = sites \<longrightarrow> \<not> D s", rotated])
      fix loop f i a ss s y
      assume ih: "\<And>f i a ss s y. loop f i a ss s = Some y \<Longrightarrow> f = facts_of \<and> i = instances \<and> a = add \<and> ss = sites \<longrightarrow> \<not> D s"
        and body: "(case foldE (spreadCall f i a) ss (s, False) of Inl e \<Rightarrow> Some (Inl e)
          | Inr (s, changed) \<Rightarrow> if changed then loop f i a ss s else Some (Inr s)) = Some y"
      show "f = facts_of \<and> i = instances \<and> a = add \<and> ss = sites \<longrightarrow> \<not> D s"
        using ih body assms(2) [of s] by fastforce
    qed
    then show ?thesis by simp
  qed
  then show ?thesis using assms(1) by (metis not_Some_eq)
qed

lemma foldE_append: "foldE f (xs @ ys) s = (case foldE f xs s of Inl e \<Rightarrow> Inl e | Inr s \<Rightarrow> foldE f ys s)"
  by (induction xs arbitrary: s) (auto split: sum.splits)

lemma foldE_invariant:
  assumes "I s" "\<And>x s s'. x \<in> set xs \<Longrightarrow> I s \<Longrightarrow> f x s = Inr s' \<Longrightarrow> I s'" "foldE f xs s = Inr s'"
  shows "I s'"
  using assms by (induction xs arbitrary: s) (auto split: sum.splits)

lemma foldE_throws:
  assumes "I s" "\<And>x s s'. x \<in> set xs \<Longrightarrow> I s \<Longrightarrow> f x s = Inr s' \<Longrightarrow> I s'" "foldE f xs s = Inl e"
  shows "\<exists>x \<in> set xs. \<exists>s. I s \<and> f x s = Inl e"
  using assms
proof (induction xs arbitrary: s)
  case (Cons x xs)
  show ?case
  proof (cases "f x s")
    case (Inl e')
    then show ?thesis using Cons.prems by auto
  next
    case (Inr s1)
    then have "foldE f xs s1 = Inl e" "I s1" using Cons.prems by auto
    then show ?thesis using Cons.IH [of s1] Cons.prems(2) by auto
  qed
qed simp

section \<open>A state that grows within bounds\<close>

text \<open>
  \<open>ok site a\<close> and \<open>okb b\<close> say what the facts kept for the callee of a call and the facts added at calls satisfy; \<open>has s b\<close> that \<open>s\<close> accounts for \<open>b\<close>.
  An addition that reports no change leaves the facts as they are; every other one makes the state heavier, up to a bound.
\<close>

locale call_spread =
  fixes facts_of :: "'s \<Rightarrow> 'c \<Rightarrow> 'a list" and instances :: "'c \<Rightarrow> 'a \<Rightarrow> 'e + 'b list"
    and add :: "'b \<Rightarrow> 's \<Rightarrow> 's \<times> bool" and sites :: "'c list"
    and inv :: "'s \<Rightarrow> bool" and ok :: "'c \<Rightarrow> 'a \<Rightarrow> bool" and okb :: "'b \<Rightarrow> bool"
    and has :: "'s \<Rightarrow> 'b \<Rightarrow> bool" and weight :: "'s \<Rightarrow> nat" and bound :: nat
  assumes facts_ok: "inv s \<Longrightarrow> a \<in> set (facts_of s site) \<Longrightarrow> ok site a"
    and instances_ok: "site \<in> set sites \<Longrightarrow> ok site a \<Longrightarrow> instances site a = Inr bs \<Longrightarrow> b \<in> set bs \<Longrightarrow> okb b"
    and add_inv: "inv s \<Longrightarrow> okb b \<Longrightarrow> inv (fst (add b s))"
    and add_grows: "inv s \<Longrightarrow> okb b \<Longrightarrow> snd (add b s) \<Longrightarrow> weight s < weight (fst (add b s))"
    and add_keeps: "inv s \<Longrightarrow> okb b \<Longrightarrow> \<not> snd (add b s) \<Longrightarrow> weight (fst (add b s)) = weight s \<and> facts_of (fst (add b s)) = facts_of s"
    and add_has: "inv s \<Longrightarrow> okb b \<Longrightarrow> has (fst (add b s)) b"
    and has_mono: "inv s \<Longrightarrow> okb b \<Longrightarrow> has s b' \<Longrightarrow> has (fst (add b s)) b'"
    and bounded: "inv s \<Longrightarrow> weight s \<le> bound"
begin

text \<open>What one run of additions does, from \<open>st\<close> to \<open>st'\<close>.\<close>

definition grown :: "'s \<times> bool \<Rightarrow> 's \<times> bool \<Rightarrow> bool" where
  "grown st st' \<longleftrightarrow> inv (fst st') \<and> (\<forall>b. has (fst st) b \<longrightarrow> has (fst st') b) \<and> weight (fst st) \<le> weight (fst st') \<and>
     (snd st \<longrightarrow> snd st') \<and> (snd st' \<longrightarrow> snd st \<or> weight (fst st) < weight (fst st')) \<and>
     (\<not> snd st' \<longrightarrow> weight (fst st) = weight (fst st') \<and> facts_of (fst st') = facts_of (fst st))"

lemma grown_refl: "inv (fst st) \<Longrightarrow> grown st st"
  by (simp add: grown_def)

lemma grown_trans: "grown st st' \<Longrightarrow> grown st' st'' \<Longrightarrow> grown st st''"
  unfolding grown_def by (cases "snd st''"; cases "snd st'") auto

lemma grown_add:
  assumes "inv (fst st)" "okb b"
  shows "grown st (addInstance add b st) \<and> has (fst (addInstance add b st)) b"
proof -
  obtain s c where st: "st = (s, c)" by (cases st)
  obtain s' g where a: "add b s = (s', g)" by (cases "add b s")
  have "inv s" using assms(1) st by simp
  note laws = this assms(2) a
  have "inv s'" "has s' b" "\<And>b'. has s b' \<Longrightarrow> has s' b'" "g \<Longrightarrow> weight s < weight s'" "\<not> g \<Longrightarrow> weight s' = weight s \<and> facts_of s' = facts_of s"
    using add_inv [of s b] add_has [of s b] has_mono [of s b] add_grows [of s b] add_keeps [of s b] laws by auto
  then show ?thesis unfolding st addInstance_def grown_def using a by (cases g) auto
qed

lemma grown_has: "grown st st' \<Longrightarrow> has (fst st) b \<Longrightarrow> has (fst st') b"
  by (simp add: grown_def)

lemma grown_inv: "grown st st' \<Longrightarrow> inv (fst st')"
  by (simp add: grown_def)

lemma grown_fold:
  assumes "inv (fst st)" "\<And>b. b \<in> set bs \<Longrightarrow> okb b"
  shows "grown st (fold (addInstance add) bs st) \<and> (\<forall>b \<in> set bs. has (fst (fold (addInstance add) bs st)) b)"
  using assms
proof (induction bs arbitrary: st)
  case (Cons b bs)
  let ?st = "addInstance add b st"
  have g: "grown st ?st" "has (fst ?st) b" using grown_add [of st b] Cons.prems by auto
  have "grown ?st (fold (addInstance add) bs ?st) \<and> (\<forall>b \<in> set bs. has (fst (fold (addInstance add) bs ?st)) b)"
    using Cons.IH [of ?st] grown_inv [OF g(1)] Cons.prems(2) by simp
  then show ?case using grown_trans [OF g(1), of "fold (addInstance add) bs ?st"] grown_has [of ?st "fold (addInstance add) bs ?st" b] g(2) by simp
qed (simp add: grown_refl)

definition covers :: "'c \<Rightarrow> 'a \<Rightarrow> 's \<Rightarrow> bool" where
  "covers site a s \<longleftrightarrow> (\<exists>bs. instances site a = Inr bs \<and> (\<forall>b \<in> set bs. has s b))"

lemma covers_grown: "covers site a (fst st) \<Longrightarrow> grown st st' \<Longrightarrow> covers site a (fst st')"
  unfolding covers_def using grown_has by blast

lemma spreadFact_spec:
  assumes "site \<in> set sites" "ok site a" "inv (fst st)" "spreadFact instances add site a st = Inr st'"
  shows "grown st st' \<and> covers site a (fst st')"
proof -
  obtain bs where bs: "instances site a = Inr bs" and st': "st' = fold (addInstance add) bs st"
    using assms(4) by (auto simp: spreadFact_def split: sum.splits)
  show ?thesis using grown_fold [OF assms(3), of bs] instances_ok [OF assms(1,2) bs] bs unfolding st' covers_def by blast
qed

lemma spreadFacts_spec:
  assumes "site \<in> set sites" "\<And>a. a \<in> set as \<Longrightarrow> ok site a" "inv (fst st)"
    "foldE (spreadFact instances add site) as st = Inr st'"
  shows "grown st st' \<and> (\<forall>a \<in> set as. covers site a (fst st'))"
  using assms(2-)
proof (induction as arbitrary: st)
  case (Cons a as)
  then obtain st1 where st1: "spreadFact instances add site a st = Inr st1" and rest: "foldE (spreadFact instances add site) as st1 = Inr st'"
    by (auto split: sum.splits)
  have g: "grown st st1 \<and> covers site a (fst st1)" using spreadFact_spec [OF assms(1) _ Cons.prems(2) st1] Cons.prems(1) by simp
  then have "inv (fst st1)" using grown_inv by blast
  then have "grown st1 st' \<and> (\<forall>a \<in> set as. covers site a (fst st'))" using Cons.IH [OF _ _ rest] Cons.prems(1) by simp
  then show ?case using g grown_trans [of st st1 st'] covers_grown [of site a st1 st'] by simp
qed (simp add: grown_refl)

lemma spreadCall_spec:
  assumes "site \<in> set sites" "inv (fst st)" "spreadCall facts_of instances add site st = Inr st'"
  shows "grown st st' \<and> (\<forall>a \<in> set (facts_of (fst st) site). covers site a (fst st'))"
  using spreadFacts_spec [OF assms(1) _ assms(2), of "facts_of (fst st) site" st'] facts_ok [OF assms(2)] assms(3)
  unfolding spreadCall_def by blast

lemma round_spec:
  assumes "set ss \<subseteq> set sites" "inv (fst st)" "foldE (spreadCall facts_of instances add) ss st = Inr st'"
  shows "grown st st' \<and> (\<not> snd st' \<longrightarrow> (\<forall>site \<in> set ss. \<forall>a \<in> set (facts_of (fst st') site). covers site a (fst st')))"
  using assms
proof (induction ss arbitrary: st)
  case (Cons site ss)
  then obtain st1 where st1: "spreadCall facts_of instances add site st = Inr st1" and rest: "foldE (spreadCall facts_of instances add) ss st1 = Inr st'"
    by (auto split: sum.splits)
  have g: "grown st st1" "\<forall>a \<in> set (facts_of (fst st) site). covers site a (fst st1)"
    using spreadCall_spec [OF _ Cons.prems(2) st1] Cons.prems(1) by auto
  have later: "grown st1 st'" "\<not> snd st' \<longrightarrow> (\<forall>site \<in> set ss. \<forall>a \<in> set (facts_of (fst st') site). covers site a (fst st'))"
    using Cons.IH [OF _ grown_inv [OF g(1)] rest] Cons.prems(1) by auto
  have "facts_of (fst st') = facts_of (fst st)" if "\<not> snd st'" using that g(1) later(1) unfolding grown_def by auto
  then have "\<forall>a \<in> set (facts_of (fst st') site). covers site a (fst st')" if "\<not> snd st'"
    using that g(2) covers_grown [OF _ later(1)] by simp
  then show ?case using grown_trans [OF g(1) later(1)] later(2) by simp
qed (simp add: grown_refl)

text \<open>An exception is thrown by some instance of a fact that belongs to a callee.\<close>

definition throwing :: bool where
  "throwing \<longleftrightarrow> (\<exists>site \<in> set sites. \<exists>a e. ok site a \<and> instances site a = Inl e)"

lemma round_throws:
  assumes "set ss \<subseteq> set sites" "inv (fst st)" "foldE (spreadCall facts_of instances add) ss st = Inl e"
  shows throwing
proof -
  have "\<exists>site \<in> set ss. \<exists>st. inv (fst st) \<and> spreadCall facts_of instances add site st = Inl e"
    using assms spreadCall_spec grown_inv by (intro foldE_throws [where I = "\<lambda>st. inv (fst st)"]) blast+
  then obtain site st where site: "site \<in> set sites" "inv (fst st)"
      "foldE (spreadFact instances add site) (facts_of (fst st) site) st = Inl e"
    using assms(1) unfolding spreadCall_def by blast
  have ok: "ok site a" if "a \<in> set (facts_of (fst st) site)" for a
    using facts_ok site(2) that by blast
  then have "\<exists>a \<in> set (facts_of (fst st) site). \<exists>st. inv (fst st) \<and> spreadFact instances add site a st = Inl e"
    using site spreadFact_spec grown_inv by (intro foldE_throws [where I = "\<lambda>st. inv (fst st)"]) blast+
  then show ?thesis using site(1) ok unfolding throwing_def by (force simp: spreadFact_def split: sum.splits)
qed

theorem spreadLoop_closes:
  assumes "inv s"
  shows "\<exists>r. spreadLoop facts_of instances add sites s = Some r \<and>
    (case r of
       Inl e \<Rightarrow> throwing
     | Inr s' \<Rightarrow> inv s' \<and> (\<forall>b. has s b \<longrightarrow> has s' b) \<and>
         (\<forall>site \<in> set sites. \<forall>a \<in> set (facts_of s' site). covers site a s'))"
  using assms
proof (induction "bound - weight s" arbitrary: s rule: less_induct)
  case less
  show ?case
  proof (cases "foldE (spreadCall facts_of instances add) sites (s, False)")
    case (Inl e)
    then show ?thesis using round_throws [OF subset_refl _ Inl] less.prems spreadLoop.simps [of facts_of instances add sites s] by simp
  next
    case (Inr st')
    obtain s' c where st': "st' = (s', c)" by (cases st')
    have spec: "grown (s, False) (s', c)"
      "\<not> c \<longrightarrow> (\<forall>site \<in> set sites. \<forall>a \<in> set (facts_of s' site). covers site a s')"
      using round_spec [OF subset_refl _ Inr] less.prems unfolding st' by auto
    then have g: "inv s'" "\<And>b. has s b \<Longrightarrow> has s' b" "c \<Longrightarrow> weight s < weight s'" unfolding grown_def by auto
    have run: "spreadLoop facts_of instances add sites s = (if c then spreadLoop facts_of instances add sites s' else Some (Inr s'))"
      using spreadLoop.simps [of facts_of instances add sites s] Inr st' by simp
    show ?thesis
    proof (cases c)
      case True
      then have "bound - weight s' < bound - weight s" using g bounded [OF g(1)] by auto
      then have "\<exists>r. spreadLoop facts_of instances add sites s' = Some r \<and>
        (case r of Inl e \<Rightarrow> throwing
         | Inr s'' \<Rightarrow> inv s'' \<and> (\<forall>b. has s' b \<longrightarrow> has s'' b) \<and> (\<forall>site \<in> set sites. \<forall>a \<in> set (facts_of s'' site). covers site a s''))"
        using less.hyps g(1) by blast
      then show ?thesis using run True g(2) by (auto split: sum.splits)
    next
      case False
      then show ?thesis using run g spec(2) by simp
    qed
  qed
qed

end

end
