(* ===== verification/Lifecycle.thy ===== *)
theory Lifecycle
  imports Call_Graph Call_Spread
begin

text \<open>
  The lifecycle of thread handles across calls, as \<open>TUFactsBuilder::build\<close> (\<open>analysis/tu_facts_builder.cpp\<close>) carries it: what a helper
  does to a handle it is passed becomes what its caller does to the handle passed there. What \<open>ThreadLifecycleCollector\<close> found in each
  function, and the storage \<open>canonicalStorageGroupId\<close> names for each argument of a call, are arguments.
\<close>

section \<open>Facts and their keys\<close>

record LifecycleArgumentBinding =
  la_argumentIndex :: nat
  la_suffix :: string

fun handle_kind_index :: "ThreadHandleKind \<Rightarrow> nat" where
  "handle_kind_index TH_PThread = 0"
| "handle_kind_index TH_StdThread = 1"

fun action_index :: "ThreadLifecycleAction \<Rightarrow> nat" where
  "action_index TL_Create = 0"
| "action_index TL_Join = 1"
| "action_index TL_Detach = 2"
| "action_index TL_Move = 3"

definition lifecycleFactKey :: "ThreadLifecycleFact \<Rightarrow> string" where
  "lifecycleFactKey fct =
     to_string_nat (handle_kind_index (tl_handleKind fct)) @ ''|'' @ to_string_nat (action_index (tl_action fct)) @ ''|'' @
     tl_handleGroupId fct @ ''|'' @ tl_functionId fct @ ''|'' @ (case tl_sourceHandleGroupId fct of None \<Rightarrow> [] | Some source \<Rightarrow> source) @ ''|'' @
     sl_file (tl_location fct) @ ''|'' @ to_string_nat (sl_line (tl_location fct)) @ ''|'' @ to_string_nat (sl_column (tl_location fct)) @ ''|'' @
     sl_function (tl_location fct)"

record Lifecycles =
  ly_facts :: "ThreadLifecycleFact list"
  ly_keys :: "string set"
  ly_byFunction :: "(string \<times> ThreadLifecycleFact list) list"

definition noLifecycles :: Lifecycles where
  "noLifecycles = \<lparr>ly_facts = [], ly_keys = {}, ly_byFunction = []\<rparr>"

definition addLifecycleFact :: "ThreadLifecycleFact \<Rightarrow> Lifecycles \<Rightarrow> Lifecycles \<times> bool" where
  "addLifecycleFact fct st =
     (let key = lifecycleFactKey fct
      in if key \<in> ly_keys st then (st, False)
         else (\<lparr>ly_facts = ly_facts st @ [fct], ly_keys = insert key (ly_keys st),
                ly_byFunction = umap_update (tl_functionId fct) (push fct) (ly_byFunction st)\<rparr>, True))"

section \<open>Handles named after a parameter\<close>

definition parameterPrefix :: "string \<Rightarrow> string" where
  "parameterPrefix f = ''arg:'' @ f @ '':''"

text \<open>\<open>std::stoul\<close> throws on an index of 2^64 or more; the cast keeps 32 bits of a smaller one.\<close>

definition parseLifecycleArgumentBinding :: "string \<Rightarrow> string \<Rightarrow> unit + LifecycleArgumentBinding option" where
  "parseLifecycleArgumentBinding f handleGroupId =
     (if \<not> starts_with handleGroupId (parameterPrefix f) then Inr None
      else
        (let rest = drop (length (parameterPrefix f)) handleGroupId;
             index = takeWhile isdigit rest
         in if index = [] then Inr None
            else if digits_value index \<ge> 2 ^ 64 then Inl ()
            else Inr (Some \<lparr>la_argumentIndex = digits_value index mod 2 ^ 32, la_suffix = dropWhile isdigit rest\<rparr>)))"

definition shouldRemapLifecycleLocation :: "SourceLocation \<Rightarrow> SourceLocation \<Rightarrow> bool" where
  "shouldRemapLifecycleLocation location callsite =
     (if sl_file callsite = [] \<and> sl_line callsite = 0 then False
      else if sl_file location = [] then True
      else sl_file location \<noteq> sl_file callsite)"

section \<open>Carrying facts to the callers\<close>

definition remapLifecycle :: "DirectCallSite \<Rightarrow> ThreadLifecycleFact \<Rightarrow> ThreadLifecycleFact" where
  "remapLifecycle site fct =
     (if shouldRemapLifecycleLocation (tl_location fct) (dc_userLocation site) then fct\<lparr>tl_location := dc_userLocation site\<rparr> else fct)"

definition groupOfArgument :: "string option list \<Rightarrow> nat \<Rightarrow> string option" where
  "groupOfArgument groups index = (if index < length groups then groups ! index else None)"

text \<open>\<open>groups\<close> has the storage of each argument of a call.\<close>

definition lifecycleAtCall :: "(nat \<Rightarrow> string option list) \<Rightarrow> DirectCallSite \<Rightarrow> ThreadLifecycleFact \<Rightarrow> unit + ThreadLifecycleFact list" where
  "lifecycleAtCall groups site fct =
     (case dc_call site of
        None \<Rightarrow> Inr []
      | Some call \<Rightarrow>
          (case parseLifecycleArgumentBinding (tl_functionId fct) (tl_handleGroupId fct) of
             Inl e \<Rightarrow> Inl e
           | Inr None \<Rightarrow> Inr []
           | Inr (Some binding) \<Rightarrow>
               (case groupOfArgument (groups call) (la_argumentIndex binding) of
                  None \<Rightarrow> Inr []
                | Some callerGroup \<Rightarrow>
                    (let propagated = fct\<lparr>tl_functionId := dc_callerFunctionId site, tl_propagated := True,
                                          tl_handleGroupId := callerGroup @ la_suffix binding\<rparr>
                     in case tl_sourceHandleGroupId fct of
                          None \<Rightarrow> Inr [remapLifecycle site propagated]
                        | Some source \<Rightarrow>
                            (case parseLifecycleArgumentBinding (tl_functionId fct) source of
                               Inl e \<Rightarrow> Inl e
                             | Inr None \<Rightarrow> Inr [remapLifecycle site propagated]
                             | Inr (Some sourceBinding) \<Rightarrow>
                                 if \<not> la_argumentIndex sourceBinding < length (groups call) then Inr [remapLifecycle site propagated]
                                 else
                                   (case groupOfArgument (groups call) (la_argumentIndex sourceBinding) of
                                      None \<Rightarrow> Inr []
                                    | Some sourceCallerGroup \<Rightarrow>
                                        Inr [remapLifecycle site
                                          (propagated\<lparr>tl_sourceHandleGroupId := Some (sourceCallerGroup @ la_suffix sourceBinding)\<rparr>)]))))))"

definition lifecyclesOf :: "Lifecycles \<Rightarrow> string \<Rightarrow> ThreadLifecycleFact list" where
  "lifecyclesOf st f = (case map_of (ly_byFunction st) f of None \<Rightarrow> [] | Some facts \<Rightarrow> facts)"

definition calleeLifecycles :: "Lifecycles \<Rightarrow> DirectCallSite \<Rightarrow> ThreadLifecycleFact list" where
  "calleeLifecycles st site = lifecyclesOf st (dc_calleeFunctionId site)"

definition propagateLifecycles ::
  "(nat \<Rightarrow> string option list) \<Rightarrow> ThreadLifecycleFact list \<Rightarrow> DirectCallSite list \<Rightarrow> (unit + Lifecycles) option" where
  "propagateLifecycles groups collected sites =
     spreadLoop calleeLifecycles (lifecycleAtCall groups) addLifecycleFact sites
       (fold (\<lambda>fct st. fst (addLifecycleFact fct st)) collected noLifecycles)"

section \<open>Handles of the program\<close>

definition symbolChar :: "char \<Rightarrow> bool" where
  "symbolChar c \<longleftrightarrow> c \<in> set ''abcdefghijklmnopqrstuvwxyzABCDEFGHIJKLMNOPQRSTUVWXYZ0123456789_.$''"

text \<open>The global a storage group lies in; \<open>globals\<close> are the names of the module's globals.\<close>

definition globalOfStorageGroupId :: "string list \<Rightarrow> string \<Rightarrow> string option" where
  "globalOfStorageGroupId globals handleGroupId =
     (if \<not> starts_with handleGroupId ''global:'' then None
      else
        (let name = takeWhile symbolChar (drop (length ''global:'') handleGroupId)
         in if name = [] then None else if name \<in> set globals then Some name else None))"

definition resolvedGlobalHandleIds :: "string list \<Rightarrow> ThreadLifecycleFact list \<Rightarrow> string set" where
  "resolvedGlobalHandleIds globals facts =
     tl_handleGroupId ` set (filter (\<lambda>fct. (tl_action fct = TL_Join \<or> tl_action fct = TL_Detach) \<and>
       globalOfStorageGroupId globals (tl_handleGroupId fct) \<noteq> None) facts)"

text \<open>A handle created on a global that another unit of the program joins or detaches is not outstanding here.\<close>

definition dropResolvedElsewhere ::
  "string list \<Rightarrow> (string \<Rightarrow> bool) \<Rightarrow> ThreadLifecycleFact list \<Rightarrow> ThreadLifecycleFact list" where
  "dropResolvedElsewhere globals resolvedElsewhere =
     filter (\<lambda>fct. \<not> (tl_action fct = TL_Create \<and>
       (case globalOfStorageGroupId globals (tl_handleGroupId fct) of None \<Rightarrow> False | Some handle \<Rightarrow> resolvedElsewhere handle)))"

section \<open>Why the rounds end\<close>

text \<open>
  A handle named after a parameter grows by a step of the path at each call that passes a place inside what it was given. That cannot
  go on for ever as long as the calls of a recursion hand on their parameters as they are.
\<close>

definition suffixAt :: "string \<Rightarrow> string \<Rightarrow> string" where
  "suffixAt f s = (if starts_with s (parameterPrefix f) then dropWhile isdigit (drop (length (parameterPrefix f)) s) else [])"

lemma parse_suffix: "parseLifecycleArgumentBinding f s = Inr (Some b) \<Longrightarrow> la_suffix b = suffixAt f s"
  by (auto simp: parseLifecycleArgumentBinding_def suffixAt_def Let_def split: if_splits)

lemma dropWhile_append_length: "length (dropWhile P (xs @ ys)) \<le> length (dropWhile P xs) + length ys"
  using length_dropWhile_le [of P ys] by (induction xs) auto

lemma suffixAt_append: "length (suffixAt f (g @ t)) \<le> length (suffixAt f g) + length t"
proof (cases "starts_with g (parameterPrefix f)")
  case True
  then obtain r where "g = parameterPrefix f @ r" by (auto simp: starts_with_iff)
  then show ?thesis using dropWhile_append_length [of isdigit r t] by (simp add: suffixAt_def starts_with_iff)
next
  case False
  have "length (dropWhile isdigit (drop n (g @ t))) \<le> length t" if "length g < n" for n
    using length_dropWhile_le [of isdigit "drop n (g @ t)"] that by simp
  moreover have "length g < length (parameterPrefix f)" if "starts_with (g @ t) (parameterPrefix f)"
    using False that by (auto simp: starts_with_def take_append not_less [symmetric] intro: ccontr)
  ultimately show ?thesis by (auto simp: suffixAt_def)
qed

definition called :: "DirectCallSite list \<Rightarrow> string \<Rightarrow> string \<Rightarrow> bool" where
  "called sites f g \<longleftrightarrow> (\<exists>site \<in> set sites. dc_callerFunctionId site = f \<and> dc_calleeFunctionId site = g)"

text \<open>What a call of a recursion may pass: nothing that has a name, a parameter as it is, or storage that is no parameter's.\<close>

definition handedOn :: "DirectCallSite list \<Rightarrow> string option list \<Rightarrow> bool" where
  "handedOn sites groups \<longleftrightarrow>
     list_all (\<lambda>g. case g of None \<Rightarrow> True | Some s \<Rightarrow> list_all (\<lambda>site. suffixAt (dc_calleeFunctionId site) s = []) sites) groups"

definition recursion_hands_on :: "(nat \<Rightarrow> string option list) \<Rightarrow> DirectCallSite list \<Rightarrow> bool" where
  "recursion_hands_on groups sites \<longleftrightarrow>
     (\<forall>site \<in> set sites. (called sites)\<^sup>*\<^sup>* (dc_calleeFunctionId site) (dc_callerFunctionId site) \<longrightarrow>
        (case dc_call site of None \<Rightarrow> True | Some call \<Rightarrow> handedOn sites (groups call)))"

text \<open>The facts of the caller a fact of the callee stands for, along chains of calls.\<close>

inductive derived :: "(nat \<Rightarrow> string option list) \<Rightarrow> ThreadLifecycleFact list \<Rightarrow> DirectCallSite list \<Rightarrow> ThreadLifecycleFact \<Rightarrow> bool"
  for groups collected sites where
  collected: "fct \<in> set collected \<Longrightarrow> derived groups collected sites fct"
| at_call: "derived groups collected sites fct \<Longrightarrow> site \<in> set sites \<Longrightarrow> tl_functionId fct = dc_calleeFunctionId site \<Longrightarrow>
    lifecycleAtCall groups site fct = Inr facts \<Longrightarrow> fct' \<in> set facts \<Longrightarrow> derived groups collected sites fct'"

text \<open>The functions above a function, itself included; a call that closes no cycle has fewer above its caller than above its callee.\<close>

definition above_of :: "DirectCallSite list \<Rightarrow> string \<Rightarrow> string set" where
  "above_of sites f = {g \<in> insert f (dc_callerFunctionId ` set sites). (called sites)\<^sup>*\<^sup>* g f}"

definition all_functions :: "DirectCallSite list \<Rightarrow> nat" where
  "all_functions sites = card (dc_callerFunctionId ` set sites) + 1"

lemma above_card: "card (above_of sites f) \<le> all_functions sites"
proof -
  have "card (above_of sites f) \<le> card (insert f (dc_callerFunctionId ` set sites))" unfolding above_of_def by (intro card_mono) auto
  also have "\<dots> \<le> all_functions sites" unfolding all_functions_def by (simp add: card_insert_if)
  finally show ?thesis .
qed

lemma above_finite: "finite (above_of sites f)"
  by (simp add: above_of_def)

lemma above_call:
  assumes "site \<in> set sites"
  shows "above_of sites (dc_callerFunctionId site) \<subseteq> above_of sites (dc_calleeFunctionId site)"
proof -
  have "called sites (dc_callerFunctionId site) (dc_calleeFunctionId site)" using assms by (auto simp: called_def)
  then show ?thesis using assms unfolding above_of_def by (auto intro: rtranclp.rtrancl_into_rtrancl)
qed

lemma above_call_strict:
  assumes "site \<in> set sites" "\<not> (called sites)\<^sup>*\<^sup>* (dc_calleeFunctionId site) (dc_callerFunctionId site)"
  shows "card (above_of sites (dc_callerFunctionId site)) < card (above_of sites (dc_calleeFunctionId site))"
proof (rule psubset_card_mono [OF above_finite])
  have "dc_calleeFunctionId site \<in> above_of sites (dc_calleeFunctionId site)" "dc_calleeFunctionId site \<notin> above_of sites (dc_callerFunctionId site)"
    using assms(2) by (auto simp: above_of_def)
  then show "above_of sites (dc_callerFunctionId site) \<subset> above_of sites (dc_calleeFunctionId site)" using above_call [OF assms(1)] by blast
qed

text \<open>The longest path a fact can have: what the collected facts have, and a step of the longest argument for each function further out.\<close>

definition longest :: "string set \<Rightarrow> nat" where
  "longest S = Max (insert 0 (length ` S))"

lemma longest: "finite S \<Longrightarrow> s \<in> S \<Longrightarrow> length s \<le> longest S"
  by (simp add: longest_def)

definition collectedHandles :: "ThreadLifecycleFact list \<Rightarrow> string set" where
  "collectedHandles collected = tl_handleGroupId ` set collected \<union> {s. Some s \<in> tl_sourceHandleGroupId ` set collected}"

definition passedGroups :: "(nat \<Rightarrow> string option list) \<Rightarrow> DirectCallSite list \<Rightarrow> string set" where
  "passedGroups groups sites = {g. \<exists>site \<in> set sites. \<exists>call. dc_call site = Some call \<and> Some g \<in> set (groups call)}"

lemma collectedHandles_finite: "finite (collectedHandles collected)"
  unfolding collectedHandles_def by (auto intro: finite_vimageI [where h = Some, unfolded vimage_def])

lemma passedGroups_finite: "finite (passedGroups groups sites)"
proof -
  have "passedGroups groups sites = (\<Union>site \<in> set sites. \<Union>call \<in> set_option (dc_call site). {g. Some g \<in> set (groups call)})"
    by (auto simp: passedGroups_def)
  moreover have "finite {g. Some g \<in> set (groups call)}" for call
    by (auto intro: finite_vimageI [where h = Some, unfolded vimage_def])
  ultimately show ?thesis by simp
qed

definition pathBound :: "(nat \<Rightarrow> string option list) \<Rightarrow> ThreadLifecycleFact list \<Rightarrow> DirectCallSite list \<Rightarrow> string \<Rightarrow> nat" where
  "pathBound groups collected sites f =
     longest (collectedHandles collected) + (all_functions sites - card (above_of sites f)) * longest (passedGroups groups sites)"

definition short :: "DirectCallSite list \<Rightarrow> nat \<Rightarrow> string \<Rightarrow> bool" where
  "short sites n s \<longleftrightarrow> (\<forall>site \<in> set sites. length (suffixAt (dc_calleeFunctionId site) s) \<le> n)"

lemma suffixAt_le: "length (suffixAt f s) \<le> length s"
  using length_dropWhile_le [of isdigit "drop (length (parameterPrefix f)) s"] by (auto simp: suffixAt_def intro: le_trans [OF _ diff_le_self])

lemma short_append: "short sites n g \<Longrightarrow> length t \<le> k \<Longrightarrow> short sites (n + k) (g @ t)"
  unfolding short_def using suffixAt_append by (meson add_mono le_trans)

lemma short_mono: "short sites n s \<Longrightarrow> n \<le> m \<Longrightarrow> short sites m s"
  unfolding short_def by (meson le_trans)

text \<open>The handle of a fact at the caller: a group the call passes, followed by the path of a handle of the callee.\<close>

lemma short_at_call:
  assumes "recursion_hands_on groups sites" "site \<in> set sites" "dc_call site = Some call" "Some g \<in> set (groups call)"
    "length t \<le> pathBound groups collected sites (dc_calleeFunctionId site)"
  shows "short sites (pathBound groups collected sites (dc_callerFunctionId site)) (g @ t)"
proof (cases "(called sites)\<^sup>*\<^sup>* (dc_calleeFunctionId site) (dc_callerFunctionId site)")
  case True
  then have "handedOn sites (groups call)" using assms(1-3) by (auto simp: recursion_hands_on_def)
  then have g: "short sites 0 g" using assms(4) by (auto simp: handedOn_def short_def list_all_iff)
  have "dc_calleeFunctionId site \<in> dc_callerFunctionId ` set sites"
    by (rule converse_rtranclpE [OF True]) (use assms(2) in \<open>force simp: called_def image_iff\<close>)+
  then have "above_of sites (dc_calleeFunctionId site) \<subseteq> above_of sites (dc_callerFunctionId site)"
    using True by (auto simp: above_of_def)
  then have "above_of sites (dc_callerFunctionId site) = above_of sites (dc_calleeFunctionId site)" using above_call [OF assms(2)] by blast
  then show ?thesis using short_append [OF g assms(5)] by (simp add: pathBound_def)
next
  case False
  let ?L = "longest (passedGroups groups sites)"
  have "length g \<le> ?L" using assms(2-4) passedGroups_finite by (intro longest) (auto simp: passedGroups_def)
  then have "short sites ?L g" unfolding short_def using suffixAt_le le_trans by blast
  then have "short sites (?L + pathBound groups collected sites (dc_calleeFunctionId site)) (g @ t)" using assms(5) by (rule short_append)
  moreover have "all_functions sites - card (above_of sites (dc_calleeFunctionId site)) + 1 \<le> all_functions sites - card (above_of sites (dc_callerFunctionId site))"
    using above_call_strict [OF assms(2) False] above_card [of sites "dc_calleeFunctionId site"] by simp
  then have "(all_functions sites - card (above_of sites (dc_calleeFunctionId site)) + 1) * ?L
      \<le> (all_functions sites - card (above_of sites (dc_callerFunctionId site))) * ?L" by (rule mult_le_mono1)
  then have "?L + pathBound groups collected sites (dc_calleeFunctionId site) \<le> pathBound groups collected sites (dc_callerFunctionId site)"
    by (simp add: pathBound_def)
  ultimately show ?thesis by (rule short_mono)
qed

lemma pathBound_call:
  assumes "site \<in> set sites"
  shows "pathBound groups collected sites (dc_calleeFunctionId site) \<le> pathBound groups collected sites (dc_callerFunctionId site)"
proof -
  have "card (above_of sites (dc_callerFunctionId site)) \<le> card (above_of sites (dc_calleeFunctionId site))"
    by (intro card_mono above_finite above_call assms)
  then show ?thesis by (auto simp: pathBound_def intro: diff_le_mono2)
qed

lemma pathBound_collected: "s \<in> collectedHandles collected \<Longrightarrow> short sites (pathBound groups collected sites f) s"
  using longest [OF collectedHandles_finite, of s collected] suffixAt_le [of _ s]
  by (auto simp: short_def pathBound_def intro: le_trans trans_le_add1)

definition lengthBound :: "(nat \<Rightarrow> string option list) \<Rightarrow> ThreadLifecycleFact list \<Rightarrow> DirectCallSite list \<Rightarrow> nat" where
  "lengthBound groups collected sites =
     longest (passedGroups groups sites) + longest (collectedHandles collected) + all_functions sites * longest (passedGroups groups sites)"

lemma pathBound_le: "longest (passedGroups groups sites) + pathBound groups collected sites f \<le> lengthBound groups collected sites"
  by (simp add: pathBound_def lengthBound_def)

definition bounded_handle :: "(nat \<Rightarrow> string option list) \<Rightarrow> ThreadLifecycleFact list \<Rightarrow> DirectCallSite list \<Rightarrow> string \<Rightarrow> string \<Rightarrow> bool" where
  "bounded_handle groups collected sites f s \<longleftrightarrow>
     short sites (pathBound groups collected sites f) s \<and> length s \<le> lengthBound groups collected sites"

lemma bounded_collected: "s \<in> collectedHandles collected \<Longrightarrow> bounded_handle groups collected sites f s"
  using longest [OF collectedHandles_finite, of s collected] pathBound_collected
  unfolding bounded_handle_def lengthBound_def by fastforce

lemma bounded_unchanged:
  "site \<in> set sites \<Longrightarrow> bounded_handle groups collected sites (dc_calleeFunctionId site) s \<Longrightarrow> bounded_handle groups collected sites (dc_callerFunctionId site) s"
  unfolding bounded_handle_def using pathBound_call short_mono by blast

lemma bounded_at_call:
  assumes "recursion_hands_on groups sites" "site \<in> set sites" "dc_call site = Some call" "groupOfArgument (groups call) n = Some g"
    "bounded_handle groups collected sites (dc_calleeFunctionId site) s"
    "parseLifecycleArgumentBinding (dc_calleeFunctionId site) s = Inr (Some b)"
  shows "bounded_handle groups collected sites (dc_callerFunctionId site) (g @ la_suffix b)"
proof -
  have g: "Some g \<in> set (groups call)" using assms(4) by (auto simp: groupOfArgument_def split: if_splits dest: nth_mem)
  have t: "length (la_suffix b) \<le> pathBound groups collected sites (dc_calleeFunctionId site)"
    using assms(2,5) parse_suffix [OF assms(6)] by (auto simp: bounded_handle_def short_def)
  have "length g \<le> longest (passedGroups groups sites)"
    using assms(2,3) g passedGroups_finite by (intro longest) (auto simp: passedGroups_def)
  then have "length (g @ la_suffix b) \<le> lengthBound groups collected sites"
    using t pathBound_le [of groups sites collected "dc_calleeFunctionId site"] by simp
  then show ?thesis using short_at_call [OF assms(1-3) g t] unfolding bounded_handle_def by simp
qed

definition lifecycle_ok :: "(nat \<Rightarrow> string option list) \<Rightarrow> ThreadLifecycleFact list \<Rightarrow> DirectCallSite list \<Rightarrow> string \<Rightarrow> ThreadLifecycleFact \<Rightarrow> bool" where
  "lifecycle_ok groups collected sites f fct \<longleftrightarrow>
     derived groups collected sites fct \<and> tl_functionId fct = f \<and> f \<in> tl_functionId ` set collected \<union> dc_callerFunctionId ` set sites \<and>
     tl_location fct \<in> tl_location ` set collected \<union> dc_userLocation ` set sites \<and>
     bounded_handle groups collected sites f (tl_handleGroupId fct) \<and>
     (case tl_sourceHandleGroupId fct of None \<Rightarrow> True | Some source \<Rightarrow> bounded_handle groups collected sites f source)"

lemma lifecycle_ok_collected: "fct \<in> set collected \<Longrightarrow> lifecycle_ok groups collected sites (tl_functionId fct) fct"
  by (auto simp: lifecycle_ok_def collectedHandles_def intro: derived.collected bounded_collected split: option.splits)
    (metis bounded_collected collectedHandles_def UnI2 imageI mem_Collect_eq)

lemma lifecycleAtCall_cases:
  assumes "lifecycleAtCall groups site fct = Inr facts" "fct' \<in> set facts"
  obtains call b g where "dc_call site = Some call" "parseLifecycleArgumentBinding (tl_functionId fct) (tl_handleGroupId fct) = Inr (Some b)"
    "groupOfArgument (groups call) (la_argumentIndex b) = Some g" "tl_handleGroupId fct' = g @ la_suffix b"
    "tl_functionId fct' = dc_callerFunctionId site" "tl_location fct' \<in> {tl_location fct, dc_userLocation site}"
    "tl_sourceHandleGroupId fct' = tl_sourceHandleGroupId fct \<or>
     (\<exists>source b' g'. tl_sourceHandleGroupId fct = Some source \<and> parseLifecycleArgumentBinding (tl_functionId fct) source = Inr (Some b') \<and>
        groupOfArgument (groups call) (la_argumentIndex b') = Some g' \<and> tl_sourceHandleGroupId fct' = Some (g' @ la_suffix b'))"
  using assms unfolding lifecycleAtCall_def
  by (auto simp: Let_def remapLifecycle_def split: option.splits sum.splits if_splits)

lemma lifecycle_ok_at_call:
  assumes "recursion_hands_on groups sites" "site \<in> set sites" "lifecycle_ok groups collected sites (dc_calleeFunctionId site) fct"
    "lifecycleAtCall groups site fct = Inr facts" "fct' \<in> set facts"
  shows "lifecycle_ok groups collected sites (dc_callerFunctionId site) fct'"
  using assms(4,5)
proof (cases rule: lifecycleAtCall_cases)
  case (1 call b g)
  have f: "tl_functionId fct = dc_calleeFunctionId site" "derived groups collected sites fct" using assms(3) by (simp_all add: lifecycle_ok_def)
  have "derived groups collected sites fct'" using derived.at_call [OF f(2) assms(2) f(1) assms(4,5)] .
  moreover have "bounded_handle groups collected sites (dc_callerFunctionId site) (tl_handleGroupId fct')"
    using bounded_at_call [OF assms(1,2) 1(1,3), of collected "tl_handleGroupId fct" b] assms(3) 1(2,4) f(1) by (simp add: lifecycle_ok_def)
  moreover have "bounded_handle groups collected sites (dc_callerFunctionId site) source" if src: "tl_sourceHandleGroupId fct' = Some source" for source
    using 1(7)
  proof
    assume "tl_sourceHandleGroupId fct' = tl_sourceHandleGroupId fct"
    then have "bounded_handle groups collected sites (dc_calleeFunctionId site) source"
      using src assms(3) unfolding lifecycle_ok_def by (simp split: option.splits)
    then show ?thesis by (rule bounded_unchanged [OF assms(2)])
  next
    assume "\<exists>source b' g'. tl_sourceHandleGroupId fct = Some source \<and> parseLifecycleArgumentBinding (tl_functionId fct) source = Inr (Some b') \<and>
        groupOfArgument (groups call) (la_argumentIndex b') = Some g' \<and> tl_sourceHandleGroupId fct' = Some (g' @ la_suffix b')"
    then obtain s b' g' where s: "tl_sourceHandleGroupId fct = Some s" "parseLifecycleArgumentBinding (tl_functionId fct) s = Inr (Some b')"
        "groupOfArgument (groups call) (la_argumentIndex b') = Some g'" "source = g' @ la_suffix b'" using src by auto
    have "bounded_handle groups collected sites (dc_calleeFunctionId site) s" using assms(3) s(1) by (simp add: lifecycle_ok_def)
    then show ?thesis using bounded_at_call [OF assms(1,2) 1(1) s(3), of collected s b'] s f(1) by simp
  qed
  ultimately show ?thesis using 1(5,6) assms(2,3) by (auto simp: lifecycle_ok_def split: option.splits)
qed

text \<open>Within these bounds there are only finitely many keys.\<close>

definition keyOf :: "nat \<Rightarrow> nat \<Rightarrow> string \<Rightarrow> string \<Rightarrow> string \<Rightarrow> SourceLocation \<Rightarrow> string" where
  "keyOf kind action handle f source location =
     to_string_nat kind @ ''|'' @ to_string_nat action @ ''|'' @ handle @ ''|'' @ f @ ''|'' @ source @ ''|'' @
     sl_file location @ ''|'' @ to_string_nat (sl_line location) @ ''|'' @ to_string_nat (sl_column location) @ ''|'' @ sl_function location"

definition possibleKeys :: "(nat \<Rightarrow> string option list) \<Rightarrow> ThreadLifecycleFact list \<Rightarrow> DirectCallSite list \<Rightarrow> string set" where
  "possibleKeys groups collected sites =
     (\<lambda>(kind, action, handle, f, source, location). keyOf kind action handle f source location) `
       ({..1} \<times> {..3} \<times> {s. length s \<le> lengthBound groups collected sites} \<times> (tl_functionId ` set collected \<union> dc_callerFunctionId ` set sites) \<times>
        {s. length s \<le> lengthBound groups collected sites} \<times> (tl_location ` set collected \<union> dc_userLocation ` set sites))"

lemma finite_short_strings: "finite {s :: string. length s \<le> n}"
  using finite_lists_length_le [of "UNIV :: char set" n] by simp

lemma possibleKeys_finite: "finite (possibleKeys groups collected sites)"
  unfolding possibleKeys_def by (intro finite_imageI finite_cartesian_product) (simp_all add: finite_short_strings)

lemma lifecycle_ok_key:
  assumes "lifecycle_ok groups collected sites f fct"
  shows "lifecycleFactKey fct \<in> possibleKeys groups collected sites"
proof -
  let ?source = "case tl_sourceHandleGroupId fct of None \<Rightarrow> [] | Some source \<Rightarrow> source"
  let ?x = "(handle_kind_index (tl_handleKind fct), action_index (tl_action fct), tl_handleGroupId fct, tl_functionId fct, ?source, tl_location fct)"
  have "handle_kind_index (tl_handleKind fct) \<le> 1" "action_index (tl_action fct) \<le> 3"
    by (cases "tl_handleKind fct"; simp) (cases "tl_action fct"; simp)
  then have "?x \<in> {..1} \<times> {..3} \<times> {s. length s \<le> lengthBound groups collected sites} \<times> (tl_functionId ` set collected \<union> dc_callerFunctionId ` set sites) \<times>
        {s. length s \<le> lengthBound groups collected sites} \<times> (tl_location ` set collected \<union> dc_userLocation ` set sites)"
    using assms by (auto simp: lifecycle_ok_def bounded_handle_def split: option.splits)
  moreover have "lifecycleFactKey fct = (\<lambda>(kind, action, handle, f, source, location). keyOf kind action handle f source location) ?x"
    by (simp add: lifecycleFactKey_def keyOf_def)
  ultimately show ?thesis unfolding possibleKeys_def by (rule rev_image_eqI)
qed

text \<open>What the loop keeps: one fact for a key, the index of the facts by function, and no fact that is not derived.\<close>

definition lifecycle_inv :: "(nat \<Rightarrow> string option list) \<Rightarrow> ThreadLifecycleFact list \<Rightarrow> DirectCallSite list \<Rightarrow> Lifecycles \<Rightarrow> bool" where
  "lifecycle_inv groups collected sites st \<longleftrightarrow>
     recursion_hands_on groups sites \<and> ly_keys st = lifecycleFactKey ` set (ly_facts st) \<and> distinct (map lifecycleFactKey (ly_facts st)) \<and>
     (\<forall>f. lifecyclesOf st f = filter (\<lambda>fct. tl_functionId fct = f) (ly_facts st)) \<and>
     list_all (\<lambda>fct. lifecycle_ok groups collected sites (tl_functionId fct) fct) (ly_facts st)"

lemma lifecyclesOf_add:
  "lifecycleFactKey fct \<notin> ly_keys st \<Longrightarrow>
   lifecyclesOf (fst (addLifecycleFact fct st)) f = lifecyclesOf st f @ (if tl_functionId fct = f then [fct] else [])"
  by (simp add: lifecyclesOf_def addLifecycleFact_def Let_def umap_lookup_update push_def split: option.splits)

lemma lifecycle_inv_add:
  assumes "lifecycle_inv groups collected sites st" "lifecycle_ok groups collected sites (tl_functionId fct) fct"
  shows "lifecycle_inv groups collected sites (fst (addLifecycleFact fct st))"
proof (cases "lifecycleFactKey fct \<in> ly_keys st")
  case True
  then show ?thesis using assms(1) by (simp add: addLifecycleFact_def)
next
  case False
  then show ?thesis using assms lifecyclesOf_add [OF False]
    unfolding lifecycle_inv_def by (simp add: addLifecycleFact_def Let_def insert_commute)
qed

lemma lifecycle_inv_bounded:
  assumes "lifecycle_inv groups collected sites st"
  shows "card (ly_keys st) \<le> card (possibleKeys groups collected sites)"
proof (rule card_mono [OF possibleKeys_finite])
  show "ly_keys st \<subseteq> possibleKeys groups collected sites"
    using assms by (auto simp: lifecycle_inv_def list_all_iff intro: lifecycle_ok_key)
qed

lemma lifecycle_inv_grows:
  assumes "lifecycle_inv groups collected sites st" "snd (addLifecycleFact fct st)"
  shows "card (ly_keys st) < card (ly_keys (fst (addLifecycleFact fct st)))"
  using assms by (auto simp: addLifecycleFact_def Let_def lifecycle_inv_def split: if_splits)

interpretation lifecycles: call_spread calleeLifecycles "lifecycleAtCall groups" addLifecycleFact sites
  "lifecycle_inv groups collected sites"
  "\<lambda>site fct. recursion_hands_on groups sites \<and> lifecycle_ok groups collected sites (dc_calleeFunctionId site) fct"
  "\<lambda>fct. lifecycle_ok groups collected sites (tl_functionId fct) fct"
  "\<lambda>st fct. lifecycleFactKey fct \<in> ly_keys st" "\<lambda>st. card (ly_keys st)" "card (possibleKeys groups collected sites)"
  for groups collected sites
proof unfold_locales
  fix site fct facts fct'
  assume a: "site \<in> set sites" "recursion_hands_on groups sites \<and> lifecycle_ok groups collected sites (dc_calleeFunctionId site) fct"
    "lifecycleAtCall groups site fct = Inr facts" "fct' \<in> set facts"
  then have "lifecycle_ok groups collected sites (dc_callerFunctionId site) fct'" by (intro lifecycle_ok_at_call) auto
  then show "lifecycle_ok groups collected sites (tl_functionId fct') fct'" by (simp add: lifecycle_ok_def)
next
  fix st fct and site :: DirectCallSite
  assume inv: "lifecycle_inv groups collected sites st" "fct \<in> set (calleeLifecycles st site)"
  then have "fct \<in> set (ly_facts st)" "tl_functionId fct = dc_calleeFunctionId site" by (simp_all add: lifecycle_inv_def calleeLifecycles_def)
  then show "recursion_hands_on groups sites \<and> lifecycle_ok groups collected sites (dc_calleeFunctionId site) fct"
    using inv(1) unfolding lifecycle_inv_def list_all_iff by auto
qed (auto simp: lifecycle_inv_add lifecycle_inv_grows lifecycle_inv_bounded, auto simp: addLifecycleFact_def Let_def split: if_splits)

lemma lifecycle_inv_start:
  assumes "recursion_hands_on groups sites"
  shows "lifecycle_inv groups collected sites (fold (\<lambda>fct st. fst (addLifecycleFact fct st)) collected noLifecycles)"
    and "lifecycleFactKey ` set collected \<subseteq> ly_keys (fold (\<lambda>fct st. fst (addLifecycleFact fct st)) collected noLifecycles)"
proof -
  let ?I = "lifecycle_inv groups collected sites" and ?st = "\<lambda>facts. fold (\<lambda>fct st. fst (addLifecycleFact fct st)) facts noLifecycles"
  have added: "?I (fold (\<lambda>fct st. fst (addLifecycleFact fct st)) facts st)" if "?I st" "set facts \<subseteq> set collected" for facts st
    using that by (induction facts arbitrary: st) (auto intro: lifecycle_inv_add lifecycle_ok_collected)
  have "?I noLifecycles" using assms by (simp add: lifecycle_inv_def noLifecycles_def lifecyclesOf_def)
  then show "?I (?st collected)" using added by blast
  have "lifecycleFactKey ` set facts \<union> ly_keys st \<subseteq> ly_keys (fold (\<lambda>fct st. fst (addLifecycleFact fct st)) facts st)" for facts st
  proof (induction facts arbitrary: st)
    case (Cons fct facts)
    have "insert (lifecycleFactKey fct) (ly_keys st) \<subseteq> ly_keys (fst (addLifecycleFact fct st))" by (auto simp: addLifecycleFact_def Let_def)
    then show ?case using Cons.IH [of "fst (addLifecycleFact fct st)"] by auto
  qed simp
  then show "lifecycleFactKey ` set collected \<subseteq> ly_keys (?st collected)" by blast
qed

text \<open>
  C18: When the calls of a recursion hand on their parameters as they are, the propagation of lifecycle facts ends. Unless an argument index is too
  long a number, it ends with one fact for each key, all derived from the collected facts along chains of calls, among them the
  collected ones, and complete: at every call, what each fact of the callee stands for is there.
\<close>

theorem lifecycles_propagated:
  assumes "recursion_hands_on groups sites"
  shows "\<exists>r. propagateLifecycles groups collected sites = Some r \<and>
    (case r of
       Inl _ \<Rightarrow> \<exists>fct site. derived groups collected sites fct \<and> lifecycleAtCall groups site fct = Inl ()
     | Inr st \<Rightarrow> distinct (map lifecycleFactKey (ly_facts st)) \<and> list_all (derived groups collected sites) (ly_facts st) \<and>
         lifecycleFactKey ` set collected \<subseteq> lifecycleFactKey ` set (ly_facts st) \<and>
         list_all (\<lambda>site. list_all (\<lambda>fct. tl_functionId fct = dc_calleeFunctionId site \<longrightarrow>
             (case lifecycleAtCall groups site fct of
                Inl _ \<Rightarrow> False
              | Inr facts \<Rightarrow> lifecycleFactKey ` set facts \<subseteq> lifecycleFactKey ` set (ly_facts st))) (ly_facts st)) sites)"
proof -
  let ?start = "fold (\<lambda>fct st. fst (addLifecycleFact fct st)) collected noLifecycles"
  obtain r where run: "propagateLifecycles groups collected sites = Some r" and spec: "case r of
       Inl e \<Rightarrow> lifecycles.throwing groups sites collected
     | Inr st \<Rightarrow> lifecycle_inv groups collected sites st \<and> (\<forall>fct. lifecycleFactKey fct \<in> ly_keys ?start \<longrightarrow> lifecycleFactKey fct \<in> ly_keys st) \<and>
         (\<forall>site \<in> set sites. \<forall>fct \<in> set (calleeLifecycles st site). lifecycles.covers groups site fct st)"
    using lifecycles.spreadLoop_closes [OF lifecycle_inv_start(1) [OF assms, of collected]] unfolding propagateLifecycles_def by blast
  show ?thesis
  proof (cases r)
    case (Inl e)
    then have "\<exists>fct site. derived groups collected sites fct \<and> lifecycleAtCall groups site fct = Inl ()"
      using spec unfolding lifecycles.throwing_def by (auto simp: lifecycle_ok_def)
    then show ?thesis using run Inl by simp
  next
    case (Inr st)
    then have inv: "lifecycle_inv groups collected sites st" and start: "ly_keys ?start \<subseteq> ly_keys st"
      and closed: "\<And>site fct. site \<in> set sites \<Longrightarrow> fct \<in> set (calleeLifecycles st site) \<Longrightarrow> lifecycles.covers groups site fct st"
      using spec lifecycle_inv_start(1) [OF assms, of collected] by (auto simp: lifecycle_inv_def)
    then have keys: "ly_keys st = lifecycleFactKey ` set (ly_facts st)" by (simp add: lifecycle_inv_def)
    have "case lifecycleAtCall groups site fct of Inl _ \<Rightarrow> False | Inr facts \<Rightarrow> lifecycleFactKey ` set facts \<subseteq> lifecycleFactKey ` set (ly_facts st)"
      if "site \<in> set sites" "fct \<in> set (ly_facts st)" "tl_functionId fct = dc_calleeFunctionId site" for site fct
    proof -
      have "lifecycles.covers groups site fct st" using closed inv that by (simp add: lifecycle_inv_def calleeLifecycles_def)
      then show ?thesis unfolding lifecycles.covers_def keys by auto
    qed
    moreover have "lifecycleFactKey ` set collected \<subseteq> lifecycleFactKey ` set (ly_facts st)"
      using lifecycle_inv_start(2) [OF assms, of collected] start keys by simp
    ultimately show ?thesis using run Inr inv by (auto simp: lifecycle_inv_def lifecycle_ok_def list_all_iff)
  qed
qed

text \<open>\<open>stopAll\<close> joins the thread it is passed; \<open>main\<close> passes the first element of its array.\<close>

definition sample_join :: "string \<Rightarrow> ThreadLifecycleFact" where
  "sample_join handle =
     \<lparr>tl_handleKind = TH_StdThread, tl_action = TL_Join, tl_handleGroupId = handle, tl_sourceHandleGroupId = None, tl_functionId = ''stopAll'',
      tl_location = no_location, tl_resolvedOnAllPaths = False, tl_insideLoop = False, tl_escapedToUntrackedStorage = False, tl_propagated = False\<rparr>"

definition sample_call :: "string \<Rightarrow> DirectCallSite" where
  "sample_call caller =
     \<lparr>dc_call = Some 1, dc_callerFunctionId = caller, dc_calleeFunctionId = ''stopAll'', dc_loweredLocation = no_location,
      dc_userLocation = no_location, dc_insideLoop = False\<rparr>"

theorem lifecycles_propagated_witness:
  "\<exists>r. propagateLifecycles (\<lambda>_. [Some ''stack:main:t[0]'']) [sample_join ''arg:stopAll:0''] [sample_call ''main''] = Some r"
proof -
  have "recursion_hands_on (\<lambda>_. [Some ''stack:main:t[0]'']) [sample_call ''main'']"
    by (simp add: recursion_hands_on_def sample_call_def handedOn_def suffixAt_def starts_with_def parameterPrefix_def)
  then show ?thesis using lifecycles_propagated [of "\<lambda>_. [Some ''stack:main:t[0]'']" "[sample_call ''main'']" "[sample_join ''arg:stopAll:0'']"] by blast
qed

text \<open>
  A helper that joins the handle it is passed and calls itself on the next one, \<open>void stopAll(std::thread* t) { t->join(); stopAll(t + 1); }\<close>: each
  round names one more handle, \<open>arg:stopAll:0[1][1]...\<close>, and the loop never ends.
\<close>

definition walked :: "nat \<Rightarrow> ThreadLifecycleFact" where
  "walked n = (sample_join (''arg:stopAll:0'' @ concat (replicate n ''[1]'')))\<lparr>tl_propagated := n \<noteq> 0\<rparr>"

definition walking :: "nat \<Rightarrow> Lifecycles" where
  "walking n = \<lparr>ly_facts = map walked [0..<n + 1], ly_keys = lifecycleFactKey ` walked ` {..n}, ly_byFunction = [(''stopAll'', map walked [0..<n + 1])]\<rparr>"

abbreviation next_element :: "nat \<Rightarrow> string option list" where
  "next_element \<equiv> \<lambda>_. [Some ''arg:stopAll:0[1]'']"

lemma walked_at_call: "lifecycleAtCall next_element (sample_call ''stopAll'') (walked n) = Inr [walked (Suc n)]"
proof -
  have "takeWhile isdigit (''0'' @ concat (replicate n ''[1]'')) = ''0''" "dropWhile isdigit (''0'' @ concat (replicate n ''[1]'')) = concat (replicate n ''[1]'')"
    by (cases n; simp add: isdigit_def)+
  then have "parseLifecycleArgumentBinding ''stopAll'' (''arg:stopAll:0'' @ concat (replicate n ''[1]'')) =
      Inr (Some \<lparr>la_argumentIndex = 0, la_suffix = concat (replicate n ''[1]'')\<rparr>)"
    by (simp add: parseLifecycleArgumentBinding_def parameterPrefix_def starts_with_def digits_value_def digit_value_def)
  then show ?thesis
    by (simp add: lifecycleAtCall_def walked_def sample_join_def sample_call_def groupOfArgument_def remapLifecycle_def shouldRemapLifecycleLocation_def no_location_def)
qed

lemma walked_key_inject: "lifecycleFactKey (walked m) = lifecycleFactKey (walked n) \<longleftrightarrow> m = n"
proof
  assume "lifecycleFactKey (walked m) = lifecycleFactKey (walked n)"
  then have "length (lifecycleFactKey (walked m)) = length (lifecycleFactKey (walked n))" by simp
  then show "m = n" by (simp add: lifecycleFactKey_def walked_def sample_join_def length_concat sum_list_replicate)
qed simp

lemma walking_step:
  "k < n \<Longrightarrow> spreadFact (lifecycleAtCall next_element) addLifecycleFact (sample_call ''stopAll'') (walked k) (walking n, False) = Inr (walking n, False)"
  "spreadFact (lifecycleAtCall next_element) addLifecycleFact (sample_call ''stopAll'') (walked n) (walking n, False) = Inr (walking (n + 1), True)"
proof -
  show "spreadFact (lifecycleAtCall next_element) addLifecycleFact (sample_call ''stopAll'') (walked k) (walking n, False) = Inr (walking n, False)" if "k < n"
  proof -
    have "lifecycleFactKey (walked (Suc k)) \<in> ly_keys (walking n)" using that by (auto simp: walking_def)
    then show ?thesis by (simp add: spreadFact_def walked_at_call addInstance_def addLifecycleFact_def)
  qed
  have "lifecycleFactKey (walked (Suc n)) \<notin> ly_keys (walking n)" by (auto simp: walking_def walked_key_inject)
  moreover have "tl_functionId (walked (Suc n)) = ''stopAll''" by (simp add: walked_def sample_join_def)
  ultimately show "spreadFact (lifecycleAtCall next_element) addLifecycleFact (sample_call ''stopAll'') (walked n) (walking n, False) = Inr (walking (n + 1), True)"
    by (simp add: spreadFact_def walked_at_call addInstance_def addLifecycleFact_def Let_def walking_def push_def atMost_Suc)
qed

lemma lifecycle_recursion_never_ends:
  "propagateLifecycles next_element [sample_join ''arg:stopAll:0''] [sample_call ''stopAll''] = None"
proof -
  let ?D = "\<lambda>st. \<exists>n. st = walking n"
  have earlier: "foldE (spreadFact (lifecycleAtCall next_element) addLifecycleFact (sample_call ''stopAll'')) (map walked [0..<k]) (walking n, False) = Inr (walking n, False)"
    if "k \<le> n" for k n using that by (induction k) (simp_all add: foldE_append walking_step(1))
  have of: "lifecyclesOf (walking n) ''stopAll'' = map walked [0..<n] @ [walked n]" for n by (simp add: lifecyclesOf_def walking_def)
  have round: "spreadCall calleeLifecycles (lifecycleAtCall next_element) addLifecycleFact (sample_call ''stopAll'') (walking n, False) = Inr (walking (n + 1), True)" for n
    using earlier [of n n] walking_step(2) [of n] by (simp add: spreadCall_def calleeLifecycles_def sample_call_def of foldE_append)
  have start: "fold (\<lambda>fct st. fst (addLifecycleFact fct st)) [sample_join ''arg:stopAll:0''] noLifecycles = walking 0"
    by (simp add: addLifecycleFact_def noLifecycles_def walking_def walked_def push_def Let_def) (simp add: sample_join_def)
  show ?thesis unfolding propagateLifecycles_def start
    by (rule spreadLoop_diverges [where D = ?D]) (use round in auto)
qed

end
