(* ===== verification/Lock_Order_Collector.thy ===== *)
theory Lock_Order_Collector
  imports Lock_Scope
begin

text \<open>
  The orders in which a function takes locks: \<open>LockOrderCollector\<close> of \<open>analysis/lock_order_collector.cpp\<close>. It runs the data flow of \<open>Lock_Flow\<close>
  from the locks held on entry, and records at every acquisition an order from each lock held there. What LLVM tells about
  comparisons of addresses is a record of functions.
\<close>

section \<open>The collector\<close>

definition kLocksHeldByCaller :: string where
  "kLocksHeldByCaller = ''%caller''"

text \<open>The locks that may gate an order; reading the root of a lock's name may throw.\<close>

fun gatesFrom :: "string \<Rightarrow> string list \<Rightarrow> string set \<Rightarrow> unit + string set" where
  "gatesFrom symbol [] gates = Inr gates"
| "gatesFrom symbol (lockId # lockIds) gates =
     (case lockIdRoot lockId of
        Inl e \<Rightarrow> Inl e
      | Inr root \<Rightarrow> gatesFrom symbol lockIds (if rb_symbol root \<noteq> symbol then insert lockId gates else gates))"

definition gatesAmong :: "string set \<Rightarrow> SharedObjectBinding option \<Rightarrow> unit + string set" where
  "gatesAmong heldLocks sharedObject =
     (case sharedObject of
        None \<Rightarrow> Inr heldLocks
      | Some object \<Rightarrow>
          if \<not> sb_keptForLackOfProof object then Inr heldLocks
          else gatesFrom (rb_symbol (sb_object object)) (sorted_list_of_set heldLocks) {})"

record OrderRecord =
  or_facts :: "LockOrderFact list"
  or_sites :: "nat list list"
  or_index :: "string \<rightharpoonup> nat"

definition noOrders :: OrderRecord where
  "noOrders = \<lparr>or_facts = [], or_sites = [], or_index = Map.empty\<rparr>"

definition orderKey :: "string \<Rightarrow> string \<Rightarrow> string \<Rightarrow> SourceLocation \<Rightarrow> string" where
  "orderKey f heldLock acquiredLock location =
     f @ ''|'' @ heldLock @ ''|'' @ acquiredLock @ ''|'' @ sl_file location @ ''|'' @ to_string_nat (sl_line location) @ ''|'' @
     to_string_nat (sl_column location)"

text \<open>What is known at the acquisition: the function, the instruction, the gates and the threads running there.\<close>

record Acquisition =
  aq_functionId :: string
  aq_site :: nat
  aq_location :: SourceLocation
  aq_gates :: "string set"
  aq_liveEntries :: entry_set
  aq_startedEntries :: entry_set

definition recordOrder :: "Acquisition \<Rightarrow> string \<Rightarrow> bool \<Rightarrow> string \<Rightarrow> OrderRecord \<Rightarrow> OrderRecord" where
  "recordOrder at acquiredLock recursive heldLock rec =
     (let key = orderKey (aq_functionId at) heldLock acquiredLock (aq_location at)
      in case or_index rec key of
           Some n \<Rightarrow>
             if aq_site at \<in> set (or_sites rec ! n) then rec
             else rec\<lparr>or_sites := (or_sites rec)[n := or_sites rec ! n @ [aq_site at]]\<rparr>
         | None \<Rightarrow>
             \<lparr>or_facts = or_facts rec @
                [\<lparr>lo_functionId = aq_functionId at, lo_firstLockId = heldLock, lo_secondLockId = acquiredLock, lo_location = aq_location at,
                  lo_heldLocks = aq_gates at, lo_inRootTask = False, lo_liveEntries = aq_liveEntries at, lo_startedEntries = aq_startedEntries at,
                  lo_lowerAddressFirst = False, lo_secondIsRecursive = recursive, lo_boundBySpawn = False\<rparr>],
              or_sites = or_sites rec @ [[aq_site at]],
              or_index = (or_index rec)(key \<mapsto> length (or_facts rec))\<rparr>)"

definition recordAcquired :: "Acquisition \<Rightarrow> LockStateChange \<Rightarrow> string set \<Rightarrow> string \<Rightarrow> OrderRecord \<Rightarrow> OrderRecord" where
  "recordAcquired at change currentLocks acquiredLock =
     fold (recordOrder at acquiredLock (acquiredLock \<in> set (lc_recursivelyAcquirable change))) (sorted_list_of_set currentLocks)"

record OrderContext =
  oc_functionId :: string
  oc_sharedObject :: "SharedObjectBinding option"
  oc_liveEntries :: "nat \<rightharpoonup> entry_set"
  oc_startedEntries :: "nat \<rightharpoonup> entry_set"

definition entriesAt :: "(nat \<rightharpoonup> entry_set) \<Rightarrow> nat \<Rightarrow> entry_set" where
  "entriesAt entries a = (case entries a of Some e \<Rightarrow> e | None \<Rightarrow> {})"

definition acquisitionAt :: "OrderContext \<Rightarrow> 'v Instruction \<Rightarrow> string set \<Rightarrow> Acquisition" where
  "acquisitionAt ctx instruction gates =
     \<lparr>aq_functionId = oc_functionId ctx, aq_site = in_address instruction, aq_location = in_userLocation instruction, aq_gates = gates,
      aq_liveEntries = entriesAt (oc_liveEntries ctx) (in_address instruction),
      aq_startedEntries = entriesAt (oc_startedEntries ctx) (in_address instruction)\<rparr>"

text \<open>What was recorded is \<open>Inl\<close> once an exception was thrown.\<close>

definition orderInstruction ::
  "OrderContext \<Rightarrow> FunctionLockEffects \<Rightarrow> 'v Instruction \<Rightarrow> string set \<times> (unit + OrderRecord) \<Rightarrow> string set \<times> (unit + OrderRecord)" where
  "orderInstruction ctx effects instruction st =
     (let (currentLocks, recorded) = st; change = lockStateChangeFor instruction effects
      in if change_empty change then st
         else
           (let currentLocks = currentLocks - set (lc_released change);
                recorded =
                  (case recorded of
                     Inl e \<Rightarrow> Inl e
                   | Inr rec \<Rightarrow>
                       if lc_orderedAcquired change \<noteq> [] \<and> currentLocks \<noteq> {}
                       then
                         (case gatesAmong currentLocks (oc_sharedObject ctx) of
                            Inl e \<Rightarrow> Inl e
                          | Inr gates \<Rightarrow>
                              Inr (fold (recordAcquired (acquisitionAt ctx instruction gates) change currentLocks) (lc_orderedAcquired change) rec))
                       else Inr rec)
            in (currentLocks \<union> set (lc_acquired change), recorded)))"

definition orderBlock :: "'v Function \<Rightarrow> OrderContext \<Rightarrow> FunctionLockEffects \<Rightarrow> (unit + OrderRecord) block_process" where
  "orderBlock f ctx effects b locks recorded = fold (orderInstruction ctx effects) (bb_instructions (block f b)) (locks, recorded)"

section \<open>Orders chosen by comparing addresses\<close>

datatype Predicate = ICMP_LT | ICMP_LE | ICMP_GT | ICMP_GE

fun swappedPredicate :: "Predicate \<Rightarrow> Predicate" where
  "swappedPredicate ICMP_LT = ICMP_GT"
| "swappedPredicate ICMP_LE = ICMP_GE"
| "swappedPredicate ICMP_GT = ICMP_LT"
| "swappedPredicate ICMP_GE = ICMP_LE"

text \<open>A block that ends in a conditional branch on a relational comparison, with the objects whose addresses are compared.\<close>

record AddressComparison =
  cm_lhs :: "nat option"
  cm_rhs :: "nat option"
  cm_predicate :: Predicate
  cm_trueSuccessor :: nat
  cm_falseSuccessor :: nat

record 'v AddressView =
  av_baseObject :: "'v \<Rightarrow> nat option"
  av_comparison :: "nat \<Rightarrow> AddressComparison option"
  av_edgeDominates :: "nat \<Rightarrow> nat \<Rightarrow> nat \<Rightarrow> bool"

definition lockedObject :: "'v AddressView \<Rightarrow> 'v Resolver \<Rightarrow> 'v Function \<Rightarrow> nat \<Rightarrow> string \<Rightarrow> nat option" where
  "lockedObject view locks f site lockId =
     (case List.find (\<lambda>i. in_address i = site) (fn_instructions f) of
        None \<Rightarrow> None
      | Some i \<Rightarrow>
          (case in_call i of
             None \<Rightarrow> None
           | Some call \<Rightarrow> Option.bind (List.find (\<lambda>operand. lockIdOf locks operand = Some lockId) (ca_args call)) (av_baseObject view)))"

definition allFollow :: "'v AddressView \<Rightarrow> nat \<Rightarrow> nat \<Rightarrow> nat list \<Rightarrow> bool" where
  "allFollow view b successor sites = list_all (av_edgeDominates view b successor) sites"

definition comparesObjects :: "'v AddressView \<Rightarrow> nat \<Rightarrow> nat \<Rightarrow> nat list \<Rightarrow> nat list \<Rightarrow> nat \<Rightarrow> bool" where
  "comparesObjects view firstObject secondObject forward backward b =
     (case av_comparison view b of
        None \<Rightarrow> False
      | Some comparison \<Rightarrow>
          (let straight = (cm_lhs comparison = Some firstObject \<and> cm_rhs comparison = Some secondObject);
               swapped = (cm_lhs comparison = Some secondObject \<and> cm_rhs comparison = Some firstObject)
           in if straight = swapped then False
              else
                (let predicate = (if straight then cm_predicate comparison else swappedPredicate (cm_predicate comparison));
                     firstLowerWhenTrue = (predicate = ICMP_LT \<or> predicate = ICMP_LE);
                     firstLower = (if firstLowerWhenTrue then cm_trueSuccessor comparison else cm_falseSuccessor comparison);
                     secondLower = (if firstLowerWhenTrue then cm_falseSuccessor comparison else cm_trueSuccessor comparison)
                 in allFollow view b firstLower forward \<and> allFollow view b secondLower backward)))"

definition ordersLowerAddressFirst ::
  "'v AddressView \<Rightarrow> 'v Resolver \<Rightarrow> 'v Function \<Rightarrow> nat list \<Rightarrow> nat list \<Rightarrow> string \<Rightarrow> string \<Rightarrow> bool" where
  "ordersLowerAddressFirst view locks f forward backward first second =
     (case (lockedObject view locks f (hd backward) first, lockedObject view locks f (hd forward) second) of
        (Some firstObject, Some secondObject) \<Rightarrow>
          list_ex (comparesObjects view firstObject secondObject forward backward) [0 ..< length (fn_blocks f)]
      | _ \<Rightarrow> False)"

definition markPair :: "'v AddressView \<Rightarrow> 'v Resolver \<Rightarrow> 'v Function \<Rightarrow> nat list list \<Rightarrow> nat \<times> nat \<Rightarrow> LockOrderFact list \<Rightarrow> LockOrderFact list" where
  "markPair view locks f sites p facts =
     (let (lhs, rhs) = p;
          opposite = (lo_firstLockId (facts ! lhs) = lo_secondLockId (facts ! rhs) \<and> lo_secondLockId (facts ! lhs) = lo_firstLockId (facts ! rhs))
      in if \<not> opposite \<or> \<not> ordersLowerAddressFirst view locks f (sites ! lhs) (sites ! rhs) (lo_firstLockId (facts ! lhs)) (lo_secondLockId (facts ! lhs))
         then facts
         else
           (let facts = facts[lhs := (facts ! lhs)\<lparr>lo_lowerAddressFirst := True\<rparr>]
            in facts[rhs := (facts ! rhs)\<lparr>lo_lowerAddressFirst := True\<rparr>]))"

definition markAddressOrders :: "'v AddressView \<Rightarrow> 'v Resolver \<Rightarrow> 'v Function \<Rightarrow> OrderRecord \<Rightarrow> LockOrderFact list" where
  "markAddressOrders view locks f rec = fold (markPair view locks f (or_sites rec)) (pairs [0 ..< length (or_facts rec)]) (or_facts rec)"

definition orderObject :: "SharedObjectBindings option \<Rightarrow> string \<Rightarrow> bool \<Rightarrow> SharedObjectBinding option" where
  "orderObject sharedObjects f spawnedThread =
     (case sharedObjects of
        None \<Rightarrow> None
      | Some bindings \<Rightarrow>
          (case map_of bindings f of
             None \<Rightarrow> None
           | Some binding \<Rightarrow> if spawnedThread \<or> \<not> sb_runByDirectCalls binding then Some binding else None))"

text \<open>The collector has the members of the tracker.\<close>

definition orderResolver :: "'v LockScopeTracker \<Rightarrow> 'v Function \<Rightarrow> bool \<Rightarrow> 'v Resolver" where
  "orderResolver collector f spawnedThread =
     \<lparr>rs_naming = lt_naming collector, rs_summaries = lt_summaries collector, rs_nameParameterLocks = False,
      rs_sharedObject = orderObject (lt_sharedObjects collector) (fn_id f) spawnedThread,
      rs_localObjects = Some (localObjects (lt_sharedObjects collector)), rs_nameParameterFieldLocks = True\<rparr>"

definition collectLockOrders ::
  "'v AddressView \<Rightarrow> 'v LockScopeTracker \<Rightarrow> 'v Function \<Rightarrow> string set \<Rightarrow> (nat \<rightharpoonup> entry_set) \<Rightarrow> (nat \<rightharpoonup> entry_set) \<Rightarrow> bool \<Rightarrow>
     (unit + LockOrderFact list) option" where
  "collectLockOrders view collector f initialHeldLocks live started spawnedThread =
     (let locks = orderResolver collector f spawnedThread;
          effects = collectFunctionLockEffects f locks;
          ctx = \<lparr>oc_functionId = fn_id f, oc_sharedObject = rs_sharedObject locks, oc_liveEntries = live, oc_startedEntries = started\<rparr>
      in map_option
           (\<lambda>st. case fl_recorded st of Inl e \<Rightarrow> Inl e | Inr rec \<Rightarrow> Inr (markAddressOrders view locks f rec))
           (flowLoop f (orderBlock f ctx effects) (initialFlow f (insert kLocksHeldByCaller initialHeldLocks) (Inr noOrders))))"

section \<open>The collector runs the data flow\<close>

lemma changeLocks_empty: "change_empty change \<Longrightarrow> changeLocks change s = s"
  by (simp add: change_empty_def changeLocks_def)

lemma orderInstruction_locks: "fst (orderInstruction ctx effects i st) = changeLocks (lockStateChangeFor i effects) (fst st)"
  by (cases st) (simp add: orderInstruction_def Let_def changeLocks_empty, simp add: changeLocks_def)

lemma fold_order_locks: "fst (fold (orderInstruction ctx effects) is st) = runLocks effects is (fst st)"
  by (induction "is" arbitrary: st) (simp_all add: runLocks_def orderInstruction_locks)

interpretation orders: lock_flow "orderBlock f ctx effects" "blockKill f effects" "blockGen f effects"
  for f :: "'v Function" and ctx effects
proof unfold_locales
  show "fst (orderBlock f ctx effects b s r) = through (blockKill f effects) (blockGen f effects) b s" for b s r
    unfolding through_block orderBlock_def by (simp add: fold_order_locks)
qed simp

section \<open>What is recorded\<close>

definition orderKeyOf :: "LockOrderFact \<Rightarrow> string" where
  "orderKeyOf order = orderKey (lo_functionId order) (lo_firstLockId order) (lo_secondLockId order) (lo_location order)"

definition record_wf :: "OrderRecord \<Rightarrow> bool" where
  "record_wf rec \<longleftrightarrow> dom (or_index rec) = orderKeyOf ` set (or_facts rec)"

text \<open>\<open>locks_before f effects E i s\<close>: a run that enters with the locks \<open>E\<close> held reaches instruction \<open>i\<close> with the locks \<open>s\<close> held.\<close>

definition locks_before :: "'v Function \<Rightarrow> FunctionLockEffects \<Rightarrow> string set \<Rightarrow> 'v Instruction \<Rightarrow> string set \<Rightarrow> bool" where
  "locks_before f effects E i s \<longleftrightarrow>
     (\<exists>b pre post s0. b < length (fn_blocks f) \<and> bb_instructions (block f b) = pre @ i # post \<and>
        held_on_path f (blockLocks f effects) E b s0 \<and> s = runLocks effects pre s0)"

definition takes_order :: "FunctionLockEffects \<Rightarrow> 'v Instruction \<Rightarrow> string set \<Rightarrow> LockOrderFact \<Rightarrow> bool" where
  "takes_order effects i s order \<longleftrightarrow>
     lo_location order = in_userLocation i \<and> lo_firstLockId order \<in> s - set (lc_released (lockStateChangeFor i effects)) \<and>
     lo_secondLockId order \<in> set (lc_orderedAcquired (lockStateChangeFor i effects))"

definition recorded_ok :: "'v Function \<Rightarrow> FunctionLockEffects \<Rightarrow> string set \<Rightarrow> unit + OrderRecord \<Rightarrow> bool" where
  "recorded_ok f effects E recorded \<longleftrightarrow>
     (case recorded of
        Inl _ \<Rightarrow> \<exists>i s l. locks_before f effects E i s \<and> l \<in> s \<and> lockIdRoot l = Inl ()
      | Inr rec \<Rightarrow> record_wf rec \<and> list_all (\<lambda>order. lo_functionId order = fn_id f \<and> (\<exists>i s. locks_before f effects E i s \<and> takes_order effects i s order)) (or_facts rec))"

lemma recordOrder_index:
  "record_wf rec \<Longrightarrow> record_wf (recordOrder at m recursive l rec)"
  "dom (or_index (recordOrder at m recursive l rec)) = insert (orderKey (aq_functionId at) l m (aq_location at)) (dom (or_index rec))"
  by (auto simp: recordOrder_def record_wf_def orderKeyOf_def Let_def split: option.splits)

lemma recordOrder_facts:
  "order \<in> set (or_facts (recordOrder at m recursive l rec)) \<Longrightarrow>
   order \<in> set (or_facts rec) \<or> lo_functionId order = aq_functionId at \<and> lo_firstLockId order = l \<and> lo_secondLockId order = m \<and> lo_location order = aq_location at"
  by (auto simp: recordOrder_def Let_def split: option.splits if_splits)

lemma fold_recordOrder:
  "record_wf rec \<Longrightarrow> record_wf (fold (recordOrder at m recursive) ls rec)"
  "dom (or_index (fold (recordOrder at m recursive) ls rec)) = (\<lambda>l. orderKey (aq_functionId at) l m (aq_location at)) ` set ls \<union> dom (or_index rec)"
  "order \<in> set (or_facts (fold (recordOrder at m recursive) ls rec)) \<Longrightarrow>
   order \<in> set (or_facts rec) \<or> lo_functionId order = aq_functionId at \<and> lo_firstLockId order \<in> set ls \<and> lo_secondLockId order = m \<and> lo_location order = aq_location at"
proof -
  show "record_wf rec \<Longrightarrow> record_wf (fold (recordOrder at m recursive) ls rec)" by (induction ls arbitrary: rec) (simp_all add: recordOrder_index)
  show "dom (or_index (fold (recordOrder at m recursive) ls rec)) = (\<lambda>l. orderKey (aq_functionId at) l m (aq_location at)) ` set ls \<union> dom (or_index rec)"
    by (induction ls arbitrary: rec) (auto simp: recordOrder_index)
  show "order \<in> set (or_facts (fold (recordOrder at m recursive) ls rec)) \<Longrightarrow>
   order \<in> set (or_facts rec) \<or> lo_functionId order = aq_functionId at \<and> lo_firstLockId order \<in> set ls \<and> lo_secondLockId order = m \<and> lo_location order = aq_location at"
    by (induction ls arbitrary: rec) (fastforce dest: recordOrder_facts)+
qed

lemma fold_recordAcquired:
  "record_wf rec \<Longrightarrow> record_wf (fold (recordAcquired at change locks) ms rec)"
  "finite locks \<Longrightarrow> dom (or_index (fold (recordAcquired at change locks) ms rec)) =
     (\<Union>m \<in> set ms. (\<lambda>l. orderKey (aq_functionId at) l m (aq_location at)) ` locks) \<union> dom (or_index rec)"
  "order \<in> set (or_facts (fold (recordAcquired at change locks) ms rec)) \<Longrightarrow>
   order \<in> set (or_facts rec) \<or> lo_functionId order = aq_functionId at \<and> lo_firstLockId order \<in> locks \<and> lo_secondLockId order \<in> set ms \<and> lo_location order = aq_location at"
proof -
  have sub: "set (sorted_list_of_set locks) \<subseteq> locks" by (cases "finite locks") auto
  show "record_wf rec \<Longrightarrow> record_wf (fold (recordAcquired at change locks) ms rec)"
    by (induction ms arbitrary: rec) (simp_all add: recordAcquired_def fold_recordOrder)
  show "finite locks \<Longrightarrow> dom (or_index (fold (recordAcquired at change locks) ms rec)) =
     (\<Union>m \<in> set ms. (\<lambda>l. orderKey (aq_functionId at) l m (aq_location at)) ` locks) \<union> dom (or_index rec)"
    by (induction ms arbitrary: rec) (auto simp: recordAcquired_def fold_recordOrder)
  show "order \<in> set (or_facts (fold (recordAcquired at change locks) ms rec)) \<Longrightarrow>
   order \<in> set (or_facts rec) \<or> lo_functionId order = aq_functionId at \<and> lo_firstLockId order \<in> locks \<and> lo_secondLockId order \<in> set ms \<and> lo_location order = aq_location at"
  proof (induction ms arbitrary: rec)
    case (Cons m ms)
    have "order \<in> set (or_facts (recordAcquired at change locks m rec)) \<or>
        lo_functionId order = aq_functionId at \<and> lo_firstLockId order \<in> locks \<and> lo_secondLockId order \<in> set ms \<and> lo_location order = aq_location at"
      using Cons.IH [of "recordAcquired at change locks m rec"] Cons.prems by simp
    then show ?case using fold_recordOrder(3) [of order at m _ "sorted_list_of_set locks" rec] sub unfolding recordAcquired_def by auto
  qed simp
qed

lemma gatesFrom_throws: "gatesFrom symbol ls gates = Inl e \<Longrightarrow> \<exists>l \<in> set ls. lockIdRoot l = Inl ()"
  by (induction ls arbitrary: gates) (auto split: sum.splits)

lemma gatesAmong_throws: "gatesAmong locks object = Inl e \<Longrightarrow> \<exists>l \<in> locks. lockIdRoot l = Inl ()"
  using gatesFrom_throws [of _ "sorted_list_of_set locks"]
  by (cases "finite locks") (auto simp: gatesAmong_def split: option.splits if_splits)

text \<open>A lock in the state of a block is held on some path to it; so it is after the first instructions of the block.\<close>

lemma run_realized:
  assumes "held_on_path f (blockLocks f effects) E b s1" "\<And>l. l \<in> s \<Longrightarrow> \<exists>s'. held_on_path f (blockLocks f effects) E b s' \<and> l \<in> s'"
    "l \<in> runLocks effects pre s"
  shows "\<exists>s'. held_on_path f (blockLocks f effects) E b s' \<and> l \<in> runLocks effects pre s'"
proof -
  have "l \<in> s - runKill effects pre \<or> l \<in> runLocks effects pre {}" using assms(3) runLocks_kill_gen [of effects pre s] by blast
  then show ?thesis using assms(1,2) runLocks_kill_gen [of effects pre] by (metis Diff_iff UnCI)
qed

lemma orderInstruction_recorded:
  assumes "oc_functionId ctx = fn_id f" "recorded_ok f effects E r"
    and held: "\<And>l. l \<in> s \<Longrightarrow> \<exists>s'. locks_before f effects E i s' \<and> l \<in> s'"
  shows "recorded_ok f effects E (snd (orderInstruction ctx effects i (s, r)))"
proof (cases r)
  case (Inl e)
  then show ?thesis using assms(2) by (simp add: orderInstruction_def Let_def)
next
  case (Inr rec)
  let ?change = "lockStateChangeFor i effects" and ?s = "s - set (lc_released (lockStateChangeFor i effects))"
  show ?thesis
  proof (cases "change_empty ?change \<or> lc_orderedAcquired ?change = [] \<or> ?s = {}")
    case True
    then show ?thesis using assms(2) Inr by (auto simp: orderInstruction_def Let_def)
  next
    case False
    show ?thesis
    proof (cases "gatesAmong ?s (oc_sharedObject ctx)")
      case (Inl e)
      then obtain l where "l \<in> ?s" "lockIdRoot l = Inl ()" using gatesAmong_throws by blast
      then show ?thesis using False Inl Inr held [of l] by (auto simp: orderInstruction_def Let_def recorded_ok_def)
    next
      case (Inr gates)
      let ?at = "acquisitionAt ctx i gates"
      let ?rec = "fold (recordAcquired ?at ?change ?s) (lc_orderedAcquired ?change) rec"
      have "lo_functionId order = fn_id f \<and> (\<exists>i s. locks_before f effects E i s \<and> takes_order effects i s order)" if "order \<in> set (or_facts ?rec)" for order
        using fold_recordAcquired(3) [OF that]
      proof
        assume "order \<in> set (or_facts rec)"
        then show ?thesis using assms(2) \<open>r = Inr rec\<close> by (auto simp: recorded_ok_def list_all_iff)
      next
        assume o: "lo_functionId order = aq_functionId ?at \<and> lo_firstLockId order \<in> ?s \<and> lo_secondLockId order \<in> set (lc_orderedAcquired ?change) \<and>
          lo_location order = aq_location ?at"
        then show ?thesis using held [of "lo_firstLockId order"] assms(1) by (auto simp: acquisitionAt_def takes_order_def)
      qed
      moreover have "record_wf ?rec" using assms(2) \<open>r = Inr rec\<close> by (intro fold_recordAcquired(1)) (simp add: recorded_ok_def)
      ultimately show ?thesis using False Inr \<open>r = Inr rec\<close> by (simp add: orderInstruction_def Let_def recorded_ok_def list_all_iff)
    qed
  qed
qed

lemma orderBlock_recorded:
  assumes "oc_functionId ctx = fn_id f" "wf_function f" "b \<in> set (reachableBlocks f)" "recorded_ok f effects E r"
    and held: "\<And>l. l \<in> s \<Longrightarrow> \<exists>s'. held_on_path f (blockLocks f effects) E b s' \<and> l \<in> s'"
  shows "recorded_ok f effects E (snd (orderBlock f ctx effects b s r))"
proof -
  have b: "b < length (fn_blocks f)" "cfg_path f b" using assms(2,3) wf_reachable(5) by (auto simp: reachableBlocks_def)
  obtain s1 where s1: "held_on_path f (blockLocks f effects) E b s1" using held_on_path_exists [OF b(2)] by blast
  have "recorded_ok f effects E (snd (fold (orderInstruction ctx effects) pre (s, r)))" if "bb_instructions (block f b) = pre @ post" for pre post
    using that
  proof (induction pre arbitrary: post rule: rev_induct)
    case (snoc i pre)
    obtain r' where r': "fold (orderInstruction ctx effects) pre (s, r) = (runLocks effects pre s, r')"
      using fold_order_locks [of ctx effects pre "(s, r)"] by (metis fst_conv prod.collapse)
    have ok: "recorded_ok f effects E r'" using snoc.IH [of "i # post"] snoc.prems r' by simp
    have "\<exists>s'. locks_before f effects E i s' \<and> l \<in> s'" if l: "l \<in> runLocks effects pre s" for l
    proof -
      obtain s' where "held_on_path f (blockLocks f effects) E b s'" "l \<in> runLocks effects pre s'"
        using run_realized [OF s1 held l] by blast
      then show ?thesis using b(1) snoc.prems unfolding locks_before_def by auto
    qed
    then show ?case using orderInstruction_recorded [OF assms(1) ok, of "runLocks effects pre s" i] r' by simp
  qed (simp add: assms(4))
  then show ?thesis unfolding orderBlock_def by blast
qed

section \<open>What is not missed\<close>

definition recorded_keys :: "unit + OrderRecord \<Rightarrow> string set" where
  "recorded_keys recorded = (case recorded of Inl _ \<Rightarrow> UNIV | Inr rec \<Rightarrow> dom (or_index rec))"

lemma orderInstruction_keys:
  assumes "finite s"
  shows "recorded_keys r \<subseteq> recorded_keys (snd (orderInstruction ctx effects i (s, r)))"
    and "l \<in> s - set (lc_released (lockStateChangeFor i effects)) \<Longrightarrow> m \<in> set (lc_orderedAcquired (lockStateChangeFor i effects)) \<Longrightarrow>
      \<not> change_empty (lockStateChangeFor i effects) \<Longrightarrow>
      orderKey (oc_functionId ctx) l m (in_userLocation i) \<in> recorded_keys (snd (orderInstruction ctx effects i (s, r)))"
proof -
  have fin: "finite (s - set (lc_released (lockStateChangeFor i effects)))" using assms by simp
  show "recorded_keys r \<subseteq> recorded_keys (snd (orderInstruction ctx effects i (s, r)))"
    by (auto simp: orderInstruction_def Let_def recorded_keys_def fold_recordAcquired(2) [OF fin] split: sum.splits)
  assume "l \<in> s - set (lc_released (lockStateChangeFor i effects))" "m \<in> set (lc_orderedAcquired (lockStateChangeFor i effects))"
    "\<not> change_empty (lockStateChangeFor i effects)"
  then show "orderKey (oc_functionId ctx) l m (in_userLocation i) \<in> recorded_keys (snd (orderInstruction ctx effects i (s, r)))"
    by (auto simp: orderInstruction_def Let_def recorded_keys_def fold_recordAcquired(2) [OF fin] acquisitionAt_def split: sum.splits)
qed

lemma fold_order_keys: "finite s \<Longrightarrow> recorded_keys r \<subseteq> recorded_keys (snd (fold (orderInstruction ctx effects) is (s, r)))"
proof (induction "is" arbitrary: s r)
  case (Cons i "is")
  obtain s' r' where st: "orderInstruction ctx effects i (s, r) = (s', r')" by fastforce
  have "s' = changeLocks (lockStateChangeFor i effects) s" using orderInstruction_locks [of ctx effects i "(s, r)"] st by simp
  then have "finite s'" using Cons.prems by (simp add: changeLocks_def)
  then show ?case using Cons.IH [of s' r'] orderInstruction_keys(1) [OF Cons.prems, of r ctx effects i] st by auto
qed simp

lemma orderBlock_keys:
  assumes "bb_instructions (block f b) = pre @ i # post" "finite s" "l \<in> runLocks effects pre s - set (lc_released (lockStateChangeFor i effects))"
    "m \<in> set (lc_orderedAcquired (lockStateChangeFor i effects))" "\<not> change_empty (lockStateChangeFor i effects)"
  shows "orderKey (oc_functionId ctx) l m (in_userLocation i) \<in> recorded_keys (snd (orderBlock f ctx effects b s r))"
proof -
  obtain r' where r': "fold (orderInstruction ctx effects) pre (s, r) = (runLocks effects pre s, r')"
    using fold_order_locks [of ctx effects pre "(s, r)"] by (metis fst_conv prod.collapse)
  obtain s2 r2 where st: "orderInstruction ctx effects i (runLocks effects pre s, r') = (s2, r2)" by fastforce
  have "s2 = changeLocks (lockStateChangeFor i effects) (runLocks effects pre s)" using orderInstruction_locks [of ctx effects i "(runLocks effects pre s, r')"] st by simp
  then have "finite s2" using assms(2) by (simp add: changeLocks_def)
  moreover have "orderKey (oc_functionId ctx) l m (in_userLocation i) \<in> recorded_keys r2"
    using orderInstruction_keys(2) [of "runLocks effects pre s" l i effects m ctx r'] assms st by simp
  ultimately show ?thesis using fold_order_keys [of s2 r2 ctx effects post] assms(1) r' st unfolding orderBlock_def by auto
qed

lemma orderBlocks_keys:
  assumes "b \<in> set bs" "\<And>b. finite (locks b)"
    and "\<And>r. k \<in> recorded_keys (snd (orderBlock f ctx effects b (locks b) r))"
  shows "k \<in> recorded_keys (fold (\<lambda>b r. snd (orderBlock f ctx effects b (locks b) r)) bs r)"
proof -
  let ?step = "\<lambda>b r. snd (orderBlock f ctx effects b (locks b) r)"
  have mono: "recorded_keys r \<subseteq> recorded_keys (fold ?step cs r)" for cs r
  proof (induction cs arbitrary: r)
    case (Cons c cs)
    have "recorded_keys r \<subseteq> recorded_keys (?step c r)" unfolding orderBlock_def by (rule fold_order_keys) (rule assms(2))
    then show ?case using Cons.IH [of "?step c r"] by auto
  qed simp
  obtain cs ds where "bs = cs @ b # ds" using assms(1) by (meson split_list)
  then show ?thesis using assms(3) [of "fold ?step cs r"] mono [of "?step b (fold ?step cs r)" ds] by auto
qed

lemma ordered_acquired: "set (lc_orderedAcquired (lockStateChangeFor i effects)) \<subseteq> set (lc_acquired (lockStateChangeFor i effects))"
proof -
  have "set (lc_orderedAcquired (fold (applyEffect effects) es change)) \<subseteq> set (lc_acquired (fold (applyEffect effects) es change))"
    if "set (lc_orderedAcquired change) \<subseteq> set (lc_acquired change)" for es change
    using that
  proof (induction es arbitrary: change)
    case (Cons e es)
    have "set (lc_orderedAcquired (applyEffect effects e change)) \<subseteq> set (lc_acquired (applyEffect effects e change))"
      using Cons.prems by (auto simp: applyEffect_def Let_def split: LockEffectKind.splits option.splits if_splits)
    then show ?case using Cons.IH by simp
  qed simp
  then show ?thesis by (simp add: lockStateChangeFor_def no_change_def split: option.splits)
qed

definition unmarked :: "LockOrderFact \<Rightarrow> LockOrderFact" where
  "unmarked order = order\<lparr>lo_lowerAddressFirst := False\<rparr>"

lemma mark_unmarked: "map unmarked (markAddressOrders view locks f rec) = map unmarked (or_facts rec)"
proof -
  have one: "map unmarked (xs[n := (xs ! n)\<lparr>lo_lowerAddressFirst := True\<rparr>]) = map unmarked xs" for xs n
    by (cases "n < length xs") (simp_all add: map_update unmarked_def list_update_same_conv list_update_beyond)
  have "map unmarked (markPair view locks f sites p facts) = map unmarked facts" for sites p facts
    by (cases p) (simp add: markPair_def Let_def one)
  then have "map unmarked (fold (markPair view locks f sites) ps facts) = map unmarked facts" for sites ps facts
    by (induction ps arbitrary: facts) simp_all
  then show ?thesis by (simp add: markAddressOrders_def)
qed

lemma unmarked_same:
  "orderKeyOf (unmarked order) = orderKeyOf order" "takes_order effects i s (unmarked order) = takes_order effects i s order"
  "lo_functionId (unmarked order) = lo_functionId order"
  by (simp_all add: unmarked_def orderKeyOf_def takes_order_def)

lemma held_on_path_finite_from: "held_on_path f (blockLocks f effects) E b s \<Longrightarrow> finite E \<Longrightarrow> finite s"
  by (induction rule: held_on_path.induct) simp_all

lemma collected_orders:
  assumes wf: "wf_function f" and fin: "finite E" and f: "oc_functionId ctx = fn_id f"
  shows "\<exists>st. flowLoop f (orderBlock f ctx effects) (initialFlow f E (Inr noOrders)) = Some st \<and> recorded_ok f effects E (fl_recorded st) \<and>
    (\<forall>i l m. (\<exists>s. locks_before f effects E i s) \<and> (\<forall>s. locks_before f effects E i s \<longrightarrow> l \<in> s) \<and>
       l \<notin> set (lc_released (lockStateChangeFor i effects)) \<and> m \<in> set (lc_orderedAcquired (lockStateChangeFor i effects)) \<longrightarrow>
       orderKey (fn_id f) l m (in_userLocation i) \<in> recorded_keys (fl_recorded st))"
proof -
  let ?ok = "recorded_ok f effects E"
  let ?locks = "held_on_all_paths f (blockLocks f effects) E"
  have start: "?ok (Inr noOrders)" by (simp add: recorded_ok_def noOrders_def record_wf_def)
  obtain st r where st: "flowLoop f (orderBlock f ctx effects) (initialFlow f E (Inr noOrders)) = Some st" "?ok r"
    "fl_recorded st = fold (\<lambda>b r. snd (orderBlock f ctx effects b (?locks b) r)) (reachableBlocks f) r"
    using orders.flow_exact [where P = ?ok and nothing = "Inr noOrders" and E = E and effects = effects and ctx = ctx, OF wf fin start] orderBlock_recorded [OF f wf]
    unfolding through_block by blast
  have path: "\<exists>s. held_on_path f (blockLocks f effects) E b s" if "b \<in> set (reachableBlocks f)" for b
    using that wf_reachable(5) [OF wf] by (intro held_on_path_exists) (auto simp: reachableBlocks_def)
  have finite_locks: "finite (?locks b)" if "b \<in> set (reachableBlocks f)" for b
  proof -
    obtain s where "held_on_path f (blockLocks f effects) E b s" using path [OF \<open>b \<in> set (reachableBlocks f)\<close>] by blast
    then have "finite s" "?locks b \<subseteq> s" using held_on_path_finite_from fin by (auto simp: held_on_all_paths_def)
    then show ?thesis using finite_subset by blast
  qed
  let ?fin = "\<lambda>b. if b \<in> set (reachableBlocks f) then ?locks b else {}"
  have same: "fold (\<lambda>b r. snd (orderBlock f ctx effects b (?locks b) r)) (reachableBlocks f) r =
      fold (\<lambda>b r. snd (orderBlock f ctx effects b (?fin b) r)) (reachableBlocks f) r" for r by (rule fold_cong) simp_all
  have ok: "?ok (fl_recorded st)"
  proof -
    have "?ok (fold (\<lambda>b r. snd (orderBlock f ctx effects b (?locks b) r)) bs r)" if "set bs \<subseteq> set (reachableBlocks f)" "?ok r" for bs r
      using that
    proof (induction bs arbitrary: r)
      case (Cons b bs)
      have "\<exists>s'. held_on_path f (blockLocks f effects) E b s' \<and> l \<in> s'" if "l \<in> ?locks b" for l
        using path [of b] that Cons.prems(1) by (auto simp: held_on_all_paths_def)
      then show ?case using Cons.IH [of "snd (orderBlock f ctx effects b (?locks b) r)"] orderBlock_recorded [OF f wf _ Cons.prems(2), of b] Cons.prems(1) by simp
    qed simp
    then show ?thesis using st(2,3) by simp
  qed
  have "orderKey (fn_id f) l m (in_userLocation i) \<in> recorded_keys (fl_recorded st)"
    if "locks_before f effects E i s0" "\<forall>s. locks_before f effects E i s \<longrightarrow> l \<in> s"
      "l \<notin> set (lc_released (lockStateChangeFor i effects))" "m \<in> set (lc_orderedAcquired (lockStateChangeFor i effects))" for i l m s0
  proof -
    obtain b pre post s1 where b: "b < length (fn_blocks f)" "bb_instructions (block f b) = pre @ i # post" "held_on_path f (blockLocks f effects) E b s1"
      using \<open>locks_before f effects E i s0\<close> unfolding locks_before_def by blast
    have reach: "b \<in> set (reachableBlocks f)" using b wf_reachable(5) [OF wf] held_on_path_cfg [OF b(3)] by (auto simp: reachableBlocks_def)
    have "l \<in> runLocks effects pre s" if "held_on_path f (blockLocks f effects) E b s" for s
      using \<open>\<forall>s. locks_before f effects E i s \<longrightarrow> l \<in> s\<close> that b(1,2) unfolding locks_before_def by blast
    then have "l \<in> runLocks effects pre (?locks b)" using b(3) unfolding held_on_all_paths_def by (subst runLocks_Inter) auto
    then have "orderKey (oc_functionId ctx) l m (in_userLocation i) \<in> recorded_keys (snd (orderBlock f ctx effects b (?fin b) r))" for r
      using that(3,4) reach finite_locks [OF reach] ordered_acquired [of i effects]
      by (intro orderBlock_keys [OF b(2)]) (auto simp: change_empty_def)
    then show ?thesis unfolding st(3) same f [symmetric] by (intro orderBlocks_keys [OF reach]) (auto intro: finite_locks)
  qed
  then show ?thesis using st(1) ok by blast
qed

text \<open>
  C17: For a well-formed function the collector returns. Each order it gives is one that some run takes: the run reaches an acquisition
  of the second lock at that place while holding the first. And it leaves out no order that every run takes there: when all runs
  that reach an acquisition hold a lock (the locks the caller holds count as one), an order from it is recorded, under
  its key. Only a lock name that cannot be read makes it throw.
\<close>

theorem lock_orders_taken:
  assumes "wf_function f" "finite initialHeldLocks"
  shows "let effects = collectFunctionLockEffects f (orderResolver collector f spawnedThread); E = insert kLocksHeldByCaller initialHeldLocks
    in \<exists>r. collectLockOrders view collector f initialHeldLocks live started spawnedThread = Some r \<and>
      (case r of
         Inl _ \<Rightarrow> \<exists>i s l. locks_before f effects E i s \<and> l \<in> s \<and> lockIdRoot l = Inl ()
       | Inr orders \<Rightarrow>
           list_all (\<lambda>order. lo_functionId order = fn_id f \<and> (\<exists>i s. locks_before f effects E i s \<and> takes_order effects i s order)) orders \<and>
           (\<forall>i l m. (\<exists>s. locks_before f effects E i s) \<and> (\<forall>s. locks_before f effects E i s \<longrightarrow> l \<in> s) \<and>
              l \<notin> set (lc_released (lockStateChangeFor i effects)) \<and> m \<in> set (lc_orderedAcquired (lockStateChangeFor i effects)) \<longrightarrow>
              orderKey (fn_id f) l m (in_userLocation i) \<in> orderKeyOf ` set orders))"
proof -
  define locks where "locks = orderResolver collector f spawnedThread"
  define effects where "effects = collectFunctionLockEffects f locks"
  define E where "E = insert kLocksHeldByCaller initialHeldLocks"
  define ctx where "ctx = \<lparr>oc_functionId = fn_id f, oc_sharedObject = rs_sharedObject locks, oc_liveEntries = live, oc_startedEntries = started\<rparr>"
  have fin: "finite E" "oc_functionId ctx = fn_id f" using assms(2) by (simp_all add: E_def ctx_def)
  obtain st where st: "flowLoop f (orderBlock f ctx effects) (initialFlow f E (Inr noOrders)) = Some st" and ok: "recorded_ok f effects E (fl_recorded st)"
    and complete: "\<And>i l m. (\<exists>s. locks_before f effects E i s) \<and> (\<forall>s. locks_before f effects E i s \<longrightarrow> l \<in> s) \<and>
       l \<notin> set (lc_released (lockStateChangeFor i effects)) \<and> m \<in> set (lc_orderedAcquired (lockStateChangeFor i effects)) \<Longrightarrow>
       orderKey (fn_id f) l m (in_userLocation i) \<in> recorded_keys (fl_recorded st)"
    using collected_orders [OF assms(1) fin, of effects] by blast
  have run: "collectLockOrders view collector f initialHeldLocks live started spawnedThread =
      Some (case fl_recorded st of Inl e \<Rightarrow> Inl e | Inr rec \<Rightarrow> Inr (markAddressOrders view locks f rec))"
    using st unfolding collectLockOrders_def Let_def locks_def effects_def E_def ctx_def by simp
  show ?thesis
  proof (cases "fl_recorded st")
    case (Inl e)
    then show ?thesis using run ok unfolding Let_def recorded_ok_def effects_def E_def locks_def by simp
  next
    case (Inr rec)
    let ?orders = "markAddressOrders view locks f rec"
    have marks: "unmarked ` set ?orders = unmarked ` set (or_facts rec)" using mark_unmarked [of view locks f rec] by (metis set_map)
    have "lo_functionId order = fn_id f \<and> (\<exists>i s. locks_before f effects E i s \<and> takes_order effects i s order)" if "order \<in> set ?orders" for order
    proof -
      obtain o' where "o' \<in> set (or_facts rec)" "unmarked order = unmarked o'" using marks \<open>order \<in> set ?orders\<close> by (metis (no_types, lifting) image_iff)
      moreover from this(1) have "lo_functionId o' = fn_id f" "\<exists>i s. locks_before f effects E i s \<and> takes_order effects i s o'"
        using ok Inr by (simp_all add: recorded_ok_def list_all_iff)
      ultimately show ?thesis using unmarked_same(2) [of effects _ _ order] unmarked_same(2) [of effects _ _ o'] unmarked_same(3) by metis
    qed
    moreover have "orderKeyOf ` set ?orders = recorded_keys (Inr rec)"
    proof -
      have "orderKeyOf ` set ?orders = orderKeyOf ` unmarked ` set ?orders" by (simp add: image_image unmarked_same)
      also have "\<dots> = orderKeyOf ` set (or_facts rec)" unfolding marks by (simp add: image_image unmarked_same)
      finally show ?thesis using ok Inr by (simp add: recorded_ok_def record_wf_def recorded_keys_def)
    qed
    ultimately show ?thesis using run Inr complete unfolding Let_def effects_def [symmetric] locks_def [symmetric] E_def [symmetric]
      by (simp add: list_all_iff)
  qed
qed

section \<open>A gate of the first iteration\<close>

declare flowLoop.simps [code]

definition no_addresses :: "nat AddressView" where
  "no_addresses = \<lparr>av_baseObject = (\<lambda>_. None), av_comparison = (\<lambda>_. None), av_edgeDominates = (\<lambda>_ _ _. False)\<rparr>"

text \<open>
  The gate \<open>g\<close> is held in the first iteration of a loop only: \<open>g.lock(); a.lock(); for (;;) { b.lock(); b.unlock(); a.unlock(); g.unlock(); a.lock(); }\<close>.
\<close>

definition three_locks :: "nat LockScopeTracker" where
  "three_locks = two_locks\<lparr>lt_naming := (lt_naming two_locks)\<lparr>ln_canonicalLockId := (\<lambda>v. Some (if v = 0 then ''a'' else if v = 1 then ''b'' else ''g''))\<rparr>\<rparr>"

definition mutex_call :: "CallKind \<Rightarrow> nat \<Rightarrow> nat \<Rightarrow> nat Instruction" where
  "mutex_call kind n v =
     \<lparr>in_address = n,
      in_call = Some \<lparr>ca_kind = kind, ca_directCallee = None, ca_calledFunction = None, ca_args = [v],
        ca_targetsRecursiveLock = False, ca_adoptsHeldLocks = False\<rparr>,
      in_loweredLocation = no_location\<lparr>sl_line := n\<rparr>, in_userLocation = no_location\<lparr>sl_line := n\<rparr>\<rparr>"

definition gated_once :: "nat Function" where
  "gated_once = \<lparr>fn_id = ''f'', fn_isDeclaration = False, fn_args = [],
     fn_blocks = [plain_block [mutex_call CK_StdMutexLock 1 2, mutex_call CK_StdMutexLock 2 0] [],
       plain_block [mutex_call CK_StdMutexLock 3 1, mutex_call CK_StdMutexUnlock 4 1, mutex_call CK_StdMutexUnlock 5 0, mutex_call CK_StdMutexUnlock 6 2] [0, 2],
       plain_block [mutex_call CK_StdMutexLock 7 0] [1]]\<rparr>"

definition gated_effects :: FunctionLockEffects where
  "gated_effects = collectFunctionLockEffects gated_once (orderResolver three_locks gated_once False)"

lemma computed_orders: "map_option (map_sum id g) x = Some (Inr y) \<Longrightarrow> \<exists>orders. x = Some (Inr orders) \<and> g orders = y"
  by (cases x; simp) (rename_tac z; case_tac z; simp)

lemma gated_computed:
  "map_option (map_sum id (map (\<lambda>order. (lo_heldLocks order, lo_location order)) \<circ> filter (\<lambda>order. lo_firstLockId order = ''a'' \<and> lo_secondLockId order = ''b'')))
     (collectLockOrders no_addresses three_locks gated_once {} Map.empty Map.empty False) =
   Some (Inr [({''%caller'', ''a'', ''g''}, no_location\<lparr>sl_line := 3\<rparr>)])"
  by code_simp

lemma gated_blocks:
  "blockLocks gated_once gated_effects 0 {''%caller''} = {''%caller'', ''a'', ''g''}"
  "blockLocks gated_once gated_effects 1 {''%caller'', ''a'', ''g''} = {''%caller''}"
  "blockLocks gated_once gated_effects 2 {''%caller''} = {''%caller'', ''a''}"
  "lc_released (lockStateChangeFor (mutex_call CK_StdMutexLock 3 1) gated_effects) = []"
  "lc_orderedAcquired (lockStateChangeFor (mutex_call CK_StdMutexLock 3 1) gated_effects) = [''b'']"
  by code_simp+

lemma gated_second_iteration:
  "locks_before gated_once gated_effects {''%caller''} (mutex_call CK_StdMutexLock 3 1) {''%caller'', ''a''}"
proof -
  let ?held = "held_on_path gated_once (blockLocks gated_once gated_effects) {''%caller''}"
  have edge: "1 < length (fn_blocks gated_once) \<and> 0 \<in> set (bb_predecessors (block gated_once 1)) \<and> 2 \<in> set (bb_predecessors (block gated_once 1))"
    "2 < length (fn_blocks gated_once) \<and> 1 \<in> set (bb_predecessors (block gated_once 2))"
    by code_simp+
  have "?held 0 {''%caller''}" by (rule held_on_path.entry)
  then have "?held 1 {''%caller'', ''a'', ''g''}" using held_on_path.step [of gated_once _ _ 0 _ 1] edge(1) gated_blocks(1) by metis
  then have "?held 2 {''%caller''}" using held_on_path.step [of gated_once _ _ 1 _ 2] edge(2) gated_blocks(2) by metis
  then have "?held 1 {''%caller'', ''a''}" using held_on_path.step [of gated_once _ _ 2 _ 1] edge(1) gated_blocks(3) by metis
  then show ?thesis unfolding locks_before_def
    by (intro exI [of _ 1] exI [of _ "[]"] exI [of _ "{''%caller'', ''a''}"] exI) (auto simp: gated_once_def plain_block_def runLocks_def)
qed

text \<open>
  The order keeps the gates of the round that recorded it first. In the first round the loop's block is known from its entry only, so that \<open>g\<close>
  stays a gate of the order from \<open>a\<close> to \<open>b\<close>, although a run takes that order without holding \<open>g\<close>.
\<close>

lemma early_gate_kept:
  "\<exists>orders. collectLockOrders no_addresses three_locks gated_once {} Map.empty Map.empty False = Some (Inr orders) \<and>
     list_ex (\<lambda>order. ''g'' \<in> lo_heldLocks order \<and>
       (\<exists>i s. locks_before gated_once gated_effects {''%caller''} i s \<and> takes_order gated_effects i s order \<and> ''g'' \<notin> s)) orders"
proof -
  obtain orders where orders: "collectLockOrders no_addresses three_locks gated_once {} Map.empty Map.empty False = Some (Inr orders)"
    and gates: "map (\<lambda>order. (lo_heldLocks order, lo_location order)) (filter (\<lambda>order. lo_firstLockId order = ''a'' \<and> lo_secondLockId order = ''b'') orders) =
      [({''%caller'', ''a'', ''g''}, no_location\<lparr>sl_line := 3\<rparr>)]"
    using computed_orders [OF gated_computed] unfolding comp_apply by (elim exE conjE)
  from gates obtain order where only: "filter (\<lambda>order. lo_firstLockId order = ''a'' \<and> lo_secondLockId order = ''b'') orders = [order]"
    and at: "lo_heldLocks order = {''%caller'', ''a'', ''g''}" "lo_location order = no_location\<lparr>sl_line := 3\<rparr>"
    unfolding map_eq_Cons_conv by (elim exE conjE) simp
  have "order \<in> set (filter (\<lambda>order. lo_firstLockId order = ''a'' \<and> lo_secondLockId order = ''b'') orders)" unfolding only by simp
  then have order: "order \<in> set orders" "lo_firstLockId order = ''a''" "lo_secondLockId order = ''b''" by simp_all
  have "takes_order gated_effects (mutex_call CK_StdMutexLock 3 1) {''%caller'', ''a''} order"
    unfolding takes_order_def gated_blocks using order at by (simp add: mutex_call_def)
  then have "''g'' \<in> lo_heldLocks order \<and>
      (\<exists>i s. locks_before gated_once gated_effects {''%caller''} i s \<and> takes_order gated_effects i s order \<and> ''g'' \<notin> s)"
    using gated_second_iteration at(1) by (intro conjI exI [of _ "mutex_call CK_StdMutexLock 3 1"] exI [of _ "{''%caller'', ''a''}"]) simp_all
  then show ?thesis using orders order(1) unfolding list_ex_iff by blast
qed

theorem lock_orders_taken_witness:
  "\<exists>orders. collectLockOrders no_addresses two_locks diamond {} Map.empty Map.empty False = Some (Inr orders) \<and>
     list_all (\<lambda>order. lo_functionId order = ''f'') orders"
proof -
  have throws: "map_option isl (collectLockOrders no_addresses two_locks diamond {} Map.empty Map.empty False) = Some False" by code_simp
  have f: "fn_id diamond = ''f''" by (simp add: diamond_def)
  obtain r where r: "collectLockOrders no_addresses two_locks diamond {} Map.empty Map.empty False = Some r"
      "case r of Inl _ \<Rightarrow> True | Inr orders \<Rightarrow> list_all (\<lambda>order. lo_functionId order = fn_id diamond) orders"
    using lock_orders_taken [where view = no_addresses and collector = two_locks and live = Map.empty and started = Map.empty and spawnedThread = False,
        OF diamond_wf finite.emptyI] unfolding Let_def by (elim exE conjE) (auto simp: list_all_iff split: sum.splits)
  obtain orders where "r = Inr orders" using throws r(1) by (cases r) simp_all
  then show ?thesis using r f by simp
qed

end
