(* ===== verification/Merged_Store.thy ===== *)
theory Merged_Store
  imports Prelude
begin

text \<open>
  A list of facts with an index by key, in which a fact whose key is known is merged into the one that is kept: the store of lock orders and
  of accesses in \<open>analysis/tu_facts_builder.cpp\<close>. A merge reports a change when the size of what is kept has changed. The locale
  \<open>merged_store\<close> has the laws of such a merge.
\<close>

type_synonym 'a store = "'a list \<times> (string \<rightharpoonup> nat)"

definition keepMerged :: "('a \<Rightarrow> string) \<Rightarrow> ('a \<Rightarrow> 'a \<Rightarrow> 'a) \<Rightarrow> ('a \<Rightarrow> nat) \<Rightarrow> 'a \<Rightarrow> 'a store \<Rightarrow> 'a store \<times> bool" where
  "keepMerged key merge size_of x st =
     (let (xs, index) = st
      in case index (key x) of
           None \<Rightarrow> ((xs @ [x], index(key x \<mapsto> length xs)), True)
         | Some n \<Rightarrow> (let kept = merge x (xs ! n) in ((xs[n := kept], index), size_of kept \<noteq> size_of (xs ! n))))"

definition keyed :: "('a \<Rightarrow> string) \<Rightarrow> 'a store \<Rightarrow> bool" where
  "keyed key st \<longleftrightarrow> (\<forall>k n. snd st k = Some n \<longleftrightarrow> n < length (fst st) \<and> key (fst st ! n) = k)"

lemma keyed_empty [simp]: "keyed key ([], Map.empty)"
  by (simp add: keyed_def)

lemma keyed_distinct: "keyed key st \<Longrightarrow> distinct (map key (fst st))"
  unfolding keyed_def distinct_conv_nth by (metis length_map nth_map option.inject)

lemma keyed_None: "keyed key st \<Longrightarrow> snd st k = None \<Longrightarrow> k \<notin> key ` set (fst st)"
  unfolding keyed_def by (metis image_iff in_set_conv_nth option.distinct(1))

text \<open>\<open>within a b\<close>: what \<open>b\<close> keeps covers \<open>a\<close>; \<open>fin\<close> is what makes sizes meaningful.\<close>

locale merged_store =
  fixes key :: "'a \<Rightarrow> string" and merge :: "'a \<Rightarrow> 'a \<Rightarrow> 'a" and size_of :: "'a \<Rightarrow> nat" and within :: "'a \<Rightarrow> 'a \<Rightarrow> bool" and fin :: "'a \<Rightarrow> bool"
  assumes key_merge: "key (merge x kept) = key kept"
    and within_refl: "within x x" and within_trans: "within x y \<Longrightarrow> within y z \<Longrightarrow> within x z"
    and merge_within: "within x (merge x kept)" "within kept (merge x kept)"
    and merge_fin: "fin x \<Longrightarrow> fin kept \<Longrightarrow> fin (merge x kept)"
    and merge_size: "fin x \<Longrightarrow> fin kept \<Longrightarrow> size_of kept \<le> size_of (merge x kept)"
    and merge_same: "fin x \<Longrightarrow> fin kept \<Longrightarrow> size_of (merge x kept) = size_of kept \<Longrightarrow> merge x kept = kept"
begin

abbreviation keep :: "'a \<Rightarrow> 'a store \<Rightarrow> 'a store \<times> bool" where
  "keep \<equiv> keepMerged key merge size_of"

definition keeps :: "'a store \<Rightarrow> 'a \<Rightarrow> bool" where
  "keeps st x \<longleftrightarrow> (\<exists>kept \<in> set (fst st). key kept = key x \<and> within x kept)"

definition store_weight :: "'a store \<Rightarrow> nat" where
  "store_weight st = sum_list (map (\<lambda>x. Suc (size_of x)) (fst st))"

lemma keep_cases:
  assumes "keyed key st"
  obtains (added) "key x \<notin> key ` set (fst st)" "keep x st = ((fst st @ [x], (snd st)(key x \<mapsto> length (fst st))), True)"
  | (merged) n where "n < length (fst st)" "key (fst st ! n) = key x"
      "keep x st = (((fst st)[n := merge x (fst st ! n)], snd st), size_of (merge x (fst st ! n)) \<noteq> size_of (fst st ! n))"
proof (cases "snd st (key x)")
  case None
  show ?thesis using added keyed_None [OF assms None] None by (cases st) (simp add: keepMerged_def Let_def)
next
  case (Some n)
  then have "n < length (fst st)" "key (fst st ! n) = key x" using assms by (auto simp: keyed_def)
  then show ?thesis using merged Some by (cases st) (simp add: keepMerged_def Let_def)
qed

lemma keep_keyed:
  assumes "keyed key st"
  shows "keyed key (fst (keep x st))"
  using assms
proof (cases rule: keep_cases [of st x])
  case added
  then have "\<forall>n < length (fst st). key (fst st ! n) \<noteq> key x" by (metis image_eqI nth_mem)
  then show ?thesis using added(2) assms by (auto simp: keyed_def nth_append less_Suc_eq)
next
  case (merged n)
  then show ?thesis using assms by (auto simp: keyed_def nth_list_update key_merge)
qed

lemma keep_keeps:
  assumes "keyed key st"
  shows "keeps (fst (keep x st)) x"
  using assms
proof (cases rule: keep_cases [of st x])
  case added
  then show ?thesis by (simp add: keeps_def within_refl)
next
  case (merged n)
  then have "merge x (fst st ! n) \<in> set (fst (fst (keep x st)))" by (simp add: set_update_memI)
  then show ?thesis using merged(2) merge_within(1) key_merge unfolding keeps_def by metis
qed

lemma keep_mono:
  assumes "keyed key st" "keeps st y"
  shows "keeps (fst (keep x st)) y"
  using assms(1)
proof (cases rule: keep_cases [of st x])
  case added
  then show ?thesis using assms(2) by (auto simp: keeps_def)
next
  case (merged n)
  obtain m where m: "m < length (fst st)" "key (fst st ! m) = key y" "within y (fst st ! m)" using assms(2) unfolding keeps_def by (metis in_set_conv_nth)
  let ?xs = "(fst st)[n := merge x (fst st ! n)]"
  have "key (?xs ! m) = key y \<and> within y (?xs ! m)"
    using m merged(1) key_merge merge_within(2) within_trans by (cases "m = n") (auto simp: nth_list_update)
  moreover have "?xs ! m \<in> set ?xs" using m(1) by (intro nth_mem) simp
  ultimately show ?thesis using merged(3) unfolding keeps_def by auto
qed

lemma keep_all:
  assumes "keyed key st" "list_all P (fst st)" "P x" "\<And>kept. P kept \<Longrightarrow> key kept = key x \<Longrightarrow> P (merge x kept)"
  shows "list_all P (fst (fst (keep x st)))"
  using assms(1)
proof (cases rule: keep_cases [of st x])
  case (merged n)
  then show ?thesis using assms(2,4) by (auto simp: list_all_iff set_conv_nth nth_list_update split: if_splits)
qed (use assms(2,3) in simp)

lemma keep_weight:
  assumes "keyed key st" "list_all fin (fst st)" "fin x"
  shows "snd (keep x st) \<Longrightarrow> store_weight st < store_weight (fst (keep x st))" and "\<not> snd (keep x st) \<Longrightarrow> fst (keep x st) = st"
proof -
  have "(snd (keep x st) \<longrightarrow> store_weight st < store_weight (fst (keep x st))) \<and> (\<not> snd (keep x st) \<longrightarrow> fst (keep x st) = st)"
    using assms(1)
  proof (cases rule: keep_cases [of st x])
    case added
    then show ?thesis by (simp add: store_weight_def)
  next
    case (merged n)
    have kept: "fin (fst st ! n)" using assms(2) merged(1) by (simp add: list_all_iff)
    let ?kept = "merge x (fst st ! n)"
    have sum: "store_weight (fst (keep x st)) + Suc (size_of (fst st ! n)) = store_weight st + Suc (size_of ?kept)"
    proof -
      have "Suc (size_of (fst st ! n)) \<le> store_weight st"
        using elem_le_sum_list [of n "map (\<lambda>x. Suc (size_of x)) (fst st)"] merged(1) by (simp add: store_weight_def)
      then show ?thesis using merged(1) by (simp add: merged(3) store_weight_def map_update sum_list_update)
    qed
    show ?thesis
    proof (cases "size_of ?kept = size_of (fst st ! n)")
      case True
      then have "?kept = fst st ! n" using merge_same assms(3) kept by blast
      then show ?thesis using True by (simp add: merged(3))
    next
      case False
      then show ?thesis using sum merge_size [OF assms(3) kept] by (simp add: merged(3))
    qed
  qed
  then show "snd (keep x st) \<Longrightarrow> store_weight st < store_weight (fst (keep x st))" and "\<not> snd (keep x st) \<Longrightarrow> fst (keep x st) = st" by blast+
qed

text \<open>Over finitely many keys and with sizes up to \<open>m\<close>, a store cannot outgrow a bound.\<close>

lemma store_bounded:
  assumes "keyed key st" "key ` set (fst st) \<subseteq> K" "finite K" "list_all (\<lambda>x. size_of x \<le> m) (fst st)"
  shows "store_weight st \<le> card K * Suc m"
proof -
  have "store_weight st \<le> sum_list (map (\<lambda>_. Suc m) (fst st))"
    unfolding store_weight_def using assms(4) by (intro sum_list_mono) (simp add: list_all_iff)
  also have "\<dots> = length (fst st) * Suc m" by (simp add: sum_list_triv)
  also have "length (fst st) = card (key ` set (fst st))" using keyed_distinct [OF assms(1)] distinct_card [of "map key (fst st)"] by simp
  also have "\<dots> * Suc m \<le> card K * Suc m" using card_mono [OF assms(3,2)] by (rule mult_le_mono1)
  finally show ?thesis .
qed

text \<open>Stores by function: keeping one more item in the store of a function.\<close>

definition family_weight :: "string set \<Rightarrow> (string \<Rightarrow> 'a store) \<Rightarrow> nat" where
  "family_weight F stores = (\<Sum>f \<in> F. store_weight (stores f))"

lemma family_keep:
  assumes "finite F" "f \<in> F" "keyed key (stores f)" "list_all fin (fst (stores f))" "fin x"
  shows "snd (keep x (stores f)) \<Longrightarrow> family_weight F stores < family_weight F (stores(f := fst (keep x (stores f))))"
    and "\<not> snd (keep x (stores f)) \<Longrightarrow> stores(f := fst (keep x (stores f))) = stores"
proof -
  show "family_weight F stores < family_weight F (stores(f := fst (keep x (stores f))))" if "snd (keep x (stores f))"
    unfolding family_weight_def using assms(1,2) keep_weight(1) [OF assms(3-5) that] by (intro sum_strict_mono_ex1) auto
  show "stores(f := fst (keep x (stores f))) = stores" if "\<not> snd (keep x (stores f))"
    using keep_weight(2) [OF assms(3-5) that] by simp
qed

lemma family_bounded:
  assumes "finite K" "\<And>f. keyed key (stores f)" "\<And>f. key ` set (fst (stores f)) \<subseteq> K" "\<And>f. list_all (\<lambda>x. size_of x \<le> m) (fst (stores f))"
  shows "family_weight F stores \<le> card F * (card K * Suc m)"
  unfolding family_weight_def using store_bounded [OF assms(2,3,1,4)] by (intro sum_bounded_above [THEN order_trans]) auto

end

end
