(* ===== verification/Lock_Order_Facts.thy ===== *)
theory Lock_Order_Facts
  imports Lock_Order_Collector Lock_Propagation Call_Cycles Call_Spread Merged_Store
begin

text \<open>
  The lock orders of a unit, as \<open>TUFactsBuilder::build\<close> (\<open>analysis/tu_facts_builder.cpp\<close>) puts them together: the orders each function takes, and
  those a helper leaves open, on the locks it is passed or after the locks its caller holds, instantiated at every call. What the
  analysis of tasks found and which calls go to the standard library are arguments. As in \<open>Lock_Propagation\<close>, names of locks are built by
  \<open>lockIdAt\<close>, so that none of them makes \<open>parameterLockPlace\<close> throw.
\<close>

section \<open>Names and keys\<close>

definition kMaxOrdersOnLocksOnlyARecursionNames :: nat where
  "kMaxOrdersOnLocksOnlyARecursionNames = 64"

definition placeOf :: "string \<Rightarrow> ParameterLockPlace option" where
  "placeOf lockId = (case parameterLockPlace lockId of Inl _ \<Rightarrow> None | Inr place \<Rightarrow> place)"

definition rootOf :: "string \<Rightarrow> RootBinding" where
  "rootOf lockId = (case lockIdRoot lockId of Inl _ \<Rightarrow> globalRoot lockId whole_region | Inr root \<Rightarrow> root)"

definition namesCallerFrame :: "string \<Rightarrow> bool" where
  "namesCallerFrame lockId \<longleftrightarrow> lockId = kLocksHeldByCaller \<or> placeOf lockId \<noteq> None"

definition isOpenLockOrder :: "LockOrderFact \<Rightarrow> bool" where
  "isOpenLockOrder order \<longleftrightarrow> namesCallerFrame (lo_firstLockId order) \<or> namesCallerFrame (lo_secondLockId order)"

definition lockOrderKey :: "LockOrderFact \<Rightarrow> string" where
  "lockOrderKey order =
     lo_functionId order @ ''|'' @ lo_firstLockId order @ ''|'' @ lo_secondLockId order @ ''|'' @ sl_file (lo_location order) @ ''|'' @
     to_string_nat (sl_line (lo_location order)) @ ''|'' @ to_string_nat (sl_column (lo_location order)) @
     (if lo_lowerAddressFirst order then ''|lower-address-first'' else []) @ (if lo_boundBySpawn order then ''|bound-by-spawn'' else [])"

definition lockOrderIdentity :: "LockOrderFact \<Rightarrow> string" where
  "lockOrderIdentity order =
     lockOrderKey order @
     (if lo_firstLockId order = lo_secondLockId order then []
      else concat (map (\<lambda>lockId. ''|'' @ lockId) (filter (\<lambda>lockId. \<not> namesCallerFrame lockId) (sorted_list_of_set (lo_heldLocks order)))))"

section \<open>Keeping one copy of an order\<close>

type_synonym order_index = "string \<rightharpoonup> nat"

definition mergeOrderThreads :: "LockOrderFact \<Rightarrow> LockOrderFact \<Rightarrow> LockOrderFact" where
  "mergeOrderThreads order kept =
     kept\<lparr>lo_liveEntries := lo_liveEntries kept \<union> lo_liveEntries order, lo_startedEntries := lo_startedEntries kept \<union> lo_startedEntries order\<rparr>"

definition order_threads :: "LockOrderFact \<Rightarrow> nat" where
  "order_threads order = card (lo_liveEntries order) + card (lo_startedEntries order)"

definition keepLockOrder :: "LockOrderFact \<Rightarrow> LockOrderFact list \<times> order_index \<Rightarrow> (LockOrderFact list \<times> order_index) \<times> bool" where
  "keepLockOrder order st =
     (let (orders, indexByKey) = st
      in case indexByKey (lockOrderKey order) of
           None \<Rightarrow> ((orders @ [order], indexByKey(lockOrderKey order \<mapsto> length orders)), True)
         | Some n \<Rightarrow>
             (let kept = mergeOrderThreads order (orders ! n)
              in ((orders[n := kept], indexByKey), order_threads kept \<noteq> order_threads (orders ! n))))"

definition addLockOrder :: "LockOrderFact \<Rightarrow> LockOrderFact list \<times> order_index \<Rightarrow> LockOrderFact list \<times> order_index" where
  "addLockOrder order st =
     fst (keepLockOrder (order\<lparr>lo_heldLocks := Set.filter (\<lambda>lockId. \<not> namesCallerFrame lockId) (lo_heldLocks order)\<rparr>) st)"

record OpenLockOrders =
  ol_orders :: "LockOrderFact list"
  ol_indexByKey :: order_index
  ol_lockIdsOutsideRecursion :: "string set"
  ol_ordersOnLocksOnlyARecursionNames :: nat

definition noOpenOrders :: OpenLockOrders where
  "noOpenOrders = \<lparr>ol_orders = [], ol_indexByKey = Map.empty, ol_lockIdsOutsideRecursion = {}, ol_ordersOnLocksOnlyARecursionNames = 0\<rparr>"

definition keepOpen :: "LockOrderFact \<Rightarrow> OpenLockOrders \<Rightarrow> OpenLockOrders \<times> bool" where
  "keepOpen order opened =
     (let ((orders, indexByKey), changed) = keepLockOrder order (ol_orders opened, ol_indexByKey opened)
      in (opened\<lparr>ol_orders := orders, ol_indexByKey := indexByKey\<rparr>, changed))"

definition addToOpen :: "LockOrderFact \<Rightarrow> bool \<Rightarrow> OpenLockOrders \<Rightarrow> OpenLockOrders \<times> bool" where
  "addToOpen order throughRecursion opened =
     (if \<not> throughRecursion
      then keepOpen order (opened\<lparr>ol_lockIdsOutsideRecursion := insert (lo_secondLockId order) (insert (lo_firstLockId order) (ol_lockIdsOutsideRecursion opened))\<rparr>)
      else if lo_firstLockId order \<in> ol_lockIdsOutsideRecursion opened \<and> lo_secondLockId order \<in> ol_lockIdsOutsideRecursion opened
      then keepOpen order opened
      else if ol_ordersOnLocksOnlyARecursionNames opened \<ge> kMaxOrdersOnLocksOnlyARecursionNames then (opened, False)
      else
        (let known = length (ol_orders opened);
             (opened, changed) = keepOpen order opened
         in (opened\<lparr>ol_ordersOnLocksOnlyARecursionNames := ol_ordersOnLocksOnlyARecursionNames opened + (length (ol_orders opened) - known)\<rparr>, changed)))"

type_synonym opened_orders = "(string \<times> OpenLockOrders) list"

definition openOrdersOf :: "opened_orders \<Rightarrow> string \<Rightarrow> OpenLockOrders" where
  "openOrdersOf m f = (case map_of m f of None \<Rightarrow> noOpenOrders | Some opened \<Rightarrow> opened)"

definition addOpenLockOrder :: "LockOrderFact \<Rightarrow> bool \<Rightarrow> opened_orders \<Rightarrow> opened_orders \<times> bool" where
  "addOpenLockOrder order throughRecursion m =
     (let (opened, changed) = addToOpen order throughRecursion (openOrdersOf m (lo_functionId order))
      in (umap_update (lo_functionId order) (\<lambda>_. opened) m, changed))"

section \<open>An order at a call\<close>

text \<open>What a call passes, by the address of the call.\<close>

definition callArgs :: "'v Module \<Rightarrow> nat \<Rightarrow> 'v list" where
  "callArgs module call =
     (case List.find (\<lambda>i. in_address i = call) (concat (map fn_instructions module)) of
        None \<Rightarrow> []
      | Some i \<Rightarrow> (case in_call i of None \<Rightarrow> [] | Some c \<Rightarrow> ca_args c))"

definition lockAtCall :: "string \<Rightarrow> 'v list \<Rightarrow> 'v Resolver \<Rightarrow> string option" where
  "lockAtCall calleeLockId args callerLocks =
     (case placeOf calleeLockId of
        None \<Rightarrow> Some calleeLockId
      | Some place \<Rightarrow>
          if pl_argumentIndex place \<ge> length args then None
          else
            (case lockIdOf callerLocks (args ! pl_argumentIndex place) of
               None \<Rightarrow> None
             | Some passed \<Rightarrow> Some (lockIdAt (rootOf passed) (pl_place place))))"

record 'v LockOrderCall =
  lk_site :: DirectCallSite
  lk_args :: "'v list"
  lk_callerLocks :: "'v Resolver"
  lk_heldAtCall :: "string set"
  lk_calleeEntryLocks :: "string set"
  lk_liveAtCall :: entry_set
  lk_startedAtCall :: entry_set
  lk_callerInRootTask :: bool

definition threadsThroughCall :: "entry_set \<Rightarrow> entry_set \<Rightarrow> entry_set \<Rightarrow> entry_set \<Rightarrow> entry_set \<times> entry_set" where
  "threadsThroughCall liveEntries startedEntries liveAtCall startedAtCall =
     (let running = Set.filter (\<lambda>entry. entry \<in> startedEntries \<or> entry \<in> liveAtCall) liveEntries
      in (running, Set.filter (\<lambda>entry. entry \<in> startedEntries \<or> entry \<in> startedAtCall) running))"

definition heldThroughCall :: "LockOrderFact \<Rightarrow> 'v LockOrderCall \<Rightarrow> string set" where
  "heldThroughCall order call =
     lk_heldAtCall call \<union>
     (\<Union>lockId \<in> Set.filter (\<lambda>lockId. lockId \<noteq> kLocksHeldByCaller) (lo_heldLocks order). set_option (lockAtCall lockId (lk_args call) (lk_callerLocks call)))"

definition firstsAtCall :: "LockOrderFact \<Rightarrow> 'v LockOrderCall \<Rightarrow> string list" where
  "firstsAtCall order call =
     (if lo_firstLockId order = kLocksHeldByCaller
      then filter (\<lambda>heldLock. heldLock \<notin> lk_calleeEntryLocks call) (sorted_list_of_set (lk_heldAtCall call)) @ [kLocksHeldByCaller]
      else (case lockAtCall (lo_firstLockId order) (lk_args call) (lk_callerLocks call) of None \<Rightarrow> [] | Some first \<Rightarrow> [first]))"

definition instantiateAtCall :: "LockOrderFact \<Rightarrow> 'v LockOrderCall \<Rightarrow> LockOrderFact list" where
  "instantiateAtCall order call =
     (case lockAtCall (lo_secondLockId order) (lk_args call) (lk_callerLocks call) of
        None \<Rightarrow> []
      | Some second \<Rightarrow>
          (let (liveEntries, startedEntries) =
                 threadsThroughCall (lo_liveEntries order) (lo_startedEntries order) (lk_liveAtCall call) (lk_startedAtCall call);
               aliasedByCall = (lo_firstLockId order \<noteq> kLocksHeldByCaller \<and> lo_firstLockId order \<noteq> lo_secondLockId order)
           in map (\<lambda>first.
                \<lparr>lo_functionId = dc_callerFunctionId (lk_site call), lo_firstLockId = first, lo_secondLockId = second,
                 lo_location = dc_userLocation (lk_site call), lo_heldLocks = heldThroughCall order call, lo_inRootTask = lk_callerInRootTask call,
                 lo_liveEntries = liveEntries, lo_startedEntries = startedEntries, lo_lowerAddressFirst = lo_lowerAddressFirst order,
                 lo_secondIsRecursive = lo_secondIsRecursive order, lo_boundBySpawn = False\<rparr>)
              (filter (\<lambda>first. \<not> (first = second \<and> lo_secondIsRecursive order) \<and> \<not> (first = second \<and> aliasedByCall)) (firstsAtCall order call))))"

section \<open>Which functions and calls take part\<close>

definition takesCalleeLockOrders :: "(nat \<Rightarrow> bool) \<Rightarrow> DirectCallSite \<Rightarrow> bool" where
  "takesCalleeLockOrders standard site = (case dc_call site of None \<Rightarrow> False | Some call \<Rightarrow> \<not> standard call)"

definition functionsRunOnlyByDirectCalls :: "DirectCallSite list \<Rightarrow> (nat \<Rightarrow> bool) \<Rightarrow> string set \<Rightarrow> string set" where
  "functionsRunOnlyByDirectCalls sites standard threadEntries =
     dc_calleeFunctionId ` set (filter (\<lambda>site. takesCalleeLockOrders standard site \<and> dc_calleeFunctionId site \<notin> threadEntries) sites)"

definition heldDifferently :: "LockPropagationResult \<Rightarrow> DirectCallSite \<Rightarrow> bool" where
  "heldDifferently locks site =
     (case (Option.bind (dc_call site) (lp_effectiveHeldLocksByCall locks), map_of (lp_entryLocksByFunction locks) (dc_calleeFunctionId site)) of
        (Some held, Some entry) \<Rightarrow> \<not> Set.filter (\<lambda>lockId. placeOf lockId = None) held \<subseteq> entry
      | _ \<Rightarrow> False)"

definition functionsCalledUnderDifferentLocks :: "DirectCallSite list \<Rightarrow> LockPropagationResult \<Rightarrow> string set" where
  "functionsCalledUnderDifferentLocks sites locks = dc_calleeFunctionId ` set (filter (heldDifferently locks) sites)"

definition isHeldThroughParameter :: "LockOrderFact \<Rightarrow> bool" where
  "isHeldThroughParameter order \<longleftrightarrow> Set.filter (\<lambda>lockId. placeOf lockId \<noteq> None) (lo_heldLocks order) \<noteq> {}"

definition locksOnSharedObject :: "string set \<Rightarrow> SharedObjectBinding \<Rightarrow> string set" where
  "locksOnSharedObject entryLocks binding =
     Set.filter (\<lambda>lockId. placeOf lockId = None) entryLocks \<union>
     (\<lambda>lockId. lockIdAt (sb_object binding) (pl_place (the (placeOf lockId)))) `
       Set.filter (\<lambda>lockId. case placeOf lockId of None \<Rightarrow> False | Some place \<Rightarrow> pl_argumentIndex place = sb_argumentIndex binding) entryLocks"

section \<open>Collecting the orders of the functions\<close>

record TaskView =
  tk_liveEntriesAtInstruction :: "nat \<rightharpoonup> entry_set"
  tk_startedEntriesAtInstruction :: "nat \<rightharpoonup> entry_set"
  tk_rootTaskFunctions :: "string set"

text \<open>What the builder has at hand when it comes to the lock orders; \<open>oi_view\<close> is what LLVM answers about each function.\<close>

record 'v OrderInputs =
  oi_module :: "'v Module"
  oi_sites :: "DirectCallSite list"
  oi_naming :: "'v LockNaming"
  oi_summaries :: summaries
  oi_bindings :: SharedObjectBindings
  oi_view :: "string \<Rightarrow> 'v AddressView"
  oi_standard :: "nat \<Rightarrow> bool"
  oi_locks :: LockPropagationResult
  oi_tasks :: TaskView
  oi_threadEntries :: "string set"

record LockOrderFacts =
  lf_orders :: "LockOrderFact list \<times> order_index"
  lf_open :: opened_orders
  lf_judged :: "(string \<times> LockOrderFact list) list"

definition noOrderFacts :: LockOrderFacts where
  "noOrderFacts = \<lparr>lf_orders = ([], Map.empty), lf_open = [], lf_judged = []\<rparr>"

definition entryLocksOf :: "LockPropagationResult \<Rightarrow> string \<Rightarrow> string set" where
  "entryLocksOf locks f = (case map_of (lp_entryLocksByFunction locks) f of None \<Rightarrow> {} | Some entry \<Rightarrow> entry)"

definition heldLocksAt :: "LockPropagationResult \<Rightarrow> DirectCallSite \<Rightarrow> string set" where
  "heldLocksAt locks site = (case Option.bind (dc_call site) (lp_effectiveHeldLocksByCall locks) of None \<Rightarrow> {} | Some held \<Rightarrow> held)"

definition ordersOf :: "'v OrderInputs \<Rightarrow> 'v Function \<Rightarrow> bool \<Rightarrow> (unit + LockOrderFact list) option" where
  "ordersOf inputs f spawnedThread =
     collectLockOrders (oi_view inputs (fn_id f))
       \<lparr>lt_naming = oi_naming inputs, lt_summaries = Some (oi_summaries inputs), lt_sharedObjects = Some (oi_bindings inputs)\<rparr>
       f (entryLocksOf (oi_locks inputs) (fn_id f))
       (tk_liveEntriesAtInstruction (oi_tasks inputs)) (tk_startedEntriesAtInstruction (oi_tasks inputs)) spawnedThread"

definition spawnedApart :: "SharedObjectBindings \<Rightarrow> string \<Rightarrow> bool" where
  "spawnedApart bindings f = (case map_of bindings f of None \<Rightarrow> False | Some binding \<Rightarrow> sb_runByDirectCalls binding)"

definition judgedAtCalls :: "'v OrderInputs \<Rightarrow> string \<Rightarrow> LockOrderFact \<Rightarrow> bool" where
  "judgedAtCalls inputs f order \<longleftrightarrow>
     (f \<in> functionsRunOnlyByDirectCalls (oi_sites inputs) (oi_standard inputs) (oi_threadEntries inputs) \<or> spawnedApart (oi_bindings inputs) f) \<and>
     lo_firstLockId order \<noteq> lo_secondLockId order \<and>
     (f \<in> functionsCalledUnderDifferentLocks (oi_sites inputs) (oi_locks inputs) \<or> isHeldThroughParameter order)"

definition addCollected :: "'v OrderInputs \<Rightarrow> string \<Rightarrow> LockOrderFact \<Rightarrow> LockOrderFacts \<times> string set \<Rightarrow> LockOrderFacts \<times> string set" where
  "addCollected inputs f lockOrder st =
     (let (facts, sharedOrders) = st;
          order = lockOrder\<lparr>lo_inRootTask := f \<in> tk_rootTaskFunctions (oi_tasks inputs)\<rparr>
      in if isOpenLockOrder order then (facts\<lparr>lf_open := fst (addOpenLockOrder order False (lf_open facts))\<rparr>, sharedOrders)
         else if judgedAtCalls inputs f order then (facts\<lparr>lf_judged := umap_update f (push order) (lf_judged facts)\<rparr>, sharedOrders)
         else (facts\<lparr>lf_orders := addLockOrder order (lf_orders facts)\<rparr>,
               if spawnedApart (oi_bindings inputs) f then insert (lockOrderIdentity order) sharedOrders else sharedOrders))"

definition addSpawned :: "string set \<Rightarrow> LockOrderFact \<Rightarrow> LockOrderFacts \<Rightarrow> LockOrderFacts" where
  "addSpawned sharedOrders order facts =
     (if isOpenLockOrder order \<or> lockOrderIdentity order \<in> sharedOrders then facts
      else facts\<lparr>lf_orders := addLockOrder (order\<lparr>lo_boundBySpawn := True\<rparr>) (lf_orders facts)\<rparr>)"

definition collectFunctionOrders :: "'v OrderInputs \<Rightarrow> 'v Function \<Rightarrow> LockOrderFacts \<Rightarrow> (unit + LockOrderFacts) option" where
  "collectFunctionOrders inputs f facts =
     (case ordersOf inputs f False of
        None \<Rightarrow> None
      | Some (Inl e) \<Rightarrow> Some (Inl e)
      | Some (Inr orders) \<Rightarrow>
          (let (facts, sharedOrders) = fold (addCollected inputs (fn_id f)) orders (facts, {})
           in if \<not> spawnedApart (oi_bindings inputs) (fn_id f) then Some (Inr facts)
              else
                (case ordersOf inputs f True of
                   None \<Rightarrow> None
                 | Some (Inl e) \<Rightarrow> Some (Inl e)
                 | Some (Inr spawned) \<Rightarrow> Some (Inr (fold (addSpawned sharedOrders) spawned facts)))))"

fun collectOrders :: "'v OrderInputs \<Rightarrow> 'v Function list \<Rightarrow> LockOrderFacts \<Rightarrow> (unit + LockOrderFacts) option" where
  "collectOrders inputs [] facts = Some (Inr facts)"
| "collectOrders inputs (f # fs) facts =
     (if fn_isDeclaration f then collectOrders inputs fs facts
      else
        (case collectFunctionOrders inputs f facts of
           None \<Rightarrow> None
         | Some (Inl e) \<Rightarrow> Some (Inl e)
         | Some (Inr facts) \<Rightarrow> collectOrders inputs fs facts))"

section \<open>Instantiating open orders at the calls\<close>

definition spawnedObject :: "'v OrderInputs \<Rightarrow> DirectCallSite \<Rightarrow> SharedObjectBinding option" where
  "spawnedObject inputs site =
     (case map_of (oi_bindings inputs) (dc_callerFunctionId site) of
        None \<Rightarrow> None
      | Some binding \<Rightarrow> if sb_keptForLackOfProof binding \<or> sb_runByDirectCalls binding then Some binding else None)"

definition callResolver :: "'v OrderInputs \<Rightarrow> SharedObjectBinding option \<Rightarrow> 'v Resolver" where
  "callResolver inputs object =
     \<lparr>rs_naming = oi_naming inputs, rs_summaries = Some (oi_summaries inputs), rs_nameParameterLocks = False, rs_sharedObject = object,
      rs_localObjects = Some (sharedObjectNames (oi_bindings inputs) SO_Local), rs_nameParameterFieldLocks = True\<rparr>"

definition siteArgs :: "'v OrderInputs \<Rightarrow> DirectCallSite \<Rightarrow> 'v list" where
  "siteArgs inputs site = (case dc_call site of None \<Rightarrow> [] | Some call \<Rightarrow> callArgs (oi_module inputs) call)"

definition siteEntries :: "(nat \<rightharpoonup> entry_set) \<Rightarrow> DirectCallSite \<Rightarrow> entry_set" where
  "siteEntries entries site = (case dc_call site of None \<Rightarrow> {} | Some call \<Rightarrow> entriesAt entries call)"

definition orderCall :: "'v OrderInputs \<Rightarrow> DirectCallSite \<Rightarrow> 'v LockOrderCall" where
  "orderCall inputs site =
     \<lparr>lk_site = site, lk_args = siteArgs inputs site,
      lk_callerLocks = callResolver inputs (if spawnedObject inputs site = None then map_of (oi_bindings inputs) (dc_callerFunctionId site) else None),
      lk_heldAtCall = heldLocksAt (oi_locks inputs) site, lk_calleeEntryLocks = entryLocksOf (oi_locks inputs) (dc_calleeFunctionId site),
      lk_liveAtCall = siteEntries (tk_liveEntriesAtInstruction (oi_tasks inputs)) site,
      lk_startedAtCall = siteEntries (tk_startedEntriesAtInstruction (oi_tasks inputs)) site,
      lk_callerInRootTask = (dc_callerFunctionId site \<in> tk_rootTaskFunctions (oi_tasks inputs))\<rparr>"

definition spawnedOrderCall :: "'v OrderInputs \<Rightarrow> DirectCallSite \<Rightarrow> SharedObjectBinding \<Rightarrow> 'v LockOrderCall" where
  "spawnedOrderCall inputs site binding =
     (orderCall inputs site)\<lparr>lk_callerLocks := callResolver inputs (Some binding),
       lk_heldAtCall := locksOnSharedObject (heldLocksAt (oi_locks inputs) site) binding, lk_callerInRootTask := False\<rparr>"

datatype OrderAddition = AddOpen LockOrderFact bool | AddClosed LockOrderFact

definition recursionCalls :: "'v OrderInputs \<Rightarrow> nat set" where
  "recursionCalls inputs =
     (case callsClosingCycles (filter (takesCalleeLockOrders (oi_standard inputs)) (oi_sites inputs)) of None \<Rightarrow> {} | Some closing \<Rightarrow> closing)"

definition directInstances :: "'v OrderInputs \<Rightarrow> DirectCallSite \<Rightarrow> LockOrderFact list \<Rightarrow> LockOrderFact list" where
  "directInstances inputs site calleeOrders =
     (case spawnedObject inputs site of
        None \<Rightarrow> concat (map (\<lambda>order. instantiateAtCall order (orderCall inputs site)) calleeOrders)
      | Some binding \<Rightarrow>
          if sb_runByDirectCalls binding then concat (map (\<lambda>order. instantiateAtCall order (orderCall inputs site)) calleeOrders) else [])"

fun spawnedAdditions :: "SharedObjectBinding \<Rightarrow> string set \<Rightarrow> LockOrderFact list \<Rightarrow> unit + OrderAddition list" where
  "spawnedAdditions binding sharedOrders [] = Inr []"
| "spawnedAdditions binding sharedOrders (instance # instances) =
     (case gatesAmong (lo_heldLocks instance) (Some binding) of
        Inl e \<Rightarrow> Inl e
      | Inr gates \<Rightarrow>
          (let instance = instance\<lparr>lo_heldLocks := gates\<rparr>
           in map_sum id
                (\<lambda>additions.
                   if isOpenLockOrder instance \<or> lockOrderIdentity instance \<in> sharedOrders then additions
                   else AddClosed (instance\<lparr>lo_boundBySpawn := True\<rparr>) # additions)
                (spawnedAdditions binding sharedOrders instances)))"

definition additionsAtCall :: "'v OrderInputs \<Rightarrow> DirectCallSite \<Rightarrow> LockOrderFact list \<Rightarrow> unit + OrderAddition list" where
  "additionsAtCall inputs site calleeOrders =
     (if \<not> takesCalleeLockOrders (oi_standard inputs) site then Inr []
      else
        (let direct = directInstances inputs site calleeOrders;
             throughRecursion = (case dc_call site of None \<Rightarrow> False | Some call \<Rightarrow> call \<in> recursionCalls inputs);
             additions = map (\<lambda>instance. if isOpenLockOrder instance then AddOpen instance throughRecursion else AddClosed instance) direct
         in case spawnedObject inputs site of
              None \<Rightarrow> Inr additions
            | Some binding \<Rightarrow>
                (let sharedOrders = lockOrderIdentity ` set (filter (\<lambda>instance. \<not> isOpenLockOrder instance) direct)
                 in map_sum id (\<lambda>spawned. additions @ spawned)
                      (spawnedAdditions binding sharedOrders
                         (concat (map (\<lambda>order. instantiateAtCall order (spawnedOrderCall inputs site binding)) calleeOrders))))))"

definition addOrder :: "OrderAddition \<Rightarrow> LockOrderFacts \<Rightarrow> LockOrderFacts \<times> bool" where
  "addOrder addition facts =
     (case addition of
        AddOpen order throughRecursion \<Rightarrow>
          (let (opened, changed) = addOpenLockOrder order throughRecursion (lf_open facts) in (facts\<lparr>lf_open := opened\<rparr>, changed))
      | AddClosed order \<Rightarrow> (facts\<lparr>lf_orders := addLockOrder order (lf_orders facts)\<rparr>, False))"

text \<open>The orders the calls to a function take over, as one copy; the code skips a callee that has none.\<close>

definition calleeOrdersOf :: "LockOrderFacts \<Rightarrow> DirectCallSite \<Rightarrow> LockOrderFact list list" where
  "calleeOrdersOf facts site =
     [ol_orders (openOrdersOf (lf_open facts) (dc_calleeFunctionId site)) @
      (case map_of (lf_judged facts) (dc_calleeFunctionId site) of None \<Rightarrow> [] | Some orders \<Rightarrow> orders)]"

definition instantiateOrders :: "'v OrderInputs \<Rightarrow> LockOrderFacts \<Rightarrow> (unit + LockOrderFacts) option" where
  "instantiateOrders inputs = spreadLoop calleeOrdersOf (additionsAtCall inputs) addOrder (oi_sites inputs)"

definition buildLockOrders :: "'v OrderInputs \<Rightarrow> (unit + LockOrderFact list) option" where
  "buildLockOrders inputs =
     (case collectOrders inputs (oi_module inputs) noOrderFacts of
        None \<Rightarrow> None
      | Some (Inl e) \<Rightarrow> Some (Inl e)
      | Some (Inr facts) \<Rightarrow> map_option (map_sum id (\<lambda>facts. fst (lf_orders facts))) (instantiateOrders inputs facts))"

section \<open>The stores of orders\<close>

lemma keepLockOrder_merged: "keepLockOrder = keepMerged lockOrderKey mergeOrderThreads order_threads"
  by (intro ext) (simp add: keepLockOrder_def keepMerged_def)

definition fewer_threads :: "LockOrderFact \<Rightarrow> LockOrderFact \<Rightarrow> bool" where
  "fewer_threads order kept \<longleftrightarrow> lo_liveEntries order \<subseteq> lo_liveEntries kept \<and> lo_startedEntries order \<subseteq> lo_startedEntries kept"

definition finite_threads :: "LockOrderFact \<Rightarrow> bool" where
  "finite_threads order \<longleftrightarrow> finite (lo_liveEntries order) \<and> finite (lo_startedEntries order)"

lemma card_Un_grows: "finite A \<Longrightarrow> finite B \<Longrightarrow> card A \<le> card (A \<union> B)"
  by (intro card_mono) auto

lemma card_Un_same:
  assumes "finite A" "finite B" "finite C" "finite D" "card (A \<union> B) + card (C \<union> D) = card A + card C"
  shows "A \<union> B = A" "C \<union> D = C"
proof -
  have "card (A \<union> B) = card A" "card (C \<union> D) = card C"
    using assms(5) card_Un_grows [OF assms(1,2)] card_Un_grows [OF assms(3,4)] by linarith+
  then show "A \<union> B = A" "C \<union> D = C" using card_subset_eq [of "A \<union> B" A] card_subset_eq [of "C \<union> D" C] assms(1-4) by auto
qed

interpretation order_store: merged_store lockOrderKey mergeOrderThreads order_threads fewer_threads finite_threads
proof unfold_locales
  fix order kept assume fin: "finite_threads order" "finite_threads kept"
  show "finite_threads (mergeOrderThreads order kept)" using fin by (simp add: finite_threads_def mergeOrderThreads_def)
  show "order_threads kept \<le> order_threads (mergeOrderThreads order kept)"
    using fin by (simp add: finite_threads_def mergeOrderThreads_def order_threads_def add_mono card_Un_grows)
  assume "order_threads (mergeOrderThreads order kept) = order_threads kept"
  then have "lo_liveEntries kept \<union> lo_liveEntries order = lo_liveEntries kept" "lo_startedEntries kept \<union> lo_startedEntries order = lo_startedEntries kept"
    using card_Un_same [of "lo_liveEntries kept" "lo_liveEntries order" "lo_startedEntries kept" "lo_startedEntries order"] fin
    by (simp_all add: order_threads_def mergeOrderThreads_def finite_threads_def)
  then show "mergeOrderThreads order kept = kept" by (simp add: mergeOrderThreads_def)
qed (auto simp: lockOrderKey_def mergeOrderThreads_def fewer_threads_def)

definition open_store :: "OpenLockOrders \<Rightarrow> LockOrderFact store" where
  "open_store opened = (ol_orders opened, ol_indexByKey opened)"

lemma ol_orders_store: "ol_orders opened = fst (open_store opened)"
  by (simp add: open_store_def)

lemma keepOpen_store:
  "open_store (fst (keepOpen order opened)) = fst (keepMerged lockOrderKey mergeOrderThreads order_threads order (open_store opened))"
  "snd (keepOpen order opened) = snd (keepMerged lockOrderKey mergeOrderThreads order_threads order (open_store opened))"
  "ol_ordersOnLocksOnlyARecursionNames (fst (keepOpen order opened)) = ol_ordersOnLocksOnlyARecursionNames opened"
  by (simp_all add: keepOpen_def open_store_def keepLockOrder_merged split_def Let_def)

text \<open>
  Adding an open order keeps it, unless the recursions have already brought as many orders as they may.
\<close>

definition capped :: "OpenLockOrders \<Rightarrow> bool" where
  "capped opened \<longleftrightarrow> ol_ordersOnLocksOnlyARecursionNames opened \<ge> kMaxOrdersOnLocksOnlyARecursionNames"

lemma addToOpen_cases:
  obtains (refused) "throughRecursion" "capped opened" "addToOpen order throughRecursion opened = (opened, False)"
  | (kept) "open_store (fst (addToOpen order throughRecursion opened)) = fst (keepMerged lockOrderKey mergeOrderThreads order_threads order (open_store opened))"
      "snd (addToOpen order throughRecursion opened) = snd (keepMerged lockOrderKey mergeOrderThreads order_threads order (open_store opened))"
      "ol_ordersOnLocksOnlyARecursionNames opened \<le> ol_ordersOnLocksOnlyARecursionNames (fst (addToOpen order throughRecursion opened))"
proof -
  let ?noted = "opened\<lparr>ol_lockIdsOutsideRecursion := insert (lo_secondLockId order) (insert (lo_firstLockId order) (ol_lockIdsOutsideRecursion opened))\<rparr>"
  have noted: "open_store ?noted = open_store opened" by (simp add: open_store_def)
  have counted: "open_store (x\<lparr>ol_ordersOnLocksOnlyARecursionNames := n\<rparr>) = open_store x" for x n by (simp add: open_store_def)
  consider "\<not> throughRecursion" | "throughRecursion" "lo_firstLockId order \<in> ol_lockIdsOutsideRecursion opened \<and> lo_secondLockId order \<in> ol_lockIdsOutsideRecursion opened"
    | "throughRecursion" "capped opened" "\<not> (lo_firstLockId order \<in> ol_lockIdsOutsideRecursion opened \<and> lo_secondLockId order \<in> ol_lockIdsOutsideRecursion opened)"
    | "throughRecursion" "\<not> capped opened" "\<not> (lo_firstLockId order \<in> ol_lockIdsOutsideRecursion opened \<and> lo_secondLockId order \<in> ol_lockIdsOutsideRecursion opened)" by blast
  then show ?thesis
  proof cases
    case 1
    then show ?thesis using kept keepOpen_store [of order ?noted] unfolding noted by (simp add: addToOpen_def)
  next
    case 2
    then show ?thesis using kept keepOpen_store [of order opened] by (simp add: addToOpen_def)
  next
    case 3
    then have "addToOpen order throughRecursion opened = (opened, False)" by (auto simp: addToOpen_def capped_def)
    then show ?thesis using refused 3 by blast
  next
    case 4
    then have "addToOpen order throughRecursion opened =
        ((fst (keepOpen order opened))\<lparr>ol_ordersOnLocksOnlyARecursionNames :=
           ol_ordersOnLocksOnlyARecursionNames (fst (keepOpen order opened)) + (length (ol_orders (fst (keepOpen order opened))) - length (ol_orders opened))\<rparr>,
         snd (keepOpen order opened))"
      by (auto simp: addToOpen_def capped_def split_def Let_def)
    then show ?thesis using kept keepOpen_store [of order opened] counted by simp
  qed
qed

section \<open>What the orders stem from\<close>

definition judgedOf :: "LockOrderFacts \<Rightarrow> string \<Rightarrow> LockOrderFact list" where
  "judgedOf facts f = (case map_of (lf_judged facts) f of None \<Rightarrow> [] | Some orders \<Rightarrow> orders)"

definition openOf :: "LockOrderFacts \<Rightarrow> string \<Rightarrow> LockOrderFact list" where
  "openOf facts f = ol_orders (openOrdersOf (lf_open facts) f)"

text \<open>
  \<open>stems inputs facts order\<close>: \<open>order\<close> is, but for the threads beside it, one the functions left to their calls, or what such an order stands for
  at a call that takes over its callee's orders, made by the caller itself or by the thread spawned on its object.
\<close>

inductive stems :: "'v OrderInputs \<Rightarrow> LockOrderFacts \<Rightarrow> LockOrderFact \<Rightarrow> bool" for inputs facts where
  left_open: "order \<in> set (openOf facts f) \<or> order \<in> set (judgedOf facts f) \<Longrightarrow> stems inputs facts order"
| threads: "stems inputs facts order \<Longrightarrow> stems inputs facts (order\<lparr>lo_liveEntries := live, lo_startedEntries := started\<rparr>)"
| at_call: "stems inputs facts order \<Longrightarrow> site \<in> set (oi_sites inputs) \<Longrightarrow> takesCalleeLockOrders (oi_standard inputs) site \<Longrightarrow>
    lo_functionId order = dc_calleeFunctionId site \<Longrightarrow> order' \<in> set (instantiateAtCall order (orderCall inputs site)) \<Longrightarrow> stems inputs facts order'"
| at_spawned_call: "stems inputs facts order \<Longrightarrow> site \<in> set (oi_sites inputs) \<Longrightarrow> takesCalleeLockOrders (oi_standard inputs) site \<Longrightarrow>
    lo_functionId order = dc_calleeFunctionId site \<Longrightarrow> spawnedObject inputs site = Some binding \<Longrightarrow>
    order' \<in> set (instantiateAtCall order (spawnedOrderCall inputs site binding)) \<Longrightarrow> gatesAmong (lo_heldLocks order') (Some binding) = Inr gates \<Longrightarrow>
    stems inputs facts (order'\<lparr>lo_heldLocks := gates, lo_boundBySpawn := True\<rparr>)"

section \<open>Finitely many keys\<close>

definition lockPlaces :: "MemoryRegion set" where
  "lockPlaces = insert (whole_region\<lparr>mr_hasKnownOffset := False\<rparr>) (insert whole_region (range (\<lambda>w. whole_region\<lparr>mr_byteOffset := w\<rparr>)))"

lemma placeOf_places: "placeOf lockId = Some place \<Longrightarrow> pl_place place \<in> lockPlaces"
  by (auto simp: placeOf_def parameterLockPlace_def lockPlaces_def Let_def split: if_splits sum.splits)

lemma lockPlaces_finite: "finite lockPlaces"
  by (simp add: lockPlaces_def)

definition siteCalls :: "'v OrderInputs \<Rightarrow> DirectCallSite \<Rightarrow> 'v LockOrderCall list" where
  "siteCalls inputs site =
     orderCall inputs site # (case spawnedObject inputs site of None \<Rightarrow> [] | Some binding \<Rightarrow> [spawnedOrderCall inputs site binding])"

definition passedLocks :: "'v LockOrderCall \<Rightarrow> string set" where
  "passedLocks call = (\<Union>v \<in> set (lk_args call). set_option (lockIdOf (lk_callerLocks call) v))"

definition initialOrders :: "LockOrderFacts \<Rightarrow> LockOrderFact set" where
  "initialOrders facts = {order. \<exists>f. order \<in> set (openOf facts f) \<or> order \<in> set (judgedOf facts f)}"

definition lockNames :: "'v OrderInputs \<Rightarrow> LockOrderFacts \<Rightarrow> string set" where
  "lockNames inputs facts =
     insert kLocksHeldByCaller (lo_firstLockId ` initialOrders facts \<union> lo_secondLockId ` initialOrders facts \<union>
       (\<Union>site \<in> set (oi_sites inputs). \<Union>call \<in> set (siteCalls inputs site). lk_heldAtCall call \<union>
          (\<lambda>(p, place). lockIdAt (rootOf p) place) ` (passedLocks call \<times> lockPlaces)))"

definition orderFunctions :: "'v OrderInputs \<Rightarrow> LockOrderFacts \<Rightarrow> string set" where
  "orderFunctions inputs facts = lo_functionId ` initialOrders facts \<union> dc_callerFunctionId ` set (oi_sites inputs)"

definition orderLocations :: "'v OrderInputs \<Rightarrow> LockOrderFacts \<Rightarrow> SourceLocation set" where
  "orderLocations inputs facts = lo_location ` initialOrders facts \<union> dc_userLocation ` set (oi_sites inputs)"

definition orderEntries :: "LockOrderFacts \<Rightarrow> string set" where
  "orderEntries facts = (\<Union>order \<in> initialOrders facts. lo_liveEntries order \<union> lo_startedEntries order)"

definition order_ok :: "'v OrderInputs \<Rightarrow> LockOrderFacts \<Rightarrow> string \<Rightarrow> LockOrderFact \<Rightarrow> bool" where
  "order_ok inputs facts f order \<longleftrightarrow>
     stems inputs facts order \<and> lo_functionId order = f \<and> f \<in> orderFunctions inputs facts \<and>
     lo_firstLockId order \<in> lockNames inputs facts \<and> lo_secondLockId order \<in> lockNames inputs facts \<and>
     lo_location order \<in> orderLocations inputs facts \<and> lo_liveEntries order \<subseteq> orderEntries facts \<and> lo_startedEntries order \<subseteq> orderEntries facts"

definition possibleOrderKeys :: "'v OrderInputs \<Rightarrow> LockOrderFacts \<Rightarrow> string set" where
  "possibleOrderKeys inputs facts =
     (\<lambda>(f, first, second, location, lower, spawned).
        f @ ''|'' @ first @ ''|'' @ second @ ''|'' @ sl_file location @ ''|'' @ to_string_nat (sl_line location) @ ''|'' @
        to_string_nat (sl_column location) @ (if lower then ''|lower-address-first'' else []) @ (if spawned then ''|bound-by-spawn'' else [])) `
     (orderFunctions inputs facts \<times> lockNames inputs facts \<times> lockNames inputs facts \<times> orderLocations inputs facts \<times> UNIV \<times> UNIV)"

lemma order_ok_key: "order_ok inputs facts f order \<Longrightarrow> lockOrderKey order \<in> possibleOrderKeys inputs facts"
  unfolding possibleOrderKeys_def lockOrderKey_def order_ok_def
  by (intro image_eqI [of _ _ "(lo_functionId order, lo_firstLockId order, lo_secondLockId order, lo_location order, lo_lowerAddressFirst order, lo_boundBySpawn order)"]) auto

text \<open>What the builder starts from: indexed stores, orders under their functions, and finite sets throughout.\<close>

definition start_ok :: "'v OrderInputs \<Rightarrow> LockOrderFacts \<Rightarrow> bool" where
  "start_ok inputs facts \<longleftrightarrow>
     keyed lockOrderKey (lf_orders facts) \<and> (\<forall>f. keyed lockOrderKey (open_store (openOrdersOf (lf_open facts) f))) \<and>
     (\<forall>f. list_all (\<lambda>order. lo_functionId order = f) (openOf facts f @ judgedOf facts f)) \<and>
     finite (initialOrders facts) \<and> (\<forall>order \<in> initialOrders facts. finite_threads order) \<and>
     (\<forall>site. finite (heldLocksAt (oi_locks inputs) site))"

lemma locksOnSharedObject_finite: "finite locks \<Longrightarrow> finite (locksOnSharedObject locks binding)"
  by (simp add: locksOnSharedObject_def)

lemma passedLocks_finite: "finite (passedLocks call)"
  by (simp add: passedLocks_def)

lemma lockNames_finite:
  assumes "start_ok inputs facts"
  shows "finite (lockNames inputs facts)"
proof -
  have "finite (lk_heldAtCall call)" if "call \<in> set (siteCalls inputs site)" for site call
  proof -
    have "finite (heldLocksAt (oi_locks inputs) site)" using assms by (simp add: start_ok_def)
    then show ?thesis using that by (auto simp: siteCalls_def orderCall_def spawnedOrderCall_def locksOnSharedObject_finite split: option.splits)
  qed
  then show ?thesis unfolding lockNames_def using assms lockPlaces_finite
    by (auto simp: start_ok_def passedLocks_finite intro!: finite_imageI finite_cartesian_product)
qed

lemma possibleOrderKeys_finite:
  assumes "start_ok inputs facts"
  shows "finite (possibleOrderKeys inputs facts)"
  unfolding possibleOrderKeys_def
  using assms lockNames_finite [OF assms]
  by (intro finite_imageI finite_cartesian_product) (simp_all add: start_ok_def orderFunctions_def orderLocations_def)

lemma orderEntries_finite: "start_ok inputs facts \<Longrightarrow> finite (orderEntries facts)"
  by (auto simp: orderEntries_def start_ok_def finite_threads_def)

lemma orderFunctions_finite: "start_ok inputs facts \<Longrightarrow> finite (orderFunctions inputs facts)"
  by (simp add: orderFunctions_def start_ok_def)

section \<open>Orders at a call\<close>

lemma lockAtCall_names:
  assumes "site \<in> set (oi_sites inputs)" "call \<in> set (siteCalls inputs site)" "l \<in> lockNames inputs facts"
    "lockAtCall l (lk_args call) (lk_callerLocks call) = Some l'"
  shows "l' \<in> lockNames inputs facts"
proof (cases "placeOf l")
  case None
  then show ?thesis using assms(3,4) by (simp add: lockAtCall_def)
next
  case (Some place)
  then obtain passed where p: "pl_argumentIndex place < length (lk_args call)" "lockIdOf (lk_callerLocks call) (lk_args call ! pl_argumentIndex place) = Some passed"
      "l' = lockIdAt (rootOf passed) (pl_place place)"
    using assms(4) by (auto simp: lockAtCall_def split: if_splits option.splits)
  have "passed \<in> passedLocks call" unfolding passedLocks_def using p(1,2) by (intro UN_I [of "lk_args call ! pl_argumentIndex place"]) auto
  then have "l' \<in> (\<lambda>(p, place). lockIdAt (rootOf p) place) ` (passedLocks call \<times> lockPlaces)"
    using p(3) placeOf_places [OF Some] by (intro image_eqI [of _ _ "(passed, pl_place place)"]) auto
  then show ?thesis using assms(1,2) unfolding lockNames_def by blast
qed

lemma firstsAtCall_names:
  assumes "site \<in> set (oi_sites inputs)" "call \<in> set (siteCalls inputs site)" "lo_firstLockId order \<in> lockNames inputs facts"
    "first \<in> set (firstsAtCall order call)"
  shows "first \<in> lockNames inputs facts"
proof (cases "lo_firstLockId order = kLocksHeldByCaller")
  case True
  have "set (sorted_list_of_set (lk_heldAtCall call)) \<subseteq> lk_heldAtCall call" by (cases "finite (lk_heldAtCall call)") auto
  then have "first \<in> lk_heldAtCall call \<or> first = kLocksHeldByCaller" using True assms(4) by (auto simp: firstsAtCall_def)
  then show ?thesis using assms(1,2) unfolding lockNames_def by blast
next
  case False
  then have "lockAtCall (lo_firstLockId order) (lk_args call) (lk_callerLocks call) = Some first"
    using assms(4) by (auto simp: firstsAtCall_def split: option.splits)
  then show ?thesis by (rule lockAtCall_names [OF assms(1-3)])
qed

lemma instfields:
  assumes "inst \<in> set (instantiateAtCall order call)"
  shows "lo_functionId inst = dc_callerFunctionId (lk_site call)" "lo_location inst = dc_userLocation (lk_site call)"
    "lo_firstLockId inst \<in> set (firstsAtCall order call)" "lockAtCall (lo_secondLockId order) (lk_args call) (lk_callerLocks call) = Some (lo_secondLockId inst)"
    "lo_liveEntries inst \<subseteq> lo_liveEntries order" "lo_startedEntries inst \<subseteq> lo_liveEntries order"
  using assms by (auto simp: instantiateAtCall_def threadsThroughCall_def Let_def split: option.splits)

lemma siteCalls_site: "call \<in> set (siteCalls inputs site) \<Longrightarrow> lk_site call = site"
  by (auto simp: siteCalls_def orderCall_def spawnedOrderCall_def split: option.splits)

lemma instbounds:
  assumes "site \<in> set (oi_sites inputs)" "call \<in> set (siteCalls inputs site)" "order_ok inputs facts f order" "inst \<in> set (instantiateAtCall order call)"
    "stems inputs facts inst'" "inst' = inst \<or> (\<exists>gates. inst' = inst\<lparr>lo_heldLocks := gates, lo_boundBySpawn := True\<rparr>)"
  shows "order_ok inputs facts (dc_callerFunctionId site) inst'"
proof -
  note fields = instfields [OF assms(4)]
  have order: "lo_firstLockId order \<in> lockNames inputs facts" "lo_secondLockId order \<in> lockNames inputs facts" "lo_liveEntries order \<subseteq> orderEntries facts"
    using assms(3) by (simp_all add: order_ok_def)
  have "lo_firstLockId inst \<in> lockNames inputs facts" "lo_secondLockId inst \<in> lockNames inputs facts"
    using firstsAtCall_names [OF assms(1,2) order(1) fields(3)] lockAtCall_names [OF assms(1,2) order(2) fields(4)] by blast+
  moreover have "dc_callerFunctionId site \<in> orderFunctions inputs facts" "dc_userLocation site \<in> orderLocations inputs facts"
    using assms(1) by (simp_all add: orderFunctions_def orderLocations_def)
  ultimately show ?thesis using assms(5,6) fields(1,2,5,6) order(3) siteCalls_site [OF assms(2)] unfolding order_ok_def by auto
qed

section \<open>What the loop keeps\<close>

definition gated :: "LockOrderFact \<Rightarrow> LockOrderFact" where
  "gated order = order\<lparr>lo_heldLocks := Set.filter (\<lambda>lockId. \<not> namesCallerFrame lockId) (lo_heldLocks order)\<rparr>"

lemma addLockOrder_store: "addLockOrder order st = fst (keepMerged lockOrderKey mergeOrderThreads order_threads (gated order) st)"
  by (simp add: addLockOrder_def gated_def keepLockOrder_merged)

text \<open>A closed order is, but for its threads, one a function takes, or it stems from one left to the calls.\<close>

definition unthreaded :: "LockOrderFact \<Rightarrow> LockOrderFact" where
  "unthreaded order = order\<lparr>lo_liveEntries := {}, lo_startedEntries := {}\<rparr>"

definition accounted :: "'v OrderInputs \<Rightarrow> LockOrderFacts \<Rightarrow> LockOrderFact \<Rightarrow> bool" where
  "accounted inputs facts order \<longleftrightarrow>
     (\<exists>o'. (o' \<in> set (fst (lf_orders facts)) \<or> (\<exists>o''. stems inputs facts o'' \<and> o' = gated o'')) \<and>
        unthreaded order = unthreaded o')"

definition order_inv :: "'v OrderInputs \<Rightarrow> LockOrderFacts \<Rightarrow> LockOrderFacts \<Rightarrow> bool" where
  "order_inv inputs facts st \<longleftrightarrow>
     start_ok inputs facts \<and> lf_judged st = lf_judged facts \<and> keyed lockOrderKey (lf_orders st) \<and>
     (\<forall>f. keyed lockOrderKey (open_store (openOrdersOf (lf_open st) f)) \<and> list_all (order_ok inputs facts f) (openOf st f)) \<and>
     list_all (accounted inputs facts) (fst (lf_orders st))"

definition addition_ok :: "'v OrderInputs \<Rightarrow> LockOrderFacts \<Rightarrow> OrderAddition \<Rightarrow> bool" where
  "addition_ok inputs facts addition =
     (case addition of AddOpen order _ \<Rightarrow> order_ok inputs facts (lo_functionId order) order | AddClosed order \<Rightarrow> stems inputs facts order)"

definition kept_addition :: "LockOrderFacts \<Rightarrow> OrderAddition \<Rightarrow> bool" where
  "kept_addition st addition =
     (case addition of
        AddOpen order throughRecursion \<Rightarrow>
          order_store.keeps (open_store (openOrdersOf (lf_open st) (lo_functionId order))) order \<or>
          throughRecursion \<and> capped (openOrdersOf (lf_open st) (lo_functionId order))
      | AddClosed order \<Rightarrow> order_store.keeps (lf_orders st) (gated order))"

definition order_weight :: "'v OrderInputs \<Rightarrow> LockOrderFacts \<Rightarrow> LockOrderFacts \<Rightarrow> nat" where
  "order_weight inputs facts st = (\<Sum>f \<in> orderFunctions inputs facts. order_store.store_weight (open_store (openOrdersOf (lf_open st) f)))"

definition order_bound :: "'v OrderInputs \<Rightarrow> LockOrderFacts \<Rightarrow> nat" where
  "order_bound inputs facts =
     card (orderFunctions inputs facts) * (card (possibleOrderKeys inputs facts) * Suc (card (orderEntries facts) + card (orderEntries facts)))"

lemma openOrdersOf_add:
  "openOrdersOf (fst (addOpenLockOrder order r m)) f =
     (if f = lo_functionId order then fst (addToOpen order r (openOrdersOf m (lo_functionId order))) else openOrdersOf m f)"
  "snd (addOpenLockOrder order r m) = snd (addToOpen order r (openOrdersOf m (lo_functionId order)))"
  by (simp_all add: addOpenLockOrder_def openOrdersOf_def umap_lookup_update split_def Let_def)

lemma order_ok_initial:
  assumes "start_ok inputs facts" "order \<in> set (openOf facts f) \<or> order \<in> set (judgedOf facts f)"
  shows "order_ok inputs facts f order"
proof -
  have "order \<in> initialOrders facts" "lo_functionId order = f" using assms by (auto simp: initialOrders_def start_ok_def list_all_iff)
  then show ?thesis using stems.left_open [OF assms(2)]
    by (auto simp: order_ok_def orderFunctions_def lockNames_def orderLocations_def orderEntries_def)
qed

lemma order_ok_merge:
  assumes "order_ok inputs facts f order" "order_ok inputs facts f kept"
  shows "order_ok inputs facts f (mergeOrderThreads order kept)"
  using assms unfolding order_ok_def mergeOrderThreads_def by (auto intro: stems.threads)

lemma order_ok_fin: "start_ok inputs facts \<Longrightarrow> order_ok inputs facts f order \<Longrightarrow> finite_threads order"
  using orderEntries_finite finite_subset unfolding order_ok_def finite_threads_def by metis

lemma accounted_merge: "accounted inputs facts kept \<Longrightarrow> accounted inputs facts (mergeOrderThreads order kept)"
  by (simp add: accounted_def mergeOrderThreads_def unthreaded_def)

lemma addOrder_inv:
  assumes inv: "order_inv inputs facts st" and ok: "addition_ok inputs facts addition"
  shows "order_inv inputs facts (fst (addOrder addition st))"
proof (cases addition)
  case (AddClosed order)
  have st': "fst (addOrder addition st) = st\<lparr>lf_orders := fst (keepMerged lockOrderKey mergeOrderThreads order_threads (gated order) (lf_orders st))\<rparr>"
    by (simp add: AddClosed addOrder_def addLockOrder_store)
  have "accounted inputs facts (gated order)" using ok AddClosed by (auto simp: addition_ok_def accounted_def)
  then have "list_all (accounted inputs facts) (fst (fst (keepMerged lockOrderKey mergeOrderThreads order_threads (gated order) (lf_orders st))))"
    using inv by (intro order_store.keep_all) (auto simp: order_inv_def accounted_merge)
  then show ?thesis using inv order_store.keep_keyed [of "lf_orders st" "gated order"] unfolding st' order_inv_def by (simp add: openOf_def)
next
  case (AddOpen order r)
  let ?f = "lo_functionId order" and ?keep = "keepMerged lockOrderKey mergeOrderThreads order_threads order"
  have st': "fst (addOrder addition st) = st\<lparr>lf_open := fst (addOpenLockOrder order r (lf_open st))\<rparr>" by (simp add: AddOpen addOrder_def split_def Let_def)
  have order: "order_ok inputs facts ?f order" using ok AddOpen by (simp add: addition_ok_def)
  have "keyed lockOrderKey (open_store (fst (addToOpen order r (openOrdersOf (lf_open st) ?f)))) \<and>
      list_all (order_ok inputs facts ?f) (ol_orders (fst (addToOpen order r (openOrdersOf (lf_open st) ?f))))"
  proof -
    have before: "keyed lockOrderKey (open_store (openOrdersOf (lf_open st) ?f))" "list_all (order_ok inputs facts ?f) (fst (open_store (openOrdersOf (lf_open st) ?f)))"
      using inv by (simp_all add: order_inv_def openOf_def open_store_def)
    have "keyed lockOrderKey (fst (?keep (open_store (openOrdersOf (lf_open st) ?f))))"
      "list_all (order_ok inputs facts ?f) (fst (fst (?keep (open_store (openOrdersOf (lf_open st) ?f)))))"
      using before order order_store.keep_keyed by (auto intro!: order_store.keep_all order_ok_merge)
    then show ?thesis using before by (cases rule: addToOpen_cases [of r "openOrdersOf (lf_open st) ?f" order]) (simp_all add: ol_orders_store)
  qed
  then show ?thesis using inv unfolding st' order_inv_def by (simp add: openOrdersOf_add openOf_def)
qed

lemma addOrder_keeps:
  assumes "keyed lockOrderKey (lf_orders st)" "\<And>f. keyed lockOrderKey (open_store (openOrdersOf (lf_open st) f))"
  shows "kept_addition (fst (addOrder addition st)) addition" "kept_addition st b \<Longrightarrow> kept_addition (fst (addOrder addition st)) b"
proof -
  have "kept_addition (fst (addOrder addition st)) addition \<and> (kept_addition st b \<longrightarrow> kept_addition (fst (addOrder addition st)) b)"
  proof (cases addition)
    case (AddClosed order)
    then show ?thesis using order_store.keep_keeps [OF assms(1), of "gated order"] order_store.keep_mono [OF assms(1), of _ "gated order"]
      by (cases b) (simp_all add: addOrder_def addLockOrder_store kept_addition_def)
  next
    case (AddOpen order r)
    let ?f = "lo_functionId order" and ?opened = "openOrdersOf (lf_open st) (lo_functionId order)"
    have st': "fst (addOrder addition st) = st\<lparr>lf_open := fst (addOpenLockOrder order r (lf_open st))\<rparr>" by (simp add: AddOpen addOrder_def split_def Let_def)
    have one: "(order_store.keeps (open_store (fst (addToOpen order r ?opened))) order \<or> r \<and> capped (fst (addToOpen order r ?opened))) \<and>
        (\<forall>o'. order_store.keeps (open_store ?opened) o' \<longrightarrow> order_store.keeps (open_store (fst (addToOpen order r ?opened))) o') \<and>
        (capped ?opened \<longrightarrow> capped (fst (addToOpen order r ?opened)))"
      using order_store.keep_keeps [OF assms(2) [of ?f]] order_store.keep_mono [OF assms(2) [of ?f]]
      by (cases rule: addToOpen_cases [of r ?opened order]) (auto simp: capped_def)
    then show ?thesis unfolding st' unfolding AddOpen by (cases b) (auto simp: kept_addition_def openOrdersOf_add)
  qed
  then show "kept_addition (fst (addOrder addition st)) addition" "kept_addition st b \<Longrightarrow> kept_addition (fst (addOrder addition st)) b" by blast+
qed

lemma addOrder_has:
  assumes "order_inv inputs facts st"
  shows "kept_addition (fst (addOrder addition st)) addition" and "kept_addition st b \<Longrightarrow> kept_addition (fst (addOrder addition st)) b"
  using assms addOrder_keeps [of st] by (simp_all add: order_inv_def)

lemma addOrder_weight:
  assumes inv: "order_inv inputs facts st" and ok: "addition_ok inputs facts addition"
  shows "snd (addOrder addition st) \<Longrightarrow> order_weight inputs facts st < order_weight inputs facts (fst (addOrder addition st))"
    and "\<not> snd (addOrder addition st) \<Longrightarrow> order_weight inputs facts (fst (addOrder addition st)) = order_weight inputs facts st \<and>
      calleeOrdersOf (fst (addOrder addition st)) = calleeOrdersOf st"
proof -
  have start: "start_ok inputs facts" using inv by (simp add: order_inv_def)
  have "(snd (addOrder addition st) \<longrightarrow> order_weight inputs facts st < order_weight inputs facts (fst (addOrder addition st))) \<and>
    (\<not> snd (addOrder addition st) \<longrightarrow> order_weight inputs facts (fst (addOrder addition st)) = order_weight inputs facts st \<and>
      calleeOrdersOf (fst (addOrder addition st)) = calleeOrdersOf st)"
  proof (cases addition)
    case (AddClosed order)
    then show ?thesis by (simp add: addOrder_def order_weight_def calleeOrdersOf_def fun_eq_iff)
  next
    case (AddOpen order r)
    let ?f = "lo_functionId order" and ?opened = "openOrdersOf (lf_open st) (lo_functionId order)" and ?keep = "keepMerged lockOrderKey mergeOrderThreads order_threads order"
    have st': "fst (addOrder addition st) = st\<lparr>lf_open := fst (addOpenLockOrder order r (lf_open st))\<rparr>" "snd (addOrder addition st) = snd (addToOpen order r ?opened)"
      by (simp_all add: AddOpen addOrder_def openOrdersOf_add split_def Let_def)
    have order: "order_ok inputs facts ?f order" using ok AddOpen by (simp add: addition_ok_def)
    have kept: "keyed lockOrderKey (open_store ?opened)" "list_all finite_threads (fst (open_store ?opened))"
      using inv order_ok_fin [OF start] by (auto simp: order_inv_def openOf_def open_store_def list_all_iff)
    note keep = order_store.keep_weight [OF kept order_ok_fin [OF start order]]
    have one: "snd (addToOpen order r ?opened) \<Longrightarrow> order_store.store_weight (open_store ?opened) < order_store.store_weight (open_store (fst (addToOpen order r ?opened)))"
      "\<not> snd (addToOpen order r ?opened) \<Longrightarrow> open_store (fst (addToOpen order r ?opened)) = open_store ?opened"
      using keep by (cases rule: addToOpen_cases [of r ?opened order]; simp)+
    show ?thesis
    proof (cases "snd (addToOpen order r ?opened)")
      case True
      have "order_weight inputs facts st < order_weight inputs facts (fst (addOrder addition st))"
        unfolding order_weight_def st' using one(1) [OF True] order orderFunctions_finite [OF start]
        by (intro sum_strict_mono_ex1) (auto simp: openOrdersOf_add order_ok_def)
      then show ?thesis using True st' by simp
    next
      case False
      then have "open_store (openOrdersOf (lf_open (fst (addOrder addition st))) f) = open_store (openOrdersOf (lf_open st) f)" for f
        using one(2) unfolding st' by (simp add: openOrdersOf_add)
      then have "ol_orders (openOrdersOf (lf_open (fst (addOrder addition st))) f) = ol_orders (openOrdersOf (lf_open st) f)"
        "order_store.store_weight (open_store (openOrdersOf (lf_open (fst (addOrder addition st))) f)) = order_store.store_weight (open_store (openOrdersOf (lf_open st) f))" for f
        by (simp_all add: open_store_def)
      then show ?thesis using False st' by (simp add: order_weight_def calleeOrdersOf_def fun_eq_iff)
    qed
  qed
  then show "snd (addOrder addition st) \<Longrightarrow> order_weight inputs facts st < order_weight inputs facts (fst (addOrder addition st))"
    and "\<not> snd (addOrder addition st) \<Longrightarrow> order_weight inputs facts (fst (addOrder addition st)) = order_weight inputs facts st \<and>
      calleeOrdersOf (fst (addOrder addition st)) = calleeOrdersOf st" by blast+
qed

lemma order_inv_bounded:
  assumes inv: "order_inv inputs facts st"
  shows "order_weight inputs facts st \<le> order_bound inputs facts"
proof -
  have start: "start_ok inputs facts" using inv by (simp add: order_inv_def)
  have "order_store.store_weight (open_store (openOrdersOf (lf_open st) f)) \<le> card (possibleOrderKeys inputs facts) * Suc (card (orderEntries facts) + card (orderEntries facts))" for f
  proof (rule order_store.store_bounded)
    have ok: "list_all (order_ok inputs facts f) (fst (open_store (openOrdersOf (lf_open st) f)))" using inv by (simp add: order_inv_def openOf_def open_store_def)
    then show "lockOrderKey ` set (fst (open_store (openOrdersOf (lf_open st) f))) \<subseteq> possibleOrderKeys inputs facts"
      using order_ok_key [of inputs facts f] by (auto simp: list_all_iff)
    have "order_threads order \<le> card (orderEntries facts) + card (orderEntries facts)" if "order_ok inputs facts f order" for order
      using that orderEntries_finite [OF start] by (auto simp: order_ok_def order_threads_def intro!: add_mono card_mono)
    then show "list_all (\<lambda>order. order_threads order \<le> card (orderEntries facts) + card (orderEntries facts)) (fst (open_store (openOrdersOf (lf_open st) f)))"
      using ok by (auto simp: list_all_iff)
  qed (use inv possibleOrderKeys_finite [OF start] in \<open>simp_all add: order_inv_def\<close>)
  then show ?thesis unfolding order_weight_def order_bound_def by (intro sum_bounded_above [THEN order_trans]) auto
qed

lemma spawnedAdditions_mem:
  "spawnedAdditions binding shared insts = Inr bs \<Longrightarrow> b \<in> set bs \<Longrightarrow>
   \<exists>inst \<in> set insts. \<exists>gates. gatesAmong (lo_heldLocks inst) (Some binding) = Inr gates \<and> b = AddClosed (inst\<lparr>lo_heldLocks := gates, lo_boundBySpawn := True\<rparr>)"
proof (induction insts arbitrary: bs)
  case (Cons inst insts)
  obtain gates where gates: "gatesAmong (lo_heldLocks inst) (Some binding) = Inr gates" using Cons.prems(1) by (auto split: sum.splits)
  obtain rest where rest: "spawnedAdditions binding shared insts = Inr rest" using Cons.prems(1) gates by (cases "spawnedAdditions binding shared insts") (simp_all add: Let_def)
  have "b \<in> set rest \<or> b = AddClosed (inst\<lparr>lo_heldLocks := gates, lo_boundBySpawn := True\<rparr>)"
    using Cons.prems gates rest by (auto simp: Let_def split: if_splits)
  then show ?case using Cons.IH [OF rest] gates by auto
qed simp

lemma directInstances_mem:
  "inst \<in> set (directInstances inputs site orders) \<Longrightarrow> \<exists>order \<in> set orders. inst \<in> set (instantiateAtCall order (orderCall inputs site))"
  by (auto simp: directInstances_def split: option.splits if_splits)

lemma additions_ok:
  assumes site: "site \<in> set (oi_sites inputs)" and ok: "list_all (order_ok inputs facts (dc_calleeFunctionId site)) orders"
    and run: "additionsAtCall inputs site orders = Inr bs" and b: "b \<in> set bs"
  shows "addition_ok inputs facts b"
proof -
  have takes: "takesCalleeLockOrders (oi_standard inputs) site" using run b by (auto simp: additionsAtCall_def split: if_splits)
  have direct: "order_ok inputs facts (dc_callerFunctionId site) inst" if inst: "inst \<in> set (directInstances inputs site orders)" for inst
  proof -
    obtain order where order: "order \<in> set orders" "inst \<in> set (instantiateAtCall order (orderCall inputs site))" using directInstances_mem [OF inst] by blast
    have o: "order_ok inputs facts (dc_calleeFunctionId site) order" using ok order(1) by (simp add: list_all_iff)
    have "stems inputs facts order" "lo_functionId order = dc_calleeFunctionId site" using o by (simp_all add: order_ok_def)
    then have "stems inputs facts inst" using stems.at_call [OF _ site takes _ order(2)] by blast
    then show ?thesis using instbounds [OF site _ o order(2), of inst] by (simp add: siteCalls_def)
  qed
  have spawned: "stems inputs facts (inst\<lparr>lo_heldLocks := gates, lo_boundBySpawn := True\<rparr>)"
    if "spawnedObject inputs site = Some binding" "order \<in> set orders" "inst \<in> set (instantiateAtCall order (spawnedOrderCall inputs site binding))"
      "gatesAmong (lo_heldLocks inst) (Some binding) = Inr gates" for binding order inst gates
  proof -
    have "order_ok inputs facts (dc_calleeFunctionId site) order" using ok that(2) by (simp add: list_all_iff)
    then show ?thesis using stems.at_spawned_call [OF _ site takes _ that(1,3,4)] by (simp add: order_ok_def)
  qed
  let ?direct = "directInstances inputs site orders"
  let ?add = "\<lambda>inst. if isOpenLockOrder inst then AddOpen inst (case dc_call site of None \<Rightarrow> False | Some call \<Rightarrow> call \<in> recursionCalls inputs) else AddClosed inst"
  have mapped: "addition_ok inputs facts b" if added: "b \<in> set (map ?add ?direct)"
  proof -
    obtain inst where "inst \<in> set ?direct" "b = ?add inst" using added by auto
    then have "order_ok inputs facts (dc_callerFunctionId site) inst" "b = ?add inst" using direct by blast+
    then have "order_ok inputs facts (lo_functionId inst) inst" "stems inputs facts inst" "b = ?add inst" by (simp_all only: order_ok_def)
    then show ?thesis by (cases "isOpenLockOrder inst") (simp_all add: addition_ok_def)
  qed
  show ?thesis
  proof (cases "spawnedObject inputs site")
    case None
    then show ?thesis using run b takes mapped by (simp add: additionsAtCall_def Let_def)
  next
    case (Some binding)
    let ?shared = "lockOrderIdentity ` set (filter (\<lambda>inst. \<not> isOpenLockOrder inst) ?direct)"
    let ?insts = "concat (map (\<lambda>order. instantiateAtCall order (spawnedOrderCall inputs site binding)) orders)"
    obtain sp where sp: "spawnedAdditions binding ?shared ?insts = Inr sp" "bs = map ?add ?direct @ sp"
      using run takes Some by (cases "spawnedAdditions binding ?shared ?insts") (simp_all add: additionsAtCall_def Let_def)
    show ?thesis
    proof (cases "b \<in> set sp")
      case True
      then obtain inst gates where "inst \<in> set ?insts" "gatesAmong (lo_heldLocks inst) (Some binding) = Inr gates"
          "b = AddClosed (inst\<lparr>lo_heldLocks := gates, lo_boundBySpawn := True\<rparr>)" using spawnedAdditions_mem [OF sp(1) True] by blast
      moreover then obtain order where "order \<in> set orders" "inst \<in> set (instantiateAtCall order (spawnedOrderCall inputs site binding))" by auto
      ultimately show ?thesis using spawned [OF Some] by (simp add: addition_ok_def)
    next
      case False
      then show ?thesis using mapped b sp(2) by simp
    qed
  qed
qed

interpretation order_spread: call_spread calleeOrdersOf "additionsAtCall inputs" addOrder "oi_sites inputs" "order_inv inputs facts"
  "\<lambda>site orders. start_ok inputs facts \<and> list_all (order_ok inputs facts (dc_calleeFunctionId site)) orders" "addition_ok inputs facts" kept_addition
  "order_weight inputs facts" "order_bound inputs facts"
  for inputs facts
proof unfold_locales
  fix st orders and site :: DirectCallSite assume inv: "order_inv inputs facts st" "orders \<in> set (calleeOrdersOf st site)"
  have "orders = openOf st (dc_calleeFunctionId site) @ judgedOf facts (dc_calleeFunctionId site)"
    using inv by (simp add: calleeOrdersOf_def openOf_def judgedOf_def order_inv_def)
  then show "start_ok inputs facts \<and> list_all (order_ok inputs facts (dc_calleeFunctionId site)) orders"
    using inv(1) order_ok_initial [of inputs facts _ "dc_calleeFunctionId site"] by (auto simp: order_inv_def list_all_iff)
next
  fix site orders bs b assume "site \<in> set (oi_sites inputs)" "start_ok inputs facts \<and> list_all (order_ok inputs facts (dc_calleeFunctionId site)) orders"
    "additionsAtCall inputs site orders = Inr bs" "b \<in> set bs"
  then show "addition_ok inputs facts b" using additions_ok by blast
next
  fix st b assume st: "order_inv inputs facts st" "addition_ok inputs facts b"
  show "order_inv inputs facts (fst (addOrder b st))" by (rule addOrder_inv [OF st])
  show "order_weight inputs facts st < order_weight inputs facts (fst (addOrder b st))" if "snd (addOrder b st)" by (rule addOrder_weight(1) [OF st that])
  show "order_weight inputs facts (fst (addOrder b st)) = order_weight inputs facts st \<and> calleeOrdersOf (fst (addOrder b st)) = calleeOrdersOf st"
    if "\<not> snd (addOrder b st)" by (rule addOrder_weight(2) [OF st that])
  show "kept_addition (fst (addOrder b st)) b" by (rule addOrder_has(1) [OF st(1)])
  show "kept_addition (fst (addOrder b st)) b'" if "kept_addition st b'" for b' by (rule addOrder_has(2) [OF st(1) that])
next
  fix st assume "order_inv inputs facts st"
  then show "order_weight inputs facts st \<le> order_bound inputs facts" by (rule order_inv_bounded)
qed

section \<open>What the functions leave to their calls\<close>

definition collect_ok :: "LockOrderFacts \<Rightarrow> bool" where
  "collect_ok facts \<longleftrightarrow>
     keyed lockOrderKey (lf_orders facts) \<and> (\<forall>f. keyed lockOrderKey (open_store (openOrdersOf (lf_open facts) f))) \<and>
     (\<forall>f. list_all (\<lambda>order. lo_functionId order = f \<and> finite_threads order) (openOf facts f @ judgedOf facts f)) \<and>
     finite {f. openOf facts f \<noteq> [] \<or> judgedOf facts f \<noteq> []}"

lemma collect_ok_start:
  assumes "collect_ok facts" "\<And>site. finite (heldLocksAt (oi_locks inputs) site)"
  shows "start_ok inputs facts"
proof -
  let ?used = "{f. openOf facts f \<noteq> [] \<or> judgedOf facts f \<noteq> []}"
  have "initialOrders facts \<subseteq> (\<Union>f \<in> ?used. set (openOf facts f @ judgedOf facts f))"
  proof
    fix order assume "order \<in> initialOrders facts"
    then obtain f where order: "order \<in> set (openOf facts f @ judgedOf facts f)" by (auto simp: initialOrders_def)
    then have "f \<in> ?used" by auto
    then show "order \<in> (\<Union>f \<in> ?used. set (openOf facts f @ judgedOf facts f))" using order by blast
  qed
  moreover have "finite (\<Union>f \<in> ?used. set (openOf facts f @ judgedOf facts f))" using assms(1) by (simp add: collect_ok_def)
  ultimately have "finite (initialOrders facts)" by (rule finite_subset)
  moreover have "finite_threads order" if "order \<in> initialOrders facts" for order
    using that assms(1) by (auto simp: initialOrders_def collect_ok_def list_all_iff)
  ultimately show ?thesis using assms by (simp add: start_ok_def collect_ok_def list_all_iff)
qed

lemma addLockOrder_keyed: "keyed lockOrderKey st \<Longrightarrow> keyed lockOrderKey (addLockOrder order st)"
  unfolding addLockOrder_store by (rule order_store.keep_keyed)

lemma collect_ok_open:
  assumes "collect_ok facts" "finite_threads order"
  shows "collect_ok (facts\<lparr>lf_open := fst (addOpenLockOrder order r (lf_open facts))\<rparr>)"
proof -
  let ?f = "lo_functionId order" and ?opened = "openOrdersOf (lf_open facts) (lo_functionId order)" and ?facts = "facts\<lparr>lf_open := fst (addOpenLockOrder order r (lf_open facts))\<rparr>"
  have before: "keyed lockOrderKey (open_store ?opened)" "list_all (\<lambda>order. lo_functionId order = ?f \<and> finite_threads order) (fst (open_store ?opened))"
    using assms(1) by (simp_all add: collect_ok_def openOf_def flip: ol_orders_store)
  have kept: "keyed lockOrderKey (fst (keepMerged lockOrderKey mergeOrderThreads order_threads order (open_store ?opened)))"
    "list_all (\<lambda>order. lo_functionId order = ?f \<and> finite_threads order) (fst (fst (keepMerged lockOrderKey mergeOrderThreads order_threads order (open_store ?opened))))"
    using before assms(2) order_store.merge_fin
    by (auto intro!: order_store.keep_keyed order_store.keep_all simp: mergeOrderThreads_def finite_threads_def)
  have now: "keyed lockOrderKey (open_store (fst (addToOpen order r ?opened)))"
    "list_all (\<lambda>order. lo_functionId order = ?f \<and> finite_threads order) (ol_orders (fst (addToOpen order r ?opened)))"
    using before kept by (cases rule: addToOpen_cases [of r ?opened order]; simp add: ol_orders_store)+
  have "{f. openOf ?facts f \<noteq> [] \<or> judgedOf ?facts f \<noteq> []} \<subseteq> insert ?f {f. openOf facts f \<noteq> [] \<or> judgedOf facts f \<noteq> []}"
    by (auto simp: openOf_def judgedOf_def openOrdersOf_add)
  then have "finite {f. openOf ?facts f \<noteq> [] \<or> judgedOf ?facts f \<noteq> []}" using assms(1) finite_subset unfolding collect_ok_def by blast
  then show ?thesis using assms(1) now unfolding collect_ok_def by (simp add: openOf_def judgedOf_def openOrdersOf_add)
qed

lemma collect_ok_judged:
  assumes "collect_ok facts" "finite_threads order" "lo_functionId order = f"
  shows "collect_ok (facts\<lparr>lf_judged := umap_update f (push order) (lf_judged facts)\<rparr>)"
proof -
  let ?facts = "facts\<lparr>lf_judged := umap_update f (push order) (lf_judged facts)\<rparr>"
  have judged: "judgedOf ?facts g = judgedOf facts g @ (if g = f then [order] else [])" for g
    by (auto simp: judgedOf_def umap_lookup_update push_def split: option.splits)
  have "{g. openOf ?facts g \<noteq> [] \<or> judgedOf ?facts g \<noteq> []} \<subseteq> insert f {g. openOf facts g \<noteq> [] \<or> judgedOf facts g \<noteq> []}"
    by (auto simp: judged openOf_def)
  then have "finite {g. openOf ?facts g \<noteq> [] \<or> judgedOf ?facts g \<noteq> []}" using assms(1) finite_subset unfolding collect_ok_def by blast
  then show ?thesis using assms unfolding collect_ok_def judged by (simp add: openOf_def)
qed

lemma collect_ok_closed: "collect_ok facts \<Longrightarrow> collect_ok (facts\<lparr>lf_orders := addLockOrder order (lf_orders facts)\<rparr>)"
  by (simp add: collect_ok_def addLockOrder_keyed openOf_def judgedOf_def)

section \<open>The functions are collected\<close>

text \<open>The sets the analyses give are finite; threads are those at some instruction.\<close>

definition inputs_ok :: "'v OrderInputs \<Rightarrow> bool" where
  "inputs_ok inputs \<longleftrightarrow>
     list_all (\<lambda>f. fn_isDeclaration f \<or> wf_function f) (oi_module inputs) \<and>
     (\<forall>f. finite (entryLocksOf (oi_locks inputs) f)) \<and> (\<forall>site. finite (heldLocksAt (oi_locks inputs) site)) \<and>
     (\<forall>a. finite (entriesAt (tk_liveEntriesAtInstruction (oi_tasks inputs)) a)) \<and> (\<forall>a. finite (entriesAt (tk_startedEntriesAtInstruction (oi_tasks inputs)) a))"

definition taken_ok :: "string \<Rightarrow> LockOrderFact \<Rightarrow> bool" where
  "taken_ok f order \<longleftrightarrow> lo_functionId order = f \<and> finite_threads order"

lemma recordAcquired_all:
  assumes "list_all (taken_ok (aq_functionId at)) (or_facts rec)" "finite (aq_liveEntries at)" "finite (aq_startedEntries at)"
  shows "list_all (taken_ok (aq_functionId at)) (or_facts (fold (recordAcquired at change locks) ms rec))"
proof -
  have one: "list_all (taken_ok (aq_functionId at)) (or_facts (recordOrder at m recursive l rec))"
    if "list_all (taken_ok (aq_functionId at)) (or_facts rec)" for m recursive l rec
    using that assms(2,3) by (auto simp: recordOrder_def Let_def taken_ok_def finite_threads_def split: option.splits)
  have "list_all (taken_ok (aq_functionId at)) (or_facts (fold (recordOrder at m recursive) ls rec))"
    if "list_all (taken_ok (aq_functionId at)) (or_facts rec)" for m recursive ls rec
    using that by (induction ls arbitrary: rec) (simp_all add: one)
  then show ?thesis using assms(1) by (induction ms arbitrary: rec) (simp_all add: recordAcquired_def)
qed

definition all_taken :: "string \<Rightarrow> unit + OrderRecord \<Rightarrow> bool" where
  "all_taken f recorded = (case recorded of Inl _ \<Rightarrow> True | Inr rec \<Rightarrow> list_all (taken_ok f) (or_facts rec))"

lemma orderBlock_all_taken:
  fixes f :: "'v Function"
  assumes "\<And>a. finite (entriesAt (oc_liveEntries ctx) a)" "\<And>a. finite (entriesAt (oc_startedEntries ctx) a)" "all_taken (oc_functionId ctx) r"
  shows "all_taken (oc_functionId ctx) (snd (orderBlock f ctx effects b s r))"
proof -
  have one: "all_taken (oc_functionId ctx) (snd (orderInstruction ctx effects i st))" if "all_taken (oc_functionId ctx) (snd st)" for i :: "'v Instruction" and st
  proof -
    have "list_all (taken_ok (oc_functionId ctx)) (or_facts (fold (recordAcquired (acquisitionAt ctx i gates) change locks) ms rec))"
      if "list_all (taken_ok (oc_functionId ctx)) (or_facts rec)" for gates change locks ms rec
      using recordAcquired_all [of "acquisitionAt ctx i gates" rec change locks ms] that assms(1,2) by (simp add: acquisitionAt_def)
    then show ?thesis using that by (auto simp: orderInstruction_def all_taken_def Let_def split: prod.splits sum.splits)
  qed
  have "all_taken (oc_functionId ctx) (snd (fold (orderInstruction ctx effects) is st))" if "all_taken (oc_functionId ctx) (snd st)" for "is" :: "'v Instruction list" and st
    using that by (induction "is" arbitrary: st) (simp_all add: one)
  then show ?thesis using assms(3) by (simp add: orderBlock_def)
qed

lemma unmarked_taken: "taken_ok f (unmarked order) \<longleftrightarrow> taken_ok f order"
  by (simp add: taken_ok_def unmarked_def finite_threads_def)

lemma collectLockOrders_taken:
  assumes "wf_function f" "finite initial" "\<And>a. finite (entriesAt live a)" "\<And>a. finite (entriesAt started a)"
  shows "\<exists>r. collectLockOrders view collector f initial live started spawnedThread = Some r \<and>
    (case r of Inl _ \<Rightarrow> True | Inr orders \<Rightarrow> list_all (taken_ok (fn_id f)) orders)"
proof -
  define locks where "locks = orderResolver collector f spawnedThread"
  define effects where "effects = collectFunctionLockEffects f locks"
  define E where "E = insert kLocksHeldByCaller initial"
  define ctx where "ctx = \<lparr>oc_functionId = fn_id f, oc_sharedObject = rs_sharedObject locks, oc_liveEntries = live, oc_startedEntries = started\<rparr>"
  have keep: "all_taken (fn_id f) (snd (orderBlock f ctx effects b s r))" if "all_taken (fn_id f) r" for b s r
    using orderBlock_all_taken [of ctx r f effects b s] that assms(3,4) by (simp add: ctx_def)
  have folded: "all_taken (fn_id f) (fold (\<lambda>b r. snd (orderBlock f ctx effects b (held b) r)) bs r)" if "all_taken (fn_id f) r" for held bs r
    using that by (induction bs arbitrary: r) (simp_all add: keep)
  have E: "finite E" using assms(2) by (simp add: E_def)
  have start: "all_taken (fn_id f) (Inr noOrders)" by (simp add: all_taken_def noOrders_def)
  obtain st r where st: "flowLoop f (orderBlock f ctx effects) (initialFlow f E (Inr noOrders)) = Some st" "all_taken (fn_id f) r"
    "fl_recorded st = fold (\<lambda>b r. snd (orderBlock f ctx effects b (held_on_all_paths f (through (blockKill f effects) (blockGen f effects)) E b) r)) (reachableBlocks f) r"
    using orders.flow_exact [where P = "all_taken (fn_id f)" and effects = effects and ctx = ctx, OF assms(1) E start] keep by blast
  have taken: "all_taken (fn_id f) (fl_recorded st)" unfolding st(3) by (rule folded [OF st(2)])
  have run: "collectLockOrders view collector f initial live started spawnedThread =
      Some (case fl_recorded st of Inl e \<Rightarrow> Inl e | Inr rec \<Rightarrow> Inr (markAddressOrders view locks f rec))"
    using st(1) unfolding collectLockOrders_def Let_def locks_def effects_def E_def ctx_def by simp
  have "list_all (taken_ok (fn_id f)) (markAddressOrders view locks f rec)" if "fl_recorded st = Inr rec" for rec
  proof -
    have "list_all (taken_ok (fn_id f)) (map unmarked (or_facts rec))" using taken that by (simp add: all_taken_def list_all_iff unmarked_taken)
    then show ?thesis unfolding mark_unmarked [of view locks f rec, symmetric] by (simp add: list_all_iff unmarked_taken)
  qed
  then show ?thesis using run by (cases "fl_recorded st") simp_all
qed

lemma addCollected_ok:
  assumes "collect_ok (fst st)" "taken_ok f order"
  shows "collect_ok (fst (addCollected inputs f order st))"
proof -
  let ?order = "order\<lparr>lo_inRootTask := f \<in> tk_rootTaskFunctions (oi_tasks inputs)\<rparr>"
  have "finite_threads ?order" "lo_functionId ?order = f" using assms(2) by (simp_all add: taken_ok_def finite_threads_def)
  then show ?thesis
    using collect_ok_open [OF assms(1), of ?order False] collect_ok_judged [OF assms(1), of ?order f] collect_ok_closed [OF assms(1), of ?order]
    by (simp add: addCollected_def split_def Let_def)
qed

lemma addSpawned_ok: "collect_ok facts \<Longrightarrow> collect_ok (addSpawned shared order facts)"
  by (simp add: addSpawned_def collect_ok_closed)

lemma ordersOf_taken:
  assumes "inputs_ok inputs" "wf_function f"
  shows "\<exists>r. ordersOf inputs f spawned = Some r \<and> (case r of Inl _ \<Rightarrow> True | Inr orders \<Rightarrow> list_all (taken_ok (fn_id f)) orders)"
  unfolding ordersOf_def using assms by (intro collectLockOrders_taken) (simp_all add: inputs_ok_def)

lemma collectFunctionOrders_ok:
  assumes "inputs_ok inputs" "wf_function f" "collect_ok facts"
  shows "\<exists>r. collectFunctionOrders inputs f facts = Some r \<and> (case r of Inl _ \<Rightarrow> True | Inr facts' \<Rightarrow> collect_ok facts')"
proof -
  have collected: "collect_ok (fst (fold (addCollected inputs (fn_id f)) orders st))" if "list_all (taken_ok (fn_id f)) orders" "collect_ok (fst st)" for orders st
    using that by (induction orders arbitrary: st) (simp_all add: addCollected_ok)
  have spawned: "collect_ok (fold (addSpawned shared) orders facts)" if "collect_ok facts" for shared orders facts
    using that by (induction orders arbitrary: facts) (simp_all add: addSpawned_ok)
  obtain r r' where r: "ordersOf inputs f False = Some r" "case r of Inl _ \<Rightarrow> True | Inr orders \<Rightarrow> list_all (taken_ok (fn_id f)) orders"
    "ordersOf inputs f True = Some r'" using ordersOf_taken [OF assms(1,2)] by metis
  show ?thesis
  proof (cases r)
    case (Inr orders)
    obtain facts' shared where added: "fold (addCollected inputs (fn_id f)) orders (facts, {}) = (facts', shared)" by fastforce
    then have "collect_ok facts'" using collected [of orders "(facts, {})"] r(2) Inr assms(3) by simp
    then show ?thesis using r Inr added spawned by (cases r') (simp_all add: collectFunctionOrders_def)
  qed (simp add: collectFunctionOrders_def r)
qed

lemma collectOrders_ok:
  assumes "inputs_ok inputs" "list_all (\<lambda>f. fn_isDeclaration f \<or> wf_function f) fs" "collect_ok facts"
  shows "\<exists>r. collectOrders inputs fs facts = Some r \<and> (case r of Inl _ \<Rightarrow> True | Inr facts' \<Rightarrow> collect_ok facts')"
  using assms(2,3)
proof (induction fs arbitrary: facts)
  case (Cons f fs)
  show ?case
  proof (cases "fn_isDeclaration f")
    case False
    then obtain r where r: "collectFunctionOrders inputs f facts = Some r" "case r of Inl _ \<Rightarrow> True | Inr facts' \<Rightarrow> collect_ok facts'"
      using collectFunctionOrders_ok [OF assms(1) _ Cons.prems(2)] Cons.prems(1) by auto
    then show ?thesis using False Cons.IH Cons.prems(1) by (cases r) simp_all
  qed (use Cons in simp)
qed simp

lemma collect_ok_none: "collect_ok noOrderFacts"
  by (simp add: collect_ok_def noOrderFacts_def openOf_def judgedOf_def openOrdersOf_def noOpenOrders_def open_store_def)

section \<open>The orders the functions take themselves\<close>

text \<open>
  \<open>taken_by inputs spawnedThread f order\<close>: the collector finds \<open>order\<close> in a function the module defines, read as its callers run it or as the thread
  spawned on its object does. The builder marks it with whether the function runs in the root task.
\<close>

definition taken_by :: "'v OrderInputs \<Rightarrow> bool \<Rightarrow> 'v Function \<Rightarrow> LockOrderFact \<Rightarrow> bool" where
  "taken_by inputs spawnedThread f order \<longleftrightarrow>
     f \<in> set (oi_module inputs) \<and> \<not> fn_isDeclaration f \<and> (\<exists>orders. ordersOf inputs f spawnedThread = Some (Inr orders) \<and> order \<in> set orders)"

abbreviation inTask :: "'v OrderInputs \<Rightarrow> string \<Rightarrow> LockOrderFact \<Rightarrow> LockOrderFact" where
  "inTask inputs f order \<equiv> order\<lparr>lo_inRootTask := f \<in> tk_rootTaskFunctions (oi_tasks inputs)\<rparr>"

text \<open>An order is left to the calls of its function when they name its locks or have to judge it.\<close>

definition left_to_calls :: "'v OrderInputs \<Rightarrow> string \<Rightarrow> LockOrderFact \<Rightarrow> bool" where
  "left_to_calls inputs f order \<longleftrightarrow> isOpenLockOrder order \<or> judgedAtCalls inputs f order"

text \<open>
  What may be carried from call to call: an order a function takes and leaves to its calls, the same beside other threads, and what such an
  order stands for at a call that takes over its callee's orders, made by the caller itself or by the thread spawned on its object.
\<close>

inductive order_carried :: "'v OrderInputs \<Rightarrow> LockOrderFact \<Rightarrow> bool" for inputs where
  taken: "taken_by inputs False f order \<Longrightarrow> left_to_calls inputs (fn_id f) (inTask inputs (fn_id f) order) \<Longrightarrow>
    order_carried inputs (inTask inputs (fn_id f) order)"
| threads: "order_carried inputs order \<Longrightarrow> order_carried inputs (order\<lparr>lo_liveEntries := live, lo_startedEntries := started\<rparr>)"
| at_call: "order_carried inputs order \<Longrightarrow> site \<in> set (oi_sites inputs) \<Longrightarrow> takesCalleeLockOrders (oi_standard inputs) site \<Longrightarrow>
    lo_functionId order = dc_calleeFunctionId site \<Longrightarrow> order' \<in> set (instantiateAtCall order (orderCall inputs site)) \<Longrightarrow> order_carried inputs order'"
| at_spawned_call: "order_carried inputs order \<Longrightarrow> site \<in> set (oi_sites inputs) \<Longrightarrow> takesCalleeLockOrders (oi_standard inputs) site \<Longrightarrow>
    lo_functionId order = dc_calleeFunctionId site \<Longrightarrow> spawnedObject inputs site = Some binding \<Longrightarrow>
    order' \<in> set (instantiateAtCall order (spawnedOrderCall inputs site binding)) \<Longrightarrow> gatesAmong (lo_heldLocks order') (Some binding) = Inr gates \<Longrightarrow>
    order_carried inputs (order'\<lparr>lo_heldLocks := gates, lo_boundBySpawn := True\<rparr>)"

text \<open>The origin of an order of the result, but for the threads beside it and the gates that only a caller can name.\<close>

definition own_order :: "'v OrderInputs \<Rightarrow> LockOrderFact \<Rightarrow> bool" where
  "own_order inputs order \<longleftrightarrow>
     (\<exists>f o'. taken_by inputs False f o' \<and> order = inTask inputs (fn_id f) o' \<and> \<not> left_to_calls inputs (fn_id f) order) \<or>
     (\<exists>f o'. taken_by inputs True f o' \<and> spawnedApart (oi_bindings inputs) (fn_id f) \<and> \<not> isOpenLockOrder o' \<and> order = o'\<lparr>lo_boundBySpawn := True\<rparr>)"

definition explained :: "'v OrderInputs \<Rightarrow> LockOrderFact \<Rightarrow> bool" where
  "explained inputs order \<longleftrightarrow> (\<exists>o'. (own_order inputs o' \<or> order_carried inputs o') \<and> unthreaded order = unthreaded (gated o'))"

text \<open>
  Where an order a function takes is found in the end, under its key and with the threads beside it: among those left to the calls of the
  function, or in the result.
\<close>

definition order_placed :: "'v OrderInputs \<Rightarrow> LockOrderFacts \<Rightarrow> string \<Rightarrow> LockOrderFact \<Rightarrow> bool" where
  "order_placed inputs facts f order \<longleftrightarrow>
     (if isOpenLockOrder order then order_store.keeps (open_store (openOrdersOf (lf_open facts) f)) order
      else if judgedAtCalls inputs f order then order \<in> set (judgedOf facts f)
      else order_store.keeps (lf_orders facts) (gated order))"

definition spawned_placed :: "'v OrderInputs \<Rightarrow> LockOrderFacts \<Rightarrow> 'v Function \<Rightarrow> LockOrderFact \<Rightarrow> bool" where
  "spawned_placed inputs facts f order \<longleftrightarrow>
     isOpenLockOrder order \<or>
     (\<exists>o'. taken_by inputs False f o' \<and> \<not> left_to_calls inputs (fn_id f) (inTask inputs (fn_id f) o') \<and>
        lockOrderIdentity (inTask inputs (fn_id f) o') = lockOrderIdentity order) \<or>
     order_store.keeps (lf_orders facts) (gated (order\<lparr>lo_boundBySpawn := True\<rparr>))"

text \<open>What a call takes over of an order its callee leaves: all that the order stands for there is kept.\<close>

definition runs_caller_directly :: "'v OrderInputs \<Rightarrow> DirectCallSite \<Rightarrow> bool" where
  "runs_caller_directly inputs site \<longleftrightarrow> (\<forall>binding. spawnedObject inputs site = Some binding \<longrightarrow> sb_runByDirectCalls binding)"

definition instance_kept :: "'v OrderInputs \<Rightarrow> LockOrderFacts \<Rightarrow> DirectCallSite \<Rightarrow> LockOrderFact \<Rightarrow> bool" where
  "instance_kept inputs facts site inst \<longleftrightarrow>
     (if isOpenLockOrder inst
      then order_store.keeps (open_store (openOrdersOf (lf_open facts) (dc_callerFunctionId site))) inst \<or>
        (\<exists>call \<in> recursionCalls inputs. dc_call site = Some call) \<and> capped (openOrdersOf (lf_open facts) (dc_callerFunctionId site))
      else order_store.keeps (lf_orders facts) (gated inst))"

definition taken_over :: "'v OrderInputs \<Rightarrow> LockOrderFacts \<Rightarrow> DirectCallSite \<Rightarrow> bool" where
  "taken_over inputs facts site \<longleftrightarrow>
     (let left = set (openOf facts (dc_calleeFunctionId site) @ judgedOf facts (dc_calleeFunctionId site));
          direct = (if runs_caller_directly inputs site then \<Union>order \<in> left. set (instantiateAtCall order (orderCall inputs site)) else {})
      in (\<forall>inst \<in> direct. instance_kept inputs facts site inst) \<and>
         (\<forall>binding. spawnedObject inputs site = Some binding \<longrightarrow>
            (\<forall>order \<in> left. \<forall>inst \<in> set (instantiateAtCall order (spawnedOrderCall inputs site binding)).
               \<exists>gates. gatesAmong (lo_heldLocks inst) (Some binding) = Inr gates \<and>
                 (let inst = inst\<lparr>lo_heldLocks := gates\<rparr>
                  in isOpenLockOrder inst \<or>
                     (\<exists>other \<in> direct. \<not> isOpenLockOrder other \<and> lockOrderIdentity other = lockOrderIdentity inst) \<or>
                     order_store.keeps (lf_orders facts) (gated (inst\<lparr>lo_boundBySpawn := True\<rparr>))))))"

section \<open>Every order taken finds its place\<close>

definition order_grows :: "LockOrderFacts \<Rightarrow> LockOrderFacts \<Rightarrow> bool" where
  "order_grows facts facts' \<longleftrightarrow>
     (\<forall>b. kept_addition facts b \<longrightarrow> kept_addition facts' b) \<and> (\<forall>f. set (judgedOf facts f) \<subseteq> set (judgedOf facts' f))"

lemma order_grows_refl: "order_grows facts facts"
  by (simp add: order_grows_def)

lemma order_grows_trans: "order_grows a b \<Longrightarrow> order_grows b c \<Longrightarrow> order_grows a c"
  unfolding order_grows_def by blast

lemma keeps_additions:
  "lo_functionId order = f \<Longrightarrow> order_store.keeps (open_store (openOrdersOf (lf_open facts) f)) order \<longleftrightarrow> kept_addition facts (AddOpen order False)"
  "order_store.keeps (lf_orders facts) (gated order) \<longleftrightarrow> kept_addition facts (AddClosed order)"
  by (auto simp: kept_addition_def)

lemma placed_grows:
  "order_placed inputs facts f order \<Longrightarrow> order_grows facts facts' \<Longrightarrow> lo_functionId order = f \<Longrightarrow> order_placed inputs facts' f order"
  unfolding order_grows_def by (auto simp: order_placed_def keeps_additions subset_eq split: if_splits)

lemma spawned_placed_grows: "spawned_placed inputs facts f order \<Longrightarrow> order_grows facts facts' \<Longrightarrow> spawned_placed inputs facts' f order"
  by (auto simp: spawned_placed_def keeps_additions order_grows_def)

lemma judgedOf_push: "judgedOf (facts\<lparr>lf_judged := umap_update f (push order) (lf_judged facts)\<rparr>) g = judgedOf facts g @ (if g = f then [order] else [])"
  by (auto simp: judgedOf_def umap_lookup_update push_def split: option.splits)

lemma addOrder_grows:
  assumes "collect_ok facts"
  shows "order_grows facts (fst (addOrder addition facts))" "kept_addition (fst (addOrder addition facts)) addition"
proof -
  have "judgedOf (fst (addOrder addition facts)) f = judgedOf facts f" for f
    by (simp add: addOrder_def judgedOf_def split_def Let_def split: OrderAddition.split)
  then show "order_grows facts (fst (addOrder addition facts))" "kept_addition (fst (addOrder addition facts)) addition"
    using assms addOrder_keeps [of facts] by (auto simp: order_grows_def collect_ok_def)
qed

lemma addCollected_branches:
  "isOpenLockOrder (inTask inputs f order) \<Longrightarrow> addCollected inputs f order st = (fst (addOrder (AddOpen (inTask inputs f order) False) (fst st)), snd st)"
  "\<not> isOpenLockOrder (inTask inputs f order) \<Longrightarrow> judgedAtCalls inputs f (inTask inputs f order) \<Longrightarrow>
   addCollected inputs f order st = ((fst st)\<lparr>lf_judged := umap_update f (push (inTask inputs f order)) (lf_judged (fst st))\<rparr>, snd st)"
  "\<not> left_to_calls inputs f (inTask inputs f order) \<Longrightarrow>
   addCollected inputs f order st =
     (fst (addOrder (AddClosed (inTask inputs f order)) (fst st)),
      if spawnedApart (oi_bindings inputs) f then insert (lockOrderIdentity (inTask inputs f order)) (snd st) else snd st)"
  by (simp_all add: addCollected_def addOrder_def left_to_calls_def split_def Let_def)

lemma addCollected_placed:
  assumes "collect_ok (fst st)" "taken_ok f order"
  shows "order_grows (fst st) (fst (addCollected inputs f order st)) \<and> order_placed inputs (fst (addCollected inputs f order st)) f (inTask inputs f order)"
proof -
  let ?order = "inTask inputs f order"
  have f: "lo_functionId ?order = f" using assms(2) by (simp add: taken_ok_def)
  consider "isOpenLockOrder ?order" | "\<not> isOpenLockOrder ?order" "judgedAtCalls inputs f ?order" | "\<not> left_to_calls inputs f ?order"
    by (auto simp: left_to_calls_def)
  then show ?thesis
  proof cases
    case 1
    then show ?thesis using addOrder_grows [OF assms(1), of "AddOpen ?order False"] keeps_additions(1) [OF f]
      by (simp add: addCollected_branches(1) order_placed_def)
  next
    case 2
    let ?facts = "fst (addCollected inputs f order st)"
    have "kept_addition (fst st) b \<longrightarrow> kept_addition ?facts b" for b
      by (simp add: addCollected_branches(2) [OF 2] kept_addition_def split: OrderAddition.split)
    moreover have "judgedOf ?facts g = judgedOf (fst st) g @ (if g = f then [?order] else [])" for g
      unfolding addCollected_branches(2) [OF 2] fst_conv by (rule judgedOf_push)
    ultimately show ?thesis using 2 by (simp add: order_grows_def order_placed_def)
  next
    case 3
    then have "\<not> isOpenLockOrder ?order" "\<not> judgedAtCalls inputs f ?order" by (simp_all add: left_to_calls_def)
    then show ?thesis using addOrder_grows [OF assms(1), of "AddClosed ?order"]
      by (simp add: addCollected_branches(3) [OF 3] order_placed_def keeps_additions(2))
  qed
qed

lemma fold_addCollected_placed:
  assumes "collect_ok (fst st)" "list_all (taken_ok f) orders"
  shows "order_grows (fst st) (fst (fold (addCollected inputs f) orders st)) \<and>
    (\<forall>order \<in> set orders. order_placed inputs (fst (fold (addCollected inputs f) orders st)) f (inTask inputs f order)) \<and>
    collect_ok (fst (fold (addCollected inputs f) orders st)) \<and>
    (\<forall>i \<in> snd (fold (addCollected inputs f) orders st). i \<in> snd st \<or>
       (\<exists>order \<in> set orders. \<not> left_to_calls inputs f (inTask inputs f order) \<and> i = lockOrderIdentity (inTask inputs f order)))"
  using assms
proof (induction orders arbitrary: st)
  case (Cons order orders)
  let ?st = "addCollected inputs f order st"
  have ok: "collect_ok (fst ?st)" using Cons.prems by (simp add: addCollected_ok)
  note first = addCollected_placed [OF Cons.prems(1), of f order inputs]
  have f: "lo_functionId (inTask inputs f order) = f" using Cons.prems(2) by (simp add: taken_ok_def)
  have new: "i \<in> snd st \<or> \<not> left_to_calls inputs f (inTask inputs f order) \<and> i = lockOrderIdentity (inTask inputs f order)" if "i \<in> snd ?st" for i
    using that by (auto simp: addCollected_def left_to_calls_def split_def Let_def split: if_splits)
  note rest = Cons.IH [OF ok]
  have "order_placed inputs (fst (fold (addCollected inputs f) orders ?st)) f (inTask inputs f order)"
    using first rest f Cons.prems(2) placed_grows by fastforce
  then show ?case using first rest new Cons.prems(2) order_grows_trans by fastforce
qed (simp add: order_grows_refl)

lemma addSpawned_placed:
  assumes "collect_ok facts"
  shows "order_grows facts (addSpawned shared order facts) \<and>
    (isOpenLockOrder order \<or> lockOrderIdentity order \<in> shared \<or>
     order_store.keeps (lf_orders (addSpawned shared order facts)) (gated (order\<lparr>lo_boundBySpawn := True\<rparr>)))"
proof (cases "isOpenLockOrder order \<or> lockOrderIdentity order \<in> shared")
  case True
  then show ?thesis by (auto simp: addSpawned_def order_grows_refl)
next
  case False
  then have "addSpawned shared order facts = fst (addOrder (AddClosed (order\<lparr>lo_boundBySpawn := True\<rparr>)) facts)"
    by (simp add: addSpawned_def addOrder_def)
  then show ?thesis using addOrder_grows [OF assms] by (simp add: keeps_additions(2))
qed

lemma fold_addSpawned_placed:
  assumes "collect_ok facts"
  shows "order_grows facts (fold (addSpawned shared) orders facts) \<and>
    (\<forall>order \<in> set orders. isOpenLockOrder order \<or> lockOrderIdentity order \<in> shared \<or>
       order_store.keeps (lf_orders (fold (addSpawned shared) orders facts)) (gated (order\<lparr>lo_boundBySpawn := True\<rparr>)))"
  using assms
proof (induction orders arbitrary: facts)
  case (Cons order orders)
  note first = addSpawned_placed [OF Cons.prems, of shared order]
  note rest = Cons.IH [OF addSpawned_ok [OF Cons.prems, of shared order]]
  show ?case
  proof (intro conjI ballI)
    show "order_grows facts (fold (addSpawned shared) (order # orders) facts)"
      using first rest order_grows_trans by fastforce
    fix o' assume "o' \<in> set (order # orders)"
    then show "isOpenLockOrder o' \<or> lockOrderIdentity o' \<in> shared \<or>
       order_store.keeps (lf_orders (fold (addSpawned shared) (order # orders) facts)) (gated (o'\<lparr>lo_boundBySpawn := True\<rparr>))"
      using first rest by (auto simp: keeps_additions(2) order_grows_def)
  qed
qed (simp add: order_grows_refl)

lemma collectFunctionOrders_placed:
  assumes "inputs_ok inputs" "wf_function f" "collect_ok facts" "collectFunctionOrders inputs f facts = Some (Inr facts')"
    and module: "f \<in> set (oi_module inputs)" "\<not> fn_isDeclaration f"
  shows "order_grows facts facts' \<and> collect_ok facts' \<and>
    (\<forall>order. taken_by inputs False f order \<longrightarrow> order_placed inputs facts' (fn_id f) (inTask inputs (fn_id f) order)) \<and>
    (\<forall>order. taken_by inputs True f order \<and> spawnedApart (oi_bindings inputs) (fn_id f) \<longrightarrow> spawned_placed inputs facts' f order)"
proof -
  obtain r where r: "ordersOf inputs f False = Some r" "case r of Inl _ \<Rightarrow> True | Inr orders \<Rightarrow> list_all (taken_ok (fn_id f)) orders"
    using ordersOf_taken [OF assms(1,2), of False] by blast
  obtain orders where "r = Inr orders" using assms(4) r(1) by (cases r) (simp_all add: collectFunctionOrders_def)
  with r have orders: "ordersOf inputs f False = Some (Inr orders)" "list_all (taken_ok (fn_id f)) orders" by simp_all
  have taken: "taken_by inputs False f order \<longleftrightarrow> order \<in> set orders" for order using orders(1) module by (simp add: taken_by_def)
  obtain between shared where added: "fold (addCollected inputs (fn_id f)) orders (facts, {}) = (between, shared)" by fastforce
  have own: "order_grows facts between" "collect_ok between"
    "\<And>order. order \<in> set orders \<Longrightarrow> order_placed inputs between (fn_id f) (inTask inputs (fn_id f) order)"
    "\<And>i. i \<in> shared \<Longrightarrow> \<exists>order \<in> set orders. \<not> left_to_calls inputs (fn_id f) (inTask inputs (fn_id f) order) \<and>
       i = lockOrderIdentity (inTask inputs (fn_id f) order)"
    using fold_addCollected_placed [of "(facts, {})" "fn_id f" orders inputs] assms(3) orders(2) added by simp_all
  have ids: "lo_functionId (inTask inputs (fn_id f) order) = fn_id f" if "order \<in> set orders" for order
    using orders(2) that by (simp add: list_all_iff taken_ok_def)
  show ?thesis
  proof (cases "spawnedApart (oi_bindings inputs) (fn_id f)")
    case False
    then have "facts' = between" using assms(4) orders(1) added by (simp add: collectFunctionOrders_def)
    then show ?thesis using own taken False by simp
  next
    case True
    then obtain spawned where spawned: "ordersOf inputs f True = Some (Inr spawned)" "facts' = fold (addSpawned shared) spawned between"
      using assms(4) orders(1) added by (auto simp: collectFunctionOrders_def split: option.splits sum.splits)
    have "collect_ok (fold (addSpawned shared) spawned between)"
      using own(2) by (induction spawned arbitrary: between) (simp_all add: addSpawned_ok)
    moreover note later = fold_addSpawned_placed [OF own(2), of shared spawned, folded spawned(2)]
    moreover have "spawned_placed inputs facts' f order" if "order \<in> set spawned" for order
    proof -
      have "isOpenLockOrder order \<or> lockOrderIdentity order \<in> shared \<or> order_store.keeps (lf_orders facts') (gated (order\<lparr>lo_boundBySpawn := True\<rparr>))"
        using later that by blast
      then show ?thesis using own(4) [of "lockOrderIdentity order"] unfolding spawned_placed_def taken by metis
    qed
    moreover have "taken_by inputs True f order \<longleftrightarrow> order \<in> set spawned" for order using spawned(1) module by (simp add: taken_by_def)
    ultimately show ?thesis using own(1,3) ids placed_grows order_grows_trans unfolding taken spawned(2) by blast
  qed
qed

lemma collectOrders_placed:
  assumes "inputs_ok inputs" "set fs \<subseteq> set (oi_module inputs)" "collect_ok facts" "collectOrders inputs fs facts = Some (Inr facts')"
  shows "order_grows facts facts' \<and>
    (\<forall>f \<in> set fs. \<forall>order.
       (taken_by inputs False f order \<longrightarrow> order_placed inputs facts' (fn_id f) (inTask inputs (fn_id f) order)) \<and>
       (taken_by inputs True f order \<and> spawnedApart (oi_bindings inputs) (fn_id f) \<longrightarrow> spawned_placed inputs facts' f order))"
  using assms(2-4)
proof (induction fs arbitrary: facts)
  case (Cons f fs)
  show ?case
  proof (cases "fn_isDeclaration f")
    case True
    then show ?thesis using Cons by (simp add: taken_by_def)
  next
    case False
    have f: "f \<in> set (oi_module inputs)" "wf_function f" using Cons.prems(1) False assms(1) by (auto simp: inputs_ok_def list_all_iff)
    obtain next' where run: "collectFunctionOrders inputs f facts = Some (Inr next')" "collectOrders inputs fs next' = Some (Inr facts')"
      using Cons.prems(3) False by (auto split: option.splits sum.splits)
    have here: "order_grows facts next'" "collect_ok next'"
      "\<And>order. taken_by inputs False f order \<Longrightarrow> order_placed inputs next' (fn_id f) (inTask inputs (fn_id f) order)"
      "\<And>order. taken_by inputs True f order \<Longrightarrow> spawnedApart (oi_bindings inputs) (fn_id f) \<Longrightarrow> spawned_placed inputs next' f order"
      using collectFunctionOrders_placed [OF assms(1) f(2) Cons.prems(2) run(1) f(1) False] by blast+
    have rest: "order_grows next' facts'" using Cons.IH [OF _ here(2) run(2)] Cons.prems(1) by simp
    have ids: "lo_functionId (inTask inputs (fn_id f) order) = fn_id f" if "taken_by inputs False f order" for order
      using ordersOf_taken [OF assms(1) f(2), of False] that by (auto simp: taken_by_def list_all_iff taken_ok_def)
    show ?thesis
      using Cons.IH [OF _ here(2) run(2)] Cons.prems(1) order_grows_trans [OF here(1) rest] placed_grows [OF here(3) rest ids]
        spawned_placed_grows [OF here(4) rest] by auto
  qed
qed (simp add: order_grows_refl)

section \<open>Every order kept has an origin\<close>

definition collected_sound :: "'v OrderInputs \<Rightarrow> LockOrderFacts \<Rightarrow> bool" where
  "collected_sound inputs facts \<longleftrightarrow>
     (\<forall>f. list_all (order_carried inputs) (openOf facts f @ judgedOf facts f)) \<and> list_all (explained inputs) (fst (lf_orders facts))"

lemma explained_merge: "explained inputs kept \<Longrightarrow> explained inputs (mergeOrderThreads order kept)"
  by (simp add: explained_def mergeOrderThreads_def unthreaded_def)

lemma carried_merge: "order_carried inputs kept \<Longrightarrow> order_carried inputs (mergeOrderThreads order kept)"
  unfolding mergeOrderThreads_def by (drule order_carried.threads) simp

lemma sound_closed:
  assumes "collect_ok facts" "collected_sound inputs facts" "own_order inputs order \<or> order_carried inputs order"
  shows "collected_sound inputs (facts\<lparr>lf_orders := addLockOrder order (lf_orders facts)\<rparr>)"
proof -
  have "explained inputs (gated order)" using assms(3) by (auto simp: explained_def)
  then have "list_all (explained inputs) (fst (addLockOrder order (lf_orders facts)))"
    unfolding addLockOrder_store using assms(1,2)
    by (intro order_store.keep_all) (simp_all add: collect_ok_def collected_sound_def explained_merge)
  then show ?thesis using assms(2) by (simp add: collected_sound_def openOf_def judgedOf_def)
qed

lemma sound_open:
  assumes "collect_ok facts" "collected_sound inputs facts" "order_carried inputs order"
  shows "collected_sound inputs (facts\<lparr>lf_open := fst (addOpenLockOrder order r (lf_open facts))\<rparr>)"
proof -
  let ?opened = "openOrdersOf (lf_open facts) (lo_functionId order)"
  have before: "keyed lockOrderKey (open_store ?opened)" "list_all (order_carried inputs) (fst (open_store ?opened))"
    using assms(1,2) by (simp_all add: collect_ok_def collected_sound_def openOf_def open_store_def)
  have "list_all (order_carried inputs) (fst (fst (keepMerged lockOrderKey mergeOrderThreads order_threads order (open_store ?opened))))"
    using before assms(3) by (intro order_store.keep_all) (simp_all add: carried_merge)
  then have "list_all (order_carried inputs) (ol_orders (fst (addToOpen order r ?opened)))"
    using before(2) by (cases rule: addToOpen_cases [of r ?opened order]) (simp_all add: ol_orders_store)
  then show ?thesis using assms(2) by (simp add: collected_sound_def openOf_def judgedOf_def openOrdersOf_add)
qed

lemma addCollected_sound:
  assumes "collect_ok (fst st)" "collected_sound inputs (fst st)" "taken_by inputs False f order"
  shows "collected_sound inputs (fst (addCollected inputs (fn_id f) order st))"
proof -
  let ?order = "inTask inputs (fn_id f) order" and ?st = "addCollected inputs (fn_id f) order st"
  have left: "order_carried inputs ?order" if "left_to_calls inputs (fn_id f) ?order" using assms(3) that by (rule order_carried.taken)
  consider "isOpenLockOrder ?order" | "\<not> isOpenLockOrder ?order" "judgedAtCalls inputs (fn_id f) ?order" | "\<not> left_to_calls inputs (fn_id f) ?order"
    by (auto simp: left_to_calls_def)
  then show ?thesis
  proof cases
    case 1
    then show ?thesis using sound_open [OF assms(1,2) left, of False] by (simp add: addCollected_def left_to_calls_def split_def Let_def)
  next
    case 2
    then have "order_carried inputs ?order" by (intro left) (simp add: left_to_calls_def)
    then show ?thesis
      using assms(2) unfolding addCollected_branches(2) [OF 2] collected_sound_def fst_conv judgedOf_push by (simp add: openOf_def)
  next
    case 3
    then have "own_order inputs ?order" using assms(3) by (auto simp: own_order_def)
    then show ?thesis using sound_closed [OF assms(1,2), of ?order] by (simp add: addCollected_branches(3) [OF 3] addOrder_def)
  qed
qed

lemma addSpawned_sound:
  assumes "collect_ok facts" "collected_sound inputs facts" "taken_by inputs True f order" "spawnedApart (oi_bindings inputs) (fn_id f)"
  shows "collected_sound inputs (addSpawned shared order facts)"
proof (cases "isOpenLockOrder order \<or> lockOrderIdentity order \<in> shared")
  case False
  then have "own_order inputs (order\<lparr>lo_boundBySpawn := True\<rparr>)" using assms(3,4) by (auto simp: own_order_def)
  then show ?thesis using sound_closed [OF assms(1,2)] False by (simp add: addSpawned_def)
qed (use assms(2) in \<open>auto simp: addSpawned_def\<close>)

lemma collectFunctionOrders_sound:
  assumes "inputs_ok inputs" "wf_function f" "collect_ok facts" "collected_sound inputs facts" "collectFunctionOrders inputs f facts = Some (Inr facts')"
    and module: "f \<in> set (oi_module inputs)" "\<not> fn_isDeclaration f"
  shows "collected_sound inputs facts'"
proof -
  obtain r where r: "ordersOf inputs f False = Some r" "case r of Inl _ \<Rightarrow> True | Inr orders \<Rightarrow> list_all (taken_ok (fn_id f)) orders"
    using ordersOf_taken [OF assms(1,2), of False] by blast
  obtain orders where "r = Inr orders" using assms(5) r(1) by (cases r) (simp_all add: collectFunctionOrders_def)
  with r have orders: "ordersOf inputs f False = Some (Inr orders)" "list_all (taken_ok (fn_id f)) orders" by simp_all
  have "collect_ok (fst (fold (addCollected inputs (fn_id f)) os st)) \<and> collected_sound inputs (fst (fold (addCollected inputs (fn_id f)) os st))"
    if "set os \<subseteq> set orders" "collect_ok (fst st)" "collected_sound inputs (fst st)" for os st
    using that
  proof (induction os arbitrary: st)
    case (Cons order os)
    have "taken_by inputs False f order" using Cons.prems(1) orders(1) module by (simp add: taken_by_def)
    moreover have "taken_ok (fn_id f) order" using Cons.prems(1) orders(2) by (simp add: list_all_iff)
    ultimately show ?case using Cons addCollected_ok [of st "fn_id f" order inputs] addCollected_sound [of st inputs f order] by simp
  qed simp
  moreover obtain between shared where added: "fold (addCollected inputs (fn_id f)) orders (facts, {}) = (between, shared)" by fastforce
  ultimately have between: "collect_ok between" "collected_sound inputs between" using assms(3,4) by (metis fst_conv order_refl)+
  show ?thesis
  proof (cases "spawnedApart (oi_bindings inputs) (fn_id f)")
    case False
    then show ?thesis using assms(5) orders(1) added between by (simp add: collectFunctionOrders_def)
  next
    case True
    then obtain spawned where spawned: "ordersOf inputs f True = Some (Inr spawned)" "facts' = fold (addSpawned shared) spawned between"
      using assms(5) orders(1) added by (auto simp: collectFunctionOrders_def split: option.splits sum.splits)
    have "collected_sound inputs (fold (addSpawned shared) os facts)" if "set os \<subseteq> set spawned" "collect_ok facts" "collected_sound inputs facts" for os facts
      using that
    proof (induction os arbitrary: facts)
      case (Cons order os)
      have "taken_by inputs True f order" using Cons.prems(1) spawned(1) module by (simp add: taken_by_def)
      then show ?case using Cons addSpawned_ok addSpawned_sound [OF _ _ _ True] by simp
    qed simp
    then show ?thesis using between unfolding spawned(2) by blast
  qed
qed

lemma collectOrders_sound:
  assumes "inputs_ok inputs" "set fs \<subseteq> set (oi_module inputs)" "collect_ok facts" "collected_sound inputs facts" "collectOrders inputs fs facts = Some (Inr facts')"
  shows "collected_sound inputs facts'"
  using assms(2-5)
proof (induction fs arbitrary: facts)
  case (Cons f fs)
  show ?case
  proof (cases "fn_isDeclaration f")
    case False
    have f: "f \<in> set (oi_module inputs)" "wf_function f" using Cons.prems(1) False assms(1) by (auto simp: inputs_ok_def list_all_iff)
    obtain next' where run: "collectFunctionOrders inputs f facts = Some (Inr next')" "collectOrders inputs fs next' = Some (Inr facts')"
      using Cons.prems(4) False by (auto split: option.splits sum.splits)
    then show ?thesis
      using Cons.IH [OF _ _ _ run(2)] collectFunctionOrders_sound [OF assms(1) f(2) Cons.prems(2,3) run(1) f(1) False]
        collectFunctionOrders_ok [OF assms(1) f(2) Cons.prems(2)] Cons.prems(1) by auto
  qed (use Cons in simp)
qed simp

lemma stems_carried:
  assumes "stems inputs facts order" "collected_sound inputs facts"
  shows "order_carried inputs order"
  using assms(1)
proof (induction rule: stems.induct)
  case (left_open order f)
  then show ?case using assms(2) by (auto simp: collected_sound_def list_all_iff)
qed (blast intro: order_carried.intros)+

lemma accounted_explained:
  assumes "accounted inputs facts order" "collected_sound inputs facts"
  shows "explained inputs order"
proof -
  obtain o' where o': "o' \<in> set (fst (lf_orders facts)) \<or> (\<exists>o''. stems inputs facts o'' \<and> o' = gated o'')" "unthreaded order = unthreaded o'"
    using assms(1) unfolding accounted_def by blast
  then have "explained inputs o'" using assms(2) stems_carried by (auto simp: collected_sound_def list_all_iff explained_def)
  then show ?thesis using o'(2) by (simp add: explained_def)
qed

section \<open>What a call takes over\<close>

lemma spawnedAdditions_complete:
  assumes "spawnedAdditions binding shared insts = Inr bs" "inst \<in> set insts"
  shows "\<exists>gates. gatesAmong (lo_heldLocks inst) (Some binding) = Inr gates \<and>
    (isOpenLockOrder (inst\<lparr>lo_heldLocks := gates\<rparr>) \<or> lockOrderIdentity (inst\<lparr>lo_heldLocks := gates\<rparr>) \<in> shared \<or>
     AddClosed (inst\<lparr>lo_heldLocks := gates, lo_boundBySpawn := True\<rparr>) \<in> set bs)"
  using assms
proof (induction insts arbitrary: bs)
  case (Cons first insts)
  obtain gates where gates: "gatesAmong (lo_heldLocks first) (Some binding) = Inr gates" using Cons.prems(1) by (auto split: sum.splits)
  obtain rest where rest: "spawnedAdditions binding shared insts = Inr rest" using Cons.prems(1) gates by (cases "spawnedAdditions binding shared insts") (simp_all add: Let_def)
  show ?case
  proof (cases "inst = first")
    case True
    then show ?thesis using Cons.prems(1) gates rest by (auto simp: Let_def split: if_splits)
  next
    case False
    then have "set rest \<subseteq> set bs" "inst \<in> set insts" using Cons.prems gates rest by (auto simp: Let_def split: if_splits)
    then show ?thesis using Cons.IH [OF rest] by blast
  qed
qed simp

lemma spawnedAdditions_error:
  "spawnedAdditions binding shared insts = Inl e \<Longrightarrow> \<exists>inst \<in> set insts. gatesAmong (lo_heldLocks inst) (Some binding) = Inl e"
proof (induction insts)
  case (Cons inst insts)
  then show ?case by (cases "gatesAmong (lo_heldLocks inst) (Some binding)"; cases "spawnedAdditions binding shared insts") (auto simp: Let_def)
qed simp

lemma additionsAtCall_error:
  assumes "additionsAtCall inputs site orders = Inl e"
  shows "\<exists>binding locks. spawnedObject inputs site = Some binding \<and> gatesAmong locks (Some binding) = Inl e"
proof -
  obtain binding where binding: "spawnedObject inputs site = Some binding"
    using assms by (cases "spawnedObject inputs site") (auto simp: additionsAtCall_def Let_def split: if_splits)
  then obtain shared insts where "spawnedAdditions binding shared insts = Inl e"
    using assms by (auto simp: additionsAtCall_def Let_def map_sum_def split: if_splits sum.splits)
  then show ?thesis using binding spawnedAdditions_error by blast
qed

lemma collectOrders_error:
  assumes "collectOrders inputs fs facts = Some (Inl e)"
  shows "\<exists>f \<in> set fs. \<exists>spawned. \<not> fn_isDeclaration f \<and> ordersOf inputs f spawned = Some (Inl e)"
  using assms
proof (induction fs arbitrary: facts)
  case (Cons f fs)
  have "\<exists>spawned. ordersOf inputs f spawned = Some (Inl e)" if "collectFunctionOrders inputs f facts = Some (Inl e)"
    using that by (auto simp: collectFunctionOrders_def Let_def split: option.splits sum.splits prod.splits if_splits)
  then show ?case using Cons by (auto split: if_splits option.splits sum.splits)
qed simp

lemma directInstances_set:
  "set (directInstances inputs site orders) =
     (if runs_caller_directly inputs site then \<Union>order \<in> set orders. set (instantiateAtCall order (orderCall inputs site)) else {})"
  by (auto simp: directInstances_def runs_caller_directly_def split: option.splits)

lemma additionsAtCall_members:
  assumes "additionsAtCall inputs site orders = Inr bs" "takesCalleeLockOrders (oi_standard inputs) site"
  defines "direct \<equiv> directInstances inputs site orders"
  shows "inst \<in> set direct \<Longrightarrow> isOpenLockOrder inst \<Longrightarrow> AddOpen inst (\<exists>call \<in> recursionCalls inputs. dc_call site = Some call) \<in> set bs"
    and "inst \<in> set direct \<Longrightarrow> \<not> isOpenLockOrder inst \<Longrightarrow> AddClosed inst \<in> set bs"
    and "spawnedObject inputs site = Some binding \<Longrightarrow> \<exists>spawned.
      spawnedAdditions binding (lockOrderIdentity ` {inst \<in> set direct. \<not> isOpenLockOrder inst})
        (concat (map (\<lambda>order. instantiateAtCall order (spawnedOrderCall inputs site binding)) orders)) = Inr spawned \<and> set spawned \<subseteq> set bs"
proof -
  define r where "r = (\<exists>call \<in> recursionCalls inputs. dc_call site = Some call)"
  have r: "(case dc_call site of None \<Rightarrow> False | Some call \<Rightarrow> call \<in> recursionCalls inputs) = r" by (auto simp: r_def split: option.split)
  let ?additions = "map (\<lambda>inst. if isOpenLockOrder inst then AddOpen inst r else AddClosed inst) direct"
  have run: "(case spawnedObject inputs site of None \<Rightarrow> Inr ?additions
      | Some binding \<Rightarrow> map_sum id (\<lambda>spawned. ?additions @ spawned)
          (spawnedAdditions binding (lockOrderIdentity ` {inst \<in> set direct. \<not> isOpenLockOrder inst})
             (concat (map (\<lambda>order. instantiateAtCall order (spawnedOrderCall inputs site binding)) orders)))) = Inr bs"
    using assms(1,2) unfolding additionsAtCall_def Let_def r direct_def by (simp cong: option.case_cong)
  then have "set ?additions \<subseteq> set bs" by (auto simp: map_sum_def split: option.splits sum.splits)
  then show "inst \<in> set direct \<Longrightarrow> isOpenLockOrder inst \<Longrightarrow> AddOpen inst (\<exists>call \<in> recursionCalls inputs. dc_call site = Some call) \<in> set bs"
    and "inst \<in> set direct \<Longrightarrow> \<not> isOpenLockOrder inst \<Longrightarrow> AddClosed inst \<in> set bs"
    unfolding r_def [symmetric] by (force split: if_splits)+
  show "\<exists>spawned. spawnedAdditions binding (lockOrderIdentity ` {inst \<in> set direct. \<not> isOpenLockOrder inst})
        (concat (map (\<lambda>order. instantiateAtCall order (spawnedOrderCall inputs site binding)) orders)) = Inr spawned \<and> set spawned \<subseteq> set bs"
    if "spawnedObject inputs site = Some binding"
    using run that by (auto simp: map_sum_def split: sum.splits)
qed

lemma instance_kept_additions:
  assumes "lo_functionId inst = dc_callerFunctionId site"
  shows "instance_kept inputs facts site inst \<longleftrightarrow>
    kept_addition facts (if isOpenLockOrder inst then AddOpen inst (\<exists>call \<in> recursionCalls inputs. dc_call site = Some call) else AddClosed inst)"
  using assms by (simp add: instance_kept_def kept_addition_def)

lemma additions_taken_over:
  assumes run: "additionsAtCall inputs site (openOf facts (dc_calleeFunctionId site) @ judgedOf facts (dc_calleeFunctionId site)) = Inr bs"
    and kept: "\<forall>b \<in> set bs. kept_addition facts b" and takes: "takesCalleeLockOrders (oi_standard inputs) site"
  shows "taken_over inputs facts site"
proof -
  let ?left = "openOf facts (dc_calleeFunctionId site) @ judgedOf facts (dc_calleeFunctionId site)"
  let ?direct = "set (directInstances inputs site ?left)"
  note members = additionsAtCall_members [OF run takes]
  have "instance_kept inputs facts site inst" if inst: "inst \<in> ?direct" for inst
  proof -
    have "lo_functionId inst = dc_callerFunctionId site"
      using directInstances_mem [OF inst] instfields(1) by (fastforce simp: orderCall_def)
    then show ?thesis using members(1,2) [OF inst] kept by (simp add: instance_kept_additions)
  qed
  moreover have "\<exists>gates. gatesAmong (lo_heldLocks inst) (Some binding) = Inr gates \<and>
      (isOpenLockOrder (inst\<lparr>lo_heldLocks := gates\<rparr>) \<or>
       (\<exists>other \<in> ?direct. \<not> isOpenLockOrder other \<and> lockOrderIdentity other = lockOrderIdentity (inst\<lparr>lo_heldLocks := gates\<rparr>)) \<or>
       order_store.keeps (lf_orders facts) (gated (inst\<lparr>lo_heldLocks := gates, lo_boundBySpawn := True\<rparr>)))"
    if object: "spawnedObject inputs site = Some binding" and order: "order \<in> set ?left"
      and inst: "inst \<in> set (instantiateAtCall order (spawnedOrderCall inputs site binding))" for binding order inst
  proof -
    obtain spawned where spawned: "spawnedAdditions binding (lockOrderIdentity ` {inst \<in> ?direct. \<not> isOpenLockOrder inst})
        (concat (map (\<lambda>order. instantiateAtCall order (spawnedOrderCall inputs site binding)) ?left)) = Inr spawned" "set spawned \<subseteq> set bs"
      using members(3) [OF object] by blast
    have "inst \<in> set (concat (map (\<lambda>order. instantiateAtCall order (spawnedOrderCall inputs site binding)) ?left))"
      using order inst unfolding set_concat set_map by blast
    from spawnedAdditions_complete [OF spawned(1) this] show ?thesis
      using spawned(2) kept by (fastforce simp: keeps_additions(2))
  qed
  ultimately show ?thesis unfolding taken_over_def Let_def directInstances_set [symmetric] by blast
qed

lemma instantiated:
  assumes "inputs_ok inputs" "collect_ok collected"
  shows "\<exists>r. instantiateOrders inputs collected = Some r \<and> (case r of
       Inl e \<Rightarrow> \<exists>site \<in> set (oi_sites inputs). \<exists>orders. additionsAtCall inputs site orders = Inl ()
     | Inr facts \<Rightarrow> order_inv inputs collected facts \<and> (\<forall>b. kept_addition collected b \<longrightarrow> kept_addition facts b) \<and>
         (\<forall>site \<in> set (oi_sites inputs). \<forall>orders \<in> set (calleeOrdersOf facts site).
            \<exists>bs. additionsAtCall inputs site orders = Inr bs \<and> (\<forall>b \<in> set bs. kept_addition facts b)))"
proof -
  have start: "start_ok inputs collected" using assms by (intro collect_ok_start) (simp_all add: inputs_ok_def)
  have inv: "order_inv inputs collected collected"
    using start order_ok_initial [OF start] unfolding order_inv_def by (auto simp: start_ok_def list_all_iff accounted_def)
  obtain r where run: "instantiateOrders inputs collected = Some r" and spec: "case r of
       Inl e \<Rightarrow> \<exists>site \<in> set (oi_sites inputs). \<exists>orders e. (start_ok inputs collected \<and> list_all (order_ok inputs collected (dc_calleeFunctionId site)) orders) \<and>
         additionsAtCall inputs site orders = Inl e
     | Inr facts \<Rightarrow> order_inv inputs collected facts \<and> (\<forall>b. kept_addition collected b \<longrightarrow> kept_addition facts b) \<and>
         (\<forall>site \<in> set (oi_sites inputs). \<forall>orders \<in> set (calleeOrdersOf facts site).
            \<exists>bs. additionsAtCall inputs site orders = Inr bs \<and> (\<forall>b \<in> set bs. kept_addition facts b))"
    using order_spread.spreadLoop_closes [OF inv] unfolding instantiateOrders_def order_spread.throwing_def order_spread.covers_def by blast
  then show ?thesis by (cases r) auto
qed

text \<open>From what is collected to the end of the loop.\<close>

lemma collected_sound_none: "collected_sound inputs noOrderFacts"
  by (simp add: collected_sound_def noOrderFacts_def openOf_def judgedOf_def openOrdersOf_def noOpenOrders_def)

lemma final_placed:
  assumes "inputs_ok inputs" "collectOrders inputs (oi_module inputs) noOrderFacts = Some (Inr collected)" "order_grows collected facts"
  shows "taken_by inputs False f order \<Longrightarrow> order_placed inputs facts (fn_id f) (inTask inputs (fn_id f) order)"
    and "taken_by inputs True f order \<Longrightarrow> spawnedApart (oi_bindings inputs) (fn_id f) \<Longrightarrow> spawned_placed inputs facts f order"
proof -
  note own = collectOrders_placed [OF assms(1) order_refl collect_ok_none assms(2)]
  show "order_placed inputs facts (fn_id f) (inTask inputs (fn_id f) order)" if taken: "taken_by inputs False f order"
  proof (rule placed_grows [OF _ assms(3)])
    show "order_placed inputs collected (fn_id f) (inTask inputs (fn_id f) order)" using own taken by (auto simp: taken_by_def)
    have "wf_function f" using taken assms(1) by (auto simp: taken_by_def inputs_ok_def list_all_iff)
    then show "lo_functionId (inTask inputs (fn_id f) order) = fn_id f"
      using ordersOf_taken [OF assms(1), of f False] taken by (auto simp: taken_by_def list_all_iff taken_ok_def)
  qed
  show "spawned_placed inputs facts f order" if "taken_by inputs True f order" "spawnedApart (oi_bindings inputs) (fn_id f)"
    using own that by (intro spawned_placed_grows [OF _ assms(3)]) (auto simp: taken_by_def)
qed

lemma final_sound:
  assumes "inputs_ok inputs" "collectOrders inputs (oi_module inputs) noOrderFacts = Some (Inr collected)" "order_inv inputs collected facts"
  shows "list_all (order_carried inputs) (openOf facts f @ judgedOf facts f)" "list_all (explained inputs) (fst (lf_orders facts))"
proof -
  have sound: "collected_sound inputs collected" using collectOrders_sound [OF assms(1) order_refl collect_ok_none collected_sound_none assms(2)] .
  have "order_carried inputs order" if "order \<in> set (openOf facts f)" for order
    using assms(3) that stems_carried [OF _ sound] by (auto simp: order_inv_def list_all_iff order_ok_def)
  moreover have "judgedOf facts f = judgedOf collected f" using assms(3) by (simp add: order_inv_def judgedOf_def)
  ultimately show "list_all (order_carried inputs) (openOf facts f @ judgedOf facts f)" using sound by (auto simp: list_all_iff collected_sound_def)
  show "list_all (explained inputs) (fst (lf_orders facts))"
    using assms(3) accounted_explained [OF _ sound] by (auto simp: order_inv_def list_all_iff)
qed

section \<open>The lock orders of a unit\<close>

text \<open>
  C3: The lock orders of a unit are built: the loop that instantiates helpers' orders at their calls ends, and the build fails only where the names of
  locks cannot be read, in a function or at a call in a thread on its object. Every order of the result is, but for the threads beside it and
  the gates only a caller can name, one the collector finds in a function and that is not left to the function's calls, one it finds
  in the thread spawned on the function's object, or it stems from one a function leaves to its calls, along calls that take over their callee's orders.
  None is missed: every order found in a function is kept under its key and with its threads, among those left to the calls or in the result,
  a closed one of the spawned thread is in the result unless every run of the function takes it alike; and at every call each order the callee
  leaves, instantiated there, is kept likewise, unless it comes through a recursion that has reached its limit. The orders of the result have
  different keys.
\<close>

theorem lock_orders_built:
  assumes "inputs_ok inputs"
  shows "\<exists>r. buildLockOrders inputs = Some r \<and>
    (case r of
       Inl _ \<Rightarrow>
         (\<exists>f \<in> set (oi_module inputs). \<exists>spawnedThread. \<not> fn_isDeclaration f \<and> ordersOf inputs f spawnedThread = Some (Inl ())) \<or>
         (\<exists>site \<in> set (oi_sites inputs). \<exists>binding locks. spawnedObject inputs site = Some binding \<and> gatesAmong locks (Some binding) = Inl ())
     | Inr orders \<Rightarrow>
         distinct (map lockOrderKey orders) \<and> list_all (explained inputs) orders \<and>
         (\<exists>collected facts. collectOrders inputs (oi_module inputs) noOrderFacts = Some (Inr collected) \<and>
            instantiateOrders inputs collected = Some (Inr facts) \<and> fst (lf_orders facts) = orders \<and> (\<forall>f. list_all (order_carried inputs) (openOf facts f @ judgedOf facts f)) \<and>
            (\<forall>f order. taken_by inputs False f order \<longrightarrow> order_placed inputs facts (fn_id f) (inTask inputs (fn_id f) order)) \<and>
            (\<forall>f order. taken_by inputs True f order \<and> spawnedApart (oi_bindings inputs) (fn_id f) \<longrightarrow> spawned_placed inputs facts f order) \<and>
            (\<forall>site \<in> set (oi_sites inputs). takesCalleeLockOrders (oi_standard inputs) site \<longrightarrow> taken_over inputs facts site)))"
proof -
  have "list_all (\<lambda>f. fn_isDeclaration f \<or> wf_function f) (oi_module inputs)" using assms by (simp add: inputs_ok_def)
  from collectOrders_ok [OF assms this collect_ok_none] obtain c
    where c: "collectOrders inputs (oi_module inputs) noOrderFacts = Some c" "case c of Inl _ \<Rightarrow> True | Inr facts' \<Rightarrow> collect_ok facts'" by blast
  show ?thesis
  proof (cases c)
    case (Inl e)
    then show ?thesis using c(1) collectOrders_error [of inputs "oi_module inputs" noOrderFacts e] by (simp add: buildLockOrders_def)
  next
    case (Inr collected)
    then have collected: "collectOrders inputs (oi_module inputs) noOrderFacts = Some (Inr collected)" "collect_ok collected" using c by simp_all
    obtain r where run: "instantiateOrders inputs collected = Some r" and spec: "case r of
         Inl e \<Rightarrow> \<exists>site \<in> set (oi_sites inputs). \<exists>orders. additionsAtCall inputs site orders = Inl ()
       | Inr facts \<Rightarrow> order_inv inputs collected facts \<and> (\<forall>b. kept_addition collected b \<longrightarrow> kept_addition facts b) \<and>
           (\<forall>site \<in> set (oi_sites inputs). \<forall>orders \<in> set (calleeOrdersOf facts site).
              \<exists>bs. additionsAtCall inputs site orders = Inr bs \<and> (\<forall>b \<in> set bs. kept_addition facts b))"
      using instantiated [OF assms collected(2)] by blast
    have built: "buildLockOrders inputs = Some (map_sum id (\<lambda>facts. fst (lf_orders facts)) r)"
      using collected(1) run by (simp add: buildLockOrders_def)
    show ?thesis
    proof (cases r)
      case (Inl e)
      then show ?thesis using spec additionsAtCall_error built by fastforce
    next
      case (Inr facts)
      have inv: "order_inv inputs collected facts" using spec Inr by simp
      have grows: "order_grows collected facts" using spec Inr inv by (simp add: order_grows_def order_inv_def judgedOf_def)
      have "taken_over inputs facts site" if "site \<in> set (oi_sites inputs)" "takesCalleeLockOrders (oi_standard inputs) site" for site
      proof -
        have "openOf facts (dc_calleeFunctionId site) @ judgedOf facts (dc_calleeFunctionId site) \<in> set (calleeOrdersOf facts site)"
          by (simp add: calleeOrdersOf_def openOf_def judgedOf_def)
        then show ?thesis using spec Inr that additions_taken_over [of inputs site facts] by fastforce
      qed
      moreover have "distinct (map lockOrderKey (fst (lf_orders facts)))" using inv by (simp add: order_inv_def keyed_distinct)
      moreover note final_sound [OF assms collected(1) inv] final_placed [OF assms collected(1) grows]
      ultimately have "distinct (map lockOrderKey (fst (lf_orders facts))) \<and> list_all (explained inputs) (fst (lf_orders facts)) \<and>
         (\<exists>collected facts'. collectOrders inputs (oi_module inputs) noOrderFacts = Some (Inr collected) \<and>
            instantiateOrders inputs collected = Some (Inr facts') \<and> fst (lf_orders facts') = fst (lf_orders facts) \<and> (\<forall>f. list_all (order_carried inputs) (openOf facts' f @ judgedOf facts' f)) \<and>
            (\<forall>f order. taken_by inputs False f order \<longrightarrow> order_placed inputs facts' (fn_id f) (inTask inputs (fn_id f) order)) \<and>
            (\<forall>f order. taken_by inputs True f order \<and> spawnedApart (oi_bindings inputs) (fn_id f) \<longrightarrow> spawned_placed inputs facts' f order) \<and>
            (\<forall>site \<in> set (oi_sites inputs). takesCalleeLockOrders (oi_standard inputs) site \<longrightarrow> taken_over inputs facts' site))"
        using collected(1) run Inr by (intro conjI exI [of _ collected] exI [of _ facts]) blast+
      then show ?thesis using built Inr by simp
    qed
  qed
qed

text \<open>The function \<open>f\<close> takes \<open>a\<close> and calls \<open>g\<close>, which takes \<open>b\<close>: the order of the two is \<open>f\<close>'s, at the call.\<close>

definition helper_locks :: "nat OrderInputs" where
  "helper_locks =
     \<lparr>oi_module = [one_block ''f'' [lock_call 0 0, call_of 1 ''g''], one_block ''g'' [lock_call 2 1]],
      oi_sites = [\<lparr>dc_call = Some 1, dc_callerFunctionId = ''f'', dc_calleeFunctionId = ''g'', dc_loweredLocation = no_location,
        dc_userLocation = no_location, dc_insideLoop = False\<rparr>],
      oi_naming = lt_naming two_locks, oi_summaries = Map.empty, oi_bindings = [], oi_view = (\<lambda>_. no_addresses), oi_standard = (\<lambda>_. False),
      oi_locks = \<lparr>lp_entryLocksByFunction = [], lp_effectiveHeldLocksByCall = [1 \<mapsto> {''a''}]\<rparr>,
      oi_tasks = \<lparr>tk_liveEntriesAtInstruction = Map.empty, tk_startedEntriesAtInstruction = Map.empty, tk_rootTaskFunctions = {}\<rparr>,
      oi_threadEntries = {}\<rparr>"

lemma helper_locks_ok: "inputs_ok helper_locks"
  by (simp add: inputs_ok_def helper_locks_def one_block_wf lock_call_def call_of_def entryLocksOf_def heldLocksAt_def entriesAt_def split: bind_splits)

theorem lock_orders_built_witness:
  "\<exists>orders. buildLockOrders helper_locks = Some (Inr orders) \<and> distinct (map lockOrderKey orders) \<and>
     map (\<lambda>order. (lo_functionId order, lo_firstLockId order, lo_secondLockId order)) orders = [(''f'', ''a'', ''b'')]"
proof -
  have run: "map_option (map_sum id (map (\<lambda>order. (lo_functionId order, lo_firstLockId order, lo_secondLockId order)))) (buildLockOrders helper_locks) =
      Some (Inr [(''f'', ''a'', ''b'')])" by code_simp
  obtain r where r: "buildLockOrders helper_locks = Some r" "case r of Inl _ \<Rightarrow> True | Inr orders \<Rightarrow> distinct (map lockOrderKey orders)"
    using lock_orders_built [OF helper_locks_ok] by (elim exE conjE) (auto split: sum.splits)
  then show ?thesis using run by (cases r) auto
qed

end
