(* ===== verification/Access_Calls.thy ===== *)
theory Access_Calls
  imports Lock_Order_Facts
begin

text \<open>
  Accesses through parameters and the calls that place them, as \<open>TUFactsBuilder::build\<close> (\<open>analysis/tu_facts_builder.cpp\<close>) has them: an access a
  function makes through a parameter, or at an index a parameter picks, becomes an access of each caller, in the object and at the place
  the call passes. What the walks of \<open>ir_utils.cpp\<close> resolve an operand to is an argument, the record \<open>Operand\<close>.
\<close>

section \<open>Accesses and calls\<close>

record ParameterizedAccess =
  pa_root :: RootBinding
  pa_fact :: AccessFact

record DirectCallBinding =
  cb_call :: nat
  cb_argumentCount :: nat
  cb_callerFunctionId :: string
  cb_calleeFunctionId :: string
  cb_argumentBindings :: "(nat \<times> RootBinding) list"
  cb_indexArguments :: "(nat \<times> LinearIndex) list"
  cb_callsiteLocation :: SourceLocation
  cb_callsiteHeldLocks :: "string set"
  cb_callerInRootTask :: bool
  cb_liveAtCall :: entry_set
  cb_startedAtCall :: entry_set
  cb_entriesOnConstructedObject :: entry_set

definition flagDigit :: "bool \<Rightarrow> string" where
  "flagDigit b = (if b then ''1'' else ''0'')"

definition indexKey :: "LinearIndex \<Rightarrow> string" where
  "indexKey index =
     (if li_widened index then ''@*''
      else ''@'' @ to_string_int (sint (li_offset index)) @ ''+'' @ to_string_int (sint (li_scale index))) @
     ''*arg'' @ to_string_nat (case li_parameter index of None \<Rightarrow> 0 | Some parameter \<Rightarrow> parameter)"

definition rootBindingKey :: "RootBinding \<Rightarrow> string" where
  "rootBindingKey binding =
     (let index = (case rb_index binding of None \<Rightarrow> [] | Some index \<Rightarrow> indexKey index)
      in if rb_kind binding = RB_Global then ''global:'' @ rb_symbol binding @ identity (rb_region binding) @ index
         else ''argument:'' @ to_string_nat (rb_argumentIndex binding) @ identity (rb_region binding) @ index)"

definition labelled :: "string \<Rightarrow> string set \<Rightarrow> string" where
  "labelled label locks = concat (map (\<lambda>lock. label @ lock) (sorted_list_of_set locks))"

definition accessFactKey :: "AccessFact \<Rightarrow> string" where
  "accessFactKey fct =
     ac_symbol fct @ identity (ac_region fct) @ ''|'' @ ac_functionId fct @ ''|'' @ access_kind_name (ac_kind fct) @ ''|'' @
     (if ac_isAtomic fct then ''atomic'' else ''plain'') @ ''|'' @ alias_provenance_name (ac_aliasProvenance fct) @ ''|'' @
     sl_file (ac_loweredLocation fct) @ ''|'' @ to_string_nat (sl_line (ac_loweredLocation fct)) @ ''|'' @
     to_string_nat (sl_column (ac_loweredLocation fct)) @ ''|'' @ sl_function (ac_loweredLocation fct) @ ''|'' @
     flagDigit (ac_coarseCallEffect fct) @ flagDigit (ac_guessedIdentity fct) @ flagDigit (ac_sharedObject fct) @ flagDigit (ac_inRootTask fct) @ ''|'' @
     ac_instanceOwner fct @ labelled ''|lock:'' (ac_heldLocks fct) @ labelled ''|release:'' (ac_beforeRelease fct) @
     labelled ''|acquire:'' (ac_afterAcquire fct)"

definition parameterizedAccessKey :: "ParameterizedAccess \<Rightarrow> string" where
  "parameterizedAccessKey access = rootBindingKey (pa_root access) @ ''|'' @ accessFactKey (pa_fact access)"

definition hasDistinctUserLocation :: "AccessFact \<Rightarrow> bool" where
  "hasDistinctUserLocation access \<longleftrightarrow> ac_userLocation access \<noteq> ac_loweredLocation access"

section \<open>Keeping one copy of an access\<close>

definition mergeThreads :: "AccessFact \<Rightarrow> AccessFact \<Rightarrow> AccessFact" where
  "mergeThreads from into =
     into\<lparr>ac_liveEntries := ac_liveEntries into \<union> ac_liveEntries from, ac_startedEntries := ac_startedEntries into \<union> ac_startedEntries from\<rparr>"

definition access_threads :: "AccessFact \<Rightarrow> nat" where
  "access_threads fct = card (ac_liveEntries fct) + card (ac_startedEntries fct)"

definition addConcreteAccess :: "AccessFact \<Rightarrow> AccessFact list \<times> order_index \<Rightarrow> (AccessFact list \<times> order_index) \<times> bool" where
  "addConcreteAccess fct st =
     (let (accesses, accessKeys) = st
      in case accessKeys (accessFactKey fct) of
           None \<Rightarrow> ((accesses @ [fct], accessKeys(accessFactKey fct \<mapsto> length accesses)), True)
         | Some n \<Rightarrow>
             (let merged = mergeThreads fct (accesses ! n)
              in ((accesses[n := merged], accessKeys), access_threads merged \<noteq> access_threads (accesses ! n))))"

definition mergeSummary :: "ParameterizedAccess \<Rightarrow> ParameterizedAccess \<Rightarrow> ParameterizedAccess" where
  "mergeSummary access kept = kept\<lparr>pa_fact := mergeThreads (pa_fact access) (pa_fact kept)\<rparr>"

type_synonym access_summary = "ParameterizedAccess list \<times> order_index"

definition summaryOf :: "(string \<times> access_summary) list \<Rightarrow> string \<Rightarrow> access_summary" where
  "summaryOf summaries f = (case map_of summaries f of None \<Rightarrow> ([], Map.empty) | Some summary \<Rightarrow> summary)"

definition addParameterizedAccess ::
  "string \<Rightarrow> ParameterizedAccess \<Rightarrow> (string \<times> access_summary) list \<Rightarrow> (string \<times> access_summary) list \<times> bool" where
  "addParameterizedAccess f access summaries =
     (let (summary, keys) = summaryOf summaries f
      in case keys (parameterizedAccessKey access) of
           None \<Rightarrow> (umap_update f (\<lambda>_. (summary @ [access], keys(parameterizedAccessKey access \<mapsto> length summary))) summaries, True)
         | Some n \<Rightarrow>
             (let merged = mergeSummary access (summary ! n)
              in (umap_update f (\<lambda>_. (summary[n := merged], keys)) summaries,
                  access_threads (pa_fact merged) \<noteq> access_threads (pa_fact (summary ! n)))))"

section \<open>Preferring projected accesses\<close>

definition projectedAccessPreferenceKey :: "AccessFact \<Rightarrow> string" where
  "projectedAccessPreferenceKey fct =
     ac_symbol fct @ identity (ac_region fct) @ ''|'' @ access_kind_name (ac_kind fct) @ ''|'' @ sl_file (ac_loweredLocation fct) @ ''|'' @
     alias_provenance_name (ac_aliasProvenance fct) @ ''|'' @ to_string_nat (sl_line (ac_loweredLocation fct)) @ ''|'' @
     to_string_nat (sl_column (ac_loweredLocation fct)) @ ''|'' @ sl_function (ac_loweredLocation fct) @ labelled ''|lock:'' (ac_heldLocks fct)"

definition filterProjectedConcreteAccesses :: "AccessFact list \<Rightarrow> AccessFact list" where
  "filterProjectedConcreteAccesses accesses =
     (let projectedKeys = projectedAccessPreferenceKey ` set (filter hasDistinctUserLocation accesses)
      in filter (\<lambda>access. \<not> (projectedAccessPreferenceKey access \<in> projectedKeys \<and> \<not> hasDistinctUserLocation access)) accesses)"

definition shouldRemapAccessToCallsite :: "AccessFact \<Rightarrow> SourceLocation \<Rightarrow> bool" where
  "shouldRemapAccessToCallsite access callsite =
     (if sl_file callsite = [] \<and> sl_line callsite = 0 then False
      else if sl_file (ac_userLocation access) = [] then True
      else sl_file (ac_userLocation access) \<noteq> sl_file callsite)"

definition shouldProjectConcreteAccessToCallsite :: "AccessFact \<Rightarrow> SourceLocation \<Rightarrow> bool" where
  "shouldProjectConcreteAccessToCallsite access callsite =
     (if \<not> ac_allowCallsiteProjection access then False
      else if sl_file callsite = [] \<and> sl_line callsite = 0 then False
      else if sl_file (ac_userLocation access) = [] then True
      else if sl_file (ac_userLocation access) \<noteq> sl_file callsite then True
      else \<not> hasDistinctUserLocation access \<and> ac_userLocation access \<noteq> callsite)"

section \<open>What a call makes of a callee's access\<close>

definition locksAtCallSite :: "string set \<Rightarrow> DirectCallBinding \<Rightarrow> string set" where
  "locksAtCallSite calleeLocks callBinding =
     (\<Union>lockId \<in> calleeLocks.
        (case placeOf lockId of
           None \<Rightarrow> {lockId}
         | Some place \<Rightarrow>
             (case map_of (cb_argumentBindings callBinding) (pl_argumentIndex place) of
                None \<Rightarrow> {}
              | Some object \<Rightarrow> {lockIdAt object (pl_place place)})))"

definition threadsAtCallFor :: "ParameterizedAccess \<Rightarrow> DirectCallBinding \<Rightarrow> entry_set \<times> entry_set" where
  "threadsAtCallFor access call =
     (if rb_kind (pa_root access) = RB_Global \<or> rb_argumentIndex (pa_root access) \<noteq> 0 \<or> cb_entriesOnConstructedObject call = {}
      then (cb_liveAtCall call, cb_startedAtCall call)
      else (cb_liveAtCall call - cb_entriesOnConstructedObject call, cb_startedAtCall call - cb_entriesOnConstructedObject call))"

text \<open>\<open>llvm::MulOverflow\<close> and \<open>llvm::AddOverflow\<close> on 64-bit integers say whether the result fits.\<close>

definition substituteLinearIndex :: "LinearIndex \<Rightarrow> LinearIndex \<Rightarrow> LinearIndex option" where
  "substituteLinearIndex outer inner =
     (if li_widened outer \<or> li_widened inner
      then Some \<lparr>li_parameter = li_parameter inner, li_scale = 0, li_offset = 0, li_widened = True\<rparr>
      else if \<not> fits_i64 (sint (li_scale outer) * sint (li_scale inner)) \<or> \<not> fits_i64 (sint (li_scale outer) * sint (li_offset inner)) \<or>
              \<not> fits_i64 (sint (li_offset outer) + sint (li_scale outer * li_offset inner))
      then None
      else Some \<lparr>li_parameter = li_parameter inner, li_scale = li_scale outer * li_scale inner,
                 li_offset = li_offset outer + li_scale outer * li_offset inner, li_widened = False\<rparr>)"

text \<open>The index of a root always waits on a parameter.\<close>

definition indexAtCall :: "ParameterizedAccess \<Rightarrow> DirectCallBinding \<Rightarrow> LinearIndex option" where
  "indexAtCall access call =
     (case rb_index (pa_root access) of
        None \<Rightarrow> None
      | Some index \<Rightarrow>
          (case Option.bind (li_parameter index) (map_of (cb_indexArguments call)) of
             None \<Rightarrow> None
           | Some argument \<Rightarrow> substituteLinearIndex index argument))"

definition rootAtCall :: "ParameterizedAccess \<Rightarrow> DirectCallBinding \<Rightarrow> RootBinding option" where
  "rootAtCall access call =
     (let region = ac_region (pa_fact access);
          passed = indexAtCall access call;
          (place, index) =
            (case passed of
               None \<Rightarrow> (region, None)
             | Some index \<Rightarrow>
                 if li_parameter index \<noteq> None then (region, Some index)
                 else if li_widened index then (region, None)
                 else (region\<lparr>mr_hasKnownOffset := True, mr_byteOffset := li_offset index\<rparr>, None))
      in if rb_kind (pa_root access) = RB_Global then Some ((pa_root access)\<lparr>rb_region := place, rb_index := index\<rparr>)
         else
           (case map_of (cb_argumentBindings call) (rb_argumentIndex (pa_root access)) of
              None \<Rightarrow> None
            | Some object \<Rightarrow>
                Some (object\<lparr>rb_region := rebasedOn place (rb_region object) (rb_designated object),
                  rb_index :=
                    (case index of
                       None \<Rightarrow> None
                     | Some index \<Rightarrow>
                         if mr_hasKnownOffset (rb_region object)
                         then substituteLinearIndex
                                \<lparr>li_parameter = None, li_scale = 1, li_offset = mr_byteOffset (rb_region object), li_widened = False\<rparr> index
                         else None)\<rparr>)))"

end
