(* ===== verification/Access_Facts.thy ===== *)
theory Access_Facts
  imports Access_Calls
begin

text \<open>
  The accesses of a unit, as the last part of \<open>TUFactsBuilder::build\<close> (\<open>analysis/tu_facts_builder.cpp\<close>) puts them together: the accesses the
  collector found are completed with locks, threads and publications, those through parameters are carried to the calls until
  nothing is new, those of a spawned thread are named after its object, and those in code the user did not write are projected to the
  callBindings. What LLVM resolves a value to, what the analyses of tasks and publications found, and the order in which hash maps are walked, are arguments.
\<close>

section \<open>Calls and what they pass\<close>

record Operand =
  op_isInteger :: bool
  op_linearIndex :: "LinearIndex option"
  op_integerSource :: "nat option"
  op_trackedRoot :: "RootBinding option"
  op_localStorageRoot :: "RootBinding option"
  op_loadedSlot :: "string option"

text \<open>
  Where an access may lie in an element of a spawn loop: the instruction, the operand of a call it goes through or the pointer of a load or
  store, the offset from it and the size.
\<close>

record ElementPlace =
  ep_instruction :: nat
  ep_operand :: "nat option"
  ep_offset :: i64
  ep_byteSize :: u64

record CallView =
  vw_operands :: "nat \<Rightarrow> Operand list"
  vw_callerIntegerParameters :: "nat \<Rightarrow> bool list"
  vw_constructedClass :: "nat \<Rightarrow> string option"
  vw_loadStoreSize :: "nat \<Rightarrow> u64 option"
  vw_beforeHandOver :: "string \<Rightarrow> ElementPlace \<Rightarrow> bool"
  vw_afterRoundJoin :: "string \<Rightarrow> ElementPlace \<Rightarrow> bool"

record PendingAccess =
  pe_instruction :: nat
  pe_root :: RootBinding
  pe_fact :: AccessFact
  pe_restatesCalleeAccesses :: bool
  pe_callOperand :: "nat option"

record AccessInputs =
  ai_view :: CallView
  ai_pending :: "PendingAccess list"
  ai_sites :: "DirectCallSite list"
  ai_locks :: LockPropagationResult
  ai_tasks :: TaskView
  ai_bindings :: SharedObjectBindings
  ai_threadEntries :: "string set"
  ai_heldLocksByAccess :: "nat \<rightharpoonup> string set"
  ai_publications :: "nat \<rightharpoonup> string set \<times> string set"

definition sharedObjectIds :: "AccessInputs \<Rightarrow> string set" where
  "sharedObjectIds inputs = sharedObjectNames (ai_bindings inputs) SO_BehindPointer"

definition localObjectIds :: "AccessInputs \<Rightarrow> string set" where
  "localObjectIds inputs = sharedObjectNames (ai_bindings inputs) SO_Local"

fun firstElement :: "CallView \<Rightarrow> ElementPlace \<Rightarrow> string \<Rightarrow> SharedObjectBindings \<Rightarrow> (ElementOwner \<times> string) option" where
  "firstElement view place symbol [] = None"
| "firstElement view place symbol ((entry, binding) # bindings) =
     (if \<not> sb_elementPerThread binding \<or> rb_symbol (sb_object binding) \<noteq> symbol then firstElement view place symbol bindings
      else if vw_beforeHandOver view entry place then Some (EO_NotYetHandedOver, entry)
      else if vw_afterRoundJoin view entry place then Some (EO_JoinedThisRound, entry)
      else firstElement view place symbol bindings)"

definition reachesElementNoThreadHolds :: "AccessInputs \<Rightarrow> ElementPlace \<Rightarrow> string \<Rightarrow> (ElementOwner \<times> string) option" where
  "reachesElementNoThreadHolds inputs place symbol = firstElement (ai_view inputs) place symbol (ai_bindings inputs)"

definition loadOrStoreReachesElementNoThreadHolds :: "AccessInputs \<Rightarrow> PendingAccess \<Rightarrow> (ElementOwner \<times> string) option" where
  "loadOrStoreReachesElementNoThreadHolds inputs access =
     (case vw_loadStoreSize (ai_view inputs) (pe_instruction access) of
        None \<Rightarrow> None
      | Some byteSize \<Rightarrow>
          reachesElementNoThreadHolds inputs
            \<lparr>ep_instruction = pe_instruction access, ep_operand = None, ep_offset = 0, ep_byteSize = byteSize\<rparr> (rb_symbol (pe_root access)))"

definition placedInElement :: "(ElementOwner \<times> string) option \<Rightarrow> MemoryRegion \<Rightarrow> MemoryRegion" where
  "placedInElement element region = (case element of None \<Rightarrow> region | Some (holder, entry) \<Rightarrow> placeInElement holder entry region)"

definition namesObjectSharedWithThread :: "AccessInputs \<Rightarrow> string \<Rightarrow> bool" where
  "namesObjectSharedWithThread inputs symbol \<longleftrightarrow> symbol \<in> sharedObjectIds inputs \<or> symbol \<in> localObjectIds inputs"

definition entriesByConstructedClass :: "SharedObjectBindings \<Rightarrow> string \<Rightarrow> entry_set option" where
  "entriesByConstructedClass bindings cls =
     (let entries = fst ` set (filter (\<lambda>(entry, binding). sb_constructedClass binding \<noteq> [] \<and> sb_constructedClass binding = cls) bindings)
      in if entries = {} then None else Some entries)"

definition entriesOnObjectConstructedBy :: "AccessInputs \<Rightarrow> nat \<Rightarrow> entry_set option" where
  "entriesOnObjectConstructedBy inputs call =
     Option.bind (vw_constructedClass (ai_view inputs) call) (entriesByConstructedClass (ai_bindings inputs))"

definition resolveLocalObjectRoot :: "string set \<Rightarrow> Operand \<Rightarrow> RootBinding option" where
  "resolveLocalObjectRoot ids operand =
     (case op_localStorageRoot operand of None \<Rightarrow> None | Some binding \<Rightarrow> if rb_symbol binding \<in> ids then Some binding else None)"

definition sharedObjectArgument :: "string set \<Rightarrow> Operand \<Rightarrow> RootBinding option" where
  "sharedObjectArgument ids operand =
     (case op_loadedSlot operand of None \<Rightarrow> None | Some slot \<Rightarrow> if slot \<in> ids then Some (globalRoot slot whole_region) else None)"

definition handsOnParameter :: "LinearIndex option \<Rightarrow> bool" where
  "handsOnParameter index =
     (case index of None \<Rightarrow> False | Some index \<Rightarrow> li_parameter index \<noteq> None \<and> li_scale index = 1 \<and> li_offset index = 0)"

definition widenedIndexArgument :: "CallView \<Rightarrow> nat \<Rightarrow> nat \<Rightarrow> Operand \<Rightarrow> LinearIndex option" where
  "widenedIndexArgument view call position operand =
     (case op_integerSource operand of
        Some source \<Rightarrow> Some \<lparr>li_parameter = Some source, li_scale = 0, li_offset = 0, li_widened = True\<rparr>
      | None \<Rightarrow>
          (let integers = vw_callerIntegerParameters view call
           in if position < length integers \<and> integers ! position
              then Some \<lparr>li_parameter = Some position, li_scale = 0, li_offset = 0, li_widened = True\<rparr>
              else None))"

definition passedIndex :: "CallView \<Rightarrow> bool \<Rightarrow> nat \<Rightarrow> nat \<Rightarrow> Operand \<Rightarrow> LinearIndex option" where
  "passedIndex view inCycle call position operand =
     (if \<not> op_isInteger operand then None
      else if inCycle \<and> \<not> handsOnParameter (op_linearIndex operand) then widenedIndexArgument view call position operand
      else op_linearIndex operand)"

definition passedRoot :: "AccessInputs \<Rightarrow> bool \<Rightarrow> Operand \<Rightarrow> RootBinding option" where
  "passedRoot inputs inCycle operand =
     (let root = orElse (op_trackedRoot operand)
            (orElse (resolveLocalObjectRoot (localObjectIds inputs) operand) (sharedObjectArgument (sharedObjectIds inputs) operand))
      in case root of
           None \<Rightarrow> None
         | Some root \<Rightarrow>
             if rb_kind root = RB_Argument \<and> inCycle \<and> (\<not> mr_hasKnownOffset (rb_region root) \<or> mr_byteOffset (rb_region root) \<noteq> 0)
             then Some (root\<lparr>rb_region := (rb_region root)\<lparr>mr_hasKnownOffset := False\<rparr>\<rparr>)
             else Some root)"

definition directCallBinding :: "AccessInputs \<Rightarrow> nat set \<Rightarrow> DirectCallSite \<Rightarrow> nat \<Rightarrow> DirectCallBinding" where
  "directCallBinding inputs cycleCalls site call =
     (let operands = List.enumerate 0 (vw_operands (ai_view inputs) call)
      in \<lparr>cb_call = call, cb_argumentCount = length operands, cb_callerFunctionId = dc_callerFunctionId site,
          cb_calleeFunctionId = dc_calleeFunctionId site,
          cb_argumentBindings =
            List.map_filter (\<lambda>(position, operand). map_option (\<lambda>root. (position, root)) (passedRoot inputs (call \<in> cycleCalls) operand)) operands,
          cb_indexArguments =
            List.map_filter (\<lambda>(position, operand). map_option (\<lambda>index. (position, index))
              (passedIndex (ai_view inputs) (call \<in> cycleCalls) call position operand)) operands,
          cb_callsiteLocation = dc_userLocation site, cb_callsiteHeldLocks = heldLocksAt (ai_locks inputs) site,
          cb_callerInRootTask = (dc_callerFunctionId site \<in> tk_rootTaskFunctions (ai_tasks inputs)),
          cb_liveAtCall = entriesAt (tk_liveEntriesAtInstruction (ai_tasks inputs)) call,
          cb_startedAtCall = entriesAt (tk_startedEntriesAtInstruction (ai_tasks inputs)) call,
          cb_entriesOnConstructedObject = (case entriesOnObjectConstructedBy inputs call of None \<Rightarrow> {} | Some entries \<Rightarrow> entries)\<rparr>)"

definition buildDirectCallBindings :: "AccessInputs \<Rightarrow> DirectCallBinding list" where
  "buildDirectCallBindings inputs =
     (let cycleCalls = (case callsClosingCycles (ai_sites inputs) of None \<Rightarrow> {} | Some closing \<Rightarrow> closing)
      in List.map_filter
           (\<lambda>site.
              (case dc_call site of
                 None \<Rightarrow> None
               | Some call \<Rightarrow>
                   (let binding = directCallBinding inputs cycleCalls site call;
                        passesInteger = list_ex op_isInteger (vw_operands (ai_view inputs) call)
                    in if cb_argumentBindings binding \<noteq> [] \<or> passesInteger then Some binding else None)))
           (ai_sites inputs))"

section \<open>The collected accesses\<close>

record AccessState =
  st_concrete :: "AccessFact list \<times> order_index"
  st_summaries :: "(string \<times> access_summary) list"

definition noAccesses :: AccessState where
  "noAccesses = \<lparr>st_concrete = ([], Map.empty), st_summaries = []\<rparr>"

definition addConcrete :: "AccessFact \<Rightarrow> AccessState \<Rightarrow> AccessState \<times> bool" where
  "addConcrete fct st = (let (concrete, changed) = addConcreteAccess fct (st_concrete st) in (st\<lparr>st_concrete := concrete\<rparr>, changed))"

definition addSummary :: "AccessInputs \<Rightarrow> string \<Rightarrow> ParameterizedAccess \<Rightarrow> AccessState \<Rightarrow> AccessState \<times> bool" where
  "addSummary inputs f access st =
     (if rb_kind (pa_root access) \<noteq> RB_Global \<or>
         (f \<in> dc_calleeFunctionId ` set (ai_sites inputs) \<and> f \<notin> ai_threadEntries inputs)
      then (let (summaries, changed) = addParameterizedAccess f access (st_summaries st) in (st\<lparr>st_summaries := summaries\<rparr>, changed))
      else
        (let symbol = rb_symbol (pa_root access);
             unplaced = (pa_fact access)\<lparr>ac_symbol := symbol, ac_sharedObject := namesObjectSharedWithThread inputs symbol,
               ac_allowCallsiteProjection := False\<rparr>
         in (fst (addConcrete unplaced st), False)))"

definition completedFact :: "AccessInputs \<Rightarrow> PendingAccess \<Rightarrow> AccessFact" where
  "completedFact inputs pending =
     (let fct = pe_fact pending;
          fct = (case ai_publications inputs (pe_instruction pending) of
                   None \<Rightarrow> fct
                 | Some (before, after) \<Rightarrow> fct\<lparr>ac_beforeRelease := before, ac_afterAcquire := after\<rparr>);
          fct = (case ai_heldLocksByAccess inputs (pe_instruction pending) of None \<Rightarrow> fct | Some locks \<Rightarrow> fct\<lparr>ac_heldLocks := locks\<rparr>);
          fct = fct\<lparr>ac_heldLocks := mergeHeldLocks (ac_heldLocks fct) (entryLocksOf (ai_locks inputs) (ac_functionId fct))\<rparr>;
          fct = (case tk_liveEntriesAtInstruction (ai_tasks inputs) (pe_instruction pending) of None \<Rightarrow> fct | Some live \<Rightarrow> fct\<lparr>ac_liveEntries := live\<rparr>);
          fct = (case tk_startedEntriesAtInstruction (ai_tasks inputs) (pe_instruction pending) of
                   None \<Rightarrow> fct | Some started \<Rightarrow> fct\<lparr>ac_startedEntries := started\<rparr>);
          constructed = (if pe_callOperand pending = Some 0 then entriesOnObjectConstructedBy inputs (pe_instruction pending) else None);
          fct = (case constructed of
                   None \<Rightarrow> fct
                 | Some entries \<Rightarrow> fct\<lparr>ac_liveEntries := ac_liveEntries fct - entries, ac_startedEntries := ac_startedEntries fct - entries\<rparr>)
      in fct\<lparr>ac_inRootTask := ac_functionId fct \<in> tk_rootTaskFunctions (ai_tasks inputs)\<rparr>)"

definition addPending :: "AccessInputs \<Rightarrow> PendingAccess \<Rightarrow> AccessState \<Rightarrow> AccessState" where
  "addPending inputs pending st =
     (if pe_restatesCalleeAccesses pending then st
      else
        (let fct = completedFact inputs pending; root = pe_root pending
         in if rb_kind root = RB_Global \<and> rb_index root = None
            then
              (let region = placedInElement (loadOrStoreReachesElementNoThreadHolds inputs pending) (rb_region root)
               in fst (addConcrete (fct\<lparr>ac_symbol := rb_symbol root, ac_region := region,
                    ac_sharedObject := namesObjectSharedWithThread inputs (rb_symbol root)\<rparr>) st))
            else
              fst (addSummary inputs (ac_functionId fct)
                \<lparr>pa_root = root, pa_fact = fct\<lparr>ac_region := rb_region root, ac_allowCallsiteProjection := True\<rparr>\<rparr> st)))"

section \<open>Carrying accesses to the calls\<close>

datatype AccessAddition = AddConcreteFact AccessFact | AddToSummary string ParameterizedAccess

text \<open>What both kinds of accesses of the caller share: its function, locks and threads.\<close>

definition throughCall :: "DirectCallBinding \<Rightarrow> ParameterizedAccess \<Rightarrow> AccessFact" where
  "throughCall call access =
     (let fct = pa_fact access;
          (liveAtCall, startedAtCall) = threadsAtCallFor access call;
          (live, started) = threadsThroughCall (ac_liveEntries fct) (ac_startedEntries fct) liveAtCall startedAtCall
      in fct\<lparr>ac_functionId := cb_callerFunctionId call,
             ac_heldLocks := mergeHeldLocks (locksAtCallSite (ac_heldLocks fct) call) (cb_callsiteHeldLocks call),
             ac_inRootTask := cb_callerInRootTask call, ac_liveEntries := live, ac_startedEntries := started\<rparr>)"

definition concreteAtCall :: "AccessInputs \<Rightarrow> DirectCallBinding \<Rightarrow> ParameterizedAccess \<Rightarrow> RootBinding \<Rightarrow> AccessFact" where
  "concreteAtCall inputs call access root =
     (let place = ac_region (pa_fact access); argument = rb_argumentIndex (pa_root access);
          element =
            (if rb_kind (pa_root access) \<noteq> RB_Global \<and> rb_index (pa_root access) = None \<and> mr_hasKnownOffset place \<and> argument < cb_argumentCount call
             then reachesElementNoThreadHolds inputs
                    \<lparr>ep_instruction = cb_call call, ep_operand = Some argument, ep_offset = mr_byteOffset place, ep_byteSize = mr_byteSize place\<rparr>
                    (rb_symbol root)
             else None);
          concrete = (throughCall call access)\<lparr>ac_symbol := rb_symbol root, ac_sharedObject := namesObjectSharedWithThread inputs (rb_symbol root),
            ac_region := placedInElement element (rb_region root), ac_allowCallsiteProjection := True\<rparr>
      in if shouldRemapAccessToCallsite concrete (cb_callsiteLocation call)
         then concrete\<lparr>ac_userLocation := cb_callsiteLocation call, ac_allowCallsiteProjection := False\<rparr>
         else concrete)"

definition propagatedAtCall :: "DirectCallBinding \<Rightarrow> ParameterizedAccess \<Rightarrow> RootBinding \<Rightarrow> ParameterizedAccess" where
  "propagatedAtCall call access root =
     (let fct = (throughCall call access)\<lparr>ac_region := rb_region root\<rparr>
      in \<lparr>pa_root = root,
          pa_fact = (if shouldRemapAccessToCallsite fct (cb_callsiteLocation call) then fct\<lparr>ac_userLocation := cb_callsiteLocation call\<rparr> else fct)\<rparr>)"

definition accessAtCall :: "AccessInputs \<Rightarrow> DirectCallBinding \<Rightarrow> ParameterizedAccess \<Rightarrow> AccessAddition list" where
  "accessAtCall inputs call access =
     (case rootAtCall access call of
        None \<Rightarrow> []
      | Some root \<Rightarrow>
          if rb_kind root = RB_Global \<and> rb_index root = None then [AddConcreteFact (concreteAtCall inputs call access root)]
          else [AddToSummary (cb_callerFunctionId call) (propagatedAtCall call access root)])"

text \<open>A concrete access counts as no change of the summaries.\<close>

definition addAccess :: "AccessInputs \<Rightarrow> AccessAddition \<Rightarrow> AccessState \<Rightarrow> AccessState \<times> bool" where
  "addAccess inputs addition st =
     (case addition of
        AddConcreteFact fct \<Rightarrow> (fst (addConcrete fct st), False)
      | AddToSummary f access \<Rightarrow> addSummary inputs f access st)"

definition calleeSummary :: "AccessState \<Rightarrow> DirectCallBinding \<Rightarrow> ParameterizedAccess list" where
  "calleeSummary st call = fst (summaryOf (st_summaries st) (cb_calleeFunctionId call))"

definition carryAccesses :: "AccessInputs \<Rightarrow> DirectCallBinding list \<Rightarrow> AccessState \<Rightarrow> (unit + AccessState) option" where
  "carryAccesses inputs = spreadLoop calleeSummary (\<lambda>call access. Inr (accessAtCall inputs call access)) (addAccess inputs)"

section \<open>Accesses of spawned threads\<close>

definition boundAccess :: "string \<Rightarrow> SharedObjectBinding \<Rightarrow> ParameterizedAccess \<Rightarrow> AccessFact" where
  "boundAccess entry binding access =
     (let fct = pa_fact access;
          region = rebasedOn (rb_region (pa_root access)) (rb_region (sb_object binding)) (rb_designated (sb_object binding));
          region = (if sb_elementPerThread binding then placeInElement EO_AccessingThread entry region else region)
      in fct\<lparr>ac_symbol := rb_symbol (sb_object binding), ac_region := region, ac_heldLocks := locksOnSharedObject (ac_heldLocks fct) binding,
             ac_sharedObject := sb_kind binding \<noteq> SO_Global, ac_inRootTask := False, ac_boundBySpawn := True,
             ac_instanceOwner := (if sb_constructedClass binding \<noteq> [] then entry else ac_instanceOwner fct)\<rparr>)"

definition boundAccesses :: "AccessInputs \<Rightarrow> string \<times> access_summary \<Rightarrow> AccessFact list" where
  "boundAccesses inputs entrySummary =
     (let (entry, summary) = entrySummary
      in case map_of (ai_bindings inputs) entry of
           None \<Rightarrow> []
         | Some binding \<Rightarrow>
             map (boundAccess entry binding)
               (filter (\<lambda>access. rb_kind (pa_root access) = RB_Argument \<and> rb_argumentIndex (pa_root access) = sb_argumentIndex binding) (fst summary)))"

definition bindSpawned :: "((string \<times> access_summary) list \<Rightarrow> (string \<times> access_summary) list) \<Rightarrow> AccessInputs \<Rightarrow> AccessState \<Rightarrow> AccessState" where
  "bindSpawned arrange inputs st =
     fold (\<lambda>fct st. fst (addConcrete fct st)) (concat (map (boundAccesses inputs) (arrange (st_summaries st)))) st"

section \<open>Projecting accesses to the calls\<close>

definition projectedAtCall :: "DirectCallBinding \<Rightarrow> AccessFact \<Rightarrow> AccessFact" where
  "projectedAtCall call access =
     (let (live, started) = threadsThroughCall (ac_liveEntries access) (ac_startedEntries access) (cb_liveAtCall call) (cb_startedAtCall call);
          remapped = access\<lparr>ac_functionId := cb_callerFunctionId call,
            ac_heldLocks := mergeHeldLocks (locksAtCallSite (ac_heldLocks access) call) (cb_callsiteHeldLocks call),
            ac_inRootTask := cb_callerInRootTask call, ac_instanceOwner := [], ac_liveEntries := live, ac_startedEntries := started,
            ac_userLocation := cb_callsiteLocation call\<rparr>
      in if sl_file (ac_userLocation remapped) \<noteq> sl_file (ac_loweredLocation remapped) then remapped\<lparr>ac_allowCallsiteProjection := False\<rparr> else remapped)"

definition projections :: "DirectCallBinding list \<Rightarrow> AccessFact list \<Rightarrow> AccessFact list" where
  "projections callBindings accesses =
     concat (map (\<lambda>call.
       if cb_argumentBindings call = [] then []
       else map (projectedAtCall call)
              (filter (\<lambda>access. ac_functionId access = cb_calleeFunctionId call \<and> shouldProjectConcreteAccessToCallsite access (cb_callsiteLocation call)) accesses))
     callBindings)"

partial_function (option) projectLoop :: "DirectCallBinding list \<Rightarrow> AccessFact list \<times> order_index \<Rightarrow> (AccessFact list \<times> order_index) option" where
  "projectLoop callBindings st =
     (let (st, changed) = fold (addInstance addConcreteAccess) (projections callBindings (fst st)) (st, False)
      in if changed then projectLoop callBindings st else Some st)"

declare projectLoop.simps [code]

section \<open>The accesses of a unit\<close>

definition dropParameterLocks :: "AccessFact \<Rightarrow> AccessFact" where
  "dropParameterLocks access = access\<lparr>ac_heldLocks := Set.filter (\<lambda>lockId. placeOf lockId = None) (ac_heldLocks access)\<rparr>"

definition buildAccesses ::
  "((string \<times> access_summary) list \<Rightarrow> (string \<times> access_summary) list) \<Rightarrow> AccessInputs \<Rightarrow> (unit + AccessFact list) option" where
  "buildAccesses arrange inputs =
     (let callBindings = buildDirectCallBindings inputs
      in case carryAccesses inputs callBindings (fold (addPending inputs) (ai_pending inputs) noAccesses) of
           None \<Rightarrow> None
         | Some (Inl e) \<Rightarrow> Some (Inl e)
         | Some (Inr st) \<Rightarrow>
             map_option (\<lambda>concrete. Inr (map dropParameterLocks (filterProjectedConcreteAccesses (fst concrete))))
               (projectLoop callBindings (st_concrete (bindSpawned arrange inputs st))))"

end
