(* ===== verification/Access_Proofs.thy ===== *)
theory Access_Proofs
  imports Access_Facts
begin

text \<open>
  The accesses of a unit: the loops of \<open>Access_Facts\<close> end, every access comes from a collected one along the calls, and what an access stands
  for at a call, in a spawned thread or at a projection is kept.
\<close>

section \<open>The stores of accesses\<close>

definition fewer_access_threads :: "AccessFact \<Rightarrow> AccessFact \<Rightarrow> bool" where
  "fewer_access_threads fct kept \<longleftrightarrow> ac_liveEntries fct \<subseteq> ac_liveEntries kept \<and> ac_startedEntries fct \<subseteq> ac_startedEntries kept"

definition finite_access_threads :: "AccessFact \<Rightarrow> bool" where
  "finite_access_threads fct \<longleftrightarrow> finite (ac_liveEntries fct) \<and> finite (ac_startedEntries fct)"

lemma mergeThreads_sel [simp]:
  "ac_liveEntries (mergeThreads x kept) = ac_liveEntries kept \<union> ac_liveEntries x"
  "ac_startedEntries (mergeThreads x kept) = ac_startedEntries kept \<union> ac_startedEntries x"
  by (simp_all add: mergeThreads_def)

lemma mergeThreads_key [simp]: "accessFactKey (mergeThreads x kept) = accessFactKey kept"
  by (simp add: accessFactKey_def mergeThreads_def)

lemma mergeThreads_grows:
  assumes "finite_access_threads x" "finite_access_threads kept"
  shows "access_threads kept \<le> access_threads (mergeThreads x kept)"
    and "access_threads (mergeThreads x kept) = access_threads kept \<Longrightarrow> mergeThreads x kept = kept"
proof -
  show "access_threads kept \<le> access_threads (mergeThreads x kept)"
    using assms by (simp add: finite_access_threads_def mergeThreads_def access_threads_def add_mono card_Un_grows)
  assume "access_threads (mergeThreads x kept) = access_threads kept"
  then have "ac_liveEntries kept \<union> ac_liveEntries x = ac_liveEntries kept" "ac_startedEntries kept \<union> ac_startedEntries x = ac_startedEntries kept"
    using card_Un_same [of "ac_liveEntries kept" "ac_liveEntries x" "ac_startedEntries kept" "ac_startedEntries x"] assms
    by (simp_all add: access_threads_def mergeThreads_def finite_access_threads_def)
  then show "mergeThreads x kept = kept" by (simp add: mergeThreads_def)
qed

interpretation access_store: merged_store accessFactKey mergeThreads access_threads fewer_access_threads finite_access_threads
proof unfold_locales
  show "finite_access_threads (mergeThreads x kept)" if "finite_access_threads x" "finite_access_threads kept" for x kept
    using that by (simp add: finite_access_threads_def mergeThreads_def)
qed (auto simp: mergeThreads_grows fewer_access_threads_def)

interpretation summary_store: merged_store parameterizedAccessKey mergeSummary "\<lambda>access. access_threads (pa_fact access)"
  "\<lambda>access kept. fewer_access_threads (pa_fact access) (pa_fact kept)" "\<lambda>access. finite_access_threads (pa_fact access)"
proof unfold_locales
  show "finite_access_threads (pa_fact (mergeSummary x kept))" if "finite_access_threads (pa_fact x)" "finite_access_threads (pa_fact kept)" for x kept
    using that by (simp add: mergeSummary_def finite_access_threads_def mergeThreads_def)
  show "mergeSummary x kept = kept" if "finite_access_threads (pa_fact x)" "finite_access_threads (pa_fact kept)"
      "access_threads (pa_fact (mergeSummary x kept)) = access_threads (pa_fact kept)" for x kept
    using that mergeThreads_grows(2) by (simp add: mergeSummary_def)
qed (auto simp: mergeThreads_grows fewer_access_threads_def mergeSummary_def parameterizedAccessKey_def)

abbreviation keepAccess :: "AccessFact \<Rightarrow> AccessFact store \<Rightarrow> AccessFact store \<times> bool" where
  "keepAccess \<equiv> keepMerged accessFactKey mergeThreads access_threads"

abbreviation keepSummary :: "ParameterizedAccess \<Rightarrow> ParameterizedAccess store \<Rightarrow> ParameterizedAccess store \<times> bool" where
  "keepSummary \<equiv> keepMerged parameterizedAccessKey mergeSummary (\<lambda>access. access_threads (pa_fact access))"

lemma addParameterizedAccess_inv: "umap_inv summaries \<Longrightarrow> umap_inv (fst (addParameterizedAccess f access summaries))"
  by (simp add: addParameterizedAccess_def umap_inv_update Let_def split: prod.splits option.splits)

lemma addConcreteAccess_keep: "addConcreteAccess = keepAccess"
  by (intro ext) (simp add: addConcreteAccess_def keepMerged_def)

lemma addParameterizedAccess_keep:
  "summaryOf (fst (addParameterizedAccess f access summaries)) = (summaryOf summaries)(f := fst (keepSummary access (summaryOf summaries f)))"
  "snd (addParameterizedAccess f access summaries) = snd (keepSummary access (summaryOf summaries f))"
proof -
  obtain summary keys where s: "summaryOf summaries f = (summary, keys)" by fastforce
  have update: "summaryOf (umap_update f (\<lambda>_. v) summaries) = (summaryOf summaries)(f := v)" for v
    by (simp add: fun_eq_iff summaryOf_def umap_lookup_update)
  show "summaryOf (fst (addParameterizedAccess f access summaries)) = (summaryOf summaries)(f := fst (keepSummary access (summaryOf summaries f)))"
    "snd (addParameterizedAccess f access summaries) = snd (keepSummary access (summaryOf summaries f))"
    by (simp_all add: addParameterizedAccess_def keepMerged_def s Let_def update split: option.splits)
qed

section \<open>Finitely many keys\<close>

text \<open>Everything the loops put together comes from the collected accesses, from what the calls pass and from the objects of the spawned threads.\<close>

abbreviation callsOf :: "AccessInputs \<Rightarrow> DirectCallBinding set" where
  "callsOf inputs \<equiv> set (buildDirectCallBindings inputs)"

definition sourceFacts :: "AccessInputs \<Rightarrow> AccessFact set" where
  "sourceFacts inputs = completedFact inputs ` set (ai_pending inputs)"

definition passedRoots :: "AccessInputs \<Rightarrow> RootBinding set" where
  "passedRoots inputs = (\<Union>call \<in> callsOf inputs. snd ` set (cb_argumentBindings call))"

definition boundObjects :: "AccessInputs \<Rightarrow> RootBinding set" where
  "boundObjects inputs = (\<lambda>(_, binding). sb_object binding) ` set (ai_bindings inputs)"

definition accessRoots :: "AccessInputs \<Rightarrow> RootBinding set" where
  "accessRoots inputs = pe_root ` set (ai_pending inputs) \<union> passedRoots inputs \<union> boundObjects inputs"

definition accessFunctions :: "AccessInputs \<Rightarrow> string set" where
  "accessFunctions inputs = ac_functionId ` sourceFacts inputs \<union> cb_callerFunctionId ` callsOf inputs"

definition accessSymbols :: "AccessInputs \<Rightarrow> string set" where
  "accessSymbols inputs = ac_symbol ` sourceFacts inputs \<union> rb_symbol ` accessRoots inputs"

definition accessLocks :: "AccessInputs \<Rightarrow> string set" where
  "accessLocks inputs =
     (\<Union>fct \<in> sourceFacts inputs. ac_heldLocks fct) \<union> (\<Union>call \<in> callsOf inputs. cb_callsiteHeldLocks call) \<union>
     (\<lambda>(object, place). lockIdAt object place) ` ((passedRoots inputs \<union> boundObjects inputs) \<times> lockPlaces)"

definition accessEntries :: "AccessInputs \<Rightarrow> entry_set" where
  "accessEntries inputs = (\<Union>fct \<in> sourceFacts inputs. ac_liveEntries fct \<union> ac_startedEntries fct)"

definition elementEntries :: "AccessInputs \<Rightarrow> string set" where
  "elementEntries inputs =
     mr_elementEntry ` (ac_region ` sourceFacts inputs \<union> rb_region ` accessRoots inputs \<union> rb_designated ` accessRoots inputs) \<union>
     fst ` set (ai_bindings inputs)"

definition accessRegions :: "AccessInputs \<Rightarrow> MemoryRegion set" where
  "accessRegions inputs = {region. mr_elementEntry region \<in> elementEntries inputs}"

definition indexParameters :: "AccessInputs \<Rightarrow> nat option set" where
  "indexParameters inputs =
     (\<Union>root \<in> accessRoots inputs. li_parameter ` set_option (rb_index root)) \<union>
     (\<Union>call \<in> callsOf inputs. (\<lambda>(_, index). li_parameter index) ` set (cb_indexArguments call))"

definition accessIndexes :: "AccessInputs \<Rightarrow> LinearIndex option set" where
  "accessIndexes inputs = insert None (Some ` {index. li_parameter index \<in> indexParameters inputs})"

definition accessOwners :: "AccessInputs \<Rightarrow> string set" where
  "accessOwners inputs = insert [] (ac_instanceOwner ` sourceFacts inputs \<union> fst ` set (ai_bindings inputs))"

definition root_ok :: "AccessInputs \<Rightarrow> RootBinding \<Rightarrow> bool" where
  "root_ok inputs root \<longleftrightarrow>
     rb_symbol root \<in> accessSymbols inputs \<and> rb_argumentIndex root \<in> rb_argumentIndex ` accessRoots inputs \<and>
     rb_region root \<in> accessRegions inputs \<and> rb_index root \<in> accessIndexes inputs"

definition fact_ok :: "AccessInputs \<Rightarrow> AccessFact \<Rightarrow> bool" where
  "fact_ok inputs fct \<longleftrightarrow>
     ac_functionId fct \<in> accessFunctions inputs \<and> ac_symbol fct \<in> accessSymbols inputs \<and> ac_region fct \<in> accessRegions inputs \<and>
     ac_loweredLocation fct \<in> ac_loweredLocation ` sourceFacts inputs \<and> ac_instanceOwner fct \<in> accessOwners inputs \<and>
     ac_heldLocks fct \<subseteq> accessLocks inputs \<and> ac_beforeRelease fct \<in> ac_beforeRelease ` sourceFacts inputs \<and>
     ac_afterAcquire fct \<in> ac_afterAcquire ` sourceFacts inputs \<and>
     ac_liveEntries fct \<subseteq> accessEntries inputs \<and> ac_startedEntries fct \<subseteq> accessEntries inputs"

text \<open>The sets the analyses give are finite.\<close>

definition access_inputs_ok :: "AccessInputs \<Rightarrow> bool" where
  "access_inputs_ok inputs \<longleftrightarrow>
     (\<forall>pending \<in> set (ai_pending inputs). finite (ac_heldLocks (completedFact inputs pending)) \<and> finite_access_threads (completedFact inputs pending)) \<and>
     (\<forall>site. finite (heldLocksAt (ai_locks inputs) site))"

instance AccessKind :: finite
proof
  have "(UNIV :: AccessKind set) \<subseteq> {AK_Read, AK_Write}" using AccessKind.exhaust by blast
  then show "finite (UNIV :: AccessKind set)" using finite_subset by blast
qed

instance AliasProvenance :: finite
proof
  have "(UNIV :: AliasProvenance set) \<subseteq> {AP_Direct, AP_MustAlias, AP_MayAlias}" using AliasProvenance.exhaust by blast
  then show "finite (UNIV :: AliasProvenance set)" using finite_subset by blast
qed

instance ElementOwner :: finite
proof
  have "(UNIV :: ElementOwner set) \<subseteq> {EO_None, EO_AccessingThread, EO_NotYetHandedOver, EO_JoinedThisRound}" using ElementOwner.exhaust by blast
  then show "finite (UNIV :: ElementOwner set)" using finite_subset by blast
qed

instance RootBindingKind :: finite
proof
  have "(UNIV :: RootBindingKind set) \<subseteq> {RB_Global, RB_Argument}" using RootBindingKind.exhaust by blast
  then show "finite (UNIV :: RootBindingKind set)" using finite_subset by blast
qed

lemma accessRegions_finite: "finite (accessRegions inputs)"
proof -
  have fin: "finite (elementEntries inputs)" by (simp add: elementEntries_def accessRoots_def passedRoots_def boundObjects_def sourceFacts_def)
  have sub: "accessRegions inputs \<subseteq> (\<lambda>(known, offset, extent, holder, entry). \<lparr>mr_hasKnownOffset = known, mr_byteOffset = offset, mr_byteSize = extent,
      mr_elementOwner = holder, mr_elementEntry = entry\<rparr>) ` (UNIV \<times> UNIV \<times> UNIV \<times> UNIV \<times> elementEntries inputs)"
  proof
    fix region :: MemoryRegion assume "region \<in> accessRegions inputs"
    then show "region \<in> (\<lambda>(known, offset, extent, holder, entry). \<lparr>mr_hasKnownOffset = known, mr_byteOffset = offset, mr_byteSize = extent,
      mr_elementOwner = holder, mr_elementEntry = entry\<rparr>) ` (UNIV \<times> UNIV \<times> UNIV \<times> UNIV \<times> elementEntries inputs)"
      by (intro image_eqI [of _ _ "(mr_hasKnownOffset region, mr_byteOffset region, mr_byteSize region, mr_elementOwner region, mr_elementEntry region)"])
        (auto simp: accessRegions_def)
  qed
  show ?thesis by (rule finite_subset [OF sub]) (simp add: fin)
qed

lemma accessIndexes_finite: "finite (accessIndexes inputs)"
proof -
  have fin: "finite (indexParameters inputs)" by (simp add: indexParameters_def accessRoots_def passedRoots_def boundObjects_def)
  have sub: "{index. li_parameter index \<in> indexParameters inputs} \<subseteq>
      (\<lambda>(parameter, scale, offset, widened). \<lparr>li_parameter = parameter, li_scale = scale, li_offset = offset, li_widened = widened\<rparr>) `
      (indexParameters inputs \<times> UNIV \<times> UNIV \<times> UNIV)"
  proof
    fix index :: LinearIndex assume "index \<in> {index. li_parameter index \<in> indexParameters inputs}"
    then show "index \<in> (\<lambda>(parameter, scale, offset, widened). \<lparr>li_parameter = parameter, li_scale = scale, li_offset = offset, li_widened = widened\<rparr>) `
      (indexParameters inputs \<times> UNIV \<times> UNIV \<times> UNIV)"
      by (intro image_eqI [of _ _ "(li_parameter index, li_scale index, li_offset index, li_widened index)"]) auto
  qed
  have "finite {index :: LinearIndex. li_parameter index \<in> indexParameters inputs}" by (rule finite_subset [OF sub]) (simp add: fin)
  then show ?thesis by (simp add: accessIndexes_def)
qed

definition possibleAccessKeys :: "AccessInputs \<Rightarrow> string set" where
  "possibleAccessKeys inputs =
     (\<lambda>(symbol, region, f, (kind, atomic, provenance, location), (coarse, guessed, shared, root), instance_owner, held, before, after).
        accessFactKey \<lparr>ac_symbol = symbol, ac_region = region, ac_functionId = f, ac_kind = kind, ac_aliasProvenance = provenance,
          ac_loweredLocation = location, ac_userLocation = no_location, ac_allowCallsiteProjection = False, ac_isAtomic = atomic,
          ac_coarseCallEffect = coarse, ac_guessedIdentity = guessed, ac_sharedObject = shared, ac_inRootTask = root, ac_liveEntries = {},
          ac_startedEntries = {}, ac_boundBySpawn = False, ac_instanceOwner = instance_owner, ac_heldLocks = held, ac_beforeRelease = before,
          ac_afterAcquire = after\<rparr>) `
     (accessSymbols inputs \<times> accessRegions inputs \<times> accessFunctions inputs \<times> (UNIV \<times> UNIV \<times> UNIV \<times> ac_loweredLocation ` sourceFacts inputs) \<times>
      (UNIV \<times> UNIV \<times> UNIV \<times> UNIV) \<times> accessOwners inputs \<times> Pow (accessLocks inputs) \<times> ac_beforeRelease ` sourceFacts inputs \<times> ac_afterAcquire ` sourceFacts inputs)"

lemma fact_ok_key: "fact_ok inputs fct \<Longrightarrow> accessFactKey fct \<in> possibleAccessKeys inputs"
  unfolding possibleAccessKeys_def
  by (intro image_eqI [of _ _ "(ac_symbol fct, ac_region fct, ac_functionId fct, (ac_kind fct, ac_isAtomic fct, ac_aliasProvenance fct, ac_loweredLocation fct),
      (ac_coarseCallEffect fct, ac_guessedIdentity fct, ac_sharedObject fct, ac_inRootTask fct), ac_instanceOwner fct, ac_heldLocks fct,
      ac_beforeRelease fct, ac_afterAcquire fct)"]) (simp_all add: accessFactKey_def fact_ok_def)

lemma accessLocks_finite:
  assumes "access_inputs_ok inputs"
  shows "finite (accessLocks inputs)"
proof -
  have "finite (cb_callsiteHeldLocks call)" if "call \<in> callsOf inputs" for call
    using that assms by (auto simp: buildDirectCallBindings_def directCallBinding_def access_inputs_ok_def Let_def List.map_filter_def split: option.splits if_splits)
  moreover have "finite (ac_heldLocks fct)" if "fct \<in> sourceFacts inputs" for fct
    using that assms by (auto simp: sourceFacts_def access_inputs_ok_def)
  ultimately show ?thesis by (simp add: accessLocks_def sourceFacts_def passedRoots_def boundObjects_def lockPlaces_finite)
qed

lemma accessEntries_finite: "access_inputs_ok inputs \<Longrightarrow> finite (accessEntries inputs)"
  by (auto simp: accessEntries_def sourceFacts_def access_inputs_ok_def finite_access_threads_def)

lemma possibleAccessKeys_finite: "access_inputs_ok inputs \<Longrightarrow> finite (possibleAccessKeys inputs)"
  unfolding possibleAccessKeys_def using accessRegions_finite accessLocks_finite
  by (intro finite_imageI finite_cartesian_product)
    (simp_all add: accessSymbols_def accessFunctions_def accessOwners_def sourceFacts_def accessRoots_def passedRoots_def boundObjects_def)

definition possibleSummaryKeys :: "AccessInputs \<Rightarrow> string set" where
  "possibleSummaryKeys inputs =
     (\<lambda>(root, key). root @ ''|'' @ key) `
     ((\<lambda>(kind, symbol, argument, region, index). rootBindingKey \<lparr>rb_kind = kind, rb_symbol = symbol, rb_argumentIndex = argument, rb_region = region,
         rb_designated = whole_region, rb_index = index\<rparr>) `
        (UNIV \<times> accessSymbols inputs \<times> rb_argumentIndex ` accessRoots inputs \<times> accessRegions inputs \<times> accessIndexes inputs) \<times>
      possibleAccessKeys inputs)"

lemma root_ok_key: "root_ok inputs root \<Longrightarrow> rootBindingKey root \<in>
    (\<lambda>(kind, symbol, argument, region, index). rootBindingKey \<lparr>rb_kind = kind, rb_symbol = symbol, rb_argumentIndex = argument, rb_region = region,
       rb_designated = whole_region, rb_index = index\<rparr>) `
      (UNIV \<times> accessSymbols inputs \<times> rb_argumentIndex ` accessRoots inputs \<times> accessRegions inputs \<times> accessIndexes inputs)"
  by (intro image_eqI [of _ _ "(rb_kind root, rb_symbol root, rb_argumentIndex root, rb_region root, rb_index root)"])
    (simp_all add: rootBindingKey_def root_ok_def Let_def)

lemma summary_ok_key: "root_ok inputs (pa_root access) \<Longrightarrow> fact_ok inputs (pa_fact access) \<Longrightarrow> parameterizedAccessKey access \<in> possibleSummaryKeys inputs"
  unfolding possibleSummaryKeys_def parameterizedAccessKey_def
  by (intro image_eqI [of _ _ "(rootBindingKey (pa_root access), accessFactKey (pa_fact access))"]) (simp, use root_ok_key fact_ok_key in blast)

lemma possibleSummaryKeys_finite: "access_inputs_ok inputs \<Longrightarrow> finite (possibleSummaryKeys inputs)"
  unfolding possibleSummaryKeys_def using accessRegions_finite accessIndexes_finite possibleAccessKeys_finite
  by (intro finite_imageI finite_cartesian_product) (simp_all add: accessSymbols_def sourceFacts_def accessRoots_def passedRoots_def boundObjects_def)

section \<open>What a call makes of an access\<close>

lemma fact_ok_fin: "access_inputs_ok inputs \<Longrightarrow> fact_ok inputs fct \<Longrightarrow> finite_access_threads fct"
  using accessEntries_finite finite_subset unfolding fact_ok_def finite_access_threads_def by metis

lemma fact_ok_merge: "fact_ok inputs fct \<Longrightarrow> fact_ok inputs kept \<Longrightarrow> fact_ok inputs (mergeThreads fct kept)"
  unfolding fact_ok_def mergeThreads_def by simp

lemma locksAtCallSite_ok:
  assumes "call \<in> callsOf inputs" "locks \<subseteq> accessLocks inputs"
  shows "mergeHeldLocks (locksAtCallSite locks call) (cb_callsiteHeldLocks call) \<subseteq> accessLocks inputs"
proof
  fix l assume "l \<in> mergeHeldLocks (locksAtCallSite locks call) (cb_callsiteHeldLocks call)"
  then consider "l \<in> cb_callsiteHeldLocks call" | "l \<in> locks"
    | lockId place object where "placeOf lockId = Some place" "map_of (cb_argumentBindings call) (pl_argumentIndex place) = Some object" "l = lockIdAt object (pl_place place)"
    by (auto simp: mergeHeldLocks_def locksAtCallSite_def split: option.splits)
  then show "l \<in> accessLocks inputs"
  proof cases
    case 1
    then show ?thesis using assms(1) unfolding accessLocks_def by blast
  next
    case 2
    then show ?thesis using assms(2) by blast
  next
    case 3
    have "object \<in> passedRoots inputs" unfolding passedRoots_def using assms(1) map_of_SomeD [OF 3(2)] by force
    then have "l \<in> (\<lambda>(object, place). lockIdAt object place) ` ((passedRoots inputs \<union> boundObjects inputs) \<times> lockPlaces)"
      using 3(3) placeOf_places [OF 3(1)] by (intro image_eqI [of _ _ "(object, pl_place place)"]) auto
    then show ?thesis unfolding accessLocks_def by blast
  qed
qed

lemma threadsThroughCall_sub:
  "threadsThroughCall live started liveAtCall startedAtCall = (live', started') \<Longrightarrow> live' \<subseteq> live \<and> started' \<subseteq> live"
  by (auto simp: threadsThroughCall_def Let_def)

lemma substituteLinearIndex_parameter: "substituteLinearIndex outer inner = Some index \<Longrightarrow> li_parameter index = li_parameter inner"
  by (auto simp: substituteLinearIndex_def split: if_splits)

lemma indexAtCall_parameter:
  assumes "call \<in> callsOf inputs" "indexAtCall access call = Some index"
  shows "li_parameter index \<in> indexParameters inputs"
proof -
  obtain position argument where "map_of (cb_indexArguments call) position = Some argument" "li_parameter index = li_parameter argument"
    using assms(2) substituteLinearIndex_parameter by (auto simp: indexAtCall_def split: option.splits bind_splits)
  then have "(position, argument) \<in> set (cb_indexArguments call)" "li_parameter index = li_parameter argument" using map_of_SomeD by fast+
  then show ?thesis using assms(1) unfolding indexParameters_def by force
qed

lemma rebasedOn_entry: "mr_elementEntry (rebasedOn place argument designated) \<in> {mr_elementEntry place, mr_elementEntry designated}"
  by (simp add: rebasedOn_def Let_def)

lemma rebased_ok:
  assumes "place \<in> accessRegions inputs" "object \<in> accessRoots inputs"
  shows "rebasedOn place (rb_region object) (rb_designated object) \<in> accessRegions inputs"
proof -
  have "mr_elementEntry (rb_designated object) \<in> elementEntries inputs" using assms(2) unfolding elementEntries_def by blast
  then show ?thesis using rebasedOn_entry [of place "rb_region object" "rb_designated object"] assms(1) unfolding accessRegions_def by auto
qed

lemma rootAtCall_ok:
  assumes "call \<in> callsOf inputs" "root_ok inputs (pa_root access)" "fact_ok inputs (pa_fact access)" "rootAtCall access call = Some root"
  shows "root_ok inputs root"
proof -
  define placed where "placed =
    (case indexAtCall access call of
       None \<Rightarrow> (ac_region (pa_fact access), None)
     | Some index \<Rightarrow>
         if li_parameter index \<noteq> None then (ac_region (pa_fact access), Some index)
         else if li_widened index then (ac_region (pa_fact access), None)
         else ((ac_region (pa_fact access))\<lparr>mr_hasKnownOffset := True, mr_byteOffset := li_offset index\<rparr>, None))"
  obtain place index where placed': "placed = (place, index)" by fastforce
  have place: "place \<in> accessRegions inputs"
    using assms(3) placed' by (auto simp: placed_def fact_ok_def accessRegions_def split: option.splits if_splits)
  have parameter: "li_parameter i \<in> indexParameters inputs" if "index = Some i" for i
  proof -
    have "indexAtCall access call = Some i" using placed' that by (auto simp: placed_def split: option.splits if_splits)
    then show ?thesis by (rule indexAtCall_parameter [OF assms(1)])
  qed
  then have index: "index \<in> accessIndexes inputs" by (cases index) (simp_all add: accessIndexes_def)
  show ?thesis
  proof (cases "rb_kind (pa_root access) = RB_Global")
    case True
    then have "root = (pa_root access)\<lparr>rb_region := place, rb_index := index\<rparr>"
      using assms(4) placed' unfolding rootAtCall_def placed_def [symmetric] Let_def by simp
    then show ?thesis using assms(2) place index by (simp add: root_ok_def)
  next
    case False
    then obtain object where object: "map_of (cb_argumentBindings call) (rb_argumentIndex (pa_root access)) = Some object"
      and root: "root = object\<lparr>rb_region := rebasedOn place (rb_region object) (rb_designated object), rb_index := (case index of None \<Rightarrow> None | Some index \<Rightarrow>
         if mr_hasKnownOffset (rb_region object)
         then substituteLinearIndex \<lparr>li_parameter = None, li_scale = 1, li_offset = mr_byteOffset (rb_region object), li_widened = False\<rparr> index else None)\<rparr>"
      using assms(4) placed' unfolding rootAtCall_def placed_def [symmetric] Let_def by (auto split: option.splits)
    have "object \<in> accessRoots inputs" using assms(1) map_of_SomeD [OF object] unfolding accessRoots_def passedRoots_def by force
    moreover have "rb_index root \<in> accessIndexes inputs"
    proof (cases "rb_index root")
      case (Some j)
      then obtain i where "index = Some i" "li_parameter j = li_parameter i" using substituteLinearIndex_parameter unfolding root by (auto split: option.splits if_splits)
      then show ?thesis using parameter Some by (simp add: accessIndexes_def)
    qed (simp add: accessIndexes_def)
    ultimately show ?thesis using rebased_ok [OF place] unfolding root by (simp add: root_ok_def accessSymbols_def)
  qed
qed

lemma throughCall_ok:
  assumes "call \<in> callsOf inputs" "fact_ok inputs (pa_fact access)"
  shows "fact_ok inputs (throughCall call access)"
proof -
  obtain liveAtCall startedAtCall where at: "threadsAtCallFor access call = (liveAtCall, startedAtCall)" by fastforce
  obtain live started where through: "threadsThroughCall (ac_liveEntries (pa_fact access)) (ac_startedEntries (pa_fact access)) liveAtCall startedAtCall = (live, started)"
    by fastforce
  have "live \<subseteq> accessEntries inputs" "started \<subseteq> accessEntries inputs" using threadsThroughCall_sub [OF through] assms(2) by (auto simp: fact_ok_def)
  then show ?thesis using assms(2) locksAtCallSite_ok [OF assms(1), of "ac_heldLocks (pa_fact access)"] assms(1) at through
    by (simp add: throughCall_def Let_def fact_ok_def accessFunctions_def)
qed

lemma firstElement_entry: "firstElement view place symbol bindings = Some (holder, entry) \<Longrightarrow> entry \<in> fst ` set bindings"
  by (induction bindings) (auto split: if_splits)

lemma placedInElement_ok:
  assumes "region \<in> accessRegions inputs" "element = None \<or> element = reachesElementNoThreadHolds inputs place symbol"
  shows "placedInElement element region \<in> accessRegions inputs"
proof (cases element)
  case (Some e)
  obtain holder entry where e: "e = (holder, entry)" by fastforce
  have "firstElement (ai_view inputs) place symbol (ai_bindings inputs) = Some (holder, entry)" using assms(2) Some e by (simp add: reachesElementNoThreadHolds_def)
  then have "entry \<in> fst ` set (ai_bindings inputs)" by (rule firstElement_entry)
  then have "entry \<in> elementEntries inputs" unfolding elementEntries_def by (rule UnI2)
  then show ?thesis using assms(1) Some e by (simp add: placedInElement_def placeInElement_def accessRegions_def)
qed (use assms(1) in \<open>simp add: placedInElement_def\<close>)

definition accessAddition_ok :: "AccessInputs \<Rightarrow> AccessAddition \<Rightarrow> bool" where
  "accessAddition_ok inputs addition =
     (case addition of
        AddConcreteFact fct \<Rightarrow> fact_ok inputs fct
      | AddToSummary f access \<Rightarrow> ac_functionId (pa_fact access) = f \<and> root_ok inputs (pa_root access) \<and> fact_ok inputs (pa_fact access))"

lemma throughCall_function: "ac_functionId (throughCall call access) = cb_callerFunctionId call"
  by (simp add: throughCall_def Let_def split: prod.splits)

lemma accessAtCall_ok:
  assumes "call \<in> callsOf inputs" "root_ok inputs (pa_root access)" "fact_ok inputs (pa_fact access)" "b \<in> set (accessAtCall inputs call access)"
  shows "accessAddition_ok inputs b"
proof -
  obtain root where root: "rootAtCall access call = Some root" using assms(4) by (cases "rootAtCall access call") (simp_all add: accessAtCall_def)
  note ok = rootAtCall_ok [OF assms(1-3) root] throughCall_ok [OF assms(1,3)]
  show ?thesis
  proof (cases "rb_kind root = RB_Global \<and> rb_index root = None")
    case True
    then have b: "b = AddConcreteFact (concreteAtCall inputs call access root)" using assms(4) root by (simp add: accessAtCall_def)
    let ?place = "ac_region (pa_fact access)" and ?argument = "rb_argumentIndex (pa_root access)"
    define element where "element =
      (if rb_kind (pa_root access) \<noteq> RB_Global \<and> rb_index (pa_root access) = None \<and> mr_hasKnownOffset ?place \<and> ?argument < cb_argumentCount call
       then reachesElementNoThreadHolds inputs \<lparr>ep_instruction = cb_call call, ep_operand = Some ?argument, ep_offset = mr_byteOffset ?place, ep_byteSize = mr_byteSize ?place\<rparr> (rb_symbol root)
       else None)"
    have "placedInElement element (rb_region root) \<in> accessRegions inputs" using ok(1) by (intro placedInElement_ok) (auto simp: root_ok_def element_def)
    then have "fact_ok inputs (concreteAtCall inputs call access root)"
      using ok unfolding concreteAtCall_def element_def [symmetric] Let_def by (auto simp: fact_ok_def root_ok_def)
    then show ?thesis using b by (simp add: accessAddition_ok_def)
  next
    case False
    then have "b = AddToSummary (cb_callerFunctionId call) (propagatedAtCall call access root)" using assms(4) root by (auto simp: accessAtCall_def)
    then show ?thesis using ok throughCall_function [of call access]
      by (auto simp: accessAddition_ok_def propagatedAtCall_def Let_def fact_ok_def root_ok_def)
  qed
qed

section \<open>Where accesses come from\<close>

definition pendingSummary :: "AccessInputs \<Rightarrow> PendingAccess \<Rightarrow> ParameterizedAccess" where
  "pendingSummary inputs pending =
     \<lparr>pa_root = pe_root pending, pa_fact = (completedFact inputs pending)\<lparr>ac_region := rb_region (pe_root pending), ac_allowCallsiteProjection := True\<rparr>\<rparr>"

definition pendingConcrete :: "AccessInputs \<Rightarrow> PendingAccess \<Rightarrow> AccessFact" where
  "pendingConcrete inputs pending =
     (completedFact inputs pending)\<lparr>ac_symbol := rb_symbol (pe_root pending),
       ac_region := placedInElement (loadOrStoreReachesElementNoThreadHolds inputs pending) (rb_region (pe_root pending)),
       ac_sharedObject := namesObjectSharedWithThread inputs (rb_symbol (pe_root pending))\<rparr>"

definition settled :: "RootBinding \<Rightarrow> bool" where
  "settled root \<longleftrightarrow> rb_kind root = RB_Global \<and> rb_index root = None"

text \<open>An access at an unknown place, in a function some run of which no call starts.\<close>

definition unplacedFact :: "AccessInputs \<Rightarrow> ParameterizedAccess \<Rightarrow> AccessFact" where
  "unplacedFact inputs access =
     (pa_fact access)\<lparr>ac_symbol := rb_symbol (pa_root access), ac_sharedObject := namesObjectSharedWithThread inputs (rb_symbol (pa_root access)),
       ac_allowCallsiteProjection := False\<rparr>"

text \<open>\<open>carried inputs access\<close>: but for its threads, \<open>access\<close> is a collected access that waits on a parameter, or what such an access is at a chain of calls.\<close>

inductive carried :: "AccessInputs \<Rightarrow> ParameterizedAccess \<Rightarrow> bool" for inputs where
  collected: "pending \<in> set (ai_pending inputs) \<Longrightarrow> \<not> pe_restatesCalleeAccesses pending \<Longrightarrow> \<not> settled (pe_root pending) \<Longrightarrow>
    carried inputs (pendingSummary inputs pending)"
| threads: "carried inputs access \<Longrightarrow> carried inputs (access\<lparr>pa_fact := (pa_fact access)\<lparr>ac_liveEntries := live, ac_startedEntries := started\<rparr>\<rparr>)"
| at_call: "carried inputs access \<Longrightarrow> call \<in> set (buildDirectCallBindings inputs) \<Longrightarrow> ac_functionId (pa_fact access) = cb_calleeFunctionId call \<Longrightarrow>
    AddToSummary f access' \<in> set (accessAtCall inputs call access) \<Longrightarrow> carried inputs access'"

text \<open>\<open>made inputs fct\<close>: but for its threads, \<open>fct\<close> is a collected access to a global, a carried one where its place is settled, left open
  or bound to the object of a spawned thread, or the projection of one to a chain of calls.\<close>

inductive made :: "AccessInputs \<Rightarrow> AccessFact \<Rightarrow> bool" for inputs where
  collected: "pending \<in> set (ai_pending inputs) \<Longrightarrow> \<not> pe_restatesCalleeAccesses pending \<Longrightarrow> settled (pe_root pending) \<Longrightarrow>
    made inputs (pendingConcrete inputs pending)"
| threads: "made inputs fct \<Longrightarrow> made inputs (fct\<lparr>ac_liveEntries := live, ac_startedEntries := started\<rparr>)"
| placed: "carried inputs access \<Longrightarrow> call \<in> set (buildDirectCallBindings inputs) \<Longrightarrow> ac_functionId (pa_fact access) = cb_calleeFunctionId call \<Longrightarrow>
    AddConcreteFact fct \<in> set (accessAtCall inputs call access) \<Longrightarrow> made inputs fct"
| unplaced: "carried inputs access \<Longrightarrow> made inputs (unplacedFact inputs access)"
| bound: "carried inputs access \<Longrightarrow> map_of (ai_bindings inputs) (ac_functionId (pa_fact access)) = Some binding \<Longrightarrow> rb_kind (pa_root access) = RB_Argument \<Longrightarrow>
    rb_argumentIndex (pa_root access) = sb_argumentIndex binding \<Longrightarrow> made inputs (boundAccess (ac_functionId (pa_fact access)) binding access)"
| projected: "made inputs fct \<Longrightarrow> call \<in> set (buildDirectCallBindings inputs) \<Longrightarrow> ac_functionId fct = cb_calleeFunctionId call \<Longrightarrow>
    shouldProjectConcreteAccessToCallsite fct (cb_callsiteLocation call) \<Longrightarrow> made inputs (projectedAtCall call fct)"

section \<open>What the loops keep\<close>

definition summary_ok :: "AccessInputs \<Rightarrow> string \<Rightarrow> ParameterizedAccess \<Rightarrow> bool" where
  "summary_ok inputs f access \<longleftrightarrow>
     carried inputs access \<and> ac_functionId (pa_fact access) = f \<and> root_ok inputs (pa_root access) \<and> fact_ok inputs (pa_fact access)"

definition concrete_ok :: "AccessInputs \<Rightarrow> AccessFact \<Rightarrow> bool" where
  "concrete_ok inputs fct \<longleftrightarrow> made inputs fct \<and> fact_ok inputs fct"

definition access_inv :: "AccessInputs \<Rightarrow> AccessState \<Rightarrow> bool" where
  "access_inv inputs st \<longleftrightarrow>
     access_inputs_ok inputs \<and> keyed accessFactKey (st_concrete st) \<and> list_all (concrete_ok inputs) (fst (st_concrete st)) \<and>
     umap_inv (st_summaries st) \<and> (\<forall>f. keyed parameterizedAccessKey (summaryOf (st_summaries st) f)) \<and> (\<forall>f. list_all (summary_ok inputs f) (fst (summaryOf (st_summaries st) f)))"

definition good_addition :: "AccessInputs \<Rightarrow> AccessAddition \<Rightarrow> bool" where
  "good_addition inputs addition =
     (case addition of AddConcreteFact fct \<Rightarrow> concrete_ok inputs fct | AddToSummary f access \<Rightarrow> summary_ok inputs f access)"

definition waitsInSummary :: "AccessInputs \<Rightarrow> string \<Rightarrow> ParameterizedAccess \<Rightarrow> bool" where
  "waitsInSummary inputs f access \<longleftrightarrow>
     rb_kind (pa_root access) \<noteq> RB_Global \<or> f \<in> dc_calleeFunctionId ` set (ai_sites inputs) \<and> f \<notin> ai_threadEntries inputs"

definition kept_access :: "AccessInputs \<Rightarrow> AccessState \<Rightarrow> AccessAddition \<Rightarrow> bool" where
  "kept_access inputs st addition =
     (case addition of
        AddConcreteFact fct \<Rightarrow> access_store.keeps (st_concrete st) fct
      | AddToSummary f access \<Rightarrow>
          if waitsInSummary inputs f access then summary_store.keeps (summaryOf (st_summaries st) f) access
          else access_store.keeps (st_concrete st) (unplacedFact inputs access))"

lemma concrete_ok_merge: "concrete_ok inputs fct \<Longrightarrow> concrete_ok inputs kept \<Longrightarrow> concrete_ok inputs (mergeThreads fct kept)"
  unfolding concrete_ok_def using fact_ok_merge made.threads by (simp add: mergeThreads_def)

lemma summary_ok_merge: "summary_ok inputs f access \<Longrightarrow> summary_ok inputs f kept \<Longrightarrow> summary_ok inputs f (mergeSummary access kept)"
  unfolding summary_ok_def using fact_ok_merge carried.threads by (simp add: mergeSummary_def mergeThreads_def)

lemma unplaced_ok: "summary_ok inputs f access \<Longrightarrow> concrete_ok inputs (unplacedFact inputs access)"
  by (auto simp: summary_ok_def concrete_ok_def unplacedFact_def fact_ok_def root_ok_def intro: made.unplaced [unfolded unplacedFact_def])

lemma addAccess_cases:
  assumes "good_addition inputs b"
  obtains (concrete) fct where "concrete_ok inputs fct" "addAccess inputs b st = (st\<lparr>st_concrete := fst (keepAccess fct (st_concrete st))\<rparr>, False)"
      "\<And>st. kept_access inputs st b \<longleftrightarrow> access_store.keeps (st_concrete st) fct"
  | (summary) f access where "summary_ok inputs f access" "b = AddToSummary f access" "st_concrete (fst (addAccess inputs b st)) = st_concrete st"
      "umap_inv (st_summaries st) \<Longrightarrow> umap_inv (st_summaries (fst (addAccess inputs b st)))"
      "summaryOf (st_summaries (fst (addAccess inputs b st))) = (summaryOf (st_summaries st))(f := fst (keepSummary access (summaryOf (st_summaries st) f)))"
      "snd (addAccess inputs b st) = snd (keepSummary access (summaryOf (st_summaries st) f))"
      "\<And>st. kept_access inputs st b \<longleftrightarrow> summary_store.keeps (summaryOf (st_summaries st) f) access"
proof (cases b)
  case (AddConcreteFact fct)
  then show ?thesis using assms concrete [of fct]
    by (simp add: good_addition_def addAccess_def addConcrete_def addConcreteAccess_keep kept_access_def split_def Let_def)
next
  case (AddToSummary f access)
  then have ok: "summary_ok inputs f access" using assms by (simp add: good_addition_def)
  show ?thesis
  proof (cases "waitsInSummary inputs f access")
    case True
    then have "addAccess inputs b st = (st\<lparr>st_summaries := fst (addParameterizedAccess f access (st_summaries st))\<rparr>, snd (addParameterizedAccess f access (st_summaries st)))"
      by (auto simp: AddToSummary addAccess_def addSummary_def waitsInSummary_def split_def Let_def)
    then show ?thesis using summary [OF ok AddToSummary] True AddToSummary by (simp add: addParameterizedAccess_keep addParameterizedAccess_inv kept_access_def)
  next
    case False
    then have "addAccess inputs b st = (st\<lparr>st_concrete := fst (keepAccess (unplacedFact inputs access) (st_concrete st))\<rparr>, False)"
      by (auto simp: AddToSummary addAccess_def addSummary_def waitsInSummary_def unplacedFact_def addConcrete_def addConcreteAccess_keep split_def Let_def)
    then show ?thesis using concrete [OF unplaced_ok [OF ok]] False AddToSummary by (simp add: kept_access_def)
  qed
qed

lemma keepAccess_ok:
  assumes "keyed accessFactKey st" "list_all (concrete_ok inputs) (fst st)" "concrete_ok inputs fct"
  shows "keyed accessFactKey (fst (keepAccess fct st)) \<and> list_all (concrete_ok inputs) (fst (fst (keepAccess fct st)))"
  using access_store.keep_keyed [OF assms(1)] access_store.keep_all [OF assms(1,2,3)] concrete_ok_merge [OF assms(3)] by blast

lemma keepSummary_ok:
  assumes "keyed parameterizedAccessKey st" "list_all (summary_ok inputs f) (fst st)" "summary_ok inputs f access"
  shows "keyed parameterizedAccessKey (fst (keepSummary access st)) \<and> list_all (summary_ok inputs f) (fst (fst (keepSummary access st)))"
  using summary_store.keep_keyed [OF assms(1)] summary_store.keep_all [OF assms(1,2,3)] summary_ok_merge [OF assms(3)] by blast

lemma access_invD:
  assumes "access_inv inputs st"
  shows "access_inputs_ok inputs" "keyed accessFactKey (st_concrete st)" "list_all (concrete_ok inputs) (fst (st_concrete st))"
    "keyed parameterizedAccessKey (summaryOf (st_summaries st) f)" "list_all (summary_ok inputs f) (fst (summaryOf (st_summaries st) f))"
    "umap_inv (st_summaries st)"
  using assms by (simp_all add: access_inv_def)

lemma addAccess_inv:
  assumes "access_inv inputs st" "good_addition inputs b"
  shows "access_inv inputs (fst (addAccess inputs b st))"
  using assms(2)
proof (cases rule: addAccess_cases [of inputs b st])
  case (concrete fct)
  then show ?thesis using keepAccess_ok [OF access_invD(2,3) [OF assms(1)] concrete(1)] assms(1) by (simp add: access_inv_def)
next
  case (summary f access)
  then show ?thesis using keepSummary_ok [OF access_invD(4,5) [OF assms(1)] summary(1)] assms(1) by (simp add: access_inv_def)
qed

lemma addAccess_keeps:
  assumes "access_inv inputs st" "good_addition inputs b"
  shows "kept_access inputs (fst (addAccess inputs b st)) b" and "kept_access inputs st b' \<Longrightarrow> kept_access inputs (fst (addAccess inputs b st)) b'"
proof -
  note inv = access_invD [OF assms(1)]
  have "kept_access inputs (fst (addAccess inputs b st)) b \<and> (kept_access inputs st b' \<longrightarrow> kept_access inputs (fst (addAccess inputs b st)) b')"
    using assms(2)
  proof (cases rule: addAccess_cases [of inputs b st])
    case (concrete fct)
    then show ?thesis using access_store.keep_keeps [OF inv(2)] access_store.keep_mono [OF inv(2)]
      by (auto simp: kept_access_def split: AccessAddition.splits)
  next
    case (summary f access)
    have one: "kept_access inputs (fst (addAccess inputs b st)) b" using summary_store.keep_keeps [OF inv(4)] summary(5,7) by simp
    have "summary_store.keeps (summaryOf (st_summaries (fst (addAccess inputs b st))) g) x" if "summary_store.keeps (summaryOf (st_summaries st) g) x" for g x
      using that summary(5) summary_store.keep_mono [OF inv(4) [of f], of x access] by (cases "g = f") simp_all
    then show ?thesis using one summary(3) by (auto simp: kept_access_def split: AccessAddition.splits)
  qed
  then show "kept_access inputs (fst (addAccess inputs b st)) b" and "kept_access inputs st b' \<Longrightarrow> kept_access inputs (fst (addAccess inputs b st)) b'" by blast+
qed

definition summary_weight :: "AccessInputs \<Rightarrow> AccessState \<Rightarrow> nat" where
  "summary_weight inputs st = summary_store.family_weight (accessFunctions inputs) (summaryOf (st_summaries st))"

lemma accessFunctions_finite: "finite (accessFunctions inputs)"
  by (simp add: accessFunctions_def sourceFacts_def)

lemma summary_ok_fin: "access_inputs_ok inputs \<Longrightarrow> list_all (summary_ok inputs f) xs \<Longrightarrow> list_all (\<lambda>access. finite_access_threads (pa_fact access)) xs"
  using fact_ok_fin by (auto simp: list_all_iff summary_ok_def)

lemma addAccess_weight:
  assumes "access_inv inputs st" "good_addition inputs b"
  shows "snd (addAccess inputs b st) \<Longrightarrow> summary_weight inputs st < summary_weight inputs (fst (addAccess inputs b st))"
    and "\<not> snd (addAccess inputs b st) \<Longrightarrow> summary_weight inputs (fst (addAccess inputs b st)) = summary_weight inputs st \<and>
      calleeSummary (fst (addAccess inputs b st)) = calleeSummary st"
proof -
  note inv = access_invD [OF assms(1)]
  have "(snd (addAccess inputs b st) \<longrightarrow> summary_weight inputs st < summary_weight inputs (fst (addAccess inputs b st))) \<and>
    (\<not> snd (addAccess inputs b st) \<longrightarrow> summary_weight inputs (fst (addAccess inputs b st)) = summary_weight inputs st \<and>
      calleeSummary (fst (addAccess inputs b st)) = calleeSummary st)"
    using assms(2)
  proof (cases rule: addAccess_cases [of inputs b st])
    case (concrete fct)
    then show ?thesis by (simp add: summary_weight_def calleeSummary_def fun_eq_iff)
  next
    case (summary f access)
    have f: "f \<in> accessFunctions inputs" and fin: "finite_access_threads (pa_fact access)"
      using summary(1) fact_ok_fin [OF inv(1)] by (auto simp: summary_ok_def fact_ok_def)
    note keep = summary_store.family_keep [where stores = "summaryOf (st_summaries st)" and f = f, OF accessFunctions_finite f inv(4) summary_ok_fin [OF inv(1,5)] fin]
    show ?thesis
    proof (cases "snd (addAccess inputs b st)")
      case True
      then show ?thesis using keep(1) summary(6) unfolding summary_weight_def summary(5) by simp
    next
      case False
      then have same: "summaryOf (st_summaries (fst (addAccess inputs b st))) = summaryOf (st_summaries st)" using keep(2) summary(6) unfolding summary(5) by simp
      then have "calleeSummary (fst (addAccess inputs b st)) = calleeSummary st" by (intro ext) (simp add: calleeSummary_def)
      then show ?thesis using False same by (simp add: summary_weight_def)
    qed
  qed
  then show "snd (addAccess inputs b st) \<Longrightarrow> summary_weight inputs st < summary_weight inputs (fst (addAccess inputs b st))"
    and "\<not> snd (addAccess inputs b st) \<Longrightarrow> summary_weight inputs (fst (addAccess inputs b st)) = summary_weight inputs st \<and>
      calleeSummary (fst (addAccess inputs b st)) = calleeSummary st" by blast+
qed

lemma fact_ok_threads: "access_inputs_ok inputs \<Longrightarrow> fact_ok inputs fct \<Longrightarrow> access_threads fct \<le> card (accessEntries inputs) + card (accessEntries inputs)"
  using accessEntries_finite [of inputs] by (auto simp: fact_ok_def access_threads_def intro!: add_mono card_mono)

definition summary_bound :: "AccessInputs \<Rightarrow> nat" where
  "summary_bound inputs =
     card (accessFunctions inputs) * (card (possibleSummaryKeys inputs) * Suc (card (accessEntries inputs) + card (accessEntries inputs)))"

lemma summary_weight_bounded:
  assumes "access_inv inputs st"
  shows "summary_weight inputs st \<le> summary_bound inputs"
  unfolding summary_weight_def summary_bound_def
proof (rule summary_store.family_bounded)
  note inv = access_invD [OF assms]
  show "finite (possibleSummaryKeys inputs)" by (rule possibleSummaryKeys_finite [OF inv(1)])
  show "keyed parameterizedAccessKey (summaryOf (st_summaries st) f)" for f by (rule inv(4))
  show "parameterizedAccessKey ` set (fst (summaryOf (st_summaries st) f)) \<subseteq> possibleSummaryKeys inputs" for f
    using inv(5) [of f] summary_ok_key by (auto simp: list_all_iff summary_ok_def)
  show "list_all (\<lambda>access. access_threads (pa_fact access) \<le> card (accessEntries inputs) + card (accessEntries inputs)) (fst (summaryOf (st_summaries st) f))" for f
    using inv(5) [of f] fact_ok_threads [OF inv(1)] by (auto simp: list_all_iff summary_ok_def)
qed

lemma accessAtCall_good:
  assumes "call \<in> callsOf inputs" "summary_ok inputs (cb_calleeFunctionId call) access" "b \<in> set (accessAtCall inputs call access)"
  shows "good_addition inputs b"
proof -
  have ok: "accessAddition_ok inputs b" using assms by (intro accessAtCall_ok [OF assms(1) _ _ assms(3)]) (simp_all add: summary_ok_def)
  have access: "carried inputs access" "ac_functionId (pa_fact access) = cb_calleeFunctionId call" using assms(2) by (simp_all add: summary_ok_def)
  show ?thesis
  proof (cases b)
    case (AddConcreteFact fct)
    then show ?thesis using ok made.placed [OF access(1) assms(1) access(2)] assms(3) by (simp add: good_addition_def accessAddition_ok_def concrete_ok_def)
  next
    case (AddToSummary f access')
    then show ?thesis using ok carried.at_call [OF access(1) assms(1) access(2)] assms(3) by (auto simp: good_addition_def accessAddition_ok_def summary_ok_def)
  qed
qed

interpretation carried_accesses: call_spread calleeSummary "\<lambda>call access. Inr (accessAtCall inputs call access) :: unit + AccessAddition list" "addAccess inputs"
  "buildDirectCallBindings inputs" "access_inv inputs" "\<lambda>call access. summary_ok inputs (cb_calleeFunctionId call) access" "good_addition inputs"
  "kept_access inputs" "summary_weight inputs" "summary_bound inputs"
  for inputs
proof unfold_locales
  fix st call access assume "access_inv inputs st" "access \<in> set (calleeSummary st call)"
  then show "summary_ok inputs (cb_calleeFunctionId call) access" using access_invD(5) by (auto simp: calleeSummary_def list_all_iff)
next
  fix call access bs b assume "call \<in> callsOf inputs" "summary_ok inputs (cb_calleeFunctionId call) access"
    "(Inr (accessAtCall inputs call access) :: unit + AccessAddition list) = Inr bs" "b \<in> set bs"
  then show "good_addition inputs b" using accessAtCall_good by simp
next
  fix st b assume st: "access_inv inputs st" "good_addition inputs b"
  show "access_inv inputs (fst (addAccess inputs b st))" by (rule addAccess_inv [OF st])
  show "summary_weight inputs st < summary_weight inputs (fst (addAccess inputs b st))" if "snd (addAccess inputs b st)" by (rule addAccess_weight(1) [OF st that])
  show "summary_weight inputs (fst (addAccess inputs b st)) = summary_weight inputs st \<and> calleeSummary (fst (addAccess inputs b st)) = calleeSummary st"
    if "\<not> snd (addAccess inputs b st)" by (rule addAccess_weight(2) [OF st that])
  show "kept_access inputs (fst (addAccess inputs b st)) b" by (rule addAccess_keeps(1) [OF st])
  show "kept_access inputs (fst (addAccess inputs b st)) b'" if "kept_access inputs st b'" for b' by (rule addAccess_keeps(2) [OF st that])
next
  fix st assume "access_inv inputs st"
  then show "summary_weight inputs st \<le> summary_bound inputs" by (rule summary_weight_bounded)
qed

section \<open>The collected accesses\<close>

definition pendingAddition :: "AccessInputs \<Rightarrow> PendingAccess \<Rightarrow> AccessAddition" where
  "pendingAddition inputs pending =
     (if settled (pe_root pending) then AddConcreteFact (pendingConcrete inputs pending)
      else AddToSummary (ac_functionId (completedFact inputs pending)) (pendingSummary inputs pending))"

lemma addPending_addition:
  "addPending inputs pending st = (if pe_restatesCalleeAccesses pending then st else fst (addAccess inputs (pendingAddition inputs pending) st))"
  by (simp add: addPending_def pendingAddition_def settled_def addAccess_def pendingConcrete_def pendingSummary_def Let_def)

lemma pending_ok:
  assumes "pending \<in> set (ai_pending inputs)"
  shows "root_ok inputs (pe_root pending)" "fact_ok inputs ((completedFact inputs pending)\<lparr>ac_region := rb_region (pe_root pending), ac_allowCallsiteProjection := True\<rparr>)"
    "fact_ok inputs (pendingConcrete inputs pending)"
proof -
  let ?fct = "completedFact inputs pending" and ?root = "pe_root pending"
  have src: "?fct \<in> sourceFacts inputs" "?root \<in> accessRoots inputs" using assms by (simp_all add: sourceFacts_def accessRoots_def)
  have region: "rb_region ?root \<in> accessRegions inputs" using src(2) unfolding accessRegions_def elementEntries_def by blast
  have index: "rb_index ?root \<in> accessIndexes inputs"
  proof (cases "rb_index ?root")
    case (Some i)
    then have "li_parameter i \<in> indexParameters inputs" using src(2) unfolding indexParameters_def by force
    then show ?thesis using Some by (simp add: accessIndexes_def)
  qed (simp add: accessIndexes_def)
  show root: "root_ok inputs ?root" using src(2) region index by (simp add: root_ok_def accessSymbols_def)
  have locks: "ac_heldLocks ?fct \<subseteq> accessLocks inputs" and threads: "ac_liveEntries ?fct \<subseteq> accessEntries inputs" "ac_startedEntries ?fct \<subseteq> accessEntries inputs"
    using src(1) unfolding accessLocks_def accessEntries_def by blast+
  have fields: "ac_functionId ?fct \<in> accessFunctions inputs" "ac_symbol ?fct \<in> accessSymbols inputs" "rb_symbol ?root \<in> accessSymbols inputs" "ac_instanceOwner ?fct \<in> accessOwners inputs"
    using src by (simp_all add: accessFunctions_def accessSymbols_def accessOwners_def)
  show "fact_ok inputs (?fct\<lparr>ac_region := rb_region ?root, ac_allowCallsiteProjection := True\<rparr>)"
    using src(1) region locks threads fields by (simp add: fact_ok_def)
  have "placedInElement (loadOrStoreReachesElementNoThreadHolds inputs pending) (rb_region ?root) \<in> accessRegions inputs"
    using region placedInElement_ok [OF region] by (cases "vw_loadStoreSize (ai_view inputs) (pe_instruction pending)")
      (auto simp: loadOrStoreReachesElementNoThreadHolds_def placedInElement_def)
  then show "fact_ok inputs (pendingConcrete inputs pending)" using src(1) locks threads fields by (simp add: fact_ok_def pendingConcrete_def)
qed

lemma pendingAddition_good:
  assumes "pending \<in> set (ai_pending inputs)" "\<not> pe_restatesCalleeAccesses pending"
  shows "good_addition inputs (pendingAddition inputs pending)"
proof (cases "settled (pe_root pending)")
  case True
  then show ?thesis using pending_ok(3) [OF assms(1)] made.collected [OF assms True] by (simp add: good_addition_def pendingAddition_def concrete_ok_def)
next
  case False
  then show ?thesis using pending_ok(1,2) [OF assms(1)] carried.collected [OF assms False]
    by (simp add: good_addition_def pendingAddition_def summary_ok_def) (simp add: pendingSummary_def)
qed

definition collectedAccesses :: "AccessInputs \<Rightarrow> AccessState" where
  "collectedAccesses inputs = fold (addPending inputs) (ai_pending inputs) noAccesses"

lemma collected_inv:
  assumes "access_inputs_ok inputs"
  shows "access_inv inputs (collectedAccesses inputs)"
    and "pending \<in> set (ai_pending inputs) \<Longrightarrow> \<not> pe_restatesCalleeAccesses pending \<Longrightarrow> kept_access inputs (collectedAccesses inputs) (pendingAddition inputs pending)"
proof -
  have step: "access_inv inputs (addPending inputs p st)" "kept_access inputs st b \<Longrightarrow> kept_access inputs (addPending inputs p st) b"
      "\<not> pe_restatesCalleeAccesses p \<Longrightarrow> kept_access inputs (addPending inputs p st) (pendingAddition inputs p)"
    if "p \<in> set (ai_pending inputs)" "access_inv inputs st" for p st b
    using that pendingAddition_good [of p inputs] addAccess_inv [OF that(2)] addAccess_keeps [OF that(2)] by (auto simp: addPending_addition)
  have "access_inv inputs (fold (addPending inputs) ps st) \<and> (\<forall>b. kept_access inputs st b \<longrightarrow> kept_access inputs (fold (addPending inputs) ps st) b) \<and>
      (\<forall>p \<in> set ps. \<not> pe_restatesCalleeAccesses p \<longrightarrow> kept_access inputs (fold (addPending inputs) ps st) (pendingAddition inputs p))"
    if "set ps \<subseteq> set (ai_pending inputs)" "access_inv inputs st" for ps st
    using that
  proof (induction ps arbitrary: st)
    case (Cons p ps)
    have p: "p \<in> set (ai_pending inputs)" and ps: "set ps \<subseteq> set (ai_pending inputs)" using Cons.prems(1) by simp_all
    show ?case using Cons.IH [OF ps step(1) [OF p Cons.prems(2)]] step(2,3) [OF p Cons.prems(2)] by simp
  qed simp
  moreover have "access_inv inputs noAccesses" using assms by (simp add: access_inv_def noAccesses_def summaryOf_def umap_inv_def)
  ultimately show "access_inv inputs (collectedAccesses inputs)"
    and "pending \<in> set (ai_pending inputs) \<Longrightarrow> \<not> pe_restatesCalleeAccesses pending \<Longrightarrow> kept_access inputs (collectedAccesses inputs) (pendingAddition inputs pending)"
    unfolding collectedAccesses_def by blast+
qed

section \<open>Accesses of spawned threads and projections\<close>

lemma locksOnSharedObject_ok:
  assumes "(entry, binding) \<in> set (ai_bindings inputs)" "locks \<subseteq> accessLocks inputs"
  shows "locksOnSharedObject locks binding \<subseteq> accessLocks inputs"
proof
  fix l assume "l \<in> locksOnSharedObject locks binding"
  then consider "l \<in> locks" | lockId place where "placeOf lockId = Some place" "l = lockIdAt (sb_object binding) (pl_place place)"
    by (auto simp: locksOnSharedObject_def split: option.splits)
  then show "l \<in> accessLocks inputs"
  proof cases
    case 2
    have "sb_object binding \<in> boundObjects inputs" unfolding boundObjects_def using assms(1) by force
    then have "l \<in> (\<lambda>(object, place). lockIdAt object place) ` ((passedRoots inputs \<union> boundObjects inputs) \<times> lockPlaces)"
      using 2(2) placeOf_places [OF 2(1)] by (intro image_eqI [of _ _ "(sb_object binding, pl_place place)"]) auto
    then show ?thesis unfolding accessLocks_def by blast
  qed (use assms(2) in blast)
qed

lemma boundAccess_ok:
  assumes "summary_ok inputs entry access" "map_of (ai_bindings inputs) entry = Some binding" "rb_kind (pa_root access) = RB_Argument"
    "rb_argumentIndex (pa_root access) = sb_argumentIndex binding"
  shows "concrete_ok inputs (boundAccess entry binding access)"
proof -
  have access: "carried inputs access" "ac_functionId (pa_fact access) = entry" "root_ok inputs (pa_root access)" "fact_ok inputs (pa_fact access)"
    using assms(1) by (simp_all add: summary_ok_def)
  have binding: "(entry, binding) \<in> set (ai_bindings inputs)" by (rule map_of_SomeD [OF assms(2)])
  then have object: "sb_object binding \<in> accessRoots inputs" and entry: "entry \<in> fst ` set (ai_bindings inputs)"
    by (force simp: accessRoots_def boundObjects_def)+
  define region where "region = rebasedOn (rb_region (pa_root access)) (rb_region (sb_object binding)) (rb_designated (sb_object binding))"
  have region: "region \<in> accessRegions inputs" unfolding region_def using rebased_ok [OF _ object] access(3) by (simp add: root_ok_def)
  have entries: "entry \<in> elementEntries inputs" using entry unfolding elementEntries_def by (rule UnI2)
  have "(if sb_elementPerThread binding then placeInElement EO_AccessingThread entry region else region) \<in> accessRegions inputs"
    using region entries by (simp add: placeInElement_def accessRegions_def)
  then have "fact_ok inputs (boundAccess entry binding access)"
    using access(4) locksOnSharedObject_ok [OF binding, of "ac_heldLocks (pa_fact access)"] object entry
    unfolding boundAccess_def region_def [symmetric] Let_def by (simp add: fact_ok_def accessSymbols_def accessOwners_def)
  then show ?thesis using made.bound [OF access(1), of binding] assms(2-4) access(2) by (simp add: concrete_ok_def)
qed

lemma projectedAtCall_ok:
  assumes "concrete_ok inputs fct" "call \<in> callsOf inputs" "ac_functionId fct = cb_calleeFunctionId call"
    "shouldProjectConcreteAccessToCallsite fct (cb_callsiteLocation call)"
  shows "concrete_ok inputs (projectedAtCall call fct)"
proof -
  have fct: "made inputs fct" "fact_ok inputs fct" using assms(1) by (simp_all add: concrete_ok_def)
  obtain live started where through: "threadsThroughCall (ac_liveEntries fct) (ac_startedEntries fct) (cb_liveAtCall call) (cb_startedAtCall call) = (live, started)" by fastforce
  have "live \<subseteq> accessEntries inputs" "started \<subseteq> accessEntries inputs" using threadsThroughCall_sub [OF through] fct(2) by (auto simp: fact_ok_def)
  then have "fact_ok inputs (projectedAtCall call fct)"
    using fct(2) locksAtCallSite_ok [OF assms(2), of "ac_heldLocks fct"] assms(2) through
    by (simp add: projectedAtCall_def Let_def fact_ok_def accessFunctions_def accessOwners_def)
  then show ?thesis using made.projected [OF fct(1) assms(2-4)] by (simp add: concrete_ok_def)
qed

lemma projections_ok:
  assumes "list_all (concrete_ok inputs) accesses" "fct \<in> set (projections (buildDirectCallBindings inputs) accesses)"
  shows "concrete_ok inputs fct"
proof -
  obtain call access where "call \<in> callsOf inputs" "access \<in> set accesses" "ac_functionId access = cb_calleeFunctionId call"
      "shouldProjectConcreteAccessToCallsite access (cb_callsiteLocation call)" "fct = projectedAtCall call access"
    using assms(2) by (auto simp: projections_def split: if_splits)
  then show ?thesis using projectedAtCall_ok assms(1) by (simp add: list_all_iff)
qed

definition concrete_inv :: "AccessInputs \<Rightarrow> AccessFact store \<Rightarrow> bool" where
  "concrete_inv inputs st \<longleftrightarrow> access_inputs_ok inputs \<and> keyed accessFactKey st \<and> list_all (concrete_ok inputs) (fst st)"

lemma concrete_inv_fin: "concrete_inv inputs st \<Longrightarrow> list_all finite_access_threads (fst st)"
  using fact_ok_fin by (auto simp: concrete_inv_def concrete_ok_def list_all_iff)

lemma concrete_inv_keep:
  assumes "concrete_inv inputs st" "concrete_ok inputs fct"
  shows "concrete_inv inputs (fst (keepAccess fct st))" "access_store.keeps (fst (keepAccess fct st)) fct"
    "access_store.keeps st x \<Longrightarrow> access_store.keeps (fst (keepAccess fct st)) x"
    "snd (keepAccess fct st) \<Longrightarrow> access_store.store_weight st < access_store.store_weight (fst (keepAccess fct st))"
    "\<not> snd (keepAccess fct st) \<Longrightarrow> fst (keepAccess fct st) = st"
proof -
  have st: "access_inputs_ok inputs" "keyed accessFactKey st" "list_all (concrete_ok inputs) (fst st)" using assms(1) by (simp_all add: concrete_inv_def)
  have fin: "finite_access_threads fct" using fact_ok_fin [OF st(1)] assms(2) by (simp add: concrete_ok_def)
  show "concrete_inv inputs (fst (keepAccess fct st))" using keepAccess_ok [OF st(2,3) assms(2)] st(1) by (simp add: concrete_inv_def)
  show "access_store.keeps (fst (keepAccess fct st)) fct" by (rule access_store.keep_keeps [OF st(2)])
  show "access_store.keeps st x \<Longrightarrow> access_store.keeps (fst (keepAccess fct st)) x" by (rule access_store.keep_mono [OF st(2)])
  show "snd (keepAccess fct st) \<Longrightarrow> access_store.store_weight st < access_store.store_weight (fst (keepAccess fct st))"
    "\<not> snd (keepAccess fct st) \<Longrightarrow> fst (keepAccess fct st) = st" by (rule access_store.keep_weight [OF st(2) concrete_inv_fin [OF assms(1)] fin]; assumption)+
qed

text \<open>One round of additions: what is added is kept, and without a change the store is as before.\<close>

lemma keepRound:
  assumes "concrete_inv inputs st" "list_all (concrete_ok inputs) facts"
  shows "\<exists>st' c'. fold (addInstance keepAccess) facts (st, c) = (st', c') \<and> concrete_inv inputs st' \<and> list_all (access_store.keeps st') facts \<and>
    (\<forall>x. access_store.keeps st x \<longrightarrow> access_store.keeps st' x) \<and> access_store.store_weight st \<le> access_store.store_weight st' \<and>
    (c' \<longrightarrow> c \<or> access_store.store_weight st < access_store.store_weight st') \<and> (\<not> c' \<longrightarrow> st' = st)"
  using assms
proof (induction facts arbitrary: st c)
  case (Cons fct facts)
  note keep = concrete_inv_keep [OF Cons.prems(1), of fct]
  have ok: "concrete_ok inputs fct" "list_all (concrete_ok inputs) facts" using Cons.prems(2) by simp_all
  obtain st1 c1 where one: "keepAccess fct st = (st1, c1)" by fastforce
  have first: "addInstance keepAccess fct (st, c) = (st1, c1 \<or> c)" by (simp add: addInstance_def one)
  obtain st' c' where rest: "fold (addInstance keepAccess) facts (st1, c1 \<or> c) = (st', c')" "concrete_inv inputs st'" "list_all (access_store.keeps st') facts"
      "\<forall>x. access_store.keeps st1 x \<longrightarrow> access_store.keeps st' x" "access_store.store_weight st1 \<le> access_store.store_weight st'"
      "c' \<longrightarrow> (c1 \<or> c) \<or> access_store.store_weight st1 < access_store.store_weight st'" "\<not> c' \<longrightarrow> st' = st1"
    using Cons.IH [OF _ ok(2), of st1 "c1 \<or> c"] keep(1) [OF ok(1)] one by auto
  have mono: "\<not> c1 \<Longrightarrow> st1 = st" "c1 \<Longrightarrow> access_store.store_weight st < access_store.store_weight st1" using keep(4,5) [OF ok(1)] one by auto
  have "c'" if changed: "c1"
  proof -
    have "snd (fold (addInstance keepAccess) facts (st0, True))" for st0
      by (induction facts arbitrary: st0) (simp_all add: addInstance_def split: prod.splits)
    then have "snd (fold (addInstance keepAccess) facts (st1, c1 \<or> c))" using changed by simp
    then show ?thesis using rest(1) by simp
  qed
  moreover have "access_store.keeps st' fct" "\<And>x. access_store.keeps st x \<Longrightarrow> access_store.keeps st' x"
    using keep(2,3) [OF ok(1)] one rest(4) by auto
  ultimately show ?case using first rest mono by (cases c1) auto
qed simp

lemma concrete_inv_bounded:
  assumes "concrete_inv inputs st"
  shows "access_store.store_weight st \<le> card (possibleAccessKeys inputs) * Suc (card (accessEntries inputs) + card (accessEntries inputs))"
proof (rule access_store.store_bounded)
  have st: "access_inputs_ok inputs" "list_all (concrete_ok inputs) (fst st)" using assms by (simp_all add: concrete_inv_def)
  show "accessFactKey ` set (fst st) \<subseteq> possibleAccessKeys inputs" using st(2) fact_ok_key by (auto simp: list_all_iff concrete_ok_def)
  show "list_all (\<lambda>x. access_threads x \<le> card (accessEntries inputs) + card (accessEntries inputs)) (fst st)"
    using st fact_ok_threads [OF st(1)] by (auto simp: list_all_iff concrete_ok_def)
  show "finite (possibleAccessKeys inputs)" by (rule possibleAccessKeys_finite [OF st(1)])
qed (use assms in \<open>simp add: concrete_inv_def\<close>)

lemma projectLoop_closes:
  assumes "concrete_inv inputs st"
  shows "\<exists>st'. projectLoop (buildDirectCallBindings inputs) st = Some st' \<and> concrete_inv inputs st' \<and> (\<forall>x. access_store.keeps st x \<longrightarrow> access_store.keeps st' x) \<and>
    list_all (access_store.keeps st') (projections (buildDirectCallBindings inputs) (fst st'))"
  using assms
proof (induction "card (possibleAccessKeys inputs) * Suc (card (accessEntries inputs) + card (accessEntries inputs)) - access_store.store_weight st"
    arbitrary: st rule: less_induct)
  case less
  let ?C = "buildDirectCallBindings inputs"
  have ok: "list_all (concrete_ok inputs) (projections ?C (fst st))"
    using projections_ok [of inputs "fst st"] less.prems by (auto simp: list_all_iff concrete_inv_def)
  obtain st1 c where round: "fold (addInstance keepAccess) (projections ?C (fst st)) (st, False) = (st1, c)" "concrete_inv inputs st1"
      "list_all (access_store.keeps st1) (projections ?C (fst st))" "\<forall>x. access_store.keeps st x \<longrightarrow> access_store.keeps st1 x"
      "c \<longrightarrow> access_store.store_weight st < access_store.store_weight st1" "\<not> c \<longrightarrow> st1 = st"
    using keepRound [OF less.prems ok, of False] by auto
  have unfolded: "projectLoop ?C st = (if c then projectLoop ?C st1 else Some st1)"
    by (subst projectLoop.simps) (simp add: addConcreteAccess_keep round(1))
  show ?case
  proof (cases c)
    case True
    let ?B = "card (possibleAccessKeys inputs) * Suc (card (accessEntries inputs) + card (accessEntries inputs))"
    have "access_store.store_weight st < access_store.store_weight st1" using round(5) True by blast
    moreover have "access_store.store_weight st1 \<le> ?B" by (rule concrete_inv_bounded [OF round(2)])
    ultimately have "?B - access_store.store_weight st1 < ?B - access_store.store_weight st" by (intro diff_less_mono2) simp_all
    from less.hyps [OF this round(2)] show ?thesis using True round(4) unfolding unfolded by auto
  next
    case False
    then show ?thesis using unfolded round less.prems by auto
  qed
qed

lemma bindSpawned_spec:
  assumes "access_inv inputs st" "set (arrange (st_summaries st)) = set (st_summaries st)"
  shows "concrete_inv inputs (st_concrete (bindSpawned arrange inputs st))"
    and "access_store.keeps (st_concrete st) x \<Longrightarrow> access_store.keeps (st_concrete (bindSpawned arrange inputs st)) x"
    and "entrySummary \<in> set (st_summaries st) \<Longrightarrow> list_all (access_store.keeps (st_concrete (bindSpawned arrange inputs st))) (boundAccesses inputs entrySummary)"
proof -
  let ?facts = "concat (map (boundAccesses inputs) (arrange (st_summaries st)))"
  have ok: "list_all (concrete_ok inputs) ?facts"
  proof -
    have "concrete_ok inputs fct" if bound: "fct \<in> set (boundAccesses inputs (entry, summary))" and summary: "(entry, summary) \<in> set (st_summaries st)" for entry summary fct
    proof -
      have "map_of (st_summaries st) entry = Some summary" using summary access_invD(6) [OF assms(1)] by (simp add: umap_inv_def)
      then have "list_all (summary_ok inputs entry) (fst summary)" using access_invD(5) [OF assms(1), of entry] by (simp add: summaryOf_def)
      then show ?thesis using bound boundAccess_ok by (auto simp: boundAccesses_def list_all_iff split: option.splits)
    qed
    then show ?thesis using assms(2) by (auto simp: list_all_iff)
  qed
  have "st_concrete (fold (\<lambda>fct st. fst (addConcrete fct st)) facts st) = fst (fold (addInstance keepAccess) facts (st_concrete st, c))" for facts st c
  proof (induction facts arbitrary: st c)
    case (Cons fct facts)
    show ?case using Cons.IH [of "fst (addConcrete fct st)" "snd (keepAccess fct (st_concrete st)) \<or> c"]
      by (simp add: addConcrete_def addConcreteAccess_keep addInstance_def split_def Let_def)
  qed simp
  then have run: "st_concrete (bindSpawned arrange inputs st) = fst (fold (addInstance keepAccess) ?facts (st_concrete st, False))" unfolding bindSpawned_def by blast
  have "concrete_inv inputs (st_concrete st)" using assms(1) by (simp add: access_inv_def concrete_inv_def)
  from keepRound [OF this ok, of False] obtain st' c where r: "fold (addInstance keepAccess) ?facts (st_concrete st, False) = (st', c)" "concrete_inv inputs st'"
      "list_all (access_store.keeps st') ?facts" "\<forall>x. access_store.keeps (st_concrete st) x \<longrightarrow> access_store.keeps st' x" by blast
  show "concrete_inv inputs (st_concrete (bindSpawned arrange inputs st))"
    and "access_store.keeps (st_concrete st) x \<Longrightarrow> access_store.keeps (st_concrete (bindSpawned arrange inputs st)) x"
    using r run by simp_all
  show "list_all (access_store.keeps (st_concrete (bindSpawned arrange inputs st))) (boundAccesses inputs entrySummary)" if "entrySummary \<in> set (st_summaries st)"
    using r(1,3) that assms(2) unfolding run by (auto simp: list_all_iff)
qed

text \<open>An access left out in favour of a projected one has one in the result that it gives way to.\<close>

lemma filter_prefers:
  assumes "access \<in> set accesses"
  shows "access \<in> set (filterProjectedConcreteAccesses accesses) \<or>
    (\<exists>projected \<in> set (filterProjectedConcreteAccesses accesses). hasDistinctUserLocation projected \<and>
       projectedAccessPreferenceKey projected = projectedAccessPreferenceKey access)"
  using assms by (auto simp: filterProjectedConcreteAccesses_def Let_def)

section \<open>The accesses of a unit\<close>

text \<open>\<open>accounted_for\<close>: what an access stands for is kept, in the summaries or among the concrete accesses.\<close>

definition accounted_for :: "AccessInputs \<Rightarrow> AccessState \<Rightarrow> AccessFact store \<Rightarrow> AccessAddition \<Rightarrow> bool" where
  "accounted_for inputs st concrete = kept_access inputs (st\<lparr>st_concrete := concrete\<rparr>)"

text \<open>
  C4: The accesses of a unit are built: both loops over the calls end. The concrete accesses they end with have different keys, and each is, but for the threads
  beside it, a collected access or what one is at a chain of calls, on the object of a spawned thread, or projected to a chain of calls. None is
  missed: every collected access that restates no callee's is kept, with its threads, and so is what every access waiting on a parameter stands for at
  each call of its function and on the object of its spawned thread, and every projection to a call. The result leaves out
  accesses only in favour of a projected one with the same place, kind, source and locks, and locks that no call could name.
\<close>

theorem accesses_built:
  assumes "access_inputs_ok inputs" "\<And>summaries. set (arrange summaries) = set summaries"
  shows "\<exists>st concrete. carryAccesses inputs (buildDirectCallBindings inputs) (collectedAccesses inputs) = Some (Inr st) \<and>
    projectLoop (buildDirectCallBindings inputs) (st_concrete (bindSpawned arrange inputs st)) = Some concrete \<and>
    buildAccesses arrange inputs = Some (Inr (map dropParameterLocks (filterProjectedConcreteAccesses (fst concrete)))) \<and>
    distinct (map accessFactKey (fst concrete)) \<and> list_all (made inputs) (fst concrete) \<and>
    list_all (\<lambda>pending. pe_restatesCalleeAccesses pending \<or> accounted_for inputs st concrete (pendingAddition inputs pending)) (ai_pending inputs) \<and>
    list_all (\<lambda>call. list_all (\<lambda>access. list_all (accounted_for inputs st concrete) (accessAtCall inputs call access)) (calleeSummary st call))
      (buildDirectCallBindings inputs) \<and>
    list_all (\<lambda>entrySummary. list_all (access_store.keeps concrete) (boundAccesses inputs entrySummary)) (st_summaries st) \<and>
    list_all (access_store.keeps concrete) (projections (buildDirectCallBindings inputs) (fst concrete)) \<and>
    list_all (\<lambda>access. access \<in> set (filterProjectedConcreteAccesses (fst concrete)) \<or>
      (\<exists>projected \<in> set (filterProjectedConcreteAccesses (fst concrete)). hasDistinctUserLocation projected \<and>
         projectedAccessPreferenceKey projected = projectedAccessPreferenceKey access)) (fst concrete)"
proof -
  let ?C = "buildDirectCallBindings inputs"
  note start = collected_inv [OF assms(1)]
  have "\<exists>st. carryAccesses inputs ?C (collectedAccesses inputs) = Some (Inr st) \<and> access_inv inputs st \<and>
      (\<forall>b. kept_access inputs (collectedAccesses inputs) b \<longrightarrow> kept_access inputs st b) \<and>
      (\<forall>call \<in> set ?C. \<forall>access \<in> set (calleeSummary st call). \<forall>b \<in> set (accessAtCall inputs call access). kept_access inputs st b)"
  proof -
    obtain r where "carryAccesses inputs ?C (collectedAccesses inputs) = Some r" and "case r of
         Inl e \<Rightarrow> \<exists>call \<in> set ?C. \<exists>access e. summary_ok inputs (cb_calleeFunctionId call) access \<and> (Inr (accessAtCall inputs call access) :: unit + AccessAddition list) = Inl e
       | Inr st \<Rightarrow> access_inv inputs st \<and> (\<forall>b. kept_access inputs (collectedAccesses inputs) b \<longrightarrow> kept_access inputs st b) \<and>
           (\<forall>call \<in> set ?C. \<forall>access \<in> set (calleeSummary st call).
              \<exists>bs. (Inr (accessAtCall inputs call access) :: unit + AccessAddition list) = Inr bs \<and> (\<forall>b \<in> set bs. kept_access inputs st b))"
      using carried_accesses.spreadLoop_closes [OF start(1)] unfolding carryAccesses_def carried_accesses.throwing_def carried_accesses.covers_def by blast
    then show ?thesis by (cases r) auto
  qed
  then obtain st where run: "carryAccesses inputs ?C (collectedAccesses inputs) = Some (Inr st)" and st: "access_inv inputs st"
      "\<And>b. kept_access inputs (collectedAccesses inputs) b \<Longrightarrow> kept_access inputs st b"
      "\<And>call access b. call \<in> set ?C \<Longrightarrow> access \<in> set (calleeSummary st call) \<Longrightarrow> b \<in> set (accessAtCall inputs call access) \<Longrightarrow> kept_access inputs st b"
    by blast
  note bound = bindSpawned_spec [where arrange = arrange, OF st(1) assms(2)]
  obtain concrete where proj: "projectLoop ?C (st_concrete (bindSpawned arrange inputs st)) = Some concrete" "concrete_inv inputs concrete"
      "\<And>x. access_store.keeps (st_concrete (bindSpawned arrange inputs st)) x \<Longrightarrow> access_store.keeps concrete x"
      "list_all (access_store.keeps concrete) (projections ?C (fst concrete))" using projectLoop_closes [OF bound(1)] by blast
  have keep: "accounted_for inputs st concrete b" if "kept_access inputs st b" for b
    using that bound(2) proj(3) by (auto simp: accounted_for_def kept_access_def split: AccessAddition.splits if_splits)
  have "buildAccesses arrange inputs = Some (Inr (map dropParameterLocks (filterProjectedConcreteAccesses (fst concrete))))"
    using run proj(1) by (simp add: buildAccesses_def collectedAccesses_def)
  moreover have "distinct (map accessFactKey (fst concrete))" using proj(2) keyed_distinct [of accessFactKey concrete] by (simp add: concrete_inv_def)
  moreover have "list_all (made inputs) (fst concrete)" using proj(2) by (auto simp: concrete_inv_def concrete_ok_def list_all_iff)
  moreover have "list_all (\<lambda>pending. pe_restatesCalleeAccesses pending \<or> accounted_for inputs st concrete (pendingAddition inputs pending)) (ai_pending inputs)"
    using start(2) st(2) keep by (auto simp: list_all_iff)
  moreover have "list_all (\<lambda>call. list_all (\<lambda>access. list_all (accounted_for inputs st concrete) (accessAtCall inputs call access)) (calleeSummary st call)) ?C"
    using st(3) keep by (auto simp: list_all_iff)
  moreover have "list_all (\<lambda>entrySummary. list_all (access_store.keeps concrete) (boundAccesses inputs entrySummary)) (st_summaries st)"
    using bound(3) proj(3) by (auto simp: list_all_iff)
  moreover have "list_all (\<lambda>access. access \<in> set (filterProjectedConcreteAccesses (fst concrete)) \<or>
      (\<exists>projected \<in> set (filterProjectedConcreteAccesses (fst concrete)). hasDistinctUserLocation projected \<and>
         projectedAccessPreferenceKey projected = projectedAccessPreferenceKey access)) (fst concrete)"
    unfolding list_all_iff using filter_prefers by blast
  ultimately show ?thesis using run proj(1,4) by (intro exI conjI) simp_all
qed

text \<open>
  The helper \<open>bump\<close> writes four bytes at the address it is passed; \<open>main\<close> calls it on the second element of \<open>counters\<close>, holding \<open>m\<close>. The write becomes an access of \<open>main\<close>.
\<close>

definition bump_write :: AccessFact where
  "bump_write =
     \<lparr>ac_symbol = [], ac_region = whole_region, ac_functionId = ''bump'', ac_kind = AK_Write, ac_aliasProvenance = AP_Direct,
      ac_loweredLocation = no_location, ac_userLocation = no_location, ac_allowCallsiteProjection = False, ac_isAtomic = False,
      ac_coarseCallEffect = False, ac_guessedIdentity = False, ac_sharedObject = False, ac_inRootTask = False, ac_liveEntries = {},
      ac_startedEntries = {}, ac_boundBySpawn = False, ac_instanceOwner = [], ac_heldLocks = {}, ac_beforeRelease = {}, ac_afterAcquire = {}\<rparr>"

definition bump_call :: AccessInputs where
  "bump_call =
     \<lparr>ai_view = \<lparr>vw_operands = (\<lambda>_. [\<lparr>op_isInteger = False, op_linearIndex = None, op_integerSource = None,
          op_trackedRoot = Some (globalRoot ''counters'' (whole_region\<lparr>mr_byteOffset := 4\<rparr>)), op_localStorageRoot = None, op_loadedSlot = None\<rparr>]),
        vw_callerIntegerParameters = (\<lambda>_. []), vw_constructedClass = (\<lambda>_. None), vw_loadStoreSize = (\<lambda>_. None),
        vw_beforeHandOver = (\<lambda>_ _. False), vw_afterRoundJoin = (\<lambda>_ _. False)\<rparr>,
      ai_pending = [\<lparr>pe_instruction = 2, pe_root = argumentRoot 0 (whole_region\<lparr>mr_byteSize := 4\<rparr>), pe_fact = bump_write,
        pe_restatesCalleeAccesses = False, pe_callOperand = None\<rparr>],
      ai_sites = [\<lparr>dc_call = Some 1, dc_callerFunctionId = ''main'', dc_calleeFunctionId = ''bump'', dc_loweredLocation = no_location,
        dc_userLocation = no_location, dc_insideLoop = False\<rparr>],
      ai_locks = \<lparr>lp_entryLocksByFunction = [], lp_effectiveHeldLocksByCall = [1 \<mapsto> {''m''}]\<rparr>,
      ai_tasks = \<lparr>tk_liveEntriesAtInstruction = Map.empty, tk_startedEntriesAtInstruction = Map.empty, tk_rootTaskFunctions = {}\<rparr>,
      ai_bindings = [], ai_threadEntries = {}, ai_heldLocksByAccess = Map.empty, ai_publications = Map.empty\<rparr>"

lemma bump_call_ok: "access_inputs_ok bump_call"
  by (simp add: access_inputs_ok_def bump_call_def completedFact_def bump_write_def mergeHeldLocks_def entryLocksOf_def heldLocksAt_def
    finite_access_threads_def Let_def split: bind_splits)

theorem accesses_built_witness:
  "\<exists>accesses. buildAccesses rev bump_call = Some (Inr accesses) \<and>
     map (\<lambda>access. (ac_functionId access, ac_symbol access, sint (mr_byteOffset (ac_region access)), ac_heldLocks access)) accesses =
       [(''main'', ''counters'', 4, {''m''})]"
proof -
  have run: "map_option (map_sum id (map (\<lambda>access. (ac_functionId access, ac_symbol access, sint (mr_byteOffset (ac_region access)), ac_heldLocks access))))
      (buildAccesses rev bump_call) = Some (Inr [(''main'', ''counters'', 4, {''m''})])" by code_simp
  obtain r where "buildAccesses rev bump_call = Some (Inr r)" using accesses_built [where arrange = rev, OF bump_call_ok] by auto
  then show ?thesis using run by simp
qed

end
