(* ===== verification/Facts_Builder.thy ===== *)
theory Facts_Builder
  imports Access_Facts Collectors Lock_Wrappers Lifecycle Symbol_Index
begin

text \<open>
  The facts of a unit, put together (\<open>TUFactsBuilder::build\<close> of \<open>tu_facts_builder.cpp\<close>): which step runs for a fact selection, what each step is handed, and
  what the index of the program adds in a project analysis. The steps of the other theories are called as the code calls them. The collectors that walk values, types
  and aliases of LLVM are fields of \<open>UnitCollectors\<close>: a function of what the code passes each. They read what the program defines only to tell which
  globals are shared state (\<open>shouldTrackSharedGlobal\<close>), so that is what they are handed.
\<close>

section \<open>The module of a unit\<close>

record 'v GlobalVariable =
  gv_name :: string
  gv_symbol :: string
  gv_canonicalId :: "string option"
  gv_isDeclaration :: bool
  gv_isConstant :: bool
  gv_isThreadLocal :: bool
  gv_isSynchronizationPrimitive :: bool
  gv_hasLocalLinkage :: bool
  gv_value :: 'v

definition canBeSharedState :: "'v GlobalVariable \<Rightarrow> bool" where
  "canBeSharedState global \<longleftrightarrow> \<not> gv_isConstant global \<and> \<not> gv_isThreadLocal global \<and> \<not> gv_isSynchronizationPrimitive global"

definition shouldTrackSharedGlobal :: "'v GlobalVariable \<Rightarrow> string set option \<Rightarrow> bool" where
  "shouldTrackSharedGlobal global programDefined \<longleftrightarrow>
     (if \<not> canBeSharedState global then False
      else \<not> gv_isDeclaration global \<or> (case programDefined of None \<Rightarrow> False | Some defined \<Rightarrow> gv_symbol global \<in> defined))"

text \<open>
  A module with what LLVM answers about it: \<open>un_functionSymbol\<close> and \<open>un_functionIsLocal\<close> are the global identifier and the linkage of the function with an id,
  \<open>un_nonZeroConstant\<close> whether a value is an integer constant other than zero, \<open>un_argumentGroups\<close> the storage of each argument of a call. The orders in which hash maps are
  walked are \<open>un_arrangeWaits\<close>, \<open>un_arrangeCallees\<close> and \<open>un_arrangeSummaries\<close>.
\<close>

record 'v UnitModule =
  un_module :: "'v Module"
  un_globals :: "'v GlobalVariable list"
  un_targetTriple :: string
  un_dataLayout :: string
  un_moduleIdentifier :: string
  un_functionSymbol :: "string \<Rightarrow> string"
  un_functionIsLocal :: "string \<Rightarrow> bool"
  un_naming :: "'v LockNaming"
  un_dominates :: "string \<Rightarrow> nat \<Rightarrow> nat \<Rightarrow> bool"
  un_functionOf :: "'v \<Rightarrow> FunctionRef option"
  un_nonZeroConstant :: "'v \<Rightarrow> bool"
  un_argumentGroups :: "nat \<Rightarrow> string option list"
  un_userLocation :: "SourceLocation \<Rightarrow> bool"
  un_leavesReaping :: "'v Instruction \<Rightarrow> bool"
  un_signals :: "'v SignalQueries"
  un_addressView :: "string \<Rightarrow> 'v AddressView"
  un_standard :: "nat \<Rightarrow> bool"
  un_arrangeWaits :: "waits \<Rightarrow> waits"
  un_arrangeCallees :: "incoming_calls \<Rightarrow> incoming_calls"
  un_arrangeSummaries :: "(string \<times> access_summary) list \<Rightarrow> (string \<times> access_summary) list"

abbreviation programSymbol :: "'v UnitModule \<Rightarrow> 'v Function \<Rightarrow> string" where
  "programSymbol u f \<equiv> un_functionSymbol u (fn_id f)"

definition declaredFunctionsOf :: "'v UnitModule \<Rightarrow> 'v Function list" where
  "declaredFunctionsOf u = filter fn_isDeclaration (un_module u)"

definition definedFunctionsOf :: "'v UnitModule \<Rightarrow> 'v Function list" where
  "definedFunctionsOf u = filter (\<lambda>f. \<not> fn_isDeclaration f) (un_module u)"

section \<open>What the collectors deliver\<close>

record ThreadSpawnCollection =
  sc_spawns :: "SpawnFact list"
  sc_entryConcurrency :: "(string \<times> EntryConcurrencyInfo) list"

definition noSpawns :: ThreadSpawnCollection where
  "noSpawns = \<lparr>sc_spawns = [], sc_entryConcurrency = []\<rparr>"

record TaskConcurrencyResult = TaskView +
  tk_sequencedEntryPairs :: "EntryPair set"
  tk_overlappingSpawnEntries :: "string set"

definition noTasks :: TaskConcurrencyResult where
  "noTasks = \<lparr>tk_liveEntriesAtInstruction = Map.empty, tk_startedEntriesAtInstruction = Map.empty, tk_rootTaskFunctions = {},
     tk_sequencedEntryPairs = {}, tk_overlappingSpawnEntries = {}\<rparr>"

record ThreadLifetimeFacts =
  lt_escapes :: "ThreadArgumentEscapeFact list"
  lt_frees :: "ThreadArgumentFreeFact list"
  lt_expiredThreadLocals :: "ExpiredThreadLocalFact list"

record PublicationAnalysis =
  pb_ordering :: "nat \<rightharpoonup> string set \<times> string set"
  pb_weakPublications :: "WeakPublicationFact list"

type_synonym joining_helpers = "(string \<times> JoinedParameter list) list"

text \<open>\<open>'c\<close> is the map of thread completions, which only collectors read.\<close>

record ('v, 'c) UnitCollectors =
  co_spawns :: "DirectCallSite list \<Rightarrow> bool \<Rightarrow> ThreadSpawnCollection"
  co_sharedObjects :: "DirectCallSite list \<Rightarrow> string list \<Rightarrow> (string \<times> EntryConcurrencyInfo) list \<Rightarrow> SharedObjectBindings"
  co_accesses :: "string list \<Rightarrow> string set \<Rightarrow> string set \<Rightarrow> PendingAccess list"
  co_joiningHelpers :: "joining_helpers \<Rightarrow> joining_helpers"
  co_noCompletions :: 'c
  co_completions :: "joining_helpers \<Rightarrow> 'c"
  co_tasks :: "DirectCallSite list \<Rightarrow> 'c \<Rightarrow> bool \<Rightarrow> TaskConcurrencyResult"
  co_lifecycles :: "'c \<Rightarrow> ThreadLifecycleFact list"
  co_lifetimes :: "'c \<Rightarrow> ThreadLifetimeFacts"
  co_publications :: "PendingAccess list \<Rightarrow> DirectCallSite list \<Rightarrow> SpawnFact list \<Rightarrow> bool \<Rightarrow> PublicationAnalysis"
  co_callView :: "string list \<Rightarrow> SharedObjectBindings \<Rightarrow> 'c \<Rightarrow> CallView"

section \<open>Recursive locks\<close>

record 'v RecursiveScan =
  rk_lockIds :: "string set"
  rk_attributeGroups :: "string set"
  rk_initCalls :: "'v Call list"

definition plainResolver :: "'v LockNaming \<Rightarrow> 'v Resolver" where
  "plainResolver naming =
     \<lparr>rs_naming = naming, rs_summaries = None, rs_nameParameterLocks = False, rs_sharedObject = None, rs_localObjects = None,
      rs_nameParameterFieldLocks = False\<rparr>"

definition recursiveGlobal :: "'v LockNaming \<Rightarrow> 'v GlobalVariable \<Rightarrow> string option" where
  "recursiveGlobal naming global =
     (if \<not> ln_designatesRecursiveLockType naming (gv_value global) then None else ln_canonicalLockId naming (gv_value global))"

definition recursivelyLocked :: "'v LockNaming \<Rightarrow> 'v Call \<Rightarrow> string set" where
  "recursivelyLocked naming call = set (concat (map le_lockIds (filter le_recursiveLock (resolve (plainResolver naming) call))))"

definition scanRecursiveCall :: "'v LockNaming \<Rightarrow> ('v \<Rightarrow> bool) \<Rightarrow> 'v Instruction \<Rightarrow> 'v RecursiveScan \<Rightarrow> 'v RecursiveScan" where
  "scanRecursiveCall naming nonZero instruction scan =
     (case in_call instruction of
        None \<Rightarrow> scan
      | Some call \<Rightarrow>
          if ca_args call = [] then scan
          else
            (let scan = scan\<lparr>rk_lockIds := rk_lockIds scan \<union> recursivelyLocked naming call\<rparr>
             in if ca_kind call = CK_PThreadMutexAttrSetType \<and> length (ca_args call) > 1
                then
                  if \<not> nonZero (ca_args call ! 1) then scan
                  else (case ln_canonicalStorageGroupId naming (ca_args call ! 0) of
                          None \<Rightarrow> scan
                        | Some attrGroup \<Rightarrow> scan\<lparr>rk_attributeGroups := insert attrGroup (rk_attributeGroups scan)\<rparr>)
                else if ca_kind call = CK_PThreadMutexInit \<and> length (ca_args call) > 1
                then scan\<lparr>rk_initCalls := rk_initCalls scan @ [call]\<rparr>
                else scan))"

definition recursivelyInitialized :: "'v LockNaming \<Rightarrow> string set \<Rightarrow> 'v Call \<Rightarrow> string option" where
  "recursivelyInitialized naming groups call =
     (case ln_canonicalStorageGroupId naming (ca_args call ! 1) of
        None \<Rightarrow> None
      | Some attrGroup \<Rightarrow> if attrGroup \<notin> groups then None else ln_canonicalLockId naming (ca_args call ! 0))"

definition collectRecursiveLockIds :: "'v UnitModule \<Rightarrow> string set" where
  "collectRecursiveLockIds u =
     (let naming = un_naming u;
          scan = fold (scanRecursiveCall naming (un_nonZeroConstant u)) (concat (map fn_instructions (definedFunctionsOf u)))
            \<lparr>rk_lockIds = set (List.map_filter (recursiveGlobal naming) (un_globals u)), rk_attributeGroups = {}, rk_initCalls = []\<rparr>
      in rk_lockIds scan \<union> set (List.map_filter (recursivelyInitialized naming (rk_attributeGroups scan)) (rk_initCalls scan)))"

section \<open>Symbols of the program\<close>

definition recordHandle :: "'v UnitModule \<Rightarrow> string \<Rightarrow> (string \<times> string) list \<Rightarrow> (string \<times> string) list" where
  "recordHandle u handleGroupId symbols =
     (if map_of symbols handleGroupId \<noteq> None then symbols
      else
        (case globalOfStorageGroupId (map gv_name (un_globals u)) handleGroupId of
           None \<Rightarrow> symbols
         | Some name \<Rightarrow>
             (case find (\<lambda>global. gv_name global = name) (un_globals u) of
                None \<Rightarrow> symbols
              | Some handle \<Rightarrow> umap_update handleGroupId (\<lambda>_. gv_symbol handle) symbols)))"

definition collectProgramSymbolFacts :: "'v UnitModule \<Rightarrow> string set \<Rightarrow> ThreadLifecycleFact list \<Rightarrow> ProgramSymbolFacts" where
  "collectProgramSymbolFacts u resolvedHandleIds lifecycles =
     (let sharable = filter canBeSharedState (un_globals u);
          created = map tl_handleGroupId (filter (\<lambda>fct. tl_action fct = TL_Create) lifecycles)
      in \<lparr>ps_abiKey = un_targetTriple u @ ''|'' @ un_dataLayout u,
          ps_definedGlobals = gv_symbol ` set (filter (\<lambda>global. \<not> gv_isDeclaration global) sharable),
          ps_declaredGlobals = gv_symbol ` set (filter gv_isDeclaration sharable),
          ps_functionSymbolsById = fold (\<lambda>f. umap_update (fn_id f) (emplace (programSymbol u f))) (un_module u) [],
          ps_declaredFunctions = programSymbol u ` set (declaredFunctionsOf u),
          ps_settlingFunctions = {},
          ps_handleSymbolsByGroupId = fold (recordHandle u) (sorted_list_of_set resolvedHandleIds @ created) []\<rparr>)"

section \<open>Static initialization\<close>

record InitGuard =
  ig_lockId :: string
  ig_key :: string

definition guardOfObject :: "'v UnitModule \<Rightarrow> bool \<Rightarrow> 'v GlobalVariable \<Rightarrow> (string \<times> InitGuard) option" where
  "guardOfObject u projectAnalysis guard =
     (if \<not> starts_with (gv_name guard) ''_ZGV'' then None
      else
        (case find (\<lambda>global. gv_name global = ''_Z'' @ drop (length ''_ZGV'') (gv_name guard)) (un_globals u) of
           None \<Rightarrow> None
         | Some object \<Rightarrow>
             (case gv_canonicalId object of
                None \<Rightarrow> None
              | Some objectSymbol \<Rightarrow>
                  (case ln_canonicalLockId (un_naming u) (gv_value guard) of
                     None \<Rightarrow> None
                   | Some lockId \<Rightarrow>
                       (let key = ''static-init:'' @ lockId
                        in Some (objectSymbol,
                             \<lparr>ig_lockId = lockId,
                              ig_key = (if projectAnalysis \<and> gv_hasLocalLinkage guard then un_moduleIdentifier u @ ''#'' @ key else key)\<rparr>))))))"

definition orderByGuard :: "(string \<times> InitGuard) list \<Rightarrow> AccessFact \<Rightarrow> AccessFact" where
  "orderByGuard guards access =
     (case map_of guards (ac_symbol access) of
        None \<Rightarrow> access
      | Some guard \<Rightarrow>
          if ig_lockId guard \<in> ac_heldLocks access
          then access\<lparr>ac_beforeRelease := insert (ig_key guard) (ac_beforeRelease access)\<rparr>
          else access\<lparr>ac_afterAcquire := insert (ig_key guard) (ac_afterAcquire access)\<rparr>)"

definition orderStaticInitialization :: "'v UnitModule \<Rightarrow> bool \<Rightarrow> AccessFact list \<Rightarrow> AccessFact list" where
  "orderStaticInitialization u projectAnalysis accesses =
     (let guards = fold (\<lambda>(objectSymbol, guard). umap_update objectSymbol (emplace guard))
            (List.map_filter (guardOfObject u projectAnalysis) (un_globals u)) []
      in if guards = [] then accesses else map (orderByGuard guards) accesses)"

section \<open>What each step is handed\<close>

definition unitSites :: "'v UnitModule \<Rightarrow> FactSelection \<Rightarrow> DirectCallSite list" where
  "unitSites u selection = (if directCallSites selection then collectDirectCallSites (un_module u) else [])"

definition unitSpawns :: "'v UnitModule \<Rightarrow> ('v, 'c) UnitCollectors \<Rightarrow> FactSelection \<Rightarrow> bool \<Rightarrow> ThreadSpawnCollection" where
  "unitSpawns u co selection crossTU = (if spawns selection then co_spawns co (unitSites u selection) crossTU else noSpawns)"

definition trackedGlobals :: "'v UnitModule \<Rightarrow> ProgramSymbolIndex option \<Rightarrow> string list" where
  "trackedGlobals u program =
     map gv_name (filter (\<lambda>global. shouldTrackSharedGlobal global (map_option pi_definedGlobals program)) (un_globals u))"

text \<open>A helper that is only declared here has the summary that the unit defining it produced.\<close>

definition addProgramSummary :: "'v UnitModule \<Rightarrow> ProgramSymbolIndex \<Rightarrow> 'v Function \<Rightarrow> wrapper_summaries \<Rightarrow> wrapper_summaries" where
  "addProgramSummary u index f summaries =
     (case lockSummaryFor index (programSymbol u f) of None \<Rightarrow> summaries | Some summary \<Rightarrow> umap_update (fn_id f) (emplace summary) summaries)"

definition unitSummaries :: "'v UnitModule \<Rightarrow> FactSelection \<Rightarrow> ProgramSymbolIndex option \<Rightarrow> wrapper_summaries" where
  "unitSummaries u selection program =
     (if \<not> lockWrapperSummaries selection then []
      else
        (let summaries = collectLockWrapperSummaries (un_naming u) (un_dominates u) (un_module u)
         in case program of None \<Rightarrow> summaries | Some index \<Rightarrow> fold (addProgramSummary u index) (declaredFunctionsOf u) summaries))"

text \<open>
  The bindings of shared objects as the program leaves them: one settled by calls that another unit may make too is dropped, and the elements of an entry the
  program starts more than once are not each thread's own.
\<close>

definition settlingSymbols :: "'v UnitModule \<Rightarrow> SharedObjectBinding \<Rightarrow> string list" where
  "settlingSymbols u binding = map (un_functionSymbol u) (filter (\<lambda>settling. \<not> un_functionIsLocal u settling) (sb_settledThrough binding))"

definition settleBinding ::
  "'v UnitModule \<Rightarrow> ProgramSymbolIndex \<Rightarrow> 'v Function \<Rightarrow> SharedObjectBindings \<times> string set \<Rightarrow> SharedObjectBindings \<times> string set" where
  "settleBinding u index f st =
     (let (bindings, settlingFunctions) = st
      in case map_of bindings (fn_id f) of
           None \<Rightarrow> st
         | Some binding \<Rightarrow>
             (if list_ex (appearsInSeveralUnits index) (settlingSymbols u binding) then filter (\<lambda>(entry, _). entry \<noteq> fn_id f) bindings
              else if spawnCount index (programSymbol u f) > 1 then umap_update (fn_id f) (\<lambda>_. binding\<lparr>sb_elementPerThread := False\<rparr>) bindings
              else bindings,
              settlingFunctions \<union> set (settlingSymbols u binding)))"

definition unitBindings ::
  "'v UnitModule \<Rightarrow> ('v, 'c) UnitCollectors \<Rightarrow> FactSelection \<Rightarrow> ProgramSymbolIndex option \<Rightarrow> SharedObjectBindings \<times> string set" where
  "unitBindings u co selection program =
     (if \<not> lockState selection then ([], {})
      else
        (let bindings = co_sharedObjects co (unitSites u selection) (trackedGlobals u program)
               (sc_entryConcurrency (unitSpawns u co selection (program \<noteq> None)))
         in case program of None \<Rightarrow> (bindings, {}) | Some index \<Rightarrow> fold (settleBinding u index) (un_module u) (bindings, {})))"

definition unitPending ::
  "'v UnitModule \<Rightarrow> ('v, 'c) UnitCollectors \<Rightarrow> FactSelection \<Rightarrow> ProgramSymbolIndex option \<Rightarrow> PendingAccess list" where
  "unitPending u co selection program =
     (if \<not> se_accesses selection then []
      else
        (let bindings = fst (unitBindings u co selection program)
         in co_accesses co (trackedGlobals u program) (sharedObjectNames bindings SO_BehindPointer) (sharedObjectNames bindings SO_Local)))"

definition trackAccess :: "PendingAccess \<Rightarrow> (string \<times> nat set) list \<Rightarrow> (string \<times> nat set) list" where
  "trackAccess pending =
     umap_update (ac_functionId (pe_fact pending)) (\<lambda>tracked. insert (pe_instruction pending) (case tracked of None \<Rightarrow> {} | Some instructions \<Rightarrow> instructions))"

fun accessLocks :: "'v LockScopeTracker \<Rightarrow> 'v Module \<Rightarrow> (string \<times> nat set) list \<Rightarrow> held_by_access \<Rightarrow> held_by_access option" where
  "accessLocks tracker module [] held = Some held"
| "accessLocks tracker module ((f, trackedAccesses) # tracked) held =
     (case find (\<lambda>candidate. fn_id candidate = f) module of
        None \<Rightarrow> accessLocks tracker module tracked held
      | Some body \<Rightarrow>
          (case collectHeldLocks tracker body trackedAccesses of
             None \<Rightarrow> None
           | Some functionLocks \<Rightarrow> accessLocks tracker module tracked (noteHeld functionLocks held)))"

definition unitTracker :: "'v UnitModule \<Rightarrow> ('v, 'c) UnitCollectors \<Rightarrow> FactSelection \<Rightarrow> ProgramSymbolIndex option \<Rightarrow> 'v LockScopeTracker" where
  "unitTracker u co selection program =
     \<lparr>lt_naming = un_naming u, lt_summaries = Some (map_of (unitSummaries u selection program)),
      lt_sharedObjects = Some (fst (unitBindings u co selection program))\<rparr>"

definition unitHeldLocks ::
  "'v UnitModule \<Rightarrow> ('v, 'c) UnitCollectors \<Rightarrow> FactSelection \<Rightarrow> ProgramSymbolIndex option \<Rightarrow> held_by_access option" where
  "unitHeldLocks u co selection program =
     accessLocks (unitTracker u co selection program) (un_module u) (fold trackAccess (unitPending u co selection program) []) Map.empty"

section \<open>Threads\<close>

definition readsCompletions :: "FactSelection \<Rightarrow> bool" where
  "readsCompletions selection \<longleftrightarrow> taskConcurrency selection \<or> se_threadLifecycles selection \<or> se_threadArgumentEscapes selection \<or>
     se_threadArgumentFrees selection \<or> se_expiredThreadLocals selection"

definition addKnownHelper :: "'v UnitModule \<Rightarrow> ProgramSymbolIndex \<Rightarrow> 'v Function \<Rightarrow> joining_helpers \<Rightarrow> joining_helpers" where
  "addKnownHelper u index f known =
     (case joinedParametersOf index (programSymbol u f) of None \<Rightarrow> known | Some joined \<Rightarrow> umap_update (fn_id f) (emplace joined) known)"

definition knownHelpers :: "'v UnitModule \<Rightarrow> FactSelection \<Rightarrow> ProgramSymbolIndex option \<Rightarrow> joining_helpers" where
  "knownHelpers u selection program =
     (case program of
        None \<Rightarrow> []
      | Some index \<Rightarrow> if cc_helperJoins (se_channels selection) then fold (addKnownHelper u index) (declaredFunctionsOf u) [] else [])"

definition unitHelpers :: "'v UnitModule \<Rightarrow> ('v, 'c) UnitCollectors \<Rightarrow> FactSelection \<Rightarrow> ProgramSymbolIndex option \<Rightarrow> joining_helpers" where
  "unitHelpers u co selection program = (if readsCompletions selection then co_joiningHelpers co (knownHelpers u selection program) else [])"

definition unitCompletions :: "'v UnitModule \<Rightarrow> ('v, 'c) UnitCollectors \<Rightarrow> FactSelection \<Rightarrow> ProgramSymbolIndex option \<Rightarrow> 'c" where
  "unitCompletions u co selection program =
     (if readsCompletions selection then co_completions co (unitHelpers u co selection program) else co_noCompletions co)"

definition unitTasks :: "'v UnitModule \<Rightarrow> ('v, 'c) UnitCollectors \<Rightarrow> FactSelection \<Rightarrow> ProgramSymbolIndex option \<Rightarrow> TaskConcurrencyResult" where
  "unitTasks u co selection program =
     (if taskConcurrency selection then co_tasks co (unitSites u selection) (unitCompletions u co selection program) (program \<noteq> None) else noTasks)"

definition publishedHelpers :: "'v UnitModule \<Rightarrow> ('v, 'c) UnitCollectors \<Rightarrow> FactSelection \<Rightarrow> ProgramSymbolIndex option \<Rightarrow> joining_helpers" where
  "publishedHelpers u co selection program =
     (if cc_helperJoins (se_channels selection)
      then filter (\<lambda>(helper, _). helper \<in> fn_id ` set (definedFunctionsOf u)) (unitHelpers u co selection program) else [])"

definition correctSpawnCount :: "string set \<Rightarrow> EntryConcurrencyInfo \<Rightarrow> string \<Rightarrow> EntryConcurrencyInfo" where
  "correctSpawnCount overlapping concurrency entry =
     concurrency\<lparr>ec_staticSpawnCount :=
       if entry \<in> overlapping then max (ec_staticSpawnCount concurrency) 2 else min (ec_staticSpawnCount concurrency) 1\<rparr>"

definition seedConcurrency :: "ProgramSymbolIndex \<Rightarrow> string \<Rightarrow> EntryConcurrencyInfo option \<Rightarrow> EntryConcurrencyInfo" where
  "seedConcurrency index symbol known =
     (let concurrency = (case known of None \<Rightarrow> \<lparr>ec_staticSpawnCount = 0, ec_hasSpawnInLoop = False\<rparr> | Some concurrency \<Rightarrow> concurrency)
      in concurrency\<lparr>ec_staticSpawnCount := max (ec_staticSpawnCount concurrency) (spawnCount index symbol),
                     ec_hasSpawnInLoop := ec_hasSpawnInLoop concurrency \<or> spawnedInLoop index symbol\<rparr>)"

definition seedEntry :: "'v UnitModule \<Rightarrow> ProgramSymbolIndex \<Rightarrow> 'v Function \<Rightarrow> (string \<times> EntryConcurrencyInfo) list \<Rightarrow> (string \<times> EntryConcurrencyInfo) list" where
  "seedEntry u index f entries =
     (if isThreadEntry index (programSymbol u f) then umap_update (fn_id f) (seedConcurrency index (programSymbol u f)) entries else entries)"

definition ownEntryConcurrency ::
  "'v UnitModule \<Rightarrow> ('v, 'c) UnitCollectors \<Rightarrow> FactSelection \<Rightarrow> ProgramSymbolIndex option \<Rightarrow> (string \<times> EntryConcurrencyInfo) list" where
  "ownEntryConcurrency u co selection program =
     (let entries = sc_entryConcurrency (unitSpawns u co selection (program \<noteq> None));
          overlapping = tk_overlappingSpawnEntries (unitTasks u co selection program)
      in if se_threadEntries selection then map (\<lambda>(entry, concurrency). (entry, correctSpawnCount overlapping concurrency entry)) entries else entries)"

definition unitEntryConcurrency ::
  "'v UnitModule \<Rightarrow> ('v, 'c) UnitCollectors \<Rightarrow> FactSelection \<Rightarrow> ProgramSymbolIndex option \<Rightarrow> (string \<times> EntryConcurrencyInfo) list" where
  "unitEntryConcurrency u co selection program =
     (case program of
        None \<Rightarrow> ownEntryConcurrency u co selection program
      | Some index \<Rightarrow> fold (seedEntry u index) (definedFunctionsOf u) (ownEntryConcurrency u co selection program))"

section \<open>The steps\<close>

text \<open>A step may throw, or a loop of it not return; \<open>andThen\<close> runs the next one on what it delivered.\<close>

definition andThen :: "('e + 'a) option \<Rightarrow> ('a \<Rightarrow> ('e + 'b) option) \<Rightarrow> ('e + 'b) option" where
  "andThen step continue = (case step of None \<Rightarrow> None | Some (Inl e) \<Rightarrow> Some (Inl e) | Some (Inr delivered) \<Rightarrow> continue delivered)"

definition returning :: "'a option \<Rightarrow> (unit + 'a) option" where
  "returning step = map_option Inr step"

definition unitLifecycles ::
  "'v UnitModule \<Rightarrow> ('v, 'c) UnitCollectors \<Rightarrow> FactSelection \<Rightarrow> ProgramSymbolIndex option \<Rightarrow> (unit + ThreadLifecycleFact list) option" where
  "unitLifecycles u co selection program =
     (if \<not> se_threadLifecycles selection then Some (Inr [])
      else map_option (map_sum id ly_facts)
        (propagateLifecycles (un_argumentGroups u) (co_lifecycles co (unitCompletions u co selection program)) (unitSites u selection)))"

definition handleResolvedElsewhere :: "'v UnitModule \<Rightarrow> ProgramSymbolIndex \<Rightarrow> string \<Rightarrow> bool" where
  "handleResolvedElsewhere u index name =
     (case find (\<lambda>global. gv_name global = name) (un_globals u) of None \<Rightarrow> False | Some handle \<Rightarrow> resolvesHandleElsewhere index (gv_symbol handle))"

definition outstandingLifecycles :: "'v UnitModule \<Rightarrow> ProgramSymbolIndex option \<Rightarrow> ThreadLifecycleFact list \<Rightarrow> ThreadLifecycleFact list" where
  "outstandingLifecycles u program lifecycles =
     (case program of
        None \<Rightarrow> lifecycles
      | Some index \<Rightarrow> dropResolvedElsewhere (map gv_name (un_globals u)) (handleResolvedElsewhere u index) lifecycles)"

definition unitLifetimes :: "'v UnitModule \<Rightarrow> ('v, 'c) UnitCollectors \<Rightarrow> FactSelection \<Rightarrow> ProgramSymbolIndex option \<Rightarrow> ThreadLifetimeFacts" where
  "unitLifetimes u co selection program =
     (if se_threadArgumentEscapes selection \<or> se_threadArgumentFrees selection \<or> se_expiredThreadLocals selection
      then
        (let lifetimes = co_lifetimes co (unitCompletions u co selection program)
         in \<lparr>lt_escapes = (if se_threadArgumentEscapes selection then lt_escapes lifetimes else []),
             lt_frees = (if se_threadArgumentFrees selection then lt_frees lifetimes else []),
             lt_expiredThreadLocals = (if se_expiredThreadLocals selection then lt_expiredThreadLocals lifetimes else [])\<rparr>)
      else \<lparr>lt_escapes = [], lt_frees = [], lt_expiredThreadLocals = []\<rparr>)"

definition unitSignals :: "'v UnitModule \<Rightarrow> FactSelection \<Rightarrow> SignalHandlerFact list option" where
  "unitSignals u selection =
     (if se_signalHandlers selection then collectSignalHandlers (un_signals u) (un_module u) (unitSites u selection) else Some [])"

definition unitProcesses ::
  "'v UnitModule \<Rightarrow> ('v, 'c) UnitCollectors \<Rightarrow> FactSelection \<Rightarrow> ProgramSymbolIndex option \<Rightarrow> ProcessFacts option" where
  "unitProcesses u co selection program =
     (if se_processLifecycle selection
      then buildProcessFacts (un_leavesReaping u) (map_option (\<lambda>index. (programReapsChildren index, index_programCreatesThreads index)) program)
        (sc_spawns (unitSpawns u co selection (program \<noteq> None))) (un_module u) (unitSites u selection)
      else Some \<lparr>fa_reapsChildProcesses = False, fa_programCreatesThreads = False, fa_processForks = []\<rparr>)"

definition unitWaits :: "'v UnitModule \<Rightarrow> FactSelection \<Rightarrow> ConditionWaitFact list option" where
  "unitWaits u selection =
     (if se_conditionWaits selection
      then buildConditionWaits (un_arrangeWaits u) (un_userLocation u) (un_module u) (unitSites u selection) else Some [])"

definition unitLocks ::
  "'v UnitModule \<Rightarrow> ('v, 'c) UnitCollectors \<Rightarrow> FactSelection \<Rightarrow> ProgramSymbolIndex option \<Rightarrow> LockPropagationResult option" where
  "unitLocks u co selection program =
     (if lockState selection
      then propagateLocks (un_arrangeCallees u) (unitTracker u co selection program) (un_module u) (unitSites u selection)
      else Some \<lparr>lp_entryLocksByFunction = [], lp_effectiveHeldLocksByCall = Map.empty\<rparr>)"

definition orderInputs ::
  "'v UnitModule \<Rightarrow> ('v, 'c) UnitCollectors \<Rightarrow> FactSelection \<Rightarrow> ProgramSymbolIndex option \<Rightarrow> LockPropagationResult \<Rightarrow> 'v OrderInputs" where
  "orderInputs u co selection program locks =
     \<lparr>oi_module = un_module u, oi_sites = unitSites u selection, oi_naming = un_naming u,
      oi_summaries = map_of (unitSummaries u selection program), oi_bindings = fst (unitBindings u co selection program),
      oi_view = un_addressView u, oi_standard = un_standard u, oi_locks = locks,
      oi_tasks = TaskView.truncate (unitTasks u co selection program),
      oi_threadEntries = fst ` set (unitEntryConcurrency u co selection program)\<rparr>"

definition unitOrders ::
  "'v UnitModule \<Rightarrow> ('v, 'c) UnitCollectors \<Rightarrow> FactSelection \<Rightarrow> ProgramSymbolIndex option \<Rightarrow> LockPropagationResult \<Rightarrow> (unit + LockOrderFact list) option" where
  "unitOrders u co selection program locks =
     (if se_lockOrders selection then buildLockOrders (orderInputs u co selection program locks) else Some (Inr []))"

definition unitPublications ::
  "'v UnitModule \<Rightarrow> ('v, 'c) UnitCollectors \<Rightarrow> FactSelection \<Rightarrow> ProgramSymbolIndex option \<Rightarrow> PublicationAnalysis" where
  "unitPublications u co selection program =
     co_publications co (unitPending u co selection program) (unitSites u selection)
       (sc_spawns (unitSpawns u co selection (program \<noteq> None))) (program \<noteq> None)"

definition accessInputs ::
  "'v UnitModule \<Rightarrow> ('v, 'c) UnitCollectors \<Rightarrow> FactSelection \<Rightarrow> ProgramSymbolIndex option \<Rightarrow> held_by_access \<Rightarrow> LockPropagationResult \<Rightarrow> AccessInputs" where
  "accessInputs u co selection program held locks =
     \<lparr>ai_view = co_callView co (trackedGlobals u program) (fst (unitBindings u co selection program)) (unitCompletions u co selection program),
      ai_pending = unitPending u co selection program, ai_sites = unitSites u selection, ai_locks = locks,
      ai_tasks = TaskView.truncate (unitTasks u co selection program), ai_bindings = fst (unitBindings u co selection program),
      ai_threadEntries = fst ` set (unitEntryConcurrency u co selection program), ai_heldLocksByAccess = held,
      ai_publications = pb_ordering (unitPublications u co selection program)\<rparr>"

definition unitAccesses ::
  "'v UnitModule \<Rightarrow> ('v, 'c) UnitCollectors \<Rightarrow> FactSelection \<Rightarrow> ProgramSymbolIndex option \<Rightarrow> held_by_access \<Rightarrow> LockPropagationResult \<Rightarrow>
   (unit + AccessFact list) option" where
  "unitAccesses u co selection program held locks =
     (if \<not> se_accesses selection then Some (Inr [])
      else map_option (map_sum id (orderStaticInitialization u (program \<noteq> None)))
        (buildAccesses (un_arrangeSummaries u) (accessInputs u co selection program held locks)))"

section \<open>The facts of a unit\<close>

definition programFacts ::
  "'v UnitModule \<Rightarrow> ('v, 'c) UnitCollectors \<Rightarrow> FactSelection \<Rightarrow> ProgramSymbolIndex option \<Rightarrow> ThreadLifecycleFact list \<Rightarrow> ProgramSymbolFacts" where
  "programFacts u co selection program lifecycles =
     (if se_program selection
      then (collectProgramSymbolFacts u (resolvedGlobalHandleIds (map gv_name (un_globals u)) lifecycles) (outstandingLifecycles u program lifecycles))
             \<lparr>ps_settlingFunctions := snd (unitBindings u co selection program)\<rparr>
      else no_program)"

text \<open>What the steps deliver, and the facts assembled from it.\<close>

record Delivered =
  de_heldLocks :: held_by_access
  de_lifecycles :: "ThreadLifecycleFact list"
  de_signals :: "SignalHandlerFact list"
  de_processes :: ProcessFacts
  de_waits :: "ConditionWaitFact list"
  de_locks :: LockPropagationResult
  de_orders :: "LockOrderFact list"
  de_accesses :: "AccessFact list"

definition runSteps :: "'v UnitModule \<Rightarrow> ('v, 'c) UnitCollectors \<Rightarrow> FactSelection \<Rightarrow> ProgramSymbolIndex option \<Rightarrow> (unit + Delivered) option" where
  "runSteps u co selection program =
     andThen (returning (unitHeldLocks u co selection program)) (\<lambda>held.
     andThen (unitLifecycles u co selection program) (\<lambda>lifecycles.
     andThen (returning (unitSignals u selection)) (\<lambda>signals.
     andThen (returning (unitProcesses u co selection program)) (\<lambda>processes.
     andThen (returning (unitWaits u selection)) (\<lambda>conditionWaits.
     andThen (returning (unitLocks u co selection program)) (\<lambda>locks.
     andThen (unitOrders u co selection program locks) (\<lambda>orders.
     andThen (unitAccesses u co selection program held locks) (\<lambda>accesses.
       Some (Inr
         \<lparr>de_heldLocks = held, de_lifecycles = lifecycles, de_signals = signals, de_processes = processes, de_waits = conditionWaits,
          de_locks = locks, de_orders = orders, de_accesses = accesses\<rparr>)))))))))"

definition assembled ::
  "'v UnitModule \<Rightarrow> ('v, 'c) UnitCollectors \<Rightarrow> FactSelection \<Rightarrow> ProgramSymbolIndex option \<Rightarrow> Delivered \<Rightarrow> TUFacts" where
  "assembled u co selection program delivered =
     (let lifecycles = de_lifecycles delivered
      in \<lparr>tu_spawns = sc_spawns (unitSpawns u co selection (program \<noteq> None)),
          tu_accesses = de_accesses delivered,
          tu_lockOrders = de_orders delivered,
          tu_threadLifecycles = outstandingLifecycles u program lifecycles,
          tu_conditionWaits = de_waits delivered,
          tu_processForks = fa_processForks (de_processes delivered),
          tu_threadArgumentEscapes = lt_escapes (unitLifetimes u co selection program),
          tu_threadArgumentFrees = lt_frees (unitLifetimes u co selection program),
          tu_expiredThreadLocals = lt_expiredThreadLocals (unitLifetimes u co selection program),
          tu_signalHandlers = de_signals delivered,
          tu_weakPublications =
            (if se_accesses selection \<and> se_weakPublications selection then pb_weakPublications (unitPublications u co selection program) else []),
          tu_reapsChildProcesses = fa_reapsChildProcesses (de_processes delivered),
          tu_programCreatesThreads = fa_programCreatesThreads (de_processes delivered),
          tu_entryConcurrency = unitEntryConcurrency u co selection program,
          tu_lockWrapperSummaries = unitSummaries u selection program,
          tu_joiningHelpers = publishedHelpers u co selection program,
          tu_resolvedGlobalHandleIds = resolvedGlobalHandleIds (map gv_name (un_globals u)) lifecycles,
          tu_reachableThreadEntriesByFunction =
            (if se_threadEntries selection
             then collectThreadContexts (un_functionOf u) (un_module u) (unitSites u selection) (unitEntryConcurrency u co selection program) else []),
          tu_recursiveLockIds = (if se_recursiveLockIds selection then collectRecursiveLockIds u else {}),
          tu_sequencedEntryPairs = tk_sequencedEntryPairs (unitTasks u co selection program),
          tu_program = programFacts u co selection program lifecycles\<rparr>)"

definition build :: "'v UnitModule \<Rightarrow> ('v, 'c) UnitCollectors \<Rightarrow> FactSelection \<Rightarrow> ProgramSymbolIndex option \<Rightarrow> (unit + TUFacts) option" where
  "build u co selection program = andThen (runSteps u co selection program) (\<lambda>delivered. Some (Inr (assembled u co selection program delivered)))"

end
