(* ===== verification/Unit_Gate.thy ===== *)
theory Unit_Gate
  imports Facts_Builder
begin

text \<open>
  What the builder of a unit may leave out. \<open>unread_facts_skipped\<close>: building fewer facts, for fewer rules, changes nothing of what those rules report.
  \<open>second_pass_gate_sound\<close>: a unit that the coordinator does not analyse a second time (\<open>crossTUChangesFacts\<close> of \<open>inter_tu_coordinator.cpp\<close>) would report the same against
  the index of the program. Both compare two runs of \<open>build\<close> step by step (\<open>sameInputs\<close>, \<open>facts_agree\<close>).
\<close>

section \<open>What a run of the steps says\<close>

lemma andThen_Inr: "andThen step continue = Some (Inr r) \<longleftrightarrow> (\<exists>x. step = Some (Inr x) \<and> continue x = Some (Inr r))"
  by (auto simp: andThen_def split: option.splits sum.splits)

lemma returning_Inr: "returning step = Some (Inr x) \<longleftrightarrow> step = Some x"
  by (auto simp: returning_def)

lemma runSteps_Inr:
  "runSteps u co s p = Some (Inr d) \<longleftrightarrow>
     unitHeldLocks u co s p = Some (de_heldLocks d) \<and> unitLifecycles u co s p = Some (Inr (de_lifecycles d)) \<and>
     unitSignals u s = Some (de_signals d) \<and> unitProcesses u co s p = Some (de_processes d) \<and> unitWaits u s = Some (de_waits d) \<and>
     unitLocks u co s p = Some (de_locks d) \<and> unitOrders u co s p (de_locks d) = Some (Inr (de_orders d)) \<and>
     unitAccesses u co s p (de_heldLocks d) (de_locks d) = Some (Inr (de_accesses d))"
  by (cases d) (auto simp: runSteps_def andThen_Inr returning_Inr)

lemma build_Inr: "build u co s p = Some (Inr facts) \<longleftrightarrow> (\<exists>d. runSteps u co s p = Some (Inr d) \<and> facts = assembled u co s p d)"
  by (auto simp: build_def andThen_Inr)

section \<open>Two runs on the same inputs\<close>

text \<open>\<open>included\<close>: whatever one selection asks for, the other does too.\<close>

definition channels_included :: "CrossUnitChannels \<Rightarrow> CrossUnitChannels \<Rightarrow> bool" where
  "channels_included c c' \<longleftrightarrow> (cc_externGlobals c \<longrightarrow> cc_externGlobals c') \<and> (cc_helperLockEffects c \<longrightarrow> cc_helperLockEffects c') \<and>
     (cc_entryConcurrency c \<longrightarrow> cc_entryConcurrency c') \<and> (cc_programThreads c \<longrightarrow> cc_programThreads c') \<and>
     (cc_programReaps c \<longrightarrow> cc_programReaps c') \<and> (cc_resolvedHandles c \<longrightarrow> cc_resolvedHandles c') \<and> (cc_helperJoins c \<longrightarrow> cc_helperJoins c')"

definition included :: "FactSelection \<Rightarrow> FactSelection \<Rightarrow> bool" where
  "included s s' \<longleftrightarrow>
     (se_accesses s \<longrightarrow> se_accesses s') \<and> (se_lockOrders s \<longrightarrow> se_lockOrders s') \<and> (se_recursiveLockIds s \<longrightarrow> se_recursiveLockIds s') \<and>
     (se_threadLifecycles s \<longrightarrow> se_threadLifecycles s') \<and> (se_conditionWaits s \<longrightarrow> se_conditionWaits s') \<and>
     (se_processLifecycle s \<longrightarrow> se_processLifecycle s') \<and> (se_threadArgumentEscapes s \<longrightarrow> se_threadArgumentEscapes s') \<and>
     (se_threadArgumentFrees s \<longrightarrow> se_threadArgumentFrees s') \<and> (se_expiredThreadLocals s \<longrightarrow> se_expiredThreadLocals s') \<and>
     (se_signalHandlers s \<longrightarrow> se_signalHandlers s') \<and> (se_weakPublications s \<longrightarrow> se_weakPublications s') \<and>
     (se_threadEntries s \<longrightarrow> se_threadEntries s') \<and> channels_included (se_channels s) (se_channels s')"

text \<open>\<open>selection_closed\<close>: what a selection asks for it also prepares.\<close>

definition selection_closed :: "FactSelection \<Rightarrow> bool" where
  "selection_closed s \<longleftrightarrow> (lockState s \<longrightarrow> se_threadEntries s) \<and> (se_weakPublications s \<longrightarrow> se_accesses s) \<and>
     (cc_programThreads (se_channels s) \<longrightarrow> se_processLifecycle s)"

definition sameInputs ::
  "'v UnitModule \<Rightarrow> ('v, 'c) UnitCollectors \<Rightarrow> FactSelection \<Rightarrow> ProgramSymbolIndex option \<Rightarrow> FactSelection \<Rightarrow> ProgramSymbolIndex option \<Rightarrow> bool" where
  "sameInputs u co s p s' p' \<longleftrightarrow> included s s' \<and> selection_closed s \<and> (p \<noteq> None) = (p' \<noteq> None) \<and>
     (lockState s \<longrightarrow> trackedGlobals u p = trackedGlobals u p' \<and> unitSummaries u s p = unitSummaries u s' p' \<and>
        unitBindings u co s p = unitBindings u co s' p') \<and>
     (readsCompletions s \<longrightarrow> knownHelpers u s p = knownHelpers u s' p') \<and>
     (se_threadEntries s \<longrightarrow> unitEntryConcurrency u co s p = unitEntryConcurrency u co s' p')"

lemma included_derived:
  assumes "included s s'"
  shows "directCallSites s \<Longrightarrow> directCallSites s'" "spawns s \<Longrightarrow> spawns s'" "lockWrapperSummaries s \<Longrightarrow> lockWrapperSummaries s'"
    and "lockState s \<Longrightarrow> lockState s'" "taskConcurrency s \<Longrightarrow> taskConcurrency s'" "readsCompletions s \<Longrightarrow> readsCompletions s'"
  using assms
  by (auto simp: included_def channels_included_def directCallSites_def spawns_def lockWrapperSummaries_def lockState_def taskConcurrency_def
    readsCompletions_def)

lemma same_sites: "included s s' \<Longrightarrow> directCallSites s \<Longrightarrow> unitSites u s = unitSites u s'"
  by (simp add: unitSites_def included_derived)

lemma same_spawns:
  assumes "included s s'" "selection_closed s" "spawns s"
  shows "unitSpawns u co s c = unitSpawns u co s' c"
proof -
  have "directCallSites s" using assms(2,3) by (auto simp: spawns_def selection_closed_def directCallSites_def)
  then show ?thesis using assms by (simp add: unitSpawns_def included_derived same_sites [of s s'])
qed

lemma same_completions:
  assumes "sameInputs u co s p s' p'"
  shows "readsCompletions s \<Longrightarrow> unitHelpers u co s p = unitHelpers u co s' p'"
    and "readsCompletions s \<Longrightarrow> unitCompletions u co s p = unitCompletions u co s' p'"
    and "taskConcurrency s \<Longrightarrow> unitTasks u co s p = unitTasks u co s' p'"
proof -
  have inc: "included s s'" and known: "readsCompletions s \<Longrightarrow> knownHelpers u s p = knownHelpers u s' p'"
    and cross: "(p \<noteq> None) = (p' \<noteq> None)" using assms by (simp_all add: sameInputs_def)
  show helpers: "readsCompletions s \<Longrightarrow> unitHelpers u co s p = unitHelpers u co s' p'"
    by (simp add: unitHelpers_def known included_derived(6) [OF inc])
  show completions: "readsCompletions s \<Longrightarrow> unitCompletions u co s p = unitCompletions u co s' p'"
    by (simp add: unitCompletions_def helpers included_derived(6) [OF inc])
  show "unitTasks u co s p = unitTasks u co s' p'" if tasks: "taskConcurrency s"
  proof -
    have "readsCompletions s" "directCallSites s" using tasks by (auto simp: readsCompletions_def taskConcurrency_def directCallSites_def)
    then show ?thesis
      using tasks cross by (simp add: unitTasks_def completions included_derived(5) [OF inc] same_sites [OF inc])
  qed
qed

lemma same_lock_inputs:
  assumes "sameInputs u co s p s' p'" "lockState s"
  shows "unitTracker u co s p = unitTracker u co s' p'" "unitSites u s = unitSites u s'" "unitLocks u co s p = unitLocks u co s' p'"
    and "orderInputs u co s p locks = orderInputs u co s' p' locks"
proof -
  have inc: "included s s'" and same: "unitSummaries u s p = unitSummaries u s' p'" "unitBindings u co s p = unitBindings u co s' p'"
    and entries: "unitEntryConcurrency u co s p = unitEntryConcurrency u co s' p'"
    using assms by (auto simp: sameInputs_def selection_closed_def)
  have "directCallSites s" "taskConcurrency s" using assms(2) by (auto simp: lockState_def directCallSites_def taskConcurrency_def)
  then have tasks: "unitTasks u co s p = unitTasks u co s' p'" and sites: "unitSites u s = unitSites u s'"
    using same_sites [OF inc] same_completions [OF assms(1)] by simp_all
  show "unitSites u s = unitSites u s'" by (rule sites)
  show tracker: "unitTracker u co s p = unitTracker u co s' p'" by (simp add: unitTracker_def same)
  show "unitLocks u co s p = unitLocks u co s' p'" using assms(2) by (simp add: unitLocks_def tracker sites included_derived(4) [OF inc])
  show "orderInputs u co s p locks = orderInputs u co s' p' locks" by (simp add: orderInputs_def same sites tasks entries)
qed

lemma same_access_inputs:
  assumes "sameInputs u co s p s' p'" "se_accesses s"
  shows "unitPending u co s p = unitPending u co s' p'" "unitHeldLocks u co s p = unitHeldLocks u co s' p'"
    and "unitPublications u co s p = unitPublications u co s' p'" "unitAccesses u co s p held locks = unitAccesses u co s' p' held locks"
proof -
  have state: "lockState s" using assms(2) by (simp add: lockState_def)
  have inc: "included s s'" and closed: "selection_closed s" and cross: "(p \<noteq> None) = (p' \<noteq> None)"
    and same: "trackedGlobals u p = trackedGlobals u p'" "unitBindings u co s p = unitBindings u co s' p'"
    and entries: "unitEntryConcurrency u co s p = unitEntryConcurrency u co s' p'"
    using assms state by (auto simp: sameInputs_def selection_closed_def)
  have acc': "se_accesses s'" using inc assms(2) by (simp add: included_def)
  have "spawns s" "taskConcurrency s" "readsCompletions s"
    using closed state by (auto simp: selection_closed_def spawns_def taskConcurrency_def readsCompletions_def lockState_def)
  then have spawned: "\<And>c. unitSpawns u co s c = unitSpawns u co s' c" and tasks: "unitTasks u co s p = unitTasks u co s' p'"
    and completions: "unitCompletions u co s p = unitCompletions u co s' p'"
    using same_spawns [OF inc closed] same_completions [OF assms(1)] by simp_all
  note locks = same_lock_inputs [OF assms(1) state]
  show pending: "unitPending u co s p = unitPending u co s' p'" using assms(2) acc' by (simp add: unitPending_def same)
  show "unitHeldLocks u co s p = unitHeldLocks u co s' p'" by (simp add: unitHeldLocks_def pending locks)
  show published: "unitPublications u co s p = unitPublications u co s' p'" using cross by (simp add: unitPublications_def pending locks spawned)
  have "accessInputs u co s p held locks = accessInputs u co s' p' held locks"
    by (simp add: accessInputs_def same completions pending locks tasks entries published)
  then show "unitAccesses u co s p held locks = unitAccesses u co s' p' held locks" using assms(2) acc' cross by (simp add: unitAccesses_def)
qed

text \<open>What the program says enters the facts on processes only through two flags.\<close>

lemma process_step:
  assumes "se_processLifecycle s" "unitProcesses u co s p = Some r" "(p' \<noteq> None) = (p \<noteq> None)"
  shows "\<exists>r'. unitProcesses u co s p' = Some r' \<and> fa_processForks r' = fa_processForks r \<and>
     fa_reapsChildProcesses r' = (pc_reapsChildren (collectProcesses (un_leavesReaping u) (un_module u)) \<or>
       (case p' of None \<Rightarrow> False | Some index \<Rightarrow> programReapsChildren index)) \<and>
     fa_programCreatesThreads r' = (sc_spawns (unitSpawns u co s (p \<noteq> None)) \<noteq> [] \<or>
       (case p' of None \<Rightarrow> False | Some index \<Rightarrow> index_programCreatesThreads index))"
  using assms by (cases p; cases p') (auto simp: unitProcesses_def buildProcessFacts_def Let_def)

lemma same_processes:
  assumes "sameInputs u co s p s' p'" "se_processLifecycle s"
  shows "unitProcesses u co s q = unitProcesses u co s' q"
proof -
  have inc: "included s s'" and closed: "selection_closed s" using assms(1) by (simp_all add: sameInputs_def)
  have "spawns s" "directCallSites s" using assms(2) by (simp_all add: spawns_def directCallSites_def)
  then have "unitSites u s = unitSites u s'" "\<And>c. unitSpawns u co s c = unitSpawns u co s' c"
    using same_spawns [OF inc closed] same_sites [OF inc] by simp_all
  moreover have "se_processLifecycle s'" using inc assms(2) by (simp add: included_def)
  ultimately show ?thesis using assms(2) by (simp add: unitProcesses_def)
qed

lemma same_lifecycles:
  assumes "sameInputs u co s p s' p'" "se_threadLifecycles s"
  shows "unitLifecycles u co s p = unitLifecycles u co s' p'"
proof -
  have inc: "included s s'" using assms(1) by (simp add: sameInputs_def)
  have "directCallSites s" "readsCompletions s" using assms(2) by (simp_all add: directCallSites_def readsCompletions_def)
  moreover have "se_threadLifecycles s'" using inc assms(2) by (simp add: included_def)
  ultimately show ?thesis using assms(2) same_completions(2) [OF assms(1)] by (simp add: unitLifecycles_def same_sites [OF inc])
qed

lemma unselected_steps:
  "\<not> se_accesses s \<Longrightarrow> unitHeldLocks u co s p = Some Map.empty" "\<not> se_accesses s \<Longrightarrow> unitAccesses u co s p held locks = Some (Inr [])"
  "\<not> se_threadLifecycles s \<Longrightarrow> unitLifecycles u co s p = Some (Inr [])" "\<not> se_lockOrders s \<Longrightarrow> unitOrders u co s p locks = Some (Inr [])"
  "\<not> se_signalHandlers s \<Longrightarrow> unitSignals u s = Some []" "\<not> se_conditionWaits s \<Longrightarrow> unitWaits u s = Some []"
  "\<not> se_processLifecycle s \<Longrightarrow> \<exists>r. unitProcesses u co s p = Some r" "\<not> lockState s \<Longrightarrow> \<exists>r. unitLocks u co s p = Some r"
  by (simp_all add: unitHeldLocks_def unitPending_def unitAccesses_def unitLifecycles_def unitOrders_def unitSignals_def unitWaits_def
    unitProcesses_def unitLocks_def)

lemma steps_agree:
  assumes same: "sameInputs u co s p s' p'" and run: "runSteps u co s' p' = Some (Inr d')"
  shows "\<exists>d. runSteps u co s p = Some (Inr d) \<and> (se_accesses s \<longrightarrow> de_accesses d = de_accesses d') \<and>
    (se_lockOrders s \<longrightarrow> de_orders d = de_orders d') \<and> de_lifecycles d = (if se_threadLifecycles s then de_lifecycles d' else []) \<and>
    (se_signalHandlers s \<longrightarrow> de_signals d = de_signals d') \<and> (se_conditionWaits s \<longrightarrow> de_waits d = de_waits d') \<and>
    (se_processLifecycle s \<longrightarrow> fa_processForks (de_processes d) = fa_processForks (de_processes d'))"
proof -
  note run = run [unfolded runSteps_Inr]
  have inc: "included s s'" and cross: "(p \<noteq> None) = (p' \<noteq> None)" using same by (simp_all add: sameInputs_def)
  have state: "se_accesses s \<Longrightarrow> lockState s" "se_lockOrders s \<Longrightarrow> lockState s" by (simp_all add: lockState_def)
  obtain locks where locks: "unitLocks u co s p = Some locks" "lockState s \<Longrightarrow> locks = de_locks d'"
    using run same_lock_inputs(3) [OF same] unselected_steps(8) [of s u co p] by (cases "lockState s") auto
  obtain processes where processes: "unitProcesses u co s p = Some processes"
      "se_processLifecycle s \<Longrightarrow> fa_processForks processes = fa_processForks (de_processes d')"
  proof (cases "se_processLifecycle s")
    case True
    then have "unitProcesses u co s p' = Some (de_processes d')" using run same_processes [OF same] by simp
    from process_step [OF True this cross] that show thesis by blast
  qed (use that unselected_steps(7) in blast)
  let ?d = "\<lparr>de_heldLocks = (if se_accesses s then de_heldLocks d' else Map.empty), de_lifecycles = (if se_threadLifecycles s then de_lifecycles d' else []),
       de_signals = (if se_signalHandlers s then de_signals d' else []), de_processes = processes,
       de_waits = (if se_conditionWaits s then de_waits d' else []), de_locks = locks,
       de_orders = (if se_lockOrders s then de_orders d' else []), de_accesses = (if se_accesses s then de_accesses d' else [])\<rparr>"
  have "unitSignals u s = Some (if se_signalHandlers s then de_signals d' else [])"
  proof (cases "se_signalHandlers s")
    case True
    then have "directCallSites s" "se_signalHandlers s'" using inc by (simp_all add: directCallSites_def included_def)
    then show ?thesis using True run by (simp add: unitSignals_def same_sites [OF inc])
  qed (simp add: unselected_steps)
  moreover have "unitWaits u s = Some (if se_conditionWaits s then de_waits d' else [])"
  proof (cases "se_conditionWaits s")
    case True
    then have "directCallSites s" "se_conditionWaits s'" using inc by (simp_all add: directCallSites_def included_def)
    then show ?thesis using True run by (simp add: unitWaits_def same_sites [OF inc])
  qed (simp add: unselected_steps)
  moreover have "unitHeldLocks u co s p = Some (if se_accesses s then de_heldLocks d' else Map.empty)"
    using run same_access_inputs(2) [OF same] by (simp add: unselected_steps)
  moreover have "unitLifecycles u co s p = Some (Inr (if se_threadLifecycles s then de_lifecycles d' else []))"
    using run same_lifecycles [OF same] by (simp add: unselected_steps)
  moreover have "unitOrders u co s p locks = Some (Inr (if se_lockOrders s then de_orders d' else []))"
  proof (cases "se_lockOrders s")
    case True
    then have "se_lockOrders s'" "lockState s" using inc state by (simp_all add: included_def)
    then show ?thesis using True run locks(2) by (simp add: unitOrders_def same_lock_inputs(4) [OF same])
  qed (simp add: unselected_steps)
  moreover have "unitAccesses u co s p (if se_accesses s then de_heldLocks d' else Map.empty) locks =
      Some (Inr (if se_accesses s then de_accesses d' else []))"
    using run locks(2) state(1) same_access_inputs(4) [OF same] by (simp add: unselected_steps)
  ultimately have "runSteps u co s p = Some (Inr ?d)" using locks(1) processes(1) unfolding runSteps_Inr by simp
  then show ?thesis using processes(2) by (intro exI [of _ ?d] conjI) simp_all
qed

lemma facts_agree:
  assumes same: "sameInputs u co s p s' p'" and run: "build u co s' p' = Some (Inr facts')"
  shows "\<exists>facts lifecycles. build u co s p = Some (Inr facts) \<and>
    agreeOn (s\<lparr>se_threadLifecycles := False, se_processLifecycle := False\<rparr>) facts facts' \<and>
    (se_threadLifecycles s \<longrightarrow> unitLifecycles u co s' p' = Some (Inr lifecycles) \<and>
       tu_threadLifecycles facts = outstandingLifecycles u p lifecycles \<and> tu_threadLifecycles facts' = outstandingLifecycles u p' lifecycles) \<and>
    (se_processLifecycle s \<longrightarrow> tu_processForks facts = tu_processForks facts' \<and>
       (\<exists>reaps creates. \<forall>(q, fs) \<in> {(p, facts), (p', facts')}.
          tu_reapsChildProcesses fs = (reaps \<or> (case q of None \<Rightarrow> False | Some index \<Rightarrow> programReapsChildren index)) \<and>
          tu_programCreatesThreads fs = (creates \<or> (case q of None \<Rightarrow> False | Some index \<Rightarrow> index_programCreatesThreads index))))"
proof -
  have inc: "included s s'" and closed: "selection_closed s" and cross: "(p \<noteq> None) = (p' \<noteq> None)"
    and entries: "se_threadEntries s \<Longrightarrow> unitEntryConcurrency u co s p = unitEntryConcurrency u co s' p'" using same by (simp_all add: sameInputs_def)
  obtain d' where d': "runSteps u co s' p' = Some (Inr d')" "facts' = assembled u co s' p' d'" using run by (auto simp: build_Inr)
  obtain d where d: "runSteps u co s p = Some (Inr d)" "se_accesses s \<Longrightarrow> de_accesses d = de_accesses d'"
      "se_lockOrders s \<Longrightarrow> de_orders d = de_orders d'" "de_lifecycles d = (if se_threadLifecycles s then de_lifecycles d' else [])"
      "se_signalHandlers s \<Longrightarrow> de_signals d = de_signals d'" "se_conditionWaits s \<Longrightarrow> de_waits d = de_waits d'"
      "se_processLifecycle s \<Longrightarrow> fa_processForks (de_processes d) = fa_processForks (de_processes d')"
    using steps_agree [OF same d'(1)] by blast
  let ?facts = "assembled u co s p d"
  have lifetimes: "unitCompletions u co s p = unitCompletions u co s' p'"
    if "se_threadArgumentEscapes s \<or> se_threadArgumentFrees s \<or> se_expiredThreadLocals s"
    using that same_completions(2) [OF same] by (auto simp: readsCompletions_def)
  have threads: "unitTasks u co s p = unitTasks u co s' p'" "unitSites u s = unitSites u s'" if "se_threadEntries s"
    using that same_completions(3) [OF same] same_sites [OF inc, of u] by (auto simp: taskConcurrency_def directCallSites_def)
  have "agreeOn (s\<lparr>se_threadLifecycles := False, se_processLifecycle := False\<rparr>) ?facts facts'"
    using d inc closed lifetimes threads entries same_access_inputs(3) [OF same]
    by (auto simp: d'(2) agreeOn_def assembled_def Let_def included_def selection_closed_def unitLifetimes_def sameThreads_def)
  moreover have "se_threadLifecycles s \<Longrightarrow> unitLifecycles u co s' p' = Some (Inr (de_lifecycles d')) \<and>
      tu_threadLifecycles ?facts = outstandingLifecycles u p (de_lifecycles d') \<and> tu_threadLifecycles facts' = outstandingLifecycles u p' (de_lifecycles d')"
    using d(4) d' by (simp add: assembled_def Let_def runSteps_Inr)
  moreover have "tu_processForks ?facts = tu_processForks facts' \<and>
      (\<exists>reaps creates. \<forall>(q, fs) \<in> {(p, ?facts), (p', facts')}.
          tu_reapsChildProcesses fs = (reaps \<or> (case q of None \<Rightarrow> False | Some index \<Rightarrow> programReapsChildren index)) \<and>
          tu_programCreatesThreads fs = (creates \<or> (case q of None \<Rightarrow> False | Some index \<Rightarrow> index_programCreatesThreads index)))"
    if sel: "se_processLifecycle s"
  proof (intro conjI exI)
    have step: "unitProcesses u co s p' = Some (de_processes d')" "unitProcesses u co s p = Some (de_processes d)"
      using d'(1) d(1) same_processes [OF same sel, of p'] by (simp_all add: runSteps_Inr)
    show "tu_processForks ?facts = tu_processForks facts'" using d(7) [OF sel] by (simp add: d'(2) assembled_def Let_def)
    show "\<forall>(q, fs) \<in> {(p, ?facts), (p', facts')}.
          tu_reapsChildProcesses fs = (pc_reapsChildren (collectProcesses (un_leavesReaping u) (un_module u)) \<or>
            (case q of None \<Rightarrow> False | Some index \<Rightarrow> programReapsChildren index)) \<and>
          tu_programCreatesThreads fs = (sc_spawns (unitSpawns u co s (p \<noteq> None)) \<noteq> [] \<or>
            (case q of None \<Rightarrow> False | Some index \<Rightarrow> index_programCreatesThreads index))"
      using process_step [OF sel step(2) refl] process_step [OF sel step(1) refl] step cross
      by (auto simp: d'(2) assembled_def Let_def)
  qed
  ultimately show ?thesis using d(1) by (intro exI [of _ ?facts] exI [of _ "de_lifecycles d'"]) (simp add: build_Inr)
qed

section \<open>The selections of rules\<close>

lemma included_refl: "included s s"
  by (simp add: included_def channels_included_def)

lemma included_trans: "included s t \<Longrightarrow> included t v \<Longrightarrow> included s v"
  by (simp add: included_def channels_included_def)

lemma included_selectRule: "included s (selectRule rule s)"
  by (cases rule) (simp_all add: included_def channels_included_def on_channels_def)

lemma included_fold: "included s (fold selectRule rules s)"
proof (induction rules arbitrary: s)
  case (Cons rule rules)
  show ?case using included_trans [OF included_selectRule Cons.IH] by simp
qed (simp add: included_refl)

lemma included_forRules:
  assumes "set rules \<subseteq> set rules'"
  shows "included (forRules rules project) (forRules rules' project)"
proof -
  have "included (fold selectRule rules no_selection) (fold selectRule rules' no_selection)"
    using included_fold [of "fold selectRule rules no_selection" rules'] fold_selectRule_subset [OF assms, of no_selection] by simp
  then show ?thesis by (auto simp: forRules_def Let_def included_def channels_included_def no_channels_def)
qed

text \<open>\<open>channels_closed\<close>: in a project, the channels that change a selected fact are selected, but for those that change shared objects and lock effects.\<close>

definition channels_closed :: "FactSelection \<Rightarrow> bool" where
  "channels_closed s \<longleftrightarrow> (readsCompletions s \<longrightarrow> cc_helperJoins (se_channels s)) \<and> (se_threadEntries s \<longrightarrow> cc_entryConcurrency (se_channels s)) \<and>
     (se_threadLifecycles s \<longrightarrow> cc_resolvedHandles (se_channels s))"

lemma selectRule_closed:
  "selection_closed s \<Longrightarrow> selection_closed (selectRule rule s)" "channels_closed s \<Longrightarrow> channels_closed (selectRule rule s)"
  "channels_closed s \<Longrightarrow> (cc_entryConcurrency (se_channels s) \<longrightarrow> cc_helperJoins (se_channels s)) \<and> (cc_resolvedHandles (se_channels s) \<longrightarrow> cc_helperJoins (se_channels s)) \<Longrightarrow>
     (cc_entryConcurrency (se_channels (selectRule rule s)) \<longrightarrow> cc_helperJoins (se_channels (selectRule rule s))) \<and>
     (cc_resolvedHandles (se_channels (selectRule rule s)) \<longrightarrow> cc_helperJoins (se_channels (selectRule rule s)))"
  by (cases rule; simp add: selection_closed_def channels_closed_def on_channels_def lockState_def readsCompletions_def taskConcurrency_def)+

lemma forRules_closed: "selection_closed (forRules rules project)" "channels_closed (forRules rules True)"
proof -
  let ?I = "\<lambda>s. selection_closed s \<and> channels_closed s \<and>
    (cc_entryConcurrency (se_channels s) \<longrightarrow> cc_helperJoins (se_channels s)) \<and> (cc_resolvedHandles (se_channels s) \<longrightarrow> cc_helperJoins (se_channels s))"
  have "?I (fold selectRule rules s)" if "?I s" for s
    using that
  proof (induction rules arbitrary: s)
    case (Cons rule rules)
    have "?I (selectRule rule s)" using Cons.prems selectRule_closed [of s rule] by blast
    then show ?case using Cons.IH by simp
  qed simp
  from this [of no_selection] have "?I (fold selectRule rules no_selection)"
    by (simp add: no_selection_def no_channels_def selection_closed_def channels_closed_def lockState_def readsCompletions_def taskConcurrency_def)
  then show "selection_closed (forRules rules project)" "channels_closed (forRules rules True)"
    by (auto simp: forRules_def Let_def selection_closed_def channels_closed_def lockState_def readsCompletions_def taskConcurrency_def no_channels_def)
qed

lemma same_program_inputs:
  assumes "set rules \<subseteq> set rules'"
  shows "sameInputs u co (forRules rules project) p (forRules rules' project) p"
proof -
  let ?s = "forRules rules project" and ?s' = "forRules rules' project"
  have inc: "included ?s ?s'" using assms by (rule included_forRules)
  have closed: "selection_closed ?s" by (rule forRules_closed)
  note up = included_derived [OF inc] and spawned = same_spawns [OF inc closed]
  have known: "knownHelpers u ?s p = knownHelpers u ?s' p" if "readsCompletions ?s"
  proof (cases project)
    case True
    then have "cc_helperJoins (se_channels ?s)" using that forRules_closed(2) [of rules] by (simp add: channels_closed_def)
    then show ?thesis using inc by (auto simp: knownHelpers_def included_def channels_included_def split: option.split)
  qed (simp add: knownHelpers_def forRules_def Let_def no_channels_def split: option.split)
  have locks: "unitSummaries u ?s p = unitSummaries u ?s' p" "unitBindings u co ?s p = unitBindings u co ?s' p" if state: "lockState ?s"
  proof -
    have "directCallSites ?s" "spawns ?s" "lockWrapperSummaries ?s"
      using state closed by (auto simp: directCallSites_def lockState_def selection_closed_def spawns_def lockWrapperSummaries_def)
    then show "unitSummaries u ?s p = unitSummaries u ?s' p" "unitBindings u co ?s p = unitBindings u co ?s' p"
      using up state by (simp_all add: unitSummaries_def unitBindings_def same_sites [OF inc] spawned)
  qed
  have entries: "unitEntryConcurrency u co ?s p = unitEntryConcurrency u co ?s' p" if sel: "se_threadEntries ?s"
  proof -
    have "readsCompletions ?s" "directCallSites ?s" "spawns ?s" "taskConcurrency ?s"
      using sel by (simp_all add: readsCompletions_def taskConcurrency_def directCallSites_def spawns_def)
    moreover have "se_threadEntries ?s'" using sel inc by (simp add: included_def)
    ultimately have "ownEntryConcurrency u co ?s p = ownEntryConcurrency u co ?s' p"
      using sel up by (simp add: ownEntryConcurrency_def unitTasks_def unitCompletions_def unitHelpers_def known spawned same_sites [OF inc])
    then show ?thesis by (simp only: unitEntryConcurrency_def)
  qed
  show ?thesis unfolding sameInputs_def using inc closed known locks entries by simp
qed

text \<open>
  C7: The facts that no selected rule reads may be left out: for the rules of a run and any larger set of rules, a unit whose facts are built for the larger set is
  also built for the smaller one, and each rule of the smaller set reports the same diagnostics from both, in a unit analysis and in a project.
\<close>

theorem unread_facts_skipped:
  assumes "set rules \<subseteq> set rules'" "build u co (forRules rules' project) program = Some (Inr facts')"
  shows "\<exists>facts. build u co (forRules rules project) program = Some (Inr facts) \<and>
    list_all (\<lambda>rule. ofRule rule (checkerOf rule facts) = ofRule rule (checkerOf rule facts')) rules"
proof -
  let ?s = "forRules rules project"
  obtain facts lifecycles where f: "build u co ?s program = Some (Inr facts)"
      "agreeOn (?s\<lparr>se_threadLifecycles := False, se_processLifecycle := False\<rparr>) facts facts'"
      "se_threadLifecycles ?s \<Longrightarrow> tu_threadLifecycles facts = tu_threadLifecycles facts'"
      "se_processLifecycle ?s \<Longrightarrow> tu_processForks facts = tu_processForks facts' \<and>
         tu_reapsChildProcesses facts = tu_reapsChildProcesses facts' \<and> tu_programCreatesThreads facts = tu_programCreatesThreads facts'"
    using facts_agree [OF same_program_inputs [OF assms(1)] assms(2)] by fastforce
  then have "agreeOn ?s facts facts'" by (simp add: agreeOn_def)
  then have "ofRule rule (checkerOf rule facts) = ofRule rule (checkerOf rule facts')" if "rule \<in> set rules" for rule
    using sameRead_report [OF agreeOn_sameRead [OF readsSelected_forRules [OF that]]] by blast
  then show ?thesis using f(1) by (auto simp: list_all_iff)
qed

section \<open>The gate of the second pass\<close>

text \<open>
  A project analyses every unit first against an empty index, then against the index of the program those facts give, but only the units for which
  \<open>crossTUChangesFacts\<close> says so. What it means for the gate to leave out a unit:
\<close>

lemma gate_closed:
  assumes "\<not> crossTUChangesFacts facts index s"
  shows "cc_externGlobals (se_channels s) \<Longrightarrow> g \<in> ps_declaredGlobals (tu_program facts) \<Longrightarrow> g \<notin> pi_definedGlobals index"
    and "cc_programThreads (se_channels s) \<Longrightarrow> tu_processForks facts = [] \<or> tu_programCreatesThreads facts \<or> \<not> index_programCreatesThreads index"
    and "cc_programReaps (se_channels s) \<Longrightarrow> tu_processForks facts = [] \<or> tu_reapsChildProcesses facts \<or> \<not> programReapsChildren index"
    and "cc_resolvedHandles (se_channels s) \<Longrightarrow> fct \<in> set (tu_threadLifecycles facts) \<Longrightarrow> tl_action fct = TL_Create \<Longrightarrow>
      map_of (ps_handleSymbolsByGroupId (tu_program facts)) (tl_handleGroupId fct) = Some symbol \<Longrightarrow> \<not> resolvesHandleElsewhere index symbol"
    and "cc_helperLockEffects (se_channels s) \<Longrightarrow> f \<in> ps_declaredFunctions (tu_program facts) \<Longrightarrow> lockSummaryFor index f = None"
    and "cc_helperJoins (se_channels s) \<Longrightarrow> f \<in> ps_declaredFunctions (tu_program facts) \<Longrightarrow> joinedParametersOf index f = None"
    and "cc_entryConcurrency (se_channels s) \<Longrightarrow> f \<in> ps_settlingFunctions (tu_program facts) \<Longrightarrow> \<not> appearsInSeveralUnits index f"
    and "cc_entryConcurrency (se_channels s) \<Longrightarrow> (i, f) \<in> set (ps_functionSymbolsById (tu_program facts)) \<Longrightarrow>
      f \<notin> ps_declaredFunctions (tu_program facts) \<Longrightarrow> isThreadEntry index f \<Longrightarrow>
      \<exists>c. map_of (tu_entryConcurrency facts) i = Some c \<and> spawnCount index f \<le> ec_staticSpawnCount c \<and> (spawnedInLoop index f \<longrightarrow> ec_hasSpawnInLoop c)"
proof -
  have flat: "(if A then True else X) = (A \<or> X)" "(if A then False else X) = (\<not> A \<and> X)" for A X by auto
  note gate = assms [unfolded crossTUChangesFacts_def Let_def flat de_Morgan_disj de_Morgan_conj not_not]
  show "g \<notin> pi_definedGlobals index" if "cc_externGlobals (se_channels s)" "g \<in> ps_declaredGlobals (tu_program facts)"
    using gate that by (auto simp: isDefinedSomewhere_def)
  show "tu_processForks facts = [] \<or> tu_programCreatesThreads facts \<or> \<not> index_programCreatesThreads index" if "cc_programThreads (se_channels s)"
    using gate that by blast
  show "tu_processForks facts = [] \<or> tu_reapsChildProcesses facts \<or> \<not> programReapsChildren index" if "cc_programReaps (se_channels s)"
    using gate that by blast
  show "\<not> resolvesHandleElsewhere index symbol" if "cc_resolvedHandles (se_channels s)" "fct \<in> set (tu_threadLifecycles facts)" "tl_action fct = TL_Create"
    "map_of (ps_handleSymbolsByGroupId (tu_program facts)) (tl_handleGroupId fct) = Some symbol"
  proof -
    have "\<not> (case map_of (ps_handleSymbolsByGroupId (tu_program facts)) (tl_handleGroupId fct) of None \<Rightarrow> False | Some symbol \<Rightarrow> resolvesHandleElsewhere index symbol)"
      using gate that(1-3) by blast
    then show ?thesis using that(4) by simp
  qed
  show "lockSummaryFor index f = None" if "cc_helperLockEffects (se_channels s)" "f \<in> ps_declaredFunctions (tu_program facts)"
    using gate that by blast
  show "joinedParametersOf index f = None" if "cc_helperJoins (se_channels s)" "f \<in> ps_declaredFunctions (tu_program facts)"
    using gate that by blast
  show "\<not> appearsInSeveralUnits index f" if "cc_entryConcurrency (se_channels s)" "f \<in> ps_settlingFunctions (tu_program facts)"
    using gate that by blast
  show "\<exists>c. map_of (tu_entryConcurrency facts) i = Some c \<and> spawnCount index f \<le> ec_staticSpawnCount c \<and> (spawnedInLoop index f \<longrightarrow> ec_hasSpawnInLoop c)"
    if "cc_entryConcurrency (se_channels s)" "(i, f) \<in> set (ps_functionSymbolsById (tu_program facts))"
      "f \<notin> ps_declaredFunctions (tu_program facts)" "isThreadEntry index f"
  proof -
    have "\<not> (case map_of (tu_entryConcurrency facts) i of None \<Rightarrow> True
         | Some c \<Rightarrow> ec_staticSpawnCount c < spawnCount index f \<or> spawnedInLoop index f \<and> \<not> ec_hasSpawnInLoop c)"
      using gate that by blast
    then show ?thesis by (auto split: option.splits)
  qed
qed

lemma nothing_known:
  "lockSummaryFor empty_index f = None" "joinedParametersOf empty_index f = None" "\<not> isThreadEntry empty_index f" "spawnCount empty_index f = 0"
  "\<not> appearsInSeveralUnits empty_index f" "\<not> resolvesHandleElsewhere empty_index f" "\<not> programReapsChildren empty_index"
  "\<not> index_programCreatesThreads empty_index" "pi_definedGlobals empty_index = {}"
  by (simp_all add: empty_index_def lockSummaryFor_def joinedParametersOf_def isThreadEntry_def spawnCount_def appearsInSeveralUnits_def
    resolvesHandleElsewhere_def programReapsChildren_def index_programCreatesThreads_def)

lemma fold_unchanged: "(\<And>x. x \<in> set xs \<Longrightarrow> f x st = st) \<Longrightarrow> fold f xs st = st"
  by (induction xs) auto

text \<open>The channels of the gate, one by one.\<close>

lemma tracked_unchanged:
  assumes "\<And>g. g \<in> gv_symbol ` set (filter gv_isDeclaration (filter canBeSharedState (un_globals u))) \<Longrightarrow> g \<notin> pi_definedGlobals index"
  shows "trackedGlobals u (Some index) = trackedGlobals u (Some empty_index)"
proof -
  have "shouldTrackSharedGlobal g (Some (pi_definedGlobals index)) = shouldTrackSharedGlobal g (Some (pi_definedGlobals empty_index))"
    if "g \<in> set (un_globals u)" for g
    using assms [of "gv_symbol g"] that by (auto simp: shouldTrackSharedGlobal_def nothing_known)
  then show ?thesis by (simp add: trackedGlobals_def cong: filter_cong)
qed

lemma summaries_unchanged:
  assumes "\<And>f. f \<in> programSymbol u ` set (declaredFunctionsOf u) \<Longrightarrow> lockSummaryFor index f = None"
  shows "unitSummaries u s (Some index) = unitSummaries u s (Some empty_index)"
proof -
  have "fold (addProgramSummary u i) (declaredFunctionsOf u) summaries = summaries" if "i = index \<or> i = empty_index" for i summaries
    using that assms by (intro fold_unchanged) (auto simp: addProgramSummary_def nothing_known)
  then show ?thesis by (simp add: unitSummaries_def Let_def)
qed

lemma helpers_unchanged:
  assumes "\<And>f. cc_helperJoins (se_channels s) \<Longrightarrow> f \<in> programSymbol u ` set (declaredFunctionsOf u) \<Longrightarrow> joinedParametersOf index f = None"
  shows "knownHelpers u s (Some index) = knownHelpers u s (Some empty_index)"
proof -
  have "fold (addKnownHelper u i) (declaredFunctionsOf u) [] = []" if "i = index \<or> i = empty_index" "cc_helperJoins (se_channels s)" for i
    using that assms by (intro fold_unchanged) (auto simp: addKnownHelper_def nothing_known)
  then show ?thesis by (simp add: knownHelpers_def)
qed

lemma umap_update_same: "map_of m k = Some v \<Longrightarrow> g (Some v) = v \<Longrightarrow> umap_update k g m = m"
  by (induction k g m rule: umap_update.induct) auto

text \<open>
  \<open>elements_started_once\<close>: no entry whose threads each get an element of their own counts more than one start in the program. The count is that of threads
  that can be alive at once, and at least two for a loop whose threads overlap: such an entry is not covered, and \<open>own_elements_lost\<close> below shows that
  the second pass does report more for it.
\<close>

definition elements_started_once :: "'v UnitModule \<Rightarrow> SharedObjectBindings \<Rightarrow> ProgramSymbolIndex \<Rightarrow> bool" where
  "elements_started_once u bindings index \<longleftrightarrow>
     (\<forall>f \<in> set (un_module u). case map_of bindings (fn_id f) of None \<Rightarrow> True
        | Some binding \<Rightarrow> sb_elementPerThread binding \<longrightarrow> spawnCount index (programSymbol u f) \<le> 1)"

lemma settle_alone:
  "settleBinding u empty_index f (bindings, settled) =
     (bindings, settled \<union> (case map_of bindings (fn_id f) of None \<Rightarrow> {} | Some binding \<Rightarrow> set (settlingSymbols u binding)))"
  by (auto simp: settleBinding_def nothing_known list_ex_iff split: option.split)

lemma settled_grows: "settled \<subseteq> snd (fold (settleBinding u empty_index) fs (bindings, settled))"
proof (induction fs arbitrary: settled)
  case (Cons f fs)
  show ?case
    using Cons.IH [of "settled \<union> (case map_of bindings (fn_id f) of None \<Rightarrow> {} | Some binding \<Rightarrow> set (settlingSymbols u binding))"]
    by (simp add: settle_alone)
qed simp

lemma settle_unchanged:
  assumes "elements_started_once u bindings index" "set fs \<subseteq> set (un_module u)"
    "\<And>symbol. symbol \<in> snd (fold (settleBinding u empty_index) fs (bindings, settled)) \<Longrightarrow> \<not> appearsInSeveralUnits index symbol"
  shows "fold (settleBinding u index) fs (bindings, settled) = fold (settleBinding u empty_index) fs (bindings, settled)"
  using assms(2,3)
proof (induction fs arbitrary: settled)
  case (Cons f fs)
  show ?case
  proof (cases "map_of bindings (fn_id f)")
    case None
    then show ?thesis using Cons by (simp add: settleBinding_def)
  next
    case (Some binding)
    let ?settled = "settled \<union> set (settlingSymbols u binding)"
    have start: "settleBinding u empty_index f (bindings, settled) = (bindings, ?settled)"
      using Some by (simp add: settle_alone)
    have "set (settlingSymbols u binding) \<subseteq> snd (fold (settleBinding u empty_index) (f # fs) (bindings, settled))"
      using settled_grows [of ?settled u fs bindings] start by simp
    then have "\<not> list_ex (appearsInSeveralUnits index) (settlingSymbols u binding)" using Cons.prems(2) by (auto simp: list_ex_iff)
    moreover have "umap_update (fn_id f) (\<lambda>_. binding\<lparr>sb_elementPerThread := False\<rparr>) bindings = bindings" if "1 < spawnCount index (programSymbol u f)"
    proof -
      have "f \<in> set (un_module u)" using Cons.prems(1) by simp
      from bspec [OF assms(1) [unfolded elements_started_once_def] this] have "\<not> sb_elementPerThread binding" using Some that by simp
      then show ?thesis using Some by (intro umap_update_same) auto
    qed
    ultimately have "settleBinding u index f (bindings, settled) = (bindings, ?settled)" using Some by (simp add: settleBinding_def)
    then show ?thesis using Cons.IH [of ?settled] Cons.prems start by simp
  qed
qed simp

lemma seeds_unchanged:
  assumes "\<And>f. f \<in> set (definedFunctionsOf u) \<Longrightarrow> isThreadEntry index (programSymbol u f) \<Longrightarrow>
    \<exists>c. map_of entries (fn_id f) = Some c \<and> spawnCount index (programSymbol u f) \<le> ec_staticSpawnCount c \<and>
      (spawnedInLoop index (programSymbol u f) \<longrightarrow> ec_hasSpawnInLoop c)"
  shows "fold (seedEntry u index) (definedFunctionsOf u) entries = entries"
proof (rule fold_unchanged)
  fix f assume f: "f \<in> set (definedFunctionsOf u)"
  show "seedEntry u index f entries = entries"
  proof (cases "isThreadEntry index (programSymbol u f)")
    case True
    from assms [OF f this] obtain c where c: "map_of entries (fn_id f) = Some c" "spawnCount index (programSymbol u f) \<le> ec_staticSpawnCount c"
        "spawnedInLoop index (programSymbol u f) \<longrightarrow> ec_hasSpawnInLoop c" by blast
    then have "seedConcurrency index (programSymbol u f) (Some c) = c" by (cases c) (auto simp: seedConcurrency_def max_def)
    then show ?thesis using c(1) True by (simp add: seedEntry_def umap_update_same)
  qed (simp add: seedEntry_def)
qed

lemma entries_unseeded: "unitEntryConcurrency u co s (Some empty_index) = ownEntryConcurrency u co s (Some empty_index)"
  by (simp add: unitEntryConcurrency_def seedEntry_def nothing_known fold_unchanged)

lemma recordHandle_symbols:
  "map_of (recordHandle u g symbols) g' =
     (case map_of symbols g' of Some symbol \<Rightarrow> Some symbol
      | None \<Rightarrow> if g' \<noteq> g then None
                else Option.bind (globalOfStorageGroupId (map gv_name (un_globals u)) g)
                  (\<lambda>name. map_option gv_symbol (find (\<lambda>global. gv_name global = name) (un_globals u))))"
  by (auto simp: recordHandle_def umap_lookup_update split: option.split)

lemma recordHandles_symbols:
  "map_of (fold (recordHandle u) gs symbols) g =
     (case map_of symbols g of Some symbol \<Rightarrow> Some symbol
      | None \<Rightarrow> if g \<notin> set gs then None
                else Option.bind (globalOfStorageGroupId (map gv_name (un_globals u)) g)
                  (\<lambda>name. map_option gv_symbol (find (\<lambda>global. gv_name global = name) (un_globals u))))"
proof (induction gs arbitrary: symbols)
  case (Cons h gs)
  show ?case by (simp only: fold_simps comp_def Cons.IH) (auto simp: recordHandle_symbols split: option.split)
qed (auto split: option.split)

lemma outstanding_alone: "outstandingLifecycles u (Some empty_index) lifecycles = lifecycles"
  by (simp add: outstandingLifecycles_def dropResolvedElsewhere_def handleResolvedElsewhere_def nothing_known filter_id_conv split: option.split)

lemma outstanding_unchanged:
  assumes "\<And>fct symbol. fct \<in> set lifecycles \<Longrightarrow> tl_action fct = TL_Create \<Longrightarrow>
      map_of (ps_handleSymbolsByGroupId (collectProgramSymbolFacts u resolved lifecycles)) (tl_handleGroupId fct) = Some symbol \<Longrightarrow>
      \<not> resolvesHandleElsewhere index symbol"
  shows "outstandingLifecycles u (Some index) lifecycles = lifecycles"
proof -
  have "\<not> handleResolvedElsewhere u index name"
    if fct: "fct \<in> set lifecycles" "tl_action fct = TL_Create" and name: "globalOfStorageGroupId (map gv_name (un_globals u)) (tl_handleGroupId fct) = Some name"
    for fct name
  proof (cases "find (\<lambda>global. gv_name global = name) (un_globals u)")
    case (Some handle)
    have "map_of (ps_handleSymbolsByGroupId (collectProgramSymbolFacts u resolved lifecycles)) (tl_handleGroupId fct) = Some (gv_symbol handle)"
      using fct name Some by (auto simp: collectProgramSymbolFacts_def Let_def recordHandles_symbols)
    then show ?thesis using assms [OF fct] Some by (simp add: handleResolvedElsewhere_def)
  qed (simp add: handleResolvedElsewhere_def)
  then show ?thesis by (auto simp: outstandingLifecycles_def dropResolvedElsewhere_def filter_id_conv split: option.split)
qed

lemma function_symbols:
  assumes "f \<in> set fs" "\<And>k v. map_of m k = Some v \<Longrightarrow> v = un_functionSymbol u k"
  shows "map_of (fold (\<lambda>f. umap_update (fn_id f) (emplace (programSymbol u f))) fs m) (fn_id f) = Some (programSymbol u f)"
proof -
  have "map_of (fold (\<lambda>f. umap_update (fn_id f) (emplace (programSymbol u f))) fs m) k =
      (if k \<in> fn_id ` set fs \<or> map_of m k \<noteq> None then Some (un_functionSymbol u k) else None)" for k
    using assms(2)
  proof (induction fs arbitrary: m)
    case (Cons f fs)
    let ?m = "umap_update (fn_id f) (emplace (programSymbol u f)) m"
    have step: "v = un_functionSymbol u k'" if "map_of ?m k' = Some v" for k' v
      using that Cons.prems by (auto simp: umap_lookup_update emplace_def split: if_splits option.splits)
    show ?case using Cons.IH [of ?m, OF step] by (simp add: umap_lookup_update)
  qed force
  then show ?thesis using assms(1) by simp
qed

text \<open>
  \<open>lock_rules_together\<close>: the rules that look at locks or shared objects are selected together with the channels that may change them. The deadlock rule
  alone selects no channel for globals that other units define, although they may be what a thread is handed.
\<close>

definition lock_rules_together :: "RuleId list \<Rightarrow> bool" where
  "lock_rules_together rules \<longleftrightarrow>
     DataRaceGlobal \<in> set rules \<or> (DeadlockLockOrder \<in> set rules \<longleftrightarrow> WeakPublicationOrdering \<in> set rules)"

definition symbols_apart :: "'v UnitModule \<Rightarrow> bool" where
  "symbols_apart u \<longleftrightarrow> programSymbol u ` set (definedFunctionsOf u) \<inter> programSymbol u ` set (declaredFunctionsOf u) = {}"

lemma fold_selects:
  "se_accesses (fold selectRule rules s) \<longleftrightarrow> se_accesses s \<or> DataRaceGlobal \<in> set rules \<or> WeakPublicationOrdering \<in> set rules"
  "se_lockOrders (fold selectRule rules s) \<longleftrightarrow> se_lockOrders s \<or> DeadlockLockOrder \<in> set rules"
  "cc_externGlobals (se_channels (fold selectRule rules s)) \<longleftrightarrow>
     cc_externGlobals (se_channels s) \<or> DataRaceGlobal \<in> set rules \<or> WeakPublicationOrdering \<in> set rules"
  "cc_helperLockEffects (se_channels (fold selectRule rules s)) \<longleftrightarrow>
     cc_helperLockEffects (se_channels s) \<or> DataRaceGlobal \<in> set rules \<or> DeadlockLockOrder \<in> set rules"
  "cc_programThreads (se_channels (fold selectRule rules s)) \<longleftrightarrow> cc_programThreads (se_channels s) \<or> ForkAfterThreadCreation \<in> set rules"
  "cc_programReaps (se_channels (fold selectRule rules s)) \<longleftrightarrow> cc_programReaps (se_channels s) \<or> UnreapedChildProcess \<in> set rules"
proof (induction rules arbitrary: s)
  case (Cons rule rules)
  {
    case 1 show ?case using Cons(1) [of "selectRule rule s"] by (cases rule) (simp_all add: on_channels_def)
  next
    case 2 show ?case using Cons(2) [of "selectRule rule s"] by (cases rule) (simp_all add: on_channels_def)
  next
    case 3 show ?case using Cons(3) [of "selectRule rule s"] by (cases rule) (simp_all add: on_channels_def)
  next
    case 4 show ?case using Cons(4) [of "selectRule rule s"] by (cases rule) (simp_all add: on_channels_def)
  next
    case 5 show ?case using Cons(5) [of "selectRule rule s"] by (cases rule) (simp_all add: on_channels_def)
  next
    case 6 show ?case using Cons(6) [of "selectRule rule s"] by (cases rule) (simp_all add: on_channels_def)
  }
qed simp_all

lemma lock_channels:
  assumes "lock_rules_together rules" "lockState (forRules rules True)"
  shows "cc_externGlobals (se_channels (forRules rules True))" "cc_helperLockEffects (se_channels (forRules rules True))"
  using assms by (auto simp: lock_rules_together_def forRules_def Let_def lockState_def fold_selects no_selection_def)

lemma gated_inputs:
  fixes u :: "'v UnitModule" and co :: "('v, 'c) UnitCollectors"
  assumes apart: "symbols_apart u" and together: "lock_rules_together rules"
    and once: "elements_started_once u (fst (unitBindings u co (forRules rules True) (Some empty_index))) index"
    and facts: "facts = assembled u co (forRules rules True) (Some empty_index) d" and gate: "\<not> crossTUChangesFacts facts index (forRules rules True)"
  shows "sameInputs u co (forRules rules True) (Some index) (forRules rules True) (Some empty_index)"
proof -
  let ?s = "forRules rules True"
  have prog: "ps_declaredGlobals (tu_program facts) = gv_symbol ` set (filter gv_isDeclaration (filter canBeSharedState (un_globals u)))"
      "ps_declaredFunctions (tu_program facts) = programSymbol u ` set (declaredFunctionsOf u)"
      "ps_settlingFunctions (tu_program facts) = snd (unitBindings u co ?s (Some empty_index))"
      "ps_functionSymbolsById (tu_program facts) = fold (\<lambda>f. umap_update (fn_id f) (emplace (programSymbol u f))) (un_module u) []"
      "tu_entryConcurrency facts = ownEntryConcurrency u co ?s (Some empty_index)"
    by (simp_all add: facts assembled_def Let_def programFacts_def collectProgramSymbolFacts_def forRules_def entries_unseeded)
  note gate = gate_closed [OF gate, unfolded prog]
  have closed: "channels_closed ?s" "selection_closed ?s" by (rule forRules_closed)+
  have known: "knownHelpers u ?s (Some index) = knownHelpers u ?s (Some empty_index)" by (rule helpers_unchanged [OF gate(6)])
  have own: "ownEntryConcurrency u co ?s (Some index) = ownEntryConcurrency u co ?s (Some empty_index)"
    by (simp add: ownEntryConcurrency_def unitTasks_def unitCompletions_def unitHelpers_def known Let_def)
  have entries: "unitEntryConcurrency u co ?s (Some index) = unitEntryConcurrency u co ?s (Some empty_index)" if sel: "se_threadEntries ?s"
  proof -
    have channel: "cc_entryConcurrency (se_channels ?s)" using closed(1) sel by (simp add: channels_closed_def)
    have "fold (seedEntry u index) (definedFunctionsOf u) (ownEntryConcurrency u co ?s (Some empty_index)) = ownEntryConcurrency u co ?s (Some empty_index)"
    proof (rule seeds_unchanged)
      fix f assume f: "f \<in> set (definedFunctionsOf u)" "isThreadEntry index (programSymbol u f)"
      have member: "(fn_id f, programSymbol u f) \<in> set (fold (\<lambda>f. umap_update (fn_id f) (emplace (programSymbol u f))) (un_module u) [])"
        using f(1) by (intro map_of_SomeD function_symbols) (auto simp: definedFunctionsOf_def)
      have defined: "programSymbol u f \<notin> programSymbol u ` set (declaredFunctionsOf u)" using apart f(1) by (auto simp: symbols_apart_def)
      show "\<exists>c. map_of (ownEntryConcurrency u co ?s (Some empty_index)) (fn_id f) = Some c \<and>
          spawnCount index (programSymbol u f) \<le> ec_staticSpawnCount c \<and> (spawnedInLoop index (programSymbol u f) \<longrightarrow> ec_hasSpawnInLoop c)"
        by (rule gate(8) [OF channel member defined f(2)])
    qed
    then show ?thesis by (simp add: unitEntryConcurrency_def own seedEntry_def nothing_known fold_unchanged)
  qed
  have state: "trackedGlobals u (Some index) = trackedGlobals u (Some empty_index)" "unitSummaries u ?s (Some index) = unitSummaries u ?s (Some empty_index)"
      "unitBindings u co ?s (Some index) = unitBindings u co ?s (Some empty_index)" if lock: "lockState ?s"
  proof -
    have channel: "cc_entryConcurrency (se_channels ?s)" using closed lock by (simp add: channels_closed_def selection_closed_def)
    show tracked: "trackedGlobals u (Some index) = trackedGlobals u (Some empty_index)"
      by (rule tracked_unchanged [OF gate(1) [OF lock_channels(1) [OF together lock]]])
    show "unitSummaries u ?s (Some index) = unitSummaries u ?s (Some empty_index)"
      by (rule summaries_unchanged [OF gate(5) [OF lock_channels(2) [OF together lock]]])
    let ?collected = "co_sharedObjects co (unitSites u ?s) (trackedGlobals u (Some empty_index)) (sc_entryConcurrency (unitSpawns u co ?s True))"
    have alone: "unitBindings u co ?s (Some empty_index) = fold (settleBinding u empty_index) (un_module u) (?collected, {})"
      using lock by (simp add: unitBindings_def Let_def)
    have "fst (fold (settleBinding u empty_index) fs (?collected, settled)) = ?collected" for fs settled
      by (induction fs arbitrary: settled) (simp_all add: settle_alone)
    then have "elements_started_once u ?collected index" using once by (simp add: alone)
    moreover have "\<not> appearsInSeveralUnits index symbol" if "symbol \<in> snd (fold (settleBinding u empty_index) (un_module u) (?collected, {}))" for symbol
      using that gate(7) [OF channel] by (simp add: alone)
    ultimately have "fold (settleBinding u index) (un_module u) (?collected, {}) = fold (settleBinding u empty_index) (un_module u) (?collected, {})"
      by (intro settle_unchanged) auto
    then show "unitBindings u co ?s (Some index) = unitBindings u co ?s (Some empty_index)"
      using lock by (simp add: unitBindings_def Let_def tracked)
  qed
  show ?thesis unfolding sameInputs_def using included_refl closed(2) known entries state by simp
qed

lemma build_unselected:
  assumes "build u co s p = Some (Inr facts)"
  shows "\<not> se_accesses s \<Longrightarrow> tu_accesses facts = []" "\<not> se_lockOrders s \<Longrightarrow> tu_lockOrders facts = []"
    and "\<not> se_threadEntries s \<Longrightarrow> tu_reachableThreadEntriesByFunction facts = []"
  using assms by (auto simp: build_Inr runSteps_Inr unselected_steps assembled_def Let_def)

lemma second_pass_agrees:
  assumes "symbols_apart u" "lock_rules_together rules"
    and "elements_started_once u (fst (unitBindings u co (forRules rules True) (Some empty_index))) index"
    and "build u co (forRules rules True) (Some empty_index) = Some (Inr facts)"
    and "\<not> crossTUChangesFacts facts index (forRules rules True)"
  shows "\<exists>facts'. build u co (forRules rules True) (Some index) = Some (Inr facts') \<and>
    (\<forall>rule \<in> set rules. sameRead rule facts' facts) \<and> tu_accesses facts' = tu_accesses facts \<and> tu_lockOrders facts' = tu_lockOrders facts \<and>
    tu_reachableThreadEntriesByFunction facts' = tu_reachableThreadEntriesByFunction facts"
proof -
  let ?s = "forRules rules True"
  obtain d where d: "runSteps u co ?s (Some empty_index) = Some (Inr d)" "facts = assembled u co ?s (Some empty_index) d"
    using assms(4) by (auto simp: build_Inr)
  note same = gated_inputs [OF assms(1,2,3) d(2) assms(5)] and gate = gate_closed [OF assms(5)]
  obtain facts' lifecycles where f: "build u co ?s (Some index) = Some (Inr facts')"
      "agreeOn (?s\<lparr>se_threadLifecycles := False, se_processLifecycle := False\<rparr>) facts' facts"
      "se_threadLifecycles ?s \<longrightarrow> unitLifecycles u co ?s (Some empty_index) = Some (Inr lifecycles) \<and>
         tu_threadLifecycles facts' = outstandingLifecycles u (Some index) lifecycles \<and>
         tu_threadLifecycles facts = outstandingLifecycles u (Some empty_index) lifecycles"
      "se_processLifecycle ?s \<longrightarrow> tu_processForks facts' = tu_processForks facts \<and>
         (\<exists>reaps creates. \<forall>(q, fs) \<in> {(Some index, facts'), (Some empty_index, facts)}.
            tu_reapsChildProcesses fs = (reaps \<or> (case q of None \<Rightarrow> False | Some index \<Rightarrow> programReapsChildren index)) \<and>
            tu_programCreatesThreads fs = (creates \<or> (case q of None \<Rightarrow> False | Some index \<Rightarrow> index_programCreatesThreads index)))"
    using facts_agree [OF same assms(4)] by (elim exE conjE)
  have processes: "tu_processForks facts' = tu_processForks facts"
      "tu_reapsChildProcesses facts' = (tu_reapsChildProcesses facts \<or> programReapsChildren index)"
      "tu_programCreatesThreads facts' = (tu_programCreatesThreads facts \<or> index_programCreatesThreads index)" if "se_processLifecycle ?s"
    using f(4) that by (auto simp: nothing_known)
  note lived = f(3) [unfolded outstanding_alone, rule_format]
  have handles: "tu_threadLifecycles facts' = tu_threadLifecycles facts" if sel: "se_threadLifecycles ?s"
  proof -
    have channel: "cc_resolvedHandles (se_channels ?s)" using forRules_closed(2) [of rules] sel by (simp add: channels_closed_def)
    have "lifecycles = de_lifecycles d" using lived [OF sel] d(1) by (simp add: runSteps_Inr)
    then have "ps_handleSymbolsByGroupId (tu_program facts) = ps_handleSymbolsByGroupId
        (collectProgramSymbolFacts u (resolvedGlobalHandleIds (map gv_name (un_globals u)) lifecycles) lifecycles)"
      by (simp add: d(2) assembled_def Let_def programFacts_def outstanding_alone forRules_def)
    then have "outstandingLifecycles u (Some index) lifecycles = lifecycles"
      using lived [OF sel] gate(4) [OF channel] by (intro outstanding_unchanged) simp
    then show ?thesis using lived [OF sel] by simp
  qed
  have "sameRead rule facts' facts" if rule: "rule \<in> set rules" for rule
  proof -
    note read = readsSelected_forRules [OF rule, of True]
    have "cc_programThreads (se_channels ?s)" if "rule = ForkAfterThreadCreation" using rule that by (simp add: forRules_def Let_def fold_selects)
    moreover have "cc_programReaps (se_channels ?s)" if "rule = UnreapedChildProcess" using rule that by (simp add: forRules_def Let_def fold_selects)
    ultimately show ?thesis using read f(2) processes handles gate(2,3) by (cases rule) (auto simp: agreeOn_def)
  qed
  moreover have "tu_accesses facts' = tu_accesses facts"
    using f(2) build_unselected(1) [OF f(1)] build_unselected(1) [OF assms(4)] by (cases "se_accesses ?s") (simp_all add: agreeOn_def)
  moreover have "tu_lockOrders facts' = tu_lockOrders facts"
    using f(2) build_unselected(2) [OF f(1)] build_unselected(2) [OF assms(4)] by (cases "se_lockOrders ?s") (simp_all add: agreeOn_def)
  moreover have "tu_reachableThreadEntriesByFunction facts' = tu_reachableThreadEntriesByFunction facts"
    using f(2) build_unselected(3) [OF f(1)] build_unselected(3) [OF assms(4)] by (cases "se_threadEntries ?s") (simp_all add: agreeOn_def sameThreads_def)
  ultimately show ?thesis using f(1) by blast
qed

text \<open>
  C6: A unit the gate leaves out of the second pass, under conditions that the code does not check, is one the program cannot change: building its
  facts against the index of the program succeeds too, and every enabled rule reports the same from both. The conditions: the first build returned; the race rule is
  enabled, or the deadlock and the publication rule are both enabled or both not (\<open>lock_rules_together\<close>; \<open>deadlock_rule_alone\<close> shows a unit left out without it); no entry whose
  threads each get an element of their own counts more than one start in the index (\<open>elements_started_once\<close>, which excludes a loop whose threads overlap; see
  \<open>own_elements_lost\<close>); and no defined function has the symbol of a declared one (\<open>symbols_apart\<close>).
\<close>

theorem second_pass_gate_sound:
  assumes "symbols_apart u" "lock_rules_together rules"
    and "elements_started_once u (fst (unitBindings u co (forRules rules True) (Some empty_index))) index"
    and "build u co (forRules rules True) (Some empty_index) = Some (Inr facts)"
    and "\<not> crossTUChangesFacts facts index (forRules rules True)"
  shows "\<exists>facts'. build u co (forRules rules True) (Some index) = Some (Inr facts') \<and>
    list_all (\<lambda>rule. ofRule rule (checkerOf rule facts') = ofRule rule (checkerOf rule facts)) rules"
  using second_pass_agrees [OF assms] sameRead_report by (fastforce simp: list_all_iff)

section \<open>A worker per slot\<close>

declare propagateLoop.simps [code]

text \<open>
  The unit starts \<open>worker\<close> in a loop, each thread on its own slot of \<open>slots\<close>, and the worker writes its slot. The task analysis finds several threads alive at once. Another
  unit of the program defines a global and starts nothing; this one declares \<open>log\<close>.
\<close>

definition slots :: "nat GlobalVariable" where
  "slots = \<lparr>gv_name = ''slots'', gv_symbol = ''slots'', gv_canonicalId = Some ''slots'', gv_isDeclaration = False, gv_isConstant = False,
     gv_isThreadLocal = False, gv_isSynchronizationPrimitive = False, gv_hasLocalLinkage = False, gv_value = 0\<rparr>"

definition log_global :: "nat GlobalVariable" where
  "log_global = slots\<lparr>gv_name := ''log'', gv_symbol := ''log'', gv_canonicalId := Some ''log'', gv_isDeclaration := True\<rparr>"

definition worker_unit :: "nat UnitModule" where
  "worker_unit =
     \<lparr>un_module = [one_block ''main'' [], one_block ''worker'' [plain_access 1]], un_globals = [slots, log_global],
      un_targetTriple = ''x86_64-linux'', un_dataLayout = ''e'', un_moduleIdentifier = ''worker.bc'',
      un_functionSymbol = (\<lambda>f. f), un_functionIsLocal = (\<lambda>_. False), un_naming = lt_naming two_locks, un_dominates = (\<lambda>_ _ _. False),
      un_functionOf = (\<lambda>_. None), un_nonZeroConstant = (\<lambda>_. False), un_argumentGroups = (\<lambda>_. []), un_userLocation = (\<lambda>_. True),
      un_leavesReaping = (\<lambda>_. False), un_signals = \<lparr>sq_installedSignalHandler = (\<lambda>_. None), sq_isAsyncSignalUnsafe = (\<lambda>_. False)\<rparr>,
      un_addressView = (\<lambda>_. no_addresses), un_standard = (\<lambda>_. False),
      un_arrangeWaits = (\<lambda>m. m), un_arrangeCallees = (\<lambda>m. m), un_arrangeSummaries = (\<lambda>m. m)\<rparr>"

definition slot_write :: PendingAccess where
  "slot_write =
     \<lparr>pe_instruction = 1, pe_root = argumentRoot 0 (whole_region\<lparr>mr_byteSize := 4\<rparr>),
      pe_fact =
        \<lparr>ac_symbol = [], ac_region = whole_region, ac_functionId = ''worker'', ac_kind = AK_Write, ac_aliasProvenance = AP_Direct,
         ac_loweredLocation = no_location, ac_userLocation = no_location, ac_allowCallsiteProjection = False, ac_isAtomic = False,
         ac_coarseCallEffect = False, ac_guessedIdentity = False, ac_sharedObject = False, ac_inRootTask = False, ac_liveEntries = {},
         ac_startedEntries = {}, ac_boundBySpawn = False, ac_instanceOwner = [], ac_heldLocks = {}, ac_beforeRelease = {}, ac_afterAcquire = {}\<rparr>,
      pe_restatesCalleeAccesses = False, pe_callOperand = None\<rparr>"

definition slot_binding :: "bool \<Rightarrow> SharedObjectBinding" where
  "slot_binding elements =
     \<lparr>sb_object = globalRoot ''slots'' (whole_region\<lparr>mr_hasKnownOffset := False\<rparr>), sb_kind = SO_Global, sb_argumentIndex = 0, sb_elementPerThread = elements,
      sb_constructedClass = [], sb_keptForLackOfProof = False, sb_runByDirectCalls = False, sb_settledThrough = []\<rparr>"

definition worker_collectors :: "bool \<Rightarrow> (nat, unit) UnitCollectors" where
  "worker_collectors elements =
     \<lparr>co_spawns = (\<lambda>_ _. \<lparr>sc_spawns = [\<lparr>sp_entryFunctionId = ''worker'', sp_location = no_location, sp_insideLoop = True\<rparr>],
        sc_entryConcurrency = [(''worker'', \<lparr>ec_staticSpawnCount = 1, ec_hasSpawnInLoop = True\<rparr>)]\<rparr>),
      co_sharedObjects = (\<lambda>_ _ _. [(''worker'', slot_binding elements)]), co_accesses = (\<lambda>_ _ _. [slot_write]),
      co_joiningHelpers = (\<lambda>known. known), co_noCompletions = (), co_completions = (\<lambda>_. ()),
      co_tasks = (\<lambda>_ _ _. noTasks\<lparr>tk_overlappingSpawnEntries := {''worker''}\<rparr>), co_lifecycles = (\<lambda>_. []),
      co_lifetimes = (\<lambda>_. \<lparr>lt_escapes = [], lt_frees = [], lt_expiredThreadLocals = []\<rparr>),
      co_publications = (\<lambda>_ _ _ _. \<lparr>pb_ordering = Map.empty, pb_weakPublications = []\<rparr>),
      co_callView = (\<lambda>_ _ _. \<lparr>vw_operands = (\<lambda>_. []), vw_callerIntegerParameters = (\<lambda>_. []), vw_constructedClass = (\<lambda>_. None),
        vw_loadStoreSize = (\<lambda>_. None), vw_beforeHandOver = (\<lambda>_ _. False), vw_afterRoundJoin = (\<lambda>_ _. False)\<rparr>)\<rparr>"

definition built :: "(unit + TUFacts) option \<Rightarrow> TUFacts" where
  "built result = (case result of Some (Inr facts) \<Rightarrow> facts | _ \<Rightarrow> no_facts)"

definition other_unit :: "string \<Rightarrow> TUFacts" where
  "other_unit global = no_facts\<lparr>tu_program := no_program\<lparr>ps_abiKey := ''x86_64-linux|e'', ps_definedGlobals := {global},
     ps_functionSymbolsById := [(''flush'', ''flush'')]\<rparr>\<rparr>"

abbreviation worker_selection :: FactSelection where
  "worker_selection \<equiv> forRules [DataRaceGlobal, MissingJoin] True"

definition first_pass :: "bool \<Rightarrow> TUFacts" where
  "first_pass elements = built (build worker_unit (worker_collectors elements) worker_selection (Some empty_index))"

definition program_index :: "string \<Rightarrow> ProgramSymbolIndex" where
  "program_index global =
     \<lparr>pi_spawnSitesByEntry = [(''worker'', \<lparr>es_instanceCount = 2, es_insideLoop = True\<rparr>)],
      pi_unitsByFunction = [(''main'', \<lparr>fu_first = 0, fu_several = False\<rparr>), (''worker'', \<lparr>fu_first = 0, fu_several = False\<rparr>),
        (''flush'', \<lparr>fu_first = 1, fu_several = False\<rparr>)],
      pi_definedGlobals = {''slots'', global}, pi_lockSummariesBySymbol = [], pi_resolvedHandleSymbols = {}, pi_joiningHelpersBySymbol = [],
      pi_reapsChildren = False\<rparr>"

lemma first_pass_built:
  "build worker_unit (worker_collectors elements) worker_selection (Some empty_index) = Some (Inr (first_pass elements))"
proof -
  have "case build worker_unit (worker_collectors elements) worker_selection (Some empty_index) of Some (Inr _) \<Rightarrow> True | _ \<Rightarrow> False"
    by (cases elements; simp only:; code_simp)
  then show ?thesis by (simp add: first_pass_def built_def split: option.splits sum.splits)
qed

text \<open>The first pass counts two instances of the worker, which are the starts the index holds.\<close>

lemma own_elements_counted: "tu_entryConcurrency (first_pass True) = [(''worker'', \<lparr>ec_staticSpawnCount = 2, ec_hasSpawnInLoop = True\<rparr>)]"
  by code_simp

text \<open>
  With \<open>log\<close> defined elsewhere the unit is analysed again, and the second pass takes the several threads of the loop for starts in another unit: the write to a slot
  that is each thread's own, and no race in the first pass, is a race in the second.
\<close>

lemma own_elements_race_free: "rp_diagnostics (dataRaceRun (first_pass True)) = []"
  by code_simp

lemma own_elements_analysed_again: "crossTUChangesFacts (first_pass True) (program_index ''log'') worker_selection"
  by code_simp

lemma own_elements_lost:
  "length (rp_diagnostics (dataRaceRun
     (built (build worker_unit (worker_collectors True) worker_selection (Some (program_index ''log'')))))) = 1"
  by code_simp

text \<open>
  The deadlock rule on its own: the unit is left out although \<open>log\<close> is defined elsewhere and the objects handed to its threads, after which its locks are named, are collected
  with other globals in the second pass.
\<close>

lemma deadlock_rule_alone:
  "\<not> crossTUChangesFacts (built (build worker_unit (worker_collectors True) (forRules [DeadlockLockOrder] True) (Some empty_index)))
     (program_index ''log'') (forRules [DeadlockLockOrder] True)"
  by code_simp

lemma deadlock_rule_sees_other_globals:
  "lockState (forRules [DeadlockLockOrder] True)"
  "trackedGlobals worker_unit (Some empty_index) = [''slots'']" "trackedGlobals worker_unit (Some (program_index ''log'')) = [''slots'', ''log'']"
  by code_simp+

lemma first_pass_race: "length (ofRule DataRaceGlobal (checkerOf DataRaceGlobal (first_pass False))) = 1"
  by code_simp

theorem unread_facts_skipped_witness:
  "\<exists>facts. build worker_unit (worker_collectors False) (forRules [DataRaceGlobal] True) (Some empty_index) = Some (Inr facts) \<and>
     length (ofRule DataRaceGlobal (checkerOf DataRaceGlobal facts)) = 1"
  using unread_facts_skipped [of "[DataRaceGlobal]", OF _ first_pass_built [of False]] first_pass_race by auto

lemma shared_slots_gate:
  "symbols_apart worker_unit" "lock_rules_together [DataRaceGlobal, MissingJoin]"
  "elements_started_once worker_unit (fst (unitBindings worker_unit (worker_collectors False) worker_selection (Some empty_index))) (program_index ''tally'')"
  "\<not> crossTUChangesFacts (first_pass False) (program_index ''tally'') worker_selection"
  by code_simp+

text \<open>
  The same unit when each thread gets its own slot and is joined before the next one starts, so that no two are alive at once and the index counts
  one start: the condition on elements holds, and the unit is left out.
\<close>

definition joined_collectors :: "(nat, unit) UnitCollectors" where
  "joined_collectors = (worker_collectors True)\<lparr>co_tasks := (\<lambda>_ _ _. noTasks)\<rparr>"

definition joined_index :: ProgramSymbolIndex where
  "joined_index = (program_index ''tally'')\<lparr>pi_spawnSitesByEntry := [(''worker'', \<lparr>es_instanceCount = 1, es_insideLoop = True\<rparr>)]\<rparr>"

definition joined_pass :: TUFacts where
  "joined_pass = built (build worker_unit joined_collectors worker_selection (Some empty_index))"

lemma joined_built: "build worker_unit joined_collectors worker_selection (Some empty_index) = Some (Inr joined_pass)"
proof -
  have "case build worker_unit joined_collectors worker_selection (Some empty_index) of Some (Inr _) \<Rightarrow> True | _ \<Rightarrow> False" by code_simp
  then show ?thesis by (simp add: joined_pass_def built_def split: option.splits sum.splits)
qed

lemma joined_elements: "fst (unitBindings worker_unit joined_collectors worker_selection (Some empty_index)) = [(''worker'', slot_binding True)]"
  by code_simp

lemma joined_gate:
  "elements_started_once worker_unit (fst (unitBindings worker_unit joined_collectors worker_selection (Some empty_index))) joined_index"
  "\<not> crossTUChangesFacts joined_pass joined_index worker_selection"
  by code_simp+

lemma joined_race_free: "ofRule DataRaceGlobal (checkerOf DataRaceGlobal joined_pass) = []"
  by code_simp

theorem second_pass_gate_sound_witness:
  "(\<exists>facts. build worker_unit (worker_collectors False) worker_selection (Some (program_index ''tally'')) = Some (Inr facts) \<and>
     length (ofRule DataRaceGlobal (checkerOf DataRaceGlobal facts)) = 1) \<and>
   (\<exists>facts. build worker_unit joined_collectors worker_selection (Some joined_index) = Some (Inr facts) \<and>
     ofRule DataRaceGlobal (checkerOf DataRaceGlobal facts) = []) \<and>
   sb_elementPerThread (snd (hd (fst (unitBindings worker_unit joined_collectors worker_selection (Some empty_index)))))"
  using second_pass_gate_sound [OF shared_slots_gate(1,2,3) first_pass_built shared_slots_gate(4)] first_pass_race
    second_pass_gate_sound [OF shared_slots_gate(1,2) joined_gate(1) joined_built joined_gate(2)] joined_race_free
  by (auto simp: joined_elements slot_binding_def)

end
