(* ===== verification/Project_Gate.thy ===== *)
theory Project_Gate
  imports Unit_Gate Coordinator
begin

text \<open>
  The two passes of a project with the builder of \<open>Facts_Builder\<close>: what a unit's report reads, and that analysing again only the units the gate picks gives the
  report of analysing every unit against the program's index.
\<close>

section \<open>What the report of a unit reads\<close>

lemma filtered_forks:
  "filter (\<lambda>d. isEnabled opts (d_ruleId d)) (forkDiagnostics facts fork) =
     (if pf_execReachable fork then []
      else (if isEnabled opts ForkAfterThreadCreation \<and> tu_programCreatesThreads facts then [forkAfterThreadDiagnostic fork] else []) @
           (if isEnabled opts UnreapedChildProcess \<and> \<not> tu_reapsChildProcesses facts then [unreapedChildDiagnostic fork] else []))"
  by (simp add: forkDiagnostics_def)

lemma filtered_concat_forks:
  assumes "isEnabled opts ForkAfterThreadCreation \<Longrightarrow> sameRead ForkAfterThreadCreation f g"
    and "isEnabled opts UnreapedChildProcess \<Longrightarrow> sameRead UnreapedChildProcess f g"
  shows "filter (\<lambda>d. isEnabled opts (d_ruleId d)) (concat (map (forkDiagnostics f) (tu_processForks f))) =
    filter (\<lambda>d. isEnabled opts (d_ruleId d)) (concat (map (forkDiagnostics g) (tu_processForks g)))"
proof (cases "isEnabled opts ForkAfterThreadCreation \<or> isEnabled opts UnreapedChildProcess")
  case True
  then have forks: "tu_processForks f = tu_processForks g" using assms by auto
  show ?thesis
  proof (cases "tu_processForks f = []")
    case False
    then have "filter (\<lambda>d. isEnabled opts (d_ruleId d)) (forkDiagnostics f fork) = filter (\<lambda>d. isEnabled opts (d_ruleId d)) (forkDiagnostics g fork)" for fork
      using assms by (auto simp: filtered_forks)
    then show ?thesis by (simp add: forks filter_concat comp_def)
  qed (use forks in simp)
next
  case False
  then have "filter (\<lambda>d. isEnabled opts (d_ruleId d)) (forkDiagnostics facts fork) = []" for facts fork by (simp add: filtered_forks)
  then have "filter (\<lambda>d. isEnabled opts (d_ruleId d)) (concat (map (forkDiagnostics facts) forks)) = []" for facts forks
    by (induction forks) simp_all
  then show ?thesis by (simp only:)
qed

lemma filtered_part:
  assumes "\<And>x. d_ruleId (diagnostic x) = rule" "isEnabled opts rule \<Longrightarrow> xs = ys"
  shows "filter (\<lambda>d. isEnabled opts (d_ruleId d)) (map diagnostic xs) = filter (\<lambda>d. isEnabled opts (d_ruleId d)) (map diagnostic ys)"
  using assms by (cases "isEnabled opts rule") (simp_all add: filter_map comp_def)

lemma checkUnit_reads:
  assumes "\<And>rule. isEnabled opts rule \<Longrightarrow> sameRead rule f g"
  shows "checkUnit opts f = checkUnit opts g"
proof -
  have "runIf (isEnabled opts DataRaceGlobal) (dataRaceRun f) = runIf (isEnabled opts DataRaceGlobal) (dataRaceRun g)"
    using assms [of DataRaceGlobal] dataRaceRun_reads [of f g] by (auto simp: runIf_def fun_eq_iff)
  moreover have "runIf (isEnabled opts DeadlockLockOrder) (lockOrderRun f) = runIf (isEnabled opts DeadlockLockOrder) (lockOrderRun g)"
    using assms [of DeadlockLockOrder] lockOrderRun_reads [of f g] by (auto simp: runIf_def fun_eq_iff)
  moreover have "runIf (isEnabled opts MissingJoin) (the (missingJoinRun f)) = runIf (isEnabled opts MissingJoin) (the (missingJoinRun g))"
    using assms [of MissingJoin] missingJoinRun_reads [of f g] by (auto simp: runIf_def fun_eq_iff)
  moreover have "runIf (isEnabled opts ConditionWaitWithoutPredicate) (conditionWaitRun f) = runIf (isEnabled opts ConditionWaitWithoutPredicate) (conditionWaitRun g)"
    using assms [of ConditionWaitWithoutPredicate] conditionWaitRun_reads [of f g] by (auto simp: runIf_def fun_eq_iff)
  moreover have "runIf (isEnabled opts WeakPublicationOrdering) (publicationOrderingRun f) = runIf (isEnabled opts WeakPublicationOrdering) (publicationOrderingRun g)"
    using assms [of WeakPublicationOrdering] publicationOrderingRun_reads [of f g] by (auto simp: runIf_def fun_eq_iff)
  moreover have "filter (\<lambda>d. isEnabled opts (d_ruleId d)) (rp_diagnostics (processLifecycleRun f)) =
      filter (\<lambda>d. isEnabled opts (d_ruleId d)) (rp_diagnostics (processLifecycleRun g))"
  proof -
    have "filter (\<lambda>d. isEnabled opts (d_ruleId d)) (map escapeDiagnostic (tu_threadArgumentEscapes f)) =
        filter (\<lambda>d. isEnabled opts (d_ruleId d)) (map escapeDiagnostic (tu_threadArgumentEscapes g))"
      using assms [of ThreadArgumentEscapesFrame] by (intro filtered_part) auto
    moreover have "filter (\<lambda>d. isEnabled opts (d_ruleId d)) (map freedDiagnostic (tu_threadArgumentFrees f)) =
        filter (\<lambda>d. isEnabled opts (d_ruleId d)) (map freedDiagnostic (tu_threadArgumentFrees g))"
      using assms [of ThreadArgumentFreedEarly] by (intro filtered_part) auto
    moreover have "filter (\<lambda>d. isEnabled opts (d_ruleId d)) (map expiredDiagnostic (tu_expiredThreadLocals f)) =
        filter (\<lambda>d. isEnabled opts (d_ruleId d)) (map expiredDiagnostic (tu_expiredThreadLocals g))"
      using assms [of ThreadLocalOutlivesThread] by (intro filtered_part) auto
    moreover have "filter (\<lambda>d. isEnabled opts (d_ruleId d)) (map signalHandlerDiagnostic (tu_signalHandlers f)) =
        filter (\<lambda>d. isEnabled opts (d_ruleId d)) (map signalHandlerDiagnostic (tu_signalHandlers g))"
      using assms [of UnsafeSignalHandler] by (intro filtered_part) auto
    ultimately show ?thesis
      unfolding processLifecycleRun_result filter_append using filtered_concat_forks [of opts f g, OF assms assms] by (simp only:)
  qed
  then have "runIf c ((processLifecycleRun f)\<lparr>rp_diagnostics := filter (\<lambda>d. isEnabled opts (d_ruleId d)) (rp_diagnostics (processLifecycleRun f))\<rparr>) =
      runIf c ((processLifecycleRun g)\<lparr>rp_diagnostics := filter (\<lambda>d. isEnabled opts (d_ruleId d)) (rp_diagnostics (processLifecycleRun g))\<rparr>)" for c
    by (simp add: runIf_def appendDiagnostics_def processLifecycleRun_result fun_eq_iff)
  ultimately show ?thesis unfolding checkUnit_def Let_def by (simp only:)
qed

lemma moduleReport_reads:
  assumes "\<And>rule. isEnabled opts rule \<Longrightarrow> sameRead rule f g" "tu_accesses f = tu_accesses g" "tu_lockOrders f = tu_lockOrders g"
    "tu_reachableThreadEntriesByFunction f = tu_reachableThreadEntriesByFunction g"
  shows "moduleReport opts selection f = moduleReport opts selection g"
  by (simp add: moduleReport_def finalizeReport_def Let_def buildFunctionSummaries_def functionMap_def assms(2-4) checkUnit_reads [OF assms(1)])

lemma mergedReport_reads:
  assumes "map (moduleReport opts selection) fs = map (moduleReport opts selection) gs"
  shows "mergedReport opts selection fs = mergedReport opts selection gs"
proof -
  have "fold (\<lambda>facts. mergeModule (moduleReport opts selection facts)) fs = fold mergeModule (map (moduleReport opts selection) fs)" for fs
    by (simp add: fold_map comp_def)
  then show ?thesis using assms by (simp only: mergedReport_def)
qed

section \<open>The two passes\<close>

text \<open>
  \<open>gate_applies\<close>: what the gate supposes of a unit: its first build returns, its defined functions have other symbols than declared ones, and no entry that hands out
  elements counts more than one start.
\<close>

definition gate_applies :: "'v UnitModule \<Rightarrow> ('v, 'c) UnitCollectors \<Rightarrow> RuleId list \<Rightarrow> ProgramSymbolIndex \<Rightarrow> bool" where
  "gate_applies u co rules index \<longleftrightarrow> symbols_apart u \<and>
     elements_started_once u (fst (unitBindings u co (forRules rules True) (Some empty_index))) index \<and>
     (case build u co (forRules rules True) (Some empty_index) of Some (Inr _) \<Rightarrow> True | _ \<Rightarrow> False)"

lemma gated_module_report:
  assumes "gate_applies u co rules index" "lock_rules_together rules" "rules = ao_enabledRules opts"
    and "\<not> crossTUChangesFacts (built (build u co (forRules rules True) (Some empty_index))) index (forRules rules True)"
  shows "moduleReport opts (forRules rules True) (built (build u co (forRules rules True) (Some index))) =
    moduleReport opts (forRules rules True) (built (build u co (forRules rules True) (Some empty_index)))"
proof -
  obtain facts where first: "build u co (forRules rules True) (Some empty_index) = Some (Inr facts)"
    using assms(1) by (auto simp: gate_applies_def split: option.splits sum.splits)
  then have "\<not> crossTUChangesFacts facts index (forRules rules True)" using assms(4) by (simp add: built_def)
  moreover have "symbols_apart u" "elements_started_once u (fst (unitBindings u co (forRules rules True) (Some empty_index))) index"
    using assms(1) by (simp_all add: gate_applies_def)
  ultimately obtain facts' where second: "build u co (forRules rules True) (Some index) = Some (Inr facts')"
      "\<forall>rule \<in> set rules. sameRead rule facts' facts" "tu_accesses facts' = tu_accesses facts" "tu_lockOrders facts' = tu_lockOrders facts"
      "tu_reachableThreadEntriesByFunction facts' = tu_reachableThreadEntriesByFunction facts"
    using second_pass_agrees [OF _ assms(2) _ first] by blast
  then show ?thesis using first assms(3) by (auto simp: built_def isEnabled_def intro!: moduleReport_reads)
qed

text \<open>
  C5: The second pass of a project analyses again only some units, and yet, under the conditions below, its report is that of analysing every compatible unit against the index
  of the program: diagnostics, their order and ids, notices and function summaries. The conditions: some unit loads, every unit loads alike in both passes, the builder is the
  one modelled, the race rule is enabled or the deadlock and the publication rule are both enabled or both not (\<open>lock_rules_together\<close>), and for every compatible unit the gate applies:
  its first build returned, no defined function has the symbol of a declared one, and no entry whose threads each get an element of their own counts more than one
  start in the index, which excludes a loop whose threads overlap.
\<close>

theorem gated_second_pass_complete:
  fixes P :: "'m Project" and unit :: "'m \<Rightarrow> 'v UnitModule" and co :: "'m \<Rightarrow> ('v, 'c) UnitCollectors"
  assumes "isSchedule sA" "isSchedule sB" "\<exists>i < length (pr_identifiers P). \<not> isl (pr_load P 0 i)"
    and "pr_build P = (\<lambda>m selection program. built (build (unit m) (co m) selection program))" "\<And>i. pr_load P 1 i = pr_load P 0 i"
    and "lock_rules_together (ao_enabledRules opts)" "st = afterA P opts (sA [0 ..< length (pr_identifiers P)])"
    and "\<And>i m. i \<in> set (compatibleUnits st) \<Longrightarrow> pr_load P 0 i = Inr m \<Longrightarrow> gate_applies (unit m) (co m) (ao_enabledRules opts) (programIndexOf st)"
  shows "pa_report (analyze P opts sA sB) =
    mergedReport opts (forRules (ao_enabledRules opts) True)
      (map (factsAfter P (forRules (ao_enabledRules opts) True) 1 (programIndexOf st)) (compatibleUnits st))"
proof -
  let ?sel = "forRules (ao_enabledRules opts) True"
  let ?again = "sB (againUnits ?sel st)"
  let ?stB = "afterB P ?sel st ?again"
  have again: "set ?again = set (againUnits ?sel st)" using assms(2) mset_eq_setD [of ?again] by (simp add: isSchedule_def)
  have unit: "i < length (pr_identifiers P)" "\<not> isl (pr_load P 0 i)" "st_facts st ! i = factsAfter P ?sel 0 empty_index i" if "i \<in> set (compatibleUnits st)" for i
  proof -
    have "i < length (st_facts st)" "\<not> st_failed st ! i" using that compatible_loaded(1) by blast+
    then show "i < length (pr_identifiers P)" "\<not> isl (pr_load P 0 i)" "st_facts st ! i = factsAfter P ?sel 0 empty_index i"
      by (simp_all add: afterA_entries [OF assms(1)] assms(7))
  qed
  have kept: "\<not> st_failed ?stB ! i" if "i \<in> set (compatibleUnits st)" for i
    using unit [OF that] compatible_loaded(1) [OF that] assms(5,7) by (simp add: afterB_def pass_failed)
  have facts: "st_facts ?stB ! i = (if i \<in> set (againUnits ?sel st) then factsAfter P ?sel 1 (programIndexOf st) i else factsAfter P ?sel 0 empty_index i)"
    if "i \<in> set (compatibleUnits st)" for i
    using unit [OF that] compatible_loaded(1) [OF that] again by (simp add: afterB_def pass_facts)
  have "moduleReport opts ?sel (st_facts ?stB ! i) = moduleReport opts ?sel (factsAfter P ?sel 1 (programIndexOf st) i)" if i: "i \<in> set (compatibleUnits st)" for i
  proof (cases "i \<in> set (againUnits ?sel st)")
    case False
    obtain m where m: "pr_load P 0 i = Inr m" using unit(2) [OF i] by (cases "pr_load P 0 i") auto
    have first: "factsAfter P ?sel 0 empty_index i = built (build (unit m) (co m) ?sel (Some empty_index))"
      and second: "factsAfter P ?sel 1 (programIndexOf st) i = built (build (unit m) (co m) ?sel (Some (programIndexOf st)))"
      using m by (simp_all add: factsAfter_def assms(4) assms(5) [simplified])
    have "\<not> crossTUChangesFacts (built (build (unit m) (co m) ?sel (Some empty_index))) (programIndexOf st) ?sel"
      using False i unit(3) [OF i] first by (simp add: againUnits_def)
    from gated_module_report [OF assms(8) [OF i m] assms(6) refl this] show ?thesis using False unfolding facts [OF i] second by (simp add: first)
  qed (simp add: facts [OF i])
  then have "mergedReport opts ?sel (map (\<lambda>i. st_facts ?stB ! i) (compatibleUnits st)) =
      mergedReport opts ?sel (map (factsAfter P ?sel 1 (programIndexOf st)) (compatibleUnits st))"
    by (intro mergedReport_reads) simp
  moreover have "filter (\<lambda>i. \<not> st_failed ?stB ! i) (compatibleUnits st) = compatibleUnits st" using kept by (simp add: filter_id_conv)
  ultimately show ?thesis using assms(3) by (auto simp: analyze_parts [OF assms(1)] assms(7) [symmetric] Let_def)
qed

section \<open>Two units\<close>

definition tally_unit :: "nat UnitModule" where
  "tally_unit = worker_unit\<lparr>un_module := [one_block ''flush'' []], un_globals := [slots\<lparr>gv_name := ''tally'', gv_symbol := ''tally''\<rparr>]\<rparr>"

definition tally_collectors :: "(nat, unit) UnitCollectors" where
  "tally_collectors = (worker_collectors False)\<lparr>co_spawns := (\<lambda>_ _. noSpawns), co_sharedObjects := (\<lambda>_ _ _. []), co_accesses := (\<lambda>_ _ _. []),
     co_tasks := (\<lambda>_ _ _. noTasks)\<rparr>"

definition unit_of :: "bool \<Rightarrow> nat UnitModule" where
  "unit_of worker = (if worker then worker_unit else tally_unit)"

definition collectors_of :: "bool \<Rightarrow> (nat, unit) UnitCollectors" where
  "collectors_of worker = (if worker then joined_collectors else tally_collectors)"

definition two_units :: "bool Project" where
  "two_units = \<lparr>pr_identifiers = [''worker'', ''tally''], pr_load = (\<lambda>pass index. Inr (index = 0)),
     pr_build = (\<lambda>worker selection program. built (build (unit_of worker) (collectors_of worker) selection program))\<rparr>"

definition two_rules :: AnalysisOptions where
  "two_rules = allAvailable\<lparr>ao_enabledRules := [DataRaceGlobal, MissingJoin]\<rparr>"

lemma no_elements: "list_all (\<lambda>(_, binding). \<not> sb_elementPerThread binding) bindings \<Longrightarrow> elements_started_once u bindings index"
  by (auto simp: elements_started_once_def list_all_iff split: option.split dest!: map_of_SomeD)

text \<open>The worker's threads each write a slot of their own, and the index of the two units counts one of them at a time.\<close>

lemma worker_started_once:
  "elements_started_once worker_unit (fst (unitBindings worker_unit joined_collectors worker_selection (Some empty_index)))
     (programIndexOf (afterA two_units two_rules [1, 0]))"
proof -
  have "spawnCount (programIndexOf (afterA two_units two_rules [1, 0])) ''worker'' = 1" by code_simp
  then show ?thesis
    unfolding joined_elements by (simp add: elements_started_once_def worker_unit_def one_block_def)
qed

lemma worker_gate_applies:
  "gate_applies worker_unit joined_collectors [DataRaceGlobal, MissingJoin] (programIndexOf (afterA two_units two_rules [1, 0]))"
  using shared_slots_gate(1) worker_started_once joined_built by (simp add: gate_applies_def)

lemma tally_gate_applies: "gate_applies tally_unit tally_collectors [DataRaceGlobal, MissingJoin] index"
proof -
  have "list_all (\<lambda>(_, binding). \<not> sb_elementPerThread binding) (fst (unitBindings tally_unit tally_collectors worker_selection (Some empty_index)))"
    "symbols_apart tally_unit" "case build tally_unit tally_collectors worker_selection (Some empty_index) of Some (Inr _) \<Rightarrow> True | _ \<Rightarrow> False" by code_simp+
  then show ?thesis by (simp add: gate_applies_def no_elements)
qed

lemma two_units_compatible: "compatibleUnits (afterA two_units two_rules [1, 0]) = [0, 1]"
  by code_simp

theorem gated_second_pass_complete_witness:
  "pa_report (analyze two_units two_rules rev rev) =
     mergedReport two_rules worker_selection (map (factsAfter two_units worker_selection 1 (programIndexOf (afterA two_units two_rules [1, 0]))) [0, 1])"
proof -
  define st where "st = afterA two_units two_rules [1, 0]"
  have units: "compatibleUnits st = [0, 1]" unfolding st_def by (rule two_units_compatible)
  have loaded: "\<exists>i < length (pr_identifiers two_units). \<not> isl (pr_load two_units 0 i)"
    and builder: "pr_build two_units = (\<lambda>m selection program. built (build (unit_of m) (collectors_of m) selection program))"
    and alike: "\<And>i. pr_load two_units 1 i = pr_load two_units 0 i"
    and start: "st = afterA two_units two_rules (rev [0 ..< length (pr_identifiers two_units)])"
    by (auto simp: two_units_def st_def upt_rec)
  have applies: "gate_applies (unit_of m) (collectors_of m) (ao_enabledRules two_rules) (programIndexOf st)" for m
    using worker_gate_applies tally_gate_applies unfolding st_def by (simp add: unit_of_def collectors_of_def two_rules_def)
  have "lock_rules_together (ao_enabledRules two_rules)" by code_simp
  note report = gated_second_pass_complete [of rev rev two_units unit_of collectors_of two_rules st, OF schedules(2) schedules(2) loaded builder alike this start applies]
  have rules: "ao_enabledRules two_rules = [DataRaceGlobal, MissingJoin]" by (simp add: two_rules_def)
  show "pa_report (analyze two_units two_rules rev rev) =
     mergedReport two_rules worker_selection (map (factsAfter two_units worker_selection 1 (programIndexOf (afterA two_units two_rules [1, 0]))) [0, 1])"
    by (rule report [unfolded units rules, unfolded st_def])
qed

end
