(* ===== verification/Spec2Isabelle.thy ===== *)
theory Spec2Isabelle
  imports Prelude Diagnostics Facts Data_Race Lock_Order_Proofs Missing_Join Process_Checkers
    Report_Builder Fact_Selection Symbol_Index Error_Codes Coordinator Live_Units
    Compiler_Diagnostics Compiler Compilation_Database Ir_Cache Command_Options Command_Line
    Symbol_Classifier Lock_Ids Lock_Scope Call_Cycles Lock_Propagation Lock_Wrappers Collectors
    Lifecycle Lock_Order_Facts Access_Proofs Facts_Builder Unit_Gate Project_Gate
begin

text \<open>
  A verification development of CoreTrace's concurrency analyzer, a static analyzer that compiles C and C++
  sources to LLVM IR in memory, derives facts about threads, locks and shared memory from the IR, and
  reports data races, deadlocks, leaked threads and misused process and signal functions.

  \<^bold>\<open>The program and its parts.\<close> \<open>src/main.cpp\<close> reads the command line (\<open>Command_Options\<close>, \<open>Command_Line\<close>). For one
  file it builds a compiler command (\<open>Compile_Command\<close>, \<open>compile_command_builder.cpp\<close>), compiles it and reads the compiler's
  messages back (\<open>Compiler\<close>, \<open>Compiler_Diagnostics\<close>, \<open>Error_Codes\<close>); for a project it reads a compilation database
  (\<open>Compilation_Database\<close>, \<open>Paths\<close>) and keeps compiled units in a cache (\<open>Ir_Cache\<close>). A coordinator
  (\<open>Coordinator\<close>, \<open>inter_tu_coordinator.cpp\<close>) runs two passes of a worker pool over the units (\<open>Live_Units\<close>), joins
  what they say in an index of the program (\<open>Symbol_Index\<close>), decides which units need the second pass,
  and merges their reports. Within a unit, calls are recognized by their mangled names
  (\<open>Symbol_Classifier\<close>), locks get names (\<open>Lock_Ids\<close>), calls get effects on locks (\<open>Lock_Effects\<close>) and a data flow
  tells which locks are held where (\<open>Lock_Flow\<close>, \<open>Lock_Scope\<close>); \<open>Program_IR\<close> is the view of LLVM these parts
  share. Across functions, the direct calls (\<open>Call_Graph\<close>) say which threads run a function and which calls close a cycle
  (\<open>Call_Cycles\<close>), locks travel from callers to callees (\<open>Lock_Propagation\<close>) and from wrappers to their callers
  (\<open>Lock_Wrappers\<close>), and bare waits, execs and unsafe calls of signal handlers travel from callees to callers
  (\<open>Back_Propagation\<close>, \<open>Collectors\<close>). What a helper does to what it is passed is instantiated at its calls (\<open>Call_Spread\<close>): joins and other events of a
  thread handle (\<open>Lifecycle\<close>) and the orders in which locks are taken, collected per function (\<open>Lock_Order_Collector\<close>) and put
  together for the unit (\<open>Lock_Order_Facts\<close>, kept in a \<open>Merged_Store\<close>) as \<open>tu_facts_builder.cpp\<close> does. The same file places the accesses to memory: \<open>Access_Calls\<close>
  has the keys, the merging and what a call does to an access, \<open>Access_Facts\<close> the bindings of the calls and the passes over them, \<open>Access_Proofs\<close> what they deliver. \<open>Facts_Builder\<close> is the builder as a whole, with what the index of the program adds to a unit;
  \<open>Unit_Gate\<close> shows which of its steps may be left out, \<open>Project_Gate\<close> what that means for a project. The facts (\<open>Facts\<close>, \<open>facts.hpp\<close>, \<open>fact_queries.hpp\<close>) selected for the enabled rules (\<open>Fact_Selection\<close>) go to the checkers:
  \<open>Data_Race\<close>, \<open>Lock_Order\<close> with its proofs in \<open>Lock_Order_Proofs\<close>, \<open>Missing_Join\<close>, and the condition-wait, process-lifecycle
  and publication checkers in \<open>Process_Checkers\<close>. \<open>Diagnostics\<close> has the public result types and the rule catalog,
  \<open>Report_Builder\<close> finishes a report and \<open>Report_Renderer\<close> prints it as text, JSON or SARIF. \<open>Prelude\<close> and \<open>Text\<close> hold what
  the theories share: ordered maps and sets of the standard library as sorted association lists and lists,
  decimal numbers, splitting and searching of strings.

  \<^bold>\<open>How code is read.\<close> A class or struct is a record with the members of the code (the prefix of a field names its record), an
  enumeration a datatype, a function or method a definition of the same name; a loop body or lambda that
  the code writes inline has its own definition. Functions that change a member return the new state. Errors are values of
  a sum or option type. Integers of the code are words or, where they count things, natural numbers with the wrap-around
  written out where a length or an offset can reach it.

  \<^bold>\<open>Bounds and fuel.\<close> There is no fuel. Loops that might not end are \<open>partial_function (option)\<close>, so that not returning
  is the value \<^const>\<open>None\<close>, and the properties state that they return: \<open>find_group\<close> of the union-find forest, \<open>stripFrom\<close> of
  the ABI tags (which does loop forever on one kind of name, see \<open>strip_never_returns\<close>), \<open>flowLoop\<close> of the data flows, \<open>propagateLoop\<close> of the
  locks on entry, \<open>carryBack\<close> of what callees hand to their callers, \<open>projectLoop\<close> of the accesses and \<open>spreadLoop\<close> of what calls instantiate (which never ends for one kind of
  recursion, see \<open>lifecycle_recursion_never_ends\<close>). The 64 orders \<open>kMaxOrdersOnLocksOnlyARecursionNames\<close>, the four rounds \<open>kMaxRounds\<close> of the wrapper
  summaries and the bound \<open>kMaxOrdersExaminedPerLock\<close> of the cycle search are the code's own; completeness of the search is stated for one that
  did not report reaching the bound. \<open>std::sort\<close> is modelled by the stable sort of the library, one of the results it may
  give. The interleavings of the worker pool are arguments (a schedule) or steps of a relation.

  \<^bold>\<open>What is a parameter.\<close> The compiler behind the in-memory interface, the file system, the JSON library, SHA-256 and
  MD5, relative paths, the clock, what LLVM answers about a value or a block (the record
  \<open>LockNaming\<close>, the fields of \<open>Program_IR\<close> and of \<open>UnitModule\<close>), and the collectors that walk LLVM values (\<open>UnitCollectors\<close>). Where a result could depend on the order of a hash map, that order is an argument
  (\<open>arrange\<close>). What a property needs of them is a named hypothesis, and its witness gives an instance.

  \<^bold>\<open>What the lemmas show.\<close> The checkers: soundness and completeness of data-race pairs and lock cycles against the guards of the
  code, exactness of leaked handles, and the agreement of the union-find forest with the classes of
  moves. The data flow: the loop ends, and the locks noted at an instruction are exactly those held on every path to it
  (the locale \<open>lock_flow\<close>, interpreted for the tracker and for the collector of lock orders). The call graph: the calls that close a
  cycle are those of Tarjan's components, the locks on entry are the least solution over the calls, which are those no chain of calls without them leads past, a wrapper's summary is
  right on every path unless a guard releases the lock, and what travels back along the calls reaches exactly the functions that lead to it (the
  locale \<open>carried_back\<close>). The loops over calls end and are complete: what a callee's fact stands for at a call is there, and nothing else (the
  locale \<open>call_spread\<close>, over stores with the laws of \<open>merged_store\<close>); for the lock orders of a unit \<open>explained\<close>, \<open>order_placed\<close> and \<open>taken_over\<close> say what is there and what must be, from the orders found in
  the functions, for the accesses of a unit the relations \<open>carried\<close> and \<open>made\<close> say what may be there. The coordinator: independence of the
  schedule, each unit accounted for once, one diagnostic per key. The builder and the two passes: facts no selected rule reads may be skipped, and
  the units the gate of the second pass leaves out report what they would against the whole program, so the gated report is that of analysing every unit again, both under the conditions of
  \<open>gate_applies\<close> and \<open>lock_rules_together\<close>, which the code does not check. The pool: the bound on live units, the peak recorded over both passes and
  the end of every pass but for exchanges that fail for ever. The front: round trips of names, dependency files, compiler messages and lock
  names; the pinned compile command; the exit code. The report: ordering, numbering, conserved counts, resolved references, the JSON document read back.

  \<^bold>\<open>Not modelled.\<close> The analyses of the IR that compute the facts of a unit (thread completion, tasks, shared objects, held
  members, publications, footprints) walk LLVM's values, types and
  aliases; the walks themselves are left out, and the facts they deliver are arguments of the builder. So are the calls into
  LLVM and clang, the tests, the scripts and the vendored projects.
\<close>

end
